(* ===== verification/Prelude.thy ===== *)
theory Prelude
  imports Main "HOL-Library.Word"
begin

unbundle bit_operations_syntax

section \<open>Prelude: machine types, byte lists and the shared automation\<close>

text \<open>
  Shared by every component: the names of the machine types the C++ sources use (an
  \<^verbatim>\<open>unsigned char\<close> is a \<open>byte\<close>, a \<^verbatim>\<open>uint32_t\<close> a \<open>u32\<close>, a \<^verbatim>\<open>size_t\<close> or an LP64
  \<^verbatim>\<open>unsigned long\<close> a \<open>u64\<close>), two collections of simplification rules, and generic facts on
  lists and words. An array of the sources is a list; a pointer into a constant array is the list
  of the elements from that pointer on.
\<close>

type_synonym byte = "8 word"
type_synonym u16 = "16 word"
type_synonym u32 = "32 word"
type_synonym u64 = "64 word"

named_theorems model_simps \<open>unfolding rules of the model's small definitions\<close>
named_theorems word_algebra \<open>exclusive-or and shift laws used by the cipher and checksum proofs\<close>

subsection \<open>Characters\<close>

text \<open>The C library's \<^verbatim>\<open>isspace\<close> in the C locale.\<close>

definition isspace :: "char \<Rightarrow> bool" where
  "isspace c \<longleftrightarrow> (let n = of_char c :: nat in n = 32 \<or> 9 \<le> n \<and> n \<le> 13)"

subsection \<open>Words\<close>

text \<open>\<^verbatim>\<open>htons\<close> and \<^verbatim>\<open>ntohs\<close> on a little-endian machine: the two bytes are swapped.\<close>

definition htons :: "u16 \<Rightarrow> u16" where
  "htons x = push_bit 8 x OR drop_bit 8 x"

lemma htons_htons [simp]: "htons (htons x) = x"
proof (rule bit_word_eqI)
  fix n assume n: "n < LENGTH(16)"
  show "bit (htons (htons x)) n = bit x n"
    using n by (cases "n < 8") (auto simp: htons_def bit_simps not_less dest: bit_imp_le_length)
qed

text \<open>The characters of a string that a function sees through \<^verbatim>\<open>c_str()\<close>.\<close>

definition c_str :: "string \<Rightarrow> string" where
  "c_str s = takeWhile (\<lambda>c. c \<noteq> CHR 0x00) s"

lemma c_str_id: "CHR 0x00 \<notin> set s \<Longrightarrow> c_str s = s"
  by (auto simp: c_str_def takeWhile_eq_all_conv)

lemma xor_cancel_left [word_algebra]: "(a::'a::len word) XOR (a XOR b) = b"
  by (simp add: xor.assoc [symmetric])

lemma xor_cancel_right [word_algebra]: "((b::'a::len word) XOR a) XOR a = b"
  by (simp add: xor.assoc)

lemma xor_right_inject: "((c::'a::len word) XOR a = c XOR b) = (a = b)"
  by (metis xor_cancel_left)

lemma split_low_byte:
  "(c::'a::len word) = push_bit 8 (drop_bit 8 c) XOR (c AND 0xFF)"
proof -
  have "c AND 0xFF = take_bit 8 c"
    using take_bit_eq_mask [of 8 c] by (simp add: mask_eq_exp_minus_1)
  then show ?thesis
    by (simp add: bit_eq_iff bit_simps) auto
qed

lemma unat_byte_less: "unat (b :: byte) < 256"
  using unsigned_less [of b] by simp

lemma byte_bits_eqI:
  fixes x y :: byte
  assumes "bit x 0 = bit y 0" "bit x 1 = bit y 1" "bit x 2 = bit y 2" "bit x 3 = bit y 3"
    "bit x 4 = bit y 4" "bit x 5 = bit y 5" "bit x 6 = bit y 6" "bit x 7 = bit y 7"
  shows "x = y"
proof (rule bit_word_eqI)
  fix n assume "n < LENGTH(8)"
  then consider "n = 0" | "n = 1" | "n = 2" | "n = 3" | "n = 4" | "n = 5" | "n = 6" | "n = 7"
    by fastforce
  then show "bit x n = bit y n"
    by cases (simp_all only: assms)
qed

lemma rotr_shifts:
  assumes "0 < k" and "k < LENGTH('a::len)"
  shows "drop_bit k x OR push_bit (LENGTH('a) - k) x = word_rotr k (x::'a word)"
proof (rule bit_word_eqI)
  fix n assume n: "n < LENGTH('a)"
  show "bit (drop_bit k x OR push_bit (LENGTH('a) - k) x) n = bit (word_rotr k x) n"
  proof (cases "n + k < LENGTH('a)")
    case True
    with n show ?thesis
      by (auto simp: bit_simps bit_word_rotr_iff add.commute)
  next
    case False
    then have "(n + k) mod LENGTH('a) = n - (LENGTH('a) - k)"
      using n assms by (simp add: mod_if)
    with False n show ?thesis
      using assms by (auto simp: bit_simps bit_word_rotr_iff add.commute dest: bit_imp_le_length)
  qed
qed

lemma rotl_shifts:
  assumes "0 < k" and "k < LENGTH('a::len)"
  shows "push_bit k x OR drop_bit (LENGTH('a) - k) x = word_rotl k (x::'a word)"
proof -
  have "word_rotl k x = word_rotr (LENGTH('a) - k) x"
  proof (rule bit_word_eqI)
    fix n assume "n < LENGTH('a)"
    moreover have "(n + (LENGTH('a) - k mod LENGTH('a))) mod LENGTH('a) = (n + (LENGTH('a) - k)) mod LENGTH('a)"
      using assms by simp
    ultimately show "bit (word_rotl k x) n = bit (word_rotr (LENGTH('a) - k) x) n"
      by (simp add: bit_word_rotl_iff bit_word_rotr_iff)
  qed
  then show ?thesis
    using assms rotr_shifts [of "LENGTH('a) - k" x] by (simp add: or.commute)
qed

lemma unat_of_nat32: "n < 2 ^ 32 \<Longrightarrow> unat (of_nat n :: u32) = n"
  by (simp add: unat_of_nat take_bit_nat_eq_self)

text \<open>The conversion \<^verbatim>\<open>(int)\<close> of a size or an unsigned counter.\<close>

definition to_int32 :: "nat \<Rightarrow> int" where
  "to_int32 n = sint (word_of_nat n :: u32)"

lemma to_int32_id: "n < 2 ^ 31 \<Longrightarrow> to_int32 n = int n"
proof -
  assume n: "n < 2 ^ 31"
  have "to_int32 n = signed_take_bit 31 (int n)" by (simp add: to_int32_def signed_of_nat)
  also have "\<dots> = int n" using n by (intro signed_take_bit_int_eq_self) simp_all
  finally show ?thesis .
qed

end
