(* ===== verification/Crc.thy ===== *)
theory Crc
  imports Prelude
begin

section \<open>Cyclic redundancy checks (util/cryption/CRC)\<close>

text \<open>
  The two table-driven checksums of \<^verbatim>\<open>CRC.cpp\<close>: \<^verbatim>\<open>CRCITU\<close> (16 bits, the X.25 polynomial) and
  \<^verbatim>\<open>CRC32\<close>. The tables are the source's. The locale \<open>reflected_crc\<close> states what a table must
  satisfy to implement the reflected bit-serial checksum of a polynomial, and holds the proofs
  that the byte-wise loop then computes that checksum and detects every one-byte error; it is
  interpreted on both tables.
\<close>

subsection \<open>Definitions\<close>

definition s_CRC16Table :: "u16 list" where
  "s_CRC16Table =
    [0x0000, 0x1189, 0x2312, 0x329b, 0x4624, 0x57ad, 0x6536, 0x74bf,
     0x8c48, 0x9dc1, 0xaf5a, 0xbed3, 0xca6c, 0xdbe5, 0xe97e, 0xf8f7,
     0x1081, 0x0108, 0x3393, 0x221a, 0x56a5, 0x472c, 0x75b7, 0x643e,
     0x9cc9, 0x8d40, 0xbfdb, 0xae52, 0xdaed, 0xcb64, 0xf9ff, 0xe876,
     0x2102, 0x308b, 0x0210, 0x1399, 0x6726, 0x76af, 0x4434, 0x55bd,
     0xad4a, 0xbcc3, 0x8e58, 0x9fd1, 0xeb6e, 0xfae7, 0xc87c, 0xd9f5,
     0x3183, 0x200a, 0x1291, 0x0318, 0x77a7, 0x662e, 0x54b5, 0x453c,
     0xbdcb, 0xac42, 0x9ed9, 0x8f50, 0xfbef, 0xea66, 0xd8fd, 0xc974,
     0x4204, 0x538d, 0x6116, 0x709f, 0x0420, 0x15a9, 0x2732, 0x36bb,
     0xce4c, 0xdfc5, 0xed5e, 0xfcd7, 0x8868, 0x99e1, 0xab7a, 0xbaf3,
     0x5285, 0x430c, 0x7197, 0x601e, 0x14a1, 0x0528, 0x37b3, 0x263a,
     0xdecd, 0xcf44, 0xfddf, 0xec56, 0x98e9, 0x8960, 0xbbfb, 0xaa72,
     0x6306, 0x728f, 0x4014, 0x519d, 0x2522, 0x34ab, 0x0630, 0x17b9,
     0xef4e, 0xfec7, 0xcc5c, 0xddd5, 0xa96a, 0xb8e3, 0x8a78, 0x9bf1,
     0x7387, 0x620e, 0x5095, 0x411c, 0x35a3, 0x242a, 0x16b1, 0x0738,
     0xffcf, 0xee46, 0xdcdd, 0xcd54, 0xb9eb, 0xa862, 0x9af9, 0x8b70,
     0x8408, 0x9581, 0xa71a, 0xb693, 0xc22c, 0xd3a5, 0xe13e, 0xf0b7,
     0x0840, 0x19c9, 0x2b52, 0x3adb, 0x4e64, 0x5fed, 0x6d76, 0x7cff,
     0x9489, 0x8500, 0xb79b, 0xa612, 0xd2ad, 0xc324, 0xf1bf, 0xe036,
     0x18c1, 0x0948, 0x3bd3, 0x2a5a, 0x5ee5, 0x4f6c, 0x7df7, 0x6c7e,
     0xa50a, 0xb483, 0x8618, 0x9791, 0xe32e, 0xf2a7, 0xc03c, 0xd1b5,
     0x2942, 0x38cb, 0x0a50, 0x1bd9, 0x6f66, 0x7eef, 0x4c74, 0x5dfd,
     0xb58b, 0xa402, 0x9699, 0x8710, 0xf3af, 0xe226, 0xd0bd, 0xc134,
     0x39c3, 0x284a, 0x1ad1, 0x0b58, 0x7fe7, 0x6e6e, 0x5cf5, 0x4d7c,
     0xc60c, 0xd785, 0xe51e, 0xf497, 0x8028, 0x91a1, 0xa33a, 0xb2b3,
     0x4a44, 0x5bcd, 0x6956, 0x78df, 0x0c60, 0x1de9, 0x2f72, 0x3efb,
     0xd68d, 0xc704, 0xf59f, 0xe416, 0x90a9, 0x8120, 0xb3bb, 0xa232,
     0x5ac5, 0x4b4c, 0x79d7, 0x685e, 0x1ce1, 0x0d68, 0x3ff3, 0x2e7a,
     0xe70e, 0xf687, 0xc41c, 0xd595, 0xa12a, 0xb0a3, 0x8238, 0x93b1,
     0x6b46, 0x7acf, 0x4854, 0x59dd, 0x2d62, 0x3ceb, 0x0e70, 0x1ff9,
     0xf78f, 0xe606, 0xd49d, 0xc514, 0xb1ab, 0xa022, 0x92b9, 0x8330,
     0x7bc7, 0x6a4e, 0x58d5, 0x495c, 0x3de3, 0x2c6a, 0x1ef1, 0x0f78]"

definition s_CRC32Table :: "u32 list" where
  "s_CRC32Table =
    [0x00000000, 0x77073096, 0xEE0E612C, 0x990951BA, 0x076DC419, 0x706AF48F, 0xE963A535, 0x9E6495A3,
     0x0EDB8832, 0x79DCB8A4, 0xE0D5E91E, 0x97D2D988, 0x09B64C2B, 0x7EB17CBD, 0xE7B82D07, 0x90BF1D91,
     0x1DB71064, 0x6AB020F2, 0xF3B97148, 0x84BE41DE, 0x1ADAD47D, 0x6DDDE4EB, 0xF4D4B551, 0x83D385C7,
     0x136C9856, 0x646BA8C0, 0xFD62F97A, 0x8A65C9EC, 0x14015C4F, 0x63066CD9, 0xFA0F3D63, 0x8D080DF5,
     0x3B6E20C8, 0x4C69105E, 0xD56041E4, 0xA2677172, 0x3C03E4D1, 0x4B04D447, 0xD20D85FD, 0xA50AB56B,
     0x35B5A8FA, 0x42B2986C, 0xDBBBC9D6, 0xACBCF940, 0x32D86CE3, 0x45DF5C75, 0xDCD60DCF, 0xABD13D59,
     0x26D930AC, 0x51DE003A, 0xC8D75180, 0xBFD06116, 0x21B4F4B5, 0x56B3C423, 0xCFBA9599, 0xB8BDA50F,
     0x2802B89E, 0x5F058808, 0xC60CD9B2, 0xB10BE924, 0x2F6F7C87, 0x58684C11, 0xC1611DAB, 0xB6662D3D,
     0x76DC4190, 0x01DB7106, 0x98D220BC, 0xEFD5102A, 0x71B18589, 0x06B6B51F, 0x9FBFE4A5, 0xE8B8D433,
     0x7807C9A2, 0x0F00F934, 0x9609A88E, 0xE10E9818, 0x7F6A0DBB, 0x086D3D2D, 0x91646C97, 0xE6635C01,
     0x6B6B51F4, 0x1C6C6162, 0x856530D8, 0xF262004E, 0x6C0695ED, 0x1B01A57B, 0x8208F4C1, 0xF50FC457,
     0x65B0D9C6, 0x12B7E950, 0x8BBEB8EA, 0xFCB9887C, 0x62DD1DDF, 0x15DA2D49, 0x8CD37CF3, 0xFBD44C65,
     0x4DB26158, 0x3AB551CE, 0xA3BC0074, 0xD4BB30E2, 0x4ADFA541, 0x3DD895D7, 0xA4D1C46D, 0xD3D6F4FB,
     0x4369E96A, 0x346ED9FC, 0xAD678846, 0xDA60B8D0, 0x44042D73, 0x33031DE5, 0xAA0A4C5F, 0xDD0D7CC9,
     0x5005713C, 0x270241AA, 0xBE0B1010, 0xC90C2086, 0x5768B525, 0x206F85B3, 0xB966D409, 0xCE61E49F,
     0x5EDEF90E, 0x29D9C998, 0xB0D09822, 0xC7D7A8B4, 0x59B33D17, 0x2EB40D81, 0xB7BD5C3B, 0xC0BA6CAD,
     0xEDB88320, 0x9ABFB3B6, 0x03B6E20C, 0x74B1D29A, 0xEAD54739, 0x9DD277AF, 0x04DB2615, 0x73DC1683,
     0xE3630B12, 0x94643B84, 0x0D6D6A3E, 0x7A6A5AA8, 0xE40ECF0B, 0x9309FF9D, 0x0A00AE27, 0x7D079EB1,
     0xF00F9344, 0x8708A3D2, 0x1E01F268, 0x6906C2FE, 0xF762575D, 0x806567CB, 0x196C3671, 0x6E6B06E7,
     0xFED41B76, 0x89D32BE0, 0x10DA7A5A, 0x67DD4ACC, 0xF9B9DF6F, 0x8EBEEFF9, 0x17B7BE43, 0x60B08ED5,
     0xD6D6A3E8, 0xA1D1937E, 0x38D8C2C4, 0x4FDFF252, 0xD1BB67F1, 0xA6BC5767, 0x3FB506DD, 0x48B2364B,
     0xD80D2BDA, 0xAF0A1B4C, 0x36034AF6, 0x41047A60, 0xDF60EFC3, 0xA867DF55, 0x316E8EEF, 0x4669BE79,
     0xCB61B38C, 0xBC66831A, 0x256FD2A0, 0x5268E236, 0xCC0C7795, 0xBB0B4703, 0x220216B9, 0x5505262F,
     0xC5BA3BBE, 0xB2BD0B28, 0x2BB45A92, 0x5CB36A04, 0xC2D7FFA7, 0xB5D0CF31, 0x2CD99E8B, 0x5BDEAE1D,
     0x9B64C2B0, 0xEC63F226, 0x756AA39C, 0x026D930A, 0x9C0906A9, 0xEB0E363F, 0x72076785, 0x05005713,
     0x95BF4A82, 0xE2B87A14, 0x7BB12BAE, 0x0CB61B38, 0x92D28E9B, 0xE5D5BE0D, 0x7CDCEFB7, 0x0BDBDF21,
     0x86D3D2D4, 0xF1D4E242, 0x68DDB3F8, 0x1FDA836E, 0x81BE16CD, 0xF6B9265B, 0x6FB077E1, 0x18B74777,
     0x88085AE6, 0xFF0F6A70, 0x66063BCA, 0x11010B5C, 0x8F659EFF, 0xF862AE69, 0x616BFFD3, 0x166CCF45,
     0xA00AE278, 0xD70DD2EE, 0x4E048354, 0x3903B3C2, 0xA7672661, 0xD06016F7, 0x4969474D, 0x3E6E77DB,
     0xAED16A4A, 0xD9D65ADC, 0x40DF0B66, 0x37D83BF0, 0xA9BCAE53, 0xDEBB9EC5, 0x47B2CF7F, 0x30B5FFE9,
     0xBDBDF21C, 0xCABAC28A, 0x53B39330, 0x24B4A3A6, 0xBAD03605, 0xCDD70693, 0x54DE5729, 0x23D967BF,
     0xB3667A2E, 0xC4614AB8, 0x5D681B02, 0x2A6F2B94, 0xB40BBE37, 0xC30C8EA1, 0x5A05DF1B, 0x2D02EF8D]"

text \<open>The \<^verbatim>\<open>for\<close> loop of \<^verbatim>\<open>CRCITU::calc\<close>: \<open>fcs\<close> is the loop variable, the list the bytes left.\<close>

fun CRCITU_loop :: "u16 \<Rightarrow> byte list \<Rightarrow> u16" where
  "CRCITU_loop fcs [] = fcs"
| "CRCITU_loop fcs (b # processData) =
     CRCITU_loop (drop_bit 8 fcs XOR s_CRC16Table ! unat ((fcs XOR ucast b) AND 0xFF)) processData"

definition CRCITU_calc :: "byte list \<Rightarrow> u16" where
  "CRCITU_calc processData = NOT (CRCITU_loop 0xFFFF processData)"

text \<open>
  \<^verbatim>\<open>CRC32::calc\<close>, the portable branch. \<open>None\<close> is the null pointer, for which the loop is
  skipped.
\<close>

fun CRC32_loop :: "u32 \<Rightarrow> byte list \<Rightarrow> u32" where
  "CRC32_loop fcs [] = fcs"
| "CRC32_loop fcs (b # processData) =
     CRC32_loop (drop_bit 8 fcs XOR s_CRC32Table ! unat ((fcs XOR ucast b) AND 0xFF)) processData"

definition CRC32_calc :: "byte list option \<Rightarrow> u32" where
  "CRC32_calc processData =
     (case processData of
        None \<Rightarrow> NOT 0xFFFFFFFF
      | Some bs \<Rightarrow> NOT (CRC32_loop 0xFFFFFFFF bs))"

text \<open>
  The bit-serial reference: one bit is shifted out on the right, and the reflected polynomial is
  added when it was set. \<open>crc_bit\<close> is the loop body of the table generator that the comment
  above \<^verbatim>\<open>CRC32::calc\<close> gives in C.
\<close>

definition crc_bit :: "'w::len word \<Rightarrow> 'w word \<Rightarrow> 'w word" where
  "crc_bit poly c = drop_bit 1 c XOR (if bit c 0 then poly else 0)"

definition crc_bits8 :: "'w::len word \<Rightarrow> 'w word \<Rightarrow> 'w word" where
  "crc_bits8 p c =
     crc_bit p (crc_bit p (crc_bit p (crc_bit p (crc_bit p (crc_bit p (crc_bit p (crc_bit p c)))))))"

definition crc_serial :: "'w::len word \<Rightarrow> 'w word \<Rightarrow> byte list \<Rightarrow> 'w word" where
  "crc_serial p c bs = foldl (\<lambda>c b. crc_bits8 p (c XOR ucast b)) c bs"

subsection \<open>The bit-serial step\<close>

lemma crc_bit_numerals:
  "crc_bit p 0 = 0"
  "crc_bit p 1 = p"
  "crc_bit p (numeral num.One) = p"
  "crc_bit p (numeral (num.Bit0 n)) = drop_bit (Suc 0) (numeral (num.Bit0 n))"
  "crc_bit p (numeral (num.Bit1 n)) = drop_bit (Suc 0) (numeral (num.Bit1 n)) XOR p"
  by (simp_all add: crc_bit_def)

lemma crc_bit_xor: "crc_bit p (a XOR b) = crc_bit p a XOR crc_bit p b"
  by (simp add: crc_bit_def bit_xor_iff xor.left_commute xor.commute xor.assoc)

lemma crc_bits8_xor: "crc_bits8 p (a XOR b) = crc_bits8 p a XOR crc_bits8 p b"
  by (simp add: crc_bits8_def crc_bit_xor)

lemma crc_bit_push: "k < 8 \<Longrightarrow> n + 8 \<le> LENGTH('w::len) \<Longrightarrow>
  crc_bit p (push_bit (Suc k) (take_bit n (x::'w word))) = push_bit k (take_bit n x)"
  by (rule bit_word_eqI) (auto simp: crc_bit_def bit_simps Suc_diff_le simp del: push_bit_Suc)

lemma crc_bits8_push:
  assumes "8 \<le> LENGTH('w::len)"
  shows "crc_bits8 p (push_bit 8 (drop_bit 8 (c::'w word))) = drop_bit 8 c"
proof -
  let ?n = "LENGTH('w) - 8"
  have "drop_bit 8 c = take_bit ?n (drop_bit 8 c)"
    by (rule bit_word_eqI) (auto simp: bit_simps dest: bit_imp_le_length)
  then obtain x where x: "drop_bit 8 c = take_bit ?n x"
    by blast
  have step: "crc_bit p (push_bit (Suc k) (take_bit ?n x)) = push_bit k (take_bit ?n x)"
    if "k < 8" for k
    using that assms by (intro crc_bit_push) auto
  have "8 = Suc 7" "7 = Suc 6" "6 = Suc 5" "5 = Suc 4" "4 = Suc 3" "3 = Suc 2" "2 = Suc 1" "1 = Suc 0"
    by simp_all
  then show ?thesis
    unfolding x crc_bits8_def by (metis step less_Suc_eq_le le_refl less_SucI push_bit_0_id id_apply)
qed

lemma crc_bit_inj:
  assumes top: "bit p (LENGTH('w::len) - 1)" and eq: "crc_bit p a = crc_bit p (b::'w word)"
  shows "a = b"
proof -
  have hi: "bit (crc_bit p c) (LENGTH('w) - 1) = bit c 0" for c :: "'w word"
    using top by (auto simp: crc_bit_def bit_simps dest: bit_imp_le_length)
  have low: "bit a 0 = bit b 0"
    using hi [of a] hi [of b] eq by simp
  then have "drop_bit 1 a = drop_bit 1 b"
    using eq by (auto simp: crc_bit_def dest: arg_cong [where f = "\<lambda>x. x XOR p"] simp: xor_cancel_right
        split: if_splits)
  then have "bit a (Suc n) = bit b (Suc n)" for n
    by (metis bit_drop_bit_eq comp_apply plus_1_eq_Suc)
  with low show ?thesis
    by (metis bit_word_eqI not0_implies_Suc)
qed

lemma crc_bits8_inj:
  assumes "bit p (LENGTH('w::len) - 1)" and "crc_bits8 p a = crc_bits8 p (b::'w word)"
  shows "a = b"
proof -
  have "(crc_bit p x = crc_bit p y) = (x = y)" for x y :: "'w word"
    using crc_bit_inj [OF assms(1)] by blast
  with assms(2) show ?thesis
    by (simp add: crc_bits8_def)
qed

lemma ucast_byte_inj:
  assumes "8 \<le> LENGTH('w::len)" and "(ucast b :: 'w word) = ucast (b'::byte)"
  shows "b = b'"
proof (rule bit_word_eqI)
  fix n assume "n < LENGTH(8)"
  with assms(1) have "bit (ucast b :: 'w word) n = bit b n" "bit (ucast b' :: 'w word) n = bit b' n"
    by (simp_all add: bit_ucast_iff)
  with assms(2) show "bit b n = bit b' n" by simp
qed

subsection \<open>Tables that implement a polynomial\<close>

locale reflected_crc =
  fixes poly :: "'w::len word" and table :: "'w word list"
  assumes width: "8 \<le> LENGTH('w)"
    and top_bit: "bit poly (LENGTH('w) - 1)"
    and table: "i < 256 \<Longrightarrow> table ! i = crc_bits8 poly (of_nat i)"
begin

lemma index_bound: "unat ((c::'w word) AND 0xFF) < 256"
proof -
  have "c AND 0xFF = take_bit 8 c"
    using take_bit_eq_mask [of 8 c] by (simp add: mask_eq_exp_minus_1)
  then show ?thesis
    by (simp add: unsigned_take_bit_eq take_bit_nat_less_exp [of 8, simplified])
qed

lemma table_step:
  "drop_bit 8 c XOR table ! unat ((c XOR ucast b) AND 0xFF) = crc_bits8 poly (c XOR ucast (b::byte))"
proof -
  let ?x = "c XOR ucast b :: 'w word"
  have high: "drop_bit 8 ?x = drop_bit 8 c"
    by (rule bit_word_eqI) (auto simp: bit_simps dest: bit_imp_le_length)
  have "crc_bits8 poly ?x = crc_bits8 poly (push_bit 8 (drop_bit 8 ?x)) XOR crc_bits8 poly (?x AND 0xFF)"
    by (metis split_low_byte crc_bits8_xor)
  also have "\<dots> = drop_bit 8 c XOR table ! unat (?x AND 0xFF)"
    using table [OF index_bound, of ?x] by (simp only: high crc_bits8_push [OF width] of_nat_unat ucast_id)
  finally show ?thesis ..
qed

lemma serial_inj: "length bs = n \<Longrightarrow> crc_serial poly c bs = crc_serial poly d bs \<Longrightarrow> c = d"
proof (induction bs arbitrary: c d n)
  case Nil
  then show ?case by (simp add: crc_serial_def)
next
  case (Cons b bs)
  then have "crc_bits8 poly (c XOR ucast b) = crc_bits8 poly (d XOR ucast b)"
    by (simp add: crc_serial_def)
  then have "c XOR ucast b = d XOR ucast b"
    by (rule crc_bits8_inj [OF top_bit])
  then show ?case
    by (metis xor_cancel_right)
qed

lemma one_byte_error:
  assumes "b \<noteq> b'"
  shows "crc_serial poly c (xs @ b # ys) \<noteq> crc_serial poly c (xs @ b' # ys)"
proof
  let ?d = "crc_serial poly c xs"
  assume "crc_serial poly c (xs @ b # ys) = crc_serial poly c (xs @ b' # ys)"
  then have "crc_serial poly (crc_bits8 poly (?d XOR ucast b)) ys =
      crc_serial poly (crc_bits8 poly (?d XOR ucast b')) ys"
    by (simp add: crc_serial_def)
  then have "crc_bits8 poly (?d XOR ucast b) = crc_bits8 poly (?d XOR ucast b')"
    by (rule serial_inj [OF refl])
  then have "?d XOR ucast b = ?d XOR ucast b'"
    by (rule crc_bits8_inj [OF top_bit])
  then have "(ucast b :: 'w word) = ucast b'"
    by (simp add: xor_right_inject)
  then have "b = b'"
    by (rule ucast_byte_inj [OF width])
  with assms show False ..
qed

end

lemma CRC16Table_serial: "map (crc_bits8 0x8408) (map of_nat [0..<256]) = s_CRC16Table"
  unfolding s_CRC16Table_def by (simp add: crc_bits8_def crc_bit_numerals upt_conv_Cons)

lemma CRC32Table_serial: "map (crc_bits8 0xEDB88320) (map of_nat [0..<256]) = s_CRC32Table"
  unfolding s_CRC32Table_def by (simp add: crc_bits8_def crc_bit_numerals upt_conv_Cons)

interpretation itu: reflected_crc "0x8408 :: u16" s_CRC16Table
  by unfold_locales (simp_all flip: CRC16Table_serial)

interpretation crc32: reflected_crc "0xEDB88320 :: u32" s_CRC32Table
  by unfold_locales (simp_all flip: CRC32Table_serial)

lemma CRCITU_loop_serial: "CRCITU_loop c bs = crc_serial 0x8408 c bs"
  by (induction c bs rule: CRCITU_loop.induct) (simp_all add: crc_serial_def itu.table_step)

lemma CRC32_loop_serial: "CRC32_loop c bs = crc_serial 0xEDB88320 c bs"
  by (induction c bs rule: CRC32_loop.induct) (simp_all add: crc_serial_def crc32.table_step)

subsection \<open>Properties\<close>

text \<open>
  The table-driven 16-bit checksum of \<^verbatim>\<open>CRCITU::calc\<close> is the complement of the bit-serial
  checksum of the reflected polynomial 0x8408 started at all ones, for every input.
\<close>

lemma CRCITU_calc_serial: "CRCITU_calc bs = NOT (crc_serial 0x8408 0xFFFF bs)"
  by (simp add: CRCITU_calc_def CRCITU_loop_serial)

text \<open>
  C36. The portable branch of \<^verbatim>\<open>CRC32::calc\<close> computes the bit-serial checksum of the reflected
  polynomial 0xEDB88320 (the generator in the comment above it), and 0 on a null pointer.
\<close>

theorem CRC32_calc_serial:
  "CRC32_calc None = 0 \<and> CRC32_calc (Some bs) = NOT (crc_serial 0xEDB88320 0xFFFFFFFF bs)"
  by (simp add: CRC32_calc_def CRC32_loop_serial)

text \<open>
  C37. Changing any single byte of a message changes both of its checksums: an error confined
  to one byte is always detected.
\<close>

theorem crc_detects_one_byte:
  assumes "b \<noteq> b'"
  shows "CRCITU_calc (xs @ b # ys) \<noteq> CRCITU_calc (xs @ b' # ys) \<and>
    CRC32_calc (Some (xs @ b # ys)) \<noteq> CRC32_calc (Some (xs @ b' # ys))"
  using itu.one_byte_error [OF assms] crc32.one_byte_error [OF assms]
  by (simp add: CRCITU_calc_def CRC32_calc_def CRCITU_loop_serial CRC32_loop_serial)

theorem crc_detects_one_byte_witness:
  "CRCITU_calc [1, 2, 3] \<noteq> CRCITU_calc [1, 7, 3] \<and> CRC32_calc (Some [1, 2, 3]) \<noteq> CRC32_calc (Some [1, 7, 3])"
  using crc_detects_one_byte [of "2 :: byte" 7 "[1]" "[3]"] by simp

end
