(* ===== verification/Block_Hasher.thy ===== *)
theory Block_Hasher
  imports Prelude
begin

section \<open>Buffered block hashing (the common part of util/cryption/sha1, sha256, sha512, ripemd160)\<close>

text \<open>
  The four Bitcoin-style hash classes keep the same state, the chaining words \<^verbatim>\<open>s\<close>, a block
  buffer \<^verbatim>\<open>buf\<close> and the byte count \<^verbatim>\<open>bytes\<close>, and have textually the same \<^verbatim>\<open>Write\<close>, up to the
  block size and the compression function. Here are the byte order helpers, the state, that
  \<^verbatim>\<open>Write\<close>, the relation between a state and the message absorbed so far, and the locale
  \<open>block_hasher\<close> in which the streaming lemmas are proved once for all of them.
\<close>

subsection \<open>Byte order\<close>

text \<open>
  \<^verbatim>\<open>be32toh\<close> and its kin are the platform's: reading with them the word stored at a pointer gives
  the value of the bytes in the named order.
\<close>

definition ReadBE32 :: "byte list \<Rightarrow> u32" where
  "ReadBE32 ptr = push_bit 24 (ucast (ptr ! 0)) OR push_bit 16 (ucast (ptr ! 1)) OR
     push_bit 8 (ucast (ptr ! 2)) OR ucast (ptr ! 3)"

definition WriteBE32 :: "u32 \<Rightarrow> byte list" where
  "WriteBE32 x = [ucast (drop_bit 24 x), ucast (drop_bit 16 x), ucast (drop_bit 8 x), ucast x]"

definition ReadBE64 :: "byte list \<Rightarrow> u64" where
  "ReadBE64 ptr = push_bit 56 (ucast (ptr ! 0)) OR push_bit 48 (ucast (ptr ! 1)) OR
     push_bit 40 (ucast (ptr ! 2)) OR push_bit 32 (ucast (ptr ! 3)) OR
     push_bit 24 (ucast (ptr ! 4)) OR push_bit 16 (ucast (ptr ! 5)) OR
     push_bit 8 (ucast (ptr ! 6)) OR ucast (ptr ! 7)"

definition WriteBE64 :: "u64 \<Rightarrow> byte list" where
  "WriteBE64 x = [ucast (drop_bit 56 x), ucast (drop_bit 48 x), ucast (drop_bit 40 x), ucast (drop_bit 32 x),
     ucast (drop_bit 24 x), ucast (drop_bit 16 x), ucast (drop_bit 8 x), ucast x]"

definition ReadLE32 :: "byte list \<Rightarrow> u32" where
  "ReadLE32 ptr = ucast (ptr ! 0) OR push_bit 8 (ucast (ptr ! 1)) OR
     push_bit 16 (ucast (ptr ! 2)) OR push_bit 24 (ucast (ptr ! 3))"

definition WriteLE32 :: "u32 \<Rightarrow> byte list" where
  "WriteLE32 x = [ucast x, ucast (drop_bit 8 x), ucast (drop_bit 16 x), ucast (drop_bit 24 x)]"

definition WriteLE64 :: "u64 \<Rightarrow> byte list" where
  "WriteLE64 x = [ucast x, ucast (drop_bit 8 x), ucast (drop_bit 16 x), ucast (drop_bit 24 x),
     ucast (drop_bit 32 x), ucast (drop_bit 40 x), ucast (drop_bit 48 x), ucast (drop_bit 56 x)]"

subsection \<open>State and Write\<close>

record 'w hasher =
  hs :: "'w list"
  hbuf :: "byte list"
  hbytes :: u64

text \<open>\<^verbatim>\<open>memcpy(buf + off, src, n)\<close> with \<open>src\<close> the \<open>n\<close> source bytes, into an array.\<close>

definition mem_copy :: "byte list \<Rightarrow> nat \<Rightarrow> byte list \<Rightarrow> byte list" where
  "mem_copy b off src = take off b @ src @ drop (off + length src) b"

text \<open>
  The \<^verbatim>\<open>while (end >= data + B)\<close> loop: full blocks are compressed straight from the source. The
  loop returns the object and what is left of the data.
\<close>

function block_loop ::
  "nat \<Rightarrow> ('w list \<Rightarrow> byte list \<Rightarrow> 'w list) \<Rightarrow> 'w hasher \<Rightarrow> byte list \<Rightarrow> 'w hasher \<times> byte list"
where
  "block_loop B transform h data =
     (if 0 < B \<and> B \<le> length data
      then block_loop B transform (h\<lparr>hs := transform (hs h) data, hbytes := hbytes h + of_nat B\<rparr>) (drop B data)
      else (h, data))"
  by pat_completeness auto
termination
  by (relation "measure (\<lambda>(B, t, h, d). length d)") auto

declare block_loop.simps [simp del]

definition block_Write ::
  "nat \<Rightarrow> ('w list \<Rightarrow> byte list \<Rightarrow> 'w list) \<Rightarrow> 'w hasher \<Rightarrow> byte list \<Rightarrow> 'w hasher"
where
  "block_Write B transform h data =
     (let bufsize = unat (hbytes h) mod B;
          (h, data, bufsize) =
            (if bufsize \<noteq> 0 \<and> B \<le> bufsize + length data
             then let b = mem_copy (hbuf h) bufsize (take (B - bufsize) data)
                  in (h\<lparr>hbuf := b, hbytes := hbytes h + of_nat (B - bufsize), hs := transform (hs h) b\<rparr>,
                      drop (B - bufsize) data, 0)
             else (h, data, bufsize));
          (h, data) = block_loop B transform h data
      in if data \<noteq> []
         then h\<lparr>hbuf := mem_copy (hbuf h) bufsize data, hbytes := hbytes h + of_nat (length data)\<rparr>
         else h)"

subsection \<open>What a state has absorbed\<close>

text \<open>\<open>absorb\<close> chains the compression function over the whole blocks of a message.\<close>

function absorb :: "nat \<Rightarrow> ('s \<Rightarrow> byte list \<Rightarrow> 's) \<Rightarrow> 's \<Rightarrow> byte list \<Rightarrow> 's" where
  "absorb B transform s m =
     (if 0 < B \<and> B \<le> length m then absorb B transform (transform s m) (drop B m) else s)"
  by pat_completeness auto
termination
  by (relation "measure (\<lambda>(B, t, s, m). length m)") auto

declare absorb.simps [simp del]

definition absorbed ::
  "nat \<Rightarrow> ('w list \<Rightarrow> byte list \<Rightarrow> 'w list) \<Rightarrow> 'w list \<Rightarrow> 'w hasher \<Rightarrow> byte list \<Rightarrow> bool"
where
  "absorbed B transform iv h m \<longleftrightarrow>
     length (hbuf h) = B \<and> hbytes h = of_nat (length m) \<and> hs h = absorb B transform iv m \<and>
     take (length m mod B) (hbuf h) = drop (length m - length m mod B) m"

text \<open>The smallest number of zero bytes that brings \<open>n\<close> bytes and the marker to \<open>target\<close> modulo \<open>B\<close>.\<close>

definition pad_zeros :: "nat \<Rightarrow> nat \<Rightarrow> nat \<Rightarrow> nat" where
  "pad_zeros B target n = hd (filter (\<lambda>k. (n + 1 + k) mod B = target) [0..<B])"

definition md_pad :: "nat \<Rightarrow> nat \<Rightarrow> nat \<Rightarrow> byte list" where
  "md_pad B target n = 0x80 # replicate (pad_zeros B target n) 0"

subsection \<open>Lemmas on absorbing\<close>

lemma length_Write32 [simp]: "length (WriteBE32 x) = 4" "length (WriteLE32 x) = 4"
  by (simp_all add: WriteBE32_def WriteLE32_def)

lemma length_Write64 [simp]: "length (WriteBE64 x) = 8" "length (WriteLE64 x) = 8"
  by (simp_all add: WriteBE64_def WriteLE64_def)

lemma length_mem_copy [simp]:
  "off + length src \<le> length b \<Longrightarrow> length (mem_copy b off src) = length b"
  by (simp add: mem_copy_def)

lemma absorb_short: "length m < B \<Longrightarrow> absorb B f s m = s"
  by (simp add: absorb.simps)

lemma pad_zeros_bound:
  assumes "0 < B" and "target < B"
  shows "pad_zeros B target n < B \<and> (n + 1 + pad_zeros B target n) mod B = target"
proof -
  let ?k = "(target + (B - (n + 1) mod B)) mod B"
  have "(n + 1 + ?k) mod B = ((n + 1) mod B + (target + (B - (n + 1) mod B))) mod B"
    by (simp only: mod_add_right_eq mod_add_left_eq)
  also have "(n + 1) mod B + (target + (B - (n + 1) mod B)) = target + B"
    using mod_less_divisor [OF assms(1), of "n + 1"] by linarith
  also have "(target + B) mod B = target"
    using assms by simp
  finally have "?k \<in> set (filter (\<lambda>k. (n + 1 + k) mod B = target) [0..<B])"
    using assms by simp
  then have "filter (\<lambda>k. (n + 1 + k) mod B = target) [0..<B] \<noteq> []"
    by (metis empty_iff list.set(1))
  from hd_in_set [OF this] show ?thesis
    unfolding pad_zeros_def by simp
qed

lemma pad_zeros_unique:
  assumes "k < B" and "(n + 1 + k) mod B = target"
  shows "pad_zeros B target n = k"
proof -
  have p: "pad_zeros B target n < B" "(n + 1 + pad_zeros B target n) mod B = (n + 1 + k) mod B"
    using pad_zeros_bound [of B target n] assms by auto
  have "i = j" if "i < B" "j < B" "(n + 1 + i) mod B = (n + 1 + j) mod B" "i \<le> j" for i j
  proof -
    have "B dvd j - i"
      using that(3,4) mod_eq_dvd_iff_nat [of "n + 1 + i" "n + 1 + j" B] by simp
    with that show ?thesis
      by (metis diff_is_0_eq dvd_imp_le le_antisym less_imp_diff_less linorder_not_less neq0_conv)
  qed
  with p assms(1) show ?thesis
    by (metis nat_le_linear)
qed

subsection \<open>The streaming contract\<close>

locale block_hasher =
  fixes B :: nat and transform :: "'w list \<Rightarrow> byte list \<Rightarrow> 'w list"
    and upd :: "'w hasher \<Rightarrow> byte list \<Rightarrow> 'w hasher"
  assumes B_pos: "0 < B" and B_dvd: "B dvd 2 ^ 64"
    and transform_take: "B \<le> length d \<Longrightarrow> transform s (take B d) = transform s d"
    and upd: "upd h d = block_Write B transform h d"
begin

abbreviation sponge :: "'w list \<Rightarrow> byte list \<Rightarrow> 'w list" where
  "sponge \<equiv> absorb B transform"

lemma absorb_block: "length b = B \<Longrightarrow> sponge s (b @ m) = sponge (transform s b) m"
  using B_pos transform_take [of "b @ m" s] by (subst absorb.simps) simp

lemma absorb_append: "length m mod B = 0 \<Longrightarrow> sponge s (m @ d) = sponge (sponge s m) d"
proof (induction "length m" arbitrary: m s rule: less_induct)
  case less
  show ?case
  proof (cases "m = []")
    case True
    then show ?thesis using B_pos by (simp add: absorb_short)
  next
    case False
    with less.prems B_pos have "B \<le> length m"
      by (metis length_0_conv linorder_not_less mod_less)
    then obtain b r where m: "m = b @ r" and b: "length b = B"
      by (metis append_take_drop_id length_take min.absorb2)
    with less.prems B_pos have "length r mod B = 0" "length r < length m"
      by simp_all
    then show ?thesis
      using less.hyps [of r] by (simp add: m absorb_block b)
  qed
qed

lemma absorb_tail:
  "sponge s m = sponge s (take (length m - length m mod B) m)"
proof -
  let ?n = "length m - length m mod B"
  have "sponge s (take ?n m @ drop ?n m) = sponge (sponge s (take ?n m)) (drop ?n m)"
    by (rule absorb_append) simp
  also have "\<dots> = sponge s (take ?n m)"
    using B_pos by (intro absorb_short) simp
  finally show ?thesis by simp
qed

lemma count_mod: "unat (of_nat n :: u64) mod B = n mod B"
  using B_dvd by (simp add: unat_of_nat mod_mod_cancel)

text \<open>The loop on whole blocks, started with an empty buffer.\<close>

lemma block_loop_result:
  "block_loop B transform h d =
     (h\<lparr>hs := sponge (hs h) d, hbytes := hbytes h + of_nat (length d - length d mod B)\<rparr>,
      drop (length d - length d mod B) d)"
proof (induction "length d" arbitrary: d h rule: less_induct)
  case less
  show ?case
  proof (cases "B \<le> length d")
    case True
    let ?r = "drop B d"
    have "length d mod B = length ?r mod B" "length ?r = length d - B"
      using True by (simp_all add: le_mod_geq)
    then have len: "length d - length d mod B = B + (length ?r - length ?r mod B)"
      using True mod_less_eq_dividend [of "length ?r" B] by linarith
    have "length ?r < length d"
      using True B_pos by simp
    from less.hyps [OF this] show ?thesis
      using True B_pos
      by (subst block_loop.simps, subst absorb.simps) (simp add: len add.commute algebra_simps)
  next
    case False
    then show ?thesis
      by (subst block_loop.simps) (simp add: absorb_short)
  qed
qed

lemma finish_aligned:
  assumes "absorbed B transform iv h m" and "length m mod B = 0"
  shows "absorbed B transform iv
    (case block_loop B transform h d of (h, d) \<Rightarrow>
       if d \<noteq> [] then h\<lparr>hbuf := mem_copy (hbuf h) 0 d, hbytes := hbytes h + of_nat (length d)\<rparr> else h) (m @ d)"
proof -
  let ?r = "length d mod B"
  have len: "length (m @ d) mod B = ?r"
    using assms(2) by (metis length_append mod_add_left_eq add_0)
  have sub: "(of_nat (length d - ?r) :: u64) = of_nat (length d) - of_nat ?r"
    by (simp add: of_nat_diff)
  have skip: "drop (length m + k) (m @ d) = drop k d" for k
    by simp
  have le: "?r \<le> length d"
    by (rule mod_less_eq_dividend)
  then have tl: "length (drop (length d - ?r) d) = ?r"
    by simp
  from le have "drop (length (m @ d) - ?r) (m @ d) = drop (length m + (length d - ?r)) (m @ d)"
    by (metis Nat.add_diff_assoc length_append)
  also have "\<dots> = drop (length d - ?r) d"
    by (rule skip)
  finally have "drop (length (m @ d) - ?r) (m @ d) = drop (length d - ?r) d" .
  moreover have "sponge (hs h) d = sponge iv (m @ d)"
    using assms by (simp add: absorbed_def absorb_append)
  moreover have "drop (length d - ?r) d = [] \<longleftrightarrow> ?r = 0"
    using tl by (metis length_0_conv)
  ultimately show ?thesis
    using assms(1) len B_pos
    by (cases "?r = 0") (simp_all add: absorbed_def block_loop_result mem_copy_def sub)
qed

text \<open>Filling the buffer that holds the tail of the message completes a block.\<close>

lemma absorb_fill:
  assumes buf: "length buf = B" and tail: "take (length m mod B) buf = drop (length m - length m mod B) m"
    and d1: "length d1 = B - length m mod B"
  shows "transform (sponge iv m) (mem_copy buf (length m mod B) d1) = sponge iv (m @ d1) \<and>
    length (m @ d1) mod B = 0"
proof -
  let ?r = "length m mod B" and ?n = "length m - length m mod B"
  have rB: "?r < B" using B_pos by simp
  let ?b = "mem_copy buf ?r d1"
  have b: "?b = drop ?n m @ d1"
    using buf d1 rB by (simp add: mem_copy_def tail)
  have full: "length (m @ d1) mod B = 0"
    using d1 rB by (metis length_append mod_add_left_eq le_add_diff_inverse less_imp_le mod_self)
  have "sponge iv (m @ d1) = sponge iv (take ?n m @ ?b)"
    by (simp add: b flip: append_assoc)
  also have "\<dots> = sponge (sponge iv m) ?b"
    using absorb_append [of "take ?n m" iv ?b] absorb_tail [of iv m] by simp
  also have "\<dots> = transform (sponge iv m) ?b"
    using absorb_block [of ?b "sponge iv m" "[]"] buf d1 rB B_pos by (simp add: absorb_short)
  finally show ?thesis using full by simp
qed

lemma absorb_keep:
  assumes "length m mod B + length d < B"
  shows "sponge iv (m @ d) = sponge iv m \<and> length (m @ d) mod B = length m mod B + length d"
proof -
  let ?r = "length m mod B" and ?n = "length m - length m mod B"
  have len: "length (m @ d) mod B = ?r + length d"
    using assms by (metis length_append mod_add_left_eq mod_less)
  have "length (m @ d) - (?r + length d) = ?n"
    by simp
  then have "take (length (m @ d) - length (m @ d) mod B) (m @ d) = take ?n m"
    unfolding len by (simp only: take_append) simp
  then show ?thesis
    using absorb_tail [of iv "m @ d"] absorb_tail [of iv m] len by simp
qed

lemma absorbed_upd:
  assumes "absorbed B transform iv h m"
  shows "absorbed B transform iv (upd h d) (m @ d)"
proof -
  let ?r = "length m mod B" and ?n = "length m - length m mod B"
  have cnt: "unat (hbytes h) mod B = ?r" and buf: "length (hbuf h) = B"
    and tail: "take ?r (hbuf h) = drop ?n m" and st: "hs h = sponge iv m"
    using assms by (simp_all add: absorbed_def count_mod)
  have rB: "?r < B" using B_pos by simp
  consider (aligned) "?r = 0" | (fill) "?r \<noteq> 0" "B \<le> ?r + length d"
    | (short) "?r \<noteq> 0" "?r + length d < B" by linarith
  then show ?thesis
  proof cases
    case aligned
    from finish_aligned [OF assms aligned, of d] show ?thesis
      by (simp add: upd block_Write_def cnt aligned)
  next
    case fill
    define d1 where "d1 = take (B - ?r) d"
    define d2 where "d2 = drop (B - ?r) d"
    have d: "d = d1 @ d2" and d1: "length d1 = B - ?r"
      using fill by (simp_all add: d1_def d2_def)
    let ?b = "mem_copy (hbuf h) ?r d1"
    note fl = absorb_fill [OF buf tail d1, of iv, folded st]
    then have full: "length (m @ d1) mod B = 0"
      by simp
    have "absorbed B transform iv
        (h\<lparr>hbuf := ?b, hbytes := hbytes h + of_nat (B - ?r), hs := transform (hs h) ?b\<rparr>) (m @ d1)"
      using assms full fl d1 rB by (simp add: absorbed_def del: length_append) simp
    from finish_aligned [OF this full, of d2] show ?thesis
      using fill by (simp add: upd block_Write_def cnt Let_def flip: d1_def d2_def) (simp add: d)
  next
    case short
    have "block_loop B transform h d = (h, d)"
      using short by (simp add: block_loop.simps)
    then have "upd h d = (if d \<noteq> [] then h\<lparr>hbuf := mem_copy (hbuf h) ?r d,
        hbytes := hbytes h + of_nat (length d)\<rparr> else h)"
      using short by (simp add: upd block_Write_def cnt)
    moreover note absorb_keep [OF short(2), of iv]
    ultimately show ?thesis
      using short assms tail buf
      by (simp add: absorbed_def mem_copy_def)
  qed
qed

lemma absorbed_init: "length b = B \<Longrightarrow> absorbed B transform iv \<lparr>hs = iv, hbuf = b, hbytes = 0\<rparr> []"
  using B_pos by (simp add: absorbed_def absorb_short)

lemma absorbed_stream:
  "absorbed B transform iv h m \<Longrightarrow> absorbed B transform iv (foldl upd h cs) (m @ concat cs)"
  by (induction cs arbitrary: h m) (auto dest: absorbed_upd simp flip: append_assoc)

lemma absorbed_hs: "absorbed B transform iv h m \<Longrightarrow> hs (upd (upd h p) z) = sponge iv (m @ p @ z)"
  by (metis absorbed_def absorbed_upd append_assoc)

lemma absorbed_count: "absorbed B transform iv h m \<Longrightarrow> hbytes h = of_nat (length m) \<and> unat (hbytes h) mod B = length m mod B"
  by (simp add: absorbed_def count_mod)

lemma absorbed_reset: "absorbed B transform iv h m \<Longrightarrow> absorbed B transform iv' (h\<lparr>hbytes := 0, hs := iv'\<rparr>) []"
  using B_pos by (simp add: absorbed_def absorb_short)

lemma absorbed_upd_upd: "absorbed B transform iv h m \<Longrightarrow> \<exists>m'. absorbed B transform iv (upd (upd h p) z) m'"
  by (metis absorbed_upd)

lemma absorbed_buf: "absorbed B transform iv h m \<Longrightarrow> length (hbuf h) = B"
  by (simp add: absorbed_def)

end

subsection \<open>The padding the code writes\<close>

lemma take_marker_zeros: "k \<le> n \<Longrightarrow> take (1 + k) (x # replicate n (0::byte)) = x # replicate k 0"
  by simp

lemma pad_zeros_code:
  assumes "target < B"
  shows "pad_zeros B target n = (target + B - 1 - n mod B) mod B"
proof (rule pad_zeros_unique)
  let ?r = "n mod B" and ?k = "target + B - 1 - n mod B"
  have "(n + 1 + ?k mod B) mod B = (?r + (1 + ?k)) mod B"
    by (metis add.assoc mod_add_left_eq mod_add_right_eq)
  also have "?r + (1 + ?k) = target + B"
    using mod_less_divisor [of B n] assms by linarith
  finally show "(n + 1 + ?k mod B) mod B = target"
    using assms by simp
qed (use assms in simp)

lemma code_pad_64:
  "take (1 + ((119 - n mod 64) mod 64)) (0x80 # replicate 63 0) = md_pad 64 56 n"
  by (simp add: md_pad_def min_def pad_zeros_code)

lemma code_pad_128:
  "take (1 + ((239 - n mod 128) mod 128)) (0x80 # replicate 127 0) = md_pad 128 112 n"
  by (simp add: md_pad_def min_def pad_zeros_code)

end
