(* ===== verification/Sha2_Common.thy ===== *)
theory Sha2_Common
  imports Block_Hasher
begin

section \<open>The SHA-2 compression function, rolled\<close>

text \<open>
  \<^verbatim>\<open>Transform\<close> of \<^verbatim>\<open>sha256.cpp\<close> and \<^verbatim>\<open>sha512.cpp\<close> unrolls all rounds, renames the working variables
  instead of moving them and keeps only sixteen schedule words alive. This theory relates that
  shape to the standard's description: \<open>sha2_run\<close> is a rolled program with the same bindings in
  the same order (so that unrolling it gives the code's term), and the locale \<open>sha2\<close> shows that
  it computes the standard's fold of the round function over the full message schedule.
\<close>

type_synonym 'w regs = "'w \<times> 'w \<times> 'w \<times> 'w \<times> 'w \<times> 'w \<times> 'w \<times> 'w"
type_synonym 'w window =
  "'w \<times> 'w \<times> 'w \<times> 'w \<times> 'w \<times> 'w \<times> 'w \<times> 'w \<times> 'w \<times> 'w \<times> 'w \<times> 'w \<times> 'w \<times> 'w \<times> 'w \<times> 'w"

text \<open>
  One entry of the program per round: the round constant, and how the round's schedule word comes
  from the sixteen previous ones.
\<close>

fun sha2_run ::
  "('w \<Rightarrow> 'w \<Rightarrow> 'w \<Rightarrow> 'w \<Rightarrow> 'w \<Rightarrow> 'w \<Rightarrow> 'w \<Rightarrow> 'w \<Rightarrow> 'w \<Rightarrow> 'w \<Rightarrow> 'w \<times> 'w) \<Rightarrow> ('w \<times> ('w window \<Rightarrow> 'w)) list \<Rightarrow>
   'w window \<Rightarrow> 'w regs \<Rightarrow> ('w regs \<Rightarrow> 'r) \<Rightarrow> 'r"
where
  "sha2_run rnd [] win r cont = cont r"
| "sha2_run rnd ((k, sel) # ks) (w0, w1, w2, w3, w4, w5, w6, w7, w8, w9, w10, w11, w12, w13, w14, w15)
     (a, b, c, d, e, f, g, h) cont =
     (let w = sel (w0, w1, w2, w3, w4, w5, w6, w7, w8, w9, w10, w11, w12, w13, w14, w15) in
      case rnd a b c d e f g h k w of
        (d', h') \<Rightarrow> sha2_run rnd ks (w1, w2, w3, w4, w5, w6, w7, w8, w9, w10, w11, w12, w13, w14, w15, w)
                     (h', a, b, c, d', e, f, g) cont)"

text \<open>
  The standard's constants are the first bits of the fractional parts of roots of the first primes:
  \<open>root_frac e w p k\<close> says that \<open>k\<close> is the first \<open>w\<close> bits of the fractional part of the
  \<open>e\<close>-th root of \<open>p\<close> (the integer part of which is below 8).
\<close>

definition first_primes :: "nat list" where
  "first_primes =
    [2, 3, 5, 7, 11, 13, 17, 19, 23, 29, 31, 37, 41, 43, 47, 53, 59, 61, 67, 71,
     73, 79, 83, 89, 97, 101, 103, 107, 109, 113, 127, 131, 137, 139, 149, 151, 157, 163, 167, 173,
     179, 181, 191, 193, 197, 199, 211, 223, 227, 229, 233, 239, 241, 251, 257, 263, 269, 271, 277, 281,
     283, 293, 307, 311, 313, 317, 331, 337, 347, 349, 353, 359, 367, 373, 379, 383, 389, 397, 401, 409]"

definition int_root :: "nat \<Rightarrow> nat \<Rightarrow> nat" where
  "int_root e p =
     (if 7 ^ e \<le> p then 7 else if 6 ^ e \<le> p then 6 else if 5 ^ e \<le> p then 5 else if 4 ^ e \<le> p then 4
      else if 3 ^ e \<le> p then 3 else if 2 ^ e \<le> p then 2 else 1)"

definition root_frac :: "nat \<Rightarrow> nat \<Rightarrow> nat \<Rightarrow> nat \<Rightarrow> bool" where
  "root_frac e w p k \<longleftrightarrow>
     (let q = int_root e p * 2 ^ w + k in q ^ e \<le> p * 2 ^ (e * w) \<and> p * 2 ^ (e * w) < (q + 1) ^ e)"

text \<open>The standard's message schedule (FIPS 180-4, 6.2.2 and 6.4.2, step 1).\<close>

fun sha2_W :: "('w::plus \<Rightarrow> 'w) \<Rightarrow> ('w \<Rightarrow> 'w) \<Rightarrow> 'w list \<Rightarrow> nat \<Rightarrow> 'w" where
  "sha2_W sig0 sig1 M t =
     (if t < 16 then M ! t
      else sig1 (sha2_W sig0 sig1 M (t - 2)) + sha2_W sig0 sig1 M (t - 7) +
           sig0 (sha2_W sig0 sig1 M (t - 15)) + sha2_W sig0 sig1 M (t - 16))"

declare sha2_W.simps [simp del]

text \<open>The standard's working variables after all rounds (step 3).\<close>

definition sha2_rounds :: "('w regs \<Rightarrow> 'w \<Rightarrow> 'w \<Rightarrow> 'w regs) \<Rightarrow> 'w list \<Rightarrow> (nat \<Rightarrow> 'w) \<Rightarrow> 'w regs \<Rightarrow> 'w regs" where
  "sha2_rounds step K sched r = foldl (\<lambda>r t. step r (K ! t) (sched t)) r [0..<length K]"

fun shift_in :: "'w window \<Rightarrow> 'w \<Rightarrow> 'w window" where
  "shift_in (w0, w1, w2, w3, w4, w5, w6, w7, w8, w9, w10, w11, w12, w13, w14, w15) w =
     (w1, w2, w3, w4, w5, w6, w7, w8, w9, w10, w11, w12, w13, w14, w15, w)"

definition window_at :: "(nat \<Rightarrow> 'w) \<Rightarrow> nat \<Rightarrow> 'w window" where
  "window_at f t = (f t, f (t + 1), f (t + 2), f (t + 3), f (t + 4), f (t + 5), f (t + 6), f (t + 7), f (t + 8),
     f (t + 9), f (t + 10), f (t + 11), f (t + 12), f (t + 13), f (t + 14), f (t + 15))"

fun next_word :: "('w::plus \<Rightarrow> 'w) \<Rightarrow> ('w \<Rightarrow> 'w) \<Rightarrow> 'w window \<Rightarrow> 'w" where
  "next_word sig0 sig1 (w0, w1, w2, w3, w4, w5, w6, w7, w8, w9, w10, w11, w12, w13, w14, w15) =
     w0 + (sig1 w14 + w9 + sig0 w1)"

lemma take_first_primes:
  "take 8 first_primes = [2, 3, 5, 7, 11, 13, 17, 19]"
  "take 64 first_primes =
    [2, 3, 5, 7, 11, 13, 17, 19, 23, 29, 31, 37, 41, 43, 47, 53, 59, 61, 67, 71,
     73, 79, 83, 89, 97, 101, 103, 107, 109, 113, 127, 131, 137, 139, 149, 151, 157, 163, 167, 173,
     179, 181, 191, 193, 197, 199, 211, 223, 227, 229, 233, 239, 241, 251, 257, 263, 269, 271, 277, 281,
     283, 293, 307, 311]"
  "take 80 first_primes = first_primes"
  by (simp_all add: first_primes_def)

lemma shift_in_window: "shift_in (window_at f t) (f (t + 16)) = window_at f (Suc t)"
  by (simp add: window_at_def numeral_eq_Suc)

lemma upt_16: "[0..<16] = [0, 1, 2, 3, 4, 5, 6, 7, 8, 9, 10, 11, 12, 13, 14, 15]"
  by (simp add: upt_conv_Cons)

locale sha2 =
  fixes rnd :: "'w::{comm_monoid_add} \<Rightarrow> 'w \<Rightarrow> 'w \<Rightarrow> 'w \<Rightarrow> 'w \<Rightarrow> 'w \<Rightarrow> 'w \<Rightarrow> 'w \<Rightarrow> 'w \<Rightarrow> 'w \<Rightarrow> 'w \<times> 'w"
    and step :: "'w regs \<Rightarrow> 'w \<Rightarrow> 'w \<Rightarrow> 'w regs"
    and sig0 :: "'w \<Rightarrow> 'w" and sig1 :: "'w \<Rightarrow> 'w"
  assumes rnd_step: "rnd a b c d e f g h k w = (d', h') \<Longrightarrow> step (a, b, c, d, e, f, g, h) k w = (h', a, b, c, d', e, f, g)"
begin

abbreviation sched :: "'w list \<Rightarrow> nat \<Rightarrow> 'w" where
  "sched \<equiv> sha2_W sig0 sig1"

definition exec_round :: "'w window \<times> 'w regs \<Rightarrow> 'w \<times> ('w window \<Rightarrow> 'w) \<Rightarrow> 'w window \<times> 'w regs" where
  "exec_round s p = (shift_in (fst s) (snd p (fst s)), step (snd s) (fst p) (snd p (fst s)))"

lemma run_Cons:
  "sha2_run rnd ((k, sel) # ks) win r cont = sha2_run rnd ks (shift_in win (sel win)) (step r k (sel win)) cont"
proof (cases "(rnd, (k, sel) # ks, win, r, cont)" rule: sha2_run.cases)
  case (2 rnd' k' sel' ks' w0 w1 w2 w3 w4 w5 w6 w7 w8 w9 w10 w11 w12 w13 w14 w15 a b c d e f g h cont')
  obtain d' h' where "rnd a b c d e f g h k (sel win) = (d', h')"
    by force
  with "2" show ?thesis
    using rnd_step [of a b c d e f g h k "sel win"] by simp
qed simp

lemma run_foldl: "sha2_run rnd ks win r cont = cont (snd (foldl exec_round (win, r) ks))"
proof (induction ks arbitrary: win r)
  case (Cons p ks)
  obtain k sel where p: "p = (k, sel)" by force
  show ?case
    by (simp only: p run_Cons Cons.IH foldl.simps exec_round_def fst_conv snd_conv)
qed simp

lemma loads:
  "foldl exec_round (win, r) (map (\<lambda>t. (K ! t, \<lambda>_. M ! t)) [0..<16]) =
     (window_at (sched M) 0, foldl (\<lambda>r t. step r (K ! t) (sched M t)) r [0..<16])"
  by (cases "(win, M ! 0)" rule: shift_in.cases)
    (simp add: upt_16 exec_round_def window_at_def sha2_W.simps numeral_2_eq_2)

lemma next_word_sched: "next_word sig0 sig1 (window_at (sched M) t) = sched M (t + 16)"
  by (subst sha2_W.simps) (simp add: window_at_def ac_simps)

lemma schedules:
  "foldl exec_round (window_at (sched M) t, r) (map (\<lambda>t. (K ! t, next_word sig0 sig1)) [t + 16..<t + 16 + n]) =
     (window_at (sched M) (t + n), foldl (\<lambda>r t. step r (K ! t) (sched M t)) r [t + 16..<t + 16 + n])"
proof (induction n)
  case (Suc n)
  have upt: "[t + 16..<t + 16 + Suc n] = [t + 16..<t + 16 + n] @ [t + n + 16]"
    using upt_Suc_append [of "t + 16" "t + 16 + n"] by (simp only: add_Suc_right) (simp add: ac_simps)
  have "sched M (t + n + 16) = next_word sig0 sig1 (window_at (sched M) (t + n))"
    by (simp only: next_word_sched)
  then show ?case
    using shift_in_window [of "sched M" "t + n"]
    unfolding upt map_append foldl_append Suc.IH by (simp add: exec_round_def)
qed simp

text \<open>The whole program: sixteen loads, then the recurrence.\<close>

lemma run_program:
  assumes "length K = 16 + n"
  shows "sha2_run rnd
      (map (\<lambda>t. (K ! t, \<lambda>_. M ! t)) [0..<16] @ map (\<lambda>t. (K ! t, next_word sig0 sig1)) [16..<16 + n])
      win r cont = cont (sha2_rounds step K (sched M) r)"
proof -
  have "[0..<length K] = [0..<16] @ [16..<16 + n]"
    unfolding assms by (rule upt_add_eq_append) simp
  then show ?thesis
    using schedules [of M 0 "foldl (\<lambda>r t. step r (K ! t) (sched M t)) r [0..<16]" K n]
    by (simp only: run_foldl sha2_rounds_def foldl_append loads add_0 snd_conv)
qed

end

end
