(* ===== verification/Sha1.thy ===== *)
theory Sha1
  imports Sha2_Common
begin

section \<open>SHA-1 (util/cryption/sha1)\<close>

text \<open>
  The class \<^verbatim>\<open>CSHA1\<close> and the compression function of \<^verbatim>\<open>sha1.cpp\<close>, and the function of FIPS 180-4,
  section 6.1. As for SHA-2, the unrolled \<^verbatim>\<open>Transform\<close> is shown to be the standard's compression
  function through a rolled program with the same bindings, and \<^verbatim>\<open>Write\<close> and \<^verbatim>\<open>Finalize\<close> to give the
  standard's digest of the concatenated data.
\<close>

subsection \<open>The code\<close>

text \<open>\<^verbatim>\<open>Round\<close> writes its reference parameters \<^verbatim>\<open>b\<close> and \<^verbatim>\<open>e\<close>: the result is their new values.\<close>

definition sha1_Round :: "u32 \<Rightarrow> u32 \<Rightarrow> u32 \<Rightarrow> u32 \<Rightarrow> u32 \<Rightarrow> u32 \<Rightarrow> u32 \<Rightarrow> u32 \<Rightarrow> u32 \<times> u32" where
  "sha1_Round a b c d e f k w =
     (push_bit 30 b OR drop_bit 2 b, e + ((push_bit 5 a OR drop_bit 27 a) + f + k + w))"

definition sha1_f1 :: "u32 \<Rightarrow> u32 \<Rightarrow> u32 \<Rightarrow> u32" where
  "sha1_f1 b c d = d XOR (b AND (c XOR d))"

definition sha1_f2 :: "u32 \<Rightarrow> u32 \<Rightarrow> u32 \<Rightarrow> u32" where
  "sha1_f2 b c d = b XOR c XOR d"

definition sha1_f3 :: "u32 \<Rightarrow> u32 \<Rightarrow> u32 \<Rightarrow> u32" where
  "sha1_f3 b c d = (b AND c) OR (d AND (b OR c))"

definition sha1_left :: "u32 \<Rightarrow> u32" where
  "sha1_left x = push_bit 1 x OR drop_bit 31 x"

definition sha1_Initialize :: "u32 list" where
  "sha1_Initialize = [0x67452301, 0xEFCDAB89, 0x98BADCFE, 0x10325476, 0xC3D2E1F0]"

definition sha1_k1 :: u32 where "sha1_k1 = 0x5A827999"
definition sha1_k2 :: u32 where "sha1_k2 = 0x6ED9EBA1"
definition sha1_k3 :: u32 where "sha1_k3 = 0x8F1BBCDC"
definition sha1_k4 :: u32 where "sha1_k4 = 0xCA62C1D6"

definition sha1_Transform :: "u32 list \<Rightarrow> byte list \<Rightarrow> u32 list" where
  "sha1_Transform s chunk =
     (let a = s ! 0; b = s ! 1; c = s ! 2; d = s ! 3; e = s ! 4 in
      let w0 = ReadBE32 (drop 0 chunk) in (case sha1_Round a b c d e (sha1_f1 b c d) sha1_k1 w0 of (b, e) \<Rightarrow>
      let w1 = ReadBE32 (drop 4 chunk) in (case sha1_Round e a b c d (sha1_f1 a b c) sha1_k1 w1 of (a, d) \<Rightarrow>
      let w2 = ReadBE32 (drop 8 chunk) in (case sha1_Round d e a b c (sha1_f1 e a b) sha1_k1 w2 of (e, c) \<Rightarrow>
      let w3 = ReadBE32 (drop 12 chunk) in (case sha1_Round c d e a b (sha1_f1 d e a) sha1_k1 w3 of (d, b) \<Rightarrow>
      let w4 = ReadBE32 (drop 16 chunk) in (case sha1_Round b c d e a (sha1_f1 c d e) sha1_k1 w4 of (c, a) \<Rightarrow>
      let w5 = ReadBE32 (drop 20 chunk) in (case sha1_Round a b c d e (sha1_f1 b c d) sha1_k1 w5 of (b, e) \<Rightarrow>
      let w6 = ReadBE32 (drop 24 chunk) in (case sha1_Round e a b c d (sha1_f1 a b c) sha1_k1 w6 of (a, d) \<Rightarrow>
      let w7 = ReadBE32 (drop 28 chunk) in (case sha1_Round d e a b c (sha1_f1 e a b) sha1_k1 w7 of (e, c) \<Rightarrow>
      let w8 = ReadBE32 (drop 32 chunk) in (case sha1_Round c d e a b (sha1_f1 d e a) sha1_k1 w8 of (d, b) \<Rightarrow>
      let w9 = ReadBE32 (drop 36 chunk) in (case sha1_Round b c d e a (sha1_f1 c d e) sha1_k1 w9 of (c, a) \<Rightarrow>
      let w10 = ReadBE32 (drop 40 chunk) in (case sha1_Round a b c d e (sha1_f1 b c d) sha1_k1 w10 of (b, e) \<Rightarrow>
      let w11 = ReadBE32 (drop 44 chunk) in (case sha1_Round e a b c d (sha1_f1 a b c) sha1_k1 w11 of (a, d) \<Rightarrow>
      let w12 = ReadBE32 (drop 48 chunk) in (case sha1_Round d e a b c (sha1_f1 e a b) sha1_k1 w12 of (e, c) \<Rightarrow>
      let w13 = ReadBE32 (drop 52 chunk) in (case sha1_Round c d e a b (sha1_f1 d e a) sha1_k1 w13 of (d, b) \<Rightarrow>
      let w14 = ReadBE32 (drop 56 chunk) in (case sha1_Round b c d e a (sha1_f1 c d e) sha1_k1 w14 of (c, a) \<Rightarrow>
      let w15 = ReadBE32 (drop 60 chunk) in (case sha1_Round a b c d e (sha1_f1 b c d) sha1_k1 w15 of (b, e) \<Rightarrow>
      let w0 = sha1_left (w0 XOR w13 XOR w8 XOR w2) in (case sha1_Round e a b c d (sha1_f1 a b c) sha1_k1 w0 of (a, d) \<Rightarrow>
      let w1 = sha1_left (w1 XOR w14 XOR w9 XOR w3) in (case sha1_Round d e a b c (sha1_f1 e a b) sha1_k1 w1 of (e, c) \<Rightarrow>
      let w2 = sha1_left (w2 XOR w15 XOR w10 XOR w4) in (case sha1_Round c d e a b (sha1_f1 d e a) sha1_k1 w2 of (d, b) \<Rightarrow>
      let w3 = sha1_left (w3 XOR w0 XOR w11 XOR w5) in (case sha1_Round b c d e a (sha1_f1 c d e) sha1_k1 w3 of (c, a) \<Rightarrow>
      let w4 = sha1_left (w4 XOR w1 XOR w12 XOR w6) in (case sha1_Round a b c d e (sha1_f2 b c d) sha1_k2 w4 of (b, e) \<Rightarrow>
      let w5 = sha1_left (w5 XOR w2 XOR w13 XOR w7) in (case sha1_Round e a b c d (sha1_f2 a b c) sha1_k2 w5 of (a, d) \<Rightarrow>
      let w6 = sha1_left (w6 XOR w3 XOR w14 XOR w8) in (case sha1_Round d e a b c (sha1_f2 e a b) sha1_k2 w6 of (e, c) \<Rightarrow>
      let w7 = sha1_left (w7 XOR w4 XOR w15 XOR w9) in (case sha1_Round c d e a b (sha1_f2 d e a) sha1_k2 w7 of (d, b) \<Rightarrow>
      let w8 = sha1_left (w8 XOR w5 XOR w0 XOR w10) in (case sha1_Round b c d e a (sha1_f2 c d e) sha1_k2 w8 of (c, a) \<Rightarrow>
      let w9 = sha1_left (w9 XOR w6 XOR w1 XOR w11) in (case sha1_Round a b c d e (sha1_f2 b c d) sha1_k2 w9 of (b, e) \<Rightarrow>
      let w10 = sha1_left (w10 XOR w7 XOR w2 XOR w12) in (case sha1_Round e a b c d (sha1_f2 a b c) sha1_k2 w10 of (a, d) \<Rightarrow>
      let w11 = sha1_left (w11 XOR w8 XOR w3 XOR w13) in (case sha1_Round d e a b c (sha1_f2 e a b) sha1_k2 w11 of (e, c) \<Rightarrow>
      let w12 = sha1_left (w12 XOR w9 XOR w4 XOR w14) in (case sha1_Round c d e a b (sha1_f2 d e a) sha1_k2 w12 of (d, b) \<Rightarrow>
      let w13 = sha1_left (w13 XOR w10 XOR w5 XOR w15) in (case sha1_Round b c d e a (sha1_f2 c d e) sha1_k2 w13 of (c, a) \<Rightarrow>
      let w14 = sha1_left (w14 XOR w11 XOR w6 XOR w0) in (case sha1_Round a b c d e (sha1_f2 b c d) sha1_k2 w14 of (b, e) \<Rightarrow>
      let w15 = sha1_left (w15 XOR w12 XOR w7 XOR w1) in (case sha1_Round e a b c d (sha1_f2 a b c) sha1_k2 w15 of (a, d) \<Rightarrow>
      let w0 = sha1_left (w0 XOR w13 XOR w8 XOR w2) in (case sha1_Round d e a b c (sha1_f2 e a b) sha1_k2 w0 of (e, c) \<Rightarrow>
      let w1 = sha1_left (w1 XOR w14 XOR w9 XOR w3) in (case sha1_Round c d e a b (sha1_f2 d e a) sha1_k2 w1 of (d, b) \<Rightarrow>
      let w2 = sha1_left (w2 XOR w15 XOR w10 XOR w4) in (case sha1_Round b c d e a (sha1_f2 c d e) sha1_k2 w2 of (c, a) \<Rightarrow>
      let w3 = sha1_left (w3 XOR w0 XOR w11 XOR w5) in (case sha1_Round a b c d e (sha1_f2 b c d) sha1_k2 w3 of (b, e) \<Rightarrow>
      let w4 = sha1_left (w4 XOR w1 XOR w12 XOR w6) in (case sha1_Round e a b c d (sha1_f2 a b c) sha1_k2 w4 of (a, d) \<Rightarrow>
      let w5 = sha1_left (w5 XOR w2 XOR w13 XOR w7) in (case sha1_Round d e a b c (sha1_f2 e a b) sha1_k2 w5 of (e, c) \<Rightarrow>
      let w6 = sha1_left (w6 XOR w3 XOR w14 XOR w8) in (case sha1_Round c d e a b (sha1_f2 d e a) sha1_k2 w6 of (d, b) \<Rightarrow>
      let w7 = sha1_left (w7 XOR w4 XOR w15 XOR w9) in (case sha1_Round b c d e a (sha1_f2 c d e) sha1_k2 w7 of (c, a) \<Rightarrow>
      let w8 = sha1_left (w8 XOR w5 XOR w0 XOR w10) in (case sha1_Round a b c d e (sha1_f3 b c d) sha1_k3 w8 of (b, e) \<Rightarrow>
      let w9 = sha1_left (w9 XOR w6 XOR w1 XOR w11) in (case sha1_Round e a b c d (sha1_f3 a b c) sha1_k3 w9 of (a, d) \<Rightarrow>
      let w10 = sha1_left (w10 XOR w7 XOR w2 XOR w12) in (case sha1_Round d e a b c (sha1_f3 e a b) sha1_k3 w10 of (e, c) \<Rightarrow>
      let w11 = sha1_left (w11 XOR w8 XOR w3 XOR w13) in (case sha1_Round c d e a b (sha1_f3 d e a) sha1_k3 w11 of (d, b) \<Rightarrow>
      let w12 = sha1_left (w12 XOR w9 XOR w4 XOR w14) in (case sha1_Round b c d e a (sha1_f3 c d e) sha1_k3 w12 of (c, a) \<Rightarrow>
      let w13 = sha1_left (w13 XOR w10 XOR w5 XOR w15) in (case sha1_Round a b c d e (sha1_f3 b c d) sha1_k3 w13 of (b, e) \<Rightarrow>
      let w14 = sha1_left (w14 XOR w11 XOR w6 XOR w0) in (case sha1_Round e a b c d (sha1_f3 a b c) sha1_k3 w14 of (a, d) \<Rightarrow>
      let w15 = sha1_left (w15 XOR w12 XOR w7 XOR w1) in (case sha1_Round d e a b c (sha1_f3 e a b) sha1_k3 w15 of (e, c) \<Rightarrow>
      let w0 = sha1_left (w0 XOR w13 XOR w8 XOR w2) in (case sha1_Round c d e a b (sha1_f3 d e a) sha1_k3 w0 of (d, b) \<Rightarrow>
      let w1 = sha1_left (w1 XOR w14 XOR w9 XOR w3) in (case sha1_Round b c d e a (sha1_f3 c d e) sha1_k3 w1 of (c, a) \<Rightarrow>
      let w2 = sha1_left (w2 XOR w15 XOR w10 XOR w4) in (case sha1_Round a b c d e (sha1_f3 b c d) sha1_k3 w2 of (b, e) \<Rightarrow>
      let w3 = sha1_left (w3 XOR w0 XOR w11 XOR w5) in (case sha1_Round e a b c d (sha1_f3 a b c) sha1_k3 w3 of (a, d) \<Rightarrow>
      let w4 = sha1_left (w4 XOR w1 XOR w12 XOR w6) in (case sha1_Round d e a b c (sha1_f3 e a b) sha1_k3 w4 of (e, c) \<Rightarrow>
      let w5 = sha1_left (w5 XOR w2 XOR w13 XOR w7) in (case sha1_Round c d e a b (sha1_f3 d e a) sha1_k3 w5 of (d, b) \<Rightarrow>
      let w6 = sha1_left (w6 XOR w3 XOR w14 XOR w8) in (case sha1_Round b c d e a (sha1_f3 c d e) sha1_k3 w6 of (c, a) \<Rightarrow>
      let w7 = sha1_left (w7 XOR w4 XOR w15 XOR w9) in (case sha1_Round a b c d e (sha1_f3 b c d) sha1_k3 w7 of (b, e) \<Rightarrow>
      let w8 = sha1_left (w8 XOR w5 XOR w0 XOR w10) in (case sha1_Round e a b c d (sha1_f3 a b c) sha1_k3 w8 of (a, d) \<Rightarrow>
      let w9 = sha1_left (w9 XOR w6 XOR w1 XOR w11) in (case sha1_Round d e a b c (sha1_f3 e a b) sha1_k3 w9 of (e, c) \<Rightarrow>
      let w10 = sha1_left (w10 XOR w7 XOR w2 XOR w12) in (case sha1_Round c d e a b (sha1_f3 d e a) sha1_k3 w10 of (d, b) \<Rightarrow>
      let w11 = sha1_left (w11 XOR w8 XOR w3 XOR w13) in (case sha1_Round b c d e a (sha1_f3 c d e) sha1_k3 w11 of (c, a) \<Rightarrow>
      let w12 = sha1_left (w12 XOR w9 XOR w4 XOR w14) in (case sha1_Round a b c d e (sha1_f2 b c d) sha1_k4 w12 of (b, e) \<Rightarrow>
      let w13 = sha1_left (w13 XOR w10 XOR w5 XOR w15) in (case sha1_Round e a b c d (sha1_f2 a b c) sha1_k4 w13 of (a, d) \<Rightarrow>
      let w14 = sha1_left (w14 XOR w11 XOR w6 XOR w0) in (case sha1_Round d e a b c (sha1_f2 e a b) sha1_k4 w14 of (e, c) \<Rightarrow>
      let w15 = sha1_left (w15 XOR w12 XOR w7 XOR w1) in (case sha1_Round c d e a b (sha1_f2 d e a) sha1_k4 w15 of (d, b) \<Rightarrow>
      let w0 = sha1_left (w0 XOR w13 XOR w8 XOR w2) in (case sha1_Round b c d e a (sha1_f2 c d e) sha1_k4 w0 of (c, a) \<Rightarrow>
      let w1 = sha1_left (w1 XOR w14 XOR w9 XOR w3) in (case sha1_Round a b c d e (sha1_f2 b c d) sha1_k4 w1 of (b, e) \<Rightarrow>
      let w2 = sha1_left (w2 XOR w15 XOR w10 XOR w4) in (case sha1_Round e a b c d (sha1_f2 a b c) sha1_k4 w2 of (a, d) \<Rightarrow>
      let w3 = sha1_left (w3 XOR w0 XOR w11 XOR w5) in (case sha1_Round d e a b c (sha1_f2 e a b) sha1_k4 w3 of (e, c) \<Rightarrow>
      let w4 = sha1_left (w4 XOR w1 XOR w12 XOR w6) in (case sha1_Round c d e a b (sha1_f2 d e a) sha1_k4 w4 of (d, b) \<Rightarrow>
      let w5 = sha1_left (w5 XOR w2 XOR w13 XOR w7) in (case sha1_Round b c d e a (sha1_f2 c d e) sha1_k4 w5 of (c, a) \<Rightarrow>
      let w6 = sha1_left (w6 XOR w3 XOR w14 XOR w8) in (case sha1_Round a b c d e (sha1_f2 b c d) sha1_k4 w6 of (b, e) \<Rightarrow>
      let w7 = sha1_left (w7 XOR w4 XOR w15 XOR w9) in (case sha1_Round e a b c d (sha1_f2 a b c) sha1_k4 w7 of (a, d) \<Rightarrow>
      let w8 = sha1_left (w8 XOR w5 XOR w0 XOR w10) in (case sha1_Round d e a b c (sha1_f2 e a b) sha1_k4 w8 of (e, c) \<Rightarrow>
      let w9 = sha1_left (w9 XOR w6 XOR w1 XOR w11) in (case sha1_Round c d e a b (sha1_f2 d e a) sha1_k4 w9 of (d, b) \<Rightarrow>
      let w10 = sha1_left (w10 XOR w7 XOR w2 XOR w12) in (case sha1_Round b c d e a (sha1_f2 c d e) sha1_k4 w10 of (c, a) \<Rightarrow>
      let w11 = sha1_left (w11 XOR w8 XOR w3 XOR w13) in (case sha1_Round a b c d e (sha1_f2 b c d) sha1_k4 w11 of (b, e) \<Rightarrow>
      let w12 = sha1_left (w12 XOR w9 XOR w4 XOR w14) in (case sha1_Round e a b c d (sha1_f2 a b c) sha1_k4 w12 of (a, d) \<Rightarrow>
      let w = sha1_left (w13 XOR w10 XOR w5 XOR w15) in (case sha1_Round d e a b c (sha1_f2 e a b) sha1_k4 w of (e, c) \<Rightarrow>
      let w = sha1_left (w14 XOR w11 XOR w6 XOR w0) in (case sha1_Round c d e a b (sha1_f2 d e a) sha1_k4 w of (d, b) \<Rightarrow>
      let w = sha1_left (w15 XOR w12 XOR w7 XOR w1) in (case sha1_Round b c d e a (sha1_f2 c d e) sha1_k4 w of (c, a) \<Rightarrow>
      [s ! 0 + a, s ! 1 + b, s ! 2 + c, s ! 3 + d, s ! 4 + e])))))))))))))))))))))))))))))))))))))))))))))))))))))))))))))))))))))))))))))))))"

text \<open>The constructor leaves \<^verbatim>\<open>buf\<close> as it finds it: \<open>b0\<close> is that content.\<close>

definition CSHA1 :: "byte list \<Rightarrow> u32 hasher" where
  "CSHA1 b0 = \<lparr>hs = sha1_Initialize, hbuf = b0, hbytes = 0\<rparr>"

definition CSHA1_Write :: "u32 hasher \<Rightarrow> byte list \<Rightarrow> u32 hasher" where
  "CSHA1_Write h data = block_Write 64 sha1_Transform h data"

definition CSHA1_Finalize :: "u32 hasher \<Rightarrow> byte list \<times> u32 hasher" where
  "CSHA1_Finalize h =
     (let pad = 0x80 # replicate 63 0;
          sizedesc = WriteBE64 (push_bit 3 (hbytes h));
          h1 = CSHA1_Write h (take (1 + ((119 - unat (hbytes h) mod 64) mod 64)) pad);
          h2 = CSHA1_Write h1 sizedesc
      in (WriteBE32 (hs h2 ! 0) @ WriteBE32 (hs h2 ! 1) @ WriteBE32 (hs h2 ! 2) @ WriteBE32 (hs h2 ! 3) @
          WriteBE32 (hs h2 ! 4), h2))"

definition CSHA1_Reset :: "u32 hasher \<Rightarrow> u32 hasher" where
  "CSHA1_Reset h = h\<lparr>hbytes := 0, hs := sha1_Initialize\<rparr>"

subsection \<open>The standard\<close>

type_synonym regs5 = "u32 \<times> u32 \<times> u32 \<times> u32 \<times> u32"

definition fips1_f :: "nat \<Rightarrow> u32 \<Rightarrow> u32 \<Rightarrow> u32 \<Rightarrow> u32" where
  "fips1_f t x y z =
     (if t < 20 then (x AND y) XOR (NOT x AND z)
      else if t < 40 then x XOR y XOR z
      else if t < 60 then (x AND y) XOR (x AND z) XOR (y AND z)
      else x XOR y XOR z)"

definition fips1_K :: "nat \<Rightarrow> u32" where
  "fips1_K t = (if t < 20 then 0x5A827999 else if t < 40 then 0x6ED9EBA1 else if t < 60 then 0x8F1BBCDC else 0xCA62C1D6)"

fun fips1_W :: "u32 list \<Rightarrow> nat \<Rightarrow> u32" where
  "fips1_W M t =
     (if t < 16 then M ! t
      else word_rotl 1 (fips1_W M (t - 3) XOR fips1_W M (t - 8) XOR fips1_W M (t - 14) XOR fips1_W M (t - 16)))"

declare fips1_W.simps [simp del]

fun fips1_step :: "regs5 \<Rightarrow> nat \<Rightarrow> u32 \<Rightarrow> regs5" where
  "fips1_step (a, b, c, d, e) t W =
     (let T = word_rotl 5 a + fips1_f t b c d + e + fips1_K t + W in (T, a, word_rotl 30 b, c, d))"

definition fips1_block :: "byte list \<Rightarrow> u32 list" where
  "fips1_block chunk = map (\<lambda>i. ReadBE32 (drop (4 * i) chunk)) [0..<16]"

definition fips1_compress :: "u32 list \<Rightarrow> byte list \<Rightarrow> u32 list" where
  "fips1_compress H chunk =
     (case foldl (\<lambda>r t. fips1_step r t (fips1_W (fips1_block chunk) t)) (H ! 0, H ! 1, H ! 2, H ! 3, H ! 4) [0..<80] of
      (a, b, c, d, e) \<Rightarrow> [H ! 0 + a, H ! 1 + b, H ! 2 + c, H ! 3 + d, H ! 4 + e])"

definition fips1_pad :: "byte list \<Rightarrow> byte list" where
  "fips1_pad m = m @ md_pad 64 56 (length m) @ WriteBE64 (of_nat (8 * length m))"

definition fips1_hash :: "byte list \<Rightarrow> byte list" where
  "fips1_hash m = concat (map WriteBE32 (absorb 64 fips1_compress sha1_Initialize (fips1_pad m)))"

subsection \<open>The rolled program\<close>

fun sha1_run ::
  "((u32 \<Rightarrow> u32 \<Rightarrow> u32 \<Rightarrow> u32) \<times> u32 \<times> (u32 window \<Rightarrow> u32)) list \<Rightarrow> u32 window \<Rightarrow> regs5 \<Rightarrow> (regs5 \<Rightarrow> 'r) \<Rightarrow> 'r"
where
  "sha1_run [] win r cont = cont r"
| "sha1_run ((fn, k, sel) # ks) (w0, w1, w2, w3, w4, w5, w6, w7, w8, w9, w10, w11, w12, w13, w14, w15)
     (a, b, c, d, e) cont =
     (let w = sel (w0, w1, w2, w3, w4, w5, w6, w7, w8, w9, w10, w11, w12, w13, w14, w15) in
      case sha1_Round a b c d e (fn b c d) k w of
        (b', e') \<Rightarrow> sha1_run ks (w1, w2, w3, w4, w5, w6, w7, w8, w9, w10, w11, w12, w13, w14, w15, w)
                     (e', a, b', c, d) cont)"

fun sha1_next :: "u32 window \<Rightarrow> u32" where
  "sha1_next (w0, w1, w2, w3, w4, w5, w6, w7, w8, w9, w10, w11, w12, w13, w14, w15) =
     sha1_left (w0 XOR w13 XOR w8 XOR w2)"

lemma sha1_Transform_run:
  "sha1_Transform s chunk = sha1_run
     [(sha1_f1, sha1_k1, \<lambda>_. ReadBE32 (drop 0 chunk)),
       (sha1_f1, sha1_k1, \<lambda>_. ReadBE32 (drop 4 chunk)),
       (sha1_f1, sha1_k1, \<lambda>_. ReadBE32 (drop 8 chunk)),
       (sha1_f1, sha1_k1, \<lambda>_. ReadBE32 (drop 12 chunk)),
       (sha1_f1, sha1_k1, \<lambda>_. ReadBE32 (drop 16 chunk)),
       (sha1_f1, sha1_k1, \<lambda>_. ReadBE32 (drop 20 chunk)),
       (sha1_f1, sha1_k1, \<lambda>_. ReadBE32 (drop 24 chunk)),
       (sha1_f1, sha1_k1, \<lambda>_. ReadBE32 (drop 28 chunk)),
       (sha1_f1, sha1_k1, \<lambda>_. ReadBE32 (drop 32 chunk)),
       (sha1_f1, sha1_k1, \<lambda>_. ReadBE32 (drop 36 chunk)),
       (sha1_f1, sha1_k1, \<lambda>_. ReadBE32 (drop 40 chunk)),
       (sha1_f1, sha1_k1, \<lambda>_. ReadBE32 (drop 44 chunk)),
       (sha1_f1, sha1_k1, \<lambda>_. ReadBE32 (drop 48 chunk)),
       (sha1_f1, sha1_k1, \<lambda>_. ReadBE32 (drop 52 chunk)),
       (sha1_f1, sha1_k1, \<lambda>_. ReadBE32 (drop 56 chunk)),
       (sha1_f1, sha1_k1, \<lambda>_. ReadBE32 (drop 60 chunk)),
       (sha1_f1, sha1_k1, sha1_next),
       (sha1_f1, sha1_k1, sha1_next),
       (sha1_f1, sha1_k1, sha1_next),
       (sha1_f1, sha1_k1, sha1_next),
       (sha1_f2, sha1_k2, sha1_next),
       (sha1_f2, sha1_k2, sha1_next),
       (sha1_f2, sha1_k2, sha1_next),
       (sha1_f2, sha1_k2, sha1_next),
       (sha1_f2, sha1_k2, sha1_next),
       (sha1_f2, sha1_k2, sha1_next),
       (sha1_f2, sha1_k2, sha1_next),
       (sha1_f2, sha1_k2, sha1_next),
       (sha1_f2, sha1_k2, sha1_next),
       (sha1_f2, sha1_k2, sha1_next),
       (sha1_f2, sha1_k2, sha1_next),
       (sha1_f2, sha1_k2, sha1_next),
       (sha1_f2, sha1_k2, sha1_next),
       (sha1_f2, sha1_k2, sha1_next),
       (sha1_f2, sha1_k2, sha1_next),
       (sha1_f2, sha1_k2, sha1_next),
       (sha1_f2, sha1_k2, sha1_next),
       (sha1_f2, sha1_k2, sha1_next),
       (sha1_f2, sha1_k2, sha1_next),
       (sha1_f2, sha1_k2, sha1_next),
       (sha1_f3, sha1_k3, sha1_next),
       (sha1_f3, sha1_k3, sha1_next),
       (sha1_f3, sha1_k3, sha1_next),
       (sha1_f3, sha1_k3, sha1_next),
       (sha1_f3, sha1_k3, sha1_next),
       (sha1_f3, sha1_k3, sha1_next),
       (sha1_f3, sha1_k3, sha1_next),
       (sha1_f3, sha1_k3, sha1_next),
       (sha1_f3, sha1_k3, sha1_next),
       (sha1_f3, sha1_k3, sha1_next),
       (sha1_f3, sha1_k3, sha1_next),
       (sha1_f3, sha1_k3, sha1_next),
       (sha1_f3, sha1_k3, sha1_next),
       (sha1_f3, sha1_k3, sha1_next),
       (sha1_f3, sha1_k3, sha1_next),
       (sha1_f3, sha1_k3, sha1_next),
       (sha1_f3, sha1_k3, sha1_next),
       (sha1_f3, sha1_k3, sha1_next),
       (sha1_f3, sha1_k3, sha1_next),
       (sha1_f3, sha1_k3, sha1_next),
       (sha1_f2, sha1_k4, sha1_next),
       (sha1_f2, sha1_k4, sha1_next),
       (sha1_f2, sha1_k4, sha1_next),
       (sha1_f2, sha1_k4, sha1_next),
       (sha1_f2, sha1_k4, sha1_next),
       (sha1_f2, sha1_k4, sha1_next),
       (sha1_f2, sha1_k4, sha1_next),
       (sha1_f2, sha1_k4, sha1_next),
       (sha1_f2, sha1_k4, sha1_next),
       (sha1_f2, sha1_k4, sha1_next),
       (sha1_f2, sha1_k4, sha1_next),
       (sha1_f2, sha1_k4, sha1_next),
       (sha1_f2, sha1_k4, sha1_next),
       (sha1_f2, sha1_k4, sha1_next),
       (sha1_f2, sha1_k4, sha1_next),
       (sha1_f2, sha1_k4, sha1_next),
       (sha1_f2, sha1_k4, sha1_next),
       (sha1_f2, sha1_k4, sha1_next),
       (sha1_f2, sha1_k4, sha1_next),
       (sha1_f2, sha1_k4, sha1_next)]
     (0, 0, 0, 0, 0, 0, 0, 0, 0, 0, 0, 0, 0, 0, 0, 0) (s ! 0, s ! 1, s ! 2, s ! 3, s ! 4)
     (\<lambda>(a, b, c, d, e). [s ! 0 + a, s ! 1 + b, s ! 2 + c, s ! 3 + d, s ! 4 + e])"
  unfolding sha1_Transform_def sha1_run.simps sha1_next.simps prod.case
    Let_def [of "s ! 0"] Let_def [of "s ! 1"] Let_def [of "s ! 2"] Let_def [of "s ! 3"] Let_def [of "s ! 4"]
  by (rule refl)

text \<open>What the program's \<open>t\<close>-th entry uses of the round function and constants.\<close>

definition sha1_fk :: "nat \<Rightarrow> (u32 \<Rightarrow> u32 \<Rightarrow> u32 \<Rightarrow> u32) \<times> u32" where
  "sha1_fk t = (if t < 20 then (sha1_f1, sha1_k1) else if t < 40 then (sha1_f2, sha1_k2)
     else if t < 60 then (sha1_f3, sha1_k3) else (sha1_f2, sha1_k4))"

lemma sha1_program:
  "[(sha1_f1, sha1_k1, \<lambda>_. ReadBE32 (drop 0 chunk)),
       (sha1_f1, sha1_k1, \<lambda>_. ReadBE32 (drop 4 chunk)),
       (sha1_f1, sha1_k1, \<lambda>_. ReadBE32 (drop 8 chunk)),
       (sha1_f1, sha1_k1, \<lambda>_. ReadBE32 (drop 12 chunk)),
       (sha1_f1, sha1_k1, \<lambda>_. ReadBE32 (drop 16 chunk)),
       (sha1_f1, sha1_k1, \<lambda>_. ReadBE32 (drop 20 chunk)),
       (sha1_f1, sha1_k1, \<lambda>_. ReadBE32 (drop 24 chunk)),
       (sha1_f1, sha1_k1, \<lambda>_. ReadBE32 (drop 28 chunk)),
       (sha1_f1, sha1_k1, \<lambda>_. ReadBE32 (drop 32 chunk)),
       (sha1_f1, sha1_k1, \<lambda>_. ReadBE32 (drop 36 chunk)),
       (sha1_f1, sha1_k1, \<lambda>_. ReadBE32 (drop 40 chunk)),
       (sha1_f1, sha1_k1, \<lambda>_. ReadBE32 (drop 44 chunk)),
       (sha1_f1, sha1_k1, \<lambda>_. ReadBE32 (drop 48 chunk)),
       (sha1_f1, sha1_k1, \<lambda>_. ReadBE32 (drop 52 chunk)),
       (sha1_f1, sha1_k1, \<lambda>_. ReadBE32 (drop 56 chunk)),
       (sha1_f1, sha1_k1, \<lambda>_. ReadBE32 (drop 60 chunk)),
       (sha1_f1, sha1_k1, sha1_next),
       (sha1_f1, sha1_k1, sha1_next),
       (sha1_f1, sha1_k1, sha1_next),
       (sha1_f1, sha1_k1, sha1_next),
       (sha1_f2, sha1_k2, sha1_next),
       (sha1_f2, sha1_k2, sha1_next),
       (sha1_f2, sha1_k2, sha1_next),
       (sha1_f2, sha1_k2, sha1_next),
       (sha1_f2, sha1_k2, sha1_next),
       (sha1_f2, sha1_k2, sha1_next),
       (sha1_f2, sha1_k2, sha1_next),
       (sha1_f2, sha1_k2, sha1_next),
       (sha1_f2, sha1_k2, sha1_next),
       (sha1_f2, sha1_k2, sha1_next),
       (sha1_f2, sha1_k2, sha1_next),
       (sha1_f2, sha1_k2, sha1_next),
       (sha1_f2, sha1_k2, sha1_next),
       (sha1_f2, sha1_k2, sha1_next),
       (sha1_f2, sha1_k2, sha1_next),
       (sha1_f2, sha1_k2, sha1_next),
       (sha1_f2, sha1_k2, sha1_next),
       (sha1_f2, sha1_k2, sha1_next),
       (sha1_f2, sha1_k2, sha1_next),
       (sha1_f2, sha1_k2, sha1_next),
       (sha1_f3, sha1_k3, sha1_next),
       (sha1_f3, sha1_k3, sha1_next),
       (sha1_f3, sha1_k3, sha1_next),
       (sha1_f3, sha1_k3, sha1_next),
       (sha1_f3, sha1_k3, sha1_next),
       (sha1_f3, sha1_k3, sha1_next),
       (sha1_f3, sha1_k3, sha1_next),
       (sha1_f3, sha1_k3, sha1_next),
       (sha1_f3, sha1_k3, sha1_next),
       (sha1_f3, sha1_k3, sha1_next),
       (sha1_f3, sha1_k3, sha1_next),
       (sha1_f3, sha1_k3, sha1_next),
       (sha1_f3, sha1_k3, sha1_next),
       (sha1_f3, sha1_k3, sha1_next),
       (sha1_f3, sha1_k3, sha1_next),
       (sha1_f3, sha1_k3, sha1_next),
       (sha1_f3, sha1_k3, sha1_next),
       (sha1_f3, sha1_k3, sha1_next),
       (sha1_f3, sha1_k3, sha1_next),
       (sha1_f3, sha1_k3, sha1_next),
       (sha1_f2, sha1_k4, sha1_next),
       (sha1_f2, sha1_k4, sha1_next),
       (sha1_f2, sha1_k4, sha1_next),
       (sha1_f2, sha1_k4, sha1_next),
       (sha1_f2, sha1_k4, sha1_next),
       (sha1_f2, sha1_k4, sha1_next),
       (sha1_f2, sha1_k4, sha1_next),
       (sha1_f2, sha1_k4, sha1_next),
       (sha1_f2, sha1_k4, sha1_next),
       (sha1_f2, sha1_k4, sha1_next),
       (sha1_f2, sha1_k4, sha1_next),
       (sha1_f2, sha1_k4, sha1_next),
       (sha1_f2, sha1_k4, sha1_next),
       (sha1_f2, sha1_k4, sha1_next),
       (sha1_f2, sha1_k4, sha1_next),
       (sha1_f2, sha1_k4, sha1_next),
       (sha1_f2, sha1_k4, sha1_next),
       (sha1_f2, sha1_k4, sha1_next),
       (sha1_f2, sha1_k4, sha1_next),
       (sha1_f2, sha1_k4, sha1_next)] =
   map (\<lambda>t. (fst (sha1_fk t), snd (sha1_fk t), \<lambda>_. fips1_block chunk ! t)) [0..<16] @
   map (\<lambda>t. (fst (sha1_fk t), snd (sha1_fk t), sha1_next)) [16..<16 + 64]"
  by (simp add: sha1_fk_def fips1_block_def upt_conv_Cons numeral_2_eq_2)

lemma sha1_f_eq:
  "sha1_f1 x y z = (x AND y) XOR (NOT x AND z)"
  "sha1_f2 x y z = x XOR y XOR z"
  "sha1_f3 x y z = (x AND y) XOR (x AND z) XOR (y AND z)"
  by (rule bit_word_eqI; auto simp: sha1_f1_def sha1_f2_def sha1_f3_def bit_simps)+

lemma sha1_fk_eq: "fst (sha1_fk t) b c d = fips1_f t b c d" "snd (sha1_fk t) = fips1_K t"
  by (simp_all add: sha1_fk_def fips1_f_def fips1_K_def sha1_f_eq sha1_k1_def sha1_k2_def sha1_k3_def sha1_k4_def)

lemma sha1_Round_step:
  assumes "sha1_Round a b c d e (fst (sha1_fk t) b c d) (snd (sha1_fk t)) w = (b', e')"
  shows "fips1_step (a, b, c, d, e) t w = (e', a, b', c, d)"
proof -
  have "word_rotl 5 a = push_bit 5 a OR drop_bit 27 a" "word_rotl 30 b = push_bit 30 b OR drop_bit 2 b"
    by (simp_all add: rotl_shifts [symmetric])
  with assms show ?thesis
    by (auto simp: sha1_Round_def sha1_fk_eq ac_simps)
qed

definition sha1_exec ::
  "u32 window \<times> regs5 \<Rightarrow> nat \<times> (u32 window \<Rightarrow> u32) \<Rightarrow> u32 window \<times> regs5"
where
  "sha1_exec s p = (shift_in (fst s) (snd p (fst s)), fips1_step (snd s) (fst p) (snd p (fst s)))"

lemma sha1_run_Cons:
  "sha1_run ((fst (sha1_fk t), snd (sha1_fk t), sel) # ks) win r cont =
     sha1_run ks (shift_in win (sel win)) (fips1_step r t (sel win)) cont"
proof (cases "((fst (sha1_fk t), snd (sha1_fk t), sel) # ks, win, r, cont)" rule: sha1_run.cases)
  case (2 fn k sel' ks' w0 w1 w2 w3 w4 w5 w6 w7 w8 w9 w10 w11 w12 w13 w14 w15 a b c d e cont')
  obtain b' e' where "sha1_Round a b c d e (fst (sha1_fk t) b c d) (snd (sha1_fk t)) (sel win) = (b', e')"
    by force
  with "2" show ?thesis
    using sha1_Round_step [of a b c d e t "sel win"] by simp
qed simp

lemma sha1_run_foldl:
  "sha1_run (map (\<lambda>(t, sel). (fst (sha1_fk t), snd (sha1_fk t), sel)) ks) win r cont =
     cont (snd (foldl sha1_exec (win, r) ks))"
proof (induction ks arbitrary: win r)
  case (Cons p ks)
  obtain t sel where p: "p = (t, sel)" by force
  show ?case
    by (simp only: p list.map prod.case sha1_run_Cons Cons.IH foldl.simps sha1_exec_def fst_conv snd_conv)
qed simp

lemma sha1_next_W: "sha1_next (window_at (fips1_W M) t) = fips1_W M (t + 16)"
proof -
  have "sha1_left x = word_rotl 1 x" for x
    by (simp add: sha1_left_def rotl_shifts [symmetric])
  then show ?thesis
    by (subst fips1_W.simps) (simp add: window_at_def ac_simps)
qed

lemma sha1_loads:
  "foldl sha1_exec (win, r) (map (\<lambda>t. (t, \<lambda>_. M ! t)) [0..<16]) =
     (window_at (fips1_W M) 0, foldl (\<lambda>r t. fips1_step r t (fips1_W M t)) r [0..<16])"
  by (cases "(win, M ! 0)" rule: shift_in.cases)
    (simp add: upt_16 sha1_exec_def window_at_def fips1_W.simps numeral_2_eq_2 del: fips1_step.simps)

lemma sha1_schedules:
  "foldl sha1_exec (window_at (fips1_W M) t, r) (map (\<lambda>t. (t, sha1_next)) [t + 16..<t + 16 + n]) =
     (window_at (fips1_W M) (t + n), foldl (\<lambda>r t. fips1_step r t (fips1_W M t)) r [t + 16..<t + 16 + n])"
proof (induction n)
  case (Suc n)
  have upt: "[t + 16..<t + 16 + Suc n] = [t + 16..<t + 16 + n] @ [t + n + 16]"
    using upt_Suc_append [of "t + 16" "t + 16 + n"] by (simp only: add_Suc_right) (simp add: ac_simps)
  have "fips1_W M (t + n + 16) = sha1_next (window_at (fips1_W M) (t + n))"
    by (simp only: sha1_next_W)
  then show ?case
    using shift_in_window [of "fips1_W M" "t + n"]
    unfolding upt map_append foldl_append Suc.IH by (simp add: sha1_exec_def)
qed simp

lemma sha1_Transform_compress: "sha1_Transform s chunk = fips1_compress s chunk"
proof -
  let ?M = "fips1_block chunk"
  have prog: "map (\<lambda>t. (fst (sha1_fk t), snd (sha1_fk t), \<lambda>_. ?M ! t)) [0..<16] @
      map (\<lambda>t. (fst (sha1_fk t), snd (sha1_fk t), sha1_next)) [16..<16 + 64] =
    map (\<lambda>(t, sel). (fst (sha1_fk t), snd (sha1_fk t), sel))
      (map (\<lambda>t. (t, \<lambda>_. ?M ! t)) [0..<16] @ map (\<lambda>t. (t, sha1_next)) [16..<16 + 64])"
    by (simp del: upt_rec_numeral)
  have upt: "[0..<80] = [0..<16] @ [16..<16 + 64]"
    using upt_add_eq_append [of 0 16 64] by simp
  show ?thesis
    unfolding sha1_Transform_run sha1_program fips1_compress_def upt
    unfolding prog
    using sha1_schedules [of ?M 0 _ 64]
    by (simp only: sha1_run_foldl foldl_append sha1_loads add_0 snd_conv)
qed

lemma sha1_absorb: "absorb 64 sha1_Transform s m = absorb 64 fips1_compress s m"
  by (simp add: sha1_Transform_compress [abs_def])

lemma fips1_block_take: "64 \<le> length d \<Longrightarrow> fips1_block (take 64 d) = fips1_block d"
  by (auto simp: fips1_block_def ReadBE32_def)

interpretation sha1_stream: block_hasher 64 sha1_Transform CSHA1_Write
  by unfold_locales
    (auto simp: sha1_Transform_compress fips1_compress_def fips1_block_take CSHA1_Write_def)

lemma length_fips1_compress [simp]: "length (fips1_compress s d) = 5"
  by (simp add: fips1_compress_def split: prod.splits)

lemma length_fips1_absorb [simp]: "length s = 5 \<Longrightarrow> length (absorb 64 fips1_compress s m) = 5"
  by (induction "64 :: nat" "fips1_compress" s m rule: absorb.induct) (subst absorb.simps, simp)

lemma concat5:
  assumes "length (s::u32 list) = 5"
  shows "concat (map g s) = g (s ! 0) @ g (s ! 1) @ g (s ! 2) @ g (s ! 3) @ g (s ! 4)"
  using assms by (auto simp: numeral_eq_Suc length_Suc_conv)

lemma CSHA1_digest:
  assumes "absorbed 64 sha1_Transform sha1_Initialize h m"
  shows "fst (CSHA1_Finalize h) = fips1_hash m"
proof -
  have cnt: "unat (hbytes h) mod 64 = length m mod 64" "hbytes h = of_nat (length m)"
    using sha1_stream.absorbed_count [OF assms] by auto
  have size: "push_bit 3 (hbytes h) = of_nat (8 * length m)"
    by (simp add: cnt(2) push_bit_eq_mult)
  let ?h2 = "CSHA1_Write (CSHA1_Write h (md_pad 64 56 (length m))) (WriteBE64 (of_nat (8 * length m)))"
  have "hs ?h2 = absorb 64 fips1_compress sha1_Initialize (fips1_pad m)"
    using sha1_stream.absorbed_hs [OF assms] by (simp add: sha1_absorb fips1_pad_def)
  then show ?thesis
    by (simp add: CSHA1_Finalize_def cnt(1) size code_pad_64 [simplified] Let_def fips1_hash_def concat5 sha1_Initialize_def)
qed

subsection \<open>Properties\<close>

text \<open>
  \<^verbatim>\<open>sha1::Transform\<close>, with all its 80 unrolled rounds, is the compression function of FIPS 180-4,
  section 6.1.
\<close>

lemma sha1_Transform_fips: "sha1_Transform s chunk = fips1_compress s chunk"
  by (rule sha1_Transform_compress)

text \<open>
  Streaming: whatever the uninitialised buffer holds and however the data is cut into \<^verbatim>\<open>Write\<close>
  calls, \<^verbatim>\<open>CSHA1::Finalize\<close> returns the 20-byte SHA-1 digest of all the data written.
\<close>

lemma CSHA1_stream:
  assumes "length b0 = 64"
  shows "fst (CSHA1_Finalize (foldl CSHA1_Write (CSHA1 b0) chunks)) = fips1_hash (concat chunks) \<and>
    length (fips1_hash (concat chunks)) = 20"
proof -
  have "absorbed 64 sha1_Transform sha1_Initialize (CSHA1 b0) []"
    using sha1_stream.absorbed_init [OF assms] by (simp add: CSHA1_def)
  from sha1_stream.absorbed_stream [OF this, of chunks] CSHA1_digest show ?thesis
    by (simp add: fips1_hash_def concat5 sha1_Initialize_def)
qed

lemma CSHA1_stream_witness:
  "fst (CSHA1_Finalize (CSHA1_Write (CSHA1_Write (CSHA1 (replicate 64 7)) [0x61]) [0x62, 0x63])) =
     fips1_hash [0x61, 0x62, 0x63]"
  using CSHA1_stream [of "replicate 64 7" "[[0x61], [0x62, 0x63]]"] by simp

end
