(* ===== verification/Sha256.thy ===== *)
theory Sha256
  imports Sha2_Common
begin

section \<open>SHA-256 (util/cryption/sha256)\<close>

text \<open>
  The class \<^verbatim>\<open>CSHA256\<close> and the compression function of \<^verbatim>\<open>sha256.cpp\<close>, statement by statement, and the
  function the standard defines (FIPS 180-4, section 6.2). Shown: the unrolled \<^verbatim>\<open>Transform\<close> is the
  standard's compression function, and any sequence of \<^verbatim>\<open>Write\<close> calls followed by \<^verbatim>\<open>Finalize\<close> gives
  the standard's digest of the concatenated data.
\<close>

subsection \<open>The code\<close>

definition sha256_Ch :: "u32 \<Rightarrow> u32 \<Rightarrow> u32 \<Rightarrow> u32" where
  "sha256_Ch x y z = z XOR (x AND (y XOR z))"

definition sha256_Maj :: "u32 \<Rightarrow> u32 \<Rightarrow> u32 \<Rightarrow> u32" where
  "sha256_Maj x y z = (x AND y) OR (z AND (x OR y))"

definition sha256_Sigma0 :: "u32 \<Rightarrow> u32" where
  "sha256_Sigma0 x = (drop_bit 2 x OR push_bit 30 x) XOR (drop_bit 13 x OR push_bit 19 x) XOR (drop_bit 22 x OR push_bit 10 x)"

definition sha256_Sigma1 :: "u32 \<Rightarrow> u32" where
  "sha256_Sigma1 x = (drop_bit 6 x OR push_bit 26 x) XOR (drop_bit 11 x OR push_bit 21 x) XOR (drop_bit 25 x OR push_bit 7 x)"

definition sha256_sigma0 :: "u32 \<Rightarrow> u32" where
  "sha256_sigma0 x = (drop_bit 7 x OR push_bit 25 x) XOR (drop_bit 18 x OR push_bit 14 x) XOR drop_bit 3 x"

definition sha256_sigma1 :: "u32 \<Rightarrow> u32" where
  "sha256_sigma1 x = (drop_bit 17 x OR push_bit 15 x) XOR (drop_bit 19 x OR push_bit 13 x) XOR drop_bit 10 x"

text \<open>\<^verbatim>\<open>Round\<close> writes its reference parameters \<^verbatim>\<open>d\<close> and \<^verbatim>\<open>h\<close>: the result is their new values.\<close>

definition sha256_Round ::
  "u32 \<Rightarrow> u32 \<Rightarrow> u32 \<Rightarrow> u32 \<Rightarrow> u32 \<Rightarrow> u32 \<Rightarrow> u32 \<Rightarrow> u32 \<Rightarrow> u32 \<Rightarrow> u32 \<Rightarrow> u32 \<times> u32"
where
  "sha256_Round a b c d e f g h k w =
     (let t1 = h + sha256_Sigma1 e + sha256_Ch e f g + k + w;
          t2 = sha256_Sigma0 a + sha256_Maj a b c
      in (d + t1, t1 + t2))"

definition sha256_Initialize :: "u32 list" where
  "sha256_Initialize =
     [0x6a09e667, 0xbb67ae85, 0x3c6ef372, 0xa54ff53a, 0x510e527f, 0x9b05688c, 0x1f83d9ab, 0x5be0cd19]"

definition sha256_Transform :: "u32 list \<Rightarrow> byte list \<Rightarrow> u32 list" where
  "sha256_Transform s chunk =
     (let a = s ! 0; b = s ! 1; c = s ! 2; d = s ! 3; e = s ! 4; f = s ! 5; g = s ! 6; h = s ! 7 in
      let w0 = ReadBE32 (drop 0 chunk) in (case sha256_Round a b c d e f g h 0x428a2f98 w0 of (d, h) \<Rightarrow>
      let w1 = ReadBE32 (drop 4 chunk) in (case sha256_Round h a b c d e f g 0x71374491 w1 of (c, g) \<Rightarrow>
      let w2 = ReadBE32 (drop 8 chunk) in (case sha256_Round g h a b c d e f 0xb5c0fbcf w2 of (b, f) \<Rightarrow>
      let w3 = ReadBE32 (drop 12 chunk) in (case sha256_Round f g h a b c d e 0xe9b5dba5 w3 of (a, e) \<Rightarrow>
      let w4 = ReadBE32 (drop 16 chunk) in (case sha256_Round e f g h a b c d 0x3956c25b w4 of (h, d) \<Rightarrow>
      let w5 = ReadBE32 (drop 20 chunk) in (case sha256_Round d e f g h a b c 0x59f111f1 w5 of (g, c) \<Rightarrow>
      let w6 = ReadBE32 (drop 24 chunk) in (case sha256_Round c d e f g h a b 0x923f82a4 w6 of (f, b) \<Rightarrow>
      let w7 = ReadBE32 (drop 28 chunk) in (case sha256_Round b c d e f g h a 0xab1c5ed5 w7 of (e, a) \<Rightarrow>
      let w8 = ReadBE32 (drop 32 chunk) in (case sha256_Round a b c d e f g h 0xd807aa98 w8 of (d, h) \<Rightarrow>
      let w9 = ReadBE32 (drop 36 chunk) in (case sha256_Round h a b c d e f g 0x12835b01 w9 of (c, g) \<Rightarrow>
      let w10 = ReadBE32 (drop 40 chunk) in (case sha256_Round g h a b c d e f 0x243185be w10 of (b, f) \<Rightarrow>
      let w11 = ReadBE32 (drop 44 chunk) in (case sha256_Round f g h a b c d e 0x550c7dc3 w11 of (a, e) \<Rightarrow>
      let w12 = ReadBE32 (drop 48 chunk) in (case sha256_Round e f g h a b c d 0x72be5d74 w12 of (h, d) \<Rightarrow>
      let w13 = ReadBE32 (drop 52 chunk) in (case sha256_Round d e f g h a b c 0x80deb1fe w13 of (g, c) \<Rightarrow>
      let w14 = ReadBE32 (drop 56 chunk) in (case sha256_Round c d e f g h a b 0x9bdc06a7 w14 of (f, b) \<Rightarrow>
      let w15 = ReadBE32 (drop 60 chunk) in (case sha256_Round b c d e f g h a 0xc19bf174 w15 of (e, a) \<Rightarrow>
      let w0 = w0 + (sha256_sigma1 w14 + w9 + sha256_sigma0 w1) in (case sha256_Round a b c d e f g h 0xe49b69c1 w0 of (d, h) \<Rightarrow>
      let w1 = w1 + (sha256_sigma1 w15 + w10 + sha256_sigma0 w2) in (case sha256_Round h a b c d e f g 0xefbe4786 w1 of (c, g) \<Rightarrow>
      let w2 = w2 + (sha256_sigma1 w0 + w11 + sha256_sigma0 w3) in (case sha256_Round g h a b c d e f 0x0fc19dc6 w2 of (b, f) \<Rightarrow>
      let w3 = w3 + (sha256_sigma1 w1 + w12 + sha256_sigma0 w4) in (case sha256_Round f g h a b c d e 0x240ca1cc w3 of (a, e) \<Rightarrow>
      let w4 = w4 + (sha256_sigma1 w2 + w13 + sha256_sigma0 w5) in (case sha256_Round e f g h a b c d 0x2de92c6f w4 of (h, d) \<Rightarrow>
      let w5 = w5 + (sha256_sigma1 w3 + w14 + sha256_sigma0 w6) in (case sha256_Round d e f g h a b c 0x4a7484aa w5 of (g, c) \<Rightarrow>
      let w6 = w6 + (sha256_sigma1 w4 + w15 + sha256_sigma0 w7) in (case sha256_Round c d e f g h a b 0x5cb0a9dc w6 of (f, b) \<Rightarrow>
      let w7 = w7 + (sha256_sigma1 w5 + w0 + sha256_sigma0 w8) in (case sha256_Round b c d e f g h a 0x76f988da w7 of (e, a) \<Rightarrow>
      let w8 = w8 + (sha256_sigma1 w6 + w1 + sha256_sigma0 w9) in (case sha256_Round a b c d e f g h 0x983e5152 w8 of (d, h) \<Rightarrow>
      let w9 = w9 + (sha256_sigma1 w7 + w2 + sha256_sigma0 w10) in (case sha256_Round h a b c d e f g 0xa831c66d w9 of (c, g) \<Rightarrow>
      let w10 = w10 + (sha256_sigma1 w8 + w3 + sha256_sigma0 w11) in (case sha256_Round g h a b c d e f 0xb00327c8 w10 of (b, f) \<Rightarrow>
      let w11 = w11 + (sha256_sigma1 w9 + w4 + sha256_sigma0 w12) in (case sha256_Round f g h a b c d e 0xbf597fc7 w11 of (a, e) \<Rightarrow>
      let w12 = w12 + (sha256_sigma1 w10 + w5 + sha256_sigma0 w13) in (case sha256_Round e f g h a b c d 0xc6e00bf3 w12 of (h, d) \<Rightarrow>
      let w13 = w13 + (sha256_sigma1 w11 + w6 + sha256_sigma0 w14) in (case sha256_Round d e f g h a b c 0xd5a79147 w13 of (g, c) \<Rightarrow>
      let w14 = w14 + (sha256_sigma1 w12 + w7 + sha256_sigma0 w15) in (case sha256_Round c d e f g h a b 0x06ca6351 w14 of (f, b) \<Rightarrow>
      let w15 = w15 + (sha256_sigma1 w13 + w8 + sha256_sigma0 w0) in (case sha256_Round b c d e f g h a 0x14292967 w15 of (e, a) \<Rightarrow>
      let w0 = w0 + (sha256_sigma1 w14 + w9 + sha256_sigma0 w1) in (case sha256_Round a b c d e f g h 0x27b70a85 w0 of (d, h) \<Rightarrow>
      let w1 = w1 + (sha256_sigma1 w15 + w10 + sha256_sigma0 w2) in (case sha256_Round h a b c d e f g 0x2e1b2138 w1 of (c, g) \<Rightarrow>
      let w2 = w2 + (sha256_sigma1 w0 + w11 + sha256_sigma0 w3) in (case sha256_Round g h a b c d e f 0x4d2c6dfc w2 of (b, f) \<Rightarrow>
      let w3 = w3 + (sha256_sigma1 w1 + w12 + sha256_sigma0 w4) in (case sha256_Round f g h a b c d e 0x53380d13 w3 of (a, e) \<Rightarrow>
      let w4 = w4 + (sha256_sigma1 w2 + w13 + sha256_sigma0 w5) in (case sha256_Round e f g h a b c d 0x650a7354 w4 of (h, d) \<Rightarrow>
      let w5 = w5 + (sha256_sigma1 w3 + w14 + sha256_sigma0 w6) in (case sha256_Round d e f g h a b c 0x766a0abb w5 of (g, c) \<Rightarrow>
      let w6 = w6 + (sha256_sigma1 w4 + w15 + sha256_sigma0 w7) in (case sha256_Round c d e f g h a b 0x81c2c92e w6 of (f, b) \<Rightarrow>
      let w7 = w7 + (sha256_sigma1 w5 + w0 + sha256_sigma0 w8) in (case sha256_Round b c d e f g h a 0x92722c85 w7 of (e, a) \<Rightarrow>
      let w8 = w8 + (sha256_sigma1 w6 + w1 + sha256_sigma0 w9) in (case sha256_Round a b c d e f g h 0xa2bfe8a1 w8 of (d, h) \<Rightarrow>
      let w9 = w9 + (sha256_sigma1 w7 + w2 + sha256_sigma0 w10) in (case sha256_Round h a b c d e f g 0xa81a664b w9 of (c, g) \<Rightarrow>
      let w10 = w10 + (sha256_sigma1 w8 + w3 + sha256_sigma0 w11) in (case sha256_Round g h a b c d e f 0xc24b8b70 w10 of (b, f) \<Rightarrow>
      let w11 = w11 + (sha256_sigma1 w9 + w4 + sha256_sigma0 w12) in (case sha256_Round f g h a b c d e 0xc76c51a3 w11 of (a, e) \<Rightarrow>
      let w12 = w12 + (sha256_sigma1 w10 + w5 + sha256_sigma0 w13) in (case sha256_Round e f g h a b c d 0xd192e819 w12 of (h, d) \<Rightarrow>
      let w13 = w13 + (sha256_sigma1 w11 + w6 + sha256_sigma0 w14) in (case sha256_Round d e f g h a b c 0xd6990624 w13 of (g, c) \<Rightarrow>
      let w14 = w14 + (sha256_sigma1 w12 + w7 + sha256_sigma0 w15) in (case sha256_Round c d e f g h a b 0xf40e3585 w14 of (f, b) \<Rightarrow>
      let w15 = w15 + (sha256_sigma1 w13 + w8 + sha256_sigma0 w0) in (case sha256_Round b c d e f g h a 0x106aa070 w15 of (e, a) \<Rightarrow>
      let w0 = w0 + (sha256_sigma1 w14 + w9 + sha256_sigma0 w1) in (case sha256_Round a b c d e f g h 0x19a4c116 w0 of (d, h) \<Rightarrow>
      let w1 = w1 + (sha256_sigma1 w15 + w10 + sha256_sigma0 w2) in (case sha256_Round h a b c d e f g 0x1e376c08 w1 of (c, g) \<Rightarrow>
      let w2 = w2 + (sha256_sigma1 w0 + w11 + sha256_sigma0 w3) in (case sha256_Round g h a b c d e f 0x2748774c w2 of (b, f) \<Rightarrow>
      let w3 = w3 + (sha256_sigma1 w1 + w12 + sha256_sigma0 w4) in (case sha256_Round f g h a b c d e 0x34b0bcb5 w3 of (a, e) \<Rightarrow>
      let w4 = w4 + (sha256_sigma1 w2 + w13 + sha256_sigma0 w5) in (case sha256_Round e f g h a b c d 0x391c0cb3 w4 of (h, d) \<Rightarrow>
      let w5 = w5 + (sha256_sigma1 w3 + w14 + sha256_sigma0 w6) in (case sha256_Round d e f g h a b c 0x4ed8aa4a w5 of (g, c) \<Rightarrow>
      let w6 = w6 + (sha256_sigma1 w4 + w15 + sha256_sigma0 w7) in (case sha256_Round c d e f g h a b 0x5b9cca4f w6 of (f, b) \<Rightarrow>
      let w7 = w7 + (sha256_sigma1 w5 + w0 + sha256_sigma0 w8) in (case sha256_Round b c d e f g h a 0x682e6ff3 w7 of (e, a) \<Rightarrow>
      let w8 = w8 + (sha256_sigma1 w6 + w1 + sha256_sigma0 w9) in (case sha256_Round a b c d e f g h 0x748f82ee w8 of (d, h) \<Rightarrow>
      let w9 = w9 + (sha256_sigma1 w7 + w2 + sha256_sigma0 w10) in (case sha256_Round h a b c d e f g 0x78a5636f w9 of (c, g) \<Rightarrow>
      let w10 = w10 + (sha256_sigma1 w8 + w3 + sha256_sigma0 w11) in (case sha256_Round g h a b c d e f 0x84c87814 w10 of (b, f) \<Rightarrow>
      let w11 = w11 + (sha256_sigma1 w9 + w4 + sha256_sigma0 w12) in (case sha256_Round f g h a b c d e 0x8cc70208 w11 of (a, e) \<Rightarrow>
      let w12 = w12 + (sha256_sigma1 w10 + w5 + sha256_sigma0 w13) in (case sha256_Round e f g h a b c d 0x90befffa w12 of (h, d) \<Rightarrow>
      let w13 = w13 + (sha256_sigma1 w11 + w6 + sha256_sigma0 w14) in (case sha256_Round d e f g h a b c 0xa4506ceb w13 of (g, c) \<Rightarrow>
      let w = w14 + sha256_sigma1 w12 + w7 + sha256_sigma0 w15 in (case sha256_Round c d e f g h a b 0xbef9a3f7 w of (f, b) \<Rightarrow>
      let w = w15 + sha256_sigma1 w13 + w8 + sha256_sigma0 w0 in (case sha256_Round b c d e f g h a 0xc67178f2 w of (e, a) \<Rightarrow>
      [s ! 0 + a, s ! 1 + b, s ! 2 + c, s ! 3 + d, s ! 4 + e, s ! 5 + f, s ! 6 + g, s ! 7 + h])))))))))))))))))))))))))))))))))))))))))))))))))))))))))))))))))"

text \<open>The constructor leaves \<^verbatim>\<open>buf\<close> as it finds it: \<open>b0\<close> is that content.\<close>

definition CSHA256 :: "byte list \<Rightarrow> u32 hasher" where
  "CSHA256 b0 = \<lparr>hs = sha256_Initialize, hbuf = b0, hbytes = 0\<rparr>"

definition CSHA256_Write :: "u32 hasher \<Rightarrow> byte list \<Rightarrow> u32 hasher" where
  "CSHA256_Write h data = block_Write 64 sha256_Transform h data"

text \<open>\<^verbatim>\<open>Finalize\<close>: the digest bytes and the object it leaves behind.\<close>

definition CSHA256_Finalize :: "u32 hasher \<Rightarrow> byte list \<times> u32 hasher" where
  "CSHA256_Finalize h =
     (let pad = 0x80 # replicate 63 0;
          sizedesc = WriteBE64 (push_bit 3 (hbytes h));
          h1 = CSHA256_Write h (take (1 + ((119 - unat (hbytes h) mod 64) mod 64)) pad);
          h2 = CSHA256_Write h1 sizedesc
      in (WriteBE32 (hs h2 ! 0) @ WriteBE32 (hs h2 ! 1) @ WriteBE32 (hs h2 ! 2) @ WriteBE32 (hs h2 ! 3) @
          WriteBE32 (hs h2 ! 4) @ WriteBE32 (hs h2 ! 5) @ WriteBE32 (hs h2 ! 6) @ WriteBE32 (hs h2 ! 7), h2))"

definition CSHA256_Reset :: "u32 hasher \<Rightarrow> u32 hasher" where
  "CSHA256_Reset h = h\<lparr>hbytes := 0, hs := sha256_Initialize\<rparr>"

subsection \<open>The standard\<close>

definition fips256_K :: "u32 list" where
  "fips256_K = concat
    [[0x428a2f98, 0x71374491, 0xb5c0fbcf, 0xe9b5dba5],
     [0x3956c25b, 0x59f111f1, 0x923f82a4, 0xab1c5ed5],
     [0xd807aa98, 0x12835b01, 0x243185be, 0x550c7dc3],
     [0x72be5d74, 0x80deb1fe, 0x9bdc06a7, 0xc19bf174],
     [0xe49b69c1, 0xefbe4786, 0x0fc19dc6, 0x240ca1cc],
     [0x2de92c6f, 0x4a7484aa, 0x5cb0a9dc, 0x76f988da],
     [0x983e5152, 0xa831c66d, 0xb00327c8, 0xbf597fc7],
     [0xc6e00bf3, 0xd5a79147, 0x06ca6351, 0x14292967],
     [0x27b70a85, 0x2e1b2138, 0x4d2c6dfc, 0x53380d13],
     [0x650a7354, 0x766a0abb, 0x81c2c92e, 0x92722c85],
     [0xa2bfe8a1, 0xa81a664b, 0xc24b8b70, 0xc76c51a3],
     [0xd192e819, 0xd6990624, 0xf40e3585, 0x106aa070],
     [0x19a4c116, 0x1e376c08, 0x2748774c, 0x34b0bcb5],
     [0x391c0cb3, 0x4ed8aa4a, 0x5b9cca4f, 0x682e6ff3],
     [0x748f82ee, 0x78a5636f, 0x84c87814, 0x8cc70208],
     [0x90befffa, 0xa4506ceb, 0xbef9a3f7, 0xc67178f2]]"

definition fips256_Sum0 :: "u32 \<Rightarrow> u32" where
  "fips256_Sum0 x = word_rotr 2 x XOR word_rotr 13 x XOR word_rotr 22 x"

definition fips256_Sum1 :: "u32 \<Rightarrow> u32" where
  "fips256_Sum1 x = word_rotr 6 x XOR word_rotr 11 x XOR word_rotr 25 x"

definition fips256_sig0 :: "u32 \<Rightarrow> u32" where
  "fips256_sig0 x = word_rotr 7 x XOR word_rotr 18 x XOR drop_bit 3 x"

definition fips256_sig1 :: "u32 \<Rightarrow> u32" where
  "fips256_sig1 x = word_rotr 17 x XOR word_rotr 19 x XOR drop_bit 10 x"

fun fips256_step :: "u32 regs \<Rightarrow> u32 \<Rightarrow> u32 \<Rightarrow> u32 regs" where
  "fips256_step (a, b, c, d, e, f, g, h) K W =
     (let Ch = (e AND f) XOR (NOT e AND g);
          Maj = (a AND b) XOR (a AND c) XOR (b AND c);
          T1 = h + fips256_Sum1 e + Ch + K + W;
          T2 = fips256_Sum0 a + Maj
      in (T1 + T2, a, b, c, d + T1, e, f, g))"

definition fips256_block :: "byte list \<Rightarrow> u32 list" where
  "fips256_block chunk = map (\<lambda>i. ReadBE32 (drop (4 * i) chunk)) [0..<16]"

definition fips256_compress :: "u32 list \<Rightarrow> byte list \<Rightarrow> u32 list" where
  "fips256_compress H chunk =
     (case sha2_rounds fips256_step fips256_K (sha2_W fips256_sig0 fips256_sig1 (fips256_block chunk))
        (H ! 0, H ! 1, H ! 2, H ! 3, H ! 4, H ! 5, H ! 6, H ! 7) of
      (a, b, c, d, e, f, g, h) \<Rightarrow>
        [H ! 0 + a, H ! 1 + b, H ! 2 + c, H ! 3 + d, H ! 4 + e, H ! 5 + f, H ! 6 + g, H ! 7 + h])"

definition fips256_pad :: "byte list \<Rightarrow> byte list" where
  "fips256_pad m = m @ md_pad 64 56 (length m) @ WriteBE64 (of_nat (8 * length m))"

definition fips256_hash :: "byte list \<Rightarrow> byte list" where
  "fips256_hash m = concat (map WriteBE32 (absorb 64 fips256_compress sha256_Initialize (fips256_pad m)))"

subsection \<open>The code's round is the standard's\<close>

lemma sha256_Ch_eq: "sha256_Ch x y z = (x AND y) XOR (NOT x AND z)"
  by (rule bit_word_eqI) (auto simp: sha256_Ch_def bit_simps)

lemma sha256_Maj_eq: "sha256_Maj x y z = (x AND y) XOR (x AND z) XOR (y AND z)"
  by (rule bit_word_eqI) (auto simp: sha256_Maj_def bit_simps)

lemma sha256_Sigma_eq:
  "sha256_Sigma0 x = fips256_Sum0 x" "sha256_Sigma1 x = fips256_Sum1 x"
  "sha256_sigma0 x = fips256_sig0 x" "sha256_sigma1 x = fips256_sig1 x"
  by (simp_all add: sha256_Sigma0_def sha256_Sigma1_def sha256_sigma0_def sha256_sigma1_def fips256_Sum0_def
      fips256_Sum1_def fips256_sig0_def fips256_sig1_def flip: rotr_shifts)

interpretation sha256: sha2 sha256_Round fips256_step fips256_sig0 fips256_sig1
  by unfold_locales
    (auto simp: sha256_Round_def sha256_Ch_eq sha256_Maj_eq sha256_Sigma_eq Let_def)

text \<open>The unrolled code is the rolled program, term for term.\<close>

lemma sha256_Transform_run:
  "sha256_Transform s chunk = sha2_run sha256_Round
     [(0x428a2f98, \<lambda>_. ReadBE32 (drop 0 chunk)),
       (0x71374491, \<lambda>_. ReadBE32 (drop 4 chunk)),
       (0xb5c0fbcf, \<lambda>_. ReadBE32 (drop 8 chunk)),
       (0xe9b5dba5, \<lambda>_. ReadBE32 (drop 12 chunk)),
       (0x3956c25b, \<lambda>_. ReadBE32 (drop 16 chunk)),
       (0x59f111f1, \<lambda>_. ReadBE32 (drop 20 chunk)),
       (0x923f82a4, \<lambda>_. ReadBE32 (drop 24 chunk)),
       (0xab1c5ed5, \<lambda>_. ReadBE32 (drop 28 chunk)),
       (0xd807aa98, \<lambda>_. ReadBE32 (drop 32 chunk)),
       (0x12835b01, \<lambda>_. ReadBE32 (drop 36 chunk)),
       (0x243185be, \<lambda>_. ReadBE32 (drop 40 chunk)),
       (0x550c7dc3, \<lambda>_. ReadBE32 (drop 44 chunk)),
       (0x72be5d74, \<lambda>_. ReadBE32 (drop 48 chunk)),
       (0x80deb1fe, \<lambda>_. ReadBE32 (drop 52 chunk)),
       (0x9bdc06a7, \<lambda>_. ReadBE32 (drop 56 chunk)),
       (0xc19bf174, \<lambda>_. ReadBE32 (drop 60 chunk)),
       (0xe49b69c1, next_word sha256_sigma0 sha256_sigma1),
       (0xefbe4786, next_word sha256_sigma0 sha256_sigma1),
       (0x0fc19dc6, next_word sha256_sigma0 sha256_sigma1),
       (0x240ca1cc, next_word sha256_sigma0 sha256_sigma1),
       (0x2de92c6f, next_word sha256_sigma0 sha256_sigma1),
       (0x4a7484aa, next_word sha256_sigma0 sha256_sigma1),
       (0x5cb0a9dc, next_word sha256_sigma0 sha256_sigma1),
       (0x76f988da, next_word sha256_sigma0 sha256_sigma1),
       (0x983e5152, next_word sha256_sigma0 sha256_sigma1),
       (0xa831c66d, next_word sha256_sigma0 sha256_sigma1),
       (0xb00327c8, next_word sha256_sigma0 sha256_sigma1),
       (0xbf597fc7, next_word sha256_sigma0 sha256_sigma1),
       (0xc6e00bf3, next_word sha256_sigma0 sha256_sigma1),
       (0xd5a79147, next_word sha256_sigma0 sha256_sigma1),
       (0x06ca6351, next_word sha256_sigma0 sha256_sigma1),
       (0x14292967, next_word sha256_sigma0 sha256_sigma1),
       (0x27b70a85, next_word sha256_sigma0 sha256_sigma1),
       (0x2e1b2138, next_word sha256_sigma0 sha256_sigma1),
       (0x4d2c6dfc, next_word sha256_sigma0 sha256_sigma1),
       (0x53380d13, next_word sha256_sigma0 sha256_sigma1),
       (0x650a7354, next_word sha256_sigma0 sha256_sigma1),
       (0x766a0abb, next_word sha256_sigma0 sha256_sigma1),
       (0x81c2c92e, next_word sha256_sigma0 sha256_sigma1),
       (0x92722c85, next_word sha256_sigma0 sha256_sigma1),
       (0xa2bfe8a1, next_word sha256_sigma0 sha256_sigma1),
       (0xa81a664b, next_word sha256_sigma0 sha256_sigma1),
       (0xc24b8b70, next_word sha256_sigma0 sha256_sigma1),
       (0xc76c51a3, next_word sha256_sigma0 sha256_sigma1),
       (0xd192e819, next_word sha256_sigma0 sha256_sigma1),
       (0xd6990624, next_word sha256_sigma0 sha256_sigma1),
       (0xf40e3585, next_word sha256_sigma0 sha256_sigma1),
       (0x106aa070, next_word sha256_sigma0 sha256_sigma1),
       (0x19a4c116, next_word sha256_sigma0 sha256_sigma1),
       (0x1e376c08, next_word sha256_sigma0 sha256_sigma1),
       (0x2748774c, next_word sha256_sigma0 sha256_sigma1),
       (0x34b0bcb5, next_word sha256_sigma0 sha256_sigma1),
       (0x391c0cb3, next_word sha256_sigma0 sha256_sigma1),
       (0x4ed8aa4a, next_word sha256_sigma0 sha256_sigma1),
       (0x5b9cca4f, next_word sha256_sigma0 sha256_sigma1),
       (0x682e6ff3, next_word sha256_sigma0 sha256_sigma1),
       (0x748f82ee, next_word sha256_sigma0 sha256_sigma1),
       (0x78a5636f, next_word sha256_sigma0 sha256_sigma1),
       (0x84c87814, next_word sha256_sigma0 sha256_sigma1),
       (0x8cc70208, next_word sha256_sigma0 sha256_sigma1),
       (0x90befffa, next_word sha256_sigma0 sha256_sigma1),
       (0xa4506ceb, next_word sha256_sigma0 sha256_sigma1),
       (0xbef9a3f7, next_word sha256_sigma0 sha256_sigma1),
       (0xc67178f2, next_word sha256_sigma0 sha256_sigma1)]
     (0, 0, 0, 0, 0, 0, 0, 0, 0, 0, 0, 0, 0, 0, 0, 0) (s ! 0, s ! 1, s ! 2, s ! 3, s ! 4, s ! 5, s ! 6, s ! 7)
     (\<lambda>(a, b, c, d, e, f, g, h). [s ! 0 + a, s ! 1 + b, s ! 2 + c, s ! 3 + d, s ! 4 + e, s ! 5 + f, s ! 6 + g, s ! 7 + h])"
  unfolding sha256_Transform_def sha2_run.simps next_word.simps prod.case add.assoc
    Let_def [of "s ! 0"] Let_def [of "s ! 1"] Let_def [of "s ! 2"] Let_def [of "s ! 3"]
    Let_def [of "s ! 4"] Let_def [of "s ! 5"] Let_def [of "s ! 6"] Let_def [of "s ! 7"]
  by (rule refl)

lemma sha256_program:
  "[(0x428a2f98, \<lambda>_. ReadBE32 (drop 0 chunk)),
       (0x71374491, \<lambda>_. ReadBE32 (drop 4 chunk)),
       (0xb5c0fbcf, \<lambda>_. ReadBE32 (drop 8 chunk)),
       (0xe9b5dba5, \<lambda>_. ReadBE32 (drop 12 chunk)),
       (0x3956c25b, \<lambda>_. ReadBE32 (drop 16 chunk)),
       (0x59f111f1, \<lambda>_. ReadBE32 (drop 20 chunk)),
       (0x923f82a4, \<lambda>_. ReadBE32 (drop 24 chunk)),
       (0xab1c5ed5, \<lambda>_. ReadBE32 (drop 28 chunk)),
       (0xd807aa98, \<lambda>_. ReadBE32 (drop 32 chunk)),
       (0x12835b01, \<lambda>_. ReadBE32 (drop 36 chunk)),
       (0x243185be, \<lambda>_. ReadBE32 (drop 40 chunk)),
       (0x550c7dc3, \<lambda>_. ReadBE32 (drop 44 chunk)),
       (0x72be5d74, \<lambda>_. ReadBE32 (drop 48 chunk)),
       (0x80deb1fe, \<lambda>_. ReadBE32 (drop 52 chunk)),
       (0x9bdc06a7, \<lambda>_. ReadBE32 (drop 56 chunk)),
       (0xc19bf174, \<lambda>_. ReadBE32 (drop 60 chunk)),
       (0xe49b69c1, next_word sha256_sigma0 sha256_sigma1),
       (0xefbe4786, next_word sha256_sigma0 sha256_sigma1),
       (0x0fc19dc6, next_word sha256_sigma0 sha256_sigma1),
       (0x240ca1cc, next_word sha256_sigma0 sha256_sigma1),
       (0x2de92c6f, next_word sha256_sigma0 sha256_sigma1),
       (0x4a7484aa, next_word sha256_sigma0 sha256_sigma1),
       (0x5cb0a9dc, next_word sha256_sigma0 sha256_sigma1),
       (0x76f988da, next_word sha256_sigma0 sha256_sigma1),
       (0x983e5152, next_word sha256_sigma0 sha256_sigma1),
       (0xa831c66d, next_word sha256_sigma0 sha256_sigma1),
       (0xb00327c8, next_word sha256_sigma0 sha256_sigma1),
       (0xbf597fc7, next_word sha256_sigma0 sha256_sigma1),
       (0xc6e00bf3, next_word sha256_sigma0 sha256_sigma1),
       (0xd5a79147, next_word sha256_sigma0 sha256_sigma1),
       (0x06ca6351, next_word sha256_sigma0 sha256_sigma1),
       (0x14292967, next_word sha256_sigma0 sha256_sigma1),
       (0x27b70a85, next_word sha256_sigma0 sha256_sigma1),
       (0x2e1b2138, next_word sha256_sigma0 sha256_sigma1),
       (0x4d2c6dfc, next_word sha256_sigma0 sha256_sigma1),
       (0x53380d13, next_word sha256_sigma0 sha256_sigma1),
       (0x650a7354, next_word sha256_sigma0 sha256_sigma1),
       (0x766a0abb, next_word sha256_sigma0 sha256_sigma1),
       (0x81c2c92e, next_word sha256_sigma0 sha256_sigma1),
       (0x92722c85, next_word sha256_sigma0 sha256_sigma1),
       (0xa2bfe8a1, next_word sha256_sigma0 sha256_sigma1),
       (0xa81a664b, next_word sha256_sigma0 sha256_sigma1),
       (0xc24b8b70, next_word sha256_sigma0 sha256_sigma1),
       (0xc76c51a3, next_word sha256_sigma0 sha256_sigma1),
       (0xd192e819, next_word sha256_sigma0 sha256_sigma1),
       (0xd6990624, next_word sha256_sigma0 sha256_sigma1),
       (0xf40e3585, next_word sha256_sigma0 sha256_sigma1),
       (0x106aa070, next_word sha256_sigma0 sha256_sigma1),
       (0x19a4c116, next_word sha256_sigma0 sha256_sigma1),
       (0x1e376c08, next_word sha256_sigma0 sha256_sigma1),
       (0x2748774c, next_word sha256_sigma0 sha256_sigma1),
       (0x34b0bcb5, next_word sha256_sigma0 sha256_sigma1),
       (0x391c0cb3, next_word sha256_sigma0 sha256_sigma1),
       (0x4ed8aa4a, next_word sha256_sigma0 sha256_sigma1),
       (0x5b9cca4f, next_word sha256_sigma0 sha256_sigma1),
       (0x682e6ff3, next_word sha256_sigma0 sha256_sigma1),
       (0x748f82ee, next_word sha256_sigma0 sha256_sigma1),
       (0x78a5636f, next_word sha256_sigma0 sha256_sigma1),
       (0x84c87814, next_word sha256_sigma0 sha256_sigma1),
       (0x8cc70208, next_word sha256_sigma0 sha256_sigma1),
       (0x90befffa, next_word sha256_sigma0 sha256_sigma1),
       (0xa4506ceb, next_word sha256_sigma0 sha256_sigma1),
       (0xbef9a3f7, next_word sha256_sigma0 sha256_sigma1),
       (0xc67178f2, next_word sha256_sigma0 sha256_sigma1)] =
   map (\<lambda>t. (fips256_K ! t, \<lambda>_. fips256_block chunk ! t)) [0..<16] @
   map (\<lambda>t. (fips256_K ! t, next_word sha256_sigma0 sha256_sigma1)) [16..<16 + 48]"
  by (simp add: fips256_K_def fips256_block_def upt_conv_Cons numeral_2_eq_2)

lemma sha256_Transform_compress: "sha256_Transform s chunk = fips256_compress s chunk"
proof -
  have sig: "next_word sha256_sigma0 sha256_sigma1 = next_word fips256_sig0 fips256_sig1"
    by (simp add: sha256_Sigma_eq [abs_def])
  have "length fips256_K = 16 + 48"
    by (simp add: fips256_K_def)
  then show ?thesis
    unfolding sha256_Transform_run sha256_program fips256_compress_def
    unfolding sig by (rule sha256.run_program)
qed

lemma sha256_absorb: "absorb 64 sha256_Transform s m = absorb 64 fips256_compress s m"
  by (simp add: sha256_Transform_compress [abs_def])

lemma fips256_block_take: "64 \<le> length d \<Longrightarrow> fips256_block (take 64 d) = fips256_block d"
  by (auto simp: fips256_block_def ReadBE32_def)

interpretation sha256_stream: block_hasher 64 sha256_Transform CSHA256_Write
  by unfold_locales
    (auto simp: sha256_Transform_compress fips256_compress_def fips256_block_take CSHA256_Write_def)

lemma length_fips256_compress [simp]: "length (fips256_compress s d) = 8"
  by (simp add: fips256_compress_def split: prod.splits)

lemma length_fips256_absorb [simp]: "length s = 8 \<Longrightarrow> length (absorb 64 fips256_compress s m) = 8"
  by (induction "64 :: nat" "fips256_compress" s m rule: absorb.induct) (subst absorb.simps, simp)

lemma sha256_concat8:
  assumes "length (s::u32 list) = 8"
  shows "concat (map WriteBE32 s) = WriteBE32 (s ! 0) @ WriteBE32 (s ! 1) @ WriteBE32 (s ! 2) @ WriteBE32 (s ! 3) @
    WriteBE32 (s ! 4) @ WriteBE32 (s ! 5) @ WriteBE32 (s ! 6) @ WriteBE32 (s ! 7)"
  using assms by (auto simp: numeral_eq_Suc length_Suc_conv)

lemma CSHA256_digest:
  assumes "absorbed 64 sha256_Transform sha256_Initialize h m"
  shows "fst (CSHA256_Finalize h) = fips256_hash m"
proof -
  have cnt: "unat (hbytes h) mod 64 = length m mod 64" "hbytes h = of_nat (length m)"
    using sha256_stream.absorbed_count [OF assms] by auto
  have size: "push_bit 3 (hbytes h) = of_nat (8 * length m)"
    by (simp add: cnt(2) push_bit_eq_mult)
  let ?h2 = "CSHA256_Write (CSHA256_Write h (md_pad 64 56 (length m))) (WriteBE64 (of_nat (8 * length m)))"
  have "hs ?h2 = absorb 64 fips256_compress sha256_Initialize (fips256_pad m)"
    using sha256_stream.absorbed_hs [OF assms] by (simp add: sha256_absorb fips256_pad_def)
  then show ?thesis
    by (simp add: CSHA256_Finalize_def cnt(1) size code_pad_64 [simplified] Let_def fips256_hash_def sha256_concat8 sha256_Initialize_def)
qed

subsection \<open>Properties\<close>

text \<open>
  C34. \<^verbatim>\<open>sha256::Transform\<close>, with all its 64 unrolled rounds, is the compression function of the
  standard: for every chaining value and every block it computes what FIPS 180-4 defines.
\<close>

theorem sha256_Transform_fips: "sha256_Transform s chunk = fips256_compress s chunk"
  by (rule sha256_Transform_compress)

text \<open>
  The numeric constants are the standard's: the initial chaining values are the first 32 bits of
  the fractional parts of the square roots of the first eight primes, and the 64 round constants
  those of the cube roots of the first 64 primes.
\<close>

lemma sha256_constants:
  "list_all2 (\<lambda>p k. root_frac 2 32 p (unat k)) (take 8 first_primes) sha256_Initialize \<and>
   list_all2 (\<lambda>p k. root_frac 3 32 p (unat k)) (take 64 first_primes) fips256_K"
  unfolding take_first_primes
  unfolding first_primes_def sha256_Initialize_def fips256_K_def concat.simps append.simps list_all2_Cons list_all2_Nil
  by (intro conjI TrueI; simp add: root_frac_def int_root_def)

text \<open>
  C33. Streaming: whatever the uninitialised buffer holds and however the data is cut into \<^verbatim>\<open>Write\<close>
  calls, \<^verbatim>\<open>CSHA256::Finalize\<close> returns the SHA-256 digest (32 bytes) of all the data written.
\<close>

theorem CSHA256_stream:
  assumes "length b0 = 64"
  shows "fst (CSHA256_Finalize (foldl CSHA256_Write (CSHA256 b0) chunks)) = fips256_hash (concat chunks) \<and>
    length (fips256_hash (concat chunks)) = 32"
proof -
  have "absorbed 64 sha256_Transform sha256_Initialize (CSHA256 b0) []"
    using sha256_stream.absorbed_init [OF assms] by (simp add: CSHA256_def)
  from sha256_stream.absorbed_stream [OF this, of chunks] CSHA256_digest show ?thesis
    by (simp add: fips256_hash_def sha256_concat8 sha256_Initialize_def)
qed

theorem CSHA256_stream_witness:
  "fst (CSHA256_Finalize (CSHA256_Write (CSHA256_Write (CSHA256 (replicate 64 7)) [0x61]) [0x62, 0x63])) =
     fips256_hash [0x61, 0x62, 0x63]"
  using CSHA256_stream [of "replicate 64 7" "[[0x61], [0x62, 0x63]]"] by simp

end
