(* ===== verification/Sha512.thy ===== *)
theory Sha512
  imports Sha2_Common
begin

section \<open>SHA-512 (util/cryption/sha512)\<close>

text \<open>
  The class \<^verbatim>\<open>CSHA512\<close> and the compression function of \<^verbatim>\<open>sha512.cpp\<close>, statement by statement, and the
  function the standard defines (FIPS 180-4, section 6.4). Shown: the unrolled \<^verbatim>\<open>Transform\<close> is the
  standard's compression function, and any sequence of \<^verbatim>\<open>Write\<close> calls followed by \<^verbatim>\<open>Finalize\<close> gives
  the standard's digest of the concatenated data.
\<close>

subsection \<open>The code\<close>

definition sha512_Ch :: "u64 \<Rightarrow> u64 \<Rightarrow> u64 \<Rightarrow> u64" where
  "sha512_Ch x y z = z XOR (x AND (y XOR z))"

definition sha512_Maj :: "u64 \<Rightarrow> u64 \<Rightarrow> u64 \<Rightarrow> u64" where
  "sha512_Maj x y z = (x AND y) OR (z AND (x OR y))"

definition sha512_Sigma0 :: "u64 \<Rightarrow> u64" where
  "sha512_Sigma0 x = (drop_bit 28 x OR push_bit 36 x) XOR (drop_bit 34 x OR push_bit 30 x) XOR (drop_bit 39 x OR push_bit 25 x)"

definition sha512_Sigma1 :: "u64 \<Rightarrow> u64" where
  "sha512_Sigma1 x = (drop_bit 14 x OR push_bit 50 x) XOR (drop_bit 18 x OR push_bit 46 x) XOR (drop_bit 41 x OR push_bit 23 x)"

definition sha512_sigma0 :: "u64 \<Rightarrow> u64" where
  "sha512_sigma0 x = (drop_bit 1 x OR push_bit 63 x) XOR (drop_bit 8 x OR push_bit 56 x) XOR drop_bit 7 x"

definition sha512_sigma1 :: "u64 \<Rightarrow> u64" where
  "sha512_sigma1 x = (drop_bit 19 x OR push_bit 45 x) XOR (drop_bit 61 x OR push_bit 3 x) XOR drop_bit 6 x"

text \<open>\<^verbatim>\<open>Round\<close> writes its reference parameters \<^verbatim>\<open>d\<close> and \<^verbatim>\<open>h\<close>: the result is their new values.\<close>

definition sha512_Round ::
  "u64 \<Rightarrow> u64 \<Rightarrow> u64 \<Rightarrow> u64 \<Rightarrow> u64 \<Rightarrow> u64 \<Rightarrow> u64 \<Rightarrow> u64 \<Rightarrow> u64 \<Rightarrow> u64 \<Rightarrow> u64 \<times> u64"
where
  "sha512_Round a b c d e f g h k w =
     (let t1 = h + sha512_Sigma1 e + sha512_Ch e f g + k + w;
          t2 = sha512_Sigma0 a + sha512_Maj a b c
      in (d + t1, t1 + t2))"

definition sha512_Initialize :: "u64 list" where
  "sha512_Initialize =
     [0x6a09e667f3bcc908, 0xbb67ae8584caa73b, 0x3c6ef372fe94f82b, 0xa54ff53a5f1d36f1, 0x510e527fade682d1, 0x9b05688c2b3e6c1f, 0x1f83d9abfb41bd6b, 0x5be0cd19137e2179]"

definition sha512_Transform :: "u64 list \<Rightarrow> byte list \<Rightarrow> u64 list" where
  "sha512_Transform s chunk =
     (let a = s ! 0; b = s ! 1; c = s ! 2; d = s ! 3; e = s ! 4; f = s ! 5; g = s ! 6; h = s ! 7 in
      let w0 = ReadBE64 (drop 0 chunk) in (case sha512_Round a b c d e f g h 0x428a2f98d728ae22 w0 of (d, h) \<Rightarrow>
      let w1 = ReadBE64 (drop 8 chunk) in (case sha512_Round h a b c d e f g 0x7137449123ef65cd w1 of (c, g) \<Rightarrow>
      let w2 = ReadBE64 (drop 16 chunk) in (case sha512_Round g h a b c d e f 0xb5c0fbcfec4d3b2f w2 of (b, f) \<Rightarrow>
      let w3 = ReadBE64 (drop 24 chunk) in (case sha512_Round f g h a b c d e 0xe9b5dba58189dbbc w3 of (a, e) \<Rightarrow>
      let w4 = ReadBE64 (drop 32 chunk) in (case sha512_Round e f g h a b c d 0x3956c25bf348b538 w4 of (h, d) \<Rightarrow>
      let w5 = ReadBE64 (drop 40 chunk) in (case sha512_Round d e f g h a b c 0x59f111f1b605d019 w5 of (g, c) \<Rightarrow>
      let w6 = ReadBE64 (drop 48 chunk) in (case sha512_Round c d e f g h a b 0x923f82a4af194f9b w6 of (f, b) \<Rightarrow>
      let w7 = ReadBE64 (drop 56 chunk) in (case sha512_Round b c d e f g h a 0xab1c5ed5da6d8118 w7 of (e, a) \<Rightarrow>
      let w8 = ReadBE64 (drop 64 chunk) in (case sha512_Round a b c d e f g h 0xd807aa98a3030242 w8 of (d, h) \<Rightarrow>
      let w9 = ReadBE64 (drop 72 chunk) in (case sha512_Round h a b c d e f g 0x12835b0145706fbe w9 of (c, g) \<Rightarrow>
      let w10 = ReadBE64 (drop 80 chunk) in (case sha512_Round g h a b c d e f 0x243185be4ee4b28c w10 of (b, f) \<Rightarrow>
      let w11 = ReadBE64 (drop 88 chunk) in (case sha512_Round f g h a b c d e 0x550c7dc3d5ffb4e2 w11 of (a, e) \<Rightarrow>
      let w12 = ReadBE64 (drop 96 chunk) in (case sha512_Round e f g h a b c d 0x72be5d74f27b896f w12 of (h, d) \<Rightarrow>
      let w13 = ReadBE64 (drop 104 chunk) in (case sha512_Round d e f g h a b c 0x80deb1fe3b1696b1 w13 of (g, c) \<Rightarrow>
      let w14 = ReadBE64 (drop 112 chunk) in (case sha512_Round c d e f g h a b 0x9bdc06a725c71235 w14 of (f, b) \<Rightarrow>
      let w15 = ReadBE64 (drop 120 chunk) in (case sha512_Round b c d e f g h a 0xc19bf174cf692694 w15 of (e, a) \<Rightarrow>
      let w0 = w0 + (sha512_sigma1 w14 + w9 + sha512_sigma0 w1) in (case sha512_Round a b c d e f g h 0xe49b69c19ef14ad2 w0 of (d, h) \<Rightarrow>
      let w1 = w1 + (sha512_sigma1 w15 + w10 + sha512_sigma0 w2) in (case sha512_Round h a b c d e f g 0xefbe4786384f25e3 w1 of (c, g) \<Rightarrow>
      let w2 = w2 + (sha512_sigma1 w0 + w11 + sha512_sigma0 w3) in (case sha512_Round g h a b c d e f 0x0fc19dc68b8cd5b5 w2 of (b, f) \<Rightarrow>
      let w3 = w3 + (sha512_sigma1 w1 + w12 + sha512_sigma0 w4) in (case sha512_Round f g h a b c d e 0x240ca1cc77ac9c65 w3 of (a, e) \<Rightarrow>
      let w4 = w4 + (sha512_sigma1 w2 + w13 + sha512_sigma0 w5) in (case sha512_Round e f g h a b c d 0x2de92c6f592b0275 w4 of (h, d) \<Rightarrow>
      let w5 = w5 + (sha512_sigma1 w3 + w14 + sha512_sigma0 w6) in (case sha512_Round d e f g h a b c 0x4a7484aa6ea6e483 w5 of (g, c) \<Rightarrow>
      let w6 = w6 + (sha512_sigma1 w4 + w15 + sha512_sigma0 w7) in (case sha512_Round c d e f g h a b 0x5cb0a9dcbd41fbd4 w6 of (f, b) \<Rightarrow>
      let w7 = w7 + (sha512_sigma1 w5 + w0 + sha512_sigma0 w8) in (case sha512_Round b c d e f g h a 0x76f988da831153b5 w7 of (e, a) \<Rightarrow>
      let w8 = w8 + (sha512_sigma1 w6 + w1 + sha512_sigma0 w9) in (case sha512_Round a b c d e f g h 0x983e5152ee66dfab w8 of (d, h) \<Rightarrow>
      let w9 = w9 + (sha512_sigma1 w7 + w2 + sha512_sigma0 w10) in (case sha512_Round h a b c d e f g 0xa831c66d2db43210 w9 of (c, g) \<Rightarrow>
      let w10 = w10 + (sha512_sigma1 w8 + w3 + sha512_sigma0 w11) in (case sha512_Round g h a b c d e f 0xb00327c898fb213f w10 of (b, f) \<Rightarrow>
      let w11 = w11 + (sha512_sigma1 w9 + w4 + sha512_sigma0 w12) in (case sha512_Round f g h a b c d e 0xbf597fc7beef0ee4 w11 of (a, e) \<Rightarrow>
      let w12 = w12 + (sha512_sigma1 w10 + w5 + sha512_sigma0 w13) in (case sha512_Round e f g h a b c d 0xc6e00bf33da88fc2 w12 of (h, d) \<Rightarrow>
      let w13 = w13 + (sha512_sigma1 w11 + w6 + sha512_sigma0 w14) in (case sha512_Round d e f g h a b c 0xd5a79147930aa725 w13 of (g, c) \<Rightarrow>
      let w14 = w14 + (sha512_sigma1 w12 + w7 + sha512_sigma0 w15) in (case sha512_Round c d e f g h a b 0x06ca6351e003826f w14 of (f, b) \<Rightarrow>
      let w15 = w15 + (sha512_sigma1 w13 + w8 + sha512_sigma0 w0) in (case sha512_Round b c d e f g h a 0x142929670a0e6e70 w15 of (e, a) \<Rightarrow>
      let w0 = w0 + (sha512_sigma1 w14 + w9 + sha512_sigma0 w1) in (case sha512_Round a b c d e f g h 0x27b70a8546d22ffc w0 of (d, h) \<Rightarrow>
      let w1 = w1 + (sha512_sigma1 w15 + w10 + sha512_sigma0 w2) in (case sha512_Round h a b c d e f g 0x2e1b21385c26c926 w1 of (c, g) \<Rightarrow>
      let w2 = w2 + (sha512_sigma1 w0 + w11 + sha512_sigma0 w3) in (case sha512_Round g h a b c d e f 0x4d2c6dfc5ac42aed w2 of (b, f) \<Rightarrow>
      let w3 = w3 + (sha512_sigma1 w1 + w12 + sha512_sigma0 w4) in (case sha512_Round f g h a b c d e 0x53380d139d95b3df w3 of (a, e) \<Rightarrow>
      let w4 = w4 + (sha512_sigma1 w2 + w13 + sha512_sigma0 w5) in (case sha512_Round e f g h a b c d 0x650a73548baf63de w4 of (h, d) \<Rightarrow>
      let w5 = w5 + (sha512_sigma1 w3 + w14 + sha512_sigma0 w6) in (case sha512_Round d e f g h a b c 0x766a0abb3c77b2a8 w5 of (g, c) \<Rightarrow>
      let w6 = w6 + (sha512_sigma1 w4 + w15 + sha512_sigma0 w7) in (case sha512_Round c d e f g h a b 0x81c2c92e47edaee6 w6 of (f, b) \<Rightarrow>
      let w7 = w7 + (sha512_sigma1 w5 + w0 + sha512_sigma0 w8) in (case sha512_Round b c d e f g h a 0x92722c851482353b w7 of (e, a) \<Rightarrow>
      let w8 = w8 + (sha512_sigma1 w6 + w1 + sha512_sigma0 w9) in (case sha512_Round a b c d e f g h 0xa2bfe8a14cf10364 w8 of (d, h) \<Rightarrow>
      let w9 = w9 + (sha512_sigma1 w7 + w2 + sha512_sigma0 w10) in (case sha512_Round h a b c d e f g 0xa81a664bbc423001 w9 of (c, g) \<Rightarrow>
      let w10 = w10 + (sha512_sigma1 w8 + w3 + sha512_sigma0 w11) in (case sha512_Round g h a b c d e f 0xc24b8b70d0f89791 w10 of (b, f) \<Rightarrow>
      let w11 = w11 + (sha512_sigma1 w9 + w4 + sha512_sigma0 w12) in (case sha512_Round f g h a b c d e 0xc76c51a30654be30 w11 of (a, e) \<Rightarrow>
      let w12 = w12 + (sha512_sigma1 w10 + w5 + sha512_sigma0 w13) in (case sha512_Round e f g h a b c d 0xd192e819d6ef5218 w12 of (h, d) \<Rightarrow>
      let w13 = w13 + (sha512_sigma1 w11 + w6 + sha512_sigma0 w14) in (case sha512_Round d e f g h a b c 0xd69906245565a910 w13 of (g, c) \<Rightarrow>
      let w14 = w14 + (sha512_sigma1 w12 + w7 + sha512_sigma0 w15) in (case sha512_Round c d e f g h a b 0xf40e35855771202a w14 of (f, b) \<Rightarrow>
      let w15 = w15 + (sha512_sigma1 w13 + w8 + sha512_sigma0 w0) in (case sha512_Round b c d e f g h a 0x106aa07032bbd1b8 w15 of (e, a) \<Rightarrow>
      let w0 = w0 + (sha512_sigma1 w14 + w9 + sha512_sigma0 w1) in (case sha512_Round a b c d e f g h 0x19a4c116b8d2d0c8 w0 of (d, h) \<Rightarrow>
      let w1 = w1 + (sha512_sigma1 w15 + w10 + sha512_sigma0 w2) in (case sha512_Round h a b c d e f g 0x1e376c085141ab53 w1 of (c, g) \<Rightarrow>
      let w2 = w2 + (sha512_sigma1 w0 + w11 + sha512_sigma0 w3) in (case sha512_Round g h a b c d e f 0x2748774cdf8eeb99 w2 of (b, f) \<Rightarrow>
      let w3 = w3 + (sha512_sigma1 w1 + w12 + sha512_sigma0 w4) in (case sha512_Round f g h a b c d e 0x34b0bcb5e19b48a8 w3 of (a, e) \<Rightarrow>
      let w4 = w4 + (sha512_sigma1 w2 + w13 + sha512_sigma0 w5) in (case sha512_Round e f g h a b c d 0x391c0cb3c5c95a63 w4 of (h, d) \<Rightarrow>
      let w5 = w5 + (sha512_sigma1 w3 + w14 + sha512_sigma0 w6) in (case sha512_Round d e f g h a b c 0x4ed8aa4ae3418acb w5 of (g, c) \<Rightarrow>
      let w6 = w6 + (sha512_sigma1 w4 + w15 + sha512_sigma0 w7) in (case sha512_Round c d e f g h a b 0x5b9cca4f7763e373 w6 of (f, b) \<Rightarrow>
      let w7 = w7 + (sha512_sigma1 w5 + w0 + sha512_sigma0 w8) in (case sha512_Round b c d e f g h a 0x682e6ff3d6b2b8a3 w7 of (e, a) \<Rightarrow>
      let w8 = w8 + (sha512_sigma1 w6 + w1 + sha512_sigma0 w9) in (case sha512_Round a b c d e f g h 0x748f82ee5defb2fc w8 of (d, h) \<Rightarrow>
      let w9 = w9 + (sha512_sigma1 w7 + w2 + sha512_sigma0 w10) in (case sha512_Round h a b c d e f g 0x78a5636f43172f60 w9 of (c, g) \<Rightarrow>
      let w10 = w10 + (sha512_sigma1 w8 + w3 + sha512_sigma0 w11) in (case sha512_Round g h a b c d e f 0x84c87814a1f0ab72 w10 of (b, f) \<Rightarrow>
      let w11 = w11 + (sha512_sigma1 w9 + w4 + sha512_sigma0 w12) in (case sha512_Round f g h a b c d e 0x8cc702081a6439ec w11 of (a, e) \<Rightarrow>
      let w12 = w12 + (sha512_sigma1 w10 + w5 + sha512_sigma0 w13) in (case sha512_Round e f g h a b c d 0x90befffa23631e28 w12 of (h, d) \<Rightarrow>
      let w13 = w13 + (sha512_sigma1 w11 + w6 + sha512_sigma0 w14) in (case sha512_Round d e f g h a b c 0xa4506cebde82bde9 w13 of (g, c) \<Rightarrow>
      let w14 = w14 + (sha512_sigma1 w12 + w7 + sha512_sigma0 w15) in (case sha512_Round c d e f g h a b 0xbef9a3f7b2c67915 w14 of (f, b) \<Rightarrow>
      let w15 = w15 + (sha512_sigma1 w13 + w8 + sha512_sigma0 w0) in (case sha512_Round b c d e f g h a 0xc67178f2e372532b w15 of (e, a) \<Rightarrow>
      let w0 = w0 + (sha512_sigma1 w14 + w9 + sha512_sigma0 w1) in (case sha512_Round a b c d e f g h 0xca273eceea26619c w0 of (d, h) \<Rightarrow>
      let w1 = w1 + (sha512_sigma1 w15 + w10 + sha512_sigma0 w2) in (case sha512_Round h a b c d e f g 0xd186b8c721c0c207 w1 of (c, g) \<Rightarrow>
      let w2 = w2 + (sha512_sigma1 w0 + w11 + sha512_sigma0 w3) in (case sha512_Round g h a b c d e f 0xeada7dd6cde0eb1e w2 of (b, f) \<Rightarrow>
      let w3 = w3 + (sha512_sigma1 w1 + w12 + sha512_sigma0 w4) in (case sha512_Round f g h a b c d e 0xf57d4f7fee6ed178 w3 of (a, e) \<Rightarrow>
      let w4 = w4 + (sha512_sigma1 w2 + w13 + sha512_sigma0 w5) in (case sha512_Round e f g h a b c d 0x06f067aa72176fba w4 of (h, d) \<Rightarrow>
      let w5 = w5 + (sha512_sigma1 w3 + w14 + sha512_sigma0 w6) in (case sha512_Round d e f g h a b c 0x0a637dc5a2c898a6 w5 of (g, c) \<Rightarrow>
      let w6 = w6 + (sha512_sigma1 w4 + w15 + sha512_sigma0 w7) in (case sha512_Round c d e f g h a b 0x113f9804bef90dae w6 of (f, b) \<Rightarrow>
      let w7 = w7 + (sha512_sigma1 w5 + w0 + sha512_sigma0 w8) in (case sha512_Round b c d e f g h a 0x1b710b35131c471b w7 of (e, a) \<Rightarrow>
      let w8 = w8 + (sha512_sigma1 w6 + w1 + sha512_sigma0 w9) in (case sha512_Round a b c d e f g h 0x28db77f523047d84 w8 of (d, h) \<Rightarrow>
      let w9 = w9 + (sha512_sigma1 w7 + w2 + sha512_sigma0 w10) in (case sha512_Round h a b c d e f g 0x32caab7b40c72493 w9 of (c, g) \<Rightarrow>
      let w10 = w10 + (sha512_sigma1 w8 + w3 + sha512_sigma0 w11) in (case sha512_Round g h a b c d e f 0x3c9ebe0a15c9bebc w10 of (b, f) \<Rightarrow>
      let w11 = w11 + (sha512_sigma1 w9 + w4 + sha512_sigma0 w12) in (case sha512_Round f g h a b c d e 0x431d67c49c100d4c w11 of (a, e) \<Rightarrow>
      let w12 = w12 + (sha512_sigma1 w10 + w5 + sha512_sigma0 w13) in (case sha512_Round e f g h a b c d 0x4cc5d4becb3e42b6 w12 of (h, d) \<Rightarrow>
      let w13 = w13 + (sha512_sigma1 w11 + w6 + sha512_sigma0 w14) in (case sha512_Round d e f g h a b c 0x597f299cfc657e2a w13 of (g, c) \<Rightarrow>
      let w = w14 + sha512_sigma1 w12 + w7 + sha512_sigma0 w15 in (case sha512_Round c d e f g h a b 0x5fcb6fab3ad6faec w of (f, b) \<Rightarrow>
      let w = w15 + sha512_sigma1 w13 + w8 + sha512_sigma0 w0 in (case sha512_Round b c d e f g h a 0x6c44198c4a475817 w of (e, a) \<Rightarrow>
      [s ! 0 + a, s ! 1 + b, s ! 2 + c, s ! 3 + d, s ! 4 + e, s ! 5 + f, s ! 6 + g, s ! 7 + h])))))))))))))))))))))))))))))))))))))))))))))))))))))))))))))))))))))))))))))))))"

text \<open>The constructor leaves \<^verbatim>\<open>buf\<close> as it finds it: \<open>b0\<close> is that content.\<close>

definition CSHA512 :: "byte list \<Rightarrow> u64 hasher" where
  "CSHA512 b0 = \<lparr>hs = sha512_Initialize, hbuf = b0, hbytes = 0\<rparr>"

definition CSHA512_Write :: "u64 hasher \<Rightarrow> byte list \<Rightarrow> u64 hasher" where
  "CSHA512_Write h data = block_Write 128 sha512_Transform h data"

text \<open>\<^verbatim>\<open>Finalize\<close>: the digest bytes and the object it leaves behind.\<close>

definition CSHA512_Finalize :: "u64 hasher \<Rightarrow> byte list \<times> u64 hasher" where
  "CSHA512_Finalize h =
     (let pad = 0x80 # replicate 127 0;
          sizedesc = replicate 8 0 @ WriteBE64 (push_bit 3 (hbytes h));
          h1 = CSHA512_Write h (take (1 + ((239 - unat (hbytes h) mod 128) mod 128)) pad);
          h2 = CSHA512_Write h1 sizedesc
      in (WriteBE64 (hs h2 ! 0) @ WriteBE64 (hs h2 ! 1) @ WriteBE64 (hs h2 ! 2) @ WriteBE64 (hs h2 ! 3) @
          WriteBE64 (hs h2 ! 4) @ WriteBE64 (hs h2 ! 5) @ WriteBE64 (hs h2 ! 6) @ WriteBE64 (hs h2 ! 7), h2))"

definition CSHA512_Reset :: "u64 hasher \<Rightarrow> u64 hasher" where
  "CSHA512_Reset h = h\<lparr>hbytes := 0, hs := sha512_Initialize\<rparr>"

subsection \<open>The standard\<close>

definition fips512_K :: "u64 list" where
  "fips512_K = concat
    [[0x428a2f98d728ae22, 0x7137449123ef65cd, 0xb5c0fbcfec4d3b2f, 0xe9b5dba58189dbbc],
     [0x3956c25bf348b538, 0x59f111f1b605d019, 0x923f82a4af194f9b, 0xab1c5ed5da6d8118],
     [0xd807aa98a3030242, 0x12835b0145706fbe, 0x243185be4ee4b28c, 0x550c7dc3d5ffb4e2],
     [0x72be5d74f27b896f, 0x80deb1fe3b1696b1, 0x9bdc06a725c71235, 0xc19bf174cf692694],
     [0xe49b69c19ef14ad2, 0xefbe4786384f25e3, 0x0fc19dc68b8cd5b5, 0x240ca1cc77ac9c65],
     [0x2de92c6f592b0275, 0x4a7484aa6ea6e483, 0x5cb0a9dcbd41fbd4, 0x76f988da831153b5],
     [0x983e5152ee66dfab, 0xa831c66d2db43210, 0xb00327c898fb213f, 0xbf597fc7beef0ee4],
     [0xc6e00bf33da88fc2, 0xd5a79147930aa725, 0x06ca6351e003826f, 0x142929670a0e6e70],
     [0x27b70a8546d22ffc, 0x2e1b21385c26c926, 0x4d2c6dfc5ac42aed, 0x53380d139d95b3df],
     [0x650a73548baf63de, 0x766a0abb3c77b2a8, 0x81c2c92e47edaee6, 0x92722c851482353b],
     [0xa2bfe8a14cf10364, 0xa81a664bbc423001, 0xc24b8b70d0f89791, 0xc76c51a30654be30],
     [0xd192e819d6ef5218, 0xd69906245565a910, 0xf40e35855771202a, 0x106aa07032bbd1b8],
     [0x19a4c116b8d2d0c8, 0x1e376c085141ab53, 0x2748774cdf8eeb99, 0x34b0bcb5e19b48a8],
     [0x391c0cb3c5c95a63, 0x4ed8aa4ae3418acb, 0x5b9cca4f7763e373, 0x682e6ff3d6b2b8a3],
     [0x748f82ee5defb2fc, 0x78a5636f43172f60, 0x84c87814a1f0ab72, 0x8cc702081a6439ec],
     [0x90befffa23631e28, 0xa4506cebde82bde9, 0xbef9a3f7b2c67915, 0xc67178f2e372532b],
     [0xca273eceea26619c, 0xd186b8c721c0c207, 0xeada7dd6cde0eb1e, 0xf57d4f7fee6ed178],
     [0x06f067aa72176fba, 0x0a637dc5a2c898a6, 0x113f9804bef90dae, 0x1b710b35131c471b],
     [0x28db77f523047d84, 0x32caab7b40c72493, 0x3c9ebe0a15c9bebc, 0x431d67c49c100d4c],
     [0x4cc5d4becb3e42b6, 0x597f299cfc657e2a, 0x5fcb6fab3ad6faec, 0x6c44198c4a475817]]"

definition fips512_Sum0 :: "u64 \<Rightarrow> u64" where
  "fips512_Sum0 x = word_rotr 28 x XOR word_rotr 34 x XOR word_rotr 39 x"

definition fips512_Sum1 :: "u64 \<Rightarrow> u64" where
  "fips512_Sum1 x = word_rotr 14 x XOR word_rotr 18 x XOR word_rotr 41 x"

definition fips512_sig0 :: "u64 \<Rightarrow> u64" where
  "fips512_sig0 x = word_rotr 1 x XOR word_rotr 8 x XOR drop_bit 7 x"

definition fips512_sig1 :: "u64 \<Rightarrow> u64" where
  "fips512_sig1 x = word_rotr 19 x XOR word_rotr 61 x XOR drop_bit 6 x"

fun fips512_step :: "u64 regs \<Rightarrow> u64 \<Rightarrow> u64 \<Rightarrow> u64 regs" where
  "fips512_step (a, b, c, d, e, f, g, h) K W =
     (let Ch = (e AND f) XOR (NOT e AND g);
          Maj = (a AND b) XOR (a AND c) XOR (b AND c);
          T1 = h + fips512_Sum1 e + Ch + K + W;
          T2 = fips512_Sum0 a + Maj
      in (T1 + T2, a, b, c, d + T1, e, f, g))"

definition fips512_block :: "byte list \<Rightarrow> u64 list" where
  "fips512_block chunk = map (\<lambda>i. ReadBE64 (drop (8 * i) chunk)) [0..<16]"

definition fips512_compress :: "u64 list \<Rightarrow> byte list \<Rightarrow> u64 list" where
  "fips512_compress H chunk =
     (case sha2_rounds fips512_step fips512_K (sha2_W fips512_sig0 fips512_sig1 (fips512_block chunk))
        (H ! 0, H ! 1, H ! 2, H ! 3, H ! 4, H ! 5, H ! 6, H ! 7) of
      (a, b, c, d, e, f, g, h) \<Rightarrow>
        [H ! 0 + a, H ! 1 + b, H ! 2 + c, H ! 3 + d, H ! 4 + e, H ! 5 + f, H ! 6 + g, H ! 7 + h])"

definition fips512_pad :: "byte list \<Rightarrow> byte list" where
  "fips512_pad m = m @ md_pad 128 112 (length m) @ replicate 8 0 @ WriteBE64 (of_nat (8 * length m))"

definition fips512_hash :: "byte list \<Rightarrow> byte list" where
  "fips512_hash m = concat (map WriteBE64 (absorb 128 fips512_compress sha512_Initialize (fips512_pad m)))"

subsection \<open>The code's round is the standard's\<close>

lemma sha512_Ch_eq: "sha512_Ch x y z = (x AND y) XOR (NOT x AND z)"
  by (rule bit_word_eqI) (auto simp: sha512_Ch_def bit_simps)

lemma sha512_Maj_eq: "sha512_Maj x y z = (x AND y) XOR (x AND z) XOR (y AND z)"
  by (rule bit_word_eqI) (auto simp: sha512_Maj_def bit_simps)

lemma sha512_Sigma_eq:
  "sha512_Sigma0 x = fips512_Sum0 x" "sha512_Sigma1 x = fips512_Sum1 x"
  "sha512_sigma0 x = fips512_sig0 x" "sha512_sigma1 x = fips512_sig1 x"
  by (simp_all add: sha512_Sigma0_def sha512_Sigma1_def sha512_sigma0_def sha512_sigma1_def fips512_Sum0_def
      fips512_Sum1_def fips512_sig0_def fips512_sig1_def flip: rotr_shifts)

interpretation sha512: sha2 sha512_Round fips512_step fips512_sig0 fips512_sig1
  by unfold_locales
    (auto simp: sha512_Round_def sha512_Ch_eq sha512_Maj_eq sha512_Sigma_eq Let_def)

text \<open>The unrolled code is the rolled program, term for term.\<close>

lemma sha512_Transform_run:
  "sha512_Transform s chunk = sha2_run sha512_Round
     [(0x428a2f98d728ae22, \<lambda>_. ReadBE64 (drop 0 chunk)),
       (0x7137449123ef65cd, \<lambda>_. ReadBE64 (drop 8 chunk)),
       (0xb5c0fbcfec4d3b2f, \<lambda>_. ReadBE64 (drop 16 chunk)),
       (0xe9b5dba58189dbbc, \<lambda>_. ReadBE64 (drop 24 chunk)),
       (0x3956c25bf348b538, \<lambda>_. ReadBE64 (drop 32 chunk)),
       (0x59f111f1b605d019, \<lambda>_. ReadBE64 (drop 40 chunk)),
       (0x923f82a4af194f9b, \<lambda>_. ReadBE64 (drop 48 chunk)),
       (0xab1c5ed5da6d8118, \<lambda>_. ReadBE64 (drop 56 chunk)),
       (0xd807aa98a3030242, \<lambda>_. ReadBE64 (drop 64 chunk)),
       (0x12835b0145706fbe, \<lambda>_. ReadBE64 (drop 72 chunk)),
       (0x243185be4ee4b28c, \<lambda>_. ReadBE64 (drop 80 chunk)),
       (0x550c7dc3d5ffb4e2, \<lambda>_. ReadBE64 (drop 88 chunk)),
       (0x72be5d74f27b896f, \<lambda>_. ReadBE64 (drop 96 chunk)),
       (0x80deb1fe3b1696b1, \<lambda>_. ReadBE64 (drop 104 chunk)),
       (0x9bdc06a725c71235, \<lambda>_. ReadBE64 (drop 112 chunk)),
       (0xc19bf174cf692694, \<lambda>_. ReadBE64 (drop 120 chunk)),
       (0xe49b69c19ef14ad2, next_word sha512_sigma0 sha512_sigma1),
       (0xefbe4786384f25e3, next_word sha512_sigma0 sha512_sigma1),
       (0x0fc19dc68b8cd5b5, next_word sha512_sigma0 sha512_sigma1),
       (0x240ca1cc77ac9c65, next_word sha512_sigma0 sha512_sigma1),
       (0x2de92c6f592b0275, next_word sha512_sigma0 sha512_sigma1),
       (0x4a7484aa6ea6e483, next_word sha512_sigma0 sha512_sigma1),
       (0x5cb0a9dcbd41fbd4, next_word sha512_sigma0 sha512_sigma1),
       (0x76f988da831153b5, next_word sha512_sigma0 sha512_sigma1),
       (0x983e5152ee66dfab, next_word sha512_sigma0 sha512_sigma1),
       (0xa831c66d2db43210, next_word sha512_sigma0 sha512_sigma1),
       (0xb00327c898fb213f, next_word sha512_sigma0 sha512_sigma1),
       (0xbf597fc7beef0ee4, next_word sha512_sigma0 sha512_sigma1),
       (0xc6e00bf33da88fc2, next_word sha512_sigma0 sha512_sigma1),
       (0xd5a79147930aa725, next_word sha512_sigma0 sha512_sigma1),
       (0x06ca6351e003826f, next_word sha512_sigma0 sha512_sigma1),
       (0x142929670a0e6e70, next_word sha512_sigma0 sha512_sigma1),
       (0x27b70a8546d22ffc, next_word sha512_sigma0 sha512_sigma1),
       (0x2e1b21385c26c926, next_word sha512_sigma0 sha512_sigma1),
       (0x4d2c6dfc5ac42aed, next_word sha512_sigma0 sha512_sigma1),
       (0x53380d139d95b3df, next_word sha512_sigma0 sha512_sigma1),
       (0x650a73548baf63de, next_word sha512_sigma0 sha512_sigma1),
       (0x766a0abb3c77b2a8, next_word sha512_sigma0 sha512_sigma1),
       (0x81c2c92e47edaee6, next_word sha512_sigma0 sha512_sigma1),
       (0x92722c851482353b, next_word sha512_sigma0 sha512_sigma1),
       (0xa2bfe8a14cf10364, next_word sha512_sigma0 sha512_sigma1),
       (0xa81a664bbc423001, next_word sha512_sigma0 sha512_sigma1),
       (0xc24b8b70d0f89791, next_word sha512_sigma0 sha512_sigma1),
       (0xc76c51a30654be30, next_word sha512_sigma0 sha512_sigma1),
       (0xd192e819d6ef5218, next_word sha512_sigma0 sha512_sigma1),
       (0xd69906245565a910, next_word sha512_sigma0 sha512_sigma1),
       (0xf40e35855771202a, next_word sha512_sigma0 sha512_sigma1),
       (0x106aa07032bbd1b8, next_word sha512_sigma0 sha512_sigma1),
       (0x19a4c116b8d2d0c8, next_word sha512_sigma0 sha512_sigma1),
       (0x1e376c085141ab53, next_word sha512_sigma0 sha512_sigma1),
       (0x2748774cdf8eeb99, next_word sha512_sigma0 sha512_sigma1),
       (0x34b0bcb5e19b48a8, next_word sha512_sigma0 sha512_sigma1),
       (0x391c0cb3c5c95a63, next_word sha512_sigma0 sha512_sigma1),
       (0x4ed8aa4ae3418acb, next_word sha512_sigma0 sha512_sigma1),
       (0x5b9cca4f7763e373, next_word sha512_sigma0 sha512_sigma1),
       (0x682e6ff3d6b2b8a3, next_word sha512_sigma0 sha512_sigma1),
       (0x748f82ee5defb2fc, next_word sha512_sigma0 sha512_sigma1),
       (0x78a5636f43172f60, next_word sha512_sigma0 sha512_sigma1),
       (0x84c87814a1f0ab72, next_word sha512_sigma0 sha512_sigma1),
       (0x8cc702081a6439ec, next_word sha512_sigma0 sha512_sigma1),
       (0x90befffa23631e28, next_word sha512_sigma0 sha512_sigma1),
       (0xa4506cebde82bde9, next_word sha512_sigma0 sha512_sigma1),
       (0xbef9a3f7b2c67915, next_word sha512_sigma0 sha512_sigma1),
       (0xc67178f2e372532b, next_word sha512_sigma0 sha512_sigma1),
       (0xca273eceea26619c, next_word sha512_sigma0 sha512_sigma1),
       (0xd186b8c721c0c207, next_word sha512_sigma0 sha512_sigma1),
       (0xeada7dd6cde0eb1e, next_word sha512_sigma0 sha512_sigma1),
       (0xf57d4f7fee6ed178, next_word sha512_sigma0 sha512_sigma1),
       (0x06f067aa72176fba, next_word sha512_sigma0 sha512_sigma1),
       (0x0a637dc5a2c898a6, next_word sha512_sigma0 sha512_sigma1),
       (0x113f9804bef90dae, next_word sha512_sigma0 sha512_sigma1),
       (0x1b710b35131c471b, next_word sha512_sigma0 sha512_sigma1),
       (0x28db77f523047d84, next_word sha512_sigma0 sha512_sigma1),
       (0x32caab7b40c72493, next_word sha512_sigma0 sha512_sigma1),
       (0x3c9ebe0a15c9bebc, next_word sha512_sigma0 sha512_sigma1),
       (0x431d67c49c100d4c, next_word sha512_sigma0 sha512_sigma1),
       (0x4cc5d4becb3e42b6, next_word sha512_sigma0 sha512_sigma1),
       (0x597f299cfc657e2a, next_word sha512_sigma0 sha512_sigma1),
       (0x5fcb6fab3ad6faec, next_word sha512_sigma0 sha512_sigma1),
       (0x6c44198c4a475817, next_word sha512_sigma0 sha512_sigma1)]
     (0, 0, 0, 0, 0, 0, 0, 0, 0, 0, 0, 0, 0, 0, 0, 0) (s ! 0, s ! 1, s ! 2, s ! 3, s ! 4, s ! 5, s ! 6, s ! 7)
     (\<lambda>(a, b, c, d, e, f, g, h). [s ! 0 + a, s ! 1 + b, s ! 2 + c, s ! 3 + d, s ! 4 + e, s ! 5 + f, s ! 6 + g, s ! 7 + h])"
  unfolding sha512_Transform_def sha2_run.simps next_word.simps prod.case add.assoc
    Let_def [of "s ! 0"] Let_def [of "s ! 1"] Let_def [of "s ! 2"] Let_def [of "s ! 3"]
    Let_def [of "s ! 4"] Let_def [of "s ! 5"] Let_def [of "s ! 6"] Let_def [of "s ! 7"]
  by (rule refl)

lemma sha512_program:
  "[(0x428a2f98d728ae22, \<lambda>_. ReadBE64 (drop 0 chunk)),
       (0x7137449123ef65cd, \<lambda>_. ReadBE64 (drop 8 chunk)),
       (0xb5c0fbcfec4d3b2f, \<lambda>_. ReadBE64 (drop 16 chunk)),
       (0xe9b5dba58189dbbc, \<lambda>_. ReadBE64 (drop 24 chunk)),
       (0x3956c25bf348b538, \<lambda>_. ReadBE64 (drop 32 chunk)),
       (0x59f111f1b605d019, \<lambda>_. ReadBE64 (drop 40 chunk)),
       (0x923f82a4af194f9b, \<lambda>_. ReadBE64 (drop 48 chunk)),
       (0xab1c5ed5da6d8118, \<lambda>_. ReadBE64 (drop 56 chunk)),
       (0xd807aa98a3030242, \<lambda>_. ReadBE64 (drop 64 chunk)),
       (0x12835b0145706fbe, \<lambda>_. ReadBE64 (drop 72 chunk)),
       (0x243185be4ee4b28c, \<lambda>_. ReadBE64 (drop 80 chunk)),
       (0x550c7dc3d5ffb4e2, \<lambda>_. ReadBE64 (drop 88 chunk)),
       (0x72be5d74f27b896f, \<lambda>_. ReadBE64 (drop 96 chunk)),
       (0x80deb1fe3b1696b1, \<lambda>_. ReadBE64 (drop 104 chunk)),
       (0x9bdc06a725c71235, \<lambda>_. ReadBE64 (drop 112 chunk)),
       (0xc19bf174cf692694, \<lambda>_. ReadBE64 (drop 120 chunk)),
       (0xe49b69c19ef14ad2, next_word sha512_sigma0 sha512_sigma1),
       (0xefbe4786384f25e3, next_word sha512_sigma0 sha512_sigma1),
       (0x0fc19dc68b8cd5b5, next_word sha512_sigma0 sha512_sigma1),
       (0x240ca1cc77ac9c65, next_word sha512_sigma0 sha512_sigma1),
       (0x2de92c6f592b0275, next_word sha512_sigma0 sha512_sigma1),
       (0x4a7484aa6ea6e483, next_word sha512_sigma0 sha512_sigma1),
       (0x5cb0a9dcbd41fbd4, next_word sha512_sigma0 sha512_sigma1),
       (0x76f988da831153b5, next_word sha512_sigma0 sha512_sigma1),
       (0x983e5152ee66dfab, next_word sha512_sigma0 sha512_sigma1),
       (0xa831c66d2db43210, next_word sha512_sigma0 sha512_sigma1),
       (0xb00327c898fb213f, next_word sha512_sigma0 sha512_sigma1),
       (0xbf597fc7beef0ee4, next_word sha512_sigma0 sha512_sigma1),
       (0xc6e00bf33da88fc2, next_word sha512_sigma0 sha512_sigma1),
       (0xd5a79147930aa725, next_word sha512_sigma0 sha512_sigma1),
       (0x06ca6351e003826f, next_word sha512_sigma0 sha512_sigma1),
       (0x142929670a0e6e70, next_word sha512_sigma0 sha512_sigma1),
       (0x27b70a8546d22ffc, next_word sha512_sigma0 sha512_sigma1),
       (0x2e1b21385c26c926, next_word sha512_sigma0 sha512_sigma1),
       (0x4d2c6dfc5ac42aed, next_word sha512_sigma0 sha512_sigma1),
       (0x53380d139d95b3df, next_word sha512_sigma0 sha512_sigma1),
       (0x650a73548baf63de, next_word sha512_sigma0 sha512_sigma1),
       (0x766a0abb3c77b2a8, next_word sha512_sigma0 sha512_sigma1),
       (0x81c2c92e47edaee6, next_word sha512_sigma0 sha512_sigma1),
       (0x92722c851482353b, next_word sha512_sigma0 sha512_sigma1),
       (0xa2bfe8a14cf10364, next_word sha512_sigma0 sha512_sigma1),
       (0xa81a664bbc423001, next_word sha512_sigma0 sha512_sigma1),
       (0xc24b8b70d0f89791, next_word sha512_sigma0 sha512_sigma1),
       (0xc76c51a30654be30, next_word sha512_sigma0 sha512_sigma1),
       (0xd192e819d6ef5218, next_word sha512_sigma0 sha512_sigma1),
       (0xd69906245565a910, next_word sha512_sigma0 sha512_sigma1),
       (0xf40e35855771202a, next_word sha512_sigma0 sha512_sigma1),
       (0x106aa07032bbd1b8, next_word sha512_sigma0 sha512_sigma1),
       (0x19a4c116b8d2d0c8, next_word sha512_sigma0 sha512_sigma1),
       (0x1e376c085141ab53, next_word sha512_sigma0 sha512_sigma1),
       (0x2748774cdf8eeb99, next_word sha512_sigma0 sha512_sigma1),
       (0x34b0bcb5e19b48a8, next_word sha512_sigma0 sha512_sigma1),
       (0x391c0cb3c5c95a63, next_word sha512_sigma0 sha512_sigma1),
       (0x4ed8aa4ae3418acb, next_word sha512_sigma0 sha512_sigma1),
       (0x5b9cca4f7763e373, next_word sha512_sigma0 sha512_sigma1),
       (0x682e6ff3d6b2b8a3, next_word sha512_sigma0 sha512_sigma1),
       (0x748f82ee5defb2fc, next_word sha512_sigma0 sha512_sigma1),
       (0x78a5636f43172f60, next_word sha512_sigma0 sha512_sigma1),
       (0x84c87814a1f0ab72, next_word sha512_sigma0 sha512_sigma1),
       (0x8cc702081a6439ec, next_word sha512_sigma0 sha512_sigma1),
       (0x90befffa23631e28, next_word sha512_sigma0 sha512_sigma1),
       (0xa4506cebde82bde9, next_word sha512_sigma0 sha512_sigma1),
       (0xbef9a3f7b2c67915, next_word sha512_sigma0 sha512_sigma1),
       (0xc67178f2e372532b, next_word sha512_sigma0 sha512_sigma1),
       (0xca273eceea26619c, next_word sha512_sigma0 sha512_sigma1),
       (0xd186b8c721c0c207, next_word sha512_sigma0 sha512_sigma1),
       (0xeada7dd6cde0eb1e, next_word sha512_sigma0 sha512_sigma1),
       (0xf57d4f7fee6ed178, next_word sha512_sigma0 sha512_sigma1),
       (0x06f067aa72176fba, next_word sha512_sigma0 sha512_sigma1),
       (0x0a637dc5a2c898a6, next_word sha512_sigma0 sha512_sigma1),
       (0x113f9804bef90dae, next_word sha512_sigma0 sha512_sigma1),
       (0x1b710b35131c471b, next_word sha512_sigma0 sha512_sigma1),
       (0x28db77f523047d84, next_word sha512_sigma0 sha512_sigma1),
       (0x32caab7b40c72493, next_word sha512_sigma0 sha512_sigma1),
       (0x3c9ebe0a15c9bebc, next_word sha512_sigma0 sha512_sigma1),
       (0x431d67c49c100d4c, next_word sha512_sigma0 sha512_sigma1),
       (0x4cc5d4becb3e42b6, next_word sha512_sigma0 sha512_sigma1),
       (0x597f299cfc657e2a, next_word sha512_sigma0 sha512_sigma1),
       (0x5fcb6fab3ad6faec, next_word sha512_sigma0 sha512_sigma1),
       (0x6c44198c4a475817, next_word sha512_sigma0 sha512_sigma1)] =
   map (\<lambda>t. (fips512_K ! t, \<lambda>_. fips512_block chunk ! t)) [0..<16] @
   map (\<lambda>t. (fips512_K ! t, next_word sha512_sigma0 sha512_sigma1)) [16..<16 + 64]"
  by (simp add: fips512_K_def fips512_block_def upt_conv_Cons numeral_2_eq_2)

lemma sha512_Transform_compress: "sha512_Transform s chunk = fips512_compress s chunk"
proof -
  have sig: "next_word sha512_sigma0 sha512_sigma1 = next_word fips512_sig0 fips512_sig1"
    by (simp add: sha512_Sigma_eq [abs_def])
  have "length fips512_K = 16 + 64"
    by (simp add: fips512_K_def)
  then show ?thesis
    unfolding sha512_Transform_run sha512_program fips512_compress_def
    unfolding sig by (rule sha512.run_program)
qed

lemma sha512_absorb: "absorb 128 sha512_Transform s m = absorb 128 fips512_compress s m"
  by (simp add: sha512_Transform_compress [abs_def])

lemma fips512_block_take: "128 \<le> length d \<Longrightarrow> fips512_block (take 128 d) = fips512_block d"
  by (auto simp: fips512_block_def ReadBE64_def)

interpretation sha512_stream: block_hasher 128 sha512_Transform CSHA512_Write
  by unfold_locales
    (auto simp: sha512_Transform_compress fips512_compress_def fips512_block_take CSHA512_Write_def)

lemma length_fips512_compress [simp]: "length (fips512_compress s d) = 8"
  by (simp add: fips512_compress_def split: prod.splits)

lemma length_fips512_absorb [simp]: "length s = 8 \<Longrightarrow> length (absorb 128 fips512_compress s m) = 8"
  by (induction "128 :: nat" "fips512_compress" s m rule: absorb.induct) (subst absorb.simps, simp)

lemma sha512_concat8:
  assumes "length (s::u64 list) = 8"
  shows "concat (map WriteBE64 s) = WriteBE64 (s ! 0) @ WriteBE64 (s ! 1) @ WriteBE64 (s ! 2) @ WriteBE64 (s ! 3) @
    WriteBE64 (s ! 4) @ WriteBE64 (s ! 5) @ WriteBE64 (s ! 6) @ WriteBE64 (s ! 7)"
  using assms by (auto simp: numeral_eq_Suc length_Suc_conv)

lemma CSHA512_digest:
  assumes "absorbed 128 sha512_Transform sha512_Initialize h m"
  shows "fst (CSHA512_Finalize h) = fips512_hash m"
proof -
  have cnt: "unat (hbytes h) mod 128 = length m mod 128" "hbytes h = of_nat (length m)"
    using sha512_stream.absorbed_count [OF assms] by auto
  have size: "push_bit 3 (hbytes h) = of_nat (8 * length m)"
    by (simp add: cnt(2) push_bit_eq_mult)
  let ?h2 = "CSHA512_Write (CSHA512_Write h (md_pad 128 112 (length m))) (replicate 8 0 @ WriteBE64 (of_nat (8 * length m)))"
  have "hs ?h2 = absorb 128 fips512_compress sha512_Initialize (fips512_pad m)"
    using sha512_stream.absorbed_hs [OF assms] by (simp add: sha512_absorb fips512_pad_def)
  then show ?thesis
    by (simp add: CSHA512_Finalize_def cnt(1) size code_pad_128 [simplified] Let_def fips512_hash_def sha512_concat8 sha512_Initialize_def)
qed

subsection \<open>Properties\<close>

text \<open>
  \<^verbatim>\<open>sha512::Transform\<close>, with all its 80 unrolled rounds, is the compression function of the
  standard: for every chaining value and every block it computes what FIPS 180-4 defines.
\<close>

lemma sha512_Transform_fips: "sha512_Transform s chunk = fips512_compress s chunk"
  by (rule sha512_Transform_compress)

text \<open>
  The numeric constants are the standard's: the initial chaining values are the first 64 bits of
  the fractional parts of the square roots of the first eight primes, and the 80 round constants
  those of the cube roots of the first 80 primes.
\<close>

lemma sha512_constants:
  "list_all2 (\<lambda>p k. root_frac 2 64 p (unat k)) (take 8 first_primes) sha512_Initialize \<and>
   list_all2 (\<lambda>p k. root_frac 3 64 p (unat k)) (take 80 first_primes) fips512_K"
  unfolding take_first_primes
  unfolding first_primes_def sha512_Initialize_def fips512_K_def concat.simps append.simps list_all2_Cons list_all2_Nil
  by (intro conjI TrueI; simp add: root_frac_def int_root_def)

text \<open>
  Streaming: whatever the uninitialised buffer holds and however the data is cut into \<^verbatim>\<open>Write\<close>
  calls, \<^verbatim>\<open>CSHA512::Finalize\<close> returns the SHA-512 digest (64 bytes) of all the data written.
\<close>

lemma CSHA512_stream:
  assumes "length b0 = 128"
  shows "fst (CSHA512_Finalize (foldl CSHA512_Write (CSHA512 b0) chunks)) = fips512_hash (concat chunks) \<and>
    length (fips512_hash (concat chunks)) = 64"
proof -
  have "absorbed 128 sha512_Transform sha512_Initialize (CSHA512 b0) []"
    using sha512_stream.absorbed_init [OF assms] by (simp add: CSHA512_def)
  from sha512_stream.absorbed_stream [OF this, of chunks] CSHA512_digest show ?thesis
    by (simp add: fips512_hash_def sha512_concat8 sha512_Initialize_def)
qed

lemma CSHA512_stream_witness:
  "fst (CSHA512_Finalize (CSHA512_Write (CSHA512_Write (CSHA512 (replicate 128 7)) [0x61]) [0x62, 0x63])) =
     fips512_hash [0x61, 0x62, 0x63]"
  using CSHA512_stream [of "replicate 128 7" "[[0x61], [0x62, 0x63]]"] by simp

end
