(* ===== verification/Ripemd160.thy ===== *)
theory Ripemd160
  imports Block_Hasher
begin

section \<open>RIPEMD-160 (util/cryption/ripemd160)\<close>

text \<open>
  The class \<^verbatim>\<open>CRIPEMD160\<close> and the compression function of \<^verbatim>\<open>ripemd160.cpp\<close>, and the function as its
  authors define it: two independent lines of eighty steps, whose message words are selected by the
  permutations \<open>rho\<close> and \<open>pi\<close>. The code interleaves the two lines and unrolls both.
\<close>

subsection \<open>The code\<close>

definition ripemd160_f1 :: "u32 \<Rightarrow> u32 \<Rightarrow> u32 \<Rightarrow> u32" where
  "ripemd160_f1 x y z = x XOR y XOR z"

definition ripemd160_f2 :: "u32 \<Rightarrow> u32 \<Rightarrow> u32 \<Rightarrow> u32" where
  "ripemd160_f2 x y z = (x AND y) OR (NOT x AND z)"

definition ripemd160_f3 :: "u32 \<Rightarrow> u32 \<Rightarrow> u32 \<Rightarrow> u32" where
  "ripemd160_f3 x y z = (x OR NOT y) XOR z"

definition ripemd160_f4 :: "u32 \<Rightarrow> u32 \<Rightarrow> u32 \<Rightarrow> u32" where
  "ripemd160_f4 x y z = (x AND z) OR (y AND NOT z)"

definition ripemd160_f5 :: "u32 \<Rightarrow> u32 \<Rightarrow> u32 \<Rightarrow> u32" where
  "ripemd160_f5 x y z = x XOR (y OR NOT z)"

definition ripemd160_Initialize :: "u32 list" where
  "ripemd160_Initialize = [0x67452301, 0xEFCDAB89, 0x98BADCFE, 0x10325476, 0xC3D2E1F0]"

definition ripemd160_rol :: "u32 \<Rightarrow> nat \<Rightarrow> u32" where
  "ripemd160_rol x i = push_bit i x OR drop_bit (32 - i) x"

text \<open>\<^verbatim>\<open>Round\<close> writes its reference parameters \<^verbatim>\<open>a\<close> and \<^verbatim>\<open>c\<close>: the result is their new values.\<close>

definition ripemd160_Round ::
  "u32 \<Rightarrow> u32 \<Rightarrow> u32 \<Rightarrow> u32 \<Rightarrow> u32 \<Rightarrow> u32 \<Rightarrow> u32 \<Rightarrow> u32 \<Rightarrow> nat \<Rightarrow> u32 \<times> u32"
where
  "ripemd160_Round a b c d e f x k r = (ripemd160_rol (a + f + x + k) r + e, ripemd160_rol c 10)"

definition ripemd160_R11 :: "u32 \<Rightarrow> u32 \<Rightarrow> u32 \<Rightarrow> u32 \<Rightarrow> u32 \<Rightarrow> u32 \<Rightarrow> nat \<Rightarrow> u32 \<times> u32" where
  "ripemd160_R11 a b c d e x r = ripemd160_Round a b c d e (ripemd160_f1 b c d) x 0 r"
definition ripemd160_R21 :: "u32 \<Rightarrow> u32 \<Rightarrow> u32 \<Rightarrow> u32 \<Rightarrow> u32 \<Rightarrow> u32 \<Rightarrow> nat \<Rightarrow> u32 \<times> u32" where
  "ripemd160_R21 a b c d e x r = ripemd160_Round a b c d e (ripemd160_f2 b c d) x 0x5A827999 r"
definition ripemd160_R31 :: "u32 \<Rightarrow> u32 \<Rightarrow> u32 \<Rightarrow> u32 \<Rightarrow> u32 \<Rightarrow> u32 \<Rightarrow> nat \<Rightarrow> u32 \<times> u32" where
  "ripemd160_R31 a b c d e x r = ripemd160_Round a b c d e (ripemd160_f3 b c d) x 0x6ED9EBA1 r"
definition ripemd160_R41 :: "u32 \<Rightarrow> u32 \<Rightarrow> u32 \<Rightarrow> u32 \<Rightarrow> u32 \<Rightarrow> u32 \<Rightarrow> nat \<Rightarrow> u32 \<times> u32" where
  "ripemd160_R41 a b c d e x r = ripemd160_Round a b c d e (ripemd160_f4 b c d) x 0x8F1BBCDC r"
definition ripemd160_R51 :: "u32 \<Rightarrow> u32 \<Rightarrow> u32 \<Rightarrow> u32 \<Rightarrow> u32 \<Rightarrow> u32 \<Rightarrow> nat \<Rightarrow> u32 \<times> u32" where
  "ripemd160_R51 a b c d e x r = ripemd160_Round a b c d e (ripemd160_f5 b c d) x 0xA953FD4E r"

definition ripemd160_R12 :: "u32 \<Rightarrow> u32 \<Rightarrow> u32 \<Rightarrow> u32 \<Rightarrow> u32 \<Rightarrow> u32 \<Rightarrow> nat \<Rightarrow> u32 \<times> u32" where
  "ripemd160_R12 a b c d e x r = ripemd160_Round a b c d e (ripemd160_f5 b c d) x 0x50A28BE6 r"
definition ripemd160_R22 :: "u32 \<Rightarrow> u32 \<Rightarrow> u32 \<Rightarrow> u32 \<Rightarrow> u32 \<Rightarrow> u32 \<Rightarrow> nat \<Rightarrow> u32 \<times> u32" where
  "ripemd160_R22 a b c d e x r = ripemd160_Round a b c d e (ripemd160_f4 b c d) x 0x5C4DD124 r"
definition ripemd160_R32 :: "u32 \<Rightarrow> u32 \<Rightarrow> u32 \<Rightarrow> u32 \<Rightarrow> u32 \<Rightarrow> u32 \<Rightarrow> nat \<Rightarrow> u32 \<times> u32" where
  "ripemd160_R32 a b c d e x r = ripemd160_Round a b c d e (ripemd160_f3 b c d) x 0x6D703EF3 r"
definition ripemd160_R42 :: "u32 \<Rightarrow> u32 \<Rightarrow> u32 \<Rightarrow> u32 \<Rightarrow> u32 \<Rightarrow> u32 \<Rightarrow> nat \<Rightarrow> u32 \<times> u32" where
  "ripemd160_R42 a b c d e x r = ripemd160_Round a b c d e (ripemd160_f2 b c d) x 0x7A6D76E9 r"
definition ripemd160_R52 :: "u32 \<Rightarrow> u32 \<Rightarrow> u32 \<Rightarrow> u32 \<Rightarrow> u32 \<Rightarrow> u32 \<Rightarrow> nat \<Rightarrow> u32 \<times> u32" where
  "ripemd160_R52 a b c d e x r = ripemd160_Round a b c d e (ripemd160_f1 b c d) x 0 r"

definition ripemd160_Transform :: "u32 list \<Rightarrow> byte list \<Rightarrow> u32 list" where
  "ripemd160_Transform s chunk =
     (let a1 = s ! 0; b1 = s ! 1; c1 = s ! 2; d1 = s ! 3; e1 = s ! 4;
          a2 = a1; b2 = b1; c2 = c1; d2 = d1; e2 = e1;
          w0 = ReadLE32 (drop 0 chunk); w1 = ReadLE32 (drop 4 chunk); w2 = ReadLE32 (drop 8 chunk); w3 = ReadLE32 (drop 12 chunk);
          w4 = ReadLE32 (drop 16 chunk); w5 = ReadLE32 (drop 20 chunk); w6 = ReadLE32 (drop 24 chunk); w7 = ReadLE32 (drop 28 chunk);
          w8 = ReadLE32 (drop 32 chunk); w9 = ReadLE32 (drop 36 chunk); w10 = ReadLE32 (drop 40 chunk); w11 = ReadLE32 (drop 44 chunk);
          w12 = ReadLE32 (drop 48 chunk); w13 = ReadLE32 (drop 52 chunk); w14 = ReadLE32 (drop 56 chunk); w15 = ReadLE32 (drop 60 chunk) in
      (case ripemd160_R11 a1 b1 c1 d1 e1 w0 11 of (a1, c1) \<Rightarrow> (case ripemd160_R12 a2 b2 c2 d2 e2 w5 8 of (a2, c2) \<Rightarrow>
      (case ripemd160_R11 e1 a1 b1 c1 d1 w1 14 of (e1, b1) \<Rightarrow> (case ripemd160_R12 e2 a2 b2 c2 d2 w14 9 of (e2, b2) \<Rightarrow>
      (case ripemd160_R11 d1 e1 a1 b1 c1 w2 15 of (d1, a1) \<Rightarrow> (case ripemd160_R12 d2 e2 a2 b2 c2 w7 9 of (d2, a2) \<Rightarrow>
      (case ripemd160_R11 c1 d1 e1 a1 b1 w3 12 of (c1, e1) \<Rightarrow> (case ripemd160_R12 c2 d2 e2 a2 b2 w0 11 of (c2, e2) \<Rightarrow>
      (case ripemd160_R11 b1 c1 d1 e1 a1 w4 5 of (b1, d1) \<Rightarrow> (case ripemd160_R12 b2 c2 d2 e2 a2 w9 13 of (b2, d2) \<Rightarrow>
      (case ripemd160_R11 a1 b1 c1 d1 e1 w5 8 of (a1, c1) \<Rightarrow> (case ripemd160_R12 a2 b2 c2 d2 e2 w2 15 of (a2, c2) \<Rightarrow>
      (case ripemd160_R11 e1 a1 b1 c1 d1 w6 7 of (e1, b1) \<Rightarrow> (case ripemd160_R12 e2 a2 b2 c2 d2 w11 15 of (e2, b2) \<Rightarrow>
      (case ripemd160_R11 d1 e1 a1 b1 c1 w7 9 of (d1, a1) \<Rightarrow> (case ripemd160_R12 d2 e2 a2 b2 c2 w4 5 of (d2, a2) \<Rightarrow>
      (case ripemd160_R11 c1 d1 e1 a1 b1 w8 11 of (c1, e1) \<Rightarrow> (case ripemd160_R12 c2 d2 e2 a2 b2 w13 7 of (c2, e2) \<Rightarrow>
      (case ripemd160_R11 b1 c1 d1 e1 a1 w9 13 of (b1, d1) \<Rightarrow> (case ripemd160_R12 b2 c2 d2 e2 a2 w6 7 of (b2, d2) \<Rightarrow>
      (case ripemd160_R11 a1 b1 c1 d1 e1 w10 14 of (a1, c1) \<Rightarrow> (case ripemd160_R12 a2 b2 c2 d2 e2 w15 8 of (a2, c2) \<Rightarrow>
      (case ripemd160_R11 e1 a1 b1 c1 d1 w11 15 of (e1, b1) \<Rightarrow> (case ripemd160_R12 e2 a2 b2 c2 d2 w8 11 of (e2, b2) \<Rightarrow>
      (case ripemd160_R11 d1 e1 a1 b1 c1 w12 6 of (d1, a1) \<Rightarrow> (case ripemd160_R12 d2 e2 a2 b2 c2 w1 14 of (d2, a2) \<Rightarrow>
      (case ripemd160_R11 c1 d1 e1 a1 b1 w13 7 of (c1, e1) \<Rightarrow> (case ripemd160_R12 c2 d2 e2 a2 b2 w10 14 of (c2, e2) \<Rightarrow>
      (case ripemd160_R11 b1 c1 d1 e1 a1 w14 9 of (b1, d1) \<Rightarrow> (case ripemd160_R12 b2 c2 d2 e2 a2 w3 12 of (b2, d2) \<Rightarrow>
      (case ripemd160_R11 a1 b1 c1 d1 e1 w15 8 of (a1, c1) \<Rightarrow> (case ripemd160_R12 a2 b2 c2 d2 e2 w12 6 of (a2, c2) \<Rightarrow>
      (case ripemd160_R21 e1 a1 b1 c1 d1 w7 7 of (e1, b1) \<Rightarrow> (case ripemd160_R22 e2 a2 b2 c2 d2 w6 9 of (e2, b2) \<Rightarrow>
      (case ripemd160_R21 d1 e1 a1 b1 c1 w4 6 of (d1, a1) \<Rightarrow> (case ripemd160_R22 d2 e2 a2 b2 c2 w11 13 of (d2, a2) \<Rightarrow>
      (case ripemd160_R21 c1 d1 e1 a1 b1 w13 8 of (c1, e1) \<Rightarrow> (case ripemd160_R22 c2 d2 e2 a2 b2 w3 15 of (c2, e2) \<Rightarrow>
      (case ripemd160_R21 b1 c1 d1 e1 a1 w1 13 of (b1, d1) \<Rightarrow> (case ripemd160_R22 b2 c2 d2 e2 a2 w7 7 of (b2, d2) \<Rightarrow>
      (case ripemd160_R21 a1 b1 c1 d1 e1 w10 11 of (a1, c1) \<Rightarrow> (case ripemd160_R22 a2 b2 c2 d2 e2 w0 12 of (a2, c2) \<Rightarrow>
      (case ripemd160_R21 e1 a1 b1 c1 d1 w6 9 of (e1, b1) \<Rightarrow> (case ripemd160_R22 e2 a2 b2 c2 d2 w13 8 of (e2, b2) \<Rightarrow>
      (case ripemd160_R21 d1 e1 a1 b1 c1 w15 7 of (d1, a1) \<Rightarrow> (case ripemd160_R22 d2 e2 a2 b2 c2 w5 9 of (d2, a2) \<Rightarrow>
      (case ripemd160_R21 c1 d1 e1 a1 b1 w3 15 of (c1, e1) \<Rightarrow> (case ripemd160_R22 c2 d2 e2 a2 b2 w10 11 of (c2, e2) \<Rightarrow>
      (case ripemd160_R21 b1 c1 d1 e1 a1 w12 7 of (b1, d1) \<Rightarrow> (case ripemd160_R22 b2 c2 d2 e2 a2 w14 7 of (b2, d2) \<Rightarrow>
      (case ripemd160_R21 a1 b1 c1 d1 e1 w0 12 of (a1, c1) \<Rightarrow> (case ripemd160_R22 a2 b2 c2 d2 e2 w15 7 of (a2, c2) \<Rightarrow>
      (case ripemd160_R21 e1 a1 b1 c1 d1 w9 15 of (e1, b1) \<Rightarrow> (case ripemd160_R22 e2 a2 b2 c2 d2 w8 12 of (e2, b2) \<Rightarrow>
      (case ripemd160_R21 d1 e1 a1 b1 c1 w5 9 of (d1, a1) \<Rightarrow> (case ripemd160_R22 d2 e2 a2 b2 c2 w12 7 of (d2, a2) \<Rightarrow>
      (case ripemd160_R21 c1 d1 e1 a1 b1 w2 11 of (c1, e1) \<Rightarrow> (case ripemd160_R22 c2 d2 e2 a2 b2 w4 6 of (c2, e2) \<Rightarrow>
      (case ripemd160_R21 b1 c1 d1 e1 a1 w14 7 of (b1, d1) \<Rightarrow> (case ripemd160_R22 b2 c2 d2 e2 a2 w9 15 of (b2, d2) \<Rightarrow>
      (case ripemd160_R21 a1 b1 c1 d1 e1 w11 13 of (a1, c1) \<Rightarrow> (case ripemd160_R22 a2 b2 c2 d2 e2 w1 13 of (a2, c2) \<Rightarrow>
      (case ripemd160_R21 e1 a1 b1 c1 d1 w8 12 of (e1, b1) \<Rightarrow> (case ripemd160_R22 e2 a2 b2 c2 d2 w2 11 of (e2, b2) \<Rightarrow>
      (case ripemd160_R31 d1 e1 a1 b1 c1 w3 11 of (d1, a1) \<Rightarrow> (case ripemd160_R32 d2 e2 a2 b2 c2 w15 9 of (d2, a2) \<Rightarrow>
      (case ripemd160_R31 c1 d1 e1 a1 b1 w10 13 of (c1, e1) \<Rightarrow> (case ripemd160_R32 c2 d2 e2 a2 b2 w5 7 of (c2, e2) \<Rightarrow>
      (case ripemd160_R31 b1 c1 d1 e1 a1 w14 6 of (b1, d1) \<Rightarrow> (case ripemd160_R32 b2 c2 d2 e2 a2 w1 15 of (b2, d2) \<Rightarrow>
      (case ripemd160_R31 a1 b1 c1 d1 e1 w4 7 of (a1, c1) \<Rightarrow> (case ripemd160_R32 a2 b2 c2 d2 e2 w3 11 of (a2, c2) \<Rightarrow>
      (case ripemd160_R31 e1 a1 b1 c1 d1 w9 14 of (e1, b1) \<Rightarrow> (case ripemd160_R32 e2 a2 b2 c2 d2 w7 8 of (e2, b2) \<Rightarrow>
      (case ripemd160_R31 d1 e1 a1 b1 c1 w15 9 of (d1, a1) \<Rightarrow> (case ripemd160_R32 d2 e2 a2 b2 c2 w14 6 of (d2, a2) \<Rightarrow>
      (case ripemd160_R31 c1 d1 e1 a1 b1 w8 13 of (c1, e1) \<Rightarrow> (case ripemd160_R32 c2 d2 e2 a2 b2 w6 6 of (c2, e2) \<Rightarrow>
      (case ripemd160_R31 b1 c1 d1 e1 a1 w1 15 of (b1, d1) \<Rightarrow> (case ripemd160_R32 b2 c2 d2 e2 a2 w9 14 of (b2, d2) \<Rightarrow>
      (case ripemd160_R31 a1 b1 c1 d1 e1 w2 14 of (a1, c1) \<Rightarrow> (case ripemd160_R32 a2 b2 c2 d2 e2 w11 12 of (a2, c2) \<Rightarrow>
      (case ripemd160_R31 e1 a1 b1 c1 d1 w7 8 of (e1, b1) \<Rightarrow> (case ripemd160_R32 e2 a2 b2 c2 d2 w8 13 of (e2, b2) \<Rightarrow>
      (case ripemd160_R31 d1 e1 a1 b1 c1 w0 13 of (d1, a1) \<Rightarrow> (case ripemd160_R32 d2 e2 a2 b2 c2 w12 5 of (d2, a2) \<Rightarrow>
      (case ripemd160_R31 c1 d1 e1 a1 b1 w6 6 of (c1, e1) \<Rightarrow> (case ripemd160_R32 c2 d2 e2 a2 b2 w2 14 of (c2, e2) \<Rightarrow>
      (case ripemd160_R31 b1 c1 d1 e1 a1 w13 5 of (b1, d1) \<Rightarrow> (case ripemd160_R32 b2 c2 d2 e2 a2 w10 13 of (b2, d2) \<Rightarrow>
      (case ripemd160_R31 a1 b1 c1 d1 e1 w11 12 of (a1, c1) \<Rightarrow> (case ripemd160_R32 a2 b2 c2 d2 e2 w0 13 of (a2, c2) \<Rightarrow>
      (case ripemd160_R31 e1 a1 b1 c1 d1 w5 7 of (e1, b1) \<Rightarrow> (case ripemd160_R32 e2 a2 b2 c2 d2 w4 7 of (e2, b2) \<Rightarrow>
      (case ripemd160_R31 d1 e1 a1 b1 c1 w12 5 of (d1, a1) \<Rightarrow> (case ripemd160_R32 d2 e2 a2 b2 c2 w13 5 of (d2, a2) \<Rightarrow>
      (case ripemd160_R41 c1 d1 e1 a1 b1 w1 11 of (c1, e1) \<Rightarrow> (case ripemd160_R42 c2 d2 e2 a2 b2 w8 15 of (c2, e2) \<Rightarrow>
      (case ripemd160_R41 b1 c1 d1 e1 a1 w9 12 of (b1, d1) \<Rightarrow> (case ripemd160_R42 b2 c2 d2 e2 a2 w6 5 of (b2, d2) \<Rightarrow>
      (case ripemd160_R41 a1 b1 c1 d1 e1 w11 14 of (a1, c1) \<Rightarrow> (case ripemd160_R42 a2 b2 c2 d2 e2 w4 8 of (a2, c2) \<Rightarrow>
      (case ripemd160_R41 e1 a1 b1 c1 d1 w10 15 of (e1, b1) \<Rightarrow> (case ripemd160_R42 e2 a2 b2 c2 d2 w1 11 of (e2, b2) \<Rightarrow>
      (case ripemd160_R41 d1 e1 a1 b1 c1 w0 14 of (d1, a1) \<Rightarrow> (case ripemd160_R42 d2 e2 a2 b2 c2 w3 14 of (d2, a2) \<Rightarrow>
      (case ripemd160_R41 c1 d1 e1 a1 b1 w8 15 of (c1, e1) \<Rightarrow> (case ripemd160_R42 c2 d2 e2 a2 b2 w11 14 of (c2, e2) \<Rightarrow>
      (case ripemd160_R41 b1 c1 d1 e1 a1 w12 9 of (b1, d1) \<Rightarrow> (case ripemd160_R42 b2 c2 d2 e2 a2 w15 6 of (b2, d2) \<Rightarrow>
      (case ripemd160_R41 a1 b1 c1 d1 e1 w4 8 of (a1, c1) \<Rightarrow> (case ripemd160_R42 a2 b2 c2 d2 e2 w0 14 of (a2, c2) \<Rightarrow>
      (case ripemd160_R41 e1 a1 b1 c1 d1 w13 9 of (e1, b1) \<Rightarrow> (case ripemd160_R42 e2 a2 b2 c2 d2 w5 6 of (e2, b2) \<Rightarrow>
      (case ripemd160_R41 d1 e1 a1 b1 c1 w3 14 of (d1, a1) \<Rightarrow> (case ripemd160_R42 d2 e2 a2 b2 c2 w12 9 of (d2, a2) \<Rightarrow>
      (case ripemd160_R41 c1 d1 e1 a1 b1 w7 5 of (c1, e1) \<Rightarrow> (case ripemd160_R42 c2 d2 e2 a2 b2 w2 12 of (c2, e2) \<Rightarrow>
      (case ripemd160_R41 b1 c1 d1 e1 a1 w15 6 of (b1, d1) \<Rightarrow> (case ripemd160_R42 b2 c2 d2 e2 a2 w13 9 of (b2, d2) \<Rightarrow>
      (case ripemd160_R41 a1 b1 c1 d1 e1 w14 8 of (a1, c1) \<Rightarrow> (case ripemd160_R42 a2 b2 c2 d2 e2 w9 12 of (a2, c2) \<Rightarrow>
      (case ripemd160_R41 e1 a1 b1 c1 d1 w5 6 of (e1, b1) \<Rightarrow> (case ripemd160_R42 e2 a2 b2 c2 d2 w7 5 of (e2, b2) \<Rightarrow>
      (case ripemd160_R41 d1 e1 a1 b1 c1 w6 5 of (d1, a1) \<Rightarrow> (case ripemd160_R42 d2 e2 a2 b2 c2 w10 15 of (d2, a2) \<Rightarrow>
      (case ripemd160_R41 c1 d1 e1 a1 b1 w2 12 of (c1, e1) \<Rightarrow> (case ripemd160_R42 c2 d2 e2 a2 b2 w14 8 of (c2, e2) \<Rightarrow>
      (case ripemd160_R51 b1 c1 d1 e1 a1 w4 9 of (b1, d1) \<Rightarrow> (case ripemd160_R52 b2 c2 d2 e2 a2 w12 8 of (b2, d2) \<Rightarrow>
      (case ripemd160_R51 a1 b1 c1 d1 e1 w0 15 of (a1, c1) \<Rightarrow> (case ripemd160_R52 a2 b2 c2 d2 e2 w15 5 of (a2, c2) \<Rightarrow>
      (case ripemd160_R51 e1 a1 b1 c1 d1 w5 5 of (e1, b1) \<Rightarrow> (case ripemd160_R52 e2 a2 b2 c2 d2 w10 12 of (e2, b2) \<Rightarrow>
      (case ripemd160_R51 d1 e1 a1 b1 c1 w9 11 of (d1, a1) \<Rightarrow> (case ripemd160_R52 d2 e2 a2 b2 c2 w4 9 of (d2, a2) \<Rightarrow>
      (case ripemd160_R51 c1 d1 e1 a1 b1 w7 6 of (c1, e1) \<Rightarrow> (case ripemd160_R52 c2 d2 e2 a2 b2 w1 12 of (c2, e2) \<Rightarrow>
      (case ripemd160_R51 b1 c1 d1 e1 a1 w12 8 of (b1, d1) \<Rightarrow> (case ripemd160_R52 b2 c2 d2 e2 a2 w5 5 of (b2, d2) \<Rightarrow>
      (case ripemd160_R51 a1 b1 c1 d1 e1 w2 13 of (a1, c1) \<Rightarrow> (case ripemd160_R52 a2 b2 c2 d2 e2 w8 14 of (a2, c2) \<Rightarrow>
      (case ripemd160_R51 e1 a1 b1 c1 d1 w10 12 of (e1, b1) \<Rightarrow> (case ripemd160_R52 e2 a2 b2 c2 d2 w7 6 of (e2, b2) \<Rightarrow>
      (case ripemd160_R51 d1 e1 a1 b1 c1 w14 5 of (d1, a1) \<Rightarrow> (case ripemd160_R52 d2 e2 a2 b2 c2 w6 8 of (d2, a2) \<Rightarrow>
      (case ripemd160_R51 c1 d1 e1 a1 b1 w1 12 of (c1, e1) \<Rightarrow> (case ripemd160_R52 c2 d2 e2 a2 b2 w2 13 of (c2, e2) \<Rightarrow>
      (case ripemd160_R51 b1 c1 d1 e1 a1 w3 13 of (b1, d1) \<Rightarrow> (case ripemd160_R52 b2 c2 d2 e2 a2 w13 6 of (b2, d2) \<Rightarrow>
      (case ripemd160_R51 a1 b1 c1 d1 e1 w8 14 of (a1, c1) \<Rightarrow> (case ripemd160_R52 a2 b2 c2 d2 e2 w14 5 of (a2, c2) \<Rightarrow>
      (case ripemd160_R51 e1 a1 b1 c1 d1 w11 11 of (e1, b1) \<Rightarrow> (case ripemd160_R52 e2 a2 b2 c2 d2 w0 15 of (e2, b2) \<Rightarrow>
      (case ripemd160_R51 d1 e1 a1 b1 c1 w6 8 of (d1, a1) \<Rightarrow> (case ripemd160_R52 d2 e2 a2 b2 c2 w3 13 of (d2, a2) \<Rightarrow>
      (case ripemd160_R51 c1 d1 e1 a1 b1 w15 5 of (c1, e1) \<Rightarrow> (case ripemd160_R52 c2 d2 e2 a2 b2 w9 11 of (c2, e2) \<Rightarrow>
      (case ripemd160_R51 b1 c1 d1 e1 a1 w13 6 of (b1, d1) \<Rightarrow> (case ripemd160_R52 b2 c2 d2 e2 a2 w11 11 of (b2, d2) \<Rightarrow>
      let t = s ! 0 in [s ! 1 + c1 + d2, s ! 2 + d1 + e2, s ! 3 + e1 + a2, s ! 4 + a1 + b2, t + b1 + c2])))))))))))))))))))))))))))))))))))))))))))))))))))))))))))))))))))))))))))))))))))))))))))))))))))))))))))))))))))))))))))))))))))))))))))))))))))))))))))))))))"

text \<open>The constructor leaves \<^verbatim>\<open>buf\<close> as it finds it: \<open>b0\<close> is that content.\<close>

definition CRIPEMD160 :: "byte list \<Rightarrow> u32 hasher" where
  "CRIPEMD160 b0 = \<lparr>hs = ripemd160_Initialize, hbuf = b0, hbytes = 0\<rparr>"

definition CRIPEMD160_Write :: "u32 hasher \<Rightarrow> byte list \<Rightarrow> u32 hasher" where
  "CRIPEMD160_Write h data = block_Write 64 ripemd160_Transform h data"

definition CRIPEMD160_Finalize :: "u32 hasher \<Rightarrow> byte list \<times> u32 hasher" where
  "CRIPEMD160_Finalize h =
     (let pad = 0x80 # replicate 63 0;
          sizedesc = WriteLE64 (push_bit 3 (hbytes h));
          h1 = CRIPEMD160_Write h (take (1 + ((119 - unat (hbytes h) mod 64) mod 64)) pad);
          h2 = CRIPEMD160_Write h1 sizedesc
      in (WriteLE32 (hs h2 ! 0) @ WriteLE32 (hs h2 ! 1) @ WriteLE32 (hs h2 ! 2) @ WriteLE32 (hs h2 ! 3) @
          WriteLE32 (hs h2 ! 4), h2))"

definition CRIPEMD160_Reset :: "u32 hasher \<Rightarrow> u32 hasher" where
  "CRIPEMD160_Reset h = h\<lparr>hbytes := 0, hs := ripemd160_Initialize\<rparr>"

subsection \<open>The definition of the hash function\<close>

text \<open>
  The permutation \<open>rho\<close> and \<open>pi(i) = 9 i + 5\<close> select the message words: the left line uses the
  identity, \<open>rho\<close>, \<open>rho\<close> squared and so on, the right line the same after \<open>pi\<close>. The amounts of the
  rotations are tables.
\<close>

type_synonym line = "u32 \<times> u32 \<times> u32 \<times> u32 \<times> u32"

definition rmd_rho :: "nat \<Rightarrow> nat" where
  "rmd_rho i = [7, 4, 13, 1, 10, 6, 15, 3, 12, 0, 9, 5, 2, 14, 11, 8] ! i"

definition rmd_r :: "nat \<Rightarrow> nat" where
  "rmd_r j = (rmd_rho ^^ (j div 16)) (j mod 16)"

definition rmd_r' :: "nat \<Rightarrow> nat" where
  "rmd_r' j = (rmd_rho ^^ (j div 16)) ((9 * (j mod 16) + 5) mod 16)"

definition rmd_s :: "nat list" where
  "rmd_s =
    [11, 14, 15, 12, 5, 8, 7, 9, 11, 13, 14, 15, 6, 7, 9, 8,
     7, 6, 8, 13, 11, 9, 7, 15, 7, 12, 15, 9, 11, 7, 13, 12,
     11, 13, 6, 7, 14, 9, 13, 15, 14, 8, 13, 6, 5, 12, 7, 5,
     11, 12, 14, 15, 14, 15, 9, 8, 9, 14, 5, 6, 8, 6, 5, 12,
     9, 15, 5, 11, 6, 8, 13, 12, 5, 12, 13, 14, 11, 8, 5, 6]"

definition rmd_s' :: "nat list" where
  "rmd_s' =
    [8, 9, 9, 11, 13, 15, 15, 5, 7, 7, 8, 11, 14, 14, 12, 6,
     9, 13, 15, 7, 12, 8, 9, 11, 7, 7, 12, 7, 6, 15, 13, 11,
     9, 7, 15, 11, 8, 6, 6, 14, 12, 13, 5, 14, 13, 13, 7, 5,
     15, 5, 8, 11, 14, 14, 6, 14, 6, 9, 12, 9, 12, 5, 15, 8,
     8, 5, 12, 9, 12, 5, 14, 6, 8, 13, 6, 5, 15, 13, 11, 11]"

definition rmd_f :: "nat \<Rightarrow> u32 \<Rightarrow> u32 \<Rightarrow> u32 \<Rightarrow> u32" where
  "rmd_f j x y z =
     (if j < 16 then x XOR y XOR z
      else if j < 32 then (x AND y) OR (NOT x AND z)
      else if j < 48 then (x OR NOT y) XOR z
      else if j < 64 then (x AND z) OR (y AND NOT z)
      else x XOR (y OR NOT z))"

definition rmd_K :: "nat \<Rightarrow> u32" where
  "rmd_K j = (if j < 16 then 0 else if j < 32 then 0x5A827999 else if j < 48 then 0x6ED9EBA1
     else if j < 64 then 0x8F1BBCDC else 0xA953FD4E)"

definition rmd_K' :: "nat \<Rightarrow> u32" where
  "rmd_K' j = (if j < 16 then 0x50A28BE6 else if j < 32 then 0x5C4DD124 else if j < 48 then 0x6D703EF3
     else if j < 64 then 0x7A6D76E9 else 0)"

fun rmd_step :: "(u32 \<Rightarrow> u32 \<Rightarrow> u32 \<Rightarrow> u32) \<Rightarrow> u32 \<Rightarrow> u32 \<Rightarrow> nat \<Rightarrow> line \<Rightarrow> line" where
  "rmd_step f X K s (A, B, C, D, E) =
     (let T = word_rotl s (A + f B C D + X + K) + E in (E, T, B, word_rotl 10 C, D))"

definition rmd_left :: "u32 list \<Rightarrow> line \<Rightarrow> nat \<Rightarrow> line" where
  "rmd_left X r j = rmd_step (rmd_f j) (X ! rmd_r j) (rmd_K j) (rmd_s ! j) r"

definition rmd_right :: "u32 list \<Rightarrow> line \<Rightarrow> nat \<Rightarrow> line" where
  "rmd_right X r j = rmd_step (rmd_f (79 - j)) (X ! rmd_r' j) (rmd_K' j) (rmd_s' ! j) r"

definition rmd_block :: "byte list \<Rightarrow> u32 list" where
  "rmd_block chunk = map (\<lambda>i. ReadLE32 (drop (4 * i) chunk)) [0..<16]"

definition rmd_compress :: "u32 list \<Rightarrow> byte list \<Rightarrow> u32 list" where
  "rmd_compress h chunk =
     (let X = rmd_block chunk; r = (h ! 0, h ! 1, h ! 2, h ! 3, h ! 4);
          (A, B, C, D, E) = foldl (rmd_left X) r [0..<80];
          (A', B', C', D', E') = foldl (rmd_right X) r [0..<80]
      in [h ! 1 + C + D', h ! 2 + D + E', h ! 3 + E + A', h ! 4 + A + B', h ! 0 + B + C'])"

definition rmd_pad :: "byte list \<Rightarrow> byte list" where
  "rmd_pad m = m @ md_pad 64 56 (length m) @ WriteLE64 (of_nat (8 * length m))"

definition rmd_hash :: "byte list \<Rightarrow> byte list" where
  "rmd_hash m = concat (map WriteLE32 (absorb 64 rmd_compress ripemd160_Initialize (rmd_pad m)))"

subsection \<open>The rolled program\<close>

type_synonym rmd_fun = "u32 \<Rightarrow> u32 \<Rightarrow> u32 \<Rightarrow> u32 \<Rightarrow> u32 \<Rightarrow> u32 \<Rightarrow> nat \<Rightarrow> u32 \<times> u32"

fun rmd_run :: "(rmd_fun \<times> u32 \<times> nat \<times> rmd_fun \<times> u32 \<times> nat) list \<Rightarrow> line \<Rightarrow> line \<Rightarrow> (line \<Rightarrow> line \<Rightarrow> 'r) \<Rightarrow> 'r" where
  "rmd_run [] r r' cont = cont r r'"
| "rmd_run ((F, x, s, F', x', s') # ks) (a1, b1, c1, d1, e1) (a2, b2, c2, d2, e2) cont =
     (case F a1 b1 c1 d1 e1 x s of (A1, C1) \<Rightarrow>
      case F' a2 b2 c2 d2 e2 x' s' of (A2, C2) \<Rightarrow>
        rmd_run ks (e1, A1, b1, C1, d1) (e2, A2, b2, C2, d2) cont)"

lemma ripemd160_Transform_run:
  "ripemd160_Transform s chunk = rmd_run
     [(ripemd160_R11, ReadLE32 (drop 0 chunk), 11, ripemd160_R12, ReadLE32 (drop 20 chunk), 8),
       (ripemd160_R11, ReadLE32 (drop 4 chunk), 14, ripemd160_R12, ReadLE32 (drop 56 chunk), 9),
       (ripemd160_R11, ReadLE32 (drop 8 chunk), 15, ripemd160_R12, ReadLE32 (drop 28 chunk), 9),
       (ripemd160_R11, ReadLE32 (drop 12 chunk), 12, ripemd160_R12, ReadLE32 (drop 0 chunk), 11),
       (ripemd160_R11, ReadLE32 (drop 16 chunk), 5, ripemd160_R12, ReadLE32 (drop 36 chunk), 13),
       (ripemd160_R11, ReadLE32 (drop 20 chunk), 8, ripemd160_R12, ReadLE32 (drop 8 chunk), 15),
       (ripemd160_R11, ReadLE32 (drop 24 chunk), 7, ripemd160_R12, ReadLE32 (drop 44 chunk), 15),
       (ripemd160_R11, ReadLE32 (drop 28 chunk), 9, ripemd160_R12, ReadLE32 (drop 16 chunk), 5),
       (ripemd160_R11, ReadLE32 (drop 32 chunk), 11, ripemd160_R12, ReadLE32 (drop 52 chunk), 7),
       (ripemd160_R11, ReadLE32 (drop 36 chunk), 13, ripemd160_R12, ReadLE32 (drop 24 chunk), 7),
       (ripemd160_R11, ReadLE32 (drop 40 chunk), 14, ripemd160_R12, ReadLE32 (drop 60 chunk), 8),
       (ripemd160_R11, ReadLE32 (drop 44 chunk), 15, ripemd160_R12, ReadLE32 (drop 32 chunk), 11),
       (ripemd160_R11, ReadLE32 (drop 48 chunk), 6, ripemd160_R12, ReadLE32 (drop 4 chunk), 14),
       (ripemd160_R11, ReadLE32 (drop 52 chunk), 7, ripemd160_R12, ReadLE32 (drop 40 chunk), 14),
       (ripemd160_R11, ReadLE32 (drop 56 chunk), 9, ripemd160_R12, ReadLE32 (drop 12 chunk), 12),
       (ripemd160_R11, ReadLE32 (drop 60 chunk), 8, ripemd160_R12, ReadLE32 (drop 48 chunk), 6),
       (ripemd160_R21, ReadLE32 (drop 28 chunk), 7, ripemd160_R22, ReadLE32 (drop 24 chunk), 9),
       (ripemd160_R21, ReadLE32 (drop 16 chunk), 6, ripemd160_R22, ReadLE32 (drop 44 chunk), 13),
       (ripemd160_R21, ReadLE32 (drop 52 chunk), 8, ripemd160_R22, ReadLE32 (drop 12 chunk), 15),
       (ripemd160_R21, ReadLE32 (drop 4 chunk), 13, ripemd160_R22, ReadLE32 (drop 28 chunk), 7),
       (ripemd160_R21, ReadLE32 (drop 40 chunk), 11, ripemd160_R22, ReadLE32 (drop 0 chunk), 12),
       (ripemd160_R21, ReadLE32 (drop 24 chunk), 9, ripemd160_R22, ReadLE32 (drop 52 chunk), 8),
       (ripemd160_R21, ReadLE32 (drop 60 chunk), 7, ripemd160_R22, ReadLE32 (drop 20 chunk), 9),
       (ripemd160_R21, ReadLE32 (drop 12 chunk), 15, ripemd160_R22, ReadLE32 (drop 40 chunk), 11),
       (ripemd160_R21, ReadLE32 (drop 48 chunk), 7, ripemd160_R22, ReadLE32 (drop 56 chunk), 7),
       (ripemd160_R21, ReadLE32 (drop 0 chunk), 12, ripemd160_R22, ReadLE32 (drop 60 chunk), 7),
       (ripemd160_R21, ReadLE32 (drop 36 chunk), 15, ripemd160_R22, ReadLE32 (drop 32 chunk), 12),
       (ripemd160_R21, ReadLE32 (drop 20 chunk), 9, ripemd160_R22, ReadLE32 (drop 48 chunk), 7),
       (ripemd160_R21, ReadLE32 (drop 8 chunk), 11, ripemd160_R22, ReadLE32 (drop 16 chunk), 6),
       (ripemd160_R21, ReadLE32 (drop 56 chunk), 7, ripemd160_R22, ReadLE32 (drop 36 chunk), 15),
       (ripemd160_R21, ReadLE32 (drop 44 chunk), 13, ripemd160_R22, ReadLE32 (drop 4 chunk), 13),
       (ripemd160_R21, ReadLE32 (drop 32 chunk), 12, ripemd160_R22, ReadLE32 (drop 8 chunk), 11),
       (ripemd160_R31, ReadLE32 (drop 12 chunk), 11, ripemd160_R32, ReadLE32 (drop 60 chunk), 9),
       (ripemd160_R31, ReadLE32 (drop 40 chunk), 13, ripemd160_R32, ReadLE32 (drop 20 chunk), 7),
       (ripemd160_R31, ReadLE32 (drop 56 chunk), 6, ripemd160_R32, ReadLE32 (drop 4 chunk), 15),
       (ripemd160_R31, ReadLE32 (drop 16 chunk), 7, ripemd160_R32, ReadLE32 (drop 12 chunk), 11),
       (ripemd160_R31, ReadLE32 (drop 36 chunk), 14, ripemd160_R32, ReadLE32 (drop 28 chunk), 8),
       (ripemd160_R31, ReadLE32 (drop 60 chunk), 9, ripemd160_R32, ReadLE32 (drop 56 chunk), 6),
       (ripemd160_R31, ReadLE32 (drop 32 chunk), 13, ripemd160_R32, ReadLE32 (drop 24 chunk), 6),
       (ripemd160_R31, ReadLE32 (drop 4 chunk), 15, ripemd160_R32, ReadLE32 (drop 36 chunk), 14),
       (ripemd160_R31, ReadLE32 (drop 8 chunk), 14, ripemd160_R32, ReadLE32 (drop 44 chunk), 12),
       (ripemd160_R31, ReadLE32 (drop 28 chunk), 8, ripemd160_R32, ReadLE32 (drop 32 chunk), 13),
       (ripemd160_R31, ReadLE32 (drop 0 chunk), 13, ripemd160_R32, ReadLE32 (drop 48 chunk), 5),
       (ripemd160_R31, ReadLE32 (drop 24 chunk), 6, ripemd160_R32, ReadLE32 (drop 8 chunk), 14),
       (ripemd160_R31, ReadLE32 (drop 52 chunk), 5, ripemd160_R32, ReadLE32 (drop 40 chunk), 13),
       (ripemd160_R31, ReadLE32 (drop 44 chunk), 12, ripemd160_R32, ReadLE32 (drop 0 chunk), 13),
       (ripemd160_R31, ReadLE32 (drop 20 chunk), 7, ripemd160_R32, ReadLE32 (drop 16 chunk), 7),
       (ripemd160_R31, ReadLE32 (drop 48 chunk), 5, ripemd160_R32, ReadLE32 (drop 52 chunk), 5),
       (ripemd160_R41, ReadLE32 (drop 4 chunk), 11, ripemd160_R42, ReadLE32 (drop 32 chunk), 15),
       (ripemd160_R41, ReadLE32 (drop 36 chunk), 12, ripemd160_R42, ReadLE32 (drop 24 chunk), 5),
       (ripemd160_R41, ReadLE32 (drop 44 chunk), 14, ripemd160_R42, ReadLE32 (drop 16 chunk), 8),
       (ripemd160_R41, ReadLE32 (drop 40 chunk), 15, ripemd160_R42, ReadLE32 (drop 4 chunk), 11),
       (ripemd160_R41, ReadLE32 (drop 0 chunk), 14, ripemd160_R42, ReadLE32 (drop 12 chunk), 14),
       (ripemd160_R41, ReadLE32 (drop 32 chunk), 15, ripemd160_R42, ReadLE32 (drop 44 chunk), 14),
       (ripemd160_R41, ReadLE32 (drop 48 chunk), 9, ripemd160_R42, ReadLE32 (drop 60 chunk), 6),
       (ripemd160_R41, ReadLE32 (drop 16 chunk), 8, ripemd160_R42, ReadLE32 (drop 0 chunk), 14),
       (ripemd160_R41, ReadLE32 (drop 52 chunk), 9, ripemd160_R42, ReadLE32 (drop 20 chunk), 6),
       (ripemd160_R41, ReadLE32 (drop 12 chunk), 14, ripemd160_R42, ReadLE32 (drop 48 chunk), 9),
       (ripemd160_R41, ReadLE32 (drop 28 chunk), 5, ripemd160_R42, ReadLE32 (drop 8 chunk), 12),
       (ripemd160_R41, ReadLE32 (drop 60 chunk), 6, ripemd160_R42, ReadLE32 (drop 52 chunk), 9),
       (ripemd160_R41, ReadLE32 (drop 56 chunk), 8, ripemd160_R42, ReadLE32 (drop 36 chunk), 12),
       (ripemd160_R41, ReadLE32 (drop 20 chunk), 6, ripemd160_R42, ReadLE32 (drop 28 chunk), 5),
       (ripemd160_R41, ReadLE32 (drop 24 chunk), 5, ripemd160_R42, ReadLE32 (drop 40 chunk), 15),
       (ripemd160_R41, ReadLE32 (drop 8 chunk), 12, ripemd160_R42, ReadLE32 (drop 56 chunk), 8),
       (ripemd160_R51, ReadLE32 (drop 16 chunk), 9, ripemd160_R52, ReadLE32 (drop 48 chunk), 8),
       (ripemd160_R51, ReadLE32 (drop 0 chunk), 15, ripemd160_R52, ReadLE32 (drop 60 chunk), 5),
       (ripemd160_R51, ReadLE32 (drop 20 chunk), 5, ripemd160_R52, ReadLE32 (drop 40 chunk), 12),
       (ripemd160_R51, ReadLE32 (drop 36 chunk), 11, ripemd160_R52, ReadLE32 (drop 16 chunk), 9),
       (ripemd160_R51, ReadLE32 (drop 28 chunk), 6, ripemd160_R52, ReadLE32 (drop 4 chunk), 12),
       (ripemd160_R51, ReadLE32 (drop 48 chunk), 8, ripemd160_R52, ReadLE32 (drop 20 chunk), 5),
       (ripemd160_R51, ReadLE32 (drop 8 chunk), 13, ripemd160_R52, ReadLE32 (drop 32 chunk), 14),
       (ripemd160_R51, ReadLE32 (drop 40 chunk), 12, ripemd160_R52, ReadLE32 (drop 28 chunk), 6),
       (ripemd160_R51, ReadLE32 (drop 56 chunk), 5, ripemd160_R52, ReadLE32 (drop 24 chunk), 8),
       (ripemd160_R51, ReadLE32 (drop 4 chunk), 12, ripemd160_R52, ReadLE32 (drop 8 chunk), 13),
       (ripemd160_R51, ReadLE32 (drop 12 chunk), 13, ripemd160_R52, ReadLE32 (drop 52 chunk), 6),
       (ripemd160_R51, ReadLE32 (drop 32 chunk), 14, ripemd160_R52, ReadLE32 (drop 56 chunk), 5),
       (ripemd160_R51, ReadLE32 (drop 44 chunk), 11, ripemd160_R52, ReadLE32 (drop 0 chunk), 15),
       (ripemd160_R51, ReadLE32 (drop 24 chunk), 8, ripemd160_R52, ReadLE32 (drop 12 chunk), 13),
       (ripemd160_R51, ReadLE32 (drop 60 chunk), 5, ripemd160_R52, ReadLE32 (drop 36 chunk), 11),
       (ripemd160_R51, ReadLE32 (drop 52 chunk), 6, ripemd160_R52, ReadLE32 (drop 44 chunk), 11)]
     (s ! 0, s ! 1, s ! 2, s ! 3, s ! 4) (s ! 0, s ! 1, s ! 2, s ! 3, s ! 4)
     (\<lambda>(a1, b1, c1, d1, e1) (a2, b2, c2, d2, e2).
        [s ! 1 + c1 + d2, s ! 2 + d1 + e2, s ! 3 + e1 + a2, s ! 4 + a1 + b2, s ! 0 + b1 + c2])"
  unfolding ripemd160_Transform_def rmd_run.simps prod.case
    Let_def [of "s ! 0"] Let_def [of "s ! 1"] Let_def [of "s ! 2"] Let_def [of "s ! 3"] Let_def [of "s ! 4"]
    Let_def [of "ReadLE32 (drop 0 chunk)"] Let_def [of "ReadLE32 (drop 4 chunk)"] Let_def [of "ReadLE32 (drop 8 chunk)"] Let_def [of "ReadLE32 (drop 12 chunk)"] Let_def [of "ReadLE32 (drop 16 chunk)"] Let_def [of "ReadLE32 (drop 20 chunk)"] Let_def [of "ReadLE32 (drop 24 chunk)"] Let_def [of "ReadLE32 (drop 28 chunk)"] Let_def [of "ReadLE32 (drop 32 chunk)"] Let_def [of "ReadLE32 (drop 36 chunk)"] Let_def [of "ReadLE32 (drop 40 chunk)"] Let_def [of "ReadLE32 (drop 44 chunk)"] Let_def [of "ReadLE32 (drop 48 chunk)"] Let_def [of "ReadLE32 (drop 52 chunk)"] Let_def [of "ReadLE32 (drop 56 chunk)"] Let_def [of "ReadLE32 (drop 60 chunk)"]
  by (rule refl)

definition rmd_F :: "nat \<Rightarrow> rmd_fun" where
  "rmd_F j = (if j < 16 then ripemd160_R11 else if j < 32 then ripemd160_R21 else if j < 48 then ripemd160_R31
     else if j < 64 then ripemd160_R41 else ripemd160_R51)"

definition rmd_F' :: "nat \<Rightarrow> rmd_fun" where
  "rmd_F' j = (if j < 16 then ripemd160_R12 else if j < 32 then ripemd160_R22 else if j < 48 then ripemd160_R32
     else if j < 64 then ripemd160_R42 else ripemd160_R52)"

definition rmd_entry :: "u32 list \<Rightarrow> nat \<Rightarrow> rmd_fun \<times> u32 \<times> nat \<times> rmd_fun \<times> u32 \<times> nat" where
  "rmd_entry X j = (rmd_F j, X ! rmd_r j, rmd_s ! j, rmd_F' j, X ! rmd_r' j, rmd_s' ! j)"

lemma rmd_rho_simps:
  "rmd_rho 0 = 7"
  "rmd_rho (Suc 0) = 4"
  "rmd_rho 2 = 13"
  "rmd_rho 3 = Suc 0"
  "rmd_rho 4 = 10"
  "rmd_rho 5 = 6"
  "rmd_rho 6 = 15"
  "rmd_rho 7 = 3"
  "rmd_rho 8 = 12"
  "rmd_rho 9 = 0"
  "rmd_rho 10 = 9"
  "rmd_rho 11 = 5"
  "rmd_rho 12 = 2"
  "rmd_rho 13 = 14"
  "rmd_rho 14 = 11"
  "rmd_rho 15 = 8"
  by (simp_all add: rmd_rho_def)

lemma funpow_2_3_4: "(f ^^ 2) x = f (f x)" "(f ^^ 3) x = f (f (f x))" "(f ^^ 4) x = f (f (f (f x)))"
  by (simp_all add: numeral_eq_Suc)

lemma length_rmd_tables [simp]: "length rmd_s = 80" "length rmd_s' = 80"
  by (simp_all add: rmd_s_def rmd_s'_def)

lemma upt_80: "[0..<80] =
    [0, 1, 2, 3, 4, 5, 6, 7, 8, 9, 10, 11, 12, 13, 14, 15,
     16, 17, 18, 19, 20, 21, 22, 23, 24, 25, 26, 27, 28, 29, 30, 31,
     32, 33, 34, 35, 36, 37, 38, 39, 40, 41, 42, 43, 44, 45, 46, 47,
     48, 49, 50, 51, 52, 53, 54, 55, 56, 57, 58, 59, 60, 61, 62, 63,
     64, 65, 66, 67, 68, 69, 70, 71, 72, 73, 74, 75, 76, 77, 78, 79]"
  by (simp add: upt_conv_Cons)

lemma rmd_r_table: "map rmd_r [0..<80] =
    [0, 1, 2, 3, 4, 5, 6, 7, 8, 9, 10, 11, 12, 13, 14, 15,
     7, 4, 13, 1, 10, 6, 15, 3, 12, 0, 9, 5, 2, 14, 11, 8,
     3, 10, 14, 4, 9, 15, 8, 1, 2, 7, 0, 6, 13, 11, 5, 12,
     1, 9, 11, 10, 0, 8, 12, 4, 13, 3, 7, 15, 14, 5, 6, 2,
     4, 0, 5, 9, 7, 12, 2, 10, 14, 1, 3, 8, 11, 6, 15, 13]"
  unfolding upt_80 list.map by (simp add: rmd_r_def rmd_rho_simps funpow_2_3_4)

lemma rmd_r'_table: "map rmd_r' [0..<80] =
    [5, 14, 7, 0, 9, 2, 11, 4, 13, 6, 15, 8, 1, 10, 3, 12,
     6, 11, 3, 7, 0, 13, 5, 10, 14, 15, 8, 12, 4, 9, 1, 2,
     15, 5, 1, 3, 7, 14, 6, 9, 11, 8, 12, 2, 10, 0, 4, 13,
     8, 6, 4, 1, 3, 11, 15, 0, 5, 12, 2, 13, 9, 7, 10, 14,
     12, 15, 10, 4, 1, 5, 8, 7, 6, 2, 13, 14, 0, 3, 9, 11]"
  unfolding upt_80 list.map by (simp add: rmd_r'_def rmd_rho_simps funpow_2_3_4)

lemma nth_rmd_block: "k < 16 \<Longrightarrow> rmd_block chunk ! k = ReadLE32 (drop (4 * k) chunk)"
  by (simp add: rmd_block_def)

text \<open>The tables with one list element per round.\<close>

lemma rmd_entries:
  "map (rmd_entry X) [0..<80] =
   map (\<lambda>(j, r, r', s, s'). (rmd_F j, X ! r, s, rmd_F' j, X ! r', s'))
     (zip [0..<80] (zip (map rmd_r [0..<80]) (zip (map rmd_r' [0..<80]) (zip rmd_s rmd_s'))))"
  by (rule nth_equalityI) (simp_all add: rmd_entry_def)

lemma rmd_program:
  "[(ripemd160_R11, ReadLE32 (drop 0 chunk), 11, ripemd160_R12, ReadLE32 (drop 20 chunk), 8),
       (ripemd160_R11, ReadLE32 (drop 4 chunk), 14, ripemd160_R12, ReadLE32 (drop 56 chunk), 9),
       (ripemd160_R11, ReadLE32 (drop 8 chunk), 15, ripemd160_R12, ReadLE32 (drop 28 chunk), 9),
       (ripemd160_R11, ReadLE32 (drop 12 chunk), 12, ripemd160_R12, ReadLE32 (drop 0 chunk), 11),
       (ripemd160_R11, ReadLE32 (drop 16 chunk), 5, ripemd160_R12, ReadLE32 (drop 36 chunk), 13),
       (ripemd160_R11, ReadLE32 (drop 20 chunk), 8, ripemd160_R12, ReadLE32 (drop 8 chunk), 15),
       (ripemd160_R11, ReadLE32 (drop 24 chunk), 7, ripemd160_R12, ReadLE32 (drop 44 chunk), 15),
       (ripemd160_R11, ReadLE32 (drop 28 chunk), 9, ripemd160_R12, ReadLE32 (drop 16 chunk), 5),
       (ripemd160_R11, ReadLE32 (drop 32 chunk), 11, ripemd160_R12, ReadLE32 (drop 52 chunk), 7),
       (ripemd160_R11, ReadLE32 (drop 36 chunk), 13, ripemd160_R12, ReadLE32 (drop 24 chunk), 7),
       (ripemd160_R11, ReadLE32 (drop 40 chunk), 14, ripemd160_R12, ReadLE32 (drop 60 chunk), 8),
       (ripemd160_R11, ReadLE32 (drop 44 chunk), 15, ripemd160_R12, ReadLE32 (drop 32 chunk), 11),
       (ripemd160_R11, ReadLE32 (drop 48 chunk), 6, ripemd160_R12, ReadLE32 (drop 4 chunk), 14),
       (ripemd160_R11, ReadLE32 (drop 52 chunk), 7, ripemd160_R12, ReadLE32 (drop 40 chunk), 14),
       (ripemd160_R11, ReadLE32 (drop 56 chunk), 9, ripemd160_R12, ReadLE32 (drop 12 chunk), 12),
       (ripemd160_R11, ReadLE32 (drop 60 chunk), 8, ripemd160_R12, ReadLE32 (drop 48 chunk), 6),
       (ripemd160_R21, ReadLE32 (drop 28 chunk), 7, ripemd160_R22, ReadLE32 (drop 24 chunk), 9),
       (ripemd160_R21, ReadLE32 (drop 16 chunk), 6, ripemd160_R22, ReadLE32 (drop 44 chunk), 13),
       (ripemd160_R21, ReadLE32 (drop 52 chunk), 8, ripemd160_R22, ReadLE32 (drop 12 chunk), 15),
       (ripemd160_R21, ReadLE32 (drop 4 chunk), 13, ripemd160_R22, ReadLE32 (drop 28 chunk), 7),
       (ripemd160_R21, ReadLE32 (drop 40 chunk), 11, ripemd160_R22, ReadLE32 (drop 0 chunk), 12),
       (ripemd160_R21, ReadLE32 (drop 24 chunk), 9, ripemd160_R22, ReadLE32 (drop 52 chunk), 8),
       (ripemd160_R21, ReadLE32 (drop 60 chunk), 7, ripemd160_R22, ReadLE32 (drop 20 chunk), 9),
       (ripemd160_R21, ReadLE32 (drop 12 chunk), 15, ripemd160_R22, ReadLE32 (drop 40 chunk), 11),
       (ripemd160_R21, ReadLE32 (drop 48 chunk), 7, ripemd160_R22, ReadLE32 (drop 56 chunk), 7),
       (ripemd160_R21, ReadLE32 (drop 0 chunk), 12, ripemd160_R22, ReadLE32 (drop 60 chunk), 7),
       (ripemd160_R21, ReadLE32 (drop 36 chunk), 15, ripemd160_R22, ReadLE32 (drop 32 chunk), 12),
       (ripemd160_R21, ReadLE32 (drop 20 chunk), 9, ripemd160_R22, ReadLE32 (drop 48 chunk), 7),
       (ripemd160_R21, ReadLE32 (drop 8 chunk), 11, ripemd160_R22, ReadLE32 (drop 16 chunk), 6),
       (ripemd160_R21, ReadLE32 (drop 56 chunk), 7, ripemd160_R22, ReadLE32 (drop 36 chunk), 15),
       (ripemd160_R21, ReadLE32 (drop 44 chunk), 13, ripemd160_R22, ReadLE32 (drop 4 chunk), 13),
       (ripemd160_R21, ReadLE32 (drop 32 chunk), 12, ripemd160_R22, ReadLE32 (drop 8 chunk), 11),
       (ripemd160_R31, ReadLE32 (drop 12 chunk), 11, ripemd160_R32, ReadLE32 (drop 60 chunk), 9),
       (ripemd160_R31, ReadLE32 (drop 40 chunk), 13, ripemd160_R32, ReadLE32 (drop 20 chunk), 7),
       (ripemd160_R31, ReadLE32 (drop 56 chunk), 6, ripemd160_R32, ReadLE32 (drop 4 chunk), 15),
       (ripemd160_R31, ReadLE32 (drop 16 chunk), 7, ripemd160_R32, ReadLE32 (drop 12 chunk), 11),
       (ripemd160_R31, ReadLE32 (drop 36 chunk), 14, ripemd160_R32, ReadLE32 (drop 28 chunk), 8),
       (ripemd160_R31, ReadLE32 (drop 60 chunk), 9, ripemd160_R32, ReadLE32 (drop 56 chunk), 6),
       (ripemd160_R31, ReadLE32 (drop 32 chunk), 13, ripemd160_R32, ReadLE32 (drop 24 chunk), 6),
       (ripemd160_R31, ReadLE32 (drop 4 chunk), 15, ripemd160_R32, ReadLE32 (drop 36 chunk), 14),
       (ripemd160_R31, ReadLE32 (drop 8 chunk), 14, ripemd160_R32, ReadLE32 (drop 44 chunk), 12),
       (ripemd160_R31, ReadLE32 (drop 28 chunk), 8, ripemd160_R32, ReadLE32 (drop 32 chunk), 13),
       (ripemd160_R31, ReadLE32 (drop 0 chunk), 13, ripemd160_R32, ReadLE32 (drop 48 chunk), 5),
       (ripemd160_R31, ReadLE32 (drop 24 chunk), 6, ripemd160_R32, ReadLE32 (drop 8 chunk), 14),
       (ripemd160_R31, ReadLE32 (drop 52 chunk), 5, ripemd160_R32, ReadLE32 (drop 40 chunk), 13),
       (ripemd160_R31, ReadLE32 (drop 44 chunk), 12, ripemd160_R32, ReadLE32 (drop 0 chunk), 13),
       (ripemd160_R31, ReadLE32 (drop 20 chunk), 7, ripemd160_R32, ReadLE32 (drop 16 chunk), 7),
       (ripemd160_R31, ReadLE32 (drop 48 chunk), 5, ripemd160_R32, ReadLE32 (drop 52 chunk), 5),
       (ripemd160_R41, ReadLE32 (drop 4 chunk), 11, ripemd160_R42, ReadLE32 (drop 32 chunk), 15),
       (ripemd160_R41, ReadLE32 (drop 36 chunk), 12, ripemd160_R42, ReadLE32 (drop 24 chunk), 5),
       (ripemd160_R41, ReadLE32 (drop 44 chunk), 14, ripemd160_R42, ReadLE32 (drop 16 chunk), 8),
       (ripemd160_R41, ReadLE32 (drop 40 chunk), 15, ripemd160_R42, ReadLE32 (drop 4 chunk), 11),
       (ripemd160_R41, ReadLE32 (drop 0 chunk), 14, ripemd160_R42, ReadLE32 (drop 12 chunk), 14),
       (ripemd160_R41, ReadLE32 (drop 32 chunk), 15, ripemd160_R42, ReadLE32 (drop 44 chunk), 14),
       (ripemd160_R41, ReadLE32 (drop 48 chunk), 9, ripemd160_R42, ReadLE32 (drop 60 chunk), 6),
       (ripemd160_R41, ReadLE32 (drop 16 chunk), 8, ripemd160_R42, ReadLE32 (drop 0 chunk), 14),
       (ripemd160_R41, ReadLE32 (drop 52 chunk), 9, ripemd160_R42, ReadLE32 (drop 20 chunk), 6),
       (ripemd160_R41, ReadLE32 (drop 12 chunk), 14, ripemd160_R42, ReadLE32 (drop 48 chunk), 9),
       (ripemd160_R41, ReadLE32 (drop 28 chunk), 5, ripemd160_R42, ReadLE32 (drop 8 chunk), 12),
       (ripemd160_R41, ReadLE32 (drop 60 chunk), 6, ripemd160_R42, ReadLE32 (drop 52 chunk), 9),
       (ripemd160_R41, ReadLE32 (drop 56 chunk), 8, ripemd160_R42, ReadLE32 (drop 36 chunk), 12),
       (ripemd160_R41, ReadLE32 (drop 20 chunk), 6, ripemd160_R42, ReadLE32 (drop 28 chunk), 5),
       (ripemd160_R41, ReadLE32 (drop 24 chunk), 5, ripemd160_R42, ReadLE32 (drop 40 chunk), 15),
       (ripemd160_R41, ReadLE32 (drop 8 chunk), 12, ripemd160_R42, ReadLE32 (drop 56 chunk), 8),
       (ripemd160_R51, ReadLE32 (drop 16 chunk), 9, ripemd160_R52, ReadLE32 (drop 48 chunk), 8),
       (ripemd160_R51, ReadLE32 (drop 0 chunk), 15, ripemd160_R52, ReadLE32 (drop 60 chunk), 5),
       (ripemd160_R51, ReadLE32 (drop 20 chunk), 5, ripemd160_R52, ReadLE32 (drop 40 chunk), 12),
       (ripemd160_R51, ReadLE32 (drop 36 chunk), 11, ripemd160_R52, ReadLE32 (drop 16 chunk), 9),
       (ripemd160_R51, ReadLE32 (drop 28 chunk), 6, ripemd160_R52, ReadLE32 (drop 4 chunk), 12),
       (ripemd160_R51, ReadLE32 (drop 48 chunk), 8, ripemd160_R52, ReadLE32 (drop 20 chunk), 5),
       (ripemd160_R51, ReadLE32 (drop 8 chunk), 13, ripemd160_R52, ReadLE32 (drop 32 chunk), 14),
       (ripemd160_R51, ReadLE32 (drop 40 chunk), 12, ripemd160_R52, ReadLE32 (drop 28 chunk), 6),
       (ripemd160_R51, ReadLE32 (drop 56 chunk), 5, ripemd160_R52, ReadLE32 (drop 24 chunk), 8),
       (ripemd160_R51, ReadLE32 (drop 4 chunk), 12, ripemd160_R52, ReadLE32 (drop 8 chunk), 13),
       (ripemd160_R51, ReadLE32 (drop 12 chunk), 13, ripemd160_R52, ReadLE32 (drop 52 chunk), 6),
       (ripemd160_R51, ReadLE32 (drop 32 chunk), 14, ripemd160_R52, ReadLE32 (drop 56 chunk), 5),
       (ripemd160_R51, ReadLE32 (drop 44 chunk), 11, ripemd160_R52, ReadLE32 (drop 0 chunk), 15),
       (ripemd160_R51, ReadLE32 (drop 24 chunk), 8, ripemd160_R52, ReadLE32 (drop 12 chunk), 13),
       (ripemd160_R51, ReadLE32 (drop 60 chunk), 5, ripemd160_R52, ReadLE32 (drop 36 chunk), 11),
       (ripemd160_R51, ReadLE32 (drop 52 chunk), 6, ripemd160_R52, ReadLE32 (drop 44 chunk), 11)] =
   map (rmd_entry (rmd_block chunk)) [0..<80]"
  unfolding rmd_entries rmd_r_table rmd_r'_table unfolding upt_80 rmd_s_def rmd_s'_def zip_Cons_Cons zip_Nil list.map
  by (simp add: nth_rmd_block rmd_F_def rmd_F'_def)

lemma rmd_s_bounds: "j < 80 \<Longrightarrow> 0 < rmd_s ! j \<and> rmd_s ! j < 32" "j < 80 \<Longrightarrow> 0 < rmd_s' ! j \<and> rmd_s' ! j < 32"
proof -
  have "list_all (\<lambda>k. 0 < k \<and> k < 32) rmd_s" "list_all (\<lambda>k. 0 < k \<and> k < 32) rmd_s'"
    by (simp_all add: rmd_s_def rmd_s'_def)
  then show "j < 80 \<Longrightarrow> 0 < rmd_s ! j \<and> rmd_s ! j < 32" "j < 80 \<Longrightarrow> 0 < rmd_s' ! j \<and> rmd_s' ! j < 32"
    by (simp_all add: list_all_length)
qed

lemma ripemd160_rol_eq: "0 < i \<Longrightarrow> i < 32 \<Longrightarrow> ripemd160_rol x i = word_rotl i x"
  using rotl_shifts [of i x] by (simp add: ripemd160_rol_def)

lemma ripemd160_Round_step:
  assumes "0 < s" and "s < 32" and "ripemd160_Round a b c d e (f b c d) x k s = (a', c')"
  shows "rmd_step f x k s (a, b, c, d, e) = (e, a', b, c', d)"
  using assms by (auto simp: ripemd160_Round_def ripemd160_rol_eq)

lemmas ripemd160_R_defs = ripemd160_R11_def ripemd160_R21_def ripemd160_R31_def ripemd160_R41_def ripemd160_R51_def
  ripemd160_R12_def ripemd160_R22_def ripemd160_R32_def ripemd160_R42_def ripemd160_R52_def
  ripemd160_f1_def ripemd160_f2_def ripemd160_f3_def ripemd160_f4_def ripemd160_f5_def

lemma rmd_F_Round: "rmd_F j a b c d e x s = ripemd160_Round a b c d e (rmd_f j b c d) x (rmd_K j) s"
  by (simp add: rmd_F_def rmd_f_def rmd_K_def ripemd160_R_defs)

lemma rmd_F'_Round:
  "j < 80 \<Longrightarrow> rmd_F' j a b c d e x s = ripemd160_Round a b c d e (rmd_f (79 - j) b c d) x (rmd_K' j) s"
proof -
  assume "j < 80"
  then have "79 - j < 16 \<longleftrightarrow> \<not> j < 64" "79 - j < 32 \<longleftrightarrow> \<not> j < 48" "79 - j < 48 \<longleftrightarrow> \<not> j < 32" "79 - j < 64 \<longleftrightarrow> \<not> j < 16"
    by auto
  then show ?thesis
    by (simp add: rmd_F'_def rmd_f_def rmd_K'_def ripemd160_R_defs)
qed

lemma rmd_run_Cons:
  assumes "j < 80"
  shows "rmd_run (rmd_entry X j # ks) r r' cont = rmd_run ks (rmd_left X r j) (rmd_right X r' j) cont"
proof -
  obtain a b c d e where r: "r = (a, b, c, d, e)" by (metis surj_pair)
  obtain a2 b2 c2 d2 e2 where r': "r' = (a2, b2, c2, d2, e2)" by (metis surj_pair)
  obtain A C where l: "ripemd160_Round a b c d e (rmd_f j b c d) (X ! rmd_r j) (rmd_K j) (rmd_s ! j) = (A, C)"
    by force
  obtain A2 C2 where l2: "ripemd160_Round a2 b2 c2 d2 e2 (rmd_f (79 - j) b2 c2 d2) (X ! rmd_r' j) (rmd_K' j) (rmd_s' ! j) = (A2, C2)"
    by force
  show ?thesis
    using ripemd160_Round_step [where f = "rmd_f j", OF _ _ l]
      ripemd160_Round_step [where f = "rmd_f (79 - j)", OF _ _ l2] rmd_s_bounds [OF assms]
    by (simp add: r r' rmd_entry_def rmd_F_Round rmd_F'_Round assms l l2 rmd_left_def rmd_right_def
        del: rmd_step.simps)
qed

lemma rmd_run_foldl:
  "list_all (\<lambda>j. j < 80) js \<Longrightarrow>
     rmd_run (map (rmd_entry X) js) r r' cont = cont (foldl (rmd_left X) r js) (foldl (rmd_right X) r' js)"
  by (induction js arbitrary: r r') (simp_all add: rmd_run_Cons del: rmd_run.simps(2))

lemma ripemd160_Transform_compress: "ripemd160_Transform s chunk = rmd_compress s chunk"
proof -
  have "list_all (\<lambda>j. j < 80) [0..<80]"
    by (simp add: list_all_length del: upt_rec_numeral)
  then show ?thesis
    unfolding ripemd160_Transform_run rmd_program rmd_compress_def Let_def
    by (subst rmd_run_foldl) (auto simp del: upt_rec_numeral split: prod.splits)
qed

subsection \<open>Streaming\<close>

lemma ripemd160_absorb: "absorb 64 ripemd160_Transform s m = absorb 64 rmd_compress s m"
  by (simp add: ripemd160_Transform_compress [abs_def])

lemma rmd_block_take: "64 \<le> length d \<Longrightarrow> rmd_block (take 64 d) = rmd_block d"
  by (auto simp: rmd_block_def ReadLE32_def)

interpretation ripemd160_stream: block_hasher 64 ripemd160_Transform CRIPEMD160_Write
  by unfold_locales
    (auto simp: ripemd160_Transform_compress rmd_compress_def rmd_block_take CRIPEMD160_Write_def)

lemma length_rmd_compress [simp]: "length (rmd_compress s d) = 5"
  by (simp add: rmd_compress_def Let_def split: prod.splits del: upt_rec_numeral)

lemma length_rmd_absorb [simp]: "length s = 5 \<Longrightarrow> length (absorb 64 rmd_compress s m) = 5"
  by (induction "64 :: nat" "rmd_compress" s m rule: absorb.induct) (subst absorb.simps, simp)

lemma rmd_concat5:
  assumes "length (s::u32 list) = 5"
  shows "concat (map g s) = g (s ! 0) @ g (s ! 1) @ g (s ! 2) @ g (s ! 3) @ g (s ! 4)"
  using assms by (auto simp: numeral_eq_Suc length_Suc_conv)

lemma CRIPEMD160_digest:
  assumes "absorbed 64 ripemd160_Transform ripemd160_Initialize h m"
  shows "fst (CRIPEMD160_Finalize h) = rmd_hash m"
proof -
  have cnt: "unat (hbytes h) mod 64 = length m mod 64" "hbytes h = of_nat (length m)"
    using ripemd160_stream.absorbed_count [OF assms] by auto
  have size: "push_bit 3 (hbytes h) = of_nat (8 * length m)"
    by (simp add: cnt(2) push_bit_eq_mult)
  let ?h2 = "CRIPEMD160_Write (CRIPEMD160_Write h (md_pad 64 56 (length m))) (WriteLE64 (of_nat (8 * length m)))"
  have "hs ?h2 = absorb 64 rmd_compress ripemd160_Initialize (rmd_pad m)"
    using ripemd160_stream.absorbed_hs [OF assms] by (simp add: ripemd160_absorb rmd_pad_def)
  then show ?thesis
    by (simp add: CRIPEMD160_Finalize_def cnt(1) size code_pad_64 [simplified] Let_def rmd_hash_def rmd_concat5
        ripemd160_Initialize_def)
qed

subsection \<open>Properties\<close>

text \<open>
  \<^verbatim>\<open>ripemd160::Transform\<close>, which interleaves and unrolls two lines of eighty rounds, is the
  compression function of RIPEMD-160 as its authors define it through the permutations \<open>rho\<close> and \<open>pi\<close>.
\<close>

lemma ripemd160_Transform_spec: "ripemd160_Transform s chunk = rmd_compress s chunk"
  by (rule ripemd160_Transform_compress)

text \<open>
  Streaming: whatever the uninitialised buffer holds and however the data is cut into \<^verbatim>\<open>Write\<close>
  calls, \<^verbatim>\<open>CRIPEMD160::Finalize\<close> returns the 20-byte RIPEMD-160 digest of all the data written.
\<close>

lemma CRIPEMD160_stream:
  assumes "length b0 = 64"
  shows "fst (CRIPEMD160_Finalize (foldl CRIPEMD160_Write (CRIPEMD160 b0) chunks)) = rmd_hash (concat chunks) \<and>
    length (rmd_hash (concat chunks)) = 20"
proof -
  have "absorbed 64 ripemd160_Transform ripemd160_Initialize (CRIPEMD160 b0) []"
    using ripemd160_stream.absorbed_init [OF assms] by (simp add: CRIPEMD160_def)
  from ripemd160_stream.absorbed_stream [OF this, of chunks] CRIPEMD160_digest show ?thesis
    by (simp add: rmd_hash_def rmd_concat5 ripemd160_Initialize_def)
qed

lemma CRIPEMD160_stream_witness:
  "fst (CRIPEMD160_Finalize (CRIPEMD160_Write (CRIPEMD160_Write (CRIPEMD160 (replicate 64 7)) [0x61]) [0x62, 0x63])) =
     rmd_hash [0x61, 0x62, 0x63]"
  using CRIPEMD160_stream [of "replicate 64 7" "[[0x61], [0x62, 0x63]]"] by simp

end
