(* ===== verification/Hash.thy ===== *)
theory Hash
  imports Sha1 Sha256 Sha512 Ripemd160
begin

section \<open>Bitcoin's composed hashes (util/cryption/hash)\<close>

text \<open>
  \<^verbatim>\<open>CHash256\<close> and \<^verbatim>\<open>CHash160\<close> of \<^verbatim>\<open>hash.h\<close> are clients of the hash classes. What they rely on is the
  contract \<open>digester\<close>: an object holds a message, \<^verbatim>\<open>Write\<close> extends it, \<^verbatim>\<open>Finalize\<close> returns its digest and
  \<^verbatim>\<open>Reset\<close> empties it, also after \<^verbatim>\<open>Finalize\<close>. All four hash classes provide it, and the two composed
  classes provide it again.
\<close>

subsection \<open>The code\<close>

text \<open>The only member of both classes is a \<^verbatim>\<open>CSHA256\<close>. \<^verbatim>\<open>Finalize\<close> returns the digest and the object.\<close>

definition CHash256_Finalize :: "u32 hasher \<Rightarrow> byte list \<times> u32 hasher" where
  "CHash256_Finalize sha =
     (let (buf, sha) = CSHA256_Finalize sha in CSHA256_Finalize (CSHA256_Write (CSHA256_Reset sha) buf))"

definition CHash256_Write :: "u32 hasher \<Rightarrow> byte list \<Rightarrow> u32 hasher" where
  "CHash256_Write sha data = CSHA256_Write sha data"

definition CHash256_Reset :: "u32 hasher \<Rightarrow> u32 hasher" where
  "CHash256_Reset sha = CSHA256_Reset sha"

text \<open>\<open>b1\<close> is what the buffer of the temporary \<^verbatim>\<open>CRIPEMD160\<close> object holds before it is written.\<close>

definition CHash160_Finalize :: "byte list \<Rightarrow> u32 hasher \<Rightarrow> byte list \<times> u32 hasher" where
  "CHash160_Finalize b1 sha =
     (let (buf, sha) = CSHA256_Finalize sha in
      (fst (CRIPEMD160_Finalize (CRIPEMD160_Write (CRIPEMD160 b1) buf)), sha))"

definition CHash160_Write :: "u32 hasher \<Rightarrow> byte list \<Rightarrow> u32 hasher" where
  "CHash160_Write sha data = CSHA256_Write sha data"

definition CHash160_Reset :: "u32 hasher \<Rightarrow> u32 hasher" where
  "CHash160_Reset sha = CSHA256_Reset sha"

subsection \<open>The contract\<close>

locale digester =
  fixes holds :: "'s \<Rightarrow> byte list \<Rightarrow> bool" and upd :: "'s \<Rightarrow> byte list \<Rightarrow> 's"
    and fin :: "'s \<Rightarrow> byte list \<times> 's" and reset :: "'s \<Rightarrow> 's" and digest :: "byte list \<Rightarrow> byte list"
  assumes holds_upd: "holds h m \<Longrightarrow> holds (upd h d) (m @ d)"
    and fin_digest: "holds h m \<Longrightarrow> fst (fin h) = digest m"
    and fin_holds: "holds h m \<Longrightarrow> \<exists>m'. holds (snd (fin h)) m'"
    and holds_reset: "holds h m \<Longrightarrow> holds (reset h) []"
begin

lemma holds_foldl: "holds h m \<Longrightarrow> holds (foldl upd h cs) (m @ concat cs)"
  by (induction cs arbitrary: h m) (auto dest: holds_upd simp flip: append_assoc)

lemma after_reset: "holds h m \<Longrightarrow> fst (fin (foldl upd (reset h) cs)) = digest (concat cs)"
  using holds_foldl [OF holds_reset, of h m cs] fin_digest by simp

text \<open>An object can be used again after \<^verbatim>\<open>Finalize\<close> and \<^verbatim>\<open>Reset\<close>.\<close>

lemma reuse:
  assumes "holds h m"
  shows "fst (fin (foldl upd (reset (snd (fin h))) cs)) = digest (concat cs)"
  using fin_holds [OF assms] after_reset by blast

end

interpretation sha1_digester: digester "absorbed 64 sha1_Transform sha1_Initialize"
  CSHA1_Write CSHA1_Finalize CSHA1_Reset fips1_hash
  using sha1_stream.absorbed_upd CSHA1_digest sha1_stream.absorbed_upd_upd
  by unfold_locales (simp_all add: CSHA1_Finalize_def CSHA1_Reset_def Let_def sha1_stream.absorbed_reset)

interpretation sha256_digester: digester "absorbed 64 sha256_Transform sha256_Initialize"
  CSHA256_Write CSHA256_Finalize CSHA256_Reset fips256_hash
  using sha256_stream.absorbed_upd CSHA256_digest sha256_stream.absorbed_upd_upd
  by unfold_locales (simp_all add: CSHA256_Finalize_def CSHA256_Reset_def Let_def sha256_stream.absorbed_reset)

interpretation sha512_digester: digester "absorbed 128 sha512_Transform sha512_Initialize"
  CSHA512_Write CSHA512_Finalize CSHA512_Reset fips512_hash
  using sha512_stream.absorbed_upd CSHA512_digest sha512_stream.absorbed_upd_upd
  by unfold_locales (simp_all add: CSHA512_Finalize_def CSHA512_Reset_def Let_def sha512_stream.absorbed_reset)

interpretation ripemd160_digester: digester "absorbed 64 ripemd160_Transform ripemd160_Initialize"
  CRIPEMD160_Write CRIPEMD160_Finalize CRIPEMD160_Reset rmd_hash
  using ripemd160_stream.absorbed_upd CRIPEMD160_digest ripemd160_stream.absorbed_upd_upd
  by unfold_locales (simp_all add: CRIPEMD160_Finalize_def CRIPEMD160_Reset_def Let_def ripemd160_stream.absorbed_reset)

subsection \<open>The composed classes\<close>

lemma CHash256_Finalize_digest:
  assumes "absorbed 64 sha256_Transform sha256_Initialize h m"
  shows "fst (CHash256_Finalize h) = fips256_hash (fips256_hash m)"
  using sha256_digester.reuse [OF assms, of "[fips256_hash m]"] sha256_digester.fin_digest [OF assms]
  by (simp add: CHash256_Finalize_def split_beta)

lemma CHash256_Finalize_holds:
  assumes "absorbed 64 sha256_Transform sha256_Initialize h m"
  shows "\<exists>m'. absorbed 64 sha256_Transform sha256_Initialize (snd (CHash256_Finalize h)) m'"
proof -
  obtain m' where "absorbed 64 sha256_Transform sha256_Initialize (snd (CSHA256_Finalize h)) m'"
    using sha256_digester.fin_holds [OF assms] by blast
  from sha256_digester.holds_upd [OF sha256_digester.holds_reset [OF this]] show ?thesis
    unfolding CHash256_Finalize_def split_beta Let_def by (rule sha256_digester.fin_holds)
qed

interpretation hash256: digester "absorbed 64 sha256_Transform sha256_Initialize"
  CHash256_Write CHash256_Finalize CHash256_Reset "\<lambda>m. fips256_hash (fips256_hash m)"
  using CHash256_Finalize_digest CHash256_Finalize_holds sha256_digester.holds_upd sha256_digester.holds_reset
  by unfold_locales (simp_all add: CHash256_Write_def CHash256_Reset_def)

lemma CHash160_Finalize_digest:
  assumes "length b1 = 64" and "absorbed 64 sha256_Transform sha256_Initialize h m"
  shows "fst (CHash160_Finalize b1 h) = rmd_hash (fips256_hash m)"
proof -
  have "absorbed 64 ripemd160_Transform ripemd160_Initialize (CRIPEMD160 b1) []"
    using ripemd160_stream.absorbed_init [OF assms(1)] by (simp add: CRIPEMD160_def)
  from ripemd160_digester.holds_upd [OF this] show ?thesis
    using sha256_digester.fin_digest [OF assms(2)] ripemd160_digester.fin_digest
    by (simp add: CHash160_Finalize_def split_beta)
qed

text \<open>The temporary object's buffer is one of the array's possible contents.\<close>

interpretation hash160: digester "absorbed 64 sha256_Transform sha256_Initialize"
  CHash160_Write "CHash160_Finalize (replicate 64 b)" CHash160_Reset "\<lambda>m. rmd_hash (fips256_hash m)" for b
  using CHash160_Finalize_digest sha256_digester.fin_holds sha256_digester.holds_upd sha256_digester.holds_reset
  by unfold_locales (simp_all add: CHash160_Write_def CHash160_Reset_def CHash160_Finalize_def split_beta)

lemma CSHA256_new_holds: "length b0 = 64 \<Longrightarrow> absorbed 64 sha256_Transform sha256_Initialize (CSHA256 b0) []"
  using sha256_stream.absorbed_init by (simp add: CSHA256_def)

subsection \<open>Properties\<close>

text \<open>
  \<^verbatim>\<open>CHash256\<close>: however the data is cut into \<^verbatim>\<open>Write\<close> calls, \<^verbatim>\<open>Finalize\<close> returns the double SHA-256 of
  all of it; and after \<^verbatim>\<open>Finalize\<close> and \<^verbatim>\<open>Reset\<close> the same object does so again for new data.
\<close>

lemma CHash256_double:
  assumes "length b0 = 64"
  shows "fst (CHash256_Finalize (foldl CHash256_Write (CSHA256 b0) cs)) = fips256_hash (fips256_hash (concat cs)) \<and>
    fst (CHash256_Finalize (foldl CHash256_Write (CHash256_Reset (snd (CHash256_Finalize
      (foldl CHash256_Write (CSHA256 b0) cs)))) ds)) = fips256_hash (fips256_hash (concat ds))"
  using hash256.holds_foldl [OF CSHA256_new_holds [OF assms], of cs] hash256.fin_digest hash256.reuse
  by fastforce

lemma CHash256_double_witness:
  "fst (CHash256_Finalize (CHash256_Write (CSHA256 (replicate 64 0)) [1, 2])) = fips256_hash (fips256_hash [1, 2])"
  using CHash256_double [of "replicate 64 0" "[[1, 2]]" "[]"] by simp

text \<open>
  \<^verbatim>\<open>CHash160\<close>: \<^verbatim>\<open>Finalize\<close> returns RIPEMD-160 of SHA-256 of all the data written, whatever the
  uninitialised buffers of the object and of the temporary hold.
\<close>

lemma CHash160_sha_ripemd:
  assumes "length b0 = 64" and "length b1 = 64"
  shows "fst (CHash160_Finalize b1 (foldl CHash160_Write (CSHA256 b0) cs)) = rmd_hash (fips256_hash (concat cs))"
  using hash160.holds_foldl [OF CSHA256_new_holds [OF assms(1)], of cs] CHash160_Finalize_digest [OF assms(2)]
  by fastforce

lemma CHash160_sha_ripemd_witness:
  "fst (CHash160_Finalize (replicate 64 9) (CHash160_Write (CSHA256 (replicate 64 0)) [1, 2])) =
     rmd_hash (fips256_hash [1, 2])"
  using CHash160_sha_ripemd [of "replicate 64 0" "replicate 64 9" "[[1, 2]]"] by simp

end
