(* ===== verification/Md5.thy ===== *)
theory Md5
  imports Block_Hasher
begin

section \<open>MD5 (util/cryption/MD5)\<close>

text \<open>
  The class \<^verbatim>\<open>MD5\<close> of \<^verbatim>\<open>MD5.cpp\<close>, its wrappers, and the message digest of RFC 1321. The loop of
  \<^verbatim>\<open>update\<close> counts in 32-bit unsigned integers and its guard \<^verbatim>\<open>input_index + 63 < input_length\<close> may
  wrap, so the loop is a partial function whose value \<open>None\<close> is "does not return"; it is shown to
  return for every input of at most \<open>2 ^ 32 - 64\<close> bytes.
\<close>

subsection \<open>The code\<close>

record MD5 =
  m_state :: "u32 list"
  m_count :: "u32 list"
  m_buffer :: "byte list"
  m_digest :: "byte list"
  m_finalized :: bool

text \<open>The constructor sets everything but the two byte arrays, which hold what they held.\<close>

definition MD5_new :: "byte list \<Rightarrow> byte list \<Rightarrow> MD5" where
  "MD5_new b0 d0 = \<lparr>m_state = [0x67452301, 0xefcdab89, 0x98badcfe, 0x10325476], m_count = [0, 0],
     m_buffer = b0, m_digest = d0, m_finalized = False\<rparr>"

definition md5_init :: "MD5 \<Rightarrow> MD5" where
  "md5_init c = c\<lparr>m_finalized := False, m_count := [0, 0],
     m_state := [0x67452301, 0xefcdab89, 0x98badcfe, 0x10325476]\<rparr>"

definition changeMagicNumber :: "MD5 \<Rightarrow> u32 \<Rightarrow> u32 \<Rightarrow> u32 \<Rightarrow> u32 \<Rightarrow> MD5" where
  "changeMagicNumber c m1 m2 m3 m4 = c\<lparr>m_state := [m1, m2, m3, m4]\<rparr>"

definition S11 :: nat where "S11 = 7"
definition S12 :: nat where "S12 = 12"
definition S13 :: nat where "S13 = 17"
definition S14 :: nat where "S14 = 22"
definition S21 :: nat where "S21 = 5"
definition S22 :: nat where "S22 = 9"
definition S23 :: nat where "S23 = 14"
definition S24 :: nat where "S24 = 20"
definition S31 :: nat where "S31 = 4"
definition S32 :: nat where "S32 = 11"
definition S33 :: nat where "S33 = 16"
definition S34 :: nat where "S34 = 23"
definition S41 :: nat where "S41 = 6"
definition S42 :: nat where "S42 = 10"
definition S43 :: nat where "S43 = 15"
definition S44 :: nat where "S44 = 21"

definition md5_rotate_left :: "u32 \<Rightarrow> nat \<Rightarrow> u32" where
  "md5_rotate_left x n = push_bit n x OR drop_bit (32 - n) x"

definition md5_F :: "u32 \<Rightarrow> u32 \<Rightarrow> u32 \<Rightarrow> u32" where
  "md5_F x y z = (x AND y) OR (NOT x AND z)"

definition md5_G :: "u32 \<Rightarrow> u32 \<Rightarrow> u32 \<Rightarrow> u32" where
  "md5_G x y z = (x AND z) OR (y AND NOT z)"

definition md5_H :: "u32 \<Rightarrow> u32 \<Rightarrow> u32 \<Rightarrow> u32" where
  "md5_H x y z = x XOR y XOR z"

definition md5_I :: "u32 \<Rightarrow> u32 \<Rightarrow> u32 \<Rightarrow> u32" where
  "md5_I x y z = y XOR (x OR NOT z)"

text \<open>\<^verbatim>\<open>FF\<close>, \<^verbatim>\<open>GG\<close>, \<^verbatim>\<open>HH\<close> and \<^verbatim>\<open>II\<close> write their reference parameter \<^verbatim>\<open>a\<close>: the result is its new value.\<close>

definition md5_FF :: "u32 \<Rightarrow> u32 \<Rightarrow> u32 \<Rightarrow> u32 \<Rightarrow> u32 \<Rightarrow> nat \<Rightarrow> u32 \<Rightarrow> u32" where
  "md5_FF a b c d x s ac = md5_rotate_left (a + (md5_F b c d + x + ac)) s + b"

definition md5_GG :: "u32 \<Rightarrow> u32 \<Rightarrow> u32 \<Rightarrow> u32 \<Rightarrow> u32 \<Rightarrow> nat \<Rightarrow> u32 \<Rightarrow> u32" where
  "md5_GG a b c d x s ac = md5_rotate_left (a + (md5_G b c d + x + ac)) s + b"

definition md5_HH :: "u32 \<Rightarrow> u32 \<Rightarrow> u32 \<Rightarrow> u32 \<Rightarrow> u32 \<Rightarrow> nat \<Rightarrow> u32 \<Rightarrow> u32" where
  "md5_HH a b c d x s ac = md5_rotate_left (a + (md5_H b c d + x + ac)) s + b"

definition md5_II :: "u32 \<Rightarrow> u32 \<Rightarrow> u32 \<Rightarrow> u32 \<Rightarrow> u32 \<Rightarrow> nat \<Rightarrow> u32 \<Rightarrow> u32" where
  "md5_II a b c d x s ac = md5_rotate_left (a + (md5_I b c d + x + ac)) s + b"

text \<open>\<^verbatim>\<open>encode\<close> and \<^verbatim>\<open>decode\<close> are only called with a \<^verbatim>\<open>len\<close> that is a multiple of 4.\<close>

definition md5_encode :: "u32 list \<Rightarrow> nat \<Rightarrow> byte list" where
  "md5_encode input len = concat (map (\<lambda>i.
     [ucast (input ! i), ucast (drop_bit 8 (input ! i)), ucast (drop_bit 16 (input ! i)), ucast (drop_bit 24 (input ! i))])
     [0..<len div 4])"

definition md5_decode :: "byte list \<Rightarrow> nat \<Rightarrow> u32 list" where
  "md5_decode input len = map (\<lambda>i. ucast (input ! (4 * i)) OR push_bit 8 (ucast (input ! (4 * i + 1))) OR
     push_bit 16 (ucast (input ! (4 * i + 2))) OR push_bit 24 (ucast (input ! (4 * i + 3)))) [0..<len div 4]"

definition md5_transform :: "u32 list \<Rightarrow> byte list \<Rightarrow> u32 list" where
  "md5_transform h block =
     (let a = h ! 0; b = h ! 1; c = h ! 2; d = h ! 3; x = md5_decode block 64 in
      let a = md5_FF a b c d (x ! 0) S11 0xd76aa478 in
      let d = md5_FF d a b c (x ! 1) S12 0xe8c7b756 in
      let c = md5_FF c d a b (x ! 2) S13 0x242070db in
      let b = md5_FF b c d a (x ! 3) S14 0xc1bdceee in
      let a = md5_FF a b c d (x ! 4) S11 0xf57c0faf in
      let d = md5_FF d a b c (x ! 5) S12 0x4787c62a in
      let c = md5_FF c d a b (x ! 6) S13 0xa8304613 in
      let b = md5_FF b c d a (x ! 7) S14 0xfd469501 in
      let a = md5_FF a b c d (x ! 8) S11 0x698098d8 in
      let d = md5_FF d a b c (x ! 9) S12 0x8b44f7af in
      let c = md5_FF c d a b (x ! 10) S13 0xffff5bb1 in
      let b = md5_FF b c d a (x ! 11) S14 0x895cd7be in
      let a = md5_FF a b c d (x ! 12) S11 0x6b901122 in
      let d = md5_FF d a b c (x ! 13) S12 0xfd987193 in
      let c = md5_FF c d a b (x ! 14) S13 0xa679438e in
      let b = md5_FF b c d a (x ! 15) S14 0x49b40821 in
      let a = md5_GG a b c d (x ! 1) S21 0xf61e2562 in
      let d = md5_GG d a b c (x ! 6) S22 0xc040b340 in
      let c = md5_GG c d a b (x ! 11) S23 0x265e5a51 in
      let b = md5_GG b c d a (x ! 0) S24 0xe9b6c7aa in
      let a = md5_GG a b c d (x ! 5) S21 0xd62f105d in
      let d = md5_GG d a b c (x ! 10) S22 0x2441453 in
      let c = md5_GG c d a b (x ! 15) S23 0xd8a1e681 in
      let b = md5_GG b c d a (x ! 4) S24 0xe7d3fbc8 in
      let a = md5_GG a b c d (x ! 9) S21 0x21e1cde6 in
      let d = md5_GG d a b c (x ! 14) S22 0xc33707d6 in
      let c = md5_GG c d a b (x ! 3) S23 0xf4d50d87 in
      let b = md5_GG b c d a (x ! 8) S24 0x455a14ed in
      let a = md5_GG a b c d (x ! 13) S21 0xa9e3e905 in
      let d = md5_GG d a b c (x ! 2) S22 0xfcefa3f8 in
      let c = md5_GG c d a b (x ! 7) S23 0x676f02d9 in
      let b = md5_GG b c d a (x ! 12) S24 0x8d2a4c8a in
      let a = md5_HH a b c d (x ! 5) S31 0xfffa3942 in
      let d = md5_HH d a b c (x ! 8) S32 0x8771f681 in
      let c = md5_HH c d a b (x ! 11) S33 0x6d9d6122 in
      let b = md5_HH b c d a (x ! 14) S34 0xfde5380c in
      let a = md5_HH a b c d (x ! 1) S31 0xa4beea44 in
      let d = md5_HH d a b c (x ! 4) S32 0x4bdecfa9 in
      let c = md5_HH c d a b (x ! 7) S33 0xf6bb4b60 in
      let b = md5_HH b c d a (x ! 10) S34 0xbebfbc70 in
      let a = md5_HH a b c d (x ! 13) S31 0x289b7ec6 in
      let d = md5_HH d a b c (x ! 0) S32 0xeaa127fa in
      let c = md5_HH c d a b (x ! 3) S33 0xd4ef3085 in
      let b = md5_HH b c d a (x ! 6) S34 0x4881d05 in
      let a = md5_HH a b c d (x ! 9) S31 0xd9d4d039 in
      let d = md5_HH d a b c (x ! 12) S32 0xe6db99e5 in
      let c = md5_HH c d a b (x ! 15) S33 0x1fa27cf8 in
      let b = md5_HH b c d a (x ! 2) S34 0xc4ac5665 in
      let a = md5_II a b c d (x ! 0) S41 0xf4292244 in
      let d = md5_II d a b c (x ! 7) S42 0x432aff97 in
      let c = md5_II c d a b (x ! 14) S43 0xab9423a7 in
      let b = md5_II b c d a (x ! 5) S44 0xfc93a039 in
      let a = md5_II a b c d (x ! 12) S41 0x655b59c3 in
      let d = md5_II d a b c (x ! 3) S42 0x8f0ccc92 in
      let c = md5_II c d a b (x ! 10) S43 0xffeff47d in
      let b = md5_II b c d a (x ! 1) S44 0x85845dd1 in
      let a = md5_II a b c d (x ! 8) S41 0x6fa87e4f in
      let d = md5_II d a b c (x ! 15) S42 0xfe2ce6e0 in
      let c = md5_II c d a b (x ! 6) S43 0xa3014314 in
      let b = md5_II b c d a (x ! 13) S44 0x4e0811a1 in
      let a = md5_II a b c d (x ! 4) S41 0xf7537e82 in
      let d = md5_II d a b c (x ! 11) S42 0xbd3af235 in
      let c = md5_II c d a b (x ! 2) S43 0x2ad7d2bb in
      let b = md5_II b c d a (x ! 9) S44 0xeb86d391 in
      [h ! 0 + a, h ! 1 + b, h ! 2 + c, h ! 3 + d])"

text \<open>The loop over the whole blocks of the input: the index where it stops and the state.\<close>

partial_function (option) md5_blocks :: "byte list \<Rightarrow> u32 \<Rightarrow> u32 \<Rightarrow> u32 list \<Rightarrow> (u32 \<times> u32 list) option" where
  "md5_blocks input input_length input_index s =
     (if input_index + 63 < input_length
      then md5_blocks input input_length (input_index + 64) (md5_transform s (drop (unat input_index) input))
      else Some (input_index, s))"

declare md5_blocks.simps [code]

definition md5_update :: "MD5 \<Rightarrow> byte list \<Rightarrow> u32 \<Rightarrow> MD5 option" where
  "md5_update ctx input input_length =
     (if m_finalized ctx then Some ctx
      else
        let buffer_index = drop_bit 3 (m_count ctx ! 0) AND 0x3F;
            c0 = m_count ctx ! 0 + push_bit 3 input_length;
            c1 = (if c0 < push_bit 3 input_length then m_count ctx ! 1 + 1 else m_count ctx ! 1);
            c1 = c1 + drop_bit 29 input_length;
            ctx = ctx\<lparr>m_count := [c0, c1]\<rparr>;
            buffer_space = 64 - buffer_index
        in if buffer_space \<le> input_length
           then let b = mem_copy (m_buffer ctx) (unat buffer_index) (take (unat buffer_space) input) in
                (case md5_blocks input input_length buffer_space (md5_transform (m_state ctx) b) of
                   None \<Rightarrow> None
                 | Some (input_index, s) \<Rightarrow>
                     Some (ctx\<lparr>m_state := s, m_buffer :=
                       mem_copy b 0 (take (unat (input_length - input_index)) (drop (unat input_index) input))\<rparr>))
           else Some (ctx\<lparr>m_buffer :=
                  mem_copy (m_buffer ctx) (unat buffer_index) (take (unat input_length) input)\<rparr>))"

text \<open>\<^verbatim>\<open>sizeof(*m_buffer)\<close> is the size of one element, so the final \<^verbatim>\<open>memset\<close> clears one byte.\<close>

definition md5_final :: "MD5 \<Rightarrow> MD5 option" where
  "md5_final ctx =
     (let PADDING = 0x80 # replicate 63 0 in
      if m_finalized ctx then Some ctx
      else
        let bits = md5_encode (m_count ctx) 8;
            index = drop_bit 3 (m_count ctx ! 0) AND 0x3f;
            padLen = (if index < 56 then 56 - index else 120 - index)
        in case md5_update ctx PADDING padLen of
             None \<Rightarrow> None
           | Some ctx1 \<Rightarrow>
               (case md5_update ctx1 bits 8 of
                  None \<Rightarrow> None
                | Some ctx2 \<Rightarrow>
                    Some (ctx2\<lparr>m_digest := md5_encode (m_state ctx2) 16,
                      m_buffer := (m_buffer ctx2)[0 := 0], m_finalized := True\<rparr>)))"

definition md5_digest :: "MD5 \<Rightarrow> byte list" where
  "md5_digest ctx = take 16 (m_digest ctx)"

text \<open>\<^verbatim>\<open>sprintf("%02x")\<close> of a byte.\<close>

definition hex_digit :: "nat \<Rightarrow> char" where
  "hex_digit n = ''0123456789abcdef'' ! n"

definition hex02x :: "byte \<Rightarrow> string" where
  "hex02x b = [hex_digit (unat b div 16), hex_digit (unat b mod 16)]"

definition MD5Result :: "byte list \<Rightarrow> string" where
  "MD5Result digest = concat (map (\<lambda>i. hex02x (digest ! i)) [0..<16])"

text \<open>
  \<^verbatim>\<open>MD5Encode\<close> digests the bytes before the terminating zero of its argument, \<^verbatim>\<open>strlen\<close> of them,
  the length cut to 32 bits.
\<close>

definition MD5Encode :: "MD5 \<Rightarrow> byte list \<Rightarrow> (string \<times> MD5) option" where
  "MD5Encode ctx src =
     (let len = of_nat (length (takeWhile (\<lambda>b. b \<noteq> 0) src)) in
      case md5_update (md5_init ctx) src len of
        None \<Rightarrow> None
      | Some ctx1 \<Rightarrow>
          (case md5_final ctx1 of
             None \<Rightarrow> None
           | Some ctx2 \<Rightarrow> Some (MD5Result (m_digest ctx2), ctx2)))"

text \<open>
  The member \<^verbatim>\<open>m_ctx\<close> of a new \<^verbatim>\<open>MD5Ext\<close>; \<open>b0\<close> and \<open>d0\<close> are the uninitialised arrays and \<open>n\<close> the
  \<^verbatim>\<open>size_t\<close> length, cut to 32 bits.
\<close>

definition MD5Ext :: "byte list \<Rightarrow> byte list \<Rightarrow> byte list \<Rightarrow> u64 \<Rightarrow> MD5 option" where
  "MD5Ext b0 d0 input n = Option.bind (md5_update (MD5_new b0 d0) input (ucast n)) md5_final"

definition MD5Ext_digest_hex :: "MD5 \<Rightarrow> string \<Rightarrow> string" where
  "MD5Ext_digest_hex ctx out = foldl (\<lambda>out i. out @ hex02x (md5_digest ctx ! i)) out [0..<16]"

definition md5digest :: "byte list \<Rightarrow> byte list \<Rightarrow> byte list \<Rightarrow> u64 \<Rightarrow> byte list option" where
  "md5digest b0 d0 input insize = map_option md5_digest (MD5Ext b0 d0 input insize)"

definition md5_calc :: "byte list \<Rightarrow> byte list \<Rightarrow> byte list \<Rightarrow> u32 \<Rightarrow> byte list option" where
  "md5_calc b0 d0 input inlen =
     (case md5_update (MD5_new b0 d0) input inlen of
        None \<Rightarrow> None
      | Some ctx \<Rightarrow> map_option md5_digest (md5_final ctx))"

subsection \<open>The digest of RFC 1321\<close>

type_synonym md5_regs = "u32 \<times> u32 \<times> u32 \<times> u32"

definition rfc_T :: "u32 list" where
  "rfc_T =
    [0xd76aa478, 0xe8c7b756, 0x242070db, 0xc1bdceee,
     0xf57c0faf, 0x4787c62a, 0xa8304613, 0xfd469501,
     0x698098d8, 0x8b44f7af, 0xffff5bb1, 0x895cd7be,
     0x6b901122, 0xfd987193, 0xa679438e, 0x49b40821,
     0xf61e2562, 0xc040b340, 0x265e5a51, 0xe9b6c7aa,
     0xd62f105d, 0x2441453, 0xd8a1e681, 0xe7d3fbc8,
     0x21e1cde6, 0xc33707d6, 0xf4d50d87, 0x455a14ed,
     0xa9e3e905, 0xfcefa3f8, 0x676f02d9, 0x8d2a4c8a,
     0xfffa3942, 0x8771f681, 0x6d9d6122, 0xfde5380c,
     0xa4beea44, 0x4bdecfa9, 0xf6bb4b60, 0xbebfbc70,
     0x289b7ec6, 0xeaa127fa, 0xd4ef3085, 0x4881d05,
     0xd9d4d039, 0xe6db99e5, 0x1fa27cf8, 0xc4ac5665,
     0xf4292244, 0x432aff97, 0xab9423a7, 0xfc93a039,
     0x655b59c3, 0x8f0ccc92, 0xffeff47d, 0x85845dd1,
     0x6fa87e4f, 0xfe2ce6e0, 0xa3014314, 0x4e0811a1,
     0xf7537e82, 0xbd3af235, 0x2ad7d2bb, 0xeb86d391]"

definition rfc_f :: "nat \<Rightarrow> u32 \<Rightarrow> u32 \<Rightarrow> u32 \<Rightarrow> u32" where
  "rfc_f i x y z =
     (if i < 16 then (x AND y) OR (NOT x AND z)
      else if i < 32 then (x AND z) OR (y AND NOT z)
      else if i < 48 then x XOR y XOR z
      else y XOR (x OR NOT z))"

definition rfc_k :: "nat \<Rightarrow> nat" where
  "rfc_k i = (if i < 16 then i else if i < 32 then (5 * i + 1) mod 16 else if i < 48 then (3 * i + 5) mod 16
     else (7 * i) mod 16)"

definition rfc_s :: "nat \<Rightarrow> nat" where
  "rfc_s i = [[7, 12, 17, 22], [5, 9, 14, 20], [4, 11, 16, 23], [6, 10, 15, 21]] ! (i div 16) ! (i mod 4)"

fun rfc_step :: "u32 list \<Rightarrow> md5_regs \<Rightarrow> nat \<Rightarrow> md5_regs" where
  "rfc_step X (a, b, c, d) i =
     (d, b + word_rotl (rfc_s i) (a + rfc_f i b c d + X ! rfc_k i + rfc_T ! i), b, c)"

definition rfc_compress :: "u32 list \<Rightarrow> byte list \<Rightarrow> u32 list" where
  "rfc_compress h block =
     (case foldl (rfc_step (map (\<lambda>i. ReadLE32 (drop (4 * i) block)) [0..<16])) (h ! 0, h ! 1, h ! 2, h ! 3) [0..<64] of
      (a, b, c, d) \<Rightarrow> [h ! 0 + a, h ! 1 + b, h ! 2 + c, h ! 3 + d])"

definition rfc_pad :: "byte list \<Rightarrow> byte list" where
  "rfc_pad m = m @ md_pad 64 56 (length m) @ WriteLE64 (of_nat (8 * length m))"

definition rfc_digest :: "u32 list \<Rightarrow> byte list \<Rightarrow> byte list" where
  "rfc_digest iv m = concat (map WriteLE32 (absorb 64 rfc_compress iv (rfc_pad m)))"

definition rfc_md5 :: "byte list \<Rightarrow> byte list" where
  "rfc_md5 m = rfc_digest [0x67452301, 0xefcdab89, 0x98badcfe, 0x10325476] m"

subsection \<open>The rolled program\<close>

fun md5_run :: "((u32 \<Rightarrow> u32 \<Rightarrow> u32 \<Rightarrow> u32 \<Rightarrow> u32 \<Rightarrow> nat \<Rightarrow> u32 \<Rightarrow> u32) \<times> u32 \<times> nat \<times> u32) list \<Rightarrow> md5_regs \<Rightarrow>
  (md5_regs \<Rightarrow> 'r) \<Rightarrow> 'r"
where
  "md5_run [] r cont = cont r"
| "md5_run ((F, x, s, ac) # ks) (a, b, c, d) cont =
     (let a' = F a b c d x s ac in md5_run ks (d, a', b, c) cont)"

lemma md5_transform_run:
  assumes "x = md5_decode block 64"
  shows "md5_transform h block = md5_run
      [(md5_FF, x ! 0, S11, 0xd76aa478),
       (md5_FF, x ! 1, S12, 0xe8c7b756),
       (md5_FF, x ! 2, S13, 0x242070db),
       (md5_FF, x ! 3, S14, 0xc1bdceee),
       (md5_FF, x ! 4, S11, 0xf57c0faf),
       (md5_FF, x ! 5, S12, 0x4787c62a),
       (md5_FF, x ! 6, S13, 0xa8304613),
       (md5_FF, x ! 7, S14, 0xfd469501),
       (md5_FF, x ! 8, S11, 0x698098d8),
       (md5_FF, x ! 9, S12, 0x8b44f7af),
       (md5_FF, x ! 10, S13, 0xffff5bb1),
       (md5_FF, x ! 11, S14, 0x895cd7be),
       (md5_FF, x ! 12, S11, 0x6b901122),
       (md5_FF, x ! 13, S12, 0xfd987193),
       (md5_FF, x ! 14, S13, 0xa679438e),
       (md5_FF, x ! 15, S14, 0x49b40821),
       (md5_GG, x ! 1, S21, 0xf61e2562),
       (md5_GG, x ! 6, S22, 0xc040b340),
       (md5_GG, x ! 11, S23, 0x265e5a51),
       (md5_GG, x ! 0, S24, 0xe9b6c7aa),
       (md5_GG, x ! 5, S21, 0xd62f105d),
       (md5_GG, x ! 10, S22, 0x2441453),
       (md5_GG, x ! 15, S23, 0xd8a1e681),
       (md5_GG, x ! 4, S24, 0xe7d3fbc8),
       (md5_GG, x ! 9, S21, 0x21e1cde6),
       (md5_GG, x ! 14, S22, 0xc33707d6),
       (md5_GG, x ! 3, S23, 0xf4d50d87),
       (md5_GG, x ! 8, S24, 0x455a14ed),
       (md5_GG, x ! 13, S21, 0xa9e3e905),
       (md5_GG, x ! 2, S22, 0xfcefa3f8),
       (md5_GG, x ! 7, S23, 0x676f02d9),
       (md5_GG, x ! 12, S24, 0x8d2a4c8a),
       (md5_HH, x ! 5, S31, 0xfffa3942),
       (md5_HH, x ! 8, S32, 0x8771f681),
       (md5_HH, x ! 11, S33, 0x6d9d6122),
       (md5_HH, x ! 14, S34, 0xfde5380c),
       (md5_HH, x ! 1, S31, 0xa4beea44),
       (md5_HH, x ! 4, S32, 0x4bdecfa9),
       (md5_HH, x ! 7, S33, 0xf6bb4b60),
       (md5_HH, x ! 10, S34, 0xbebfbc70),
       (md5_HH, x ! 13, S31, 0x289b7ec6),
       (md5_HH, x ! 0, S32, 0xeaa127fa),
       (md5_HH, x ! 3, S33, 0xd4ef3085),
       (md5_HH, x ! 6, S34, 0x4881d05),
       (md5_HH, x ! 9, S31, 0xd9d4d039),
       (md5_HH, x ! 12, S32, 0xe6db99e5),
       (md5_HH, x ! 15, S33, 0x1fa27cf8),
       (md5_HH, x ! 2, S34, 0xc4ac5665),
       (md5_II, x ! 0, S41, 0xf4292244),
       (md5_II, x ! 7, S42, 0x432aff97),
       (md5_II, x ! 14, S43, 0xab9423a7),
       (md5_II, x ! 5, S44, 0xfc93a039),
       (md5_II, x ! 12, S41, 0x655b59c3),
       (md5_II, x ! 3, S42, 0x8f0ccc92),
       (md5_II, x ! 10, S43, 0xffeff47d),
       (md5_II, x ! 1, S44, 0x85845dd1),
       (md5_II, x ! 8, S41, 0x6fa87e4f),
       (md5_II, x ! 15, S42, 0xfe2ce6e0),
       (md5_II, x ! 6, S43, 0xa3014314),
       (md5_II, x ! 13, S44, 0x4e0811a1),
       (md5_II, x ! 4, S41, 0xf7537e82),
       (md5_II, x ! 11, S42, 0xbd3af235),
       (md5_II, x ! 2, S43, 0x2ad7d2bb),
       (md5_II, x ! 9, S44, 0xeb86d391)]
      (h ! 0, h ! 1, h ! 2, h ! 3) (\<lambda>(a, b, c, d). [h ! 0 + a, h ! 1 + b, h ! 2 + c, h ! 3 + d])"
  unfolding md5_transform_def md5_run.simps prod.case assms [symmetric]
    Let_def [of "h ! 0"] Let_def [of "h ! 1"] Let_def [of "h ! 2"] Let_def [of "h ! 3"] Let_def [of x]
  by (rule refl)

lemma upt_64: "[0..<64] =
    [0, 1, 2, 3, 4, 5, 6, 7, 8, 9, 10, 11, 12, 13, 14, 15,
     16, 17, 18, 19, 20, 21, 22, 23, 24, 25, 26, 27, 28, 29, 30, 31,
     32, 33, 34, 35, 36, 37, 38, 39, 40, 41, 42, 43, 44, 45, 46, 47,
     48, 49, 50, 51, 52, 53, 54, 55, 56, 57, 58, 59, 60, 61, 62, 63]"
  by (simp add: upt_conv_Cons)

definition md5_fun :: "nat \<Rightarrow> u32 \<Rightarrow> u32 \<Rightarrow> u32 \<Rightarrow> u32 \<Rightarrow> u32 \<Rightarrow> nat \<Rightarrow> u32 \<Rightarrow> u32" where
  "md5_fun i = (if i < 16 then md5_FF else if i < 32 then md5_GG else if i < 48 then md5_HH else md5_II)"

definition md5_entry :: "u32 list \<Rightarrow> nat \<Rightarrow>
  (u32 \<Rightarrow> u32 \<Rightarrow> u32 \<Rightarrow> u32 \<Rightarrow> u32 \<Rightarrow> nat \<Rightarrow> u32 \<Rightarrow> u32) \<times> u32 \<times> nat \<times> u32"
where
  "md5_entry x i = (md5_fun i, x ! rfc_k i, rfc_s i, rfc_T ! i)"

lemma md5_program:
  "[(md5_FF, x ! 0, S11, 0xd76aa478),
       (md5_FF, x ! 1, S12, 0xe8c7b756),
       (md5_FF, x ! 2, S13, 0x242070db),
       (md5_FF, x ! 3, S14, 0xc1bdceee),
       (md5_FF, x ! 4, S11, 0xf57c0faf),
       (md5_FF, x ! 5, S12, 0x4787c62a),
       (md5_FF, x ! 6, S13, 0xa8304613),
       (md5_FF, x ! 7, S14, 0xfd469501),
       (md5_FF, x ! 8, S11, 0x698098d8),
       (md5_FF, x ! 9, S12, 0x8b44f7af),
       (md5_FF, x ! 10, S13, 0xffff5bb1),
       (md5_FF, x ! 11, S14, 0x895cd7be),
       (md5_FF, x ! 12, S11, 0x6b901122),
       (md5_FF, x ! 13, S12, 0xfd987193),
       (md5_FF, x ! 14, S13, 0xa679438e),
       (md5_FF, x ! 15, S14, 0x49b40821),
       (md5_GG, x ! 1, S21, 0xf61e2562),
       (md5_GG, x ! 6, S22, 0xc040b340),
       (md5_GG, x ! 11, S23, 0x265e5a51),
       (md5_GG, x ! 0, S24, 0xe9b6c7aa),
       (md5_GG, x ! 5, S21, 0xd62f105d),
       (md5_GG, x ! 10, S22, 0x2441453),
       (md5_GG, x ! 15, S23, 0xd8a1e681),
       (md5_GG, x ! 4, S24, 0xe7d3fbc8),
       (md5_GG, x ! 9, S21, 0x21e1cde6),
       (md5_GG, x ! 14, S22, 0xc33707d6),
       (md5_GG, x ! 3, S23, 0xf4d50d87),
       (md5_GG, x ! 8, S24, 0x455a14ed),
       (md5_GG, x ! 13, S21, 0xa9e3e905),
       (md5_GG, x ! 2, S22, 0xfcefa3f8),
       (md5_GG, x ! 7, S23, 0x676f02d9),
       (md5_GG, x ! 12, S24, 0x8d2a4c8a),
       (md5_HH, x ! 5, S31, 0xfffa3942),
       (md5_HH, x ! 8, S32, 0x8771f681),
       (md5_HH, x ! 11, S33, 0x6d9d6122),
       (md5_HH, x ! 14, S34, 0xfde5380c),
       (md5_HH, x ! 1, S31, 0xa4beea44),
       (md5_HH, x ! 4, S32, 0x4bdecfa9),
       (md5_HH, x ! 7, S33, 0xf6bb4b60),
       (md5_HH, x ! 10, S34, 0xbebfbc70),
       (md5_HH, x ! 13, S31, 0x289b7ec6),
       (md5_HH, x ! 0, S32, 0xeaa127fa),
       (md5_HH, x ! 3, S33, 0xd4ef3085),
       (md5_HH, x ! 6, S34, 0x4881d05),
       (md5_HH, x ! 9, S31, 0xd9d4d039),
       (md5_HH, x ! 12, S32, 0xe6db99e5),
       (md5_HH, x ! 15, S33, 0x1fa27cf8),
       (md5_HH, x ! 2, S34, 0xc4ac5665),
       (md5_II, x ! 0, S41, 0xf4292244),
       (md5_II, x ! 7, S42, 0x432aff97),
       (md5_II, x ! 14, S43, 0xab9423a7),
       (md5_II, x ! 5, S44, 0xfc93a039),
       (md5_II, x ! 12, S41, 0x655b59c3),
       (md5_II, x ! 3, S42, 0x8f0ccc92),
       (md5_II, x ! 10, S43, 0xffeff47d),
       (md5_II, x ! 1, S44, 0x85845dd1),
       (md5_II, x ! 8, S41, 0x6fa87e4f),
       (md5_II, x ! 15, S42, 0xfe2ce6e0),
       (md5_II, x ! 6, S43, 0xa3014314),
       (md5_II, x ! 13, S44, 0x4e0811a1),
       (md5_II, x ! 4, S41, 0xf7537e82),
       (md5_II, x ! 11, S42, 0xbd3af235),
       (md5_II, x ! 2, S43, 0x2ad7d2bb),
       (md5_II, x ! 9, S44, 0xeb86d391)] =
   map (md5_entry x) [0..<64]"
  unfolding upt_64 list.map
  by (simp add: md5_entry_def md5_fun_def rfc_k_def rfc_s_def rfc_T_def
      S11_def S12_def S13_def S14_def S21_def S22_def S23_def S24_def S31_def S32_def S33_def S34_def S41_def S42_def S43_def S44_def)

lemma rfc_s_bounds: "i < 64 \<Longrightarrow> 0 < rfc_s i \<and> rfc_s i < 32"
proof -
  have "\<forall>i \<in> set [0..<64]. 0 < rfc_s i \<and> rfc_s i < 32"
    unfolding upt_64 by (simp add: rfc_s_def)
  then show "i < 64 \<Longrightarrow> 0 < rfc_s i \<and> rfc_s i < 32"
    by simp
qed

lemma md5_rotate_left_eq: "0 < n \<Longrightarrow> n < 32 \<Longrightarrow> md5_rotate_left x n = word_rotl n x"
  using rotl_shifts [of n x] by (simp add: md5_rotate_left_def)

lemma md5_fun_eq:
  "md5_fun i a b c d x s ac = md5_rotate_left (a + (rfc_f i b c d + x + ac)) s + b"
  by (simp add: md5_fun_def rfc_f_def md5_FF_def md5_GG_def md5_HH_def md5_II_def
      md5_F_def md5_G_def md5_H_def md5_I_def)

lemma md5_run_Cons:
  "i < 64 \<Longrightarrow> md5_run (md5_entry x i # ks) r cont = md5_run ks (rfc_step x r i) cont"
  by (cases r) (simp add: md5_entry_def md5_fun_eq md5_rotate_left_eq rfc_s_bounds algebra_simps)

lemma md5_run_foldl:
  "list_all (\<lambda>i. i < 64) is \<Longrightarrow> md5_run (map (md5_entry x) is) r cont = cont (foldl (rfc_step x) r is)"
  by (induction "is" arbitrary: r) (simp_all add: md5_run_Cons del: md5_run.simps(2))

lemma md5_decode_block: "md5_decode block 64 = map (\<lambda>i. ReadLE32 (drop (4 * i) block)) [0..<16]"
  if "64 \<le> length block"
  using that by (simp add: md5_decode_def ReadLE32_def)

lemma md5_transform_compress: "64 \<le> length block \<Longrightarrow> md5_transform h block = rfc_compress h block"
proof -
  assume len: "64 \<le> length block"
  have "list_all (\<lambda>i. i < 64) [0..<64]"
    by (simp add: list_all_length del: upt_rec_numeral)
  then show ?thesis
    unfolding md5_transform_run [OF refl] md5_program rfc_compress_def md5_decode_block [OF len]
    by (subst md5_run_foldl) (auto simp del: upt_rec_numeral split: prod.splits)
qed

subsection \<open>Streaming\<close>

lemma md5_absorb: "absorb 64 md5_transform s m = absorb 64 rfc_compress s m"
proof (induction "length m" arbitrary: m s rule: less_induct)
  case less
  show ?case
    by (subst (1 2) absorb.simps) (simp add: less md5_transform_compress)
qed

lemma rfc_compress_take: "64 \<le> length d \<Longrightarrow> rfc_compress s (take 64 d) = rfc_compress s d"
proof -
  assume "64 \<le> length d"
  then have "map (\<lambda>i. ReadLE32 (drop (4 * i) (take 64 d))) [0..<16] = map (\<lambda>i. ReadLE32 (drop (4 * i) d)) [0..<16]"
    by (auto simp: ReadLE32_def)
  then show ?thesis
    unfolding rfc_compress_def by (simp only:)
qed

lemma md5_transform_take: "64 \<le> length d \<Longrightarrow> md5_transform s (take 64 d) = md5_transform s d"
  by (simp add: md5_transform_compress rfc_compress_take)

interpretation md5_stream: block_hasher 64 md5_transform "block_Write 64 md5_transform"
  by unfold_locales (simp_all add: md5_transform_take)

text \<open>What a context that is not finalized has absorbed; the bit count is kept in two words.\<close>

definition md5_count :: "nat \<Rightarrow> u32 list" where
  "md5_count n = [of_nat (8 * n), of_nat (8 * n div 2 ^ 32)]"

definition md5_absorbed :: "u32 list \<Rightarrow> MD5 \<Rightarrow> byte list \<Rightarrow> bool" where
  "md5_absorbed iv ctx m \<longleftrightarrow>
     \<not> m_finalized ctx \<and> length (m_buffer ctx) = 64 \<and> m_count ctx = md5_count (length m) \<and>
     m_state ctx = absorb 64 md5_transform iv m \<and>
     take (length m mod 64) (m_buffer ctx) = drop (length m - length m mod 64) m"

lemma unat_lt2p_32: "unat (x :: u32) < 2 ^ 32"
  using unsigned_less [of x] by simp

lemma mod_add_carry:
  "a < M \<Longrightarrow> b < M \<Longrightarrow> (a + b) mod M < b \<longleftrightarrow> M \<le> a + b" for a b M :: nat
  by (cases "M \<le> a + b") (simp_all add: le_mod_geq)

lemma md5_count_add:
  assumes "N = unat il"
  shows "(of_nat (8 * n) :: u32) + push_bit 3 il = of_nat (8 * (n + N))" (is ?A)
    and "(if (of_nat (8 * n) :: u32) + push_bit 3 il < push_bit 3 il then of_nat (8 * n div 2 ^ 32) + 1
          else of_nat (8 * n div 2 ^ 32)) + drop_bit 29 il = (of_nat (8 * (n + N) div 2 ^ 32) :: u32)" (is ?B)
proof -
  have il: "push_bit 3 il = (of_nat (8 * N) :: u32)"
    by (simp add: assms push_bit_eq_mult)
  then show ?A
    by (simp add: algebra_simps)
  have c: "(of_nat (8 * n) :: u32) + of_nat (8 * N) < of_nat (8 * N) \<longleftrightarrow>
      2 ^ 32 \<le> 8 * n mod 2 ^ 32 + 8 * N mod 2 ^ 32"
    unfolding word_less_nat_alt of_nat_add [symmetric] unat_of_nat
    using mod_add_carry [of "8 * n mod 2 ^ 32" "2 ^ 32" "8 * N mod 2 ^ 32"] by (simp add: mod_add_eq)
  have "drop_bit 29 il = (of_nat (8 * N div 2 ^ 32) :: u32)"
    by (simp add: assms drop_bit_eq_div word_arith_nat_div)
  moreover have "8 * (n + N) div 2 ^ 32 = 8 * n div 2 ^ 32 + 8 * N div 2 ^ 32 +
      (8 * n mod 2 ^ 32 + 8 * N mod 2 ^ 32) div 2 ^ 32"
    using div_add1_eq [of "8 * n" "8 * N" "2 ^ 32"] by (simp add: algebra_simps)
  moreover have "(8 * n mod 2 ^ 32 + 8 * N mod 2 ^ 32) div 2 ^ 32 =
      (if 2 ^ 32 \<le> 8 * n mod 2 ^ 32 + 8 * N mod 2 ^ 32 then 1 else 0 :: nat)"
    by auto
  ultimately show ?B
    unfolding il c by (simp del: of_nat_mult)
qed

lemma md5_buffer_index: "unat (drop_bit 3 (md5_count n ! 0) AND 0x3F) = n mod 64"
proof -
  have "drop_bit 3 (md5_count n ! 0) AND 0x3F = take_bit 6 (drop_bit 3 (md5_count n ! 0))"
    by (simp add: take_bit_eq_mask mask_eq_exp_minus_1)
  then have "unat (drop_bit 3 (md5_count n ! 0) AND 0x3F) = (8 * n mod 2 ^ 32) div 8 mod 64"
    by (simp add: md5_count_def unsigned_take_bit_eq unat_drop_bit_eq unat_of_nat drop_bit_eq_div take_bit_eq_mod
        unat_div unat_mod del: of_nat_mult)
  also have "\<dots> = n mod 64"
    using mod_mult_mult1 [of 8 n "2 ^ 29"] mod_mod_cancel [of 64 "2 ^ 29" n] by simp
  finally show ?thesis .
qed

text \<open>The block loop returns, at the last block boundary, if its counter cannot wrap.\<close>

lemma md5_blocks_result:
  assumes "unat il \<le> length input" and "unat il \<le> 2 ^ 32 - 64" and "k \<le> unat il"
  shows "md5_blocks input il (of_nat k) s =
    Some (of_nat (unat il - (unat il - k) mod 64), absorb 64 md5_transform s (drop k (take (unat il) input)))"
  using assms(3)
proof (induction "unat il - k" arbitrary: k s rule: less_induct)
  case less
  have k: "unat (of_nat k :: u32) = k" "unat (of_nat k + 63 :: u32) = k + 63"
    using less.prems assms(2) by (simp_all add: unat_of_nat unat_word_ariths)
  show ?case
  proof (cases "k + 63 < unat il")
    case True
    have "md5_blocks input il (of_nat k) s = md5_blocks input il (of_nat (k + 64)) (md5_transform s (drop k input))"
      using True by (subst md5_blocks.simps) (simp add: word_less_nat_alt k add.commute)
    also have "\<dots> = Some (of_nat (unat il - (unat il - (k + 64)) mod 64),
        absorb 64 md5_transform (md5_transform s (drop k input)) (drop (k + 64) (take (unat il) input)))"
      using True by (intro less.hyps) auto
    also have "(unat il - (k + 64)) mod 64 = (unat il - k) mod 64"
      using True by (simp add: le_mod_geq)
    also have "md5_transform s (drop k input) = md5_transform s (drop k (take (unat il) input))"
      using md5_transform_take [of "drop k input" s] md5_transform_take [of "drop k (take (unat il) input)" s]
        True assms(1) by (simp add: drop_take min.absorb1)
    also have "absorb 64 md5_transform (md5_transform s (drop k (take (unat il) input))) (drop (k + 64) (take (unat il) input))
        = absorb 64 md5_transform s (drop k (take (unat il) input))"
      using True assms(1) by (subst (2) absorb.simps) (simp add: add.commute le_diff_conv2)
    finally show ?thesis .
  next
    case False
    then show ?thesis
      using less.prems assms(1)
      by (subst md5_blocks.simps) (simp add: word_less_nat_alt k absorb_short)
  qed
qed

lemma md5_absorbed_aligned:
  assumes "\<not> m_finalized ctx" and "length b = 64" and "length t = q" and "length m mod 64 = q"
    and "s = absorb 64 md5_transform iv m" and "drop (length m - q) m = t"
  shows "md5_absorbed iv (ctx\<lparr>m_count := md5_count (length m), m_state := s, m_buffer := mem_copy b 0 t\<rparr>) m"
proof -
  have "q < 64"
    using assms(4) by auto
  then show ?thesis
    using assms by (simp add: md5_absorbed_def mem_copy_def)
qed

lemma md5_absorbed_short:
  assumes "md5_absorbed iv ctx m" and "length m mod 64 + length d < 64"
  shows "md5_absorbed iv (ctx\<lparr>m_count := md5_count (length (m @ d)),
    m_buffer := mem_copy (m_buffer ctx) (length m mod 64) d\<rparr>) (m @ d)"
  using assms md5_stream.absorb_keep [OF assms(2), of iv]
  by (simp add: md5_absorbed_def mem_copy_def)

text \<open>The index into the buffer and the bit counter that \<^verbatim>\<open>update\<close> computes first.\<close>

lemma md5_update_pre:
  assumes "md5_absorbed iv ctx m"
  shows "unat (drop_bit 3 (m_count ctx ! 0) AND (0x3F :: u32)) = length m mod 64"
    and "unat (64 - (drop_bit 3 (m_count ctx ! 0) AND (0x3F :: u32))) = 64 - length m mod 64"
    and "unat il \<le> length input \<Longrightarrow> [m_count ctx ! 0 + push_bit 3 il,
      (if m_count ctx ! 0 + push_bit 3 il < push_bit 3 il then m_count ctx ! 1 + 1 else m_count ctx ! 1)
        + drop_bit 29 il] = md5_count (length (m @ take (unat il) input))"
proof -
  show 1: "unat (drop_bit 3 (m_count ctx ! 0) AND (0x3F :: u32)) = length m mod 64"
    using assms md5_buffer_index by (simp add: md5_absorbed_def)
  then show "unat (64 - (drop_bit 3 (m_count ctx ! 0) AND (0x3F :: u32))) = 64 - length m mod 64"
    by (simp add: unat_sub word_le_nat_alt less_imp_le)
  show "[m_count ctx ! 0 + push_bit 3 il,
      (if m_count ctx ! 0 + push_bit 3 il < push_bit 3 il then m_count ctx ! 1 + 1 else m_count ctx ! 1)
        + drop_bit 29 il] = md5_count (length (m @ take (unat il) input))" if "unat il \<le> length input"
    using assms that md5_count_add [OF refl, of "length m" il]
    by (simp only: md5_absorbed_def md5_count_def nth_Cons_0 One_nat_def nth_Cons_Suc length_append length_take
        min.absorb2)
qed

lemma md5_update_long:
  assumes "md5_absorbed iv ctx m" and "unat il \<le> length input" and "unat il \<le> 2 ^ 32 - 64"
    and True: "64 - length m mod 64 \<le> unat il"
  shows "\<exists>ctx'. md5_update ctx input il = Some ctx' \<and> md5_absorbed iv ctx' (m @ take (unat il) input)"
proof -
  let ?r = "length m mod 64" and ?d = "take (unat il) input"
  define bi where "bi = drop_bit 3 (m_count ctx ! 0) AND (0x3F :: u32)"
  note bi = md5_update_pre(1) [OF assms(1), folded bi_def] and bs = md5_update_pre(2) [OF assms(1), folded bi_def]
    and cnt = md5_update_pre(3) [OF assms(1,2)]
  have buf: "length (m_buffer ctx) = 64" and tail: "take ?r (m_buffer ctx) = drop (length m - ?r) m"
    and st: "m_state ctx = absorb 64 md5_transform iv m" and nf: "\<not> m_finalized ctx"
    using assms(1) by (simp_all add: md5_absorbed_def)
  define d1 where "d1 = take (64 - ?r) input"
  let ?d2 = "drop (64 - ?r) ?d"
  have d: "?d = d1 @ ?d2" and d1: "length d1 = 64 - ?r"
    using True assms(2) by (simp_all add: d1_def)
      (metis append_take_drop_id drop_take min.absorb1 take_take)
  note fl = md5_stream.absorb_fill [OF buf tail d1, of iv]
  define q where "q = (unat il - (64 - ?r)) mod 64"
  have blk: "md5_blocks input il (64 - bi) s = Some (of_nat (unat il - q),
      absorb 64 md5_transform s ?d2)" for s
    using md5_blocks_result [OF assms(2,3) True, of s] by (simp add: q_def flip: bs)
  have qL: "q \<le> unat il" "length (m @ ?d) mod 64 = q"
  proof -
    show "q \<le> unat il"
      unfolding q_def using mod_less_eq_dividend [of "unat il - (64 - ?r)" 64] by linarith
    have "length (m @ ?d) = length (m @ d1) + (unat il - (64 - ?r))"
      using True assms(2) d1 by simp
    then show "length (m @ ?d) mod 64 = q"
      unfolding q_def using fl by (metis mod_add_left_eq add_0)
  qed
  have ix: "unat (of_nat (unat il - q) :: u32) = unat il - q"
    using unat_lt2p_32 [of il] by (intro of_nat_inverse [OF refl]) simp
  have rest: "unat (il - of_nat (unat il - q)) = q"
    using qL(1) ix by (metis unat_sub diff_diff_cancel diff_le_self word_le_nat_alt)
  let ?b = "mem_copy (m_buffer ctx) ?r d1" and ?t = "drop (unat il - q) ?d"
  have t: "take q (drop (unat il - q) input) = ?t" "length ?t = q"
    using qL(1) assms(2) by (simp_all add: drop_take)
  let ?ctx = "ctx\<lparr>m_count := md5_count (length (m @ ?d)),
    m_state := absorb 64 md5_transform (md5_transform (m_state ctx) ?b) ?d2, m_buffer := mem_copy ?b 0 ?t\<rparr>"
  have "md5_update ctx input il = Some ?ctx"
    using True nf
    by (simp only: md5_update_def Let_def bi_def [symmetric] cnt bi bs word_le_nat_alt d1_def [symmetric])
      (simp add: blk ix rest t)
  moreover have "absorb 64 md5_transform (md5_transform (m_state ctx) ?b) ?d2 = absorb 64 md5_transform iv (m @ ?d)"
    using fl md5_stream.absorb_append [of "m @ d1" iv ?d2] d by (simp add: st)
  moreover have "drop (length (m @ ?d) - q) (m @ ?d) = ?t"
    using qL(1) assms(2) by simp
  moreover have "length ?b = 64" "q \<le> 64"
    using buf d1 by (simp_all add: less_imp_le q_def)
  ultimately show ?thesis
    using md5_absorbed_aligned [where iv = iv and b = ?b, OF nf _ t(2) qL(2)] by blast
qed

lemma md5_update_short:
  assumes "md5_absorbed iv ctx m" and "unat il \<le> length input"
    and False: "\<not> 64 - length m mod 64 \<le> unat il"
  shows "\<exists>ctx'. md5_update ctx input il = Some ctx' \<and> md5_absorbed iv ctx' (m @ take (unat il) input)"
proof -
  let ?r = "length m mod 64" and ?d = "take (unat il) input"
  define bi where "bi = drop_bit 3 (m_count ctx ! 0) AND (0x3F :: u32)"
  note bi = md5_update_pre(1) [OF assms(1), folded bi_def] and bs = md5_update_pre(2) [OF assms(1), folded bi_def]
    and cnt = md5_update_pre(3) [OF assms(1,2)]
  have nf: "\<not> m_finalized ctx"
    using assms(1) by (simp add: md5_absorbed_def)
  let ?ctx = "ctx\<lparr>m_count := md5_count (length (m @ ?d)), m_buffer := mem_copy (m_buffer ctx) ?r ?d\<rparr>"
  have "md5_update ctx input il = Some ?ctx"
    using False nf
    by (simp only: md5_update_def Let_def bi_def [symmetric] cnt bi bs word_le_nat_alt) simp
  moreover have len: "length ?d = unat il"
    using assms(2) by simp
  moreover have "?r + length ?d < 64"
    using False len by simp
  ultimately show ?thesis
    using md5_absorbed_short [OF assms(1), of ?d] by blast
qed

lemma md5_update_absorbed:
  assumes "md5_absorbed iv ctx m" and "unat il \<le> length input" and "unat il \<le> 2 ^ 32 - 64"
  shows "\<exists>ctx'. md5_update ctx input il = Some ctx' \<and> md5_absorbed iv ctx' (m @ take (unat il) input)"
  using md5_update_long [OF assms] md5_update_short [OF assms(1,2)] by blast

lemma md5_update_finalized: "m_finalized ctx \<Longrightarrow> md5_update ctx input n = Some ctx"
  by (simp add: md5_update_def)

lemma of_nat_halves:
  "(of_nat N :: u32) = ucast (of_nat N :: u64)"
  "(of_nat (N div 2 ^ 32) :: u32) = ucast (drop_bit 32 (of_nat N :: u64))"
  unfolding drop_bit_eq_div [symmetric]
  by (rule bit_word_eqI; auto simp: bit_simps)+

lemma md5_encode_count: "md5_encode (md5_count n) 8 = WriteLE64 (of_nat (8 * n))"
proof -
  let ?x = "of_nat (8 * n) :: u64"
  have lo: "md5_count n ! 0 = ucast ?x" and hi: "md5_count n ! 1 = ucast (drop_bit 32 ?x)"
    using of_nat_halves [of "8 * n"] by (simp_all only: md5_count_def nth_Cons_0 One_nat_def nth_Cons_Suc)
  have "md5_encode (md5_count n) 8 = WriteLE32 (md5_count n ! 0) @ WriteLE32 (md5_count n ! 1)"
    by (simp add: md5_encode_def WriteLE32_def upt_rec)
  also have "\<dots> = WriteLE64 ?x"
    unfolding lo hi WriteLE32_def WriteLE64_def append.simps list.inject
    by (intro conjI refl; rule bit_word_eqI; simp add: bit_simps)
  finally show ?thesis .
qed

lemma length_rfc_compress [simp]: "length (rfc_compress s d) = 4"
  by (simp add: rfc_compress_def split: prod.splits del: upt_rec_numeral)

lemma length_rfc_absorb [simp]: "length s = 4 \<Longrightarrow> length (absorb 64 rfc_compress s m) = 4"
  by (induction "64 :: nat" "rfc_compress" s m rule: absorb.induct) (subst absorb.simps, simp)

lemma md5_encode_state: "length s = 4 \<Longrightarrow> md5_encode s 16 = concat (map WriteLE32 s)"
proof -
  assume "length s = 4"
  then have "s = [s ! 0, s ! 1, s ! 2, s ! 3]"
    by (auto simp: list_eq_iff_nth_eq less_Suc_eq numeral_eq_Suc)
  then obtain a b c d where "s = [a, b, c, d]"
    by blast
  then show ?thesis
    by (simp add: md5_encode_def WriteLE32_def upt_rec)
qed

lemma ucast_32_64: "ucast (ucast n :: u64) = (n :: u32)"
  by (rule bit_word_eqI) (simp add: bit_simps)

lemma md5_padLen:
  assumes "unat (i :: u32) = r" and "r < 64"
  shows "unat (if i < 56 then 56 - i else 120 - i) = 1 + (119 - r) mod 64"
proof (cases "r < 56")
  case True
  then have "unat (56 - i) = 56 - r" "(119 - r) mod 64 = 119 - r - 64"
    using assms by (simp_all add: unat_sub word_le_nat_alt le_mod_geq)
  with True assms show ?thesis by (simp add: word_less_nat_alt)
next
  case False
  then have "unat (120 - i) = 120 - r" "(119 - r) mod 64 = 119 - r"
    using assms by (simp_all add: unat_sub word_le_nat_alt)
  with False assms show ?thesis by (simp add: word_less_nat_alt)
qed

lemma md5_final_absorbed:
  assumes "md5_absorbed iv ctx m" and "length iv = 4"
  shows "\<exists>ctx'. md5_final ctx = Some ctx' \<and> m_digest ctx' = rfc_digest iv m \<and> m_finalized ctx'"
proof -
  let ?i = "drop_bit 3 (m_count ctx ! 0) AND (0x3f :: u32)"
  let ?p = "if ?i < 56 then 56 - ?i else 120 - ?i"
  have cnt: "m_count ctx = md5_count (length m)" and nf: "\<not> m_finalized ctx"
    using assms(1) by (simp_all add: md5_absorbed_def)
  have "unat ?i = length m mod 64"
    by (simp only: cnt md5_buffer_index)
  from md5_padLen [OF this] have pl: "unat ?p = 1 + (119 - length m mod 64) mod 64"
    by simp
  then have pad: "take (unat ?p) (0x80 # replicate 63 0) = md_pad 64 56 (length m)"
    by (simp only: code_pad_64)
  have "unat ?p \<le> 64"
    using pl mod_less_divisor [of 64 "119 - length m mod 64"] by linarith
  then obtain c1 where c1: "md5_update ctx (0x80 # replicate 63 0) ?p = Some c1"
      "md5_absorbed iv c1 (m @ md_pad 64 56 (length m))"
    using md5_update_absorbed [OF assms(1), of ?p "0x80 # replicate 63 0"] by (auto simp only: pad) auto
  let ?bits = "WriteLE64 (of_nat (8 * length m))"
  obtain c2 where c2: "md5_update c1 ?bits 8 = Some c2" "md5_absorbed iv c2 (rfc_pad m)"
    using md5_update_absorbed [OF c1(2), of 8 ?bits] by (auto simp: rfc_pad_def)
  have "m_state c2 = absorb 64 rfc_compress iv (rfc_pad m)"
    using c2(2) by (simp add: md5_absorbed_def md5_absorb)
  then have "md5_encode (m_state c2) 16 = rfc_digest iv m"
    using assms(2) by (simp add: md5_encode_state rfc_digest_def)
  moreover have "md5_encode (m_count ctx) 8 = ?bits"
    by (simp only: cnt md5_encode_count)
  ultimately show ?thesis
    using nf by (simp only: md5_final_def Let_def c1(1) c2(1) option.case if_False) simp
qed

lemma md5_new_absorbed:
  "length b0 = 64 \<Longrightarrow> md5_absorbed [0x67452301, 0xefcdab89, 0x98badcfe, 0x10325476] (MD5_new b0 d0) []"
  by (simp add: md5_absorbed_def MD5_new_def md5_count_def absorb_short)

lemma md5_init_absorbed:
  "length (m_buffer c) = 64 \<Longrightarrow> md5_absorbed [0x67452301, 0xefcdab89, 0x98badcfe, 0x10325476] (md5_init c) []"
  by (simp add: md5_absorbed_def md5_init_def md5_count_def absorb_short)

text \<open>A sequence of calls of \<^verbatim>\<open>update\<close> with whole buffers.\<close>

fun md5_updates :: "MD5 \<Rightarrow> byte list list \<Rightarrow> MD5 option" where
  "md5_updates ctx [] = Some ctx"
| "md5_updates ctx (d # ds) = Option.bind (md5_update ctx d (of_nat (length d))) (\<lambda>c. md5_updates c ds)"

lemma md5_updates_absorbed:
  "md5_absorbed iv ctx m \<Longrightarrow> list_all (\<lambda>d. length d \<le> 2 ^ 32 - 64) ds \<Longrightarrow>
     \<exists>ctx'. md5_updates ctx ds = Some ctx' \<and> md5_absorbed iv ctx' (m @ concat ds)"
proof (induction ds arbitrary: ctx m)
  case (Cons d ds)
  have "unat (of_nat (length d) :: u32) = length d"
    using Cons.prems(2) by (intro of_nat_inverse [OF refl]) simp
  with md5_update_absorbed [OF Cons.prems(1), of "of_nat (length d)" d] Cons.prems(2)
  obtain c where c: "md5_update ctx d (of_nat (length d)) = Some c" "md5_absorbed iv c (m @ d)"
    by auto
  from Cons.IH [OF c(2)] Cons.prems(2) c(1) show ?case
    by simp
qed simp

lemma length_rfc_digest: "length iv = 4 \<Longrightarrow> length (rfc_digest iv m) = 16"
  by (simp add: rfc_digest_def length_concat comp_def sum_list_triv)

lemma md5_whole:
  assumes "md5_absorbed iv ctx []" and "length iv = 4" and "unat n \<le> length input" and "unat n \<le> 2 ^ 32 - 64"
  shows "\<exists>c c'. md5_update ctx input n = Some c \<and> md5_final c = Some c' \<and>
    m_digest c' = rfc_digest iv (take (unat n) input) \<and> m_finalized c'"
  using md5_update_absorbed [OF assms(1,3,4)] md5_final_absorbed [OF _ assms(2)] by fastforce

lemma MD5Result_hex: "length d = 16 \<Longrightarrow> MD5Result d = concat (map hex02x d)"
  unfolding MD5Result_def by (metis map_nth map_map comp_apply map_cong)

subsection \<open>Properties\<close>

text \<open>
  \<^verbatim>\<open>MD5::transform\<close>, with its 64 unrolled steps on permuted registers, is the compression
  function of RFC 1321 on every block of 64 bytes.
\<close>

lemma md5_transform_rfc: "64 \<le> length block \<Longrightarrow> md5_transform h block = rfc_compress h block"
  by (rule md5_transform_compress)

lemma md5_transform_rfc_witness:
  "md5_transform [1, 2, 3, 4] (replicate 64 7) = rfc_compress [1, 2, 3, 4] (replicate 64 7)"
  using md5_transform_rfc [of "replicate 64 7" "[1, 2, 3, 4]"] by simp

text \<open>
  C35. Streaming: on a new context (whatever its uninitialised arrays hold) any sequence of calls of
  \<^verbatim>\<open>update\<close>, each with at most \<open>2 ^ 32 - 64\<close> bytes, and then \<^verbatim>\<open>final\<close>, all return, and
  \<^verbatim>\<open>digest\<close> gives the MD5 digest of all the data; a later \<^verbatim>\<open>update\<close> or \<^verbatim>\<open>final\<close> changes nothing.
\<close>

theorem md5_stream_digest:
  assumes "length b0 = 64" and "list_all (\<lambda>d. length d \<le> 2 ^ 32 - 64) ds"
  shows "\<exists>c c'. md5_updates (MD5_new b0 d0) ds = Some c \<and> md5_final c = Some c' \<and>
    md5_digest c' = rfc_md5 (concat ds) \<and> (\<forall>d n. md5_update c' d n = Some c') \<and> md5_final c' = Some c'"
proof -
  let ?iv = "[0x67452301, 0xefcdab89, 0x98badcfe, 0x10325476] :: u32 list"
  obtain c where c: "md5_updates (MD5_new b0 d0) ds = Some c" "md5_absorbed ?iv c (concat ds)"
    using md5_updates_absorbed [OF md5_new_absorbed [OF assms(1)] assms(2)] by auto
  obtain c' where c': "md5_final c = Some c'" "m_digest c' = rfc_md5 (concat ds)" "m_finalized c'"
    using md5_final_absorbed [OF c(2)] by (auto simp: rfc_md5_def)
  have "length (rfc_md5 (concat ds)) = 16"
    by (simp add: rfc_md5_def length_rfc_digest)
  with c c' show ?thesis
    by (simp add: md5_digest_def md5_update_finalized) (simp add: md5_final_def)
qed

theorem md5_stream_digest_witness:
  "\<exists>c c'. md5_updates (MD5_new (replicate 64 7) []) [[0x61], [0x62, 0x63]] = Some c \<and> md5_final c = Some c' \<and>
    md5_digest c' = rfc_md5 [0x61, 0x62, 0x63]"
  using md5_stream_digest [of "replicate 64 7" "[[0x61], [0x62, 0x63]]" "[]"] by auto

text \<open>
  The one-call wrappers: \<^verbatim>\<open>md5_calc\<close> and \<^verbatim>\<open>md5digest\<close> return the MD5 digest of the first \<open>n\<close> bytes of
  their input, and \<^verbatim>\<open>MD5Encode\<close>, on any context, even a finalized one, the hexadecimal digest of
  its string up to the terminating zero.
\<close>

lemma md5_wrappers:
  assumes "length b0 = 64" and "unat n \<le> length input" and "unat n \<le> 2 ^ 32 - 64"
    and "length (m_buffer ctx) = 64" and "length s \<le> 2 ^ 32 - 64" and "0 \<notin> set s"
  shows "md5_calc b0 d0 input n = Some (rfc_md5 (take (unat n) input)) \<and>
    md5digest b0 d0 input (ucast n) = Some (rfc_md5 (take (unat n) input)) \<and>
    (\<exists>ctx'. MD5Encode ctx (s @ [0]) = Some (concat (map hex02x (rfc_md5 s)), ctx'))"
proof (intro conjI)
  let ?iv = "[0x67452301, 0xefcdab89, 0x98badcfe, 0x10325476] :: u32 list"
  note len = length_rfc_digest [of ?iv, simplified]
  from md5_whole [OF md5_new_absorbed [OF assms(1), of d0] _ assms(2,3)]
  show "md5_calc b0 d0 input n = Some (rfc_md5 (take (unat n) input))"
    and "md5digest b0 d0 input (ucast n) = Some (rfc_md5 (take (unat n) input))"
    using len
    by (auto simp: md5_calc_def md5digest_def MD5Ext_def md5_digest_def rfc_md5_def ucast_32_64)
  have "takeWhile (\<lambda>b. b \<noteq> 0) (s @ [0]) = s"
    using assms(6) by (auto simp: takeWhile_append)
  moreover have "unat (of_nat (length s) :: u32) = length s"
    using assms(5) by (intro of_nat_inverse [OF refl]) simp
  ultimately show "\<exists>ctx'. MD5Encode ctx (s @ [0]) = Some (concat (map hex02x (rfc_md5 s)), ctx')"
    using md5_whole [OF md5_init_absorbed [OF assms(4)], of "of_nat (length s)" "s @ [0]"] assms(5) len
    by (auto simp: MD5Encode_def MD5Result_hex rfc_md5_def)
qed

lemma md5_wrappers_witness:
  "md5_calc (replicate 64 7) [] [0x61, 0x62, 0x63] 3 = Some (rfc_md5 [0x61, 0x62, 0x63]) \<and>
   (\<exists>ctx'. MD5Encode (MD5_new (replicate 64 7) []) [0x61, 0] = Some (concat (map hex02x (rfc_md5 [0x61])), ctx'))"
  using md5_wrappers [of "replicate 64 7" 3 "[0x61, 0x62, 0x63]" "MD5_new (replicate 64 7) []" "[0x61]" "[]"]
  by (simp add: MD5_new_def)

end
