(* ===== verification/Base58.thy ===== *)
theory Base58
  imports Prelude
begin

section \<open>Base58 (util/cryption/base58)\<close>

text \<open>
  \<^verbatim>\<open>EncodeBase58\<close> and \<^verbatim>\<open>DecodeBase58\<close> of \<^verbatim>\<open>base58.cpp\<close> with their wrappers. A C string is the list of its
  characters before the terminating zero. \<open>None\<close> is a failed \<^verbatim>\<open>assert(carry == 0)\<close>, which the theorems
  show never happens: the buffers are large enough. The counters of leading zeroes (\<^verbatim>\<open>int\<close>) and the
  buffer sizes are natural numbers. The specification reads the data as a number.
\<close>

subsection \<open>The code\<close>

definition pszBase58 :: string where
  "pszBase58 = ''123456789ABCDEFGHJKLMNPQRSTUVWXYZabcdefghijkmnopqrstuvwxyz''"

text \<open>\<^verbatim>\<open>strchr\<close> as an offset.\<close>

fun strchr :: "string \<Rightarrow> char \<Rightarrow> nat option" where
  "strchr [] c = None"
| "strchr (x # xs) c = (if x = c then Some 0 else map_option Suc (strchr xs c))"

text \<open>
  The inner loop of both functions: over the digits from the least significant one, it replaces the
  number by \<open>m\<close> times the number plus the carry, in base \<open>b\<close>, and returns the last carry.
\<close>

fun carry_loop :: "nat \<Rightarrow> nat \<Rightarrow> byte list \<Rightarrow> nat \<Rightarrow> byte list \<times> nat" where
  "carry_loop m b [] carry = ([], carry)"
| "carry_loop m b (it # rest) carry =
     (let carry = carry + m * unat it;
          (rest', carry') = carry_loop m b rest (carry div b)
      in (of_nat (carry mod b) # rest', carry'))"

text \<open>The loop over the characters: the buffer is kept most significant digit first.\<close>

fun decode_loop :: "string \<Rightarrow> byte list \<Rightarrow> (bool \<times> string \<times> byte list) option" where
  "decode_loop [] b256 = Some (True, [], b256)"
| "decode_loop (c # psz) b256 =
     (if isspace c then Some (True, c # psz, b256)
      else case strchr pszBase58 c of
        None \<Rightarrow> Some (False, c # psz, b256)
      | Some ch \<Rightarrow>
          (let (ds, carry) = carry_loop 58 256 (rev b256) ch in
           if carry = 0 then decode_loop psz (rev ds) else None))"

definition DecodeBase58 :: "string \<Rightarrow> byte list \<Rightarrow> (bool \<times> byte list) option" where
  "DecodeBase58 psz vch =
     (let psz = dropWhile isspace psz;
          zeroes = length (takeWhile (\<lambda>c. c = CHR ''1'') psz);
          psz = dropWhile (\<lambda>c. c = CHR ''1'') psz;
          b256 = replicate (length psz * 733 div 1000 + 1) 0
      in case decode_loop psz b256 of
           None \<Rightarrow> None
         | Some (ok, psz, b256) \<Rightarrow>
             if \<not> ok then Some (False, vch)
             else let psz = dropWhile isspace psz in
                  if psz \<noteq> [] then Some (False, vch)
                  else Some (True, replicate zeroes 0 @ dropWhile (\<lambda>d. d = 0) b256))"

fun encode_loop :: "byte list \<Rightarrow> byte list \<Rightarrow> byte list option" where
  "encode_loop [] b58 = Some b58"
| "encode_loop (c # pbegin) b58 =
     (let (ds, carry) = carry_loop 256 58 (rev b58) (unat c) in
      if carry = 0 then encode_loop pbegin (rev ds) else None)"

definition EncodeBase58 :: "byte list \<Rightarrow> string option" where
  "EncodeBase58 data =
     (let zeroes = length (takeWhile (\<lambda>d. d = 0) data);
          data = dropWhile (\<lambda>d. d = 0) data;
          b58 = replicate (length data * 138 div 100 + 1) 0
      in map_option (\<lambda>b58. replicate zeroes (CHR ''1'') @
           map (\<lambda>d. pszBase58 ! unat d) (dropWhile (\<lambda>d. d = 0) b58)) (encode_loop data b58))"

definition EncodeBase58_vector :: "byte list \<Rightarrow> string option" where
  "EncodeBase58_vector vch = EncodeBase58 vch"

definition EncodeBase58_length :: "byte list \<Rightarrow> nat \<Rightarrow> string option" where
  "EncodeBase58_length pbegin n = EncodeBase58 (take n pbegin)"

definition DecodeBase58_string :: "string \<Rightarrow> byte list \<Rightarrow> (bool \<times> byte list) option" where
  "DecodeBase58_string str vchRet = DecodeBase58 (takeWhile (\<lambda>c. c \<noteq> CHR 0x00) str) vchRet"

definition DecodeBase58_psz :: "string \<Rightarrow> byte list option" where
  "DecodeBase58_psz psz =
     map_option (\<lambda>(ok, vchRet). if ok then vchRet else []) (DecodeBase58 psz [])"

subsection \<open>The specification: numbers and their digits\<close>

text \<open>Digits are written least significant first; \<open>digits b n\<close> has no leading zero.\<close>

fun lval :: "nat \<Rightarrow> nat list \<Rightarrow> nat" where
  "lval b [] = 0"
| "lval b (d # ds) = d + b * lval b ds"

function digits :: "nat \<Rightarrow> nat \<Rightarrow> nat list" where
  "digits b n = (if n = 0 \<or> b < 2 then [] else n mod b # digits b (n div b))"
  by pat_completeness auto
termination
  by (relation "measure snd") auto

declare digits.simps [simp del]

definition value256 :: "byte list \<Rightarrow> nat" where
  "value256 bs = lval 256 (rev (map unat bs))"

definition char_value :: "char \<Rightarrow> nat" where
  "char_value c = (case strchr pszBase58 c of None \<Rightarrow> 0 | Some i \<Rightarrow> i)"

definition value58 :: "string \<Rightarrow> nat" where
  "value58 s = lval 58 (rev (map char_value s))"

definition base58_spec :: "byte list \<Rightarrow> string" where
  "base58_spec bs = replicate (length (takeWhile (\<lambda>d. d = 0) bs)) (CHR ''1'') @
     map (\<lambda>d. pszBase58 ! d) (rev (digits 58 (value256 bs)))"

definition unbase58_spec :: "string \<Rightarrow> byte list" where
  "unbase58_spec s = replicate (length (takeWhile (\<lambda>c. c = CHR ''1'') s)) 0 @
     map of_nat (rev (digits 256 (value58 s)))"

subsection \<open>Numbers and digits\<close>

lemma lval_append: "lval b (xs @ ys) = lval b xs + b ^ length xs * lval b ys"
  by (induction xs) (simp_all add: algebra_simps)

lemma lval_bound:
  assumes "list_all (\<lambda>d. d < b) ds"
  shows "lval b ds < b ^ length ds"
  using assms
proof (induction ds)
  case (Cons d ds)
  then have "d + b * lval b ds < b * (lval b ds + 1)"
    by simp
  also have "\<dots> \<le> b * b ^ length ds"
    using Cons by (intro mult_le_mono) auto
  finally show ?case by simp
qed simp

lemma digits_lval: "1 < b \<Longrightarrow> lval b (digits b n) = n"
  by (induction b n rule: digits.induct) (subst digits.simps, simp)

lemma digits_less: "1 < b \<Longrightarrow> list_all (\<lambda>d. d < b) (digits b n)"
  by (induction b n rule: digits.induct) (subst digits.simps, simp)

lemma digits_0 [simp]: "digits b 0 = []"
  by (simp add: digits.simps)

lemma digits_step: "0 < n \<Longrightarrow> 1 < b \<Longrightarrow> digits b n = n mod b # digits b (n div b)"
  by (subst digits.simps) simp

text \<open>Stripping the leading zeroes of a digit list gives the digits of its value.\<close>

lemma strip_digits:
  assumes "1 < b" and "list_all (\<lambda>d. d < b) ds"
  shows "dropWhile (\<lambda>d. d = 0) (rev ds) = rev (digits b (lval b ds))"
  using assms(2)
proof (induction ds)
  case Nil
  then show ?case by simp
next
  case (Cons d ds)
  then have IH: "dropWhile (\<lambda>d. d = 0) (rev ds) = rev (digits b (lval b ds))" and d: "d < b"
    by simp_all
  show ?case
  proof (cases "lval b ds = 0")
    case True
    then have "dropWhile (\<lambda>d. d = 0) (rev ds) = []"
      using IH by simp
    then have "\<forall>x \<in> set ds. x = 0"
      by (simp add: dropWhile_eq_Nil_conv)
    then show ?thesis
      using True d assms(1) by (cases "d = 0") (auto simp: dropWhile_append digits_step)
  next
    case False
    then have "digits b (lval b ds) \<noteq> []"
      using assms(1) by (simp add: digits_step)
    then have "dropWhile (\<lambda>d. d = 0) (rev ds) \<noteq> []"
      using IH by simp
    then obtain x where "x \<in> set (rev ds)" "x \<noteq> 0"
      by (auto simp: dropWhile_eq_Nil_conv)
    from dropWhile_append1 [where P = "\<lambda>d. d = 0", OF this, of "[d]"]
    have "dropWhile (\<lambda>d. d = 0) (rev (d # ds)) = rev (digits b (lval b ds)) @ [d]"
      by (simp add: IH)
    moreover have "digits b (d + b * lval b ds) = d # digits b (lval b ds)"
      using False d assms(1) by (simp add: digits_step)
    ultimately show ?thesis by simp
  qed
qed

lemma digits_strip: "1 < b \<Longrightarrow> dropWhile (\<lambda>d. d = 0) (rev (digits b n)) = rev (digits b n)"
  using strip_digits [of b "digits b n"] by (simp add: digits_less digits_lval)

lemma digits_last: "1 < b \<Longrightarrow> digits b n \<noteq> [] \<Longrightarrow> hd (rev (digits b n)) \<noteq> 0"
  using digits_strip [of b n] hd_dropWhile [of "\<lambda>d. d = 0" "rev (digits b n)"] by simp

subsection \<open>The buffer loops\<close>

text \<open>
  A conversion loop works in base \<open>b\<close> and multiplies by \<open>m\<close>; its buffer of \<open>n * p div q + 1\<close> digits is
  sufficient for \<open>n\<close> input digits when \<open>m ^ q \<le> b ^ p\<close>. The contract is shared by the two functions.
\<close>

locale radix_conversion =
  fixes m b p q :: nat
  assumes base: "1 < b" "b \<le> 256" and mult: "1 < m" and ratio: "m ^ q \<le> b ^ p" "0 < q"
begin

abbreviation valid :: "byte list \<Rightarrow> bool" where
  "valid ds \<equiv> list_all (\<lambda>d. unat d < b) ds"

abbreviation num :: "byte list \<Rightarrow> nat" where
  "num ds \<equiv> lval b (map unat ds)"

lemma unat_digit: "unat (of_nat (c mod b) :: byte) = c mod b"
proof (rule of_nat_inverse [OF refl])
  have "c mod b < b"
    using base by simp
  with base(2) show "c mod b < 2 ^ LENGTH(8)"
    by simp
qed

lemma carry_loop_value:
  "carry_loop m b ds c = (ds', c') \<Longrightarrow>
     num ds' + c' * b ^ length ds = m * num ds + c \<and> length ds' = length ds \<and> valid ds'"
proof (induction ds arbitrary: c ds' c')
  case (Cons d ds)
  obtain r c'' where r: "carry_loop m b ds ((c + m * unat d) div b) = (r, c'')"
    by force
  with Cons.prems have ds': "ds' = of_nat ((c + m * unat d) mod b) # r" "c' = c''"
    by (simp_all add: Let_def)
  from Cons.IH [OF r] have IH: "num r + c'' * b ^ length ds = m * num ds + (c + m * unat d) div b"
    "length r = length ds" "valid r" by simp_all
  let ?k = "c + m * unat d"
  have "num ds' + c' * b ^ length (d # ds) = ?k mod b + b * (num r + c'' * b ^ length ds)"
    by (simp add: ds' unat_digit algebra_simps)
  also have "\<dots> = ?k mod b + b * (?k div b) + b * (m * num ds)"
    by (simp only: IH(1)) (simp add: algebra_simps)
  also have "\<dots> = m * num (d # ds) + c"
    by (simp add: algebra_simps)
  finally show ?case
    using IH base by (simp add: ds' unat_digit)
qed simp

lemma carry_zero:
  assumes "carry_loop m b ds c = (ds', c')" and "m * num ds + c < b ^ length ds"
  shows "c' = 0 \<and> num ds' = m * num ds + c \<and> length ds' = length ds \<and> valid ds'"
proof -
  note v = carry_loop_value [OF assms(1)]
  have "c' = 0"
  proof (rule ccontr)
    assume "c' \<noteq> 0"
    then have "b ^ length ds \<le> c' * b ^ length ds"
      by simp
    with v assms(2) show False
      by linarith
  qed
  with v show ?thesis by simp
qed

lemma buffer_sufficient: "m ^ n < b ^ (n * p div q + 1)"
proof -
  have "n * p < (n * p div q + 1) * q"
    using ratio(2) by (metis Suc_eq_plus1 dividend_less_div_times mult.commute mult_Suc)
  then have "b ^ (n * p) < (b ^ (n * p div q + 1)) ^ q"
    using base(1) by (simp only: power_mult [symmetric] power_strict_increasing_iff)
  moreover have "(m ^ n) ^ q \<le> b ^ (n * p)"
    using power_mono [OF ratio(1), of n] by (simp add: power_mult [symmetric] mult.commute)
  ultimately show ?thesis
    by (meson le_less_trans power_less_imp_less_base zero_le)
qed

text \<open>One round keeps the buffer invariant: the number read so far is below \<open>m ^ k\<close>.\<close>

lemma round:
  assumes "num (rev buf) < m ^ k" and "c < m" and "k < n" and "length buf = n * p div q + 1"
    and "carry_loop m b (rev buf) c = (ds, carry)"
  shows "carry = 0 \<and> num ds = m * num (rev buf) + c \<and> length ds = length buf \<and> valid ds \<and> num ds < m ^ Suc k"
proof -
  have "m * num (rev buf) + c < m * (num (rev buf) + 1)"
    using assms(2) by simp
  also have "\<dots> \<le> m ^ Suc k"
    using assms(1) by (simp only: power_Suc) (intro mult_le_mono, auto)
  finally have *: "m * num (rev buf) + c < m ^ Suc k" .
  also have "m ^ Suc k \<le> m ^ n"
    using assms(3) mult by (intro power_increasing) auto
  also have "\<dots> < b ^ length (rev buf)"
    using buffer_sufficient [of n] assms(4) by simp
  finally show ?thesis
    using carry_zero [OF assms(5)] * by simp
qed

end

lemma ratio_encode: "(256::nat) ^ 100 \<le> 58 ^ 138"
  by simp

lemma ratio_decode: "(58::nat) ^ 1000 \<le> 256 ^ 733"
proof -
  have "((58::nat) ^ 1000) ^ Suc 70 = (58 ^ 71) ^ 1000"
    unfolding power_mult [symmetric] by (rule arg_cong [of _ _ "\<lambda>n. 58 ^ n"]) simp
  also have "\<dots> \<le> (256 ^ 52) ^ 1000"
    by (rule power_mono) simp_all
  also have "\<dots> \<le> (256 ^ 733) ^ Suc 70"
    unfolding power_mult [symmetric] by (rule power_increasing) simp_all
  finally show ?thesis
    by (rule power_le_imp_le_base) (rule zero_le)
qed

interpretation enc: radix_conversion 256 58 138 100
  by unfold_locales (rule ratio_encode | simp)+

interpretation dec: radix_conversion 58 256 733 1000
  by unfold_locales (rule ratio_decode | simp)+

subsection \<open>Leading zeroes\<close>

lemma takeWhile_0_replicate: "takeWhile (\<lambda>d. d = 0) xs = replicate (length (takeWhile (\<lambda>d. d = 0) xs)) 0"
  by (induction xs) auto

lemma canon_split:
  assumes "1 < b" and "list_all (\<lambda>d. d < b) xs"
  shows "replicate (length (takeWhile (\<lambda>d. d = 0) xs)) 0 @ rev (digits b (lval b (rev xs))) = xs"
  using strip_digits [of b "rev xs"] assms takeWhile_dropWhile_id [of "\<lambda>d. d = 0" xs] takeWhile_0_replicate [of xs]
  by simp

lemma canon_zeros:
  assumes "1 < b"
  shows "length (takeWhile (\<lambda>d. d = 0) (replicate z 0 @ rev (digits b v))) = z"
proof (cases "digits b v = []")
  case False
  then obtain d ds where "rev (digits b v) = d # ds" "d \<noteq> 0"
    using digits_last [OF assms] by (metis list.exhaust_sel rev_is_Nil_conv)
  moreover have "takeWhile (\<lambda>d. d = 0) (replicate z 0 @ d # ds) = replicate z 0" if "d \<noteq> 0"
    using that by (induction z) simp_all
  ultimately show ?thesis
    by simp
qed (simp add: takeWhile_append2)

lemma lval_zeros: "lval b (replicate n 0) = 0"
  by (induction n) simp_all

lemma canon_value: "1 < b \<Longrightarrow> lval b (rev (replicate z 0 @ rev (digits b v))) = v"
  by (simp add: lval_append lval_zeros digits_lval)

lemma lval_dropWhile: "lval b (rev (dropWhile (\<lambda>d. d = 0) xs)) = lval b (rev xs)"
proof -
  have "lval b (rev (replicate (length (takeWhile (\<lambda>d. d = 0) xs)) 0 @ dropWhile (\<lambda>d. d = 0) xs)) =
      lval b (rev (dropWhile (\<lambda>d. d = 0) xs))"
    by (simp add: lval_append lval_zeros)
  then show ?thesis
    by (simp flip: takeWhile_0_replicate)
qed

lemma map_unat_dropWhile: "map unat (dropWhile (\<lambda>d. d = 0) bs) = dropWhile (\<lambda>d. d = 0) (map unat bs)"
  by (induction bs) (simp_all add: unat_eq_0)

lemma length_takeWhile_unat: "length (takeWhile (\<lambda>d. d = 0) (map unat bs)) = length (takeWhile (\<lambda>d. d = 0) bs)"
  by (induction bs) (simp_all add: unat_eq_0)

subsection \<open>The alphabet\<close>

lemma strchr_Some: "strchr xs c = Some i \<Longrightarrow> i < length xs \<and> xs ! i = c"
  by (induction xs arbitrary: i) (auto split: if_splits)

lemma strchr_None: "strchr xs c = None \<longleftrightarrow> c \<notin> set xs"
  by (induction xs) auto

lemma strchr_nth: "distinct xs \<Longrightarrow> i < length xs \<Longrightarrow> strchr xs (xs ! i) = Some i"
  by (induction xs arbitrary: i) (auto simp: nth_Cons split: nat.splits)

lemma alphabet: "length pszBase58 = 58" "distinct pszBase58" "pszBase58 ! 0 = CHR ''1''"
  by (simp_all add: pszBase58_def)

lemma alphabet_nospace: "c \<in> set pszBase58 \<Longrightarrow> \<not> isspace c"
proof -
  have "list_all (\<lambda>c. \<not> isspace c) pszBase58"
    by (simp add: pszBase58_def isspace_def Let_def)
  then show "c \<in> set pszBase58 \<Longrightarrow> \<not> isspace c"
    by (simp add: list_all_iff)
qed

lemma char_value:
  assumes "c \<in> set pszBase58"
  shows "strchr pszBase58 c = Some (char_value c)" "char_value c < 58" "pszBase58 ! char_value c = c"
proof -
  obtain i where i: "strchr pszBase58 c = Some i"
    using assms strchr_None [of pszBase58 c] by auto
  then show "strchr pszBase58 c = Some (char_value c)" "char_value c < 58" "pszBase58 ! char_value c = c"
    using strchr_Some [OF i] by (simp_all add: char_value_def alphabet)
qed

lemma char_value_nth: "d < 58 \<Longrightarrow> char_value (pszBase58 ! d) = d"
  by (simp add: char_value_def strchr_nth alphabet)

lemma char_value_0: "c \<in> set pszBase58 \<Longrightarrow> char_value c = 0 \<longleftrightarrow> c = CHR ''1''"
  using char_value(3) [of c] char_value_nth [of 0] by (auto simp: alphabet)

lemma char_value_1 [simp]: "char_value (CHR ''1'') = 0"
  using char_value_nth [of 0] by (simp add: alphabet)

subsection \<open>The loops compute the number\<close>

lemma value256_Cons: "value256 (c # bs) = unat c * 256 ^ length bs + value256 bs"
  by (simp add: value256_def lval_append)

lemma value58_Cons: "value58 (c # s) = char_value c * 58 ^ length s + value58 s"
  by (simp add: value58_def lval_append)

lemma encode_loop_result:
  assumes "enc.num (rev buf) < 256 ^ k" and "k + length bs \<le> n" and "length buf = n * 138 div 100 + 1"
    and "enc.valid buf"
  shows "\<exists>buf'. encode_loop bs buf = Some buf' \<and> enc.valid buf' \<and>
    enc.num (rev buf') = enc.num (rev buf) * 256 ^ length bs + value256 bs"
  using assms
proof (induction bs arbitrary: buf k)
  case Nil
  then show ?case by (simp add: value256_def)
next
  case (Cons c bs)
  obtain ds carry where l: "carry_loop 256 58 (rev buf) (unat c) = (ds, carry)"
    by force
  from enc.round [OF Cons.prems(1) unat_byte_less _ Cons.prems(3) l] Cons.prems(2)
  have ds: "carry = 0" "enc.num ds = 256 * enc.num (rev buf) + unat c" "length ds = length buf" "enc.valid ds"
    "enc.num ds < 256 ^ Suc k" by simp_all
  obtain buf' where "encode_loop bs (rev ds) = Some buf'" "enc.valid buf'"
      "enc.num (rev buf') = enc.num ds * 256 ^ length bs + value256 bs"
    using Cons.IH [of "rev ds" "Suc k"] ds Cons.prems by auto
  then show ?case
    by (simp add: l ds(1) value256_Cons ds(2) algebra_simps)
qed

lemma decode_loop_result:
  assumes "dec.num (rev buf) < 58 ^ k" and "k + length s \<le> n" and "length buf = n * 733 div 1000 + 1"
  shows "\<exists>ok rest buf'. decode_loop s buf = Some (ok, rest, buf') \<and>
    (ok \<longleftrightarrow> set (takeWhile (\<lambda>c. \<not> isspace c) s) \<subseteq> set pszBase58) \<and>
    (ok \<longrightarrow> rest = dropWhile (\<lambda>c. \<not> isspace c) s \<and> dec.num (rev buf') =
       dec.num (rev buf) * 58 ^ length (takeWhile (\<lambda>c. \<not> isspace c) s) + value58 (takeWhile (\<lambda>c. \<not> isspace c) s))"
  using assms
proof (induction s arbitrary: buf k)
  case Nil
  then show ?case by (auto simp: value58_def)
next
  case (Cons c s)
  consider "isspace c" | "\<not> isspace c" "c \<notin> set pszBase58" | "c \<in> set pszBase58" by blast
  then show ?case
  proof cases
    case 3
    obtain ds carry where l: "carry_loop 58 256 (rev buf) (char_value c) = (ds, carry)"
      by force
    from dec.round [OF Cons.prems(1) char_value(2) [OF 3] _ Cons.prems(3) l] Cons.prems(2)
    have ds: "carry = 0" "dec.num ds = 58 * dec.num (rev buf) + char_value c" "length ds = length buf"
      "dec.num ds < 58 ^ Suc k" by simp_all
    then show ?thesis
      using Cons.IH [of "rev ds" "Suc k"] Cons.prems alphabet_nospace [OF 3] 3
      by (simp add: l char_value value58_Cons algebra_simps)
  next
    case 1
    then show ?thesis by (auto simp: value58_def)
  next
    case 2
    then show ?thesis using strchr_None [of pszBase58 c] by auto
  qed
qed

text \<open>\<^verbatim>\<open>EncodeBase58\<close> never fails its assertion and returns the specified string.\<close>

lemma EncodeBase58_correct: "EncodeBase58 bs = Some (base58_spec bs)"
proof -
  let ?d = "dropWhile (\<lambda>d. d = 0) bs"
  let ?buf = "replicate (length ?d * 138 div 100 + 1) 0 :: byte list"
  have "enc.num (rev ?buf) = 0"
    by (simp only: rev_replicate map_replicate unsigned_0 lval_zeros)
  then obtain buf' where b: "encode_loop ?d ?buf = Some buf'" "enc.valid buf'" "enc.num (rev buf') = value256 ?d"
    using encode_loop_result [of ?buf 0 ?d "length ?d"] by (auto simp: list_all_iff)
  have "value256 ?d = value256 bs"
    by (simp only: value256_def map_unat_dropWhile lval_dropWhile)
  moreover have "map unat (dropWhile (\<lambda>d. d = 0) buf') = rev (digits 58 (enc.num (rev buf')))"
    using strip_digits [of 58 "rev (map unat buf')"] b(2) by (simp add: map_unat_dropWhile list_all_iff rev_map)
  moreover have "map (\<lambda>d. pszBase58 ! unat d) ds = map (\<lambda>d. pszBase58 ! d) (map unat ds)" for ds :: "byte list"
    by simp
  ultimately show ?thesis
    unfolding EncodeBase58_def base58_spec_def Let_def b(1) option.map by (simp only: b(3))
qed

subsection \<open>What is decoded\<close>

text \<open>The text between the spaces at both ends, and when a string is accepted.\<close>

definition base58_core :: "string \<Rightarrow> string" where
  "base58_core s = takeWhile (\<lambda>c. \<not> isspace c) (dropWhile isspace s)"

definition base58_accepted :: "string \<Rightarrow> bool" where
  "base58_accepted s \<longleftrightarrow> list_all (\<lambda>c. c \<in> set pszBase58) (base58_core s) \<and>
     list_all isspace (dropWhile (\<lambda>c. \<not> isspace c) (dropWhile isspace s))"

lemma ones_not_space: "\<not> isspace (CHR ''1'')"
  by (simp add: isspace_def)

lemma skip_ones:
  fixes s
  defines "one \<equiv> \<lambda>c. c = CHR ''1''" and "ns \<equiv> \<lambda>c. \<not> isspace c"
  shows "takeWhile ns (dropWhile one s) = dropWhile one (takeWhile ns s)"
    and "dropWhile ns (dropWhile one s) = dropWhile ns s"
    and "takeWhile one s = takeWhile one (takeWhile ns s)"
  by (induction s) (auto simp: assms ones_not_space)

lemma value58_dropWhile: "value58 (dropWhile (\<lambda>c. c = CHR ''1'') s) = value58 s"
  by (induction s) (simp_all add: value58_Cons)

lemma set_dropWhile_ones:
  "set (dropWhile (\<lambda>c. c = CHR ''1'') s) \<subseteq> set pszBase58 \<longleftrightarrow> set s \<subseteq> set pszBase58"
proof -
  have "CHR ''1'' \<in> set pszBase58"
    by (simp add: pszBase58_def)
  then show ?thesis by (induction s) auto
qed

lemma dropWhile_Nil_list_all: "dropWhile P xs = [] \<longleftrightarrow> list_all P xs"
  by (simp add: dropWhile_eq_Nil_conv list_all_iff)

lemma strip_bytes: "dropWhile (\<lambda>d. d = 0) bs = (map of_nat (rev (digits 256 (value256 bs))) :: byte list)"
proof -
  have "list_all (\<lambda>d. d < 256) (rev (map unat bs))"
    by (simp add: list_all_iff unat_byte_less)
  from strip_digits [OF _ this]
  have "map unat (dropWhile (\<lambda>d. d = 0) bs) = rev (digits 256 (value256 bs))"
    by (simp add: map_unat_dropWhile value256_def)
  from arg_cong [OF this, of "map (of_nat :: nat \<Rightarrow> byte)"] show ?thesis
    by (simp add: comp_def)
qed

lemma DecodeBase58_correct:
  "DecodeBase58 s vch = Some (if base58_accepted s then (True, unbase58_spec (base58_core s)) else (False, vch))"
proof -
  let ?s = "dropWhile isspace s" and ?one = "\<lambda>c. c = CHR ''1''" and ?ns = "\<lambda>c. \<not> isspace c"
  let ?t = "dropWhile ?one ?s"
  let ?buf = "replicate (length ?t * 733 div 1000 + 1) 0 :: byte list"
  have "dec.num (rev ?buf) = 0"
    by (simp only: rev_replicate map_replicate unsigned_0 lval_zeros)
  then obtain ok rest buf where l: "decode_loop ?t ?buf = Some (ok, rest, buf)"
    and ok: "ok \<longleftrightarrow> set (takeWhile ?ns ?t) \<subseteq> set pszBase58"
    and v: "ok \<Longrightarrow> rest = dropWhile ?ns ?t \<and> dec.num (rev buf) = value58 (takeWhile ?ns ?t)"
    using decode_loop_result [of ?buf 0 ?t "length ?t"] by auto
  have core: "takeWhile ?ns ?t = dropWhile ?one (base58_core s)" "dropWhile ?ns ?t = dropWhile ?ns ?s"
    by (simp_all only: skip_ones(1,2) base58_core_def)
  have acc: "base58_accepted s \<longleftrightarrow> ok \<and> dropWhile isspace rest = []"
    using ok v unfolding core set_dropWhile_ones
    by (auto simp: base58_accepted_def list_all_iff dropWhile_eq_Nil_conv)
  have "dropWhile (\<lambda>d. d = 0) buf = map of_nat (rev (digits 256 (value58 (base58_core s))))" if ok
    using strip_bytes [of buf] v [OF that] unfolding core value58_dropWhile by (simp add: value256_def rev_map)
  moreover have "takeWhile ?one ?s = takeWhile ?one (base58_core s)"
    unfolding base58_core_def by (rule skip_ones(3))
  ultimately show ?thesis
    unfolding DecodeBase58_def Let_def l option.case prod.case acc by (simp add: unbase58_spec_def)
qed

subsection \<open>Round trips of the specification\<close>

lemma base58_spec_digits:
  "base58_spec bs = map (\<lambda>d. pszBase58 ! d)
     (replicate (length (takeWhile (\<lambda>d. d = 0) (map unat bs))) 0 @ rev (digits 58 (value256 bs)))"
  by (simp add: base58_spec_def length_takeWhile_unat alphabet)

lemma unbase58_spec_digits:
  assumes "set s \<subseteq> set pszBase58"
  shows "unbase58_spec s = map of_nat
     (replicate (length (takeWhile (\<lambda>d. d = 0) (map char_value s))) 0 @ rev (digits 256 (value58 s)))"
proof -
  have "length (takeWhile (\<lambda>d. d = 0) (map char_value s)) = length (takeWhile (\<lambda>c. c = CHR ''1'') s)"
    using assms by (induction s) (auto simp: char_value_0)
  then show ?thesis by (simp add: unbase58_spec_def)
qed

lemma base58_spec_alphabet: "set (base58_spec bs) \<subseteq> set pszBase58"
  using digits_less [of 58 "value256 bs"]
  by (auto simp: base58_spec_digits list_all_iff alphabet(1) intro!: nth_mem)

lemma map_char_value_nth: "list_all (\<lambda>d. d < 58) ds \<Longrightarrow> map char_value (map (\<lambda>d. pszBase58 ! d) ds) = ds"
  by (induction ds) (simp_all add: char_value_nth)

lemma map_unat_of_nat: "list_all (\<lambda>d. d < 256) ds \<Longrightarrow> map unat (map (of_nat :: nat \<Rightarrow> byte) ds) = ds"
  by (induction ds) (auto simp: intro!: of_nat_inverse [OF refl])

lemma unbase58_base58: "unbase58_spec (base58_spec bs) = bs"
proof -
  let ?ds = "replicate (length (takeWhile (\<lambda>d. d = 0) (map unat bs))) 0 @ rev (digits 58 (value256 bs))"
  have "list_all (\<lambda>d. d < 58) ?ds"
    using digits_less [of 58 "value256 bs"] by (auto simp: list_all_iff)
  then have cv: "map char_value (base58_spec bs) = ?ds"
    unfolding base58_spec_digits by (rule map_char_value_nth)
  have "unbase58_spec (base58_spec bs) = map of_nat (replicate (length (takeWhile (\<lambda>d. d = 0) (map unat bs))) 0 @
      rev (digits 256 (value256 bs)))"
    unfolding unbase58_spec_digits [OF base58_spec_alphabet] value58_def cv
    by (simp add: canon_zeros canon_value del: rev_append)
  also have "\<dots> = map of_nat (map unat bs)"
    using canon_split [of 256 "map unat bs"] by (simp add: value256_def rev_map list_all_iff unat_byte_less)
  also have "\<dots> = bs"
    by (simp add: comp_def)
  finally show ?thesis .
qed

lemma base58_unbase58:
  assumes "set s \<subseteq> set pszBase58"
  shows "base58_spec (unbase58_spec s) = s"
proof -
  let ?ds = "replicate (length (takeWhile (\<lambda>d. d = 0) (map char_value s))) 0 @ rev (digits 256 (value58 s))"
  have "list_all (\<lambda>d. d < 256) ?ds"
    using digits_less [of 256 "value58 s"] by (auto simp: list_all_iff)
  then have u: "map unat (unbase58_spec s) = ?ds"
    unfolding unbase58_spec_digits [OF assms] by (rule map_unat_of_nat)
  have "base58_spec (unbase58_spec s) = map (\<lambda>d. pszBase58 ! d)
      (replicate (length (takeWhile (\<lambda>d. d = 0) (map char_value s))) 0 @ rev (digits 58 (value58 s)))"
    unfolding base58_spec_digits value256_def u by (simp add: canon_zeros canon_value del: rev_append)
  also have "\<dots> = map (\<lambda>d. pszBase58 ! d) (map char_value s)"
    using canon_split [of 58 "map char_value s"] assms char_value(2)
    by (simp add: value58_def rev_map list_all_iff subset_iff)
  also have "\<dots> = s"
    using assms by (induction s) (simp_all add: char_value)
  finally show ?thesis .
qed

lemma core_accepted:
  assumes "set s \<subseteq> set pszBase58" and "list_all isspace p" and "list_all isspace t"
  shows "base58_core (p @ s @ t) = s \<and> base58_accepted (p @ s @ t)"
proof -
  have ns: "list_all (\<lambda>c. \<not> isspace c) s"
    using assms(1) alphabet_nospace by (auto simp: list_all_iff)
  have "dropWhile isspace (p @ s @ t) = dropWhile isspace (s @ t)"
    using assms(2) by (simp add: dropWhile_append list_all_iff)
  show ?thesis
  proof (cases s)
    case Nil
    have "dropWhile isspace (p @ s @ t) = []"
      using assms by (simp add: Nil dropWhile_eq_Nil_conv list_all_iff ball_Un)
    then have "base58_core (p @ s @ t) = []" "base58_accepted (p @ s @ t)"
      unfolding base58_core_def base58_accepted_def by (simp_all only: takeWhile.simps dropWhile.simps list.pred_inject)
    then show ?thesis by (simp add: Nil)
  next
    case (Cons c r)
    then have d: "dropWhile isspace (p @ s @ t) = s @ t"
      using ns assms(2) by (simp add: dropWhile_append list_all_iff)
    have "takeWhile (\<lambda>c. \<not> isspace c) t = []" "dropWhile (\<lambda>c. \<not> isspace c) t = t"
      using assms(3) by (cases t; simp)+
    then show ?thesis
      using ns assms d by (simp add: base58_core_def base58_accepted_def list_all_iff subset_iff
        takeWhile_append dropWhile_append)
  qed
qed

subsection \<open>Properties\<close>

text \<open>
  \<^verbatim>\<open>EncodeBase58\<close>: the assertion on the carry never fails, so the buffer of \<open>138 / 100\<close> digits per
  byte is large enough, and the result is a \<open>1\<close> for every leading zero byte followed by the base-58
  digits, without leading zero, of the number the bytes denote.
\<close>

lemma EncodeBase58_value: "EncodeBase58 bs = Some (base58_spec bs)"
  by (rule EncodeBase58_correct)

text \<open>
  C30. \<^verbatim>\<open>DecodeBase58\<close>: the assertion on the carry never fails; a string is accepted exactly when, after
  leading and before trailing white space, it has only characters of the alphabet, the result is then the
  number it denotes after a zero byte for every leading \<open>1\<close>; otherwise the output vector is untouched.
\<close>

theorem DecodeBase58_value:
  "DecodeBase58 s vch = Some (if base58_accepted s then (True, unbase58_spec (base58_core s)) else (False, vch))"
  by (rule DecodeBase58_correct)

text \<open>
  C29. Round trip: what \<^verbatim>\<open>EncodeBase58\<close> produces, surrounded by any white space, \<^verbatim>\<open>DecodeBase58\<close> turns back into
  the same bytes, and every string over the alphabet is the encoding of what it decodes to.
\<close>

theorem base58_roundtrip:
  assumes "list_all isspace p" and "list_all isspace t" and "list_all (\<lambda>c. c \<in> set pszBase58) s"
  shows "(\<exists>e. EncodeBase58 bs = Some e \<and> DecodeBase58 (p @ e @ t) vch = Some (True, bs)) \<and>
    (\<exists>d. DecodeBase58 s vch = Some (True, d) \<and> EncodeBase58 d = Some s)"
  using core_accepted [OF base58_spec_alphabet assms(1,2), of bs] core_accepted [of s "[]" "[]"] assms(3)
  by (simp add: EncodeBase58_correct DecodeBase58_correct unbase58_base58 base58_unbase58 list_all_iff subset_iff)

theorem base58_roundtrip_witness:
  "(\<exists>e. EncodeBase58 [0, 1, 255] = Some e \<and> DecodeBase58 ('' '' @ e @ '' '') [] = Some (True, [0, 1, 255])) \<and>
   (\<exists>d. DecodeBase58 ''1Az'' [] = Some (True, d) \<and> EncodeBase58 d = Some ''1Az'')"
  using base58_roundtrip [of "'' ''" "'' ''" "''1Az''" "[0, 1, 255]" "[]"]
  by (simp add: isspace_def pszBase58_def)

end
