(* ===== verification/Base64.thy ===== *)
theory Base64
  imports Prelude
begin

section \<open>Base64 (util/cryption/base64)\<close>

text \<open>
  The class \<^verbatim>\<open>ZBase64\<close>: \<^verbatim>\<open>Encode\<close>, the table-driven \<^verbatim>\<open>Decode\<close> and the searching \<^verbatim>\<open>Decode\<close>. The reference
  encoding cuts the bit stream of the data into groups of six. \<^verbatim>\<open>Encode\<close> is shown to compute it, with a
  line break after every 76 characters; the searching \<^verbatim>\<open>Decode\<close> computes the original bytes, but stores
  them behind the end of an empty string; the table of the other \<^verbatim>\<open>Decode\<close> is wrong. \<open>None\<close> is a read
  outside an array. The \<^verbatim>\<open>#if 0\<close> part of the file is not compiled and not modelled.
\<close>

subsection \<open>The code\<close>

definition EncodeTable :: string where
  "EncodeTable = ''ABCDEFGHIJKLMNOPQRSTUVWXYZabcdefghijklmnopqrstuvwxyz0123456789+/''"

text \<open>Subscripts into \<^verbatim>\<open>EncodeTable\<close> are computed in \<^verbatim>\<open>int\<close>, of which 32 bits are enough here.\<close>

definition enc_char :: "u32 \<Rightarrow> char" where
  "enc_char i = EncodeTable ! unat i"

fun Encode_loop :: "nat \<Rightarrow> byte list \<Rightarrow> nat \<Rightarrow> string \<Rightarrow> string \<times> byte list" where
  "Encode_loop 0 Data LineLength strEncode = (strEncode, Data)"
| "Encode_loop (Suc i) Data LineLength strEncode =
     (let Tmp1 = ucast (Data ! 0) :: u32; Tmp2 = ucast (Data ! 1) :: u32; Tmp3 = ucast (Data ! 2) :: u32;
          strEncode = strEncode @ [enc_char (drop_bit 2 Tmp1)];
          strEncode = strEncode @ [enc_char ((push_bit 4 Tmp1 OR drop_bit 4 Tmp2) AND 0x3F)];
          strEncode = strEncode @ [enc_char ((push_bit 2 Tmp2 OR drop_bit 6 Tmp3) AND 0x3F)];
          strEncode = strEncode @ [enc_char (Tmp3 AND 0x3F)];
          LineLength = LineLength + 4
      in if LineLength = 76 then Encode_loop i (drop 3 Data) 0 (strEncode @ [CHR 0x0D, CHR 0x0A])
         else Encode_loop i (drop 3 Data) LineLength strEncode)"

definition ZBase64_Encode :: "byte list \<Rightarrow> nat \<Rightarrow> string" where
  "ZBase64_Encode Data DataByte =
     (let (strEncode, Data) = Encode_loop (DataByte div 3) Data 0 [];
          Mod = DataByte mod 3
      in if Mod = 1
         then let Tmp1 = ucast (Data ! 0) :: u32 in
              strEncode @ [enc_char (drop_bit 2 (Tmp1 AND 0xFC)), enc_char (push_bit 4 (Tmp1 AND 0x03))] @ ''==''
         else if Mod = 2
         then let Tmp1 = ucast (Data ! 0) :: u32; Tmp2 = ucast (Data ! 1) :: u32 in
              strEncode @ [enc_char (drop_bit 2 (Tmp1 AND 0xFC)),
                enc_char (push_bit 4 (Tmp1 AND 0x03) OR drop_bit 4 (Tmp2 AND 0xF0)),
                enc_char (push_bit 2 (Tmp2 AND 0x0F))] @ ''=''
         else strEncode)"

definition DecodeTable :: "nat list" where
  "DecodeTable =
    [0, 0, 0, 0, 0, 0, 0, 0, 0, 0, 0, 0, 0, 0, 0, 0, 0, 0, 0, 0, 0, 0, 0,
     0, 0, 0, 0, 0, 0, 0, 0, 0, 0, 0, 0, 0, 0, 0, 0, 0, 0,
     0, 0,
     53, 54, 55, 56, 57, 58, 59, 60, 61,
     0, 0, 0, 0, 0, 0,
     1, 2, 3, 4, 5, 6, 7, 8, 9, 10, 11, 12,
     14, 15, 16, 17, 18, 19, 20, 21, 22, 23, 24, 25,
     0, 0, 0, 0, 0,
     27, 28, 29, 30, 31, 32, 33, 34, 35, 36, 37, 38,
     40, 41, 42, 43, 44, 45, 46, 47, 48, 49, 50, 51]"

text \<open>
  \<^verbatim>\<open>DecodeTable[*Data++]\<close>: the value and the rest of the data. \<^verbatim>\<open>Data\<close> is the string with its terminating
  zero; a subscript outside the table (or a negative \<^verbatim>\<open>char\<close>) and a read behind the zero give \<open>None\<close>.
\<close>

fun table_next :: "string \<Rightarrow> (nat \<times> string) option" where
  "table_next [] = None"
| "table_next (c # Data) =
     (if of_char c < length DecodeTable then Some (DecodeTable ! of_char c, Data) else None)"

text \<open>One round of the loop on a group: the bytes appended and the rest of the data.\<close>

definition decode_group :: "string \<Rightarrow> (byte list \<times> string) option" where
  "decode_group Data =
     (case table_next Data of None \<Rightarrow> None | Some (t1, Data) \<Rightarrow>
      case table_next Data of None \<Rightarrow> None | Some (t2, Data) \<Rightarrow>
      let nValue = t1 * 2 ^ 18 + t2 * 2 ^ 12; out = [of_nat (nValue div 2 ^ 16)] in
      case Data of [] \<Rightarrow> None | c # _ \<Rightarrow>
      if c = CHR ''='' then Some (out, Data)
      else case table_next Data of None \<Rightarrow> None | Some (t3, Data) \<Rightarrow>
      let nValue = nValue + t3 * 2 ^ 6; out = out @ [of_nat (nValue div 2 ^ 8)] in
      case Data of [] \<Rightarrow> None | c # _ \<Rightarrow>
      if c = CHR ''='' then Some (out, Data)
      else case table_next Data of None \<Rightarrow> None | Some (t4, Data) \<Rightarrow>
      Some (out @ [of_nat (nValue + t4)], Data))"

function ZBase64_Decode_loop :: "string \<Rightarrow> nat \<Rightarrow> nat \<Rightarrow> byte list \<Rightarrow> nat \<Rightarrow> (byte list \<times> nat) option" where
  "ZBase64_Decode_loop Data i DataByte strDecode OutByte =
     (if DataByte \<le> i then Some (strDecode, OutByte)
      else case Data of [] \<Rightarrow> None | c # Data' \<Rightarrow>
        if c \<noteq> CHR 0x0D \<and> c \<noteq> CHR 0x0A
        then (case decode_group Data of None \<Rightarrow> None
              | Some (out, Data'') \<Rightarrow>
                  ZBase64_Decode_loop Data'' (i + 4) DataByte (strDecode @ out) (OutByte + length out))
        else ZBase64_Decode_loop Data' (i + 1) DataByte strDecode OutByte)"
  by pat_completeness auto
termination
  by (relation "measure (\<lambda>(d, i, n, s, out). n - i)") auto

declare ZBase64_Decode_loop.simps [simp del]

definition ZBase64_Decode :: "string \<Rightarrow> nat \<Rightarrow> nat \<Rightarrow> (byte list \<times> nat) option" where
  "ZBase64_Decode Data DataByte OutByte = ZBase64_Decode_loop Data 0 DataByte [] OutByte"

text \<open>
  The searching \<^verbatim>\<open>Decode\<close>: \<open>find_sextet\<close> is one of its loops over \<^verbatim>\<open>base64char\<close> (the same 64 characters), the
  last match wins. \<open>c_at\<close> reads the string, its terminating zero included.
\<close>

definition find_sextet :: "char \<Rightarrow> byte" where
  "find_sextet c = foldl (\<lambda>t k. if EncodeTable ! k = c then of_nat k else t) 0xFF [0..<64]"

definition c_at :: "string \<Rightarrow> nat \<Rightarrow> char option" where
  "c_at s i = (if i < length s then Some (s ! i) else if i = length s then Some (CHR 0x00) else None)"

text \<open>The bytes the loop stores at \<^verbatim>\<open>strDecode[0]\<close>, \<^verbatim>\<open>strDecode[1]\<close> and so on.\<close>

function Decode_stores :: "string \<Rightarrow> nat \<Rightarrow> byte list option" where
  "Decode_stores base64 i =
     (case c_at base64 i of None \<Rightarrow> None | Some c0 \<Rightarrow>
      if c0 = CHR 0x00 then Some []
      else case c_at base64 (i + 1) of None \<Rightarrow> None | Some c1 \<Rightarrow>
      case c_at base64 (i + 2) of None \<Rightarrow> None | Some c2 \<Rightarrow>
      case c_at base64 (i + 3) of None \<Rightarrow> None | Some c3 \<Rightarrow>
      let t0 = find_sextet c0; t1 = find_sextet c1; t2 = find_sextet c2; t3 = find_sextet c3;
          s0 = (push_bit 2 t0 AND 0xFC) OR (drop_bit 4 t1 AND 0x03);
          s1 = (push_bit 4 t1 AND 0xF0) OR (drop_bit 2 t2 AND 0x0F);
          s2 = (push_bit 6 t2 AND 0xF0) OR (t3 AND 0x3F)
      in if c2 = CHR ''='' then Some [s0]
         else if c3 = CHR ''='' then Some [s0, s1]
         else map_option (\<lambda>r. [s0, s1, s2] @ r) (Decode_stores base64 (i + 4)))"
  by pat_completeness auto
termination
  by (relation "measure (\<lambda>(s, i). Suc (length s) - i)") (auto simp: c_at_def split: if_splits)

declare Decode_stores.simps [simp del]

text \<open>
  \<^verbatim>\<open>strDecode\<close> is default constructed and only subscripted, so its size stays 0: the string returned holds
  the stored bytes below its size.
\<close>

definition ZBase64_Decode_search :: "string \<Rightarrow> byte list option" where
  "ZBase64_Decode_search base64 =
     (let strDecode_size = 0 in map_option (take strDecode_size) (Decode_stores base64 0))"

subsection \<open>The reference encoding\<close>

definition byte_bits :: "byte \<Rightarrow> bool list" where
  "byte_bits b = map (bit b) [7, 6, 5, 4, 3, 2, 1, 0]"

definition sextet :: "bool list \<Rightarrow> u32" where
  "sextet bs = horner_sum of_bool 2 (rev (take 6 (bs @ replicate 6 False)))"

function base64_bits :: "bool list \<Rightarrow> string" where
  "base64_bits bs = (if bs = [] then [] else enc_char (sextet bs) # base64_bits (drop 6 bs))"
  by pat_completeness auto
termination
  by (relation "measure length") auto

declare base64_bits.simps [simp del]

definition base64_ref :: "byte list \<Rightarrow> string" where
  "base64_ref data = base64_bits (concat (map byte_bits data)) @
     replicate ((3 - length data mod 3) mod 3) (CHR ''='')"

text \<open>A line break after every 76 characters that come from whole groups.\<close>

fun break_lines :: "nat \<Rightarrow> string \<Rightarrow> string" where
  "break_lines line (a # b # c # d # s) =
     [a, b, c, d] @ (if line + 4 = 76 then [CHR 0x0D, CHR 0x0A] @ break_lines 0 s else break_lines (line + 4) s)"
| "break_lines line s = s"

subsection \<open>The encoder computes the reference encoding\<close>

lemma less_6_cases: "n < 6 \<Longrightarrow> n = 0 \<or> n = 1 \<or> n = 2 \<or> n = 3 \<or> n = 4 \<or> n = (5::nat)"
  by auto

lemma sextet_bit:
  "bit (sextet (b5 # b4 # b3 # b2 # b1 # b0 # r)) n \<longleftrightarrow> n < 6 \<and> [b0, b1, b2, b3, b4, b5] ! n"
proof -
  have "rev (take 6 ((b5 # b4 # b3 # b2 # b1 # b0 # r) @ replicate 6 False)) = [b0, b1, b2, b3, b4, b5]"
    by simp
  then show ?thesis
    unfolding sextet_def bit_horner_sum_bit_word_iff by (simp only:) auto
qed

lemma sextet_eqI:
  assumes "\<And>n. 6 \<le> n \<Longrightarrow> \<not> bit w n"
    and "bit w 0 = b0" "bit w 1 = b1" "bit w 2 = b2" "bit w 3 = b3" "bit w 4 = b4" "bit w 5 = b5"
  shows "sextet (b5 # b4 # b3 # b2 # b1 # b0 # r) = w"
proof (rule bit_word_eqI)
  fix n
  show "bit (sextet (b5 # b4 # b3 # b2 # b1 # b0 # r)) n = bit w n"
  proof (cases "n < 6")
    case True
    then show ?thesis
      using assms(2-) by (auto simp: sextet_bit dest!: less_6_cases)
  next
    case False
    then show ?thesis
      using assms(1) by (simp add: sextet_bit)
  qed
qed

lemma masks: "(0x3F :: u32) = mask 6" "(0x03 :: u32) = mask 2" "(0x0F :: u32) = mask 4"
  by (simp_all add: mask_eq_exp_minus_1)

lemma byte_high [simp]: "8 \<le> n \<Longrightarrow> \<not> bit (b :: byte) n"
  using bit_imp_le_length [of b n] by auto

lemma sextets:
  "sextet (byte_bits a @ r) = drop_bit 2 (ucast a)"
  "sextet (drop 6 (byte_bits a) @ byte_bits b @ r) = (push_bit 4 (ucast a) OR drop_bit 4 (ucast b)) AND 0x3F"
  "sextet (drop 4 (byte_bits b) @ byte_bits c @ r) = (push_bit 2 (ucast b) OR drop_bit 6 (ucast c)) AND 0x3F"
  "sextet (drop 2 (byte_bits c) @ r) = ucast c AND 0x3F"
  by (simp_all add: byte_bits_def masks; rule sextet_eqI; simp add: bit_simps)+

lemma replicate_numbers: "replicate 4 x = [x, x, x, x]" "replicate 2 x = [x, x]"
  by (simp_all add: numeral_eq_Suc)

lemma sextets_end:
  "sextet (drop 6 (byte_bits a)) = push_bit 4 (ucast a AND 0x03)"
  "sextet (drop 4 (byte_bits b)) = push_bit 2 (ucast b AND 0x0F)"
proof -
  have *: "sextet bs = sextet (bs @ replicate k False)" for bs k
  proof -
    have "take 6 ((bs @ replicate k False) @ replicate 6 False) = take 6 (bs @ replicate 6 False)"
      by (simp add: min_def flip: replicate_add)
    then show ?thesis by (simp only: sextet_def)
  qed
  have "sextet (drop 6 (byte_bits a) @ replicate 4 False) = push_bit 4 (ucast a AND 0x03)"
    by (simp add: byte_bits_def masks replicate_numbers del: push_bit_of_1; rule sextet_eqI;
      auto simp: bit_simps)
  then show "sextet (drop 6 (byte_bits a)) = push_bit 4 (ucast a AND 0x03)"
    using * [of "drop 6 (byte_bits a)" 4] by simp
  have "sextet (drop 4 (byte_bits b) @ replicate 2 False) = push_bit 2 (ucast b AND 0x0F)"
    by (simp add: byte_bits_def masks replicate_numbers del: push_bit_of_1; rule sextet_eqI;
      auto simp: bit_simps)
  then show "sextet (drop 4 (byte_bits b)) = push_bit 2 (ucast b AND 0x0F)"
    using * [of "drop 4 (byte_bits b)" 2] by simp
qed

lemma length_byte_bits [simp]: "length (byte_bits b) = 8"
  by (simp add: byte_bits_def)

lemma base64_bits_Nil [simp]: "base64_bits [] = []"
  by (simp add: base64_bits.simps)

lemma base64_bits_step: "bs \<noteq> [] \<Longrightarrow> base64_bits bs = enc_char (sextet bs) # base64_bits (drop 6 bs)"
  by (subst base64_bits.simps) simp

lemma bits_ne: "0 < length bs \<Longrightarrow> bs \<noteq> []"
  by auto

lemmas base64_unfold = base64_bits_step [OF bits_ne] sextets sextets_end

lemma base64_group:
  "base64_bits (byte_bits a @ byte_bits b @ byte_bits c @ r) =
     [enc_char (drop_bit 2 (ucast a)), enc_char ((push_bit 4 (ucast a) OR drop_bit 4 (ucast b)) AND 0x3F),
      enc_char ((push_bit 2 (ucast b) OR drop_bit 6 (ucast c)) AND 0x3F), enc_char (ucast c AND 0x3F)] @ base64_bits r"
  by (simp add: base64_unfold)

lemma base64_two:
  "base64_bits (byte_bits a @ byte_bits b) =
     [enc_char (drop_bit 2 (ucast a)), enc_char ((push_bit 4 (ucast a) OR drop_bit 4 (ucast b)) AND 0x3F),
      enc_char (push_bit 2 (ucast b AND 0x0F))]"
  using sextets(2) [of a b "[]"] by (simp add: base64_unfold)

lemma base64_one:
  "base64_bits (byte_bits a) = [enc_char (drop_bit 2 (ucast a)), enc_char (push_bit 4 (ucast a AND 0x03))]"
  using sextets(1) [of a "[]"] by (simp add: base64_unfold)

lemma encode_masks:
  "drop_bit 2 (ucast (a :: byte) AND 0xFC) = (drop_bit 2 (ucast a) :: u32)"
  "push_bit 4 (ucast (a :: byte) AND 0x03) OR drop_bit 4 (ucast (b :: byte) AND 0xF0) =
     ((push_bit 4 (ucast a) OR drop_bit 4 (ucast b)) AND 0x3F :: u32)"
proof -
  have m: "(0xFC :: u32) = push_bit 2 (mask 6)" "(0xF0 :: u32) = push_bit 4 (mask 4)"
    by (simp_all add: mask_eq_exp_minus_1)
  show "drop_bit 2 (ucast a AND 0xFC) = (drop_bit 2 (ucast a) :: u32)"
    unfolding m by (rule bit_word_eqI) (auto simp: bit_simps dest: bit_imp_le_length)
  show "push_bit 4 (ucast a AND 0x03) OR drop_bit 4 (ucast b AND 0xF0) =
     ((push_bit 4 (ucast a) OR drop_bit 4 (ucast b)) AND 0x3F :: u32)"
    unfolding m masks by (rule bit_word_eqI) (auto simp: bit_simps dest: bit_imp_le_length)
qed

lemma base64_ref_short:
  "base64_ref [] = []"
  "base64_ref [a] = [enc_char (drop_bit 2 (ucast a AND 0xFC)), enc_char (push_bit 4 (ucast a AND 0x03))] @ ''==''"
  "base64_ref [a, b] = [enc_char (drop_bit 2 (ucast a AND 0xFC)),
     enc_char (push_bit 4 (ucast a AND 0x03) OR drop_bit 4 (ucast b AND 0xF0)), enc_char (push_bit 2 (ucast b AND 0x0F))] @ ''=''"
  unfolding encode_masks by (simp_all add: base64_ref_def base64_one base64_two replicate_numbers)

lemma triple_split:
  assumes "3 \<le> length data"
  shows "\<exists>a b c r. data = a # b # c # r"
  using assms by (auto simp: numeral_eq_Suc Suc_le_length_iff)

lemma Encode_loop_result:
  "3 * n \<le> length data \<Longrightarrow> Encode_loop n data line str =
     (str @ break_lines line (base64_bits (concat (map byte_bits (take (3 * n) data)))), drop (3 * n) data)"
proof (induction n arbitrary: data line str)
  case (Suc n)
  obtain a b c r where d: "data = a # b # c # r"
    using triple_split [of data] Suc.prems by auto
  have "3 * n \<le> length r"
    using Suc.prems by (simp add: d)
  moreover have "take (3 * Suc n) data = a # b # c # take (3 * n) r" "drop (3 * Suc n) data = drop (3 * n) r"
    by (simp_all add: d numeral_3_eq_3)
  ultimately show ?case
    using Suc.IH by (simp add: Let_def base64_group del: take_Cons_numeral drop_Cons_numeral) (simp add: d)
qed simp

lemma whole_groups:
  "3 dvd length xs \<Longrightarrow> base64_bits (concat (map byte_bits (xs @ ys))) =
     base64_bits (concat (map byte_bits xs)) @ base64_bits (concat (map byte_bits ys))"
proof (induction "length xs" arbitrary: xs rule: less_induct)
  case less
  show ?case
  proof (cases "xs = []")
    case False
    then have "3 \<le> length xs"
      using less.prems by (auto dest: dvd_imp_le)
    then obtain a b c r where xs: "xs = a # b # c # r"
      using triple_split by blast
    have "3 dvd length r"
      using less.prems unfolding xs list.size by presburger
    with less.hyps [of r] show ?thesis
      by (simp add: xs base64_group)
  qed simp
qed

lemma Encode_correct:
  fixes data :: "byte list"
  defines "k \<equiv> 3 * (length data div 3)"
  shows "ZBase64_Encode data (length data) =
    break_lines 0 (base64_ref (take k data)) @ base64_ref (drop k data)"
    and "base64_ref data = base64_ref (take k data) @ base64_ref (drop k data)"
proof -
  have k: "k \<le> length data" "length (take k data) mod 3 = 0" "length (drop k data) = length data mod 3"
    unfolding k_def by (simp_all add: minus_mult_div_eq_mod min.absorb2)
  have w: "base64_ref (take k data) = base64_bits (concat (map byte_bits (take k data)))"
    using k by (simp add: base64_ref_def)
  have loop: "Encode_loop (length data div 3) data 0 [] = (break_lines 0 (base64_ref (take k data)), drop k data)"
    using Encode_loop_result [of "length data div 3" data 0 "[]"] k(1) unfolding w by (simp add: k_def)
  consider "drop k data = []" | a where "drop k data = [a]" | a b where "drop k data = [a, b]"
  proof -
    have "length (drop k data) < 3"
      using k(3) by simp
    then show ?thesis
      using that by (cases "drop k data"; cases "tl (drop k data)"; cases "tl (tl (drop k data))") auto
  qed
  then show "ZBase64_Encode data (length data) = break_lines 0 (base64_ref (take k data)) @ base64_ref (drop k data)"
    unfolding ZBase64_Encode_def loop k(3) [symmetric]
    by cases (simp_all only: base64_ref_short Let_def prod.case append_assoc nth_Cons_0 One_nat_def nth_Cons_Suc
      list.size numeral_2_eq_2 nat.inject nat.distinct add_Suc_right add_0_right if_True if_False append_Nil2 simp_thms)
  show "base64_ref data = base64_ref (take k data) @ base64_ref (drop k data)"
    using whole_groups [of "take k data" "drop k data"] k(2,3)
    unfolding w by (simp add: base64_ref_def dvd_eq_mod_eq_0 del: length_drop length_take)
qed


subsection \<open>Decoding what was encoded\<close>

lemma EncodeTable_facts:
  "length EncodeTable = 64" "distinct EncodeTable"
  "CHR ''='' \<notin> set EncodeTable" "CHR 0x00 \<notin> set EncodeTable" "CHR 0x0D \<notin> set EncodeTable" "CHR 0x0A \<notin> set EncodeTable"
  by (simp_all add: EncodeTable_def)

lemma find_nth:
  assumes "i < 64" and "n \<le> 64"
  shows "foldl (\<lambda>t k. if EncodeTable ! k = EncodeTable ! i then of_nat k else t) t0 [0..<n] =
    (if i < n then of_nat i else t0 :: byte)"
  using assms(2)
proof (induction n)
  case (Suc n)
  then have "EncodeTable ! n = EncodeTable ! i \<longleftrightarrow> n = i"
    using assms(1) EncodeTable_facts(1,2) by (simp add: nth_eq_iff_index_eq)
  with Suc show ?case by (auto simp: less_Suc_eq)
qed simp

lemma find_sextet_enc: "unat i < 64 \<Longrightarrow> find_sextet (enc_char i) = ucast i"
  unfolding find_sextet_def enc_char_def by (subst find_nth) (simp_all add: unsigned_ucast_eq)

lemma enc_char_special: "unat i < 64 \<Longrightarrow> enc_char i \<noteq> CHR ''='' \<and> enc_char i \<noteq> CHR 0x00"
  by (metis EncodeTable_facts(1,3,4) enc_char_def nth_mem)

text \<open>The four indices of a group, kept folded.\<close>

definition sx0 :: "byte \<Rightarrow> u32" where
  "sx0 a = drop_bit 2 (ucast a)"

definition sx1 :: "byte \<Rightarrow> byte \<Rightarrow> u32" where
  "sx1 a b = (push_bit 4 (ucast a) OR drop_bit 4 (ucast b)) AND 0x3F"

definition sx2 :: "byte \<Rightarrow> byte \<Rightarrow> u32" where
  "sx2 b c = (push_bit 2 (ucast b) OR drop_bit 6 (ucast c)) AND 0x3F"

definition sx3 :: "byte \<Rightarrow> u32" where
  "sx3 c = ucast c AND 0x3F"

lemma sx_less: "unat (sx0 a) < 64" "unat (sx1 a b) < 64" "unat (sx2 a b) < 64" "unat (sx3 a) < 64"
proof -
  have *: "unat (x :: u32) < 64" if "x = take_bit 6 x" for x
  proof -
    have "unat (take_bit 6 x) < 2 ^ 6"
      unfolding unsigned_take_bit_eq by (rule take_bit_nat_less_exp)
    then show ?thesis by (simp flip: that)
  qed
  show "unat (sx0 a) < 64" "unat (sx1 a b) < 64" "unat (sx2 a b) < 64" "unat (sx3 a) < 64"
    unfolding sx0_def sx1_def sx2_def sx3_def masks
    by (rule *, rule bit_word_eqI, auto simp: bit_simps dest: bit_imp_le_length)+
qed

lemmas sx_chars = sx_less [THEN find_sextet_enc] sx_less [THEN enc_char_special]

lemma sx_rebuild:
  "(push_bit 2 (ucast (sx0 a)) AND 0xFC) OR (drop_bit 4 (ucast (sx1 a b)) AND 0x03) = a"
  "(push_bit 4 (ucast (sx1 a b)) AND 0xF0) OR (drop_bit 2 (ucast (sx2 b c)) AND 0x0F) = b"
  "(push_bit 6 (ucast (sx2 b c)) AND 0xF0) OR (ucast (sx3 c) AND 0x3F) = c"
proof -
  have m: "(0xFC :: byte) = push_bit 2 (mask 6)" "(0xF0 :: byte) = push_bit 4 (mask 4)"
    "(0x03 :: byte) = mask 2" "(0x0F :: byte) = mask 4" "(0x3F :: byte) = mask 6"
    by (simp_all add: mask_eq_exp_minus_1)
  note defs = sx0_def sx1_def sx2_def sx3_def masks
  show "(push_bit 2 (ucast (sx0 a)) AND 0xFC) OR (drop_bit 4 (ucast (sx1 a b)) AND 0x03) = a"
    unfolding defs m by (rule byte_bits_eqI; simp add: bit_simps)
  show "(push_bit 4 (ucast (sx1 a b)) AND 0xF0) OR (drop_bit 2 (ucast (sx2 b c)) AND 0x0F) = b"
    unfolding defs m by (rule byte_bits_eqI; simp add: bit_simps)
  show "(push_bit 6 (ucast (sx2 b c)) AND 0xF0) OR (ucast (sx3 c) AND 0x3F) = c"
    unfolding defs m by (rule byte_bits_eqI; simp add: bit_simps)
qed

lemma sx_end: "push_bit 4 (ucast a AND 0x03) = sx1 a 0" "push_bit 2 (ucast b AND 0x0F) = sx2 b 0"
  unfolding sx1_def sx2_def masks by (rule bit_word_eqI, auto simp: bit_simps)+

lemma base64_ref_sx:
  "base64_ref [] = []"
  "base64_ref [a] = [enc_char (sx0 a), enc_char (sx1 a 0)] @ ''==''"
  "base64_ref [a, b] = [enc_char (sx0 a), enc_char (sx1 a b), enc_char (sx2 b 0)] @ ''=''"
  "base64_ref (a # b # c # r) = [enc_char (sx0 a), enc_char (sx1 a b), enc_char (sx2 b c), enc_char (sx3 c)] @ base64_ref r"
proof -
  show "base64_ref [] = []"
    by (simp add: base64_ref_def)
  show "base64_ref [a] = [enc_char (sx0 a), enc_char (sx1 a 0)] @ ''==''"
    unfolding base64_ref_short encode_masks sx_end sx0_def by (rule refl)
  show "base64_ref [a, b] = [enc_char (sx0 a), enc_char (sx1 a b), enc_char (sx2 b 0)] @ ''=''"
    unfolding base64_ref_short unfolding encode_masks unfolding sx_end sx0_def sx1_def by (rule refl)
  have "base64_bits (concat (map byte_bits (a # b # c # r))) =
      [enc_char (sx0 a), enc_char (sx1 a b), enc_char (sx2 b c), enc_char (sx3 c)] @ base64_bits (concat (map byte_bits r))"
    unfolding list.map concat.simps base64_group sx0_def sx1_def sx2_def sx3_def by (rule refl)
  moreover have "length (a # b # c # r) mod 3 = length r mod 3"
    unfolding list.size by presburger
  ultimately show "base64_ref (a # b # c # r) =
      [enc_char (sx0 a), enc_char (sx1 a b), enc_char (sx2 b c), enc_char (sx3 c)] @ base64_ref r"
    unfolding base64_ref_def by (simp only: append_assoc)
qed

lemma Decode_stores_quad:
  assumes "c0 \<noteq> CHR 0x00"
  shows "Decode_stores (pre @ [c0, c1, c2, c3] @ s) (length pre) =
    (let s0 = (push_bit 2 (find_sextet c0) AND 0xFC) OR (drop_bit 4 (find_sextet c1) AND 0x03);
         s1 = (push_bit 4 (find_sextet c1) AND 0xF0) OR (drop_bit 2 (find_sextet c2) AND 0x0F);
         s2 = (push_bit 6 (find_sextet c2) AND 0xF0) OR (find_sextet c3 AND 0x3F)
     in if c2 = CHR ''='' then Some [s0]
        else if c3 = CHR ''='' then Some [s0, s1]
        else map_option (\<lambda>r. [s0, s1, s2] @ r)
          (Decode_stores ((pre @ [c0, c1, c2, c3]) @ s) (length (pre @ [c0, c1, c2, c3]))))"
proof -
  let ?t = "pre @ [c0, c1, c2, c3] @ s"
  have "c_at ?t (length pre) = Some c0" "c_at ?t (length pre + 1) = Some c1"
    "c_at ?t (length pre + 2) = Some c2" "c_at ?t (length pre + 3) = Some c3"
    by (simp_all add: c_at_def nth_append)
  moreover have "length (pre @ [c0, c1, c2, c3]) = length pre + 4"
    by simp
  ultimately show ?thesis
    using assms by (subst Decode_stores.simps) (simp only: option.case if_False Let_def append_assoc)
qed

lemma Decode_stores_ref: "Decode_stores (pre @ base64_ref data) (length pre) = Some data"
proof (induction "length data" arbitrary: pre data rule: less_induct)
  case less
  consider "data = []" | a where "data = [a]" | a b where "data = [a, b]" | a b c r where "data = a # b # c # r"
    by (metis list.exhaust)
  then show ?case
  proof cases
    case 1
    then show ?thesis
      by (simp add: base64_ref_def Decode_stores.simps c_at_def)
  next
    case (2 a)
    then show ?thesis
      using Decode_stores_quad [of "enc_char (sx0 a)" pre "enc_char (sx1 a 0)" "CHR ''=''" "CHR ''=''" "[]"]
      by (simp only: base64_ref_sx sx_chars Let_def sx_rebuild append.simps append_Nil2 simp_thms if_True)
  next
    case (3 a b)
    then show ?thesis
      using Decode_stores_quad [of "enc_char (sx0 a)" pre "enc_char (sx1 a b)" "enc_char (sx2 b 0)" "CHR ''=''" "[]"]
      by (simp only: base64_ref_sx sx_chars Let_def sx_rebuild append.simps append_Nil2 simp_thms if_True if_False)
  next
    case (4 a b c r)
    then show ?thesis
      using Decode_stores_quad [of "enc_char (sx0 a)" pre "enc_char (sx1 a b)" "enc_char (sx2 b c)" "enc_char (sx3 c)"
          "base64_ref r"] less.hyps [of r "pre @ [enc_char (sx0 a), enc_char (sx1 a b), enc_char (sx2 b c), enc_char (sx3 c)]"]
      by (simp only: base64_ref_sx sx_chars Let_def sx_rebuild simp_thms if_False option.map) simp
  qed
qed


lemma break_lines_short: "line + length s < 76 \<Longrightarrow> break_lines line s = s"
  by (induction line s rule: break_lines.induct) auto

lemma set_break_lines: "filter (\<lambda>c. c \<noteq> CHR 0x0D \<and> c \<noteq> CHR 0x0A) (break_lines line s) =
    filter (\<lambda>c. c \<noteq> CHR 0x0D \<and> c \<noteq> CHR 0x0A) s"
  by (induction line s rule: break_lines.induct) auto

lemma base64_bits_chars: "list_all (\<lambda>c. c \<noteq> CHR 0x0D \<and> c \<noteq> CHR 0x0A) (base64_ref data)"
proof (induction "length data" arbitrary: data rule: less_induct)
  case less
  have e: "enc_char i \<noteq> CHR 0x0D \<and> enc_char i \<noteq> CHR 0x0A" if "unat i < 64" for i
    using that by (metis EncodeTable_facts(1,5,6) enc_char_def nth_mem)
  consider "data = []" | a where "data = [a]" | a b where "data = [a, b]" | a b c r where "data = a # b # c # r"
    by (metis list.exhaust)
  then show ?case
    by cases (simp_all add: base64_ref_sx e sx_less less)
qed

lemma length_base64_whole: "length data = 3 * n \<Longrightarrow> length (base64_ref data) = 4 * n"
proof (induction n arbitrary: data)
  case 0
  then show ?case by (simp add: base64_ref_def)
next
  case (Suc n)
  then obtain a b c r where d: "data = a # b # c # r"
    using triple_split [of data] by auto
  with Suc show ?case
    by (simp add: base64_ref_sx)
qed

subsection \<open>Properties\<close>

text \<open>
  \<^verbatim>\<open>Encode\<close> computes base64 as defined on the bit stream: the whole groups of three bytes with a line
  break after every 76 characters, then the padded last group; without the line breaks the text is
  exactly the reference encoding of the data.
\<close>

lemma ZBase64_Encode_ref:
  "ZBase64_Encode data (length data) =
     break_lines 0 (base64_ref (take (3 * (length data div 3)) data)) @
     base64_ref (drop (3 * (length data div 3)) data) \<and>
   filter (\<lambda>c. c \<noteq> CHR 0x0D \<and> c \<noteq> CHR 0x0A) (ZBase64_Encode data (length data)) = base64_ref data"
  using Encode_correct [of data] base64_bits_chars
  by (simp add: set_break_lines filter_id_conv list_all_iff)

text \<open>
  The searching \<^verbatim>\<open>Decode\<close>, applied to what \<^verbatim>\<open>Encode\<close> makes of fewer than 57 bytes (so without a line
  break), stays inside its input and computes the original bytes; but it stores them through
  subscripts of an empty string, so the string it returns is empty.
\<close>

lemma ZBase64_Decode_search_stores:
  assumes "length data < 57"
  shows "Decode_stores (ZBase64_Encode data (length data)) 0 = Some data \<and>
    ZBase64_Decode_search (ZBase64_Encode data (length data)) = Some []"
proof -
  let ?k = "3 * (length data div 3)"
  have "length (base64_ref (take ?k data)) = 4 * (length data div 3)"
    by (rule length_base64_whole) simp
  then have "ZBase64_Encode data (length data) = base64_ref data"
    using Encode_correct [of data] assms by (simp add: break_lines_short)
  then show ?thesis
    using Decode_stores_ref [of "[]" data] by (simp add: ZBase64_Decode_search_def)
qed

lemma ZBase64_Decode_search_stores_witness:
  "Decode_stores (ZBase64_Encode [7] 1) 0 = Some [7] \<and> ZBase64_Decode_search (ZBase64_Encode [7] 1) = Some []"
  using ZBase64_Decode_search_stores [of "[7]"] by simp

text \<open>
  The table-driven \<^verbatim>\<open>Decode\<close> is not the inverse of \<^verbatim>\<open>Encode\<close>: it lacks the entries for several
  characters, so that a zero byte comes back as a space, and for characters from \<open>o\<close> on it reads
  outside its table.
\<close>

lemma ZBase64_Decode_table_wrong:
  "ZBase64_Encode [0] 1 = ''AA=='' \<and>
   ZBase64_Decode (''AA=='' @ [CHR 0x00]) 4 0 = Some ([0x20], 1) \<and>
   ZBase64_Encode [0xA2] 1 = ''og=='' \<and>
   ZBase64_Decode (''og=='' @ [CHR 0x00]) 4 0 = None"
  by (simp add: ZBase64_Encode_def ZBase64_Decode_def ZBase64_Decode_loop.simps decode_group_def enc_char_def
      EncodeTable_def DecodeTable_def)

end
