(* ===== verification/Des.thy ===== *)
theory Des
  imports Prelude
begin

section \<open>DES (util/cryption/DES, class DES)\<close>

text \<open>
  The block cipher of \<^verbatim>\<open>DES.cpp\<close>: key schedule, initial and final permutation by exchanges of bit
  groups, sixteen rounds on combined substitution tables, ECB and CBC modes. \<^verbatim>\<open>unsigned long\<close> has 64 bits
  (LP64), so the words carry garbage above bit 31 in the final permutation; that it never reaches the
  result is part of what is proved. The theorems: decryption inverts encryption in both modes, and a
  block is only changed to one of the same size.
\<close>

subsection \<open>The tables\<close>

text \<open>\<^verbatim>\<open>bytebit\<close> is written in octal in the source.\<close>

definition bytebit :: "u16 list" where
  "bytebit = [128, 64, 32, 16, 8, 4, 2, 1]"

definition bigbyte :: "u64 list" where
  "bigbyte =
    [0x800000, 0x400000, 0x200000, 0x100000,
     0x80000, 0x40000, 0x20000, 0x10000,
     0x8000, 0x4000, 0x2000, 0x1000,
     0x800, 0x400, 0x200, 0x100,
     0x80, 0x40, 0x20, 0x10,
     0x8, 0x4, 0x2, 0x1]"

definition pc1 :: "nat list" where
  "pc1 =
    [56, 48, 40, 32, 24, 16, 8, 0, 57, 49, 41, 33, 25, 17,
     9, 1, 58, 50, 42, 34, 26, 18, 10, 2, 59, 51, 43, 35,
     62, 54, 46, 38, 30, 22, 14, 6, 61, 53, 45, 37, 29, 21,
     13, 5, 60, 52, 44, 36, 28, 20, 12, 4, 27, 19, 11, 3]"

definition totrot :: "nat list" where
  "totrot =
    [1, 2, 4, 6, 8, 10, 12, 14, 15, 17, 19, 21, 23, 25, 27, 28]"

definition pc2 :: "nat list" where
  "pc2 =
    [13, 16, 10, 23, 0, 4, 2, 27, 14, 5, 20, 9,
     22, 18, 11, 3, 25, 7, 15, 6, 26, 19, 12, 1,
     40, 51, 30, 36, 46, 54, 29, 39, 50, 44, 32, 47,
     43, 48, 38, 55, 33, 52, 45, 41, 49, 35, 28, 31]"

definition SP1 :: "u64 list" where
  "SP1 =
    [0x01010400, 0x00000000, 0x00010000, 0x01010404,
     0x01010004, 0x00010404, 0x00000004, 0x00010000,
     0x00000400, 0x01010400, 0x01010404, 0x00000400,
     0x01000404, 0x01010004, 0x01000000, 0x00000004,
     0x00000404, 0x01000400, 0x01000400, 0x00010400,
     0x00010400, 0x01010000, 0x01010000, 0x01000404,
     0x00010004, 0x01000004, 0x01000004, 0x00010004,
     0x00000000, 0x00000404, 0x00010404, 0x01000000,
     0x00010000, 0x01010404, 0x00000004, 0x01010000,
     0x01010400, 0x01000000, 0x01000000, 0x00000400,
     0x01010004, 0x00010000, 0x00010400, 0x01000004,
     0x00000400, 0x00000004, 0x01000404, 0x00010404,
     0x01010404, 0x00010004, 0x01010000, 0x01000404,
     0x01000004, 0x00000404, 0x00010404, 0x01010400,
     0x00000404, 0x01000400, 0x01000400, 0x00000000,
     0x00010004, 0x00010400, 0x00000000, 0x01010004]"

definition SP2 :: "u64 list" where
  "SP2 =
    [0x80108020, 0x80008000, 0x00008000, 0x00108020,
     0x00100000, 0x00000020, 0x80100020, 0x80008020,
     0x80000020, 0x80108020, 0x80108000, 0x80000000,
     0x80008000, 0x00100000, 0x00000020, 0x80100020,
     0x00108000, 0x00100020, 0x80008020, 0x00000000,
     0x80000000, 0x00008000, 0x00108020, 0x80100000,
     0x00100020, 0x80000020, 0x00000000, 0x00108000,
     0x00008020, 0x80108000, 0x80100000, 0x00008020,
     0x00000000, 0x00108020, 0x80100020, 0x00100000,
     0x80008020, 0x80100000, 0x80108000, 0x00008000,
     0x80100000, 0x80008000, 0x00000020, 0x80108020,
     0x00108020, 0x00000020, 0x00008000, 0x80000000,
     0x00008020, 0x80108000, 0x00100000, 0x80000020,
     0x00100020, 0x80008020, 0x80000020, 0x00100020,
     0x00108000, 0x00000000, 0x80008000, 0x00008020,
     0x80000000, 0x80100020, 0x80108020, 0x00108000]"

definition SP3 :: "u64 list" where
  "SP3 =
    [0x00000208, 0x08020200, 0x00000000, 0x08020008,
     0x08000200, 0x00000000, 0x00020208, 0x08000200,
     0x00020008, 0x08000008, 0x08000008, 0x00020000,
     0x08020208, 0x00020008, 0x08020000, 0x00000208,
     0x08000000, 0x00000008, 0x08020200, 0x00000200,
     0x00020200, 0x08020000, 0x08020008, 0x00020208,
     0x08000208, 0x00020200, 0x00020000, 0x08000208,
     0x00000008, 0x08020208, 0x00000200, 0x08000000,
     0x08020200, 0x08000000, 0x00020008, 0x00000208,
     0x00020000, 0x08020200, 0x08000200, 0x00000000,
     0x00000200, 0x00020008, 0x08020208, 0x08000200,
     0x08000008, 0x00000200, 0x00000000, 0x08020008,
     0x08000208, 0x00020000, 0x08000000, 0x08020208,
     0x00000008, 0x00020208, 0x00020200, 0x08000008,
     0x08020000, 0x08000208, 0x00000208, 0x08020000,
     0x00020208, 0x00000008, 0x08020008, 0x00020200]"

definition SP4 :: "u64 list" where
  "SP4 =
    [0x00802001, 0x00002081, 0x00002081, 0x00000080,
     0x00802080, 0x00800081, 0x00800001, 0x00002001,
     0x00000000, 0x00802000, 0x00802000, 0x00802081,
     0x00000081, 0x00000000, 0x00800080, 0x00800001,
     0x00000001, 0x00002000, 0x00800000, 0x00802001,
     0x00000080, 0x00800000, 0x00002001, 0x00002080,
     0x00800081, 0x00000001, 0x00002080, 0x00800080,
     0x00002000, 0x00802080, 0x00802081, 0x00000081,
     0x00800080, 0x00800001, 0x00802000, 0x00802081,
     0x00000081, 0x00000000, 0x00000000, 0x00802000,
     0x00002080, 0x00800080, 0x00800081, 0x00000001,
     0x00802001, 0x00002081, 0x00002081, 0x00000080,
     0x00802081, 0x00000081, 0x00000001, 0x00002000,
     0x00800001, 0x00002001, 0x00802080, 0x00800081,
     0x00002001, 0x00002080, 0x00800000, 0x00802001,
     0x00000080, 0x00800000, 0x00002000, 0x00802080]"

definition SP5 :: "u64 list" where
  "SP5 =
    [0x00000100, 0x02080100, 0x02080000, 0x42000100,
     0x00080000, 0x00000100, 0x40000000, 0x02080000,
     0x40080100, 0x00080000, 0x02000100, 0x40080100,
     0x42000100, 0x42080000, 0x00080100, 0x40000000,
     0x02000000, 0x40080000, 0x40080000, 0x00000000,
     0x40000100, 0x42080100, 0x42080100, 0x02000100,
     0x42080000, 0x40000100, 0x00000000, 0x42000000,
     0x02080100, 0x02000000, 0x42000000, 0x00080100,
     0x00080000, 0x42000100, 0x00000100, 0x02000000,
     0x40000000, 0x02080000, 0x42000100, 0x40080100,
     0x02000100, 0x40000000, 0x42080000, 0x02080100,
     0x40080100, 0x00000100, 0x02000000, 0x42080000,
     0x42080100, 0x00080100, 0x42000000, 0x42080100,
     0x02080000, 0x00000000, 0x40080000, 0x42000000,
     0x00080100, 0x02000100, 0x40000100, 0x00080000,
     0x00000000, 0x40080000, 0x02080100, 0x40000100]"

definition SP6 :: "u64 list" where
  "SP6 =
    [0x20000010, 0x20400000, 0x00004000, 0x20404010,
     0x20400000, 0x00000010, 0x20404010, 0x00400000,
     0x20004000, 0x00404010, 0x00400000, 0x20000010,
     0x00400010, 0x20004000, 0x20000000, 0x00004010,
     0x00000000, 0x00400010, 0x20004010, 0x00004000,
     0x00404000, 0x20004010, 0x00000010, 0x20400010,
     0x20400010, 0x00000000, 0x00404010, 0x20404000,
     0x00004010, 0x00404000, 0x20404000, 0x20000000,
     0x20004000, 0x00000010, 0x20400010, 0x00404000,
     0x20404010, 0x00400000, 0x00004010, 0x20000010,
     0x00400000, 0x20004000, 0x20000000, 0x00004010,
     0x20000010, 0x20404010, 0x00404000, 0x20400000,
     0x00404010, 0x20404000, 0x00000000, 0x20400010,
     0x00000010, 0x00004000, 0x20400000, 0x00404010,
     0x00004000, 0x00400010, 0x20004010, 0x00000000,
     0x20404000, 0x20000000, 0x00400010, 0x20004010]"

definition SP7 :: "u64 list" where
  "SP7 =
    [0x00200000, 0x04200002, 0x04000802, 0x00000000,
     0x00000800, 0x04000802, 0x00200802, 0x04200800,
     0x04200802, 0x00200000, 0x00000000, 0x04000002,
     0x00000002, 0x04000000, 0x04200002, 0x00000802,
     0x04000800, 0x00200802, 0x00200002, 0x04000800,
     0x04000002, 0x04200000, 0x04200800, 0x00200002,
     0x04200000, 0x00000800, 0x00000802, 0x04200802,
     0x00200800, 0x00000002, 0x04000000, 0x00200800,
     0x04000000, 0x00200800, 0x00200000, 0x04000802,
     0x04000802, 0x04200002, 0x04200002, 0x00000002,
     0x00200002, 0x04000000, 0x04000800, 0x00200000,
     0x04200800, 0x00000802, 0x00200802, 0x04200800,
     0x00000802, 0x04000002, 0x04200802, 0x04200000,
     0x00200800, 0x00000000, 0x00000002, 0x04200802,
     0x00000000, 0x00200802, 0x04200000, 0x00000800,
     0x04000002, 0x04000800, 0x00000800, 0x00200002]"

definition SP8 :: "u64 list" where
  "SP8 =
    [0x10001040, 0x00001000, 0x00040000, 0x10041040,
     0x10000000, 0x10001040, 0x00000040, 0x10000000,
     0x00040040, 0x10040000, 0x10041040, 0x00041000,
     0x10041000, 0x00041040, 0x00001000, 0x00000040,
     0x10040000, 0x10000040, 0x10001000, 0x00001040,
     0x00041000, 0x00040040, 0x10040040, 0x10041000,
     0x00001040, 0x00000000, 0x00000000, 0x10040040,
     0x10000040, 0x10001000, 0x00041040, 0x00040000,
     0x00041040, 0x00040000, 0x10041000, 0x00001000,
     0x00000040, 0x10040040, 0x00001000, 0x00041040,
     0x10001000, 0x00000040, 0x10000040, 0x10040000,
     0x10040040, 0x10000000, 0x00040000, 0x10001040,
     0x00000000, 0x10041040, 0x00040040, 0x10000040,
     0x10040000, 0x10001000, 0x10001040, 0x00000000,
     0x10041040, 0x00041000, 0x00041000, 0x00001040,
     0x00001040, 0x00040040, 0x10000000, 0x10041000]"

subsection \<open>The code\<close>

datatype Mode = ENCRYPT | DECRYPT

text \<open>
  The object's only member is the key register \<^verbatim>\<open>KnL\<close>. \<^verbatim>\<open>extend\<close> is only meant for sizes that are not
  negative, where C++ division is \<open>div\<close>.
\<close>

record DES =
  KnL :: "u64 list"

definition DES_extend :: "int \<Rightarrow> int" where
  "DES_extend n = (n div 8 + 1) * 8"

definition scrunch :: "byte list \<Rightarrow> u64 \<times> u64" where
  "scrunch outof =
     (push_bit 24 (ucast (outof ! 0) AND 0xff) OR push_bit 16 (ucast (outof ! 1) AND 0xff) OR
        push_bit 8 (ucast (outof ! 2) AND 0xff) OR (ucast (outof ! 3) AND 0xff),
      push_bit 24 (ucast (outof ! 4) AND 0xff) OR push_bit 16 (ucast (outof ! 5) AND 0xff) OR
        push_bit 8 (ucast (outof ! 6) AND 0xff) OR (ucast (outof ! 7) AND 0xff))"

definition unscrun :: "u64 \<times> u64 \<Rightarrow> byte list" where
  "unscrun outof =
     [ucast (drop_bit 24 (fst outof) AND 0xff), ucast (drop_bit 16 (fst outof) AND 0xff),
      ucast (drop_bit 8 (fst outof) AND 0xff), ucast (fst outof AND 0xff),
      ucast (drop_bit 24 (snd outof) AND 0xff), ucast (drop_bit 16 (snd outof) AND 0xff),
      ucast (drop_bit 8 (snd outof) AND 0xff), ucast (snd outof AND 0xff)]"

text \<open>\<^verbatim>\<open>desfunc\<close> in three parts: the initial permutation, the rounds and the final permutation.\<close>

definition desfunc_initial :: "u64 \<times> u64 \<Rightarrow> u64 \<times> u64" where
  "desfunc_initial block =
     (let leftt = fst block; right = snd block;
          work = (drop_bit 4 leftt XOR right) AND 0x0f0f0f0f;
          right = right XOR work;
          leftt = leftt XOR push_bit 4 work;
          work = (drop_bit 16 leftt XOR right) AND 0x0000ffff;
          right = right XOR work;
          leftt = leftt XOR push_bit 16 work;
          work = (drop_bit 2 right XOR leftt) AND 0x33333333;
          leftt = leftt XOR work;
          right = right XOR push_bit 2 work;
          work = (drop_bit 8 right XOR leftt) AND 0x00ff00ff;
          leftt = leftt XOR work;
          right = right XOR push_bit 8 work;
          right = (push_bit 1 right OR (drop_bit 31 right AND 1)) AND 0xffffffff;
          work = (leftt XOR right) AND 0xaaaaaaaa;
          leftt = leftt XOR work;
          right = right XOR work;
          leftt = (push_bit 1 leftt OR (drop_bit 31 leftt AND 1)) AND 0xffffffff
      in (leftt, right))"

definition desfunc_fval :: "u64 \<Rightarrow> u64 \<Rightarrow> u64 \<Rightarrow> u64" where
  "desfunc_fval right key0 key1 =
     (let work = push_bit 28 right OR drop_bit 4 right;
          work = work XOR key0;
          fval = SP7 ! unat (work AND 0x3f);
          fval = fval OR SP5 ! unat (drop_bit 8 work AND 0x3f);
          fval = fval OR SP3 ! unat (drop_bit 16 work AND 0x3f);
          fval = fval OR SP1 ! unat (drop_bit 24 work AND 0x3f);
          work = right XOR key1;
          fval = fval OR SP8 ! unat (work AND 0x3f);
          fval = fval OR SP6 ! unat (drop_bit 8 work AND 0x3f);
          fval = fval OR SP4 ! unat (drop_bit 16 work AND 0x3f);
          fval = fval OR SP2 ! unat (drop_bit 24 work AND 0x3f)
      in fval)"

fun desfunc_rounds :: "nat \<Rightarrow> u64 list \<Rightarrow> u64 \<times> u64 \<Rightarrow> u64 \<times> u64" where
  "desfunc_rounds 0 keys lr = lr"
| "desfunc_rounds (Suc n) keys (leftt, right) =
     (let leftt = leftt XOR desfunc_fval right (keys ! 0) (keys ! 1);
          right = right XOR desfunc_fval leftt (keys ! 2) (keys ! 3)
      in desfunc_rounds n (drop 4 keys) (leftt, right))"

definition desfunc_final :: "u64 \<times> u64 \<Rightarrow> u64 \<times> u64" where
  "desfunc_final lr =
     (let leftt = fst lr; right = snd lr;
          right = push_bit 31 right OR drop_bit 1 right;
          work = (leftt XOR right) AND 0xaaaaaaaa;
          leftt = leftt XOR work;
          right = right XOR work;
          leftt = push_bit 31 leftt OR drop_bit 1 leftt;
          work = (drop_bit 8 leftt XOR right) AND 0x00ff00ff;
          right = right XOR work;
          leftt = leftt XOR push_bit 8 work;
          work = (drop_bit 2 leftt XOR right) AND 0x33333333;
          right = right XOR work;
          leftt = leftt XOR push_bit 2 work;
          work = (drop_bit 16 right XOR leftt) AND 0x0000ffff;
          leftt = leftt XOR work;
          right = right XOR push_bit 16 work;
          work = (drop_bit 4 right XOR leftt) AND 0x0f0f0f0f;
          leftt = leftt XOR work;
          right = right XOR push_bit 4 work
      in (right, leftt))"

definition desfunc :: "u64 \<times> u64 \<Rightarrow> u64 list \<Rightarrow> u64 \<times> u64" where
  "desfunc block keys = desfunc_final (desfunc_rounds 8 keys (desfunc_initial block))"

fun cookey_loop :: "u64 list \<Rightarrow> u64 list" where
  "cookey_loop (raw0 # raw1 # raw) =
     (let cook0 = push_bit 6 (raw0 AND 0x00fc0000) OR push_bit 10 (raw0 AND 0x00000fc0) OR
            drop_bit 10 (raw1 AND 0x00fc0000) OR drop_bit 6 (raw1 AND 0x00000fc0);
          cook1 = push_bit 12 (raw0 AND 0x0003f000) OR push_bit 16 (raw0 AND 0x0000003f) OR
            drop_bit 4 (raw1 AND 0x0003f000) OR (raw1 AND 0x0000003f)
      in cook0 # cook1 # cookey_loop raw)"
| "cookey_loop raw = []"

definition usekey :: "DES \<Rightarrow> u64 list \<Rightarrow> DES" where
  "usekey d from = d\<lparr>KnL := take 32 from\<rparr>"

definition cookey :: "DES \<Rightarrow> u64 list \<Rightarrow> DES" where
  "cookey d raw1 = usekey d (cookey_loop raw1)"

definition deskey_pc1m :: "byte list \<Rightarrow> bool list" where
  "deskey_pc1m key = map (\<lambda>l. ucast (key ! (l div 8)) AND bytebit ! (l mod 8) \<noteq> 0) pc1"

definition deskey_pcr :: "bool list \<Rightarrow> nat \<Rightarrow> bool list" where
  "deskey_pcr pc1m i =
     map (\<lambda>j. let l = j + totrot ! i in if l < 28 then pc1m ! l else pc1m ! (l - 28)) [0..<28] @
     map (\<lambda>j. let l = j + totrot ! i in if l < 56 then pc1m ! l else pc1m ! (l - 28)) [28..<56]"

text \<open>The two halves of a raw subkey: the 24 bits selected by \<^verbatim>\<open>pc2\<close> from the offset \<open>o\<close> on.\<close>

definition deskey_half :: "bool list \<Rightarrow> nat \<Rightarrow> u64" where
  "deskey_half pcr off = foldl (\<lambda>kn j. if pcr ! (pc2 ! (j + off)) then kn OR bigbyte ! j else kn) 0 [0..<24]"

text \<open>\<open>kn0\<close> is the uninitialised local array \<^verbatim>\<open>kn\<close>; the loop assigns all its elements.\<close>

definition deskey_kn :: "u64 list \<Rightarrow> byte list \<Rightarrow> Mode \<Rightarrow> u64 list" where
  "deskey_kn kn0 key md =
     (let pc1m = deskey_pc1m key in
      foldl (\<lambda>kn i. let m = (if md = DECRYPT then 2 * (15 - i) else 2 * i); pcr = deskey_pcr pc1m i
                    in kn[m := deskey_half pcr 0, m + 1 := deskey_half pcr 24]) kn0 [0..<16])"

definition deskey :: "DES \<Rightarrow> u64 list \<Rightarrow> byte list \<Rightarrow> Mode \<Rightarrow> DES" where
  "deskey d kn0 key md = cookey d (deskey_kn kn0 key md)"

text \<open>Eight bytes are read and eight bytes are written, so input and output may be the same array.\<close>

definition des_block :: "DES \<Rightarrow> byte list \<Rightarrow> byte list" where
  "des_block d inp = unscrun (desfunc (scrunch inp) (KnL d))"

text \<open>The mode loops work in place: \<^verbatim>\<open>in\<close> and \<^verbatim>\<open>out\<close> are the same array; bytes behind the last block stay.\<close>

fun des_ecb :: "DES \<Rightarrow> byte list \<Rightarrow> nat \<Rightarrow> byte list" where
  "des_ecb d data 0 = data"
| "des_ecb d data (Suc blocks) = des_block d data @ des_ecb d (drop 8 data) blocks"

fun cbc_enc_loop :: "DES \<Rightarrow> byte list \<Rightarrow> byte list \<Rightarrow> nat \<Rightarrow> byte list" where
  "cbc_enc_loop d CBCVector data 0 = data"
| "cbc_enc_loop d CBCVector data (Suc blocks) =
     (let inbuf = take 8 data;
          CBCbuf = map (\<lambda>j. CBCVector ! j XOR inbuf ! j) [0..<8];
          out = des_block d CBCbuf
      in out @ cbc_enc_loop d out (drop 8 data) blocks)"

definition cbc_enc :: "DES \<Rightarrow> byte list \<Rightarrow> nat \<Rightarrow> byte list" where
  "cbc_enc d data blocks = cbc_enc_loop d (replicate 8 0) data blocks"

fun cbc_dec_loop :: "DES \<Rightarrow> byte list \<Rightarrow> byte list \<Rightarrow> nat \<Rightarrow> byte list" where
  "cbc_dec_loop d CBCVector data 0 = data"
| "cbc_dec_loop d CBCVector data (Suc blocks) =
     (let inbuf = take 8 data;
          out = des_block d data;
          CBCbuf = map (\<lambda>j. CBCVector ! j XOR out ! j) [0..<8]
      in CBCbuf @ cbc_dec_loop d inbuf (drop 8 data) blocks)"

text \<open>\<^verbatim>\<open>cbc_dec\<close> is only called with at least one block, and treats the first one apart.\<close>

definition cbc_dec :: "DES \<Rightarrow> byte list \<Rightarrow> nat \<Rightarrow> byte list" where
  "cbc_dec d data blocks =
     des_block d data @ cbc_dec_loop d (take 8 data) (drop 8 data) (blocks - 1)"

text \<open>
  \<^verbatim>\<open>encrypt\<close> and \<^verbatim>\<open>decrypt\<close>: the return code, the data and the object. \<open>None\<close> is the null pointer, \<open>blocks\<close> and
  \<open>mode\<close> are signed.
\<close>

definition DES_encrypt :: "DES \<Rightarrow> u64 list \<Rightarrow> byte list \<Rightarrow> byte list option \<Rightarrow> int \<Rightarrow> int \<Rightarrow> int \<times> byte list option \<times> DES" where
  "DES_encrypt d kn0 key data blocks mode =
     (case data of
        None \<Rightarrow> (0, None, d)
      | Some data \<Rightarrow>
          if blocks < 1 then (0, Some data, d)
          else let d = deskey d kn0 key ENCRYPT in
               if mode = 1 then (1, Some (cbc_enc d data (nat blocks)), d)
               else (1, Some (des_ecb d data (nat blocks)), d))"

definition DES_decrypt :: "DES \<Rightarrow> u64 list \<Rightarrow> byte list \<Rightarrow> byte list option \<Rightarrow> int \<Rightarrow> int \<Rightarrow> int \<times> byte list option \<times> DES" where
  "DES_decrypt d kn0 key data blocks mode =
     (case data of
        None \<Rightarrow> (0, None, d)
      | Some data \<Rightarrow>
          if blocks < 1 then (0, Some data, d)
          else let d = deskey d kn0 key DECRYPT in
               if mode = 1 then (1, Some (cbc_dec d data (nat blocks)), d)
               else (1, Some (des_ecb d data (nat blocks)), d))"

subsection \<open>Exchanging bit groups\<close>

definition dswap :: "nat \<Rightarrow> 'a::len word \<Rightarrow> 'a word \<times> 'a word \<Rightarrow> 'a word \<times> 'a word" where
  "dswap k m lr = (let w = (drop_bit k (fst lr) XOR snd lr) AND m in (fst lr XOR push_bit k w, snd lr XOR w))"

abbreviation low :: "u64 \<Rightarrow> u32" where
  "low \<equiv> ucast"

definition low2 :: "u64 \<times> u64 \<Rightarrow> u32 \<times> u32" where
  "low2 lr = (low (fst lr), low (snd lr))"

definition fits :: "u64 \<Rightarrow> bool" where
  "fits x \<longleftrightarrow> take_bit 32 x = x"

lemma low_xor: "low (x XOR y) = low x XOR low y"
  by (rule bit_word_eqI) (simp add: bit_simps)

lemma low_and: "low (x AND y) = low x AND low y"
  by (rule bit_word_eqI) (auto simp: bit_simps)

lemma low_push: "low (push_bit k x) = push_bit k (low x)"
  by (rule bit_word_eqI) (auto simp: bit_simps)

lemma low2_dswap:
  assumes m: "take_bit (32 - k) (low m) = low m"
  shows "low2 (dswap k m lr) = dswap k (low m) (low2 lr)"
proof -
  have "low ((drop_bit k (fst lr) XOR snd lr) AND m) = (drop_bit k (low (fst lr)) XOR low (snd lr)) AND low m"
  proof (rule bit_word_eqI)
    fix n assume n: "n < LENGTH(32)"
    have "n < 32 - k" if "bit m n"
      using m that n by (metis bit_take_bit_iff bit_ucast_iff)
    with n show "bit (low ((drop_bit k (fst lr) XOR snd lr) AND m)) n =
        bit ((drop_bit k (low (fst lr)) XOR low (snd lr)) AND low m) n"
      by (auto simp: bit_simps)
  qed
  then show ?thesis
    unfolding low2_def dswap_def Let_def fst_conv snd_conv low_xor low_push by (simp only:)
qed

lemma dswap_dswap:
  fixes m :: "'a::len word"
  assumes "take_bit (LENGTH('a) - k) m = m"
  shows "dswap k m (dswap k m lr) = lr"
proof -
  define w where "w = (drop_bit k (fst lr) XOR snd lr) AND m"
  have "(drop_bit k (fst lr XOR push_bit k w) XOR (snd lr XOR w)) AND m = w"
  proof (rule bit_word_eqI)
    fix n assume n: "n < LENGTH('a)"
    have "n < LENGTH('a) - k" if "bit m n"
      using assms that by (metis bit_take_bit_iff)
    with n show "bit ((drop_bit k (fst lr XOR push_bit k w) XOR (snd lr XOR w)) AND m) n = bit w n"
      unfolding w_def by (auto simp: bit_simps)
  qed
  then show ?thesis
    by (simp add: dswap_def Let_def xor_cancel_right flip: w_def)
qed

text \<open>The two permutations on 32-bit words, as sequences of exchanges and rotations.\<close>

definition perm_initial :: "u32 \<times> u32 \<Rightarrow> u32 \<times> u32" where
  "perm_initial lr =
     (let (l, r) = dswap 16 0x0000ffff (dswap 4 0x0f0f0f0f lr);
          (r, l) = dswap 8 0x00ff00ff (dswap 2 0x33333333 (r, l));
          (l, r) = dswap 0 0xaaaaaaaa (l, word_rotl 1 r)
      in (word_rotl 1 l, r))"

definition perm_final :: "u32 \<times> u32 \<Rightarrow> u32 \<times> u32" where
  "perm_final lr =
     (let (l, r) = dswap 0 0xaaaaaaaa (fst lr, word_rotr 1 (snd lr));
          (l, r) = dswap 2 0x33333333 (dswap 8 0x00ff00ff (word_rotr 1 l, r))
      in dswap 4 0x0f0f0f0f (dswap 16 0x0000ffff (r, l)))"

lemma mask_ok:
  "take_bit (32 - 16) (0x0000ffff :: u32) = 0x0000ffff" "take_bit (32 - 4) (0x0f0f0f0f :: u32) = 0x0f0f0f0f"
  "take_bit (32 - 8) (0x00ff00ff :: u32) = 0x00ff00ff" "take_bit (32 - 2) (0x33333333 :: u32) = 0x33333333"
  "take_bit (32 - 0) (0xaaaaaaaa :: u32) = 0xaaaaaaaa"
  by simp_all

lemma dswap_inverse:
  "dswap 16 0x0000ffff (dswap 16 0x0000ffff lr) = (lr :: u32 \<times> u32)"
  "dswap 4 0x0f0f0f0f (dswap 4 0x0f0f0f0f lr) = (lr :: u32 \<times> u32)"
  "dswap 8 0x00ff00ff (dswap 8 0x00ff00ff lr) = (lr :: u32 \<times> u32)"
  "dswap 2 0x33333333 (dswap 2 0x33333333 lr) = (lr :: u32 \<times> u32)"
  "dswap 0 0xaaaaaaaa (dswap 0 0xaaaaaaaa lr) = (lr :: u32 \<times> u32)"
  by (rule dswap_dswap, simp)+


lemma rot_inverse: "word_rotr 1 (word_rotl 1 (x :: u32)) = x" "word_rotl 1 (word_rotr 1 (x :: u32)) = x"
  by (rule word_rot_lr word_rot_rl)+

lemma dswap_sym: "dswap 0 m (a, b) = prod.swap (dswap 0 m (b, a))"
  by (simp add: dswap_def Let_def xor.commute)

lemma perm_final_initial: "perm_final (prod.swap (perm_initial lr)) = lr"
proof -
  obtain l1 r1 where 1: "dswap 16 0x0000ffff (dswap 4 0x0f0f0f0f lr) = (l1, r1)" by force
  obtain r2 l2 where 2: "dswap 8 0x00ff00ff (dswap 2 0x33333333 (r1, l1)) = (r2, l2)" by force
  obtain l3 r3 where 3: "dswap 0 0xaaaaaaaa (l2, word_rotl 1 r2) = (l3, r3)" by force
  have e3: "dswap 0 0xaaaaaaaa (r3, l3) = (word_rotl 1 r2, l2)"
    using dswap_inverse(5) [of "(l2, word_rotl 1 r2)"] unfolding 3 by (simp add: dswap_sym [of _ r3 l3])
  have e2: "dswap 2 0x33333333 (dswap 8 0x00ff00ff (r2, l2)) = (r1, l1)"
    unfolding 2 [symmetric] by (simp only: dswap_inverse)
  have e1: "dswap 4 0x0f0f0f0f (dswap 16 0x0000ffff (l1, r1)) = lr"
    unfolding 1 [symmetric] by (simp only: dswap_inverse)
  show ?thesis
    by (simp only: perm_final_def perm_initial_def Let_def prod.case swap_simp fst_conv snd_conv 1 2 3 e3 e2 e1
        rot_inverse)
qed

lemma perm_initial_final: "perm_initial (perm_final lr) = prod.swap lr"
proof -
  obtain l r where lr: "lr = (l, r)" by force
  obtain l1 r1 where 1: "dswap 0 0xaaaaaaaa (l, word_rotr 1 r) = (l1, r1)" by force
  obtain l2 r2 where 2: "dswap 2 0x33333333 (dswap 8 0x00ff00ff (word_rotr 1 l1, r1)) = (l2, r2)" by force
  obtain r3 l3 where 3: "dswap 4 0x0f0f0f0f (dswap 16 0x0000ffff (r2, l2)) = (r3, l3)" by force
  have e3: "dswap 16 0x0000ffff (dswap 4 0x0f0f0f0f (r3, l3)) = (r2, l2)"
    unfolding 3 [symmetric] by (simp only: dswap_inverse)
  have e2: "dswap 8 0x00ff00ff (dswap 2 0x33333333 (l2, r2)) = (word_rotr 1 l1, r1)"
    unfolding 2 [symmetric] by (simp only: dswap_inverse)
  have e1: "dswap 0 0xaaaaaaaa (r1, l1) = (word_rotr 1 r, l)"
    using dswap_inverse(5) [of "(l, word_rotr 1 r)"] unfolding 1 by (simp add: dswap_sym [of _ r1 l1])
  show ?thesis
    by (simp only: perm_final_def perm_initial_def Let_def prod.case swap_simp fst_conv snd_conv lr 1 2 3 e3 e2 e1
        rot_inverse)
qed


subsection \<open>The permutations of the code\<close>

definition fits2 :: "u64 \<times> u64 \<Rightarrow> bool" where
  "fits2 lr \<longleftrightarrow> fits (fst lr) \<and> fits (snd lr)"

lemma low_masks:
  "low 0x0000ffff = 0x0000ffff" "low 0x0f0f0f0f = 0x0f0f0f0f" "low 0x00ff00ff = 0x00ff00ff"
  "low 0x33333333 = 0x33333333" "low 0xaaaaaaaa = 0xaaaaaaaa"
  by simp_all

lemma low2_dswaps:
  "low2 (dswap 16 0x0000ffff lr) = dswap 16 0x0000ffff (low2 lr)"
  "low2 (dswap 4 0x0f0f0f0f lr) = dswap 4 0x0f0f0f0f (low2 lr)"
  "low2 (dswap 8 0x00ff00ff lr) = dswap 8 0x00ff00ff (low2 lr)"
  "low2 (dswap 2 0x33333333 lr) = dswap 2 0x33333333 (low2 lr)"
  "low2 (dswap 0 0xaaaaaaaa lr) = dswap 0 0xaaaaaaaa (low2 lr)"
  by (subst low2_dswap, simp_all only: low_masks mask_ok)+

lemma fits_bit: "fits x \<Longrightarrow> bit x n \<Longrightarrow> n < 32"
  by (metis fits_def bit_take_bit_iff)

lemma fitsI: "(\<And>n. bit x n \<Longrightarrow> n < 32) \<Longrightarrow> fits x"
  unfolding fits_def by (rule bit_word_eqI) (auto simp: bit_simps)

lemma fits_xor: "fits x \<Longrightarrow> fits y \<Longrightarrow> fits (x XOR y)"
  by (auto simp: fits_def take_bit_xor)

lemma fits_or: "fits x \<Longrightarrow> fits y \<Longrightarrow> fits (x OR y)"
  by (auto simp: fits_def take_bit_or)

lemma fits_and: "fits y \<Longrightarrow> fits (x AND y)"
  by (rule fitsI) (auto simp: bit_simps dest: fits_bit)

lemma fits_ucast: "fits x \<Longrightarrow> ucast (low x) = x"
  by (rule bit_word_eqI) (auto simp: bit_simps dest: fits_bit)

lemma low_inj: "fits x \<Longrightarrow> fits y \<Longrightarrow> low x = low y \<Longrightarrow> x = y"
  by (metis fits_ucast)

lemma mask32: "(0xffffffff :: u64) = mask 32" "(1 :: u64) = mask 1"
  by (simp_all add: mask_eq_exp_minus_1)

definition rotl1 :: "u64 \<Rightarrow> u64" where
  "rotl1 x = (push_bit 1 x OR (drop_bit 31 x AND 1)) AND 0xffffffff"

lemma rotl1: "low (rotl1 x) = word_rotl 1 (low x)" "fits (rotl1 x)"
proof -
  show "fits (rotl1 x)"
    unfolding rotl1_def mask32(1) by (rule fitsI) (auto simp: bit_simps)
  have "word_rotl 1 (low x) = push_bit 1 (low x) OR drop_bit 31 (low x)"
    using rotl_shifts [of 1 "low x"] by simp
  moreover have "low (rotl1 x) = push_bit 1 (low x) OR drop_bit 31 (low x)"
    unfolding rotl1_def mask32 by (rule bit_word_eqI, unfold bit_simps) auto
  ultimately show "low (rotl1 x) = word_rotl 1 (low x)"
    by simp
qed

definition rotr1 :: "u64 \<Rightarrow> u64" where
  "rotr1 x = push_bit 31 x OR drop_bit 1 x"

lemma rotr1: "fits x \<Longrightarrow> low (rotr1 x) = word_rotr 1 (low x)"
proof -
  assume "fits x"
  then have "low (rotr1 x) = drop_bit 1 (low x) OR push_bit 31 (low x)"
    unfolding rotr1_def by (intro bit_word_eqI) (auto simp: bit_simps dest: fits_bit)
  then show ?thesis
    using rotr_shifts [of 1 "low x"] by simp
qed


lemma shift_0: "push_bit 0 x = (x :: u64)" "drop_bit 0 x = (x :: u64)"
  by simp_all

lemma desfunc_initial_dswap:
  "desfunc_initial block =
     (let (l, r) = dswap 16 0x0000ffff (dswap 4 0x0f0f0f0f block);
          (r, l) = dswap 8 0x00ff00ff (dswap 2 0x33333333 (r, l));
          (l, r) = dswap 0 0xaaaaaaaa (l, rotl1 r)
      in (rotl1 l, r))"
  unfolding desfunc_initial_def dswap_def Let_def case_prod_beta fst_conv snd_conv rotl1_def shift_0
  by (rule refl)

lemma desfunc_final_dswap:
  "desfunc_final lr =
     (let (l, r) = dswap 0 0xaaaaaaaa (fst lr, rotr1 (snd lr));
          (l, r) = dswap 2 0x33333333 (dswap 8 0x00ff00ff (rotr1 l, r))
      in dswap 4 0x0f0f0f0f (dswap 16 0x0000ffff (r, l)))"
  unfolding desfunc_final_def dswap_def Let_def case_prod_beta fst_conv snd_conv rotr1_def shift_0
  by (rule refl)

lemma low2_Pair [simp]: "low2 (a, b) = (low a, low b)"
  by (simp add: low2_def)

lemma initial_low: "low2 (desfunc_initial block) = perm_initial (low2 block)"
proof -
  obtain l1 r1 where 1: "dswap 16 0x0000ffff (dswap 4 0x0f0f0f0f block) = (l1, r1)" by force
  obtain r2 l2 where 2: "dswap 8 0x00ff00ff (dswap 2 0x33333333 (r1, l1)) = (r2, l2)" by force
  obtain l3 r3 where 3: "dswap 0 0xaaaaaaaa (l2, rotl1 r2) = (l3, r3)" by force
  note q = arg_cong [where f = low2, OF 1, unfolded low2_dswaps low2_Pair]
    arg_cong [where f = low2, OF 2, unfolded low2_dswaps low2_Pair]
    arg_cong [where f = low2, OF 3, unfolded low2_dswaps low2_Pair rotl1]
  show ?thesis
    by (simp only: desfunc_initial_dswap perm_initial_def Let_def prod.case 1 2 3 q low2_Pair rotl1)
qed

lemma initial_fits: "fits2 (desfunc_initial block)"
proof -
  have m: "fits 0xaaaaaaaa"
    by (simp add: fits_def)
  obtain l1 r1 where 1: "dswap 16 0x0000ffff (dswap 4 0x0f0f0f0f block) = (l1, r1)" by force
  obtain r2 l2 where 2: "dswap 8 0x00ff00ff (dswap 2 0x33333333 (r1, l1)) = (r2, l2)" by force
  obtain l3 r3 where 3: "dswap 0 0xaaaaaaaa (l2, rotl1 r2) = (l3, r3)" by force
  have "r3 = rotl1 r2 XOR ((drop_bit 0 l2 XOR rotl1 r2) AND 0xaaaaaaaa)"
    using 3 by (simp only: dswap_def Let_def fst_conv snd_conv prod.inject)
  then have "fits r3"
    by (simp only: fits_xor fits_and m rotl1)
  then show ?thesis
    unfolding desfunc_initial_dswap Let_def 1 2 3 prod.case fits2_def fst_conv snd_conv by (simp only: rotl1 simp_thms)
qed

lemma final_low:
  assumes "fits2 lr"
  shows "low2 (desfunc_final lr) = perm_final (low2 lr)"
proof -
  have m: "fits 0xaaaaaaaa"
    by (simp add: fits_def)
  obtain l1 r1 where 1: "dswap 0 0xaaaaaaaa (fst lr, rotr1 (snd lr)) = (l1, r1)" by force
  obtain l2 r2 where 2: "dswap 2 0x33333333 (dswap 8 0x00ff00ff (rotr1 l1, r1)) = (l2, r2)" by force
  have "l1 = fst lr XOR push_bit 0 ((drop_bit 0 (fst lr) XOR rotr1 (snd lr)) AND 0xaaaaaaaa)"
    using 1 by (simp only: dswap_def Let_def fst_conv snd_conv prod.inject)
  then have l1: "fits l1"
    using assms by (simp only: fits2_def fits_xor fits_and m shift_0)
  have r: "low (rotr1 (snd lr)) = word_rotr 1 (low (snd lr))"
    using assms by (simp only: fits2_def rotr1)
  note q = arg_cong [where f = low2, OF 1, unfolded low2_dswaps low2_Pair r]
    arg_cong [where f = low2, OF 2, unfolded low2_dswaps low2_Pair rotr1 [OF l1]]
  show ?thesis
    by (simp only: desfunc_final_dswap perm_final_def Let_def prod.case 1 2 q low2_Pair low2_dswaps low2_def
        [of lr] fst_conv snd_conv)
qed

subsection \<open>The rounds\<close>

lemma SP_fits:
  "list_all fits SP1" "list_all fits SP2" "list_all fits SP3" "list_all fits SP4"
  "list_all fits SP5" "list_all fits SP6" "list_all fits SP7" "list_all fits SP8"
  by (simp_all add: SP1_def SP2_def SP3_def SP4_def SP5_def SP6_def SP7_def SP8_def fits_def)

lemma SP_length:
  "length SP1 = 64" "length SP2 = 64" "length SP3 = 64" "length SP4 = 64"
  "length SP5 = 64" "length SP6 = 64" "length SP7 = 64" "length SP8 = 64"
  by (simp_all add: SP1_def SP2_def SP3_def SP4_def SP5_def SP6_def SP7_def SP8_def)

lemma index_less: "unat (x AND 0x3f :: u64) < 64"
proof -
  have "x AND 0x3f = take_bit 6 x"
    by (simp add: take_bit_eq_mask mask_eq_exp_minus_1)
  then have "unat (x AND 0x3f) < 2 ^ 6"
    unfolding unsigned_take_bit_eq by (metis take_bit_nat_less_exp unsigned_take_bit_eq)
  then show ?thesis by simp
qed

lemma fits_nth: "list_all fits t \<Longrightarrow> i < length t \<Longrightarrow> fits (t ! i)"
  by (simp add: list_all_length)

lemma fval_fits: "fits (desfunc_fval r k0 k1)"
  unfolding desfunc_fval_def Let_def
  by (intro fits_or SP_fits [THEN fits_nth]; simp only: SP_length index_less)


text \<open>A Feistel half round with the halves exchanged, and the pairs of words that are the subkeys.\<close>

definition half_round :: "('k \<Rightarrow> 'a::len word \<Rightarrow> 'a word) \<Rightarrow> 'a word \<times> 'a word \<Rightarrow> 'k \<Rightarrow> 'a word \<times> 'a word" where
  "half_round F lr k = (snd lr, fst lr XOR F k (snd lr))"

fun pair_up :: "'a list \<Rightarrow> ('a \<times> 'a) list" where
  "pair_up (a # b # xs) = (a, b) # pair_up xs"
| "pair_up xs = []"

lemma half_round_undo: "half_round F (prod.swap (half_round F lr k)) k = prod.swap lr"
  by (cases lr) (simp add: half_round_def xor_cancel_right)

lemma feistel_undo: "foldl (half_round F) (prod.swap (foldl (half_round F) lr ks)) (rev ks) = prod.swap lr"
  by (induction ks arbitrary: lr) (simp_all add: half_round_undo)

abbreviation des_round :: "u64 \<times> u64 \<Rightarrow> u64 \<times> u64 \<Rightarrow> u64 \<times> u64" where
  "des_round \<equiv> half_round (\<lambda>(k0, k1) r. desfunc_fval r k0 k1)"

lemma desfunc_rounds_foldl:
  "length keys = 4 * n \<Longrightarrow> desfunc_rounds n keys lr = foldl des_round lr (pair_up keys)"
proof (induction n arbitrary: keys lr)
  case (Suc n)
  obtain l r where lr: "lr = (l, r)" by force
  obtain a b c d ks where "keys = a # b # c # d # ks" "length ks = 4 * n"
    using Suc.prems by (auto simp: numeral_eq_Suc length_Suc_conv)
  then show ?case
    using Suc.IH [of ks] by (simp add: lr half_round_def Let_def)
qed simp

lemma rounds_fits: "fits2 lr \<Longrightarrow> fits2 (foldl des_round lr ks)"
  by (induction ks arbitrary: lr) (auto simp: fits2_def half_round_def fits_xor fval_fits split: prod.split)

subsection \<open>One block\<close>

lemma fits_byte: "k \<le> 24 \<Longrightarrow> fits (push_bit k (ucast (b :: byte) AND 0xff))"
  by (rule fitsI) (auto simp: bit_push_bit_iff bit_and_iff bit_ucast_iff dest!: bit_imp_le_length)

lemma scrunch_fits: "fits2 (scrunch b)"
  using fits_byte [of 0] unfolding fits2_def scrunch_def fst_conv snd_conv shift_0
  by (intro conjI fits_or fits_byte; simp)

lemma nth_8:
  "[a, b, c, d, e, f, g, h] ! 0 = a" "[a, b, c, d, e, f, g, h] ! 1 = b" "[a, b, c, d, e, f, g, h] ! 2 = c"
  "[a, b, c, d, e, f, g, h] ! 3 = d" "[a, b, c, d, e, f, g, h] ! 4 = e" "[a, b, c, d, e, f, g, h] ! 5 = f"
  "[a, b, c, d, e, f, g, h] ! 6 = g" "[a, b, c, d, e, f, g, h] ! 7 = h"
  by simp_all

lemma scrunch_low: "low2 (scrunch (unscrun lr)) = low2 lr"
proof -
  have m: "(0xff :: u64) = mask 8"
    by (simp add: mask_eq_exp_minus_1)
  have "low (push_bit 24 (ucast (ucast (drop_bit 24 x AND 0xff) :: byte) AND 0xff) OR
      push_bit 16 (ucast (ucast (drop_bit 16 x AND 0xff) :: byte) AND 0xff) OR
      push_bit 8 (ucast (ucast (drop_bit 8 x AND 0xff) :: byte) AND 0xff) OR
      (ucast (ucast (x AND 0xff) :: byte) AND 0xff)) = low x" for x :: u64
  proof (rule bit_word_eqI)
    fix n assume n: "n < LENGTH(32)"
    then consider "n < 8" | "8 \<le> n" "n < 16" | "16 \<le> n" "n < 24" | "24 \<le> n" "n < 32"
      by fastforce
    then show "bit (low (push_bit 24 (ucast (ucast (drop_bit 24 x AND 0xff) :: byte) AND 0xff) OR
      push_bit 16 (ucast (ucast (drop_bit 16 x AND 0xff) :: byte) AND 0xff) OR
      push_bit 8 (ucast (ucast (drop_bit 8 x AND 0xff) :: byte) AND 0xff) OR
      (ucast (ucast (x AND 0xff) :: byte) AND 0xff))) n = bit (low x) n"
      unfolding m by cases (simp_all add: bit_simps less_diff_conv2)
  qed
  then show ?thesis
    by (simp only: low2_def scrunch_def unscrun_def nth_8 fst_conv snd_conv)
qed

lemma unscrun_low: "low2 x = low2 y \<Longrightarrow> unscrun x = unscrun y"
proof -
  have "ucast (drop_bit k x AND 0xff) = (ucast (drop_bit k (low x) AND 0xff) :: byte)" if "k \<le> 24" for k and x :: u64
    using that by (intro byte_bits_eqI) (simp_all add: bit_simps)
  moreover have "ucast (x AND 0xff) = (ucast (low x AND 0xff) :: byte)" for x :: u64
    by (intro byte_bits_eqI) (simp_all add: bit_simps)
  ultimately show "low2 x = low2 y \<Longrightarrow> unscrun x = unscrun y"
    by (simp add: unscrun_def low2_def)
qed

lemma unscrun_scrunch: "8 \<le> length b \<Longrightarrow> unscrun (scrunch b) = take 8 b"
proof -
  assume "8 \<le> length b"
  then have b: "take 8 b = [b ! 0, b ! 1, b ! 2, b ! 3, b ! 4, b ! 5, b ! 6, b ! 7]"
    by (intro nth_equalityI) (auto simp: less_Suc_eq numeral_eq_Suc)
  let ?w = "\<lambda>a b c d :: byte. push_bit 24 (ucast a AND 0xff) OR push_bit 16 (ucast b AND 0xff) OR
        push_bit 8 (ucast c AND 0xff) OR (ucast d AND 0xff) :: u64"
  have m: "(0xff :: u64) = mask 8"
    by (simp add: mask_eq_exp_minus_1)
  have "ucast (drop_bit 24 (?w a b c d) AND 0xff) = a" "ucast (drop_bit 16 (?w a b c d) AND 0xff) = b"
    "ucast (drop_bit 8 (?w a b c d) AND 0xff) = c" "ucast (?w a b c d AND 0xff) = d" for a b c d :: byte
    unfolding m by (rule byte_bits_eqI; simp add: bit_simps)+
  then show ?thesis
    by (simp only: b unscrun_def scrunch_def fst_conv snd_conv)
qed

lemma swap_low2: "low2 (prod.swap x) = prod.swap (low2 x)"
  by (simp add: low2_def)

lemma low2_inj: "fits2 x \<Longrightarrow> fits2 y \<Longrightarrow> low2 x = low2 y \<Longrightarrow> x = y"
  by (auto simp: fits2_def low2_def prod_eq_iff intro: low_inj)

lemma des_block_undo:
  assumes "length (KnL d) = 32" and "length (KnL d') = 32" and "pair_up (KnL d') = rev (pair_up (KnL d))"
    and "8 \<le> length b"
  shows "des_block d' (des_block d b) = take 8 b"
proof -
  let ?I = "desfunc_initial (scrunch b)" and ?ks = "pair_up (KnL d)"
  let ?R = "foldl des_round ?I ?ks"
  have fR: "fits2 ?R" "fits2 (prod.swap ?R)" "fits2 (prod.swap ?I)"
    using rounds_fits [OF initial_fits] initial_fits [of "scrunch b"] by (auto simp: fits2_def)
  have r1: "desfunc_rounds 8 (KnL d) x = foldl des_round x ?ks" for x
    using assms(1) by (intro desfunc_rounds_foldl) simp
  have r2: "desfunc_rounds 8 (KnL d') x = foldl des_round x (rev ?ks)" for x
    unfolding assms(3) [symmetric] using assms(2) by (intro desfunc_rounds_foldl) simp
  have "low2 (desfunc_initial (scrunch (unscrun (desfunc_final ?R)))) = low2 (prod.swap ?R)"
    by (simp only: initial_low scrunch_low final_low [OF fR(1)] perm_initial_final swap_low2)
  then have "desfunc_initial (scrunch (unscrun (desfunc_final ?R))) = prod.swap ?R"
    by (rule low2_inj [OF initial_fits fR(2)])
  then have "desfunc (scrunch (des_block d b)) (KnL d') = desfunc_final (prod.swap ?I)"
    by (simp only: desfunc_def r1 r2 des_block_def feistel_undo)
  moreover have bk: "low2 (desfunc_final (prod.swap ?I)) = low2 (scrunch b)"
    by (simp only: final_low [OF fR(3)] swap_low2 initial_low perm_final_initial)
  ultimately have "des_block d' (des_block d b) = unscrun (scrunch b)"
    unfolding des_block_def [of d'] by (simp only: unscrun_low [OF bk])
  then show ?thesis
    using unscrun_scrunch [OF assms(4)] by simp
qed

subsection \<open>The key schedule\<close>

lemma foldl_pairs_up:
  "2 * n \<le> length kn \<Longrightarrow> foldl (\<lambda>kn i. kn[2 * i := a i, 2 * i + 1 := b i]) kn [0..<n] =
     concat (map (\<lambda>i. [a i, b i]) [0..<n]) @ drop (2 * n) kn"
proof (induction n)
  case (Suc n)
  have l: "length (concat (map (\<lambda>i. [a i, b i]) [0..<n])) = 2 * n"
    by (induction n) simp_all
  have "drop (2 * n) kn = kn ! (2 * n) # kn ! Suc (2 * n) # drop (2 * Suc n) kn"
    using Suc.prems by (simp add: Cons_nth_drop_Suc)
  then show ?case
    using Suc by (simp add: list_update_append l)
qed simp

lemma foldl_pairs_down:
  "n \<le> k \<Longrightarrow> length kn = 2 * k \<Longrightarrow> foldl (\<lambda>kn i. kn[2 * (k - 1 - i) := a i, 2 * (k - 1 - i) + 1 := b i]) kn [0..<n] =
     take (2 * (k - n)) kn @ concat (map (\<lambda>i. [a i, b i]) (rev [0..<n]))"
proof (induction n)
  case (Suc n)
  let ?j = "2 * (k - Suc n)"
  have k: "k - 1 - n = k - Suc n" "2 * (k - n) = Suc (Suc ?j)"
    using Suc.prems by auto
  have "take (2 * (k - n)) kn = take ?j kn @ [kn ! ?j, kn ! Suc ?j]"
    using Suc.prems by (simp only: k) (simp add: take_Suc_conv_app_nth)
  moreover have "length (take ?j kn) = ?j"
    using Suc.prems by simp
  ultimately show ?case
    using Suc by (simp add: list_update_append k(1) del: length_take)
qed simp


definition raw_subkey :: "byte list \<Rightarrow> nat \<Rightarrow> u64 list" where
  "raw_subkey key i = (let pcr = deskey_pcr (deskey_pc1m key) i in [deskey_half pcr 0, deskey_half pcr 24])"

lemma deskey_kn_subkeys:
  assumes "length kn0 = 32"
  shows "deskey_kn kn0 key ENCRYPT = concat (map (raw_subkey key) [0..<16])"
    and "deskey_kn kn0 key DECRYPT = concat (map (raw_subkey key) (rev [0..<16]))"
proof -
  let ?a = "\<lambda>i. deskey_half (deskey_pcr (deskey_pc1m key) i) 0" and ?b = "\<lambda>i. deskey_half (deskey_pcr (deskey_pc1m key) i) 24"
  have s: "raw_subkey key = (\<lambda>i. [?a i, ?b i])"
    by (simp add: raw_subkey_def Let_def fun_eq_iff)
  show "deskey_kn kn0 key ENCRYPT = concat (map (raw_subkey key) [0..<16])"
    using foldl_pairs_up [of 16 kn0 ?a ?b] assms unfolding s deskey_kn_def Let_def by simp
  show "deskey_kn kn0 key DECRYPT = concat (map (raw_subkey key) (rev [0..<16]))"
    using foldl_pairs_down [of 16 16 kn0 ?a ?b] assms unfolding s deskey_kn_def Let_def by simp
qed

lemma length_concat_pairs: "length (concat (map (raw_subkey key) is)) = 2 * length is"
  by (induction "is") (simp_all add: raw_subkey_def Let_def)

lemma length_cookey_loop: "even (length raw) \<Longrightarrow> length (cookey_loop raw) = length raw"
  by (induction raw rule: cookey_loop.induct) (simp_all add: Let_def)

lemma pair_up_cookey: "\<exists>g. \<forall>raw. pair_up (cookey_loop raw) = map g (pair_up raw)"
proof -
  let ?g = "\<lambda>(a, b). (cookey_loop [a, b] ! 0, cookey_loop [a, b] ! 1)"
  have "pair_up (cookey_loop raw) = map ?g (pair_up raw)" for raw
    by (induction raw rule: cookey_loop.induct) (simp_all add: Let_def)
  then show ?thesis by blast
qed

lemma pair_up_subkeys:
  "pair_up (concat (map (raw_subkey key) is)) = map (\<lambda>i. (raw_subkey key i ! 0, raw_subkey key i ! 1)) is"
  by (induction "is") (simp_all add: raw_subkey_def Let_def)

lemma deskey_KnL:
  assumes "length kn0 = 32"
  shows "length (KnL (deskey d kn0 key md)) = 32"
    and "length kn1 = 32 \<Longrightarrow>
      pair_up (KnL (deskey d kn0 key DECRYPT)) = rev (pair_up (KnL (deskey d' kn1 key ENCRYPT)))"
proof -
  have K: "KnL (deskey e k key md) = cookey_loop (deskey_kn k key md)" "length (deskey_kn k key md) = 32"
    if "length k = 32" for e k md
  proof -
    show len: "length (deskey_kn k key md) = 32"
      using deskey_kn_subkeys [OF that, of key] length_concat_pairs [of key]
      by (cases md) (simp_all del: upt_rec_numeral)
    show "KnL (deskey e k key md) = cookey_loop (deskey_kn k key md)"
      using len length_cookey_loop [of "deskey_kn k key md"] by (simp add: deskey_def cookey_def usekey_def)
  qed
  show "length (KnL (deskey d kn0 key md)) = 32"
    using K [OF assms] by (simp add: length_cookey_loop)
  obtain g where g: "\<And>raw. pair_up (cookey_loop raw) = map g (pair_up raw)"
    using pair_up_cookey by blast
  show "length kn1 = 32 \<Longrightarrow>
      pair_up (KnL (deskey d kn0 key DECRYPT)) = rev (pair_up (KnL (deskey d' kn1 key ENCRYPT)))"
    using deskey_kn_subkeys assms
    by (simp add: K g pair_up_subkeys rev_map del: upt_rec_numeral)
qed

subsection \<open>Modes\<close>

lemma des_block_keys:
  assumes "length kn0 = 32" and "length kn1 = 32" and "8 \<le> length b"
  shows "des_block (deskey d kn0 key DECRYPT) (des_block (deskey d' kn1 key ENCRYPT) b) = take 8 b"
  using deskey_KnL [OF assms(1)] deskey_KnL [OF assms(2)] assms by (intro des_block_undo) simp_all

lemma length_des_block [simp]: "length (des_block d b) = 8"
  by (simp add: des_block_def unscrun_def)

lemma scrunch_take: "8 \<le> length b \<Longrightarrow> scrunch (take 8 b) = scrunch b"
  by (simp add: scrunch_def)

lemma des_block_append: "length x = 8 \<Longrightarrow> des_block d (x @ r) = des_block d x"
  using scrunch_take [of "x @ r"] by (simp add: des_block_def)

lemma length_des_ecb [simp]: "8 * n \<le> length data \<Longrightarrow> length (des_ecb d data n) = length data"
  by (induction n arbitrary: data) simp_all

text \<open>Two objects of which one undoes what the other does to a block: all the modes need.\<close>

locale des_pair =
  fixes e d :: DES
  assumes undo: "8 \<le> length b \<Longrightarrow> des_block d (des_block e b) = take 8 b"
begin

lemma ecb_undo: "8 * n \<le> length data \<Longrightarrow> des_ecb d (des_ecb e data n) n = data"
  by (induction n arbitrary: data) (simp_all add: des_block_append undo)

lemma cbc_undo:
  "length v = 8 \<Longrightarrow> 8 * n \<le> length data \<Longrightarrow> cbc_dec_loop d v (cbc_enc_loop e v data n) n = data"
proof (induction n arbitrary: v data)
  case (Suc n)
  let ?x = "map (\<lambda>j. v ! j XOR take 8 data ! j) [0..<8]"
  have "des_block d (des_block e ?x @ r) = ?x" for r
    using undo [of ?x] by (simp add: des_block_append)
  moreover have "map (\<lambda>j. v ! j XOR ?x ! j) [0..<8] = take 8 data"
    using Suc.prems by (intro nth_equalityI) (simp_all add: xor_cancel_left)
  ultimately show ?case
    using Suc.IH [of "des_block e ?x" "drop 8 data"] Suc.prems
    by (simp add: Let_def del: upt_rec_numeral)
qed simp

end

lemma deskey_kn0: "length kn0 = 32 \<Longrightarrow> deskey d kn0 key md = deskey d (replicate 32 0) key md"
  using deskey_kn_subkeys [of kn0 key] deskey_kn_subkeys [of "replicate 32 0" key]
  by (cases md) (simp_all add: deskey_def del: upt_rec_numeral)

interpretation des_keys: des_pair "deskey d1 (replicate 32 0) key ENCRYPT" "deskey d0 (replicate 32 0) key DECRYPT"
  for d0 d1 key
  by unfold_locales (simp add: des_block_keys)

lemma cbc_dec_loop_zero:
  assumes "1 \<le> n"
  shows "cbc_dec d data n = cbc_dec_loop d (replicate 8 0) data n"
proof -
  obtain k where n: "n = Suc k"
    using assms by (cases n) auto
  have "map (\<lambda>j. replicate 8 0 ! j XOR des_block d data ! j) [0..<8] = des_block d data"
    by (rule nth_equalityI) simp_all
  then show ?thesis
    by (simp only: n cbc_dec_def cbc_dec_loop.simps Let_def) simp
qed

text \<open>What the mode loops leave alone.\<close>

lemma ecb_frame:
  "8 * n \<le> length data \<Longrightarrow>
     length (des_ecb d data n) = length data \<and> drop (8 * n) (des_ecb d data n) = drop (8 * n) data"
  by (induction n arbitrary: data) (simp_all add: add.commute)

lemma cbc_enc_loop_frame:
  "8 * n \<le> length data \<Longrightarrow> length (cbc_enc_loop d v data n) = length data \<and>
     drop (8 * n) (cbc_enc_loop d v data n) = drop (8 * n) data"
  by (induction n arbitrary: v data) (simp_all add: Let_def add.commute del: upt_rec_numeral)

lemma cbc_dec_loop_frame:
  "8 * n \<le> length data \<Longrightarrow> length (cbc_dec_loop d v data n) = length data \<and>
     drop (8 * n) (cbc_dec_loop d v data n) = drop (8 * n) data"
  by (induction n arbitrary: v data) (simp_all add: Let_def add.commute del: upt_rec_numeral)

lemma cbc_enc_frame:
  "8 * n \<le> length data \<Longrightarrow>
     length (cbc_enc d data n) = length data \<and> drop (8 * n) (cbc_enc d data n) = drop (8 * n) data"
  unfolding cbc_enc_def by (rule cbc_enc_loop_frame)

lemma cbc_dec_frame:
  "1 \<le> n \<Longrightarrow> 8 * n \<le> length data \<Longrightarrow>
     length (cbc_dec d data n) = length data \<and> drop (8 * n) (cbc_dec d data n) = drop (8 * n) data"
  using cbc_dec_loop_frame by (simp add: cbc_dec_loop_zero)

lemma DES_encrypt_result:
  assumes "length kn0 = 32" and "1 \<le> blocks"
  shows "DES_encrypt d kn0 key (Some data) blocks mode =
    (1, Some (if mode = 1 then cbc_enc (deskey d (replicate 32 0) key ENCRYPT) data (nat blocks)
              else des_ecb (deskey d (replicate 32 0) key ENCRYPT) data (nat blocks)),
     deskey d (replicate 32 0) key ENCRYPT)"
  unfolding DES_encrypt_def deskey_kn0 [OF assms(1)] using assms(2) by (simp add: Let_def)

lemma DES_decrypt_result:
  assumes "length kn0 = 32" and "1 \<le> blocks"
  shows "DES_decrypt d kn0 key (Some data) blocks mode =
    (1, Some (if mode = 1 then cbc_dec_loop (deskey d (replicate 32 0) key DECRYPT) (replicate 8 0) data (nat blocks)
              else des_ecb (deskey d (replicate 32 0) key DECRYPT) data (nat blocks)),
     deskey d (replicate 32 0) key DECRYPT)"
proof -
  have "1 \<le> nat blocks"
    using assms(2) by simp
  then show ?thesis
    unfolding DES_decrypt_def deskey_kn0 [OF assms(1)] using assms(2) by (simp add: Let_def cbc_dec_loop_zero)
qed

lemma DES_undo:
  assumes "length kn0 = 32" and "length kn1 = 32" and "1 \<le> blocks" and "8 * nat blocks \<le> length data"
  shows "\<exists>c d'. DES_encrypt d0 kn0 key (Some data) blocks mode = (1, Some c, d') \<and>
    (\<forall>d1. \<exists>d''. DES_decrypt d1 kn1 key (Some c) blocks mode = (1, Some data, d''))"
proof -
  show ?thesis
  proof (cases "mode = 1")
    case True
    then show ?thesis
      using des_keys.cbc_undo [OF _ assms(4), of "replicate 8 0"]
      by (simp add: DES_encrypt_result [OF assms(1,3)] DES_decrypt_result [OF assms(2,3)] cbc_enc_def)
  next
    case False
    then show ?thesis
      using des_keys.ecb_undo [OF assms(4)]
      by (simp add: DES_encrypt_result [OF assms(1,3)] DES_decrypt_result [OF assms(2,3)])
  qed
qed

lemma DES_encrypt_length:
  assumes "8 * nat blocks \<le> length data" and "DES_encrypt d kn0 key (Some data) blocks mode = (code, Some c, d')"
  shows "length c = length data"
  using assms ecb_frame [OF assms(1)] cbc_enc_frame [OF assms(1)]
  by (auto simp: DES_encrypt_def Let_def split: if_splits)

subsection \<open>Properties\<close>

text \<open>
  C31. Decrypting inverts encrypting: for any eight-byte key, any mode (1 is CBC, everything else ECB) and any
  positive number of blocks that lie within the data, \<^verbatim>\<open>DES::decrypt\<close> after \<^verbatim>\<open>DES::encrypt\<close> with the same key
  returns 1 and restores the data exactly, whatever the key registers and the uninitialised local
  arrays held before.
\<close>

theorem DES_decrypt_encrypt:
  assumes "length kn0 = 32" and "length kn1 = 32" and "1 \<le> blocks" and "8 * nat blocks \<le> length data"
  shows "\<exists>c d'. DES_encrypt d0 kn0 key (Some data) blocks mode = (1, Some c, d') \<and>
    (\<forall>d1. \<exists>d''. DES_decrypt d1 kn1 key (Some c) blocks mode = (1, Some data, d''))"
  by (rule DES_undo [OF assms])

theorem DES_decrypt_encrypt_witness:
  "\<exists>c d'. DES_encrypt \<lparr>KnL = []\<rparr> (replicate 32 7) [1, 2, 3, 4, 5, 6, 7, 8] (Some (replicate 16 0x41)) 2 1 =
      (1, Some c, d') \<and>
    (\<exists>d''. DES_decrypt d' (replicate 32 9) [1, 2, 3, 4, 5, 6, 7, 8] (Some c) 2 1 = (1, Some (replicate 16 0x41), d''))"
  using DES_decrypt_encrypt [of "replicate 32 7" "replicate 32 9" 2 "replicate 16 0x41" "\<lparr>KnL = []\<rparr>"
      "[1, 2, 3, 4, 5, 6, 7, 8]" 1]
  by simp blast

text \<open>
  The interface of \<^verbatim>\<open>encrypt\<close> and \<^verbatim>\<open>decrypt\<close>: a null pointer or fewer than one block is refused with code 0 and
  changes neither the data nor the object; otherwise the code is 1, the size of the data stays and the
  bytes behind the last block are untouched.
\<close>

lemma DES_interface:
  assumes "8 * nat blocks \<le> length data"
  shows "DES_encrypt d kn0 key None blocks mode = (0, None, d) \<and> DES_decrypt d kn0 key None blocks mode = (0, None, d) \<and>
   (if blocks < 1
    then DES_encrypt d kn0 key (Some data) blocks mode = (0, Some data, d) \<and>
      DES_decrypt d kn0 key (Some data) blocks mode = (0, Some data, d)
    else (\<exists>c d'. DES_encrypt d kn0 key (Some data) blocks mode = (1, Some c, d') \<and>
        length c = length data \<and> drop (8 * nat blocks) c = drop (8 * nat blocks) data) \<and>
      (\<exists>c d'. DES_decrypt d kn0 key (Some data) blocks mode = (1, Some c, d') \<and>
        length c = length data \<and> drop (8 * nat blocks) c = drop (8 * nat blocks) data))"
  using ecb_frame [OF assms] cbc_enc_frame [OF assms] cbc_dec_frame [OF _ assms]
  by (auto simp: DES_encrypt_def DES_decrypt_def Let_def)

lemma DES_interface_witness:
  "\<exists>c d'. DES_encrypt \<lparr>KnL = []\<rparr> (replicate 32 7) [1, 2, 3, 4, 5, 6, 7, 8] (Some (replicate 20 0x41)) 2 1 =
     (1, Some c, d') \<and> length c = 20 \<and> drop 16 c = replicate 4 0x41"
  using DES_interface [of 2 "replicate 20 0x41" "\<lparr>KnL = []\<rparr>" "replicate 32 7" "[1, 2, 3, 4, 5, 6, 7, 8]" 1]
  by simp

end
