(* ===== verification/Easy_Des.thy ===== *)
theory Easy_Des
  imports Des
begin

section \<open>Text encryption (util/cryption/DES, class EasyDES)\<close>

text \<open>
  The client of the cipher: padding with a marker byte, hexadecimal output and input. Character arrays
  are lists of bytes, C strings with their terminating zero. \<open>None\<close> is a read outside an array: a key of
  fewer than seven characters, a ciphertext that is not a whole number of blocks, a number in the
  unterminated scratch array of \<^verbatim>\<open>toBin\<close>, a negative length or one whose successor is no \<^verbatim>\<open>int\<close>. Decryption is shown to invert encryption in ECB mode.
\<close>

subsection \<open>The code\<close>

record EasyDES =
  m_des :: DES
  m_key :: "byte list"

text \<open>\<^verbatim>\<open>sprintf("%02X")\<close> of a byte.\<close>

definition hex_upper :: "nat \<Rightarrow> byte" where
  "hex_upper n = (if n < 10 then 0x30 + of_nat n else 0x37 + of_nat n)"

definition toHex :: "byte list \<Rightarrow> byte list \<Rightarrow> byte list" where
  "toHex bin hex = foldl (\<lambda>hex b. hex @ [hex_upper (unat b div 16), hex_upper (unat b mod 16)]) hex bin"

text \<open>
  \<^verbatim>\<open>strtol\<close> in base 16, on an array that need not be terminated: white space, a sign, an optional prefix
  and digits; \<open>None\<close> when it would read behind the array.
\<close>

definition hex_value :: "byte \<Rightarrow> int option" where
  "hex_value c = (if 0x30 \<le> c \<and> c \<le> 0x39 then Some (uint c - 0x30)
     else if 0x41 \<le> c \<and> c \<le> 0x46 then Some (uint c - 0x37)
     else if 0x61 \<le> c \<and> c \<le> 0x66 then Some (uint c - 0x57) else None)"

fun hex_digits :: "byte list \<Rightarrow> int \<Rightarrow> int option" where
  "hex_digits [] acc = None"
| "hex_digits (c # cs) acc = (case hex_value c of None \<Rightarrow> Some acc | Some v \<Rightarrow> hex_digits cs (16 * acc + v))"

fun strtol16_prefix :: "byte list \<Rightarrow> int option" where
  "strtol16_prefix (z # x # cs) =
     (if z = 0x30 \<and> (x = 0x78 \<or> x = 0x58)
      then (case cs of [] \<Rightarrow> None | c # _ \<Rightarrow> if hex_value c = None then Some 0 else hex_digits cs 0)
      else hex_digits (z # x # cs) 0)"
| "strtol16_prefix cs = hex_digits cs 0"

definition strtol16 :: "byte list \<Rightarrow> int option" where
  "strtol16 s =
     (case dropWhile (\<lambda>c. c = 0x20 \<or> 0x09 \<le> c \<and> c \<le> 0x0D) s of
        [] \<Rightarrow> None
      | c # cs \<Rightarrow> if c = 0x2D then map_option uminus (strtol16_prefix cs)
                  else if c = 0x2B then strtol16_prefix cs else strtol16_prefix (c # cs))"

text \<open>
  The loop of \<^verbatim>\<open>toBin\<close>: \<^verbatim>\<open>strncpy\<close> fills two of the three elements of \<^verbatim>\<open>tmp\<close>; \<open>t2\<close> is what the third holds,
  which is never set.
\<close>

function toBin :: "byte \<Rightarrow> byte list \<Rightarrow> nat \<Rightarrow> nat \<Rightarrow> byte list \<Rightarrow> byte list option" where
  "toBin t2 hex i len bin =
     (if len \<le> i then Some bin
      else if length hex \<le> i then None
      else if hex ! i = 0
      then (case strtol16 [0, 0, t2] of None \<Rightarrow> None
            | Some v \<Rightarrow> toBin t2 hex (i + 2) len (bin @ [word_of_int v]))
      else if length hex \<le> i + 1 then None
      else (case strtol16 [hex ! i, hex ! (i + 1), t2] of None \<Rightarrow> None
            | Some v \<Rightarrow> toBin t2 hex (i + 2) len (bin @ [word_of_int v])))"
  by pat_completeness auto
termination
  by (relation "measure (\<lambda>(t2, hex, i, len, bin). len - i)") auto

declare toBin.simps [simp del]

definition EasyDES_new :: "DES \<Rightarrow> byte list \<Rightarrow> EasyDES" where
  "EasyDES_new d key = \<lparr>m_des = d, m_key = takeWhile (\<lambda>c. c \<noteq> 0) key\<rparr>"

definition setKey :: "EasyDES \<Rightarrow> byte list \<Rightarrow> EasyDES" where
  "setKey z key = z\<lparr>m_key := takeWhile (\<lambda>c. c \<noteq> 0) key\<rparr>"

definition getKey :: "EasyDES \<Rightarrow> byte list" where
  "getKey z = m_key z @ [0]"

definition c_strlen :: "byte list \<Rightarrow> nat" where
  "c_strlen s = length (takeWhile (\<lambda>c. c \<noteq> 0) s)"

text \<open>The padded text: the text, zeroes, and the marker that says how many zeroes there are.\<close>

definition pad_text :: "byte list \<Rightarrow> nat \<Rightarrow> byte list" where
  "pad_text clearText textLength =
     (let extendSize = (textLength div 8 + 1) * 8;
          additiveSize = extendSize - textLength
      in take (textLength - 1) clearText @ replicate additiveSize 0 @ [0x30 + of_nat additiveSize])"

text \<open>
  \<open>kn0\<close> is the uninitialised array of the key schedule. Lengths passed as an \<^verbatim>\<open>int\<close> are words in two's complement. The numbers of
  blocks are computed with conversions to \<^verbatim>\<open>int\<close>; \<open>quot8\<close> is \<^verbatim>\<open>/8\<close> of an \<^verbatim>\<open>int\<close>, which rounds towards 0.
\<close>

definition quot8 :: "int \<Rightarrow> int" where
  "quot8 n = (if n < 0 then - (- n div 8) else n div 8)"

definition EasyDES_encrypt ::
  "EasyDES \<Rightarrow> u64 list \<Rightarrow> byte list \<Rightarrow> byte list \<Rightarrow> int \<Rightarrow> u32 \<Rightarrow> int \<Rightarrow> (byte list \<times> EasyDES) option"
where
  "EasyDES_encrypt z kn0 clearText encrypted outType clearTextLen mode =
     (let textLength = (if clearTextLen = 0 then c_strlen clearText + 1 else nat (sint clearTextLen + 1));
          extendSize = (textLength div 8 + 1) * 8
      in if sint clearTextLen < 0 \<or> sint clearTextLen = 2 ^ 31 - 1 then None
         else if length clearText < textLength - 1 \<or> length (getKey z) < 8 then None
         else let result = pad_text clearText textLength;
                  blocks = quot8 (to_int32 extendSize);
                  (_, data, d) = DES_encrypt (m_des z) kn0 (take 8 (getKey z)) (Some result) blocks mode;
                  result = the data;
                  z = z\<lparr>m_des := d\<rparr>
              in if outType = 0 then Some (toHex result encrypted, z) else Some (result, z))"

definition EasyDES_decrypt ::
  "EasyDES \<Rightarrow> u64 list \<Rightarrow> byte \<Rightarrow> byte list \<Rightarrow> byte list \<Rightarrow> int \<Rightarrow> u32 \<Rightarrow> int \<Rightarrow> (byte list \<times> EasyDES) option"
where
  "EasyDES_decrypt z kn0 t2 code clearText inType codeLen mode =
     (let len = (if codeLen = 0 then c_strlen code else nat (sint codeLen)) in
      if sint codeLen < 0 then None
      else if len = 0 then Some (clearText, z)
      else case (if inType = 0 then toBin t2 code 0 len []
                 else if length code < len then None else Some (take len code)) of
        None \<Rightarrow> None
      | Some result \<Rightarrow>
          let blocks = quot8 (to_int32 (length result - 1)) + 1;
              size = (if mode = 1 then blocks * 8 + 1 else int (length result));
              result = take (nat size) result @ replicate (nat size - length result) 0
          in if size < 0 \<or> int (length result) < 8 * blocks \<or> length (getKey z) < 8 then None
             else let (_, data, d) = DES_decrypt (m_des z) kn0 (take 8 (getKey z)) (Some result) blocks mode;
                      result = the data;
                      z = z\<lparr>m_des := d\<rparr>
                  in if mode = 1 then Some (result, z)
                     else let additiveSize = word_of_int (sint (last result) - 0x30 + 1) :: u64
                          in if unat additiveSize < length result
                             then Some (take (length result - unat additiveSize) result, z)
                             else Some (clearText, z))"

subsection \<open>Hexadecimal text\<close>

lemma toHex_concat: "toHex bin hex = hex @ concat (map (\<lambda>b. [hex_upper (unat b div 16), hex_upper (unat b mod 16)]) bin)"
  by (induction bin arbitrary: hex) (simp_all add: toHex_def)

lemma hex_upper_facts:
  assumes "n < 16"
  shows "hex_value (hex_upper n) = Some (int n)" "hex_upper n \<noteq> 0" "hex_upper n \<noteq> 0x20" "\<not> hex_upper n \<le> 0x0D"
    "hex_upper n \<noteq> 0x2D" "hex_upper n \<noteq> 0x2B" "hex_upper n \<noteq> 0x78" "hex_upper n \<noteq> 0x58"
proof -
  have "list_all (\<lambda>n. hex_value (hex_upper n) = Some (int n) \<and> hex_upper n \<noteq> 0 \<and> hex_upper n \<noteq> 0x20 \<and>
    \<not> hex_upper n \<le> 0x0D \<and> hex_upper n \<noteq> 0x2D \<and> hex_upper n \<noteq> 0x2B \<and> hex_upper n \<noteq> 0x78 \<and> hex_upper n \<noteq> 0x58) [0..<16]"
    by (simp add: upt_conv_Cons hex_upper_def hex_value_def)
  then show "hex_value (hex_upper n) = Some (int n)" "hex_upper n \<noteq> 0" "hex_upper n \<noteq> 0x20" "\<not> hex_upper n \<le> 0x0D"
    "hex_upper n \<noteq> 0x2D" "hex_upper n \<noteq> 0x2B" "hex_upper n \<noteq> 0x78" "hex_upper n \<noteq> 0x58"
    using assms by (simp_all add: list_all_length del: upt_rec_numeral)
qed

lemma strtol16_hex:
  assumes "hex_value t2 = None"
  shows "strtol16 [hex_upper (unat b div 16), hex_upper (unat b mod 16), t2] = Some (uint (b :: byte))"
proof -
  have hi: "unat b div 16 < 16" and lo: "unat b mod 16 < 16"
    using unat_byte_less [of b] by auto
  have "16 * int (unat b div 16) + int (unat b mod 16) = uint b"
    by (metis mult_div_mod_eq of_nat_add of_nat_mult of_nat_numeral uint_nat)
  then show ?thesis
    using assms by (simp add: strtol16_def hex_upper_facts [OF hi] hex_upper_facts [OF lo])
qed

abbreviation hex_of :: "byte list \<Rightarrow> byte list" where
  "hex_of bin \<equiv> concat (map (\<lambda>b. [hex_upper (unat b div 16), hex_upper (unat b mod 16)]) bin)"

lemma length_hex_of: "length (hex_of bin) = 2 * length bin"
  by (induction bin) simp_all

lemma hex_byte_nonzero: "hex_upper (unat (b :: byte) div 16) \<noteq> 0" "hex_upper (unat b mod 16) \<noteq> 0"
  using unat_byte_less [of b] by (simp_all add: hex_upper_facts)

lemma hex_of_nonzero: "0 \<notin> set (hex_of bin)"
  by (induction bin) (simp_all add: hex_byte_nonzero eq_commute [of 0])

lemma toBin_hex_of:
  assumes "hex_value t2 = None"
  shows "toBin t2 (pre @ hex_of bin @ suf) (length pre) (length pre + 2 * length bin) acc = Some (acc @ bin)"
proof (induction bin arbitrary: pre acc)
  case (Cons b bin)
  let ?h = "[hex_upper (unat b div 16), hex_upper (unat b mod 16)]"
  have "word_of_int (uint b) = b"
    by simp
  then show ?case
    using Cons.IH [of "pre @ ?h" "acc @ [b]"] strtol16_hex [OF assms, of b]
    by (subst toBin.simps) (simp add: nth_append hex_byte_nonzero)
qed (simp add: toBin.simps)


lemma toBin_toHex:
  assumes "hex_value t2 = None"
  shows "toBin t2 (toHex bin [] @ [0]) 0 (c_strlen (toHex bin [] @ [0])) [] = Some bin"
    and "c_strlen (toHex bin [] @ [0]) = 2 * length bin"
proof -
  have "takeWhile (\<lambda>c. c \<noteq> 0) (hex_of bin @ [0]) = hex_of bin"
    using hex_of_nonzero [of bin] by (auto simp: takeWhile_append)
  then show len: "c_strlen (toHex bin [] @ [0]) = 2 * length bin"
    by (simp add: c_strlen_def toHex_concat length_hex_of)
  show "toBin t2 (toHex bin [] @ [0]) 0 (c_strlen (toHex bin [] @ [0])) [] = Some bin"
    using toBin_hex_of [OF assms, of "[]" bin "[0]" "[]"] unfolding len by (simp add: toHex_concat)
qed

subsection \<open>Padding\<close>

definition pad_size :: "nat \<Rightarrow> nat" where
  "pad_size n = 8 - Suc n mod 8"

lemma pad_size_bounds: "1 \<le> pad_size n \<and> pad_size n \<le> 8"
  unfolding pad_size_def using mod_less_divisor [of 8 "Suc n"] by linarith

lemma extend_eq: "(Suc n div 8 + 1) * 8 = n + pad_size n + 1"
proof -
  have "Suc n mod 8 < 8"
    by simp
  with div_mult_mod_eq [of "Suc n" 8] show ?thesis
    unfolding pad_size_def distrib_right by linarith
qed

lemma pad_text_eq:
  "length t = n \<Longrightarrow> pad_text (t @ s) (n + 1) = t @ replicate (pad_size n) 0 @ [0x30 + of_nat (pad_size n)]"
  using extend_eq [of n] by (simp add: pad_text_def Let_def)

lemma length_pad_text: "length (t @ replicate (pad_size (length t)) 0 @ [x]) = 8 * (Suc (length t) div 8 + 1)"
  using extend_eq [of "length t"] by simp

lemma marker_value:
  "sint (0x30 + of_nat (pad_size n) :: byte) - 0x30 + 1 = int (pad_size n) + 1"
proof -
  have "pad_size n \<in> {1, 2, 3, 4, 5, 6, 7, 8}"
    using pad_size_bounds [of n] by auto
  then show ?thesis
    by auto
qed

lemma strip_padding:
  fixes t :: "byte list"
  assumes "t \<noteq> []"
  defines "p \<equiv> t @ replicate (pad_size (length t)) 0 @ [0x30 + of_nat (pad_size (length t))]"
  shows "unat (word_of_int (sint (last p) - 0x30 + 1) :: u64) = pad_size (length t) + 1"
    and "unat (word_of_int (sint (last p) - 0x30 + 1) :: u64) < length p"
    and "take (length p - unat (word_of_int (sint (last p) - 0x30 + 1) :: u64)) p = t"
proof -
  have "unat (word_of_int (int (pad_size (length t)) + 1) :: u64) = pad_size (length t) + 1"
  proof -
    have "int (pad_size (length t)) + 1 = int (pad_size (length t) + 1)"
      by simp
    then have "unat (word_of_int (int (pad_size (length t)) + 1) :: u64) = unat (of_nat (pad_size (length t) + 1) :: u64)"
      by (simp only: of_int_of_nat_eq)
    also have "\<dots> = pad_size (length t) + 1"
      using pad_size_bounds [of "length t"] by (intro of_nat_inverse [OF refl]) simp
    finally show ?thesis .
  qed
  moreover have "last p = 0x30 + of_nat (pad_size (length t))"
    by (simp add: p_def)
  ultimately show A: "unat (word_of_int (sint (last p) - 0x30 + 1) :: u64) = pad_size (length t) + 1"
    by (simp only: marker_value)
  then show "unat (word_of_int (sint (last p) - 0x30 + 1) :: u64) < length p"
    and "take (length p - unat (word_of_int (sint (last p) - 0x30 + 1) :: u64)) p = t"
    using assms(1) unfolding A by (simp_all add: p_def)
qed


subsection \<open>Encrypting and decrypting\<close>

lemma encrypt_blocks:
  assumes "length kn0 = 32" and "7 \<le> length (m_key z)" and "length t = n"
    and "(if clearTextLen = 0 then c_strlen (t @ s) else nat (sint clearTextLen)) = n"
    and "0 \<le> sint clearTextLen" and "n < 2 ^ 31 - 16"
  defines "p \<equiv> t @ replicate (pad_size n) 0 @ [0x30 + of_nat (pad_size n)]"
    and "b \<equiv> Suc n div 8 + 1"
  shows "\<exists>c d. length c = 8 * b \<and>
    (\<forall>d1 kn1. length kn1 = 32 \<longrightarrow> (\<exists>d'. DES_decrypt d1 kn1 (take 8 (getKey z)) (Some c) (int b) mode = (1, Some p, d'))) \<and>
    EasyDES_encrypt z kn0 (t @ s) out typ clearTextLen mode =
      Some (if typ = 0 then toHex c out else c, z\<lparr>m_des := d\<rparr>)"
proof -
  have len: "length p = 8 * b"
    using length_pad_text [of t] assms(3) by (simp add: p_def b_def)
  have b1: "1 \<le> int b" "8 * nat (int b) \<le> length p"
    using len by (simp_all add: b_def)
  obtain c d where c: "DES_encrypt (m_des z) kn0 (take 8 (getKey z)) (Some p) (int b) mode = (1, Some c, d)"
    and u: "\<forall>d1 kn1. length kn1 = 32 \<longrightarrow>
      (\<exists>d'. DES_decrypt d1 kn1 (take 8 (getKey z)) (Some c) (int b) mode = (1, Some p, d'))"
    using DES_undo [OF assms(1) _ b1] by (metis Pair_inject option.inject assms(1))
  have "length c = 8 * b"
    using DES_encrypt_length [OF b1(2) c] len by simp
  moreover have "length (getKey z) \<ge> 8"
    using assms(2) by (simp add: getKey_def)
  moreover have blocks: "quot8 (to_int32 (((n + 1) div 8 + 1) * 8)) = int b"
  proof -
    have "((n + 1) div 8 + 1) * 8 < 2 ^ 31"
      using extend_eq [of n] pad_size_bounds [of n] assms(6) by simp
    then show ?thesis
      by (simp add: to_int32_id quot8_def b_def)
  qed
  moreover have "pad_text (t @ s) (n + 1) = p"
    using pad_text_eq [OF assms(3)] by (simp add: p_def)
  moreover have tl: "(if clearTextLen = 0 then c_strlen (t @ s) + 1 else nat (sint clearTextLen + 1)) = n + 1"
    "\<not> (sint clearTextLen < 0 \<or> sint clearTextLen = 2 ^ 31 - 1)"
    using assms(4-6) by (auto simp: nat_add_distrib split: if_splits)
  ultimately have "EasyDES_encrypt z kn0 (t @ s) out typ clearTextLen mode =
      Some (if typ = 0 then toHex c out else c, z\<lparr>m_des := d\<rparr>)"
    using c assms(3) unfolding EasyDES_encrypt_def tl(1) by (simp only: Let_def if_not_P [OF tl(2)] blocks) simp
  with u \<open>length c = 8 * b\<close> show ?thesis
    by blast
qed

lemma decrypt_blocks:
  assumes "t \<noteq> []" and "length t = n" and "length c = 8 * b" and "b = Suc n div 8 + 1" and "8 \<le> length (getKey z)"
    and "DES_decrypt (m_des z) kn1 (take 8 (getKey z)) (Some c) (int b) mode =
      (1, Some (t @ replicate (pad_size n) 0 @ [0x30 + of_nat (pad_size n)]), d')"
    and "mode \<noteq> 1"
    and "(if codeLen = 0 then c_strlen code else nat (sint codeLen)) \<noteq> 0"
    and "(if typ = 0 then toBin t2 code 0 (if codeLen = 0 then c_strlen code else nat (sint codeLen)) []
      else if length code < (if codeLen = 0 then c_strlen code else nat (sint codeLen)) then None
      else Some (take (if codeLen = 0 then c_strlen code else nat (sint codeLen)) code)) = Some c"
    and "0 \<le> sint codeLen" and "n < 2 ^ 31 - 16"
  shows "EasyDES_decrypt z kn1 t2 code out typ codeLen mode = Some (t, z\<lparr>m_des := d'\<rparr>)"
proof -
  define p where "p = t @ replicate (pad_size n) 0 @ [0x30 + of_nat (pad_size n)]"
  note strip = strip_padding [OF assms(1), folded p_def [unfolded assms(2) [symmetric]]]
  have "length c < 2 ^ 31" "(length c - 1) div 8 + 1 = b"
    using assms(3,4,11) extend_eq [of n] pad_size_bounds [of n] by (cases b; auto)+
  then have blocks: "quot8 (to_int32 (length c - 1)) + 1 = int b" by (simp add: to_int32_id quot8_def flip: of_nat_Suc)
  have len: "\<not> sint codeLen < 0" using assms(10) by simp
  have same: "take (nat (int (length c))) c @ replicate (nat (int (length c)) - length c) 0 = c" by simp
  have fits: "\<not> (int (length c) < 0 \<or> int (length c) < 8 * int b \<or> length (getKey z) < 8)" using assms(3,5) by simp
  have dec: "DES_decrypt (m_des z) kn1 (take 8 (getKey z)) (Some c) (int b) mode = (1, Some p, d')"
    using assms(6) by (simp add: p_def)
  show ?thesis
    unfolding EasyDES_decrypt_def Let_def assms(9) option.case if_not_P [OF len] if_not_P [OF assms(8)] if_not_P [OF assms(7)]
      blocks same if_not_P [OF fits] dec prod.case option.sel if_P [OF strip(2)] strip(3) ..
qed

subsection \<open>Properties\<close>

text \<open>
  C32. Text round trip in ECB mode: for a key of at least seven characters and a non-empty text without zero
  bytes, \<^verbatim>\<open>decrypt\<close> of the hexadecimal text that \<^verbatim>\<open>encrypt\<close> appends to an empty string gives the text back, provided
  the third element of the scratch array of \<^verbatim>\<open>toBin\<close> does not happen to hold a digit; in binary form
  it does so for every non-empty text, with the two lengths passed. Texts are shorter than 2 to the 31 by 16 bytes, so
  that all sizes fit an \<^verbatim>\<open>int\<close>.
\<close>

theorem EasyDES_roundtrip:
  assumes "length kn0 = 32" and "length kn1 = 32" and "7 \<le> length (m_key z)" and "t \<noteq> []" and "mode \<noteq> 1"
    and "hex_value t2 = None" and "0 \<notin> set s" and "s \<noteq> []" and "length s < 2 ^ 31 - 16" and "length t < 2 ^ 31 - 16"
  shows "(\<exists>c z' z''. EasyDES_encrypt z kn0 (s @ [0]) [] 0 0 mode = Some (c, z') \<and>
      EasyDES_decrypt z' kn1 t2 (c @ [0]) out 0 0 mode = Some (s, z'')) \<and>
    (\<exists>c z' z''. EasyDES_encrypt z kn0 t [] 1 (word_of_nat (length t)) mode = Some (c, z') \<and>
      EasyDES_decrypt z' kn1 t2 c out 1 (word_of_nat (length c)) mode = Some (t, z''))"
proof (intro conjI)
  have len: "(if (0::u32) = 0 then c_strlen (s @ [0]) else nat (sint (0::u32))) = length s"
    using assms(7) by (auto simp: c_strlen_def takeWhile_append)
  obtain c d where c: "length c = 8 * (Suc (length s) div 8 + 1)"
    "\<forall>d1 kn1. length kn1 = 32 \<longrightarrow> (\<exists>d'. DES_decrypt d1 kn1 (take 8 (getKey z)) (Some c) (int (Suc (length s) div 8 + 1)) mode =
       (1, Some (s @ replicate (pad_size (length s)) 0 @ [0x30 + of_nat (pad_size (length s))]), d'))"
    "EasyDES_encrypt z kn0 (s @ [0]) [] 0 0 mode = Some (toHex c [], z\<lparr>m_des := d\<rparr>)"
    using encrypt_blocks [OF assms(1,3) refl len _ assms(9), of mode "[]" 0] by auto
  obtain d' where d': "DES_decrypt d kn1 (take 8 (getKey z)) (Some c) (int (Suc (length s) div 8 + 1)) mode =
       (1, Some (s @ replicate (pad_size (length s)) 0 @ [0x30 + of_nat (pad_size (length s))]), d')"
    using c(2) assms(2) by blast
  have "EasyDES_decrypt (z\<lparr>m_des := d\<rparr>) kn1 t2 (toHex c [] @ [0]) out 0 0 mode = Some (s, z\<lparr>m_des := d\<rparr>\<lparr>m_des := d'\<rparr>)"
    using toBin_toHex [OF assms(6), of c] c(1) assms(3) d'
    by (intro decrypt_blocks [OF assms(8) refl c(1) refl _ _ assms(5) _ _ _ assms(9)]) (simp_all add: getKey_def)
  with c(3) show "\<exists>c z' z''. EasyDES_encrypt z kn0 (s @ [0]) [] 0 0 mode = Some (c, z') \<and>
      EasyDES_decrypt z' kn1 t2 (c @ [0]) out 0 0 mode = Some (s, z'')"
    by blast
next
  have word: "nat (sint (word_of_nat k :: u32)) = k" "0 \<le> sint (word_of_nat k :: u32)" "k \<noteq> 0 \<Longrightarrow> (word_of_nat k :: u32) \<noteq> 0"
    if "k < 2 ^ 31" for k
    using to_int32_id [OF that] by (auto simp: to_int32_def)
  have tw: "length t < 2 ^ 31" "length t \<noteq> 0" using assms(4,10) by auto
  have len: "(if (word_of_nat (length t) :: u32) = 0 then c_strlen (t @ []) else nat (sint (word_of_nat (length t) :: u32))) = length t"
    using word [OF tw(1)] tw(2) by simp
  obtain c d where c: "length c = 8 * (Suc (length t) div 8 + 1)"
    "\<forall>d1 kn1. length kn1 = 32 \<longrightarrow> (\<exists>d'. DES_decrypt d1 kn1 (take 8 (getKey z)) (Some c) (int (Suc (length t) div 8 + 1)) mode =
       (1, Some (t @ replicate (pad_size (length t)) 0 @ [0x30 + of_nat (pad_size (length t))]), d'))"
    "EasyDES_encrypt z kn0 t [] 1 (word_of_nat (length t)) mode = Some (c, z\<lparr>m_des := d\<rparr>)"
    using encrypt_blocks [OF assms(1,3) refl len word(2) [OF tw(1)] assms(10), of mode "[]" 1] by auto
  obtain d' where d': "DES_decrypt d kn1 (take 8 (getKey z)) (Some c) (int (Suc (length t) div 8 + 1)) mode =
       (1, Some (t @ replicate (pad_size (length t)) 0 @ [0x30 + of_nat (pad_size (length t))]), d')"
    using c(2) assms(2) by blast
  have cw: "length c < 2 ^ 31" "length c \<noteq> 0"
    using c(1) assms(10) extend_eq [of "length t"] pad_size_bounds [of "length t"] by auto
  have "EasyDES_decrypt (z\<lparr>m_des := d\<rparr>) kn1 t2 c out 1 (word_of_nat (length c)) mode = Some (t, z\<lparr>m_des := d\<rparr>\<lparr>m_des := d'\<rparr>)"
    using c(1) assms(3) d' word [OF cw(1)] cw(2)
    by (intro decrypt_blocks [OF assms(4) refl c(1) refl _ _ assms(5) _ _ _ assms(10)]) (simp_all add: getKey_def)
  with c(3) show "\<exists>c z' z''. EasyDES_encrypt z kn0 t [] 1 (word_of_nat (length t)) mode = Some (c, z') \<and>
      EasyDES_decrypt z' kn1 t2 c out 1 (word_of_nat (length c)) mode = Some (t, z'')"
    by blast
qed

theorem EasyDES_roundtrip_witness:
  "\<exists>c z' z''. EasyDES_encrypt (EasyDES_new \<lparr>KnL = []\<rparr> [1, 2, 3, 4, 5, 6, 7, 8, 0]) (replicate 32 0) [0x68, 0x69, 0] [] 0 0 0 =
      Some (c, z') \<and>
    EasyDES_decrypt z' (replicate 32 0) 0 (c @ [0]) [] 0 0 0 = Some ([0x68, 0x69], z'')"
  using EasyDES_roundtrip [of "replicate 32 0" "replicate 32 0" "EasyDES_new \<lparr>KnL = []\<rparr> [1, 2, 3, 4, 5, 6, 7, 8, 0]"
      "[0x68, 0x69]" 0 0 "[0x68, 0x69]" "[]"]
  by (simp add: EasyDES_new_def hex_value_def)

end
