(* ===== verification/Json_Lex.thy ===== *)
theory Json_Lex
  imports Prelude
begin

section \<open>The JSON tokenizer (util/univalue/univalue_read.cpp)\<close>

text \<open>
  \<^verbatim>\<open>getJsonToken\<close> and its helpers. A C string is the list of its characters before the terminating zero,
  so a pointer into it is a suffix of that list and reading the zero is the empty list. \<^verbatim>\<open>char\<close> is signed,
  as on x86. \<open>scan_token\<close> computes the token with the difference of the pointers \<^verbatim>\<open>raw - rawStart\<close>; \<open>getJsonToken\<close> stores it in
  the \<^verbatim>\<open>unsigned int\<close> \<^verbatim>\<open>consumed\<close>, where it wraps.
\<close>

datatype jtokentype =
    JTOK_ERR | JTOK_NONE | JTOK_OBJ_OPEN | JTOK_OBJ_CLOSE | JTOK_ARR_OPEN | JTOK_ARR_CLOSE | JTOK_COLON | JTOK_COMMA
  | JTOK_KW_NULL | JTOK_KW_TRUE | JTOK_KW_FALSE | JTOK_NUMBER | JTOK_STRING

fun jsonTokenIsValue :: "jtokentype \<Rightarrow> bool" where
  "jsonTokenIsValue JTOK_KW_NULL = True"
| "jsonTokenIsValue JTOK_KW_TRUE = True"
| "jsonTokenIsValue JTOK_KW_FALSE = True"
| "jsonTokenIsValue JTOK_NUMBER = True"
| "jsonTokenIsValue JTOK_STRING = True"
| "jsonTokenIsValue _ = False"

definition json_isspace :: "char \<Rightarrow> bool" where
  "json_isspace ch \<longleftrightarrow> ch = CHR 0x20 \<or> ch = CHR 0x09 \<or> ch = CHR 0x0A \<or> ch = CHR 0x0D"

definition json_isdigit :: "char \<Rightarrow> bool" where
  "json_isdigit ch \<longleftrightarrow> (let n = of_char ch :: nat in 48 \<le> n \<and> n \<le> 57)"

text \<open>The value of a signed \<^verbatim>\<open>char\<close>.\<close>

definition schar :: "char \<Rightarrow> int" where
  "schar c = (let n = of_char c :: nat in if n < 128 then int n else int n - 256)"

definition hex_digit_of :: "char \<Rightarrow> nat option" where
  "hex_digit_of c = (let n = of_char c :: nat in
     if json_isdigit c then Some (n - 48)
     else if 97 \<le> n \<and> n \<le> 102 then Some (n - 97 + 10)
     else if 65 \<le> n \<and> n \<le> 70 then Some (n - 65 + 10)
     else None)"

text \<open>\<^verbatim>\<open>hatoui\<close> on the characters from \<^verbatim>\<open>first\<close> to \<^verbatim>\<open>last\<close>: how many of them it read, and the number.\<close>

fun hatoui_loop :: "string \<Rightarrow> nat \<Rightarrow> nat \<times> nat" where
  "hatoui_loop [] result = (0, result)"
| "hatoui_loop (c # cs) result =
     (case hex_digit_of c of
        None \<Rightarrow> (0, result)
      | Some digit \<Rightarrow> (let (n, out) = hatoui_loop cs (16 * result + digit) in (Suc n, out)))"

definition hatoui :: "string \<Rightarrow> nat \<times> nat" where
  "hatoui first = hatoui_loop first 0"

text \<open>What a hexadecimal escape appends: the code point in UTF-8.\<close>

definition utf8_of :: "nat \<Rightarrow> string" where
  "utf8_of codepoint =
     (if codepoint \<le> 0x7f then [char_of codepoint]
      else if codepoint \<le> 0x7FF
      then [char_of (0xC0 OR drop_bit 6 codepoint), char_of (0x80 OR (codepoint AND 0x3F))]
      else if codepoint \<le> 0xFFFF
      then [char_of (0xE0 OR drop_bit 12 codepoint), char_of (0x80 OR (drop_bit 6 codepoint AND 0x3F)),
            char_of (0x80 OR (codepoint AND 0x3F))]
      else [])"

definition simple_escape :: "char \<Rightarrow> char option" where
  "simple_escape c =
     (if c = CHR 0x22 then Some (CHR 0x22)
      else if c = CHR 0x5C then Some (CHR 0x5C)
      else if c = CHR ''/'' then Some (CHR ''/'')
      else if c = CHR ''b'' then Some (CHR 0x08)
      else if c = CHR ''f'' then Some (CHR 0x0C)
      else if c = CHR ''n'' then Some (CHR 0x0A)
      else if c = CHR ''r'' then Some (CHR 0x0D)
      else if c = CHR ''t'' then Some (CHR 0x09)
      else None)"

text \<open>
  The scanning loop of a string, started behind the opening quote: the string and the rest of the input,
  or \<open>None\<close> for \<^verbatim>\<open>JTOK_ERR\<close>. At the end of the input the loop stops as if the quote were closed.
\<close>

function lex_string :: "string \<Rightarrow> string \<Rightarrow> (string \<times> string) option" where
  "lex_string [] valStr = Some (valStr, [])"
| "lex_string (c # raw) valStr =
     (if schar c < 0x20 then None
      else if c = CHR 0x5C
      then (case raw of
              [] \<Rightarrow> None
            | e # raw \<Rightarrow>
                (case simple_escape e of
                   Some x \<Rightarrow> lex_string raw (valStr @ [x])
                 | None \<Rightarrow>
                     if e = CHR ''u''
                     then (let (n, codepoint) = hatoui (take 4 raw) in
                           if n \<noteq> 4 then None else lex_string (drop 4 raw) (valStr @ utf8_of codepoint))
                     else None))
      else if c = CHR 0x22 then Some (valStr, raw)
      else lex_string raw (valStr @ [c]))"
  by pat_completeness auto
termination
  by (relation "measure (\<lambda>(raw, v). length raw)") auto

declare lex_string.simps [simp del]

text \<open>The number part: the number and the rest, or \<open>None\<close> for \<^verbatim>\<open>JTOK_ERR\<close>. \<open>peek\<close> is \<^verbatim>\<open>*raw\<close> tested against a digit.\<close>

definition peek_digit :: "string \<Rightarrow> bool" where
  "peek_digit raw \<longleftrightarrow> (case raw of [] \<Rightarrow> False | c # _ \<Rightarrow> json_isdigit c)"

definition lex_int :: "string \<Rightarrow> (string \<times> string) option" where
  "lex_int raw =
     (let first = raw;
          firstDigit = (if peek_digit first then first else tl first)
      in if firstDigit \<noteq> [] \<and> hd firstDigit = CHR ''0'' \<and> peek_digit (tl firstDigit) then None
         else let numStr = [hd raw]; raw = tl raw in
              if hd first = CHR ''-'' \<and> \<not> peek_digit raw then None
              else Some (numStr @ takeWhile json_isdigit raw, dropWhile json_isdigit raw))"

definition lex_frac :: "string \<times> string \<Rightarrow> (string \<times> string) option" where
  "lex_frac s =
     (let (numStr, raw) = s in
      if raw \<noteq> [] \<and> hd raw = CHR ''.''
      then if \<not> peek_digit (tl raw) then None
           else Some (numStr @ hd raw # takeWhile json_isdigit (tl raw), dropWhile json_isdigit (tl raw))
      else Some (numStr, raw))"

definition lex_exp :: "string \<times> string \<Rightarrow> (string \<times> string) option" where
  "lex_exp s =
     (let (numStr, raw) = s in
      if raw \<noteq> [] \<and> (hd raw = CHR ''e'' \<or> hd raw = CHR ''E'')
      then let (numStr, raw) = (numStr @ [hd raw], tl raw);
               (numStr, raw) = (if raw \<noteq> [] \<and> (hd raw = CHR ''-'' \<or> hd raw = CHR ''+'')
                                then (numStr @ [hd raw], tl raw) else (numStr, raw))
           in if \<not> peek_digit raw then None
              else Some (numStr @ takeWhile json_isdigit raw, dropWhile json_isdigit raw)
      else Some (numStr, raw))"

definition lex_number :: "string \<Rightarrow> (string \<times> string) option" where
  "lex_number raw = Option.bind (Option.bind (lex_int raw) lex_frac) lex_exp"

text \<open>\<^verbatim>\<open>strncmp(raw, kw, n)\<close> is 0.\<close>

definition starts_with :: "string \<Rightarrow> string \<Rightarrow> bool" where
  "starts_with kw raw \<longleftrightarrow> take (length kw) raw = kw"

text \<open>The token, \<^verbatim>\<open>tokenVal\<close> and \<^verbatim>\<open>raw - rawStart\<close>, which is 0 when \<^verbatim>\<open>consumed\<close> is not set.\<close>

definition scan_token :: "string \<Rightarrow> jtokentype \<times> string \<times> nat" where
  "scan_token rawStart =
     (let raw = dropWhile json_isspace rawStart;
          consumed = (\<lambda>rest. length rawStart - length rest)
      in case raw of
           [] \<Rightarrow> (JTOK_NONE, [], 0)
         | c # rest \<Rightarrow>
             if c = CHR ''{'' then (JTOK_OBJ_OPEN, [], consumed rest)
             else if c = CHR ''}'' then (JTOK_OBJ_CLOSE, [], consumed rest)
             else if c = CHR ''['' then (JTOK_ARR_OPEN, [], consumed rest)
             else if c = CHR '']'' then (JTOK_ARR_CLOSE, [], consumed rest)
             else if c = CHR '':'' then (JTOK_COLON, [], consumed rest)
             else if c = CHR '','' then (JTOK_COMMA, [], consumed rest)
             else if c = CHR ''n'' \<or> c = CHR ''t'' \<or> c = CHR ''f''
             then if starts_with ''null'' raw then (JTOK_KW_NULL, [], consumed (drop 4 raw))
                  else if starts_with ''true'' raw then (JTOK_KW_TRUE, [], consumed (drop 4 raw))
                  else if starts_with ''false'' raw then (JTOK_KW_FALSE, [], consumed (drop 5 raw))
                  else (JTOK_ERR, [], 0)
             else if c = CHR ''-'' \<or> json_isdigit c
             then (case lex_number raw of
                     None \<Rightarrow> (JTOK_ERR, [], 0)
                   | Some (numStr, rest) \<Rightarrow> (JTOK_NUMBER, numStr, consumed rest))
             else if c = CHR 0x22
             then (case lex_string rest [] of
                     None \<Rightarrow> (JTOK_ERR, [], 0)
                   | Some (valStr, rest) \<Rightarrow> (JTOK_STRING, valStr, consumed rest))
             else (JTOK_ERR, [], 0))"

definition getJsonToken :: "string \<Rightarrow> jtokentype \<times> string \<times> u32" where
  "getJsonToken raw = (case scan_token raw of (tok, tokenVal, n) \<Rightarrow> (tok, tokenVal, word_of_nat n))"

lemma getJsonToken_tok [simp]: "fst (getJsonToken raw) = fst (scan_token raw)"
  by (simp add: getJsonToken_def split: prod.split)

subsection \<open>Progress\<close>

lemma lex_string_shorter: "lex_string raw v = Some (v', rest) \<Longrightarrow> length rest \<le> length raw"
proof (induction raw v rule: lex_string.induct)
  case (2 c raw v)
  note prems = "2.prems" and IH = "2.IH"
  show ?case
  proof (cases "c = CHR 0x5C \<and> \<not> schar c < 0x20")
    case True
    then obtain e r where raw: "raw = e # r"
      using prems by (cases raw) (auto simp: lex_string.simps)
    then show ?thesis
      using prems True IH(1) [of e r] IH(2) [of e r]
      by (auto simp: lex_string.simps split: option.splits if_splits prod.splits) fastforce+
  next
    case False
    then show ?thesis
      using prems IH(3) by (auto simp: lex_string.simps split: if_splits)
  qed
qed (simp add: lex_string.simps)

lemma length_dropWhile_Cons: "length (dropWhile P xs) < Suc (length xs)"
  using length_dropWhile_le [of P xs] by simp

lemma lex_number_shorter: "raw \<noteq> [] \<Longrightarrow> lex_number raw = Some (v, rest) \<Longrightarrow> length rest < length raw"
proof -
  assume raw: "raw \<noteq> []" and "lex_number raw = Some (v, rest)"
  then obtain s1 s2 where 1: "lex_int raw = Some s1" and 2: "lex_frac s1 = Some s2" and 3: "lex_exp s2 = Some (v, rest)"
    by (auto simp: lex_number_def bind_eq_Some_conv)
  have tl: "length (tl xs) \<le> length xs" for xs :: string
    by simp
  have "length (snd s1) < length raw"
    using 1 raw by (cases raw) (auto simp: lex_int_def Let_def length_dropWhile_Cons split: if_splits)
  moreover have "length (snd s2) \<le> length (snd s1)"
    using 2 length_dropWhile_le [of json_isdigit "tl (snd s1)"]
    by (auto simp: lex_frac_def split: if_splits prod.splits)
  moreover have "length rest \<le> length (snd s2)"
    using 3 length_dropWhile_le [of json_isdigit "tl (snd s2)"] length_dropWhile_le [of json_isdigit "tl (tl (snd s2))"]
    by (auto simp: lex_exp_def Let_def split: if_splits prod.splits)
  ultimately show ?thesis by simp
qed

text \<open>Every token but the two failures consumes at least one character, and none reads past the end.\<close>

lemma scan_token_consumes:
  assumes "scan_token raw = (tok, v, n)" and "tok \<noteq> JTOK_ERR" and "tok \<noteq> JTOK_NONE"
  shows "0 < n \<and> n \<le> length raw"
proof -
  let ?r = "dropWhile json_isspace raw"
  have le: "length ?r \<le> length raw"
    by (rule length_dropWhile_le)
  have "?r \<noteq> []"
    using assms by (auto simp: scan_token_def simp del: dropWhile_eq_Nil_conv)
  then obtain c rest where r: "?r = c # rest"
    by (meson list.exhaust)
  with le have lt: "length rest < length raw"
    by simp
  have num: "length rs < length raw" if "lex_number (c # rest) = Some (s, rs)" for s rs
    using lex_number_shorter [of "c # rest" s rs] that lt by simp
  have str: "length rs < length raw" if "lex_string rest [] = Some (s, rs)" for s rs
    using lex_string_shorter [OF that] lt by simp
  have kw: "length (drop 4 (c # rest)) < length raw" "length (drop 5 (c # rest)) < length raw"
    using lt by auto
  define progress where "progress = (\<lambda>(t :: jtokentype, s :: string, k). t = JTOK_ERR \<or> 0 < k \<and> k \<le> length raw)"
  have ifI: "(b \<Longrightarrow> progress x) \<Longrightarrow> (\<not> b \<Longrightarrow> progress y) \<Longrightarrow> progress (if b then x else y)" for b x y
    by simp
  have p: "progress (t, s, length raw - length rs)" if "length rs < length raw" for t s rs
    using that by (auto simp: progress_def)
  have e: "progress (JTOK_ERR, [], 0)"
    by (simp add: progress_def)
  have n: "progress (case lex_number (c # rest) of None \<Rightarrow> (JTOK_ERR, [], 0)
      | Some (s, rs) \<Rightarrow> (JTOK_NUMBER, s, length raw - length rs))"
    using num by (auto intro: p e split: option.split)
  have s: "progress (case lex_string rest [] of None \<Rightarrow> (JTOK_ERR, [], 0)
      | Some (s, rs) \<Rightarrow> (JTOK_STRING, s, length raw - length rs))"
    using str by (auto intro: p e split: option.split)
  have "progress (scan_token raw)"
    unfolding scan_token_def r Let_def list.case
    by (intro ifI p e n s lt kw)
  then show ?thesis
    using assms by (auto simp: progress_def)
qed

subsection \<open>Numbers\<close>

text \<open>
  What may follow a number without becoming part of it, what a number begins with, and the strings that
  are one number token.
\<close>

definition num_end :: "string \<Rightarrow> bool" where
  "num_end rest \<longleftrightarrow> (case rest of [] \<Rightarrow> True | c # _ \<Rightarrow> \<not> json_isdigit c \<and> c \<notin> {CHR ''.'', CHR ''e'', CHR ''E''})"

definition num_start :: "string \<Rightarrow> bool" where
  "num_start s \<longleftrightarrow> (case s of [] \<Rightarrow> False | c # _ \<Rightarrow> c = CHR ''-'' \<or> json_isdigit c)"

lemma digits_append:
  assumes "num_end rest"
  shows "takeWhile json_isdigit (xs @ rest) = takeWhile json_isdigit xs"
    and "dropWhile json_isdigit (xs @ rest) = dropWhile json_isdigit xs @ rest"
    and "peek_digit (xs @ rest) = peek_digit xs"
  using assms
  by (induction xs) (auto simp: num_end_def peek_digit_def split: list.splits)

lemma digits_minus: "\<not> json_isdigit (CHR ''-'')"
  by (simp add: json_isdigit_def)

lemma lex_int_append:
  assumes e: "num_end rest" and s: "num_start s" and l: "lex_int s = Some (n, r)"
  shows "lex_int (s @ rest) = Some (n, r @ rest)"
proof (cases s)
  case (Cons c cs)
  show ?thesis
  proof (cases "json_isdigit c")
    case True
    then show ?thesis
      using l unfolding Cons lex_int_def
      by (auto simp: Let_def peek_digit_def [of "c # _"] digits_append [OF e] digits_minus split: if_splits)
  next
    case False
    then have c: "c = CHR ''-''"
      using s by (simp add: num_start_def Cons)
    then obtain d ds where cs: "cs = d # ds" and "json_isdigit d"
      using l unfolding Cons lex_int_def
      by (cases cs) (auto simp: Let_def peek_digit_def digits_minus split: if_splits)
    then show ?thesis
      using l c digits_append [OF e, of "d # ds"] unfolding Cons cs lex_int_def
      by (auto simp: Let_def peek_digit_def [of "_ # _"] digits_append [OF e] digits_minus split: if_splits)
  qed
qed (use s in \<open>simp add: num_start_def\<close>)

lemma lex_frac_append:
  assumes e: "num_end rest" and l: "lex_frac (n, r) = Some (n', r')"
  shows "lex_frac (n, r @ rest) = Some (n', r' @ rest)"
proof (cases r)
  case Nil
  then show ?thesis
    using l e by (cases rest) (auto simp: lex_frac_def num_end_def)
next
  case (Cons c cs)
  then show ?thesis
    using l by (auto simp: lex_frac_def digits_append [OF e] split: if_splits)
qed

lemma lex_exp_append:
  assumes e: "num_end rest" and l: "lex_exp (n, r) = Some (n', r')"
  shows "lex_exp (n, r @ rest) = Some (n', r' @ rest)"
proof (cases r)
  case Nil
  then show ?thesis
    using l e by (cases rest) (auto simp: lex_exp_def num_end_def)
next
  case r: (Cons c cs)
  show ?thesis
    using l e digits_append [OF e] unfolding r
    by (cases cs) (auto simp: lex_exp_def Let_def peek_digit_def [of "[]"] digits_append [OF e, of "_ # _", simplified] split: if_splits)
qed

lemma lex_number_append:
  assumes "num_end rest" and "num_start s" and "lex_number s = Some (n, r)"
  shows "lex_number (s @ rest) = Some (n, r @ rest)"
  using assms lex_int_append lex_frac_append lex_exp_append
  by (fastforce simp: lex_number_def bind_eq_Some_conv)

definition number_str :: "string \<Rightarrow> bool" where
  "number_str s \<longleftrightarrow> num_start s \<and> lex_number s = Some (s, [])"

lemma num_start_token:
  assumes "num_start s"
  shows "scan_token s = (case lex_number s of None \<Rightarrow> (JTOK_ERR, [], 0)
      | Some (n, rest) \<Rightarrow> (JTOK_NUMBER, n, length s - length rest))"
proof (cases s)
  case (Cons c cs)
  have "\<not> json_isspace c" "c \<notin> {CHR ''{'', CHR ''}'', CHR ''['', CHR '']'', CHR '':'', CHR '','', CHR ''n'', CHR ''t'', CHR ''f''}"
    "c = CHR ''-'' \<or> json_isdigit c"
    using assms by (auto simp: Cons num_start_def json_isspace_def json_isdigit_def)
  then show ?thesis
    unfolding Cons by (cases "lex_number (c # cs)") (simp_all add: scan_token_def split: prod.split)
qed (use assms in \<open>simp add: num_start_def\<close>)

subsection \<open>Properties\<close>

text \<open>
  Every token except the end and the error advances the input, by no more than what is left of it: so the
  loops over \<^verbatim>\<open>scan_token\<close> end.
\<close>

lemma scan_token_progress:
  assumes "fst (scan_token raw) \<noteq> JTOK_ERR" and "fst (scan_token raw) \<noteq> JTOK_NONE"
  shows "0 < snd (snd (scan_token raw)) \<and> snd (snd (scan_token raw)) \<le> length raw"
  using scan_token_consumes [of raw] assms by (metis prod.collapse)

lemma scan_token_progress_witness:
  "0 < snd (snd (scan_token '' true'')) \<and> snd (snd (scan_token '' true'')) \<le> 5"
  using scan_token_progress [of "'' true''"] by (simp add: scan_token_def json_isspace_def starts_with_def)

end
