(* ===== verification/Univalue.thy ===== *)
theory Univalue
  imports Json_Lex
begin

section \<open>The value class (util/univalue/univalue.cpp, univalue.h)\<close>

text \<open>
  \<^verbatim>\<open>UniValue\<close> is a datatype with the members of the class (\<^verbatim>\<open>typ\<close> is \<open>utyp\<close> and \<^verbatim>\<open>values\<close> is \<open>vals\<close>); an operation that changes the
  object returns it. Exceptions are values of \<open>exn\<close>. Conversions of floating-point numbers by streams are
  arguments of the operations that use them. The invariant \<open>uv_wf\<close> says that an object has as many keys as
  values and a scalar has no members.
\<close>

subsection \<open>Data\<close>

datatype VType = VNULL | VOBJ | VARR | VSTR | VNUM | VBOOL

datatype UniValue = UniValue (utyp: VType) (val: string) (keys: "string list") (vals: "UniValue list")

datatype exn = runtime_error string | out_of_range

type_synonym 'a result = "exn + 'a"

text \<open>\<^verbatim>\<open>vector::at\<close>.\<close>

definition at :: "'a list \<Rightarrow> nat \<Rightarrow> 'a result" where
  "at xs i = (if i < length xs then Inr (xs ! i) else Inl out_of_range)"

definition NullUniValue :: UniValue where
  "NullUniValue = UniValue VNULL [] [] []"

definition UniValue_of :: "VType \<Rightarrow> string \<Rightarrow> UniValue" where
  "UniValue_of initialType initialStr = UniValue initialType initialStr [] []"

subsection \<open>Integers in strings\<close>

definition ParsePrechecks :: "string \<Rightarrow> bool" where
  "ParsePrechecks str =
     (if str = [] then False
      else if json_isspace (str ! 0) \<or> json_isspace (str ! (length str - 1)) then False
      else if length str \<noteq> length (c_str str) then False
      else True)"

text \<open>
  \<^verbatim>\<open>strtol\<close> and \<^verbatim>\<open>strtoll\<close> in base 10, both 64 bits wide: the value, what \<^verbatim>\<open>endp\<close> points to, and whether
  \<^verbatim>\<open>errno\<close> was set.
\<close>

fun dec_value :: "string \<Rightarrow> nat \<Rightarrow> nat" where
  "dec_value [] acc = acc"
| "dec_value (c # cs) acc = dec_value cs (10 * acc + (of_char c - 48))"

definition strtol10 :: "string \<Rightarrow> int \<times> string \<times> bool" where
  "strtol10 s =
     (let t = dropWhile isspace s;
          neg = (t \<noteq> [] \<and> hd t = CHR ''-'');
          u = (if t \<noteq> [] \<and> (hd t = CHR ''-'' \<or> hd t = CHR ''+'') then tl t else t);
          ds = takeWhile json_isdigit u;
          n = (if neg then - int (dec_value ds 0) else int (dec_value ds 0))
      in if ds = [] then (0, s, False)
         else if n < - (2 ^ 63) then (- (2 ^ 63), dropWhile json_isdigit u, True)
         else if 2 ^ 63 \<le> n then (2 ^ 63 - 1, dropWhile json_isdigit u, True)
         else (n, dropWhile json_isdigit u, False))"

text \<open>The result and what is stored through \<^verbatim>\<open>out\<close>, if anything; the cast to 32 bits wraps.\<close>

definition ParseInt32 :: "string \<Rightarrow> bool \<times> int option" where
  "ParseInt32 str =
     (if \<not> ParsePrechecks str then (False, None)
      else let (n, endp, errno) = strtol10 (c_str str) in
           (endp = [] \<and> \<not> errno \<and> - (2 ^ 31) \<le> n \<and> n \<le> 2 ^ 31 - 1, Some (sint (word_of_int n :: 32 word))))"

definition ParseInt64 :: "string \<Rightarrow> bool \<times> int option" where
  "ParseInt64 str =
     (if \<not> ParsePrechecks str then (False, None)
      else let (n, endp, errno) = strtol10 (c_str str) in
           (endp = [] \<and> \<not> errno \<and> - (2 ^ 63) \<le> n \<and> n \<le> 2 ^ 63 - 1, Some (sint (word_of_int n :: 64 word))))"

text \<open>\<open>extract\<close> is \<^verbatim>\<open>text >> result\<close> on a stream over the string: the number, \<^verbatim>\<open>eof\<close> and \<^verbatim>\<open>fail\<close>.\<close>

definition ParseDouble :: "(string \<Rightarrow> 'd \<times> bool \<times> bool) \<Rightarrow> string \<Rightarrow> bool \<times> 'd option" where
  "ParseDouble extract str =
     (if \<not> ParsePrechecks str then (False, None)
      else if 2 \<le> length str \<and> str ! 0 = CHR ''0'' \<and> str ! 1 = CHR ''x'' then (False, None)
      else let (result, eof, failed) = extract str in (eof \<and> \<not> failed, Some result))"

text \<open>Decimal output of integers by \<^verbatim>\<open>operator<<\<close>.\<close>

function dec_nat :: "nat \<Rightarrow> string" where
  "dec_nat n = (if n < 10 then [char_of (48 + n)] else dec_nat (n div 10) @ [char_of (48 + n mod 10)])"
  by pat_completeness auto
termination
  by (relation "measure id") auto

declare dec_nat.simps [simp del]

definition dec_int :: "int \<Rightarrow> string" where
  "dec_int i = (if i < 0 then CHR ''-'' # dec_nat (nat (- i)) else dec_nat (nat i))"

subsection \<open>Setters\<close>

definition uv_clear :: "UniValue \<Rightarrow> UniValue" where
  "uv_clear u = UniValue VNULL [] [] []"

definition setNull :: "UniValue \<Rightarrow> bool \<times> UniValue" where
  "setNull u = (True, uv_clear u)"

definition setBool :: "UniValue \<Rightarrow> bool \<Rightarrow> bool \<times> UniValue" where
  "setBool u val' = (True, UniValue VBOOL (if val' then ''1'' else val (uv_clear u)) (keys (uv_clear u)) (vals (uv_clear u)))"

definition validNumStr :: "string \<Rightarrow> bool" where
  "validNumStr s \<longleftrightarrow> fst (getJsonToken (c_str s)) = JTOK_NUMBER"

definition setNumStr :: "UniValue \<Rightarrow> string \<Rightarrow> bool \<times> UniValue" where
  "setNumStr u val' =
     (if \<not> validNumStr val' then (False, u)
      else (True, UniValue VNUM val' (keys (uv_clear u)) (vals (uv_clear u))))"

definition setInt_u64 :: "UniValue \<Rightarrow> u64 \<Rightarrow> bool \<times> UniValue" where
  "setInt_u64 u v = setNumStr u (dec_int (uint v))"

definition setInt_i64 :: "UniValue \<Rightarrow> u64 \<Rightarrow> bool \<times> UniValue" where
  "setInt_i64 u v = setNumStr u (dec_int (sint v))"

text \<open>\<open>fmt16\<close> is the stream's output with \<^verbatim>\<open>setprecision(16)\<close>.\<close>

definition setFloat :: "('d \<Rightarrow> string) \<Rightarrow> UniValue \<Rightarrow> 'd \<Rightarrow> bool \<times> UniValue" where
  "setFloat fmt16 u v =
     (let (ret, u) = setNumStr u (fmt16 v) in (ret, UniValue VNUM (val u) (keys u) (vals u)))"

definition setStr :: "UniValue \<Rightarrow> string \<Rightarrow> bool \<times> UniValue" where
  "setStr u val' = (True, UniValue VSTR val' (keys (uv_clear u)) (vals (uv_clear u)))"

definition setArray :: "UniValue \<Rightarrow> bool \<times> UniValue" where
  "setArray u = (True, UniValue VARR (val (uv_clear u)) (keys (uv_clear u)) (vals (uv_clear u)))"

definition setObject :: "UniValue \<Rightarrow> bool \<times> UniValue" where
  "setObject u = (True, UniValue VOBJ (val (uv_clear u)) (keys (uv_clear u)) (vals (uv_clear u)))"

definition setInt_int :: "UniValue \<Rightarrow> u32 \<Rightarrow> bool \<times> UniValue" where
  "setInt_int u v = setInt_i64 u (scast v)"

subsection \<open>Constructors from values\<close>

text \<open>A constructor starts with empty members; \<open>NullUniValue\<close> has these.\<close>

definition UniValue_u64 :: "u64 \<Rightarrow> UniValue" where
  "UniValue_u64 v = snd (setInt_u64 NullUniValue v)"

definition UniValue_i64 :: "u64 \<Rightarrow> UniValue" where
  "UniValue_i64 v = snd (setInt_i64 NullUniValue v)"

definition UniValue_bool :: "bool \<Rightarrow> UniValue" where
  "UniValue_bool v = snd (setBool NullUniValue v)"

definition UniValue_int :: "u32 \<Rightarrow> UniValue" where
  "UniValue_int v = snd (setInt_int NullUniValue v)"

definition UniValue_double :: "('d \<Rightarrow> string) \<Rightarrow> 'd \<Rightarrow> UniValue" where
  "UniValue_double fmt16 v = snd (setFloat fmt16 NullUniValue v)"

definition UniValue_str :: "string \<Rightarrow> UniValue" where
  "UniValue_str v = snd (setStr NullUniValue v)"

subsection \<open>Adding members\<close>

definition push_back :: "UniValue \<Rightarrow> UniValue \<Rightarrow> bool \<times> UniValue" where
  "push_back u v = (if utyp u \<noteq> VARR then (False, u) else (True, UniValue (utyp u) (val u) (keys u) (vals u @ [v])))"

definition push_back_str :: "UniValue \<Rightarrow> string \<Rightarrow> bool \<times> UniValue" where
  "push_back_str u val' = push_back u (UniValue_of VSTR val')"

definition push_backV :: "UniValue \<Rightarrow> UniValue list \<Rightarrow> bool \<times> UniValue" where
  "push_backV u vec = (if utyp u \<noteq> VARR then (False, u) else (True, UniValue (utyp u) (val u) (keys u) (vals u @ vec)))"

definition pushKV :: "UniValue \<Rightarrow> string \<Rightarrow> UniValue \<Rightarrow> bool \<times> UniValue" where
  "pushKV u key v =
     (if utyp u \<noteq> VOBJ then (False, u) else (True, UniValue (utyp u) (val u) (keys u @ [key]) (vals u @ [v])))"

definition pushKV_str :: "UniValue \<Rightarrow> string \<Rightarrow> string \<Rightarrow> bool \<times> UniValue" where
  "pushKV_str u key v = pushKV u key (UniValue_of VSTR v)"

definition pushKV_i64 :: "UniValue \<Rightarrow> string \<Rightarrow> u64 \<Rightarrow> bool \<times> UniValue" where
  "pushKV_i64 u key v = pushKV u key (UniValue_i64 v)"

definition pushKV_u64 :: "UniValue \<Rightarrow> string \<Rightarrow> u64 \<Rightarrow> bool \<times> UniValue" where
  "pushKV_u64 u key v = pushKV u key (UniValue_u64 v)"

definition pushKV_int :: "UniValue \<Rightarrow> string \<Rightarrow> u32 \<Rightarrow> bool \<times> UniValue" where
  "pushKV_int u key v = pushKV u key (UniValue_i64 (scast v))"

definition pushKV_double :: "('d \<Rightarrow> string) \<Rightarrow> UniValue \<Rightarrow> string \<Rightarrow> 'd \<Rightarrow> bool \<times> UniValue" where
  "pushKV_double fmt16 u key v = pushKV u key (UniValue_double fmt16 v)"

definition push_back_pair :: "UniValue \<Rightarrow> string \<times> UniValue \<Rightarrow> bool \<times> UniValue" where
  "push_back_pair u pear = pushKV u (fst pear) (snd pear)"

text \<open>The overloads of \<^verbatim>\<open>Pair\<close>, whose first argument is a C string.\<close>

definition Pair_str :: "string \<Rightarrow> string \<Rightarrow> string \<times> UniValue" where
  "Pair_str cKey strVal = (c_str cKey, UniValue_str strVal)"

definition Pair_cstr :: "string \<Rightarrow> string \<Rightarrow> string \<times> UniValue" where
  "Pair_cstr cKey cVal = (c_str cKey, UniValue_str (c_str cVal))"

definition Pair_u64 :: "string \<Rightarrow> u64 \<Rightarrow> string \<times> UniValue" where
  "Pair_u64 cKey u64Val = (c_str cKey, UniValue_u64 u64Val)"

definition Pair_i64 :: "string \<Rightarrow> u64 \<Rightarrow> string \<times> UniValue" where
  "Pair_i64 cKey i64Val = (c_str cKey, UniValue_i64 i64Val)"

definition Pair_bool :: "string \<Rightarrow> bool \<Rightarrow> string \<times> UniValue" where
  "Pair_bool cKey iVal = (c_str cKey, UniValue_bool iVal)"

definition Pair_int :: "string \<Rightarrow> u32 \<Rightarrow> string \<times> UniValue" where
  "Pair_int cKey iVal = (c_str cKey, UniValue_int iVal)"

definition Pair_double :: "('d \<Rightarrow> string) \<Rightarrow> string \<Rightarrow> 'd \<Rightarrow> string \<times> UniValue" where
  "Pair_double fmt16 cKey dVal = (c_str cKey, UniValue_double fmt16 dVal)"

definition Pair_uv :: "string \<Rightarrow> UniValue \<Rightarrow> string \<times> UniValue" where
  "Pair_uv key uVal = (key, uVal)"



subsection \<open>Lookup\<close>

text \<open>
  The loops over the members count them in an \<^verbatim>\<open>unsigned int\<close>; here and below they are modelled for objects and arrays of fewer
  than 2 to the 32 members, where the counter does not wrap. \<^verbatim>\<open>findKey\<close> converts its counter to \<^verbatim>\<open>int\<close>, which is negative
  from 2 to the 31 on.
\<close>

fun findKey_loop :: "string list \<Rightarrow> string \<Rightarrow> nat \<Rightarrow> int" where
  "findKey_loop [] key i = -1"
| "findKey_loop (k # ks) key i = (if k = key then to_int32 i else findKey_loop ks key (Suc i))"

definition findKey :: "UniValue \<Rightarrow> string \<Rightarrow> int" where
  "findKey u key = findKey_loop (keys u) key 0"

definition uv_exists :: "UniValue \<Rightarrow> string \<Rightarrow> bool" where
  "uv_exists u key \<longleftrightarrow> findKey u key \<ge> 0"

text \<open>\<open>t\<close> lists the entries of the \<^verbatim>\<open>std::map\<close> in its order.\<close>

fun checkObject :: "UniValue \<Rightarrow> (string \<times> VType) list \<Rightarrow> bool result" where
  "checkObject u [] = Inr True"
| "checkObject u ((k, ty) # t) =
     (let idx = findKey u k in
      if idx < 0 then Inr False
      else case at (vals u) (nat idx) of
             Inl e \<Rightarrow> Inl e
           | Inr v \<Rightarrow> if utyp v \<noteq> ty then Inr False else checkObject u t)"

definition uv_at_key :: "UniValue \<Rightarrow> string \<Rightarrow> UniValue result" where
  "uv_at_key u key =
     (if utyp u \<noteq> VOBJ then Inr NullUniValue
      else let index = findKey u key in
           if index < 0 then Inr NullUniValue else at (vals u) (nat index))"

definition uv_at_index :: "UniValue \<Rightarrow> u32 \<Rightarrow> UniValue result" where
  "uv_at_index u index =
     (if utyp u \<noteq> VOBJ \<and> utyp u \<noteq> VARR then Inr NullUniValue
      else if length (vals u) \<le> unat index then Inr NullUniValue
      else at (vals u) (unat index))"

fun find_value_loop :: "string list \<Rightarrow> nat \<Rightarrow> UniValue list \<Rightarrow> string \<Rightarrow> UniValue result" where
  "find_value_loop [] i vs name = Inr NullUniValue"
| "find_value_loop (k # ks) i vs name = (if k = name then at vs i else find_value_loop ks (Suc i) vs name)"

definition find_value :: "UniValue \<Rightarrow> string \<Rightarrow> UniValue result" where
  "find_value obj name = find_value_loop (keys obj) 0 (vals obj) name"

fun uvTypeName :: "VType \<Rightarrow> string" where
  "uvTypeName VNULL = ''null''"
| "uvTypeName VBOOL = ''bool''"
| "uvTypeName VOBJ = ''object''"
| "uvTypeName VARR = ''array''"
| "uvTypeName VSTR = ''string''"
| "uvTypeName VNUM = ''number''"

subsection \<open>Getters\<close>

definition isTrue :: "UniValue \<Rightarrow> bool" where
  "isTrue u \<longleftrightarrow> utyp u = VBOOL \<and> val u = ''1''"

definition isFalse :: "UniValue \<Rightarrow> bool" where
  "isFalse u \<longleftrightarrow> utyp u = VBOOL \<and> val u \<noteq> ''1''"

definition getKeys :: "UniValue \<Rightarrow> string list result" where
  "getKeys u = (if utyp u \<noteq> VOBJ then Inl (runtime_error ''JSON value is not an object as expected'') else Inr (keys u))"

definition getValues :: "UniValue \<Rightarrow> UniValue list result" where
  "getValues u =
     (if utyp u \<noteq> VOBJ \<and> utyp u \<noteq> VARR then Inl (runtime_error ''JSON value is not an object or array as expected'')
      else Inr (vals u))"

definition get_bool :: "UniValue \<Rightarrow> bool result" where
  "get_bool u = (if utyp u \<noteq> VBOOL then Inl (runtime_error ''JSON value is not a boolean as expected'') else Inr (isTrue u))"

definition get_str :: "UniValue \<Rightarrow> string result" where
  "get_str u = (if utyp u \<noteq> VSTR then Inl (runtime_error ''JSON value is not a string as expected'') else Inr (val u))"

definition get_int :: "UniValue \<Rightarrow> int result" where
  "get_int u =
     (if utyp u \<noteq> VNUM then Inl (runtime_error ''JSON value is not an integer as expected'')
      else case ParseInt32 (val u) of
             (True, Some retval) \<Rightarrow> Inr retval
           | _ \<Rightarrow> Inl (runtime_error ''JSON integer out of range''))"

definition get_int64 :: "UniValue \<Rightarrow> int result" where
  "get_int64 u =
     (if utyp u \<noteq> VNUM then Inl (runtime_error ''JSON value is not an integer as expected'')
      else case ParseInt64 (val u) of
             (True, Some retval) \<Rightarrow> Inr retval
           | _ \<Rightarrow> Inl (runtime_error ''JSON integer out of range''))"

definition get_real :: "(string \<Rightarrow> 'd \<times> bool \<times> bool) \<Rightarrow> UniValue \<Rightarrow> 'd result" where
  "get_real extract u =
     (if utyp u \<noteq> VNUM then Inl (runtime_error ''JSON value is not a number as expected'')
      else case ParseDouble extract (val u) of
             (True, Some retval) \<Rightarrow> Inr retval
           | _ \<Rightarrow> Inl (runtime_error ''JSON double out of range''))"

definition get_obj :: "UniValue \<Rightarrow> UniValue result" where
  "get_obj u = (if utyp u \<noteq> VOBJ then Inl (runtime_error ''JSON value is not an object as expected'') else Inr u)"

definition get_array :: "UniValue \<Rightarrow> UniValue result" where
  "get_array u = (if utyp u \<noteq> VARR then Inl (runtime_error ''JSON value is not an array as expected'') else Inr u)"

subsection \<open>The invariant\<close>

primrec uv_wf :: "UniValue \<Rightarrow> bool" where
  "uv_wf (UniValue t v ks vs) \<longleftrightarrow>
     (case t of VOBJ \<Rightarrow> length ks = length vs | VARR \<Rightarrow> ks = [] | _ \<Rightarrow> ks = [] \<and> vs = []) \<and> list_all uv_wf vs"

lemma uv_wf_sel:
  "uv_wf u \<longleftrightarrow>
     (utyp u = VOBJ \<longrightarrow> length (keys u) = length (vals u)) \<and> (utyp u \<noteq> VOBJ \<longrightarrow> keys u = [])
     \<and> (utyp u \<noteq> VOBJ \<longrightarrow> utyp u \<noteq> VARR \<longrightarrow> vals u = []) \<and> list_all uv_wf (vals u)"
  by (cases u) (auto split: VType.splits)

lemma uv_wf_Null [simp]: "uv_wf NullUniValue"
  by (simp add: NullUniValue_def)

lemmas uv_setters = setNull_def setBool_def setNumStr_def setInt_u64_def setInt_i64_def setStr_def setArray_def
  setObject_def uv_clear_def


lemma uv_wf_push:
  assumes "uv_wf u"
  shows "uv_wf v \<Longrightarrow> uv_wf (snd (push_back u v))" "list_all uv_wf vec \<Longrightarrow> uv_wf (snd (push_backV u vec))"
    "uv_wf v \<Longrightarrow> uv_wf (snd (pushKV u k v))"
  using assms by (simp_all add: uv_wf_sel [of u] push_back_def push_backV_def pushKV_def)




subsection \<open>Lookup is the first binding\<close>

definition binding :: "UniValue \<Rightarrow> string \<Rightarrow> UniValue option" where
  "binding u = map_of (zip (keys u) (vals u))"

lemma findKey_loop_result:
  "length ks = length vs \<Longrightarrow> i + length ks < 2 ^ 31 \<Longrightarrow>
     (case map_of (zip ks vs) key of
        None \<Rightarrow> findKey_loop ks key i = -1
      | Some v \<Rightarrow> \<exists>j < length vs. findKey_loop ks key i = int (i + j) \<and> vs ! j = v)"
proof (induction ks arbitrary: vs i)
  case (Cons k ks)
  then obtain v vs' where vs: "vs = v # vs'"
    by (cases vs) auto
  show ?case
  proof (cases "k = key")
    case True
    then show ?thesis using Cons.prems to_int32_id [of i] by (auto simp: vs intro!: exI [of _ 0])
  next
    case False
    have step: "\<exists>j < length vs. findKey_loop ks key (Suc i) = int (i + j) \<and> vs ! j = w"
      if "j < length vs'" "findKey_loop ks key (Suc i) = int (Suc i + j)" "vs' ! j = w" for w j
      using that by (intro exI [of _ "Suc j"]) (simp add: vs)
    have "case map_of (zip ks vs') key of None \<Rightarrow> findKey_loop ks key (Suc i) = -1
        | Some v \<Rightarrow> \<exists>j < length vs'. findKey_loop ks key (Suc i) = int (Suc i + j) \<and> vs' ! j = v"
      using Cons.IH Cons.prems by (simp add: vs)
    then show ?thesis
      using False step by (cases "map_of (zip ks vs') key") (auto simp: vs)
  qed
qed simp

lemma find_value_loop_findKey:
  "i + length ks < 2 ^ 31 \<Longrightarrow> find_value_loop ks i vs key =
     (if findKey_loop ks key i < 0 then Inr NullUniValue else at vs (nat (findKey_loop ks key i)))"
proof (induction ks arbitrary: i)
  case (Cons k ks)
  then show ?case using to_int32_id [of i] by simp
qed simp

lemma findKey_result:
  assumes "uv_wf u" and "utyp u = VOBJ" and "length (vals u) < 2 ^ 31"
  shows "(case binding u key of
      None \<Rightarrow> findKey u key = -1
    | Some v \<Rightarrow> \<exists>j < length (vals u). findKey u key = int j \<and> vals u ! j = v)"
  using findKey_loop_result [of "keys u" "vals u" 0 key] assms
  unfolding findKey_def binding_def by (cases "map_of (zip (keys u) (vals u)) key")
    (auto simp: uv_wf_sel simp del: map_of_zip_is_None)

lemma lookup_binding:
  assumes "uv_wf u" and "utyp u = VOBJ" and "length (vals u) < 2 ^ 31"
  shows "uv_at_key u key = Inr (case binding u key of None \<Rightarrow> NullUniValue | Some v \<Rightarrow> v)"
    and "find_value u key = Inr (case binding u key of None \<Rightarrow> NullUniValue | Some v \<Rightarrow> v)"
    and "uv_exists u key \<longleftrightarrow> binding u key \<noteq> None"
  using findKey_result [OF assms, of key] assms find_value_loop_findKey [of 0 "keys u" "vals u" key]
  by (auto simp: uv_at_key_def find_value_def uv_exists_def at_def uv_wf_sel
      simp flip: findKey_def split: option.splits)

lemma binding_pushKV:
  assumes "uv_wf u" and "utyp u = VOBJ"
  shows "binding (snd (pushKV u k v)) = (\<lambda>x. if x = k \<and> binding u k = None then Some v else binding u x)"
  using assms
  by (auto simp: binding_def pushKV_def uv_wf_sel fun_eq_iff zip_append map_of_append map_add_def
      simp del: map_of_zip_is_None split: option.splits)

subsection \<open>Decimal numbers\<close>

lemma digit_char: "d < 10 \<Longrightarrow> json_isdigit (char_of (48 + d))" "d < 10 \<Longrightarrow> of_char (char_of (48 + d)) - 48 = d"
  for d :: nat
  by (simp_all add: json_isdigit_def of_char_of)

lemma dec_nat_digits: "list_all json_isdigit (dec_nat n)"
proof (induction n rule: dec_nat.induct)
  case (1 n)
  then show ?case by (subst dec_nat.simps) (simp add: digit_char)
qed

lemma dec_nat_nonempty [simp]: "dec_nat n \<noteq> []"
  by (subst dec_nat.simps) simp

lemma dec_value_append: "dec_value (xs @ ys) acc = dec_value ys (dec_value xs acc)"
  by (induction xs arbitrary: acc) simp_all

lemma dec_value_dec_nat: "dec_value (dec_nat n) 0 = n"
proof (induction n rule: dec_nat.induct)
  case (1 n)
  then show ?case by (subst dec_nat.simps) (simp add: dec_value_append digit_char)
qed

lemma char_of_inj: "m < 256 \<Longrightarrow> n < 256 \<Longrightarrow> char_of m = char_of n \<longleftrightarrow> m = n" for m n :: nat
  by (metis of_char_of mod_less)

lemma dec_nat_head: "hd (dec_nat n) = char_of (48 :: nat) \<Longrightarrow> n = 0"
proof (induction n rule: dec_nat.induct)
  case (1 n)
  show ?case
  proof (cases "n < 10")
    case True
    then show ?thesis
      using "1.prems" char_of_inj [of "48 + n" 48] by (simp add: dec_nat.simps [of n])
  next
    case False
    then show ?thesis
      using 1 by (simp add: dec_nat.simps [of n])
  qed
qed

lemma digits_span:
  assumes "list_all json_isdigit ds"
  shows "takeWhile json_isdigit ds = ds" "dropWhile json_isdigit ds = []"
  using assms by (simp_all add: list.pred_set)

lemma lex_number_digits:
  assumes d: "list_all json_isdigit (c # ds)" and z: "c = CHR ''0'' \<Longrightarrow> ds = []"
  shows "lex_number (c # ds) = Some (c # ds, [])" "lex_number (CHR ''-'' # c # ds) = Some (CHR ''-'' # c # ds, [])"
  using d z digits_span [of ds]
  by (auto simp: lex_number_def lex_int_def lex_frac_def lex_exp_def peek_digit_def digits_minus Let_def)

lemma dec_int_cases:
  obtains c ds where "list_all json_isdigit (c # ds)" "c = CHR ''0'' \<Longrightarrow> ds = []"
    "dec_int i = (if i < 0 then CHR ''-'' # c # ds else c # ds)" "dec_value (c # ds) 0 = nat \<bar>i\<bar>"
proof -
  let ?n = "nat \<bar>i\<bar>"
  obtain c ds where ds: "dec_nat ?n = c # ds"
    using dec_nat_nonempty by (meson neq_Nil_conv)
  have zero: "char_of (48 :: nat) = CHR ''0''"
    by (simp add: char_of_eq_iff)
  have "ds = []" if "c = CHR ''0''"
    using that dec_nat_head [of ?n] ds by (simp add: zero dec_nat.simps [of 0])
  moreover have "dec_int i = (if i < 0 then CHR ''-'' # c # ds else c # ds)"
    using ds by (auto simp: dec_int_def)
  ultimately show ?thesis
    using that [of c ds] dec_nat_digits [of ?n] dec_value_dec_nat [of ?n] by (simp add: ds)
qed

lemma number_str_dec_int: "number_str (dec_int i)"
  by (rule dec_int_cases [of i]) (auto simp: number_str_def num_start_def lex_number_digits)

lemma digit_plain: "json_isdigit c \<Longrightarrow> c \<noteq> CHR 0x00 \<and> \<not> json_isspace c \<and> \<not> isspace c \<and> c \<noteq> CHR ''-'' \<and> c \<noteq> CHR ''+''"
  by (auto simp: json_isdigit_def json_isspace_def isspace_def Let_def)

lemma dec_int_plain: "c \<in> set (dec_int i) \<Longrightarrow> c \<noteq> CHR 0x00 \<and> \<not> json_isspace c"
  using digit_plain
  by (rule_tac dec_int_cases [of i]) (auto simp: list.pred_set split: if_splits, auto simp: json_isspace_def)

lemma c_str_dec_int [simp]: "c_str (dec_int i) = dec_int i"
  using dec_int_plain by (simp add: c_str_def)

lemma dec_int_nonempty [simp]: "dec_int i \<noteq> []"
  by (simp add: dec_int_def)

lemma ParsePrechecks_dec_int: "ParsePrechecks (dec_int i)"
  using dec_int_plain [of "dec_int i ! 0" i] dec_int_plain [of "dec_int i ! (length (dec_int i) - 1)" i]
  by (simp add: ParsePrechecks_def)

lemma strtol10_dec_int:
  "strtol10 (dec_int i) =
     (if i < - (2 ^ 63) then (- (2 ^ 63), [], True) else if 2 ^ 63 \<le> i then (2 ^ 63 - 1, [], True) else (i, [], False))"
proof (rule dec_int_cases [of i])
  fix c ds
  assume d: "list_all json_isdigit (c # ds)" and i: "dec_int i = (if i < 0 then CHR ''-'' # c # ds else c # ds)"
    and v: "dec_value (c # ds) 0 = nat \<bar>i\<bar>"
  have "json_isdigit c" "\<not> isspace (CHR ''-'')"
    using d by (simp_all add: isspace_def)
  with i v digit_plain [of c] show ?thesis
    unfolding strtol10_def by (auto simp: Let_def digits_span [of ds] d [simplified])
qed

lemma setInt_result:
  "setInt_i64 u w = (True, UniValue VNUM (dec_int (sint w)) [] [])"
  "setInt_u64 u w = (True, UniValue VNUM (dec_int (uint w)) [] [])"
  using number_str_dec_int
  by (simp_all add: uv_setters validNumStr_def number_str_def num_start_token)

lemma get_int64_dec:
  "get_int64 (UniValue VNUM (dec_int i) ks vs) =
     (if - (2 ^ 63) \<le> i \<and> i < 2 ^ 63 then Inr i else Inl (runtime_error ''JSON integer out of range''))"
  by (auto simp: get_int64_def ParseInt64_def ParsePrechecks_dec_int strtol10_dec_int signed_of_int signed_take_bit_int_eq_self)

lemma get_int_dec:
  "get_int (UniValue VNUM (dec_int i) ks vs) =
     (if - (2 ^ 31) \<le> i \<and> i < 2 ^ 31 then Inr i else Inl (runtime_error ''JSON integer out of range''))"
  by (auto simp: get_int_def ParseInt32_def ParsePrechecks_dec_int strtol10_dec_int signed_of_int signed_take_bit_int_eq_self)

subsection \<open>The members of an object as a first-come map\<close>

text \<open>
  What the users of an object rely on: \<open>put\<close> keeps the object well formed, never replaces a binding and adds
  the one it is given when there is none.
\<close>

locale first_come_map =
  fixes good :: "'o \<Rightarrow> bool"
    and put :: "'o \<Rightarrow> 'k \<Rightarrow> 'v \<Rightarrow> 'o"
    and get :: "'o \<Rightarrow> 'k \<Rightarrow> 'v option"
    and ok :: "'v \<Rightarrow> bool"
  assumes good_put: "good u \<Longrightarrow> ok v \<Longrightarrow> good (put u k v)"
    and get_put: "good u \<Longrightarrow> get (put u k v) = (\<lambda>x. if x = k \<and> get u k = None then Some v else get u x)"
begin

definition put_all :: "('k \<times> 'v) list \<Rightarrow> 'o \<Rightarrow> 'o" where
  "put_all kvs u = fold (\<lambda>(k, v) u. put u k v) kvs u"

lemma put_all_get:
  "good u \<Longrightarrow> list_all (\<lambda>(k, v). ok v) kvs \<Longrightarrow>
     good (put_all kvs u) \<and> get (put_all kvs u) = map_of kvs ++ get u"
proof (induction kvs arbitrary: u)
  case (Cons kv kvs)
  obtain k v where kv: "kv = (k, v)" by (cases kv)
  then have ok: "ok v" using Cons.prems by simp
  have "map_of kvs ++ get (put u k v) = map_of ((k, v) # kvs) ++ get u"
    using get_put [OF Cons.prems(1), of k v] by (auto simp: fun_eq_iff map_add_def split: option.splits)
  then show ?case
    using Cons.IH [OF good_put [OF Cons.prems(1) ok, of k]] Cons.prems by (auto simp: put_all_def kv fun_upd_def)
qed (simp add: put_all_def)

end

definition is_object :: "UniValue \<Rightarrow> bool" where
  "is_object u \<longleftrightarrow> uv_wf u \<and> utyp u = VOBJ"

interpretation members: first_come_map is_object "\<lambda>u k v. snd (pushKV u k v)" binding uv_wf
proof unfold_locales
  show "is_object (snd (pushKV u k v))" if "is_object u" "uv_wf v" for u k v
    using that uv_wf_push(3) [of u v k] by (simp add: is_object_def pushKV_def)
  show "binding (snd (pushKV u k v)) = (\<lambda>x. if x = k \<and> binding u k = None then Some v else binding u x)"
    if "is_object u" for u k v
    using that binding_pushKV by (simp add: is_object_def)
qed

text \<open>The object built by \<^verbatim>\<open>setObject\<close> and one \<^verbatim>\<open>pushKV\<close> per pair.\<close>

definition build_object :: "UniValue \<Rightarrow> (string \<times> UniValue) list \<Rightarrow> UniValue" where
  "build_object u kvs = fold (\<lambda>(k, v) u. snd (pushKV u k v)) kvs (snd (setObject u))"

lemma build_object_binding:
  assumes "list_all (\<lambda>(k, v). uv_wf v) kvs"
  shows "is_object (build_object u kvs)" and "binding (build_object u kvs) = map_of kvs"
proof -
  have "is_object (snd (setObject u))" "binding (snd (setObject u)) = Map.empty"
    by (simp_all add: is_object_def uv_setters binding_def)
  then show "is_object (build_object u kvs)" "binding (build_object u kvs) = map_of kvs"
    using members.put_all_get [OF _ assms, of "snd (setObject u)"]
    by (simp_all add: members.put_all_def build_object_def)
qed

lemma build_object_length: "length (vals (build_object u kvs)) = length kvs"
proof -
  have "utyp w = VOBJ \<Longrightarrow> length (vals (fold (\<lambda>(k, v) u. snd (pushKV u k v)) kvs w)) = length (vals w) + length kvs" for w
    by (induction kvs arbitrary: w) (auto simp: pushKV_def)
  then show ?thesis by (simp add: build_object_def uv_setters)
qed

lemma checkObject_result:
  assumes "is_object u" "length (vals u) < 2 ^ 31"
  shows "checkObject u t = Inr (list_all (\<lambda>(k, ty). map_option utyp (binding u k) = Some ty) t)"
proof (induction t)
  case (Cons kt t)
  obtain k ty where kt: "kt = (k, ty)" by (cases kt)
  show ?case
  proof (cases "binding u k")
    case None
    then show ?thesis
      using findKey_result [of u k] assms by (simp add: kt is_object_def)
  next
    case (Some v)
    then obtain j where "j < length (vals u)" "findKey u k = int j" "vals u ! j = v"
      using findKey_result [of u k] assms by (auto simp: is_object_def)
    then show ?thesis
      using Some Cons.IH by (simp add: kt at_def)
  qed
qed simp


subsection \<open>Properties\<close>



text \<open>
  C38. An object built by \<^verbatim>\<open>setObject\<close> and a sequence of fewer than 2 to the 31 \<^verbatim>\<open>pushKV\<close>, the range of an \<^verbatim>\<open>int\<close>, is the map of the pairs in which the first
  pair of a key counts: the three ways to look a key up agree with it, and none of them throws.
\<close>

theorem UniValue_lookup:
  assumes "list_all (\<lambda>(k, v). uv_wf v) kvs" and "length kvs < 2 ^ 31"
  shows "uv_at_key (build_object u kvs) key = Inr (case map_of kvs key of None \<Rightarrow> NullUniValue | Some v \<Rightarrow> v) \<and>
    find_value (build_object u kvs) key = Inr (case map_of kvs key of None \<Rightarrow> NullUniValue | Some v \<Rightarrow> v) \<and>
    uv_exists (build_object u kvs) key = (map_of kvs key \<noteq> None) \<and>
    checkObject (build_object u kvs) t = Inr (list_all (\<lambda>(k, ty). map_option utyp (map_of kvs k) = Some ty) t)"
proof -
  note o = build_object_binding [OF assms(1), of u]
  then have w: "uv_wf (build_object u kvs)" "utyp (build_object u kvs) = VOBJ" "length (vals (build_object u kvs)) < 2 ^ 31"
    using assms(2) by (simp_all add: is_object_def build_object_length)
  show ?thesis
    using lookup_binding [OF w] checkObject_result [OF o(1) w(3)] by (simp add: o(2))
qed

theorem UniValue_lookup_witness:
  "find_value (build_object NullUniValue [(''a'', UniValue_bool True), (''a'', NullUniValue)]) ''a'' = Inr (UniValue_bool True)"
  using UniValue_lookup [of "[(''a'', UniValue_bool True), (''a'', NullUniValue)]" NullUniValue "''a''" "[]"]
  by (simp add: UniValue_bool_def setBool_def uv_clear_def)

text \<open>
  C40. An integer stored by \<^verbatim>\<open>setInt\<close> is read back by \<^verbatim>\<open>get_int64\<close> exactly, up to the largest \<^verbatim>\<open>int64_t\<close>, above
  which it throws; \<^verbatim>\<open>get_int\<close> returns it when it fits 32 bits and throws otherwise.
\<close>

theorem setInt_get_int:
  "get_int64 (snd (setInt_i64 u w)) = Inr (sint w) \<and>
   get_int64 (snd (setInt_u64 u x)) = (if uint x < 2 ^ 63 then Inr (uint x) else Inl (runtime_error ''JSON integer out of range'')) \<and>
   get_int (snd (setInt_i64 u w)) =
     (if - (2 ^ 31) \<le> sint w \<and> sint w < 2 ^ 31 then Inr (sint w) else Inl (runtime_error ''JSON integer out of range'')) \<and>
   get_int (snd (setInt_int u i)) = Inr (sint i)"
proof -
  have w: "- (2 ^ 63) \<le> sint w" "sint w < 2 ^ 63"
    using sint_greater_eq [of w] sint_less [of w] by simp_all
  have i: "- (2 ^ 31) \<le> sint i" "sint i < 2 ^ 31"
    using sint_greater_eq [of i] sint_less [of i] by simp_all
  have x: "- (2 ^ 63) \<le> uint x"
    by (rule order_trans [OF _ uint_ge_0]) simp
  have "sint (scast i :: u64) = sint i"
    by (simp add: sint_up_scast is_up)
  then show ?thesis
    using w i x by (simp add: setInt_int_def setInt_result get_int64_dec get_int_dec)
qed

text \<open>
  \<^verbatim>\<open>setNumStr\<close> looks only at the first token: whatever follows a number, if it cannot be part of the
  number, is accepted and stored with it.
\<close>

lemma setNumStr_trailing:
  assumes "number_str n" and "num_end rest" and "CHR 0x00 \<notin> set (n @ rest)"
  shows "setNumStr u (n @ rest) = (True, UniValue VNUM (n @ rest) [] [])"
proof -
  have "c_str (n @ rest) = n @ rest"
    unfolding c_str_def using assms(3) by (auto simp: takeWhile_eq_all_conv)
  moreover have "num_start (n @ rest)"
    using assms(1) by (cases n) (auto simp: number_str_def num_start_def)
  moreover have "lex_number (n @ rest) = Some (n, rest)"
    using lex_number_append [of rest n n "[]"] assms by (simp add: number_str_def)
  ultimately show ?thesis
    by (simp add: setNumStr_def validNumStr_def num_start_token uv_clear_def)
qed

lemma setNumStr_trailing_witness:
  "setNumStr NullUniValue ''1x'' = (True, UniValue VNUM ''1x'' [] [])"
proof -
  have "number_str ''1''"
    by (simp add: number_str_def num_start_def lex_number_digits json_isdigit_def)
  then show ?thesis
    using setNumStr_trailing [of "''1''" "''x''" NullUniValue] by (simp add: num_end_def json_isdigit_def)
qed

text \<open>
  When the text of a floating-point number is not a number token, as for an infinity, \<^verbatim>\<open>setFloat\<close> fails but
  still turns the value into a number: the old text and members stay, so the invariant is lost exactly when
  there were members.
\<close>

lemma setFloat_failure:
  assumes "\<not> validNumStr (fmt16 d)" and "uv_wf u"
  shows "setFloat fmt16 u d = (False, UniValue VNUM (val u) (keys u) (vals u)) \<and>
    (uv_wf (snd (setFloat fmt16 u d)) \<longleftrightarrow> vals u = [])"
  using assms by (auto simp: setFloat_def setNumStr_def uv_wf_sel)

lemma setFloat_failure_witness:
  "setFloat (\<lambda>_ :: nat. ''inf'') (UniValue VARR [] [] [NullUniValue]) 0 = (False, UniValue VNUM [] [] [NullUniValue])"
  using setFloat_failure [of "\<lambda>_ :: nat. ''inf''" 0 "UniValue VARR [] [] [NullUniValue]"]
  by (simp add: validNumStr_def c_str_def scan_token_def json_isspace_def json_isdigit_def)

end
