(* ===== verification/Json_Write.thy ===== *)
theory Json_Write
  imports Univalue
begin

section \<open>The JSON writer (util/univalue/univalue_write.cpp, univalue_escapes.h)\<close>

text \<open>
  \<^verbatim>\<open>json_escape\<close>, \<^verbatim>\<open>write\<close>, \<^verbatim>\<open>writeArray\<close> and \<^verbatim>\<open>writeObject\<close>. The functions that append to a string passed by
  reference return what they append. Indentation levels are 32-bit words, so their product wraps as the
  \<^verbatim>\<open>unsigned int\<close> of the code does; \<^verbatim>\<open>values.at\<close> of \<^verbatim>\<open>writeObject\<close> may throw, so the writers return a \<open>result\<close>.
\<close>

subsection \<open>Escapes\<close>

text \<open>A string of the table: a backslash and the given characters.\<close>

definition esc :: "string \<Rightarrow> string option" where
  "esc s = Some (CHR 0x5C # s)"

definition escapes :: "string option list" where
  "escapes =
     [esc ''u0000'', esc ''u0001'', esc ''u0002'', esc ''u0003'', esc ''u0004'', esc ''u0005'', esc ''u0006'', esc ''u0007'',
      esc ''b'', esc ''t'', esc ''n'', esc ''u000b'', esc ''f'', esc ''r'', esc ''u000e'', esc ''u000f'',
      esc ''u0010'', esc ''u0011'', esc ''u0012'', esc ''u0013'', esc ''u0014'', esc ''u0015'', esc ''u0016'', esc ''u0017'',
      esc ''u0018'', esc ''u0019'', esc ''u001a'', esc ''u001b'', esc ''u001c'', esc ''u001d'', esc ''u001e'', esc ''u001f'']
     @ replicate 2 None @ [esc [CHR 0x22]]
     @ replicate 57 None @ [esc [CHR 0x5C]]
     @ replicate 34 None @ [esc ''u007f'']
     @ replicate 128 None"

text \<open>\<^verbatim>\<open>sprintf(tmpesc, "\\u%04x", ch)\<close> for a byte.\<close>

definition hex_char :: "nat \<Rightarrow> char" where
  "hex_char d = (if d < 10 then char_of (48 + d) else char_of (97 + (d - 10)))"

definition sprintf_u04x :: "nat \<Rightarrow> string" where
  "sprintf_u04x ch = [CHR 0x5C, CHR ''u'', CHR ''0'', CHR ''0'', hex_char (ch div 16), hex_char (ch mod 16)]"

fun json_escape :: "string \<Rightarrow> string" where
  "json_escape [] = []"
| "json_escape (c # inS) =
     (let ch = of_char c :: nat in
      (case escapes ! ch of
         Some escStr \<Rightarrow> escStr
       | None \<Rightarrow> if ch < 0x80 then [c] else sprintf_u04x ch) @ json_escape inS)"

subsection \<open>Values\<close>

text \<open>An exception of the first computation is the result of both.\<close>

definition and_then :: "'a result \<Rightarrow> ('a \<Rightarrow> 'b result) \<Rightarrow> 'b result" where
  "and_then r f = (case r of Inl e \<Rightarrow> Inl e | Inr x \<Rightarrow> f x)"

lemma and_then_simps [simp]: "and_then (Inl e) f = Inl e" "and_then (Inr x) f = f x"
  by (simp_all add: and_then_def)

lemma and_then_Inr_conv: "and_then r f = Inr y \<longleftrightarrow> (\<exists>x. r = Inr x \<and> f x = Inr y)"
  by (cases r) auto

definition indentStr :: "u32 \<Rightarrow> u32 \<Rightarrow> string" where
  "indentStr prettyIndent indentLevel = replicate (unat (prettyIndent * indentLevel)) (CHR 0x20)"

text \<open>What is appended only when \<^verbatim>\<open>prettyIndent\<close> is not 0.\<close>

definition pretty :: "u32 \<Rightarrow> string \<Rightarrow> string" where
  "pretty prettyIndent s = (if prettyIndent \<noteq> 0 then s else [])"

fun uv_write :: "UniValue \<Rightarrow> u32 \<Rightarrow> u32 \<Rightarrow> string result"
  and writeArray_loop :: "UniValue list \<Rightarrow> u32 \<Rightarrow> u32 \<Rightarrow> string result"
  and writeObject_loop :: "string list \<Rightarrow> UniValue list \<Rightarrow> u32 \<Rightarrow> u32 \<Rightarrow> string result" where
  "uv_write (UniValue ty v ks vs) prettyIndent indentLevel =
     (let modIndent = (if indentLevel = 0 then 1 else indentLevel) in
      case ty of
        VNULL \<Rightarrow> Inr ''null''
      | VOBJ \<Rightarrow>
          and_then (writeObject_loop ks vs prettyIndent modIndent) (\<lambda>body.
            Inr (''{'' @ pretty prettyIndent [CHR 0x0A] @ body @
                 pretty prettyIndent (indentStr prettyIndent (modIndent - 1)) @ ''}''))
      | VARR \<Rightarrow>
          and_then (writeArray_loop vs prettyIndent modIndent) (\<lambda>body.
            Inr (''['' @ pretty prettyIndent [CHR 0x0A] @ body @
                 pretty prettyIndent (indentStr prettyIndent (modIndent - 1)) @ '']''))
      | VSTR \<Rightarrow> Inr ([CHR 0x22] @ json_escape v @ [CHR 0x22])
      | VNUM \<Rightarrow> Inr v
      | VBOOL \<Rightarrow> Inr (if v = ''1'' then ''true'' else ''false''))"
| "writeArray_loop [] prettyIndent indentLevel = Inr []"
| "writeArray_loop (v # vs) prettyIndent indentLevel =
     and_then (uv_write v prettyIndent (indentLevel + 1)) (\<lambda>text.
     and_then (writeArray_loop vs prettyIndent indentLevel) (\<lambda>rest.
       Inr (pretty prettyIndent (indentStr prettyIndent indentLevel) @ text @
            (if vs \<noteq> [] then '','' @ pretty prettyIndent '' '' else []) @
            pretty prettyIndent [CHR 0x0A] @ rest)))"
| "writeObject_loop [] vs prettyIndent indentLevel = Inr []"
| "writeObject_loop (k # ks) [] prettyIndent indentLevel = Inl out_of_range"
| "writeObject_loop (k # ks) (v # vs) prettyIndent indentLevel =
     and_then (uv_write v prettyIndent (indentLevel + 1)) (\<lambda>text.
     and_then (writeObject_loop ks vs prettyIndent indentLevel) (\<lambda>rest.
       Inr (pretty prettyIndent (indentStr prettyIndent indentLevel) @
            [CHR 0x22] @ json_escape k @ [CHR 0x22, CHR '':''] @ pretty prettyIndent '' '' @ text @
            (if vs \<noteq> [] then '','' else []) @ pretty prettyIndent [CHR 0x0A] @ rest)))"

text \<open>
  The bodies of \<^verbatim>\<open>writeArray\<close> and \<^verbatim>\<open>writeObject\<close> stand in \<open>uv_write\<close>, the loops over the members are functions of
  their own.
\<close>

end
