(* ===== verification/Json_Read.thy ===== *)
theory Json_Read
  imports Univalue
begin

section \<open>The JSON reader (util/univalue/univalue_read.cpp)\<close>

text \<open>
  \<^verbatim>\<open>UniValue::read\<close> as a state machine over the tokens. The vector \<^verbatim>\<open>stack\<close> holds pointers: the first is the
  object itself and each other one the last member of the one below, because only the member on top is ever
  extended; so its size determines them, and \<open>top_of\<close> and \<open>upd_top\<close> follow them. A failed step leaves the
  object as the steps before made it.
\<close>

subsection \<open>The machine\<close>

definition EXP_OBJ_NAME :: u32 where "EXP_OBJ_NAME = push_bit 0 1"
definition EXP_COLON :: u32 where "EXP_COLON = push_bit 1 1"
definition EXP_ARR_VALUE :: u32 where "EXP_ARR_VALUE = push_bit 2 1"
definition EXP_VALUE :: u32 where "EXP_VALUE = push_bit 3 1"
definition EXP_NOT_VALUE :: u32 where "EXP_NOT_VALUE = push_bit 4 1"

definition expect :: "u32 \<Rightarrow> u32 \<Rightarrow> bool" where
  "expect expectMask b = (expectMask AND b \<noteq> 0)"

definition setExpect :: "u32 \<Rightarrow> u32 \<Rightarrow> u32" where
  "setExpect expectMask b = expectMask OR b"

definition clearExpect :: "u32 \<Rightarrow> u32 \<Rightarrow> u32" where
  "clearExpect expectMask b = expectMask AND NOT b"

record read_state =
  root :: UniValue
  stack_size :: nat
  expectMask :: u32
  last_tok :: jtokentype

definition isValueOpen :: "jtokentype \<Rightarrow> bool" where
  "isValueOpen tok \<longleftrightarrow> jsonTokenIsValue tok \<or> tok = JTOK_OBJ_OPEN \<or> tok = JTOK_ARR_OPEN"

text \<open>The tests of the token against the mask; \<open>None\<close> is \<^verbatim>\<open>return false\<close>.\<close>

definition read_expect :: "u32 \<Rightarrow> jtokentype \<Rightarrow> u32 option" where
  "read_expect em tok =
     Option.bind
       (if expect em EXP_VALUE
        then (if \<not> isValueOpen tok then None else Some (clearExpect em EXP_VALUE))
        else if expect em EXP_ARR_VALUE
        then (if \<not> (isValueOpen tok \<or> tok = JTOK_ARR_CLOSE) then None else Some (clearExpect em EXP_ARR_VALUE))
        else if expect em EXP_OBJ_NAME
        then (if \<not> (tok = JTOK_OBJ_CLOSE \<or> tok = JTOK_STRING) then None else Some em)
        else if expect em EXP_COLON
        then (if tok \<noteq> JTOK_COLON then None else Some (clearExpect em EXP_COLON))
        else if \<not> expect em EXP_COLON \<and> tok = JTOK_COLON then None
        else Some em)
       (\<lambda>em. if expect em EXP_NOT_VALUE
               then (if isValueOpen tok then None else Some (clearExpect em EXP_NOT_VALUE))
               else Some em)"

text \<open>\<^verbatim>\<open>stack.back()\<close> for a stack of \<open>n + 1\<close> pointers, and the object after a change through that pointer.\<close>

fun top_of :: "nat \<Rightarrow> UniValue \<Rightarrow> UniValue" where
  "top_of 0 u = u"
| "top_of (Suc n) u = top_of n (last (vals u))"

fun upd_top :: "nat \<Rightarrow> (UniValue \<Rightarrow> UniValue) \<Rightarrow> UniValue \<Rightarrow> UniValue" where
  "upd_top 0 f u = f u"
| "upd_top (Suc n) f u = UniValue (utyp u) (val u) (keys u) (butlast (vals u) @ [upd_top n f (last (vals u))])"

definition values_push_back :: "UniValue \<Rightarrow> UniValue \<Rightarrow> UniValue" where
  "values_push_back v u = UniValue (utyp u) (val u) (keys u) (vals u @ [v])"

definition keys_push_back :: "string \<Rightarrow> UniValue \<Rightarrow> UniValue" where
  "keys_push_back k u = UniValue (utyp u) (val u) (keys u @ [k]) (vals u)"

text \<open>The cases of the \<^verbatim>\<open>switch\<close>, on the state whose mask \<open>read_expect\<close> has updated.\<close>

definition read_open :: "VType \<Rightarrow> read_state \<Rightarrow> read_state option" where
  "read_open ty st =
     (let st = (if stack_size st = 0
                then st\<lparr>root := snd (if ty = VOBJ then setObject (root st) else setArray (root st)), stack_size := 1\<rparr>
                else st\<lparr>root := upd_top (stack_size st - 1) (values_push_back (UniValue_of ty [])) (root st),
                        stack_size := stack_size st + 1\<rparr>)
      in Some (st\<lparr>expectMask := setExpect (expectMask st) (if ty = VOBJ then EXP_OBJ_NAME else EXP_ARR_VALUE)\<rparr>))"

definition read_close :: "VType \<Rightarrow> read_state \<Rightarrow> read_state option" where
  "read_close ty st =
     (if stack_size st = 0 \<or> last_tok st = JTOK_COMMA then None
      else if ty \<noteq> utyp (top_of (stack_size st - 1) (root st)) then None
      else Some (st\<lparr>stack_size := stack_size st - 1,
                    expectMask := setExpect (clearExpect (expectMask st) EXP_OBJ_NAME) EXP_NOT_VALUE\<rparr>))"

definition read_colon :: "read_state \<Rightarrow> read_state option" where
  "read_colon st =
     (if stack_size st = 0 then None
      else if utyp (top_of (stack_size st - 1) (root st)) \<noteq> VOBJ then None
      else Some (st\<lparr>expectMask := setExpect (expectMask st) EXP_VALUE\<rparr>))"

definition read_comma :: "read_state \<Rightarrow> read_state option" where
  "read_comma st =
     (if stack_size st = 0 \<or> last_tok st = JTOK_COMMA \<or> last_tok st = JTOK_ARR_OPEN then None
      else if utyp (top_of (stack_size st - 1) (root st)) = VOBJ
      then Some (st\<lparr>expectMask := setExpect (expectMask st) EXP_OBJ_NAME\<rparr>)
      else Some (st\<lparr>expectMask := setExpect (expectMask st) EXP_ARR_VALUE\<rparr>))"

definition read_scalar :: "UniValue \<Rightarrow> read_state \<Rightarrow> read_state option" where
  "read_scalar tmpVal st =
     (if stack_size st = 0 then None
      else Some (st\<lparr>root := upd_top (stack_size st - 1) (values_push_back tmpVal) (root st),
                    expectMask := setExpect (expectMask st) EXP_NOT_VALUE\<rparr>))"

definition read_string :: "string \<Rightarrow> read_state \<Rightarrow> read_state option" where
  "read_string tokenVal st =
     (if stack_size st = 0 then None
      else let st = (if expect (expectMask st) EXP_OBJ_NAME
                     then st\<lparr>root := upd_top (stack_size st - 1) (keys_push_back tokenVal) (root st),
                             expectMask := setExpect (clearExpect (expectMask st) EXP_OBJ_NAME) EXP_COLON\<rparr>
                     else st\<lparr>root := upd_top (stack_size st - 1) (values_push_back (UniValue_of VSTR tokenVal)) (root st)\<rparr>)
           in Some (st\<lparr>expectMask := setExpect (expectMask st) EXP_NOT_VALUE\<rparr>))"

fun read_switch :: "jtokentype \<Rightarrow> string \<Rightarrow> read_state \<Rightarrow> read_state option" where
  "read_switch JTOK_OBJ_OPEN tokenVal st = read_open VOBJ st"
| "read_switch JTOK_ARR_OPEN tokenVal st = read_open VARR st"
| "read_switch JTOK_OBJ_CLOSE tokenVal st = read_close VOBJ st"
| "read_switch JTOK_ARR_CLOSE tokenVal st = read_close VARR st"
| "read_switch JTOK_COLON tokenVal st = read_colon st"
| "read_switch JTOK_COMMA tokenVal st = read_comma st"
| "read_switch JTOK_KW_NULL tokenVal st = read_scalar NullUniValue st"
| "read_switch JTOK_KW_TRUE tokenVal st = read_scalar (snd (setBool NullUniValue True)) st"
| "read_switch JTOK_KW_FALSE tokenVal st = read_scalar (snd (setBool NullUniValue False)) st"
| "read_switch JTOK_NUMBER tokenVal st = read_scalar (UniValue_of VNUM tokenVal) st"
| "read_switch JTOK_STRING tokenVal st = read_string tokenVal st"
| "read_switch _ tokenVal st = None"

text \<open>One turn of the loop after its token was found; the token becomes \<^verbatim>\<open>last_tok\<close> of the next turn.\<close>

definition read_step :: "read_state \<Rightarrow> jtokentype \<Rightarrow> string \<Rightarrow> read_state option" where
  "read_step st tok tokenVal =
     (case read_expect (expectMask st) tok of
        None \<Rightarrow> None
      | Some em \<Rightarrow> map_option (\<lambda>st. st\<lparr>last_tok := tok\<rparr>) (read_switch tok tokenVal (st\<lparr>expectMask := em\<rparr>)))"

text \<open>
  The pointer moves on by the wrapped \<^verbatim>\<open>consumed\<close>, so on texts of 4 GiB or more a token may be read again and the loop may
  not end: \<open>None\<close> is a read that never returns.
\<close>

partial_function (option) read_loop :: "read_state \<Rightarrow> string \<Rightarrow> (bool \<times> UniValue) option" where
  "read_loop st raw =
     (case getJsonToken raw of (tok, tokenVal, consumed) \<Rightarrow>
        if tok = JTOK_NONE \<or> tok = JTOK_ERR then Some (False, root st)
        else let raw = drop (unat consumed) raw in
             case read_step st tok tokenVal of
               None \<Rightarrow> Some (False, root st)
             | Some st' \<Rightarrow>
                 if stack_size st' \<noteq> 0 then read_loop st' raw
                 else Some (fst (getJsonToken raw) = JTOK_NONE, root st'))"

definition read_init :: "UniValue \<Rightarrow> read_state" where
  "read_init u = \<lparr>root = uv_clear u, stack_size = 0, expectMask = 0, last_tok = JTOK_NONE\<rparr>"

definition uv_read :: "UniValue \<Rightarrow> string \<Rightarrow> (bool \<times> UniValue) option" where
  "uv_read u raw = read_loop (read_init u) raw"

definition uv_read_str :: "UniValue \<Rightarrow> string \<Rightarrow> (bool \<times> UniValue) option" where
  "uv_read_str u rawStr = uv_read u (c_str rawStr)"

end
