(* ===== verification/Json_Grammar.thy ===== *)
theory Json_Grammar
  imports Json_Read
begin

section \<open>The reader accepts exactly the JSON grammar\<close>

text \<open>
  The specification of \<open>uv_read\<close>: \<open>toks\<close> gives the tokens of a value as the JSON grammar has them and \<open>canon\<close>
  describes the values a text denotes. The theorem is that the bit mask, the stack and the last token of the
  reader accept the token sequences of the canonical arrays and objects, and no others, and build the
  value the sequence denotes.
\<close>

subsection \<open>The grammar\<close>

type_synonym token = "jtokentype \<times> string"

fun sep :: "token list list \<Rightarrow> token list" where
  "sep [] = []"
| "sep [m] = m"
| "sep (m # ms) = m @ (JTOK_COMMA, []) # sep ms"

definition member :: "string \<Rightarrow> token list \<Rightarrow> token list" where
  "member k ts = (JTOK_STRING, k) # (JTOK_COLON, []) # ts"

primrec toks :: "UniValue \<Rightarrow> token list" where
  "toks (UniValue ty v ks vs) =
     (case ty of
        VNULL \<Rightarrow> [(JTOK_KW_NULL, [])]
      | VBOOL \<Rightarrow> [(if v = ''1'' then JTOK_KW_TRUE else JTOK_KW_FALSE, [])]
      | VNUM \<Rightarrow> [(JTOK_NUMBER, v)]
      | VSTR \<Rightarrow> [(JTOK_STRING, v)]
      | VARR \<Rightarrow> (JTOK_ARR_OPEN, []) # sep (map toks vs) @ [(JTOK_ARR_CLOSE, [])]
      | VOBJ \<Rightarrow> (JTOK_OBJ_OPEN, []) # sep (map2 member ks (map toks vs)) @ [(JTOK_OBJ_CLOSE, [])])"

primrec canon :: "UniValue \<Rightarrow> bool" where
  "canon (UniValue ty v ks vs) \<longleftrightarrow>
     (case ty of
        VNULL \<Rightarrow> v = [] \<and> ks = [] \<and> vs = []
      | VBOOL \<Rightarrow> (v = ''1'' \<or> v = []) \<and> ks = [] \<and> vs = []
      | VNUM \<Rightarrow> ks = [] \<and> vs = []
      | VSTR \<Rightarrow> ks = [] \<and> vs = []
      | VARR \<Rightarrow> v = [] \<and> ks = []
      | VOBJ \<Rightarrow> v = [] \<and> length ks = length vs) \<and> list_all canon vs"

definition container :: "UniValue \<Rightarrow> bool" where
  "container u \<longleftrightarrow> utyp u = VOBJ \<or> utyp u = VARR"

text \<open>The tokens of a text up to its end, or \<open>None\<close> when the tokenizer fails.\<close>

function tokenize :: "string \<Rightarrow> token list option" where
  "tokenize raw =
     (case scan_token raw of (tok, v, n) \<Rightarrow>
        if tok = JTOK_NONE then Some []
        else if tok = JTOK_ERR then None
        else map_option (\<lambda>ts. (tok, v) # ts) (tokenize (drop n raw)))"
  by pat_completeness auto
termination
  by (relation "measure length") (auto dest!: scan_token_consumes [OF sym])

declare tokenize.simps [simp del]

lemma sep_snoc: "sep (ms @ [m]) = (if ms = [] then m else sep ms @ (JTOK_COMMA, []) # m)"
  by (induction ms rule: sep.induct) simp_all

lemma sep_Cons: "sep (m # ms) = m @ (if ms = [] then [] else (JTOK_COMMA, []) # sep ms)"
  by (cases ms) simp_all

subsection \<open>The tokens the loop sees\<close>

text \<open>The turns of the loop on a list of tokens: the value accepted, if any.\<close>

fun accept :: "read_state \<Rightarrow> token list \<Rightarrow> UniValue option" where
  "accept st [] = None"
| "accept st ((tok, v) # ts) =
     (case read_step st tok v of
        None \<Rightarrow> None
      | Some st' \<Rightarrow> if stack_size st' \<noteq> 0 then accept st' ts else if ts = [] then Some (root st') else None)"

lemma read_step_tokens: "read_step st JTOK_NONE v = None" "read_step st JTOK_ERR v = None"
  by (simp_all add: read_step_def split: option.split)

lemma tokenize_end: "scan_token raw = (JTOK_NONE, v, n) \<Longrightarrow> tokenize raw = Some []"
  by (simp add: tokenize.simps)

lemma tokenize_Nil: "tokenize raw = Some [] \<longleftrightarrow> fst (scan_token raw) = JTOK_NONE"
  by (subst tokenize.simps) (auto split: prod.splits)

text \<open>The loop of \<^verbatim>\<open>read\<close> without the wrap of \<^verbatim>\<open>consumed\<close>; on texts below 4 GiB it is the loop.\<close>

function read_exact :: "read_state \<Rightarrow> string \<Rightarrow> bool \<times> UniValue" where
  "read_exact st raw =
     (case scan_token raw of (tok, tokenVal, n) \<Rightarrow>
        if tok = JTOK_NONE \<or> tok = JTOK_ERR then (False, root st)
        else case read_step st tok tokenVal of
               None \<Rightarrow> (False, root st)
             | Some st' \<Rightarrow>
                 if stack_size st' \<noteq> 0 then read_exact st' (drop n raw)
                 else (fst (scan_token (drop n raw)) = JTOK_NONE, root st'))"
  by pat_completeness auto
termination
  by (relation "measure (\<lambda>(st, raw). length raw)") (auto dest!: scan_token_consumes [OF sym])

declare read_exact.simps [simp del]

lemma read_loop_exact: "length raw < 2 ^ 32 \<Longrightarrow> read_loop st raw = Some (read_exact st raw)"
proof (induction st raw rule: read_exact.induct)
  case (1 st raw)
  obtain tok v n where t: "scan_token raw = (tok, v, n)"
    by (metis prod_cases3)
  show ?case
  proof (cases "tok = JTOK_NONE \<or> tok = JTOK_ERR")
    case True
    then show ?thesis
      by (auto simp: t read_exact.simps [of st raw] read_loop.simps [of st raw] getJsonToken_def)
  next
    case False
    then have "n \<le> length raw" using scan_token_consumes [OF t] by simp
    then have n: "unat (word_of_nat n :: u32) = n" using "1.prems" by (intro unat_of_nat32) simp
    then show ?thesis
      using 1 t False
      by (auto simp: read_exact.simps [of st raw] read_loop.simps [of st raw] getJsonToken_def [of raw] split: option.split)
  qed
qed

lemma read_exact_accept: "read_exact st raw = (True, u) \<longleftrightarrow> (\<exists>ts. tokenize raw = Some ts \<and> accept st ts = Some u)"
proof (induction st raw rule: read_exact.induct)
  case (1 st raw)
  obtain tok v n where t: "scan_token raw = (tok, v, n)"
    by (metis prod_cases3)
  show ?case
  proof (cases "tok = JTOK_NONE \<or> tok = JTOK_ERR")
    case True
    then show ?thesis
      by (auto simp: t read_exact.simps [of st raw] tokenize.simps [of raw])
  next
    case False
    then have tz: "tokenize raw = map_option (\<lambda>ts. (tok, v) # ts) (tokenize (drop n raw))"
      by (simp add: tokenize.simps [of raw] t)
    show ?thesis
    proof (cases "read_step st tok v")
      case None
      then show ?thesis
        using False by (auto simp: t read_exact.simps [of st raw] tz)
    next
      case (Some st')
      show ?thesis
      proof (cases "stack_size st' = 0")
        case True
        then show ?thesis
          using False Some
          by (auto simp: t read_exact.simps [of st raw] tz tokenize_Nil [symmetric] split: if_splits)
      next
        case False
        then show ?thesis
          using 1 [OF t [symmetric] refl] \<open>\<not> (tok = JTOK_NONE \<or> tok = JTOK_ERR)\<close> Some
          by (auto simp: t read_exact.simps [of st raw] tz)
      qed
    qed
  qed
qed

subsection \<open>Frames\<close>

text \<open>
  The open containers from the object itself to the top of the stack, each without the open member it
  ends with; \<open>collapse\<close> puts them together again.
\<close>

fun collapse :: "UniValue list \<Rightarrow> UniValue" where
  "collapse [] = NullUniValue"
| "collapse [f] = f"
| "collapse (f # fs) = values_push_back (collapse fs) f"

lemma values_push_back_sel [simp]:
  "utyp (values_push_back v u) = utyp u" "val (values_push_back v u) = val u" "keys (values_push_back v u) = keys u"
  "vals (values_push_back v u) = vals u @ [v]"
  by (simp_all add: values_push_back_def)

lemma collapse_Cons: "fs \<noteq> [] \<Longrightarrow> collapse (f # fs) = values_push_back (collapse fs) f"
  by (cases fs) simp_all

lemma top_of_collapse [simp]: "top_of (length fs) (collapse (fs @ [t])) = t"
  by (induction fs) (simp_all add: collapse_Cons)

lemma upd_top_collapse [simp]: "upd_top (length fs) g (collapse (fs @ [t])) = collapse (fs @ [g t])"
  by (induction fs) (simp_all add: collapse_Cons values_push_back_def)

lemma collapse_snoc: "collapse (fs @ [f, t]) = collapse (fs @ [values_push_back t f])"
  by (induction fs) (simp_all add: collapse_Cons)

subsection \<open>The states of the machine\<close>

text \<open>
  Before a value, before a name or the end of an object, behind a name, and behind a value. \<open>fs\<close> are
  the frames below the top.
\<close>

definition vst :: "UniValue list \<Rightarrow> UniValue \<Rightarrow> read_state" where
  "vst fs f = \<lparr>root = collapse (fs @ [f]), stack_size = Suc (length fs),
     expectMask = (if utyp f = VOBJ then 8 else 4),
     last_tok = (if utyp f = VOBJ then JTOK_COLON else if vals f = [] then JTOK_ARR_OPEN else JTOK_COMMA)\<rparr>"

definition nst :: "UniValue list \<Rightarrow> UniValue \<Rightarrow> read_state" where
  "nst fs f = \<lparr>root = collapse (fs @ [f]), stack_size = Suc (length fs), expectMask = 1,
     last_tok = (if vals f = [] then JTOK_OBJ_OPEN else JTOK_COMMA)\<rparr>"

definition kst :: "UniValue list \<Rightarrow> UniValue \<Rightarrow> read_state" where
  "kst fs f = \<lparr>root = collapse (fs @ [f]), stack_size = Suc (length fs), expectMask = 18, last_tok = JTOK_STRING\<rparr>"

definition ast :: "UniValue list \<Rightarrow> UniValue \<Rightarrow> jtokentype \<Rightarrow> read_state" where
  "ast fs f l = \<lparr>root = collapse (fs @ [f]), stack_size = Suc (length fs), expectMask = 16, last_tok = l\<rparr>"

text \<open>After the top \<open>t\<close> was closed.\<close>

definition cst :: "UniValue list \<Rightarrow> UniValue \<Rightarrow> jtokentype \<Rightarrow> read_state" where
  "cst fs t l = \<lparr>root = collapse (fs @ [t]), stack_size = length fs, expectMask = 16, last_tok = l\<rparr>"

lemma cst_snoc: "cst (fs @ [f]) t l = ast fs (values_push_back t f) l"
  by (simp add: cst_def ast_def collapse_snoc)

lemma state_sizes [simp]:
  "stack_size (vst fs f) = Suc (length fs)" "stack_size (nst fs f) = Suc (length fs)"
  "stack_size (kst fs f) = Suc (length fs)" "stack_size (ast fs f l) = Suc (length fs)"
  "stack_size (cst fs t l) = length fs" "root (cst [] t l) = t"
  by (simp_all add: vst_def nst_def kst_def ast_def cst_def)

lemmas expect_bits = EXP_OBJ_NAME_def EXP_COLON_def EXP_ARR_VALUE_def EXP_VALUE_def EXP_NOT_VALUE_def

lemmas expect_ops = expect_def setExpect_def clearExpect_def expect_bits

lemma read_expect_masks:
  "read_expect 0 tok = (if tok = JTOK_COLON then None else Some 0)"
  "read_expect 8 tok = (if isValueOpen tok then Some 0 else None)"
  "read_expect 4 tok = (if isValueOpen tok \<or> tok = JTOK_ARR_CLOSE then Some 0 else None)"
  "read_expect 1 tok = (if tok = JTOK_OBJ_CLOSE \<or> tok = JTOK_STRING then Some 1 else None)"
  "read_expect 18 tok = (if tok = JTOK_COLON then Some 0 else None)"
  "read_expect 16 tok = (if tok = JTOK_COLON \<or> isValueOpen tok then None else Some 0)"
  by (auto simp: read_expect_def expect_ops isValueOpen_def)

text \<open>The value of a scalar token.\<close>

fun scalar :: "jtokentype \<Rightarrow> string \<Rightarrow> UniValue" where
  "scalar JTOK_KW_TRUE v = UniValue VBOOL ''1'' [] []"
| "scalar JTOK_KW_FALSE v = UniValue VBOOL [] [] []"
| "scalar JTOK_NUMBER v = UniValue VNUM v [] []"
| "scalar JTOK_STRING v = UniValue VSTR v [] []"
| "scalar _ v = NullUniValue"

lemma vst_step:
  "utyp f = VOBJ \<or> utyp f = VARR \<Longrightarrow> read_step (vst fs f) tok v =
     (if jsonTokenIsValue tok then Some (ast fs (values_push_back (scalar tok v) f) tok)
      else if tok = JTOK_OBJ_OPEN then Some (nst (fs @ [f]) (UniValue VOBJ [] [] []))
      else if tok = JTOK_ARR_OPEN then Some (vst (fs @ [f]) (UniValue VARR [] [] []))
      else if tok = JTOK_ARR_CLOSE \<and> utyp f = VARR \<and> vals f = [] then Some (cst fs f tok)
      else None)"
  by (cases tok)
    (auto simp: read_step_def vst_def read_expect_masks isValueOpen_def read_open_def read_close_def read_scalar_def
      read_string_def Let_def expect_ops ast_def nst_def cst_def collapse_snoc UniValue_of_def NullUniValue_def uv_setters)

lemma nst_step:
  "utyp f = VOBJ \<Longrightarrow> read_step (nst fs f) tok v =
     (if tok = JTOK_STRING then Some (kst fs (keys_push_back v f))
      else if tok = JTOK_OBJ_CLOSE \<and> vals f = [] then Some (cst fs f tok)
      else None)"
  by (cases tok)
    (auto simp: read_step_def nst_def read_expect_masks read_close_def read_string_def Let_def expect_ops kst_def cst_def)

lemma kst_step:
  "utyp f = VOBJ \<Longrightarrow> read_step (kst fs f) tok v = (if tok = JTOK_COLON then Some (vst fs f) else None)"
  by (cases tok) (auto simp: read_step_def kst_def vst_def read_expect_masks read_colon_def expect_ops)

lemma ast_step:
  "utyp f = VOBJ \<or> utyp f = VARR \<Longrightarrow> vals f \<noteq> [] \<Longrightarrow> l \<noteq> JTOK_COMMA \<Longrightarrow> l \<noteq> JTOK_ARR_OPEN \<Longrightarrow>
   read_step (ast fs f l) tok v =
     (if tok = JTOK_COMMA then Some (if utyp f = VOBJ then nst fs f else vst fs f)
      else if tok = JTOK_OBJ_CLOSE \<and> utyp f = VOBJ \<or> tok = JTOK_ARR_CLOSE \<and> utyp f = VARR then Some (cst fs f tok)
      else None)"
  by (cases tok)
    (auto simp: read_step_def ast_def vst_def nst_def cst_def read_expect_masks isValueOpen_def read_close_def
      read_comma_def expect_ops)

lemma init_step:
  "read_step (read_init u) tok v =
     (if tok = JTOK_OBJ_OPEN then Some (nst [] (UniValue VOBJ [] [] []))
      else if tok = JTOK_ARR_OPEN then Some (vst [] (UniValue VARR [] [] []))
      else None)"
  by (cases tok)
    (auto simp: read_step_def read_init_def read_expect_masks read_open_def read_close_def read_comma_def
      read_scalar_def read_string_def nst_def vst_def expect_ops uv_setters)

subsection \<open>Completeness\<close>

text \<open>
  Reading the tokens of a value where one is expected adds the value to the top. The last token is
  never a comma or an opening bracket of an array.
\<close>

definition reads_as :: "UniValue \<Rightarrow> bool" where
  "reads_as c \<longleftrightarrow> (\<forall>fs f rest. utyp f = VOBJ \<or> utyp f = VARR \<longrightarrow>
     (\<exists>l. l \<noteq> JTOK_COMMA \<and> l \<noteq> JTOK_ARR_OPEN \<and>
        accept (vst fs f) (toks c @ rest) = accept (ast fs (values_push_back c f) l) rest))"

lemma reads_asD:
  assumes "reads_as c" and "utyp f = VOBJ \<or> utyp f = VARR"
  obtains l where "l \<noteq> JTOK_COMMA" "l \<noteq> JTOK_ARR_OPEN"
    "accept (vst fs f) (toks c @ rest) = accept (ast fs (values_push_back c f) l) rest"
  using assms unfolding reads_as_def by blast

lemma run_array:
  assumes "list_all reads_as vs" and "vs \<noteq> []"
  shows "\<exists>l. l \<noteq> JTOK_COMMA \<and> l \<noteq> JTOK_ARR_OPEN \<and>
    accept (vst fs (UniValue VARR [] [] us)) (sep (map toks vs) @ rest) =
    accept (ast fs (UniValue VARR [] [] (us @ vs)) l) rest"
  using assms
proof (induction vs arbitrary: us)
  case (Cons v vs)
  let ?f = "UniValue VARR [] [] us"
  have push: "values_push_back v ?f = UniValue VARR [] [] (us @ [v])"
    by (simp add: values_push_back_def)
  have "reads_as v" using Cons.prems by simp
  show ?case
  proof (cases "vs = []")
    case True
    obtain l where "l \<noteq> JTOK_COMMA" "l \<noteq> JTOK_ARR_OPEN"
      "accept (vst fs ?f) (toks v @ rest) = accept (ast fs (UniValue VARR [] [] (us @ [v])) l) rest"
      using reads_asD [OF \<open>reads_as v\<close>, of ?f fs rest] unfolding push by auto
    then show ?thesis using True by auto
  next
    case False
    obtain l where l: "l \<noteq> JTOK_COMMA" "l \<noteq> JTOK_ARR_OPEN"
      "accept (vst fs ?f) (toks v @ (JTOK_COMMA, []) # sep (map toks vs) @ rest) =
       accept (ast fs (UniValue VARR [] [] (us @ [v])) l) ((JTOK_COMMA, []) # sep (map toks vs) @ rest)"
      using reads_asD [OF \<open>reads_as v\<close>, of ?f fs "(JTOK_COMMA, []) # sep (map toks vs) @ rest"] unfolding push by auto
    then show ?thesis
      using Cons.IH [of "us @ [v]"] Cons.prems False by (simp add: sep_Cons ast_step)
  qed
qed simp

lemma run_object:
  assumes "list_all reads_as vs" and "vs \<noteq> []" and "length ks = length vs"
  shows "\<exists>l. l \<noteq> JTOK_COMMA \<and> l \<noteq> JTOK_ARR_OPEN \<and>
    accept (nst fs (UniValue VOBJ [] js us)) (sep (map2 member ks (map toks vs)) @ rest) =
    accept (ast fs (UniValue VOBJ [] (js @ ks) (us @ vs)) l) rest"
  using assms
proof (induction vs arbitrary: ks js us)
  case (Cons v vs)
  then obtain k ks' where ks: "ks = k # ks'"
    by (cases ks) auto
  let ?f = "UniValue VOBJ [] (js @ [k]) us"
  have push: "values_push_back v ?f = UniValue VOBJ [] (js @ [k]) (us @ [v])"
    by (simp add: values_push_back_def)
  have name: "accept (nst fs (UniValue VOBJ [] js us)) (member k ts) = accept (vst fs ?f) ts" for ts
    by (simp add: member_def nst_step kst_step keys_push_back_def)
  have "reads_as v" using Cons.prems by simp
  let ?ms = "sep (map2 member ks' (map toks vs)) @ rest"
  show ?case
  proof (cases "vs = []")
    case True
    obtain l where "l \<noteq> JTOK_COMMA" "l \<noteq> JTOK_ARR_OPEN"
      "accept (vst fs ?f) (toks v @ rest) = accept (ast fs (UniValue VOBJ [] (js @ [k]) (us @ [v])) l) rest"
      using reads_asD [OF \<open>reads_as v\<close>, of ?f fs rest] unfolding push by auto
    then show ?thesis
      using True Cons.prems name [of "toks v @ rest"] by (auto simp: ks member_def)
  next
    case False
    obtain l where l: "l \<noteq> JTOK_COMMA" "l \<noteq> JTOK_ARR_OPEN"
      "accept (vst fs ?f) (toks v @ (JTOK_COMMA, []) # ?ms) =
       accept (ast fs (UniValue VOBJ [] (js @ [k]) (us @ [v])) l) ((JTOK_COMMA, []) # ?ms)"
      using reads_asD [OF \<open>reads_as v\<close>, of ?f fs "(JTOK_COMMA, []) # ?ms"] unfolding push by auto
    have "map2 member ks' (map toks vs) \<noteq> []"
      using False Cons.prems by (cases vs; cases ks') (auto simp: ks)
    then have "sep (map2 member ks (map toks (v # vs))) @ rest = member k (toks v @ (JTOK_COMMA, []) # ?ms)"
      by (simp add: ks sep_Cons member_def)
    then show ?thesis
      using Cons.IH [of ks' "js @ [k]" "us @ [v]"] Cons.prems False l
      by (simp add: ks name ast_step)
  qed
qed simp

lemma run_array_all:
  assumes "list_all reads_as vs"
  shows "accept (vst fs (UniValue VARR [] [] [])) (sep (map toks vs) @ (JTOK_ARR_CLOSE, []) # rest) =
    (let st = cst fs (UniValue VARR [] [] vs) JTOK_ARR_CLOSE in
     if fs \<noteq> [] then accept st rest else if rest = [] then Some (root st) else None)"
proof (cases "vs = []")
  case False
  then show ?thesis
    using run_array [OF assms, of fs "[]" "(JTOK_ARR_CLOSE, []) # rest"] by (auto simp: ast_step)
qed (simp add: vst_step)

lemma run_object_all:
  assumes "list_all reads_as vs" and "length ks = length vs"
  shows "accept (nst fs (UniValue VOBJ [] [] [])) (sep (map2 member ks (map toks vs)) @ (JTOK_OBJ_CLOSE, []) # rest) =
    (let st = cst fs (UniValue VOBJ [] ks vs) JTOK_OBJ_CLOSE in
     if fs \<noteq> [] then accept st rest else if rest = [] then Some (root st) else None)"
proof (cases "vs = []")
  case False
  then show ?thesis
    using run_object [OF assms(1) _ assms(2), of fs "[]" "[]" "(JTOK_OBJ_CLOSE, []) # rest"] by (auto simp: ast_step)
qed (use assms in \<open>simp add: nst_step\<close>)

lemma canon_reads_as: "canon c \<Longrightarrow> reads_as c"
proof (induction c)
  case (UniValue ty v ks vs)
  then have vs: "list_all reads_as vs"
    by (simp add: list.pred_set)
  have "\<exists>l. l \<noteq> JTOK_COMMA \<and> l \<noteq> JTOK_ARR_OPEN \<and>
      accept (vst fs f) (toks (UniValue ty v ks vs) @ rest) =
      accept (ast fs (values_push_back (UniValue ty v ks vs) f) l) rest"
    if f: "utyp f = VOBJ \<or> utyp f = VARR" for fs f rest
  proof (cases ty)
    case VARR
    then show ?thesis
      using UniValue.prems f by (intro exI [of _ JTOK_ARR_CLOSE]) (simp add: vst_step run_array_all [OF vs] cst_snoc)
  next
    case VOBJ
    then show ?thesis
      using UniValue.prems f by (intro exI [of _ JTOK_OBJ_CLOSE]) (simp add: vst_step run_object_all [OF vs] cst_snoc)
  qed (use UniValue.prems f in \<open>auto simp: vst_step NullUniValue_def\<close>)
  then show ?case
    unfolding reads_as_def by blast
qed

lemma accept_complete:
  assumes "canon c" and "container c"
  shows "accept (read_init u) (toks c) = Some c"
proof (cases c)
  case (UniValue ty v ks vs)
  then have vs: "list_all reads_as vs"
    using assms(1) canon_reads_as by (simp add: list.pred_set)
  show ?thesis
    using assms run_array_all [OF vs, of "[]" "[]"] run_object_all [OF vs, of ks "[]" "[]"]
    by (cases ty) (auto simp: UniValue container_def init_step)
qed

subsection \<open>Soundness\<close>

text \<open>Open containers that wait for a value, containers between members, and the tokens read so far.\<close>

definition pending :: "UniValue \<Rightarrow> bool" where
  "pending f \<longleftrightarrow> val f = [] \<and> list_all canon (vals f) \<and>
     (utyp f = VARR \<and> keys f = [] \<or> utyp f = VOBJ \<and> length (keys f) = Suc (length (vals f)))"

definition full :: "UniValue \<Rightarrow> bool" where
  "full f \<longleftrightarrow> val f = [] \<and> list_all canon (vals f) \<and>
     (utyp f = VARR \<and> keys f = [] \<or> utyp f = VOBJ \<and> length (keys f) = length (vals f))"

definition members_toks :: "UniValue \<Rightarrow> token list list" where
  "members_toks f = (if utyp f = VOBJ then map2 member (keys f) (map toks (vals f)) else map toks (vals f))"

definition open_tok :: "UniValue \<Rightarrow> token" where
  "open_tok f = (if utyp f = VOBJ then JTOK_OBJ_OPEN else JTOK_ARR_OPEN, [])"

definition to_next :: "UniValue \<Rightarrow> token list" where
  "to_next f = open_tok f # sep (members_toks f) @ (if vals f = [] then [] else [(JTOK_COMMA, [])])"

definition before :: "UniValue \<Rightarrow> token list" where
  "before f = to_next f @ (if utyp f = VOBJ then [(JTOK_STRING, last (keys f)), (JTOK_COLON, [])] else [])"

lemma open_tok_push [simp]: "open_tok (values_push_back c f) = open_tok f"
  by (simp add: open_tok_def)

lemma full_canon: "full f \<longleftrightarrow> canon f \<and> container f"
  by (cases f) (auto simp: full_def container_def split: VType.splits)

lemma full_toks:
  assumes "full f"
  shows "toks f = open_tok f # sep (members_toks f) @ [(if utyp f = VOBJ then JTOK_OBJ_CLOSE else JTOK_ARR_CLOSE, [])]"
  using assms by (cases f) (auto simp: full_def open_tok_def members_toks_def)

lemma pending_push: "pending f \<Longrightarrow> canon c \<Longrightarrow> full (values_push_back c f)"
  by (auto simp: pending_def full_def)

lemma pending_keys:
  assumes "pending f" and "utyp f = VOBJ"
  obtains ks k where "keys f = ks @ [k]" "length ks = length (vals f)"
  using assms by (cases "keys f" rule: rev_cases) (auto simp: pending_def)

lemma before_value_toks:
  assumes "pending f"
  shows "before f @ toks c = open_tok f # sep (members_toks (values_push_back c f))"
proof (cases "utyp f = VOBJ")
  case True
  then obtain ks k where ks: "keys f = ks @ [k]" "length ks = length (vals f)"
    using pending_keys [OF assms] by blast
  then have e: "map2 member ks (map toks (vals f)) = [] \<longleftrightarrow> vals f = []"
    by auto
  have "zip (ks @ [k]) (map toks (vals f)) = zip ks (map toks (vals f))"
    using ks by (simp add: zip_append1)
  then show ?thesis
    using True ks e by (simp add: before_def to_next_def members_toks_def sep_snoc open_tok_def member_def)
next
  case False
  then show ?thesis
    by (simp add: before_def to_next_def members_toks_def sep_snoc open_tok_def)
qed

inductive reading :: "token list \<Rightarrow> read_state \<Rightarrow> bool" where
  before_value: "list_all pending fs \<Longrightarrow> pending f \<Longrightarrow> reading (concat (map before fs) @ before f) (vst fs f)"
| before_name: "list_all pending fs \<Longrightarrow> full f \<Longrightarrow> utyp f = VOBJ \<Longrightarrow> reading (concat (map before fs) @ to_next f) (nst fs f)"
| behind_name: "list_all pending fs \<Longrightarrow> pending f \<Longrightarrow> utyp f = VOBJ \<Longrightarrow>
    reading (concat (map before fs) @ to_next f @ [(JTOK_STRING, last (keys f))]) (kst fs f)"
| behind_value: "list_all pending fs \<Longrightarrow> full f \<Longrightarrow> vals f \<noteq> [] \<Longrightarrow> l \<noteq> JTOK_COMMA \<Longrightarrow> l \<noteq> JTOK_ARR_OPEN \<Longrightarrow>
    reading (concat (map before fs) @ open_tok f # sep (members_toks f)) (ast fs f l)"
| finished: "full f \<Longrightarrow> reading (toks f) (cst [] f l)"

lemma reading_closed:
  assumes "list_all pending fs" and "full f" and "l \<noteq> JTOK_COMMA" and "l \<noteq> JTOK_ARR_OPEN"
  shows "reading (concat (map before fs) @ toks f) (cst fs f l)"
proof (cases fs rule: rev_cases)
  case Nil
  then show ?thesis using finished assms by simp
next
  case (snoc gs g)
  then have "full (values_push_back f g)" "pending g"
    using assms pending_push by (simp_all add: full_canon)
  then show ?thesis
    using behind_value [of gs "values_push_back f g" l] assms before_value_toks [of g f]
    by (simp add: snoc cst_snoc)
qed

lemma container_typ: "pending f \<Longrightarrow> utyp f = VOBJ \<or> utyp f = VARR" "full f \<Longrightarrow> utyp f = VOBJ \<or> utyp f = VARR"
  by (auto simp: pending_def full_def)

lemma scalar_toks:
  assumes "jsonTokenIsValue tok" and "tok \<noteq> JTOK_NUMBER \<Longrightarrow> tok \<noteq> JTOK_STRING \<Longrightarrow> v = []"
  shows "toks (scalar tok v) = [(tok, v)]" "canon (scalar tok v)"
  using assms by (cases tok; simp add: NullUniValue_def)+

lemma empty_container: "pending (UniValue VARR [] [] [])" "full (UniValue VOBJ [] [] [])"
  "before (UniValue VARR [] [] []) = [(JTOK_ARR_OPEN, [])]" "to_next (UniValue VOBJ [] [] []) = [(JTOK_OBJ_OPEN, [])]"
  by (simp_all add: pending_def full_def before_def to_next_def open_tok_def members_toks_def)

lemma before_value_step:
  assumes "list_all pending fs" and "pending f" and "read_step (vst fs f) tok v = Some st'"
    and v: "tok \<noteq> JTOK_NUMBER \<Longrightarrow> tok \<noteq> JTOK_STRING \<Longrightarrow> v = []"
  shows "reading (concat (map before fs) @ before f @ [(tok, v)]) st'"
proof -
  note t = container_typ(1) [OF assms(2)]
  consider (scalar) "jsonTokenIsValue tok" | (obj) "tok = JTOK_OBJ_OPEN" | (arr) "tok = JTOK_ARR_OPEN"
    | (close) "tok = JTOK_ARR_CLOSE" "utyp f = VARR" "vals f = []"
    using assms(3) by (auto simp: vst_step [OF t] split: if_splits)
  then show ?thesis
  proof cases
    case scalar
    then show ?thesis
      using assms pending_push [OF assms(2) scalar_toks(2) [OF scalar v]]
        before_value_toks [OF assms(2), of "scalar tok v"] scalar_toks(1) [OF scalar v]
        behind_value [of fs "values_push_back (scalar tok v) f" tok]
      by (cases tok) (auto simp: vst_step [OF t])
  next
    case obj
    then show ?thesis
      using assms before_name [of "fs @ [f]" "UniValue VOBJ [] [] []"] by (auto simp: vst_step [OF t] empty_container)
  next
    case arr
    then show ?thesis
      using assms before_value [of "fs @ [f]" "UniValue VARR [] [] []"] by (auto simp: vst_step [OF t] empty_container)
  next
    case close
    then have "full f" "before f @ [(tok, v)] = toks f"
      using assms(2) v by (auto simp: pending_def full_def full_toks before_def to_next_def)
    then show ?thesis
      using assms close reading_closed [of fs f tok] by (simp add: vst_step [OF t])
  qed
qed

lemma before_name_step:
  assumes "list_all pending fs" and "full f" and "utyp f = VOBJ" and "read_step (nst fs f) tok v = Some st'"
    and v: "tok \<noteq> JTOK_NUMBER \<Longrightarrow> tok \<noteq> JTOK_STRING \<Longrightarrow> v = []"
  shows "reading (concat (map before fs) @ to_next f @ [(tok, v)]) st'"
proof (cases "tok = JTOK_STRING")
  case True
  have "pending (keys_push_back v f)" "to_next (keys_push_back v f) = to_next f"
    using assms(2,3) by (auto simp: pending_def full_def keys_push_back_def to_next_def open_tok_def members_toks_def zip_append1)
  then show ?thesis
    using True assms behind_name [of fs "keys_push_back v f"] by (simp add: nst_step keys_push_back_def)
next
  case False
  then have c: "tok = JTOK_OBJ_CLOSE" "vals f = []" "st' = cst fs f tok"
    using assms by (auto simp: nst_step split: if_splits)
  then have "to_next f @ [(tok, v)] = toks f"
    using assms(2,3) v by (simp add: full_toks to_next_def)
  then show ?thesis
    using c assms(1,2) reading_closed [of fs f tok] by simp
qed

lemma behind_value_step:
  assumes "list_all pending fs" and "full f" and "vals f \<noteq> []" and "l \<noteq> JTOK_COMMA" and "l \<noteq> JTOK_ARR_OPEN"
    and "read_step (ast fs f l) tok v = Some st'"
    and v: "tok \<noteq> JTOK_NUMBER \<Longrightarrow> tok \<noteq> JTOK_STRING \<Longrightarrow> v = []"
  shows "reading (concat (map before fs) @ open_tok f # sep (members_toks f) @ [(tok, v)]) st'"
proof (cases "tok = JTOK_COMMA")
  note s = ast_step [OF container_typ(2) [OF assms(2)] assms(3-5)]
  case True
  then have "open_tok f # sep (members_toks f) @ [(tok, v)] = to_next f"
    using assms(3) v by (simp add: to_next_def)
  moreover have "pending f" "before f = to_next f" if "utyp f \<noteq> VOBJ"
    using that assms(2) by (auto simp: full_def pending_def before_def)
  ultimately show ?thesis
    using True assms(1,2,6) before_value [of fs f] before_name [of fs f] by (cases "utyp f = VOBJ") (auto simp: s)
next
  note s = ast_step [OF container_typ(2) [OF assms(2)] assms(3-5)]
  case False
  then have "st' = cst fs f tok" "tok = (if utyp f = VOBJ then JTOK_OBJ_CLOSE else JTOK_ARR_CLOSE)"
    using assms(6) by (auto simp: s split: if_splits)
  then show ?thesis
    using assms(1,2) v reading_closed [of fs f tok] by (auto simp: full_toks split: if_splits)
qed

inductive_cases reading_elim: "reading ts st"

lemma reading_step:
  assumes "reading ts st" and "stack_size st \<noteq> 0" and step: "read_step st tok v = Some st'"
    and v: "tok \<noteq> JTOK_NUMBER \<Longrightarrow> tok \<noteq> JTOK_STRING \<Longrightarrow> v = []"
  shows "reading (ts @ [(tok, v)]) st'"
  using assms(1)
proof (rule reading_elim)
  fix fs f assume "ts = concat (map before fs) @ before f" "st = vst fs f" "list_all pending fs" "pending f"
  then show ?thesis using before_value_step step v by simp
next
  fix fs f assume "ts = concat (map before fs) @ to_next f" "st = nst fs f" "list_all pending fs" "full f" "utyp f = VOBJ"
  then show ?thesis using before_name_step step v by simp
next
  fix fs f assume f: "ts = concat (map before fs) @ to_next f @ [(JTOK_STRING, last (keys f))]" "st = kst fs f"
    "list_all pending fs" "pending f" "utyp f = VOBJ"
  then have "tok = JTOK_COLON" "st' = vst fs f"
    using step by (auto simp: kst_step split: if_splits)
  then show ?thesis
    using f v before_value [of fs f] by (simp add: before_def)
next
  fix fs f l assume "ts = concat (map before fs) @ open_tok f # sep (members_toks f)" "st = ast fs f l" "list_all pending fs"
    "full f" "vals f \<noteq> []" "l \<noteq> JTOK_COMMA" "l \<noteq> JTOK_ARR_OPEN"
  then show ?thesis using behind_value_step step v by simp
next
  fix f l assume "st = cst [] f l"
  then show ?thesis using assms(2) by simp
qed

lemma scan_token_val:
  assumes "scan_token raw = (tok, v, n)" and "tok \<noteq> JTOK_NUMBER" and "tok \<noteq> JTOK_STRING"
  shows "v = []"
proof -
  define plain where "plain = (\<lambda>(t :: jtokentype, s :: string, k :: nat). t = JTOK_NUMBER \<or> t = JTOK_STRING \<or> s = [])"
  have ifI: "plain x \<Longrightarrow> plain y \<Longrightarrow> plain (if b then x else y)" for b x y
    by simp
  have p: "plain (t, [], k)" for t k
    by (simp add: plain_def)
  have n: "plain (case x of None \<Rightarrow> (JTOK_ERR, [], 0) | Some (s, rs) \<Rightarrow> (JTOK_NUMBER, s, f rs))"
    "plain (case x of None \<Rightarrow> (JTOK_ERR, [], 0) | Some (s, rs) \<Rightarrow> (JTOK_STRING, s, f rs))"
    for x :: "(string \<times> string) option" and f
    by (auto simp: plain_def split: option.split)
  have "plain (scan_token raw)"
    unfolding scan_token_def Let_def
    by (cases "dropWhile json_isspace raw") (simp_all only: list.case, auto simp only: intro!: ifI p n)
  then show ?thesis
    using assms by (auto simp: plain_def)
qed

lemma tokenize_vals: "tokenize raw = Some ts \<Longrightarrow> (tok, v) \<in> set ts \<Longrightarrow> tok \<noteq> JTOK_NUMBER \<Longrightarrow> tok \<noteq> JTOK_STRING \<Longrightarrow> v = []"
proof (induction raw arbitrary: ts rule: tokenize.induct)
  case (1 raw)
  obtain t w n where g: "scan_token raw = (t, w, n)"
    by (metis prod_cases3)
  show ?case
    using 1 scan_token_val [OF g] by (auto simp: g tokenize.simps [of raw] split: if_splits)
qed

lemma accept_reading:
  assumes "accept st ts = Some u" and "reading ts0 st" and "stack_size st \<noteq> 0"
    and "\<And>tok v. (tok, v) \<in> set ts \<Longrightarrow> tok \<noteq> JTOK_NUMBER \<Longrightarrow> tok \<noteq> JTOK_STRING \<Longrightarrow> v = []"
  shows "full u \<and> toks u = ts0 @ ts"
  using assms
proof (induction st ts arbitrary: ts0 rule: accept.induct)
  case (2 st tok v ts)
  then obtain st' where st': "read_step st tok v = Some st'"
    by (auto split: option.splits)
  have r: "reading (ts0 @ [(tok, v)]) st'"
    using reading_step [OF "2.prems"(2,3) st'] "2.prems"(4) by auto
  show ?case
  proof (cases "stack_size st' = 0")
    case True
    with r obtain f l where "full f" "st' = cst [] f l" "ts0 @ [(tok, v)] = toks f"
      by (cases rule: reading.cases) auto
    then show ?thesis
      using "2.prems"(1) True st' by (auto split: if_splits)
  next
    case False
    then show ?thesis
      using 2 r st' by fastforce
  qed
qed simp

lemma accept_sound:
  assumes "accept (read_init u0) ts = Some u"
    and "\<And>tok v. (tok, v) \<in> set ts \<Longrightarrow> tok \<noteq> JTOK_NUMBER \<Longrightarrow> tok \<noteq> JTOK_STRING \<Longrightarrow> v = []"
  shows "full u \<and> toks u = ts"
proof (cases ts)
  case (Cons tv ts')
  obtain tok v where tv: "tv = (tok, v)"
    by (cases tv)
  have v: "tok \<noteq> JTOK_NUMBER \<Longrightarrow> tok \<noteq> JTOK_STRING \<Longrightarrow> v = []" and
    vs: "\<And>tok v. (tok, v) \<in> set ts' \<Longrightarrow> tok \<noteq> JTOK_NUMBER \<Longrightarrow> tok \<noteq> JTOK_STRING \<Longrightarrow> v = []"
    using assms(2) by (auto simp: Cons tv)
  consider (obj) "tok = JTOK_OBJ_OPEN" "accept (nst [] (UniValue VOBJ [] [] [])) ts' = Some u"
    | (arr) "tok = JTOK_ARR_OPEN" "accept (vst [] (UniValue VARR [] [] [])) ts' = Some u"
    using assms(1) by (auto simp: Cons tv init_step split: if_splits)
  then show ?thesis
  proof cases
    case obj
    then show ?thesis
      using accept_reading [OF obj(2) before_name _ vs] v by (simp add: Cons tv empty_container)
  next
    case arr
    then show ?thesis
      using accept_reading [OF arr(2) before_value _ vs] v by (simp add: Cons tv empty_container)
  qed
qed (use assms in simp)

lemma uv_read_iff:
  assumes "length raw < 2 ^ 32"
  shows "uv_read u0 raw = Some (True, u) \<longleftrightarrow> canon u \<and> container u \<and> tokenize raw = Some (toks u)"
proof
  assume "uv_read u0 raw = Some (True, u)"
  then obtain ts where ts: "tokenize raw = Some ts" "accept (read_init u0) ts = Some u"
    using assms by (auto simp: uv_read_def read_loop_exact read_exact_accept)
  then show "canon u \<and> container u \<and> tokenize raw = Some (toks u)"
    using accept_sound [OF ts(2) tokenize_vals [OF ts(1)]] by (simp add: full_canon)
next
  assume "canon u \<and> container u \<and> tokenize raw = Some (toks u)"
  then show "uv_read u0 raw = Some (True, u)"
    using assms accept_complete by (auto simp: uv_read_def read_loop_exact read_exact_accept)
qed

lemma canon_wf: "canon u \<Longrightarrow> uv_wf u"
  by (induction u) (auto simp: list.pred_set split: VType.splits)

subsection \<open>Properties\<close>

text \<open>
  C1. On a text of fewer than 2 to the 32 bytes, the range of \<^verbatim>\<open>consumed\<close>, \<^verbatim>\<open>read\<close> returns, and it accepts exactly when the tokens of
  the text are those of a JSON array or object; then the value is the one they denote: every text of the grammar is
  accepted, nothing else is, and in particular no scalar at the top level, no missing or doubled comma or colon and
  nothing behind the value.
\<close>

theorem UniValue_read_grammar:
  assumes "length raw < 2 ^ 32"
  shows "(\<exists>r. uv_read u0 raw = Some r)
    \<and> (uv_read u0 raw = Some (True, u) \<longleftrightarrow> canon u \<and> container u \<and> tokenize raw = Some (toks u))"
  using uv_read_iff [OF assms] read_loop_exact [OF assms] by (simp add: uv_read_def)

theorem UniValue_read_grammar_witness:
  "uv_read NullUniValue ''[ ]'' = Some (True, UniValue VARR [] [] [])"
  using UniValue_read_grammar [of "''[ ]''" NullUniValue "UniValue VARR [] [] []"]
  by (simp add: container_def tokenize.simps scan_token_def json_isspace_def)

text \<open>
  A value that \<^verbatim>\<open>read\<close> has accepted satisfies the class invariant, whatever the object held before.
\<close>

lemma UniValue_read_wf:
  assumes "length raw < 2 ^ 32" "uv_read u0 raw = Some (True, u)"
  shows "uv_wf u"
  using assms canon_wf by (simp add: uv_read_iff)

end
