(* ===== verification/Json_Roundtrip.thy ===== *)
theory Json_Roundtrip
  imports Json_Write Json_Grammar
begin

section \<open>Writing and reading back\<close>

text \<open>
  The tokens of a written text are the tokens of the value, whatever the indentation, so \<open>uv_read\<close> returns it.
  This holds for values whose strings are 7-bit and whose numbers are number tokens (\<open>printable\<close>): a byte from
  128 on is written as an escape of the same code point, which the reader decodes to two bytes.
\<close>

subsection \<open>Strings\<close>

definition ascii :: "string \<Rightarrow> bool" where
  "ascii s \<longleftrightarrow> list_all (\<lambda>c. of_char c < (128 :: nat)) s"

text \<open>How the reader undoes each entry of the table.\<close>

definition escape_ok :: "nat \<Rightarrow> bool" where
  "escape_ok n =
     (case escapes ! n of
        None \<Rightarrow> 32 \<le> n \<and> n \<noteq> 34 \<and> n \<noteq> 92
      | Some (b # e # hs) \<Rightarrow> b = CHR 0x5C \<and>
          (case simple_escape e of
             Some x \<Rightarrow> hs = [] \<and> of_char x = n
           | None \<Rightarrow> e = CHR ''u'' \<and> length hs = 4 \<and> hatoui hs = (4, n))
      | _ \<Rightarrow> False)"

lemma escapes_ok_all: "list_all escape_ok [0..<128]"
  by code_simp

lemma escapes_ok: "n < 128 \<Longrightarrow> escape_ok n"
  using escapes_ok_all by (auto simp: list_all_iff)

lemma lex_string_plain:
  assumes "32 \<le> (of_char c :: nat)" "of_char c < (128 :: nat)" "of_char c \<noteq> (34 :: nat)" "of_char c \<noteq> (92 :: nat)"
  shows "lex_string (c # r) acc = lex_string r (acc @ [c])"
proof -
  have "c \<noteq> CHR 0x22" "c \<noteq> CHR 0x5C"
    using assms by auto
  then show ?thesis
    using assms by (simp add: lex_string.simps schar_def)
qed

lemma lex_string_escape:
  assumes "of_char c < (128 :: nat)"
  shows "lex_string (json_escape [c] @ r) acc = lex_string r (acc @ [c])"
proof (cases "escapes ! of_char c")
  case None
  then have "json_escape [c] = [c]"
    using assms by simp
  moreover have "32 \<le> (of_char c :: nat)" "of_char c \<noteq> (34 :: nat)" "of_char c \<noteq> (92 :: nat)"
    using escapes_ok [OF assms] None by (simp_all add: escape_ok_def)
  ultimately show ?thesis
    using lex_string_plain assms by simp
next
  case (Some s)
  have ok: "escape_ok (of_char c)"
    using escapes_ok [OF assms] .
  then obtain b e hs where s: "s = b # e # hs"
    unfolding escape_ok_def Some by (auto split: list.splits)
  have b: "b = CHR 0x5C" and e: "case simple_escape e of Some x \<Rightarrow> hs = [] \<and> of_char x = (of_char c :: nat)
      | None \<Rightarrow> e = CHR ''u'' \<and> length hs = 4 \<and> hatoui hs = (4, of_char c)"
    using ok unfolding escape_ok_def Some s by simp_all
  show ?thesis
  proof (cases "simple_escape e")
    case None
    with e have "hatoui hs = (4, of_char c)" "length hs = 4" "e = CHR ''u''" by simp_all
    then show ?thesis
      using Some None assms by (simp add: s b lex_string.simps(2) schar_def utf8_of_def)
  next
    case x: (Some x)
    with e have "x = c" "hs = []" by simp_all
    then show ?thesis
      using Some x by (simp add: s b lex_string.simps(2) schar_def)
  qed
qed

lemma json_escape_Cons: "json_escape (c # s) = json_escape [c] @ json_escape s"
  by (simp add: Let_def)

lemma lex_string_json_escape:
  "ascii s \<Longrightarrow> lex_string (json_escape s @ CHR 0x22 # rest) acc = Some (acc @ s, rest)"
proof (induction s arbitrary: acc)
  case Nil
  then show ?case by (simp add: lex_string.simps schar_def)
next
  case (Cons c s)
  then show ?case
    by (simp only: json_escape_Cons [of c s] append_assoc) (simp add: ascii_def lex_string_escape del: json_escape.simps)
qed

subsection \<open>Tokens behind white space\<close>

abbreviation spaces :: "string \<Rightarrow> bool" where
  "spaces \<equiv> list_all json_isspace"

lemma dropWhile_spaces: "spaces ws \<Longrightarrow> dropWhile json_isspace (ws @ s) = dropWhile json_isspace s"
  by (induction ws) simp_all

lemma tokenize_next:
  assumes "scan_token raw = (tok, v, length raw - length rest)" and "tok \<noteq> JTOK_NONE" and "tok \<noteq> JTOK_ERR"
    and "drop (length raw - length rest) raw = rest"
  shows "tokenize raw = map_option ((#) (tok, v)) (tokenize rest)"
  using assms by (simp add: tokenize.simps [of raw])

lemma tokenize_punct:
  assumes "spaces ws"
  shows "tokenize (ws @ CHR ''{'' # rest) = map_option ((#) (JTOK_OBJ_OPEN, [])) (tokenize rest)"
    and "tokenize (ws @ CHR ''}'' # rest) = map_option ((#) (JTOK_OBJ_CLOSE, [])) (tokenize rest)"
    and "tokenize (ws @ CHR ''['' # rest) = map_option ((#) (JTOK_ARR_OPEN, [])) (tokenize rest)"
    and "tokenize (ws @ CHR '']'' # rest) = map_option ((#) (JTOK_ARR_CLOSE, [])) (tokenize rest)"
    and "tokenize (ws @ CHR '':'' # rest) = map_option ((#) (JTOK_COLON, [])) (tokenize rest)"
    and "tokenize (ws @ CHR '','' # rest) = map_option ((#) (JTOK_COMMA, [])) (tokenize rest)"
  using assms
  by (auto intro!: tokenize_next simp: scan_token_def dropWhile_spaces json_isspace_def)

lemma tokenize_keyword:
  assumes "spaces ws"
  shows "tokenize (ws @ ''null'' @ rest) = map_option ((#) (JTOK_KW_NULL, [])) (tokenize rest)"
    and "tokenize (ws @ ''true'' @ rest) = map_option ((#) (JTOK_KW_TRUE, [])) (tokenize rest)"
    and "tokenize (ws @ ''false'' @ rest) = map_option ((#) (JTOK_KW_FALSE, [])) (tokenize rest)"
  using assms
  by (auto intro!: tokenize_next simp: scan_token_def dropWhile_spaces json_isspace_def starts_with_def)

lemma tokenize_number:
  assumes "spaces ws" and "number_str n" and "num_end rest"
  shows "tokenize (ws @ n @ rest) = map_option ((#) (JTOK_NUMBER, n)) (tokenize rest)"
proof -
  obtain c cs where n: "n = c # cs"
    using assms(2) by (cases n) (auto simp: number_str_def num_start_def)
  have "\<not> json_isspace c" "c \<notin> {CHR ''{'', CHR ''}'', CHR ''['', CHR '']'', CHR '':'', CHR '','', CHR ''n'', CHR ''t'', CHR ''f''}"
    "c = CHR ''-'' \<or> json_isdigit c"
    using assms(2) by (auto simp: n number_str_def num_start_def json_isspace_def json_isdigit_def)
  moreover have "lex_number (c # cs @ rest) = Some (n, rest)"
    using lex_number_append [OF assms(3), of n n "[]"] assms(2) by (simp add: number_str_def n)
  ultimately show ?thesis
    using assms(1) by (intro tokenize_next) (simp_all add: scan_token_def dropWhile_spaces n)
qed

lemma tokenize_string:
  assumes "spaces ws" and "ascii s"
  shows "tokenize (ws @ CHR 0x22 # json_escape s @ CHR 0x22 # rest) = map_option ((#) (JTOK_STRING, s)) (tokenize rest)"
  using assms
  by (intro tokenize_next)
    (simp_all add: scan_token_def dropWhile_spaces json_isspace_def json_isdigit_def lex_string_json_escape)

subsection \<open>Values\<close>

primrec printable :: "UniValue \<Rightarrow> bool" where
  "printable (UniValue ty v ks vs) \<longleftrightarrow>
     (case ty of VNUM \<Rightarrow> number_str v | VSTR \<Rightarrow> ascii v | VOBJ \<Rightarrow> list_all ascii ks | _ \<Rightarrow> True) \<and> list_all printable vs"

lemma num_end_simps [simp]: "num_end (c # r) \<longleftrightarrow> \<not> json_isdigit c \<and> c \<notin> {CHR ''.'', CHR ''e'', CHR ''E''}" "num_end []"
  by (simp_all add: num_end_def)

lemma num_end_spaces: "spaces ws \<Longrightarrow> num_end r \<Longrightarrow> num_end (ws @ r)"
  by (cases ws) (auto simp: json_isspace_def json_isdigit_def)

lemma spaces_pretty: "spaces (pretty p (indentStr p l))" "spaces (pretty p [CHR 0x0A])" "spaces (pretty p '' '')"
  by (simp_all add: pretty_def indentStr_def list_all_iff json_isspace_def)

text \<open>A text is read as the given tokens, behind white space and before anything that ends a number.\<close>

definition lexes :: "token list \<Rightarrow> string \<Rightarrow> bool" where
  "lexes ts s \<longleftrightarrow> (\<forall>ws rest. spaces ws \<longrightarrow> num_end rest \<longrightarrow> tokenize (ws @ s @ rest) = map_option ((@) ts) (tokenize rest))"

lemma lexesD: "lexes ts s \<Longrightarrow> spaces ws \<Longrightarrow> num_end rest \<Longrightarrow> tokenize (ws @ s @ rest) = map_option ((@) ts) (tokenize rest)"
  by (simp add: lexes_def)

text \<open>
  What the two loops rely on of the closing bracket behind them: it is one token, behind any white space,
  and ends a number. Between them the loops write texts that are read as the members.
\<close>

locale bracket =
  fixes c :: char and t :: token
  assumes tokenize_close: "spaces ws \<Longrightarrow> tokenize (ws @ c # rest) = map_option ((#) t) (tokenize rest)"
    and num_end_close: "num_end (c # rest)"
begin

definition to_close :: "token list \<Rightarrow> string \<Rightarrow> bool" where
  "to_close ts s \<longleftrightarrow> (\<forall>ws ws' rest. spaces ws \<longrightarrow> spaces ws' \<longrightarrow>
     tokenize (ws @ s @ ws' @ c # rest) = map_option (\<lambda>r. ts @ t # r) (tokenize rest))"

lemma to_close_Nil: "to_close [] []"
  unfolding to_close_def using tokenize_close [of "_ @ _"] by simp

lemma to_close_last:
  assumes "lexes ts s" and "spaces i" and "spaces n"
  shows "to_close ts (i @ s @ n)"
  unfolding to_close_def
proof (intro allI impI)
  fix ws ws' rest
  assume "spaces ws" "spaces ws'"
  then have "num_end (n @ ws' @ c # rest)"
    using assms(3) by (intro num_end_spaces num_end_close)
  then have "tokenize ((ws @ i) @ s @ (n @ ws' @ c # rest)) = map_option ((@) ts) (tokenize (n @ ws' @ c # rest))"
    using assms \<open>spaces ws\<close> by (intro lexesD) simp_all
  also have "tokenize (n @ ws' @ c # rest) = map_option ((#) t) (tokenize rest)"
    using tokenize_close [of "n @ ws'"] assms \<open>spaces ws'\<close> by simp
  finally show "tokenize (ws @ (i @ s @ n) @ ws' @ c # rest) = map_option (\<lambda>r. ts @ t # r) (tokenize rest)"
    by (simp add: option.map_comp comp_def)
qed

lemma to_close_Cons:
  assumes "lexes ts s" and "spaces i" and "spaces n" and "to_close us b"
  shows "to_close (ts @ (JTOK_COMMA, []) # us) (i @ s @ '','' @ n @ b)"
  unfolding to_close_def
proof (intro allI impI)
  fix ws ws' rest
  assume w: "spaces ws" "spaces ws'"
  let ?r = "n @ b @ ws' @ c # rest"
  have "tokenize ((ws @ i) @ s @ (CHR '','' # ?r)) = map_option ((@) ts) (tokenize (CHR '','' # ?r))"
    using assms w by (intro lexesD) (simp_all add: json_isdigit_def)
  also have "tokenize (CHR '','' # ?r) = map_option ((#) (JTOK_COMMA, [])) (tokenize ?r)"
    using tokenize_punct(6) [of "[]"] by simp
  also have "tokenize ?r = map_option (\<lambda>r. us @ t # r) (tokenize rest)"
    using assms(3,4) w unfolding to_close_def by blast
  finally show "tokenize (ws @ (i @ s @ '','' @ n @ b) @ ws' @ c # rest) =
      map_option (\<lambda>r. (ts @ (JTOK_COMMA, []) # us) @ t # r) (tokenize rest)"
    by (simp add: option.map_comp comp_def)
qed

lemma to_closeD:
  assumes "to_close ts s" and "spaces ws" and "spaces ws'"
  shows "tokenize (ws @ s @ ws' @ c # rest) = map_option (\<lambda>r. ts @ t # r) (tokenize rest)"
  using assms unfolding to_close_def by blast

end

interpretation arr: bracket "CHR '']''" "(JTOK_ARR_CLOSE, [])"
  by unfold_locales (simp_all add: tokenize_punct json_isdigit_def)

interpretation obj: bracket "CHR ''}''" "(JTOK_OBJ_CLOSE, [])"
  by unfold_locales (simp_all add: tokenize_punct json_isdigit_def)

lemma append_fun: "(@) (t # ts) = (\<lambda>r. t # ts @ r)" "(@) [] = (\<lambda>r. r)" "(@) (us @ ts) = (\<lambda>r. us @ ts @ r)"
  by (simp_all add: fun_eq_iff)

lemma lexes_member:
  assumes "ascii k" and "lexes ts s" and "spaces n"
  shows "lexes (member k ts) ([CHR 0x22] @ json_escape k @ [CHR 0x22, CHR '':''] @ n @ s)"
  using tokenize_string [OF _ assms(1)] tokenize_punct(5) [of "[]"] lexesD [OF assms(2,3)]
  by (simp add: lexes_def member_def append_fun option.map_comp comp_def)

lemma lexes_scalars:
  "lexes [(JTOK_KW_NULL, [])] ''null''" "lexes [(JTOK_KW_TRUE, [])] ''true''" "lexes [(JTOK_KW_FALSE, [])] ''false''"
  "number_str v \<Longrightarrow> lexes [(JTOK_NUMBER, v)] v"
  "ascii v \<Longrightarrow> lexes [(JTOK_STRING, v)] ([CHR 0x22] @ json_escape v @ [CHR 0x22])"
  using tokenize_keyword tokenize_number tokenize_string
  by (simp_all add: lexes_def append_fun)

lemma lexes_array:
  assumes "arr.to_close ts b" and "spaces n" and "spaces i"
  shows "lexes ((JTOK_ARR_OPEN, []) # ts @ [(JTOK_ARR_CLOSE, [])]) (''['' @ n @ b @ i @ '']'')"
  using tokenize_punct(3) arr.to_closeD [OF assms]
  by (simp add: lexes_def append_fun option.map_comp comp_def)

lemma lexes_object:
  assumes "obj.to_close ts b" and "spaces n" and "spaces i"
  shows "lexes ((JTOK_OBJ_OPEN, []) # ts @ [(JTOK_OBJ_CLOSE, [])]) (''{'' @ n @ b @ i @ ''}'')"
  using tokenize_punct(1) obj.to_closeD [OF assms]
  by (simp add: lexes_def append_fun option.map_comp comp_def)

subsection \<open>The writer\<close>

lemma array_member:
  assumes s: "uv_write v p (l + 1) = Inr s" "lexes (toks v) s"
    and b: "writeArray_loop vs p l = Inr b" "arr.to_close (sep (map toks vs)) b"
  shows "\<exists>s. writeArray_loop (v # vs) p l = Inr s \<and> arr.to_close (sep (map toks (v # vs))) s"
proof -
  let ?i = "pretty p (indentStr p l)" and ?n = "pretty p [CHR 0x0A]"
  show ?thesis
  proof (cases "vs = []")
    case True
    then show ?thesis
      using s b arr.to_close_last [OF s(2), of ?i ?n] by (simp add: spaces_pretty)
  next
    case False
    then show ?thesis
      using s b arr.to_close_Cons [OF s(2) _ _ b(2), of ?i "pretty p '' '' @ ?n"] by (simp add: spaces_pretty sep_Cons)
  qed
qed

lemma object_member:
  assumes s: "uv_write v p (l + 1) = Inr s" "lexes (toks v) s"
    and b: "writeObject_loop ks vs p l = Inr b" "obj.to_close (sep (map2 member ks (map toks vs))) b"
    and k: "ascii k" "length ks = length vs"
  shows "\<exists>s. writeObject_loop (k # ks) (v # vs) p l = Inr s \<and> obj.to_close (sep (map2 member (k # ks) (map toks (v # vs)))) s"
proof -
  let ?i = "pretty p (indentStr p l)" and ?n = "pretty p [CHR 0x0A]"
  have m: "lexes (member k (toks v)) ([CHR 0x22] @ json_escape k @ [CHR 0x22, CHR '':''] @ pretty p '' '' @ s)"
    using lexes_member [OF k(1) s(2)] by (simp add: spaces_pretty)
  show ?thesis
  proof (cases "vs = []")
    case True
    then show ?thesis
      using s b obj.to_close_last [OF m, of ?i ?n] k by (simp add: spaces_pretty)
  next
    case False
    moreover have "map2 member ks (map toks vs) \<noteq> []"
      using False k by auto
    ultimately show ?thesis
      using s b obj.to_close_Cons [OF m _ _ b(2), of ?i ?n] by (simp add: spaces_pretty sep_Cons)
  qed
qed

lemma writes_lexed:
  "canon u \<Longrightarrow> printable u \<Longrightarrow> \<exists>s. uv_write u p l = Inr s \<and> lexes (toks u) s"
  "list_all canon vs \<Longrightarrow> list_all printable vs \<Longrightarrow>
     \<exists>s. writeArray_loop vs p l = Inr s \<and> arr.to_close (sep (map toks vs)) s"
  "list_all canon vs \<Longrightarrow> list_all printable vs \<Longrightarrow> list_all ascii ks \<Longrightarrow> length ks = length vs \<Longrightarrow>
     \<exists>s. writeObject_loop ks vs p l = Inr s \<and> obj.to_close (sep (map2 member ks (map toks vs))) s"
proof (induction u p l and vs p l and ks vs p l rule: uv_write_writeArray_loop_writeObject_loop.induct)
  case (1 ty v ks vs p l)
  let ?m = "if l = 0 then 1 else l"
  show ?case
  proof (cases ty)
    case VARR
    then obtain s where "writeArray_loop vs p ?m = Inr s" "arr.to_close (sep (map toks vs)) s"
      using "1.IH"(2) [OF refl VARR] "1.prems" by auto
    then show ?thesis
      using lexes_array [of _ s "pretty p [CHR 0x0A]" "pretty p (indentStr p (?m - 1))"] by (simp add: VARR Let_def spaces_pretty)
  next
    case VOBJ
    then obtain s where "writeObject_loop ks vs p ?m = Inr s" "obj.to_close (sep (map2 member ks (map toks vs))) s"
      using "1.IH"(1) [OF refl VOBJ] "1.prems" by auto
    then show ?thesis
      using lexes_object [of _ s "pretty p [CHR 0x0A]" "pretty p (indentStr p (?m - 1))"] by (simp add: VOBJ Let_def spaces_pretty)
  qed (use "1.prems" lexes_scalars in \<open>simp_all add: Let_def\<close>)
next
  case (2 p l)
  then show ?case by (simp add: arr.to_close_Nil)
next
  case (3 v vs p l)
  then obtain s b where "uv_write v p (l + 1) = Inr s" "lexes (toks v) s"
    "writeArray_loop vs p l = Inr b" "arr.to_close (sep (map toks vs)) b"
    by auto
  then show ?case by (rule array_member)
next
  case (4 vs p l)
  then show ?case by (simp add: obj.to_close_Nil)
next
  case (5 k ks p l)
  then show ?case by simp
next
  case (6 k ks v vs p l)
  then obtain s b where "uv_write v p (l + 1) = Inr s" "lexes (toks v) s"
    "writeObject_loop ks vs p l = Inr b" "obj.to_close (sep (map2 member ks (map toks vs))) b"
    by auto
  then show ?case using "6.prems" by (intro object_member) simp_all
qed

lemma uv_write_tokenize:
  assumes "canon u" and "printable u"
  obtains s where "uv_write u p l = Inr s" "tokenize s = Some (toks u)"
proof -
  obtain s where s: "uv_write u p l = Inr s" "lexes (toks u) s"
    using writes_lexed(1) [OF assms] by blast
  then have "tokenize s = map_option ((@) (toks u)) (tokenize [])"
    using lexesD [OF s(2), of "[]" "[]"] by simp
  moreover have "tokenize [] = Some []"
    by (simp add: tokenize_Nil scan_token_def)
  ultimately show ?thesis
    using that s by simp
qed

lemma number_no_nul:
  assumes "number_str s"
  shows "CHR 0x00 \<notin> set s"
proof -
  have d: "CHR 0x00 \<notin> set (takeWhile json_isdigit xs)" for xs
    using set_takeWhileD [of "CHR 0x00" json_isdigit xs] digit_plain by blast
  obtain s1 s2 where 1: "lex_int s = Some s1" and 2: "lex_frac s1 = Some s2" and 3: "lex_exp s2 = Some (s, [])"
    using assms by (auto simp: number_str_def lex_number_def bind_eq_Some_conv)
  have "hd s \<noteq> CHR 0x00"
    using assms digit_plain by (cases s) (auto simp: number_str_def num_start_def)
  then have "CHR 0x00 \<notin> set (fst s1)"
    using 1 d by (auto simp: lex_int_def Let_def split: if_splits)
  then have "CHR 0x00 \<notin> set (fst s2)"
    using 2 d by (auto simp: lex_frac_def split: if_splits prod.splits)
  then show ?thesis
    using 3 d by (auto simp: lex_exp_def Let_def split: if_splits prod.splits)
qed

lemma escapes_length: "length escapes = 256"
  by (simp add: escapes_def)

lemma escapes_no_nul: "list_all (\<lambda>e. case e of Some s \<Rightarrow> list_all (\<lambda>c. c \<noteq> CHR 0x00) s | None \<Rightarrow> True) escapes"
  by code_simp

lemma json_escape_no_nul: "ascii s \<Longrightarrow> CHR 0x00 \<notin> set (json_escape s)"
proof (induction s)
  case (Cons c s)
  have c: "of_char c < (128 :: nat)" "ascii s"
    using Cons.prems by (simp_all add: ascii_def)
  then have "escapes ! of_char c \<in> set escapes" "escape_ok (of_char c)"
    using escapes_ok nth_mem [of "of_char c" escapes] by (simp_all add: escapes_length)
  then have "(case escapes ! of_char c of Some s \<Rightarrow> list_all (\<lambda>c. c \<noteq> CHR 0x00) s | None \<Rightarrow> c \<noteq> CHR 0x00)"
    using bspec [OF escapes_no_nul [unfolded list_all_iff [of _ escapes]], of "escapes ! of_char c"]
    by (cases "escapes ! of_char c" rule: option.exhaust) (auto simp: escape_ok_def)
  then show ?case
    using Cons.IH c by (auto simp: Let_def list_all_iff split: option.splits)
qed simp

lemma pretty_no_nul: "CHR 0x00 \<notin> set (pretty p (indentStr p l))" "CHR 0x00 \<notin> set (pretty p [CHR 0x0A])" "CHR 0x00 \<notin> set (pretty p '' '')"
  by (simp_all add: pretty_def indentStr_def)

lemma write_no_nul:
  "printable u \<Longrightarrow> uv_write u p l = Inr s \<Longrightarrow> CHR 0x00 \<notin> set s"
  "list_all printable vs \<Longrightarrow> writeArray_loop vs p l = Inr s \<Longrightarrow> CHR 0x00 \<notin> set s"
  "list_all printable vs \<Longrightarrow> list_all ascii ks \<Longrightarrow> writeObject_loop ks vs p l = Inr s \<Longrightarrow> CHR 0x00 \<notin> set s"
proof (induction u p l and vs p l and ks vs p l arbitrary: s and s and s rule: uv_write_writeArray_loop_writeObject_loop.induct)
  case (1 ty v ks vs p l)
  show ?case
  proof (cases ty)
    case VARR
    then show ?thesis
      using "1.IH"(2) [OF refl VARR] "1.prems" by (auto simp: Let_def and_then_Inr_conv pretty_no_nul)
  next
    case VOBJ
    then show ?thesis
      using "1.IH"(1) [OF refl VOBJ] "1.prems" by (auto simp: Let_def and_then_Inr_conv pretty_no_nul)
  qed (use "1.prems" number_no_nul json_escape_no_nul in \<open>auto simp: Let_def split: if_splits\<close>)
next
  case (3 v vs p l)
  then show ?case
    by (auto simp: and_then_Inr_conv pretty_no_nul)
next
  case (6 k ks v vs p l)
  then show ?case
    by (auto simp: and_then_Inr_conv pretty_no_nul json_escape_no_nul)
qed simp_all

subsection \<open>Bytes from 128 on\<close>

lemma sprintf_hex_all: "list_all (\<lambda>n. escapes ! n = None \<and> hatoui (drop 2 (sprintf_u04x n)) = (4, n)) [128..<256]"
  by code_simp

lemma lex_string_high:
  assumes "128 \<le> (of_char c :: nat)"
  shows "lex_string (json_escape [c] @ r) acc = lex_string r (acc @ utf8_of (of_char c))"
proof -
  have n: "of_char c < (256 :: nat)"
    by (rule nat_of_char_less_256)
  have e: "escapes ! of_char c = None" "hatoui (drop 2 (sprintf_u04x (of_char c))) = (4, of_char c)"
    using bspec [OF sprintf_hex_all [unfolded list_all_iff set_upt], of "of_char c"] assms n by simp_all
  then have j: "json_escape [c] = sprintf_u04x (of_char c)"
    using assms by simp
  show ?thesis
    using e(2) unfolding j sprintf_u04x_def
    by (simp add: lex_string.simps(2) schar_def simple_escape_def)
qed

lemma utf8_of_ascii: "of_char c < (128 :: nat) \<Longrightarrow> utf8_of (of_char c) = [c]"
  by (simp add: utf8_of_def)

text \<open>What a written string is read back as: its bytes taken as code points, in UTF-8.\<close>

lemma lex_string_latin1:
  "lex_string (json_escape s @ CHR 0x22 # rest) acc = Some (acc @ concat (map (\<lambda>c. utf8_of (of_char c)) s), rest)"
proof (induction s arbitrary: acc)
  case Nil
  then show ?case by (simp add: lex_string.simps schar_def)
next
  case (Cons c s)
  have "lex_string (json_escape [c] @ r) acc = lex_string r (acc @ utf8_of (of_char c))" for r acc
    using lex_string_high [of c] lex_string_escape [of c] by (cases "of_char c < (128 :: nat)") (auto simp: utf8_of_ascii)
  then show ?case
    using Cons.IH by (simp only: json_escape_Cons [of c s] append_assoc) simp
qed

subsection \<open>Properties\<close>

text \<open>
  C2. Writing a value and reading the text back gives the value, for every array and object as the setters
  build them with 7-bit strings and numbers that are number tokens, and for every indentation with which the text
  stays below 2 to the 32 bytes, the range of \<^verbatim>\<open>consumed\<close>; neither direction fails.
\<close>

theorem UniValue_write_read:
  assumes "canon u" and "container u" and "printable u"
  shows "\<exists>s. uv_write u prettyIndent indentLevel = Inr s \<and> (length s < 2 ^ 32 \<longrightarrow> uv_read_str u0 s = Some (True, u))"
proof -
  obtain s where s: "uv_write u prettyIndent indentLevel = Inr s" "tokenize s = Some (toks u)"
    using uv_write_tokenize [OF assms(1,3)] .
  then show ?thesis
    using assms write_no_nul(1) [OF assms(3) s(1)] by (auto simp: uv_read_str_def c_str_id uv_read_iff)
qed

theorem UniValue_write_read_witness:
  "\<exists>s. uv_write (UniValue VOBJ [] [''a'', ''b''] [UniValue VARR [] [] [UniValue VBOOL ''1'' [] []], UniValue VSTR ''x'' [] []]) 2 0 = Inr s \<and>
     uv_read_str NullUniValue s =
       Some (True, UniValue VOBJ [] [''a'', ''b''] [UniValue VARR [] [] [UniValue VBOOL ''1'' [] []], UniValue VSTR ''x'' [] []])"
proof -
  let ?u = "UniValue VOBJ [] [''a'', ''b''] [UniValue VARR [] [] [UniValue VBOOL ''1'' [] []], UniValue VSTR ''x'' [] []]"
  obtain s where s: "uv_write ?u 2 0 = Inr s" "length s < 2 ^ 32 \<longrightarrow> uv_read_str NullUniValue s = Some (True, ?u)"
    using UniValue_write_read [of ?u 2 0 NullUniValue] by (auto simp: container_def ascii_def)
  have "(case uv_write ?u 2 0 of Inl _ \<Rightarrow> False | Inr s \<Rightarrow> length s < 100)" by code_simp
  then show ?thesis using s by auto
qed

text \<open>
  A string written by \<^verbatim>\<open>json_escape\<close> between quotes is read back as the UTF-8 encoding of its bytes taken as
  code points: the same string when it is 7-bit, a longer one otherwise, for every string.
\<close>

lemma json_escape_read:
  "scan_token (CHR 0x22 # json_escape s @ CHR 0x22 # rest) =
     (JTOK_STRING, concat (map (\<lambda>c. utf8_of (of_char c)) s), length (json_escape s) + 2)"
  by (simp add: scan_token_def json_isspace_def json_isdigit_def lex_string_latin1)

text \<open>
  A byte from 128 on inside a string is an error of the tokenizer, because \<^verbatim>\<open>*raw < 0x20\<close> compares a signed
  \<^verbatim>\<open>char\<close>: no text with raw UTF-8 in a string is readable.
\<close>

lemma high_byte_rejected:
  assumes "ascii s" and "128 \<le> (of_char c :: nat)"
  shows "scan_token (CHR 0x22 # json_escape s @ c # rest) = (JTOK_ERR, [], 0)"
proof -
  define n where "n = (of_char c :: nat)"
  have "128 \<le> n" "n < 256"
    using assms(2) by (simp_all add: n_def)
  then have c: "schar c < 0x20"
    unfolding schar_def Let_def n_def [symmetric] by simp
  have "lex_string (json_escape s @ c # rest) acc = None" for acc
    using assms(1)
  proof (induction s arbitrary: acc)
    case Nil
    then show ?case using c by (simp add: lex_string.simps(2))
  next
    case (Cons d s)
    then show ?case
      by (simp only: json_escape_Cons [of d s] append_assoc) (simp add: ascii_def lex_string_escape del: json_escape.simps)
  qed
  then show ?thesis
    by (simp add: scan_token_def json_isspace_def json_isdigit_def)
qed

lemma high_byte_rejected_witness:
  "scan_token [CHR 0x22, CHR 0xC3, CHR 0xA9, CHR 0x22] = (JTOK_ERR, [], 0)"
  using high_byte_rejected [of "[]" "CHR 0xC3" "[CHR 0xA9, CHR 0x22]"] by (simp add: ascii_def)

end
