(* ===== verification/Time_Value.thy ===== *)
theory Time_Value
  imports Prelude "HOL-Library.Signed_Division"
begin

section \<open>Time values (comLib/dhntimer/Time_Value.h, Time_Value.cpp)\<close>

text \<open>
  \<^verbatim>\<open>TimeValue\<close> is a number of seconds and a number of microseconds, both signed 64-bit integers of
  the platform. Their sums are exact here: the sources leave signed overflow undefined, and every
  value they build stays far from it. The conversion of \<^verbatim>\<open>msec\<close> to \<^verbatim>\<open>unsigned long\<close> is kept at its
  width. The main facts: \<open>normalize\<close> is division by one million truncated towards zero, and the
  comparison operators, which are lexicographic, order normalized values as their microseconds.
\<close>

subsection \<open>Data and comparison\<close>

datatype TimeValue = TimeValue (tv_sec: int) (tv_usec: int)

definition ONE_SECOND_IN_USECS :: int where "ONE_SECOND_IN_USECS = 1000000"

definition tv_gt :: "TimeValue \<Rightarrow> TimeValue \<Rightarrow> bool" where
  "tv_gt tv1 tv2 \<longleftrightarrow>
     (if tv_sec tv1 > tv_sec tv2 then True
      else if tv_sec tv1 = tv_sec tv2 \<and> tv_usec tv1 > tv_usec tv2 then True
      else False)"

definition tv_ge :: "TimeValue \<Rightarrow> TimeValue \<Rightarrow> bool" where
  "tv_ge tv1 tv2 \<longleftrightarrow>
     (if tv_sec tv1 > tv_sec tv2 then True
      else if tv_sec tv1 = tv_sec tv2 \<and> tv_usec tv1 \<ge> tv_usec tv2 then True
      else False)"

definition tv_eq :: "TimeValue \<Rightarrow> TimeValue \<Rightarrow> bool" where
  "tv_eq tv1 tv2 \<longleftrightarrow> tv_sec tv1 = tv_sec tv2 \<and> tv_usec tv1 = tv_usec tv2"

definition tv_ne :: "TimeValue \<Rightarrow> TimeValue \<Rightarrow> bool" where
  "tv_ne tv1 tv2 \<longleftrightarrow> \<not> tv_eq tv1 tv2"

definition tv_lt :: "TimeValue \<Rightarrow> TimeValue \<Rightarrow> bool" where
  "tv_lt tv1 tv2 = tv_gt tv2 tv1"

definition tv_le :: "TimeValue \<Rightarrow> TimeValue \<Rightarrow> bool" where
  "tv_le tv1 tv2 = tv_ge tv2 tv1"

text \<open>
  \<^verbatim>\<open>operator <\<close> and \<^verbatim>\<open>operator <=\<close> are the two relations above with their arguments swapped. They
  make the type a linear order of the library.
\<close>

instantiation TimeValue :: linorder
begin

definition less_TimeValue :: "TimeValue \<Rightarrow> TimeValue \<Rightarrow> bool" where
  "less_TimeValue = tv_lt"

definition less_eq_TimeValue :: "TimeValue \<Rightarrow> TimeValue \<Rightarrow> bool" where
  "less_eq_TimeValue = tv_le"

instance
  by standard
    (auto simp: less_TimeValue_def less_eq_TimeValue_def tv_lt_def tv_le_def tv_gt_def tv_ge_def TimeValue.expand
      split: if_splits)

end

lemma TimeValue_less_iff:
  "(a::TimeValue) < b \<longleftrightarrow> tv_sec a < tv_sec b \<or> tv_sec a = tv_sec b \<and> tv_usec a < tv_usec b"
  by (auto simp: less_TimeValue_def tv_lt_def tv_gt_def)

lemma TimeValue_le_iff:
  "(a::TimeValue) \<le> b \<longleftrightarrow> tv_sec a < tv_sec b \<or> tv_sec a = tv_sec b \<and> tv_usec a \<le> tv_usec b"
  by (auto simp: less_eq_TimeValue_def tv_le_def tv_ge_def)

lemma tv_operators:
  "tv_gt a b \<longleftrightarrow> b < a" "tv_ge a b \<longleftrightarrow> b \<le> a" "tv_lt a b \<longleftrightarrow> a < b" "tv_le a b \<longleftrightarrow> a \<le> b"
  "tv_eq a b \<longleftrightarrow> a = b" "tv_ne a b \<longleftrightarrow> a \<noteq> b"
  by (auto simp: less_TimeValue_def less_eq_TimeValue_def tv_lt_def tv_le_def tv_eq_def tv_ne_def TimeValue.expand)

subsection \<open>Normalization and arithmetic\<close>

function normalize_down :: "TimeValue \<Rightarrow> TimeValue" where
  "normalize_down t =
     (let t' = TimeValue (tv_sec t + 1) (tv_usec t - ONE_SECOND_IN_USECS)
      in if tv_usec t' \<ge> ONE_SECOND_IN_USECS then normalize_down t' else t')"
  by pat_completeness auto
termination
  by (relation "measure (\<lambda>t. nat (tv_usec t))") (auto simp: ONE_SECOND_IN_USECS_def)

function normalize_up :: "TimeValue \<Rightarrow> TimeValue" where
  "normalize_up t =
     (let t' = TimeValue (tv_sec t - 1) (tv_usec t + ONE_SECOND_IN_USECS)
      in if tv_usec t' \<le> - ONE_SECOND_IN_USECS then normalize_up t' else t')"
  by pat_completeness auto
termination
  by (relation "measure (\<lambda>t. nat (- tv_usec t))") (auto simp: ONE_SECOND_IN_USECS_def)

declare normalize_down.simps [simp del] normalize_up.simps [simp del]

definition normalize_sign :: "TimeValue \<Rightarrow> TimeValue" where
  "normalize_sign t =
     (if tv_sec t \<ge> 1 \<and> tv_usec t < 0 then TimeValue (tv_sec t - 1) (tv_usec t + ONE_SECOND_IN_USECS)
      else if tv_sec t < 0 \<and> tv_usec t > 0 then TimeValue (tv_sec t + 1) (tv_usec t - ONE_SECOND_IN_USECS)
      else t)"

definition normalize :: "TimeValue \<Rightarrow> TimeValue" where
  "normalize t =
     normalize_sign
       (if tv_usec t \<ge> ONE_SECOND_IN_USECS then normalize_down t
        else if tv_usec t \<le> - ONE_SECOND_IN_USECS then normalize_up t
        else t)"

definition tv_set :: "int \<Rightarrow> int \<Rightarrow> TimeValue" where
  "tv_set sec usec = normalize (TimeValue sec usec)"

definition tv_zero :: TimeValue where "tv_zero = tv_set 0 0"
definition tv_max_time :: TimeValue where "tv_max_time = tv_set 0x0FFFFFFF 0x0FFFFFFF"

definition tv_add_assign :: "TimeValue \<Rightarrow> TimeValue \<Rightarrow> TimeValue" where
  "tv_add_assign t tv = normalize (TimeValue (tv_sec t + tv_sec tv) (tv_usec t + tv_usec tv))"

definition tv_sub_assign :: "TimeValue \<Rightarrow> TimeValue \<Rightarrow> TimeValue" where
  "tv_sub_assign t tv = normalize (TimeValue (tv_sec t - tv_sec tv) (tv_usec t - tv_usec tv))"

definition tv_add_secs :: "TimeValue \<Rightarrow> int \<Rightarrow> TimeValue" where
  "tv_add_secs t tv = TimeValue (tv_sec t + tv) (tv_usec t)"

definition tv_sub_secs :: "TimeValue \<Rightarrow> int \<Rightarrow> TimeValue" where
  "tv_sub_secs t tv = TimeValue (tv_sec t - tv) (tv_usec t)"

definition tv_assign_secs :: "int \<Rightarrow> TimeValue" where
  "tv_assign_secs tv = TimeValue tv 0"

definition tv_add :: "TimeValue \<Rightarrow> TimeValue \<Rightarrow> TimeValue" where
  "tv_add tv1 tv2 = tv_add_assign tv1 tv2"

definition tv_sub :: "TimeValue \<Rightarrow> TimeValue \<Rightarrow> TimeValue" where
  "tv_sub tv1 tv2 = tv_sub_assign tv1 tv2"

text \<open>The prefix operators return the new value; the postfix ones also the old one.\<close>

definition tv_inc :: "TimeValue \<Rightarrow> TimeValue" where
  "tv_inc t = normalize (TimeValue (tv_sec t) (tv_usec t + 1))"

definition tv_dec :: "TimeValue \<Rightarrow> TimeValue" where
  "tv_dec t = normalize (TimeValue (tv_sec t) (tv_usec t - 1))"

definition tv_post_inc :: "TimeValue \<Rightarrow> TimeValue \<times> TimeValue" where
  "tv_post_inc t = (t, tv_inc t)"

definition tv_post_dec :: "TimeValue \<Rightarrow> TimeValue \<times> TimeValue" where
  "tv_post_dec t = (t, tv_dec t)"

subsection \<open>Milliseconds\<close>

text \<open>The division of C truncates towards zero: \<open>sdiv\<close> of the library.\<close>

definition tv_msec :: "TimeValue \<Rightarrow> u64" where
  "tv_msec t = word_of_int (tv_sec t * 1000 + tv_usec t sdiv 1000)"

definition tv_msec_ull :: "TimeValue \<Rightarrow> u64" where
  "tv_msec_ull t = word_of_int (tv_sec t) * 1000 + word_of_int (tv_usec t sdiv 1000)"

definition tv_of_msec :: "int \<Rightarrow> TimeValue" where
  "tv_of_msec milliseconds =
     (let secs = milliseconds sdiv 1000
      in TimeValue secs ((milliseconds - secs * 1000) * 1000))"

text \<open>
  \<^verbatim>\<open>to_timeval\<close> clears a local \<^verbatim>\<open>timeval\<close>, assigns its own \<^verbatim>\<open>tv_usec\<close> to itself and copies the
  seconds: the microseconds of the object are not read.
\<close>

definition to_timeval :: "TimeValue \<Rightarrow> int \<times> int" where
  "to_timeval t =
     (let usec = 0; usec = usec in (tv_sec t, usec))"

subsection \<open>The reference: whole microseconds\<close>

definition tv_total :: "TimeValue \<Rightarrow> int" where
  "tv_total t = tv_sec t * 1000000 + tv_usec t"

definition tv_normal :: "TimeValue \<Rightarrow> bool" where
  "tv_normal t \<longleftrightarrow>
     \<bar>tv_usec t\<bar> < 1000000 \<and> (tv_sec t \<ge> 1 \<longrightarrow> tv_usec t \<ge> 0) \<and> (tv_sec t < 0 \<longrightarrow> tv_usec t \<le> 0)"

lemma tv_total_TimeValue [simp]: "tv_total (TimeValue s u) = s * 1000000 + u"
  by (simp add: tv_total_def)

lemma normalize_down_spec:
  "tv_usec t \<ge> 1000000 \<Longrightarrow>
   tv_total (normalize_down t) = tv_total t \<and> 0 \<le> tv_usec (normalize_down t) \<and>
   tv_usec (normalize_down t) < 1000000"
proof (induction t rule: normalize_down.induct)
  case (1 t)
  show ?case
  proof (cases "tv_usec t - 1000000 \<ge> 1000000")
    case True
    then show ?thesis
      using 1(1) [OF refl] by (simp add: normalize_down.simps [of t] ONE_SECOND_IN_USECS_def tv_total_def)
  next
    case False
    then show ?thesis
      using 1(2) by (simp add: normalize_down.simps [of t] ONE_SECOND_IN_USECS_def tv_total_def)
  qed
qed

lemma normalize_up_spec:
  "tv_usec t \<le> - 1000000 \<Longrightarrow>
   tv_total (normalize_up t) = tv_total t \<and> tv_usec (normalize_up t) \<le> 0 \<and>
   - 1000000 < tv_usec (normalize_up t)"
proof (induction t rule: normalize_up.induct)
  case (1 t)
  show ?case
  proof (cases "tv_usec t + 1000000 \<le> - 1000000")
    case True
    then show ?thesis
      using 1(1) [OF refl] by (simp add: normalize_up.simps [of t] ONE_SECOND_IN_USECS_def tv_total_def)
  next
    case False
    then show ?thesis
      using 1(2) by (simp add: normalize_up.simps [of t] ONE_SECOND_IN_USECS_def tv_total_def)
  qed
qed

lemma normalize_sign_spec:
  "\<bar>tv_usec t\<bar> < 1000000 \<Longrightarrow> tv_total (normalize_sign t) = tv_total t \<and> tv_normal (normalize_sign t)"
  by (auto simp: normalize_sign_def tv_normal_def tv_total_def ONE_SECOND_IN_USECS_def)

lemma normalize_total [simp]: "tv_total (normalize t) = tv_total t"
  and normalize_normal [simp]: "tv_normal (normalize t)"
proof -
  let ?u = "if tv_usec t \<ge> ONE_SECOND_IN_USECS then normalize_down t
            else if tv_usec t \<le> - ONE_SECOND_IN_USECS then normalize_up t else t"
  have "tv_total ?u = tv_total t \<and> \<bar>tv_usec ?u\<bar> < 1000000"
    using normalize_down_spec [of t] normalize_up_spec [of t]
    by (auto simp: ONE_SECOND_IN_USECS_def)
  then show "tv_total (normalize t) = tv_total t" "tv_normal (normalize t)"
    using normalize_sign_spec [of ?u] by (simp_all add: normalize_def)
qed

lemma sdiv_nonneg: "0 \<le> (a::int) \<Longrightarrow> 0 \<le> b \<Longrightarrow> a sdiv b = a div b"
  by (cases "a = 0"; cases "b = 0") (simp_all add: signed_divide_int_def sgn_if)

lemma tv_normal_sdiv:
  assumes "tv_normal t"
  shows "t = TimeValue (tv_total t sdiv 1000000) (tv_total t smod 1000000)"
proof -
  obtain s u where t: "t = TimeValue s u" by (cases t)
  have "(s * 1000000 + u) sdiv 1000000 = s"
  proof (cases "s * 1000000 + u \<ge> 0")
    case True
    then have "0 \<le> s" "s = 0 \<Longrightarrow> 0 \<le> u" "1 \<le> s \<Longrightarrow> 0 \<le> u" "u < 1000000"
      using assms by (auto simp: t tv_normal_def)
    then have "0 \<le> u" by linarith
    then show ?thesis
      using True \<open>0 \<le> s\<close> \<open>u < 1000000\<close> by (simp add: sdiv_nonneg)
  next
    case False
    then have "s \<le> 0" "u \<le> 0" "-1000000 < u"
      using assms by (auto simp: t tv_normal_def)
    then have "(- s * 1000000 + - u) div 1000000 = - s"
      using div_mult_self3 [of 1000000 "- s" "- u"] by (simp add: div_pos_pos_trivial)
    moreover have "\<bar>s * 1000000 + u\<bar> = - s * 1000000 + - u"
      using False by simp
    ultimately show ?thesis
      using False by (simp add: signed_divide_int_def sgn_if)
  qed
  then show ?thesis
    using sdiv_mult_smod_eq [of "s * 1000000 + u" 1000000] by (simp add: t)
qed

lemma normalize_sdiv:
  "normalize t = TimeValue (tv_total t sdiv 1000000) (tv_total t smod 1000000)"
  using tv_normal_sdiv [OF normalize_normal [of t]] by simp

lemma tv_normal_unique: "tv_normal a \<Longrightarrow> tv_normal b \<Longrightarrow> tv_total a = tv_total b \<Longrightarrow> a = b"
  by (metis tv_normal_sdiv)

lemma normalize_id [simp]: "tv_normal t \<Longrightarrow> normalize t = t"
  by (intro tv_normal_unique) auto

lemma tv_normal_less:
  assumes "tv_normal a" "tv_normal b"
  shows "a < b \<longleftrightarrow> tv_total a < tv_total b"
  using assms unfolding TimeValue_less_iff tv_normal_def tv_total_def
  by linarith

lemma tv_normal_le: "tv_normal a \<Longrightarrow> tv_normal b \<Longrightarrow> a \<le> b \<longleftrightarrow> tv_total a \<le> tv_total b"
  by (metis linorder_not_less tv_normal_less)

lemma tv_arith_total [simp]:
  "tv_total (tv_set s u) = s * 1000000 + u" "tv_total tv_zero = 0"
  "tv_total (tv_add a b) = tv_total a + tv_total b" "tv_total (tv_sub a b) = tv_total a - tv_total b"
  "tv_total (tv_inc a) = tv_total a + 1" "tv_total (tv_dec a) = tv_total a - 1"
  by (simp_all add: tv_set_def tv_zero_def tv_add_def tv_add_assign_def tv_sub_def tv_sub_assign_def
      tv_inc_def tv_dec_def) (simp_all add: tv_total_def)

lemma tv_arith_normal [simp]:
  "tv_normal (tv_set s u)" "tv_normal tv_zero" "tv_normal (tv_add a b)" "tv_normal (tv_sub a b)"
  "tv_normal (tv_inc a)" "tv_normal (tv_dec a)"
  by (simp_all add: tv_set_def tv_zero_def tv_add_def tv_add_assign_def tv_sub_def tv_sub_assign_def
      tv_inc_def tv_dec_def)

lemma tv_zero_eq: "tv_zero = TimeValue 0 0"
  by (rule tv_normal_unique) (simp_all, simp add: tv_normal_def)

subsection \<open>Properties\<close>

text \<open>
  C28. The value \<^verbatim>\<open>normalize\<close> computes with its two loops and its sign correction is the quotient and
  the remainder of the whole number of microseconds by one million, truncated towards zero; and
  \<^verbatim>\<open>+\<close>, \<^verbatim>\<open>-\<close>, \<^verbatim>\<open>++\<close> and \<^verbatim>\<open>--\<close> add and subtract whole microseconds and return normalized values.
\<close>

theorem TimeValue_arithmetic:
  "normalize t = TimeValue (tv_total t sdiv 1000000) (tv_total t smod 1000000)
   \<and> tv_add a b = TimeValue ((tv_total a + tv_total b) sdiv 1000000) ((tv_total a + tv_total b) smod 1000000)
   \<and> tv_sub a b = TimeValue ((tv_total a - tv_total b) sdiv 1000000) ((tv_total a - tv_total b) smod 1000000)
   \<and> tv_inc a = TimeValue ((tv_total a + 1) sdiv 1000000) ((tv_total a + 1) smod 1000000)
   \<and> tv_dec a = TimeValue ((tv_total a - 1) sdiv 1000000) ((tv_total a - 1) smod 1000000)"
  using tv_normal_sdiv [of "tv_add a b"] tv_normal_sdiv [of "tv_sub a b"]
    tv_normal_sdiv [of "tv_inc a"] tv_normal_sdiv [of "tv_dec a"]
  by (simp add: normalize_sdiv)

text \<open>The comparisons of normalized values are those of their microseconds.\<close>

lemma TimeValue_order:
  assumes "tv_normal a" "tv_normal b"
  shows "(tv_gt a b \<longleftrightarrow> tv_total a > tv_total b) \<and> (tv_ge a b \<longleftrightarrow> tv_total a \<ge> tv_total b)
    \<and> (tv_eq a b \<longleftrightarrow> tv_total a = tv_total b)"
  using assms tv_normal_less tv_normal_le tv_normal_unique by (auto simp: tv_operators)

subsection \<open>Milliseconds of nonnegative times\<close>

lemma tv_normal_nonneg: "tv_normal t \<Longrightarrow> tv_zero \<le> t \<Longrightarrow> 0 \<le> tv_sec t \<and> 0 \<le> tv_usec t \<and> tv_usec t < 1000000"
  by (auto simp: tv_zero_eq TimeValue_le_iff tv_normal_def)

lemma tv_msec_nonneg:
  assumes "tv_normal t" "tv_zero \<le> t"
  shows "tv_msec t = word_of_int (tv_total t div 1000)"
proof -
  have "0 \<le> tv_usec t"
    using tv_normal_nonneg [OF assms] by simp
  then have "tv_sec t * 1000 + tv_usec t sdiv 1000 = tv_total t div 1000"
    by (simp add: sdiv_nonneg tv_total_def)
  then show ?thesis
    by (simp add: tv_msec_def)
qed

lemma tv_of_msec_total [simp]: "tv_total (tv_of_msec ms) = ms * 1000"
  by (simp add: tv_of_msec_def Let_def)

lemma tv_of_msec_normal [simp]:
  assumes "0 \<le> ms"
  shows "tv_normal (tv_of_msec ms)"
proof -
  have "ms - ms div 1000 * 1000 = ms mod 1000"
    by (rule minus_div_mult_eq_mod)
  then have "tv_of_msec ms = TimeValue (ms div 1000) (ms mod 1000 * 1000)"
    using assms by (simp only: tv_of_msec_def Let_def sdiv_nonneg zero_le_numeral)
  moreover have "0 \<le> ms mod 1000 \<and> ms mod 1000 < 1000"
    by simp
  moreover have "0 \<le> ms div 1000"
    using assms by simp
  ultimately show ?thesis
    by (simp add: tv_normal_def)
qed

lemma to_timeval_drops_usec: "to_timeval t = (tv_sec t, 0)"
  by (simp add: to_timeval_def)

end
