(* ===== verification/Timer_Node.thy ===== *)
theory Timer_Node
  imports Time_Value "HOL-Library.Monad_Syntax"
begin

section \<open>Timer nodes in memory (comLib/dhntimer/DHNTimerQueue.h, DHNTimerDefine.h)\<close>

text \<open>
  The timer wheel and its free list share nodes through raw pointers, so the model has an explicit
  memory: a partial map from addresses to nodes. Address \<open>0\<close> is \<^verbatim>\<open>NULL\<close> and is never allocated. An
  operation returns \<open>None\<close> when the C++ has no result: it dereferences \<^verbatim>\<open>NULL\<close> or a deleted node, or
  one of its loops does not end. A theorem that an operation returns \<open>Some\<close> is therefore at once a
  statement of memory safety and of termination.

  A new node has the contents its storage happens to have (\<open>raw\<close>), and addresses are not reused.
  The template parameter \<^verbatim>\<open>TYPE\<close> is \<^verbatim>\<open>DHNTimerTask*\<close>, its only instance in the sources.
\<close>

subsection \<open>Nodes and memory\<close>

type_synonym addr = nat

abbreviation (input) NULL :: addr where "NULL \<equiv> 0"

record Node =
  n_type :: addr
  n_act1 :: u64
  n_act2 :: u64
  n_timer_value :: TimeValue
  n_interval :: TimeValue
  n_prev :: addr
  n_next :: addr
  n_timer_id :: int

record Memory =
  heap :: "addr \<rightharpoonup> Node"
  brk :: addr
  raw :: "addr \<Rightarrow> Node"

definition mem_new :: "Memory \<Rightarrow> addr \<times> Memory" where
  "mem_new m = (brk m, m\<lparr>heap := (heap m)(brk m \<mapsto> raw m (brk m)), brk := Suc (brk m)\<rparr>)"

definition mem_delete :: "addr \<Rightarrow> Memory \<Rightarrow> Memory option" where
  "mem_delete p m =
     (if p = NULL then Some m
      else case heap m p of None \<Rightarrow> None | Some _ \<Rightarrow> Some (m\<lparr>heap := (heap m)(p := None)\<rparr>))"

definition mem_update :: "addr \<Rightarrow> (Node \<Rightarrow> Node) \<Rightarrow> Memory \<Rightarrow> Memory option" where
  "mem_update p f m =
     (case heap m p of None \<Rightarrow> None | Some n \<Rightarrow> Some (m\<lparr>heap := (heap m)(p \<mapsto> f n)\<rparr>))"

subsection \<open>The accessors of DHN_Timer_Node_T\<close>

definition get_type :: "addr \<Rightarrow> Memory \<Rightarrow> addr option" where
  "get_type p m = map_option n_type (heap m p)"
definition get_act1 :: "addr \<Rightarrow> Memory \<Rightarrow> u64 option" where
  "get_act1 p m = map_option n_act1 (heap m p)"
definition get_act2 :: "addr \<Rightarrow> Memory \<Rightarrow> u64 option" where
  "get_act2 p m = map_option n_act2 (heap m p)"
definition get_timer_value :: "addr \<Rightarrow> Memory \<Rightarrow> TimeValue option" where
  "get_timer_value p m = map_option n_timer_value (heap m p)"
definition get_interval :: "addr \<Rightarrow> Memory \<Rightarrow> TimeValue option" where
  "get_interval p m = map_option n_interval (heap m p)"
definition get_prev :: "addr \<Rightarrow> Memory \<Rightarrow> addr option" where
  "get_prev p m = map_option n_prev (heap m p)"
definition get_next :: "addr \<Rightarrow> Memory \<Rightarrow> addr option" where
  "get_next p m = map_option n_next (heap m p)"
definition get_timer_id :: "addr \<Rightarrow> Memory \<Rightarrow> int option" where
  "get_timer_id p m = map_option n_timer_id (heap m p)"

definition set_type :: "addr \<Rightarrow> addr \<Rightarrow> Memory \<Rightarrow> Memory option" where
  "set_type p v = mem_update p (\<lambda>n. n\<lparr>n_type := v\<rparr>)"
definition set_act1 :: "addr \<Rightarrow> u64 \<Rightarrow> Memory \<Rightarrow> Memory option" where
  "set_act1 p v = mem_update p (\<lambda>n. n\<lparr>n_act1 := v\<rparr>)"
definition set_act2 :: "addr \<Rightarrow> u64 \<Rightarrow> Memory \<Rightarrow> Memory option" where
  "set_act2 p v = mem_update p (\<lambda>n. n\<lparr>n_act2 := v\<rparr>)"
definition set_timer_value :: "addr \<Rightarrow> TimeValue \<Rightarrow> Memory \<Rightarrow> Memory option" where
  "set_timer_value p v = mem_update p (\<lambda>n. n\<lparr>n_timer_value := v\<rparr>)"
definition set_interval :: "addr \<Rightarrow> TimeValue \<Rightarrow> Memory \<Rightarrow> Memory option" where
  "set_interval p v = mem_update p (\<lambda>n. n\<lparr>n_interval := v\<rparr>)"
definition set_prev :: "addr \<Rightarrow> addr \<Rightarrow> Memory \<Rightarrow> Memory option" where
  "set_prev p v = mem_update p (\<lambda>n. n\<lparr>n_prev := v\<rparr>)"
definition set_next :: "addr \<Rightarrow> addr \<Rightarrow> Memory \<Rightarrow> Memory option" where
  "set_next p v = mem_update p (\<lambda>n. n\<lparr>n_next := v\<rparr>)"
definition set_timer_id :: "addr \<Rightarrow> int \<Rightarrow> Memory \<Rightarrow> Memory option" where
  "set_timer_id p v = mem_update p (\<lambda>n. n\<lparr>n_timer_id := v\<rparr>)"

text \<open>The two overloads of \<^verbatim>\<open>set\<close>: the singly linked one leaves \<^verbatim>\<open>prev_\<close> alone.\<close>

definition node_set1 ::
  "addr \<Rightarrow> addr \<Rightarrow> u64 \<Rightarrow> u64 \<Rightarrow> TimeValue \<Rightarrow> TimeValue \<Rightarrow> addr \<Rightarrow> int \<Rightarrow> Memory \<Rightarrow> Memory option" where
  "node_set1 this ty a1 a2 t i n timer_id =
     mem_update this (\<lambda>nd. nd\<lparr>n_type := ty, n_act1 := a1, n_act2 := a2, n_timer_value := t, n_interval := i,
       n_next := n, n_timer_id := timer_id\<rparr>)"

definition node_set ::
  "addr \<Rightarrow> addr \<Rightarrow> u64 \<Rightarrow> u64 \<Rightarrow> TimeValue \<Rightarrow> TimeValue \<Rightarrow> addr \<Rightarrow> addr \<Rightarrow> int \<Rightarrow> Memory \<Rightarrow> Memory option"
  where
  "node_set this ty a1 a2 t i p n timer_id =
     mem_update this (\<lambda>nd. nd\<lparr>n_type := ty, n_act1 := a1, n_act2 := a2, n_timer_value := t, n_interval := i,
       n_prev := p, n_next := n, n_timer_id := timer_id\<rparr>)"

lemmas node_access [model_simps] =
  get_type_def get_act1_def get_act2_def get_timer_value_def get_interval_def get_prev_def
  get_next_def get_timer_id_def set_type_def set_act1_def set_act2_def set_timer_value_def
  set_interval_def set_prev_def set_next_def set_timer_id_def node_set1_def node_set_def
  mem_update_def

subsection \<open>Circular doubly linked lists\<close>

text \<open>
  \<open>linked h xs\<close>: the nodes of \<open>xs\<close> are linked to their neighbours in both directions. A spoke of the
  wheel is a \<open>ring\<close>: from its root through its timers and back to the root.
\<close>

definition nxt :: "(addr \<rightharpoonup> Node) \<Rightarrow> addr \<Rightarrow> addr option" where "nxt h a = map_option n_next (h a)"
definition prv :: "(addr \<rightharpoonup> Node) \<Rightarrow> addr \<Rightarrow> addr option" where "prv h a = map_option n_prev (h a)"

fun linked :: "(addr \<rightharpoonup> Node) \<Rightarrow> addr list \<Rightarrow> bool" where
  "linked h (a # b # xs) \<longleftrightarrow> nxt h a = Some b \<and> prv h b = Some a \<and> linked h (b # xs)"
| "linked h _ \<longleftrightarrow> True"

definition ring :: "(addr \<rightharpoonup> Node) \<Rightarrow> addr \<Rightarrow> addr list \<Rightarrow> bool" where
  "ring h r ns \<longleftrightarrow> distinct (r # ns) \<and> linked h (r # ns @ [r])"

lemma linked_Cons: "linked h (a # xs) \<longleftrightarrow>
  (xs = [] \<or> nxt h a = Some (hd xs) \<and> prv h (hd xs) = Some a \<and> linked h xs)"
  by (cases xs) auto

lemma linked_append:
  "linked h (xs @ a # ys) \<longleftrightarrow> linked h (xs @ [a]) \<and> linked h (a # ys)"
  by (induction xs) (auto simp: linked_Cons hd_append)

lemma linked_join:
  "xs \<noteq> [] \<Longrightarrow> ys \<noteq> [] \<Longrightarrow>
   linked h (xs @ ys) \<longleftrightarrow>
     linked h xs \<and> linked h ys \<and> nxt h (List.last xs) = Some (hd ys) \<and> prv h (hd ys) = Some (List.last xs)"
  by (induction xs) (auto simp: linked_Cons hd_append)

lemma linked_cong:
  assumes "linked h xs"
    and "\<And>a. a \<in> set (butlast xs) \<Longrightarrow> nxt h' a = nxt h a"
    and "\<And>a. a \<in> set (tl xs) \<Longrightarrow> prv h' a = prv h a"
  shows "linked h' xs"
  using assms
proof (induction h xs rule: linked.induct)
  case (1 h a b xs)
  have "prv h' c = prv h c" if "c \<in> set (tl (b # xs))" for c
    using that 1(4) [of c] by simp
  then have "linked h' (b # xs)"
    using 1(1) [of] 1(2,3) by (auto split: if_splits)
  then show ?case
    using 1(2) 1(3) [of a] 1(4) [of b] by simp
qed simp_all

lemma ring_cong:
  assumes "ring h r ns"
    and "\<And>a. a \<in> insert r (set ns) \<Longrightarrow> nxt h' a = nxt h a \<and> prv h' a = prv h a"
  shows "ring h' r ns"
  using assms unfolding ring_def by (auto intro: linked_cong)

lemma linked_dom: "linked h xs \<Longrightarrow> 2 \<le> length xs \<Longrightarrow> set xs \<subseteq> dom h"
proof (induction h xs rule: linked.induct)
  case (1 h a b xs)
  then have "a \<in> dom h" "b \<in> dom h"
    by (auto simp: nxt_def prv_def)
  moreover have "set (b # xs) \<subseteq> dom h"
    using 1 \<open>b \<in> dom h\<close> by (cases xs) auto
  ultimately show ?case by simp
qed simp_all

lemma ring_dom: "ring h r ns \<Longrightarrow> insert r (set ns) \<subseteq> dom h"
  using linked_dom [of h "r # ns @ [r]"] by (auto simp: ring_def)

lemma ring_first: "ring h r ns \<Longrightarrow> nxt h r = Some (hd (ns @ [r]))"
  by (simp add: ring_def linked_Cons)

lemma ring_last: "ring h r ns \<Longrightarrow> prv h r = Some (List.last (r # ns))"
proof -
  assume "ring h r ns"
  then have "linked h ((r # ns) @ [r])" by (simp add: ring_def)
  then show ?thesis by (subst (asm) linked_join) auto
qed

lemma ring_self: "ring h r [] \<longleftrightarrow> nxt h r = Some r \<and> prv h r = Some r"
  by (simp add: ring_def)

lemma ring_at:
  assumes "ring h r (xs @ n # ys)"
  shows "prv h n = Some (List.last (r # xs))" "nxt h n = Some (hd (ys @ [r]))"
    "linked h (r # xs)" "linked h (ys @ [r])"
proof -
  have l: "linked h ((r # xs) @ [n])" and r: "linked h (n # (ys @ [r]))"
    using assms linked_append [of h "r # xs" n "ys @ [r]"] by (simp_all add: ring_def)
  show "prv h n = Some (List.last (r # xs))" "linked h (r # xs)"
    using linked_join [of "r # xs" "[n]" h] l by auto
  show "nxt h n = Some (hd (ys @ [r]))" "linked h (ys @ [r])"
    using r by (simp_all add: linked_Cons [of h n])
qed

lemma ring_split_iff:
  assumes "distinct (r # xs @ ys)"
  shows "ring h r (xs @ ys) \<longleftrightarrow>
    linked h (r # xs) \<and> linked h (ys @ [r]) \<and> nxt h (List.last (r # xs)) = Some (hd (ys @ [r]))
    \<and> prv h (hd (ys @ [r])) = Some (List.last (r # xs))"
  using assms linked_join [of "r # xs" "ys @ [r]" h] by (simp add: ring_def)

lemma ring_ends:
  assumes "distinct (r # xs @ ys)"
  shows "List.last (r # xs) \<in> set (r # xs)" "hd (ys @ [r]) \<in> set (ys @ [r])"
    "List.last (r # xs) \<notin> set (butlast (r # xs))" "hd (ys @ [r]) \<notin> set (tl (ys @ [r]))"
    "List.last (r # xs) \<notin> set ys" "hd (ys @ [r]) \<notin> set xs"
proof -
  show l: "List.last (r # xs) \<in> set (r # xs)" and h: "hd (ys @ [r]) \<in> set (ys @ [r])"
    by (rule last_in_set hd_in_set, simp)+
  show "List.last (r # xs) \<notin> set ys" "hd (ys @ [r]) \<notin> set xs"
    using assms l h by (auto simp del: last.simps)
  show "List.last (r # xs) \<notin> set (butlast (r # xs))"
    using assms append_butlast_last_id [of "r # xs"]
    by (metis distinct_append disjoint_iff list.distinct(1) list.set_intros(1) append_Cons)
  show "hd (ys @ [r]) \<notin> set (tl (ys @ [r]))"
    using assms by (cases ys) auto
qed

lemma in_set_tlD: "a \<in> set (tl xs) \<Longrightarrow> a \<in> set xs"
  by (cases xs) auto

text \<open>Taking a node out of a ring, and putting one in after a given position.\<close>

lemma ring_remove:
  assumes "ring h r (xs @ n # ys)"
    and "\<And>a. nxt h' a = (if a = List.last (r # xs) then Some (hd (ys @ [r])) else nxt h a) \<or> a = n"
    and "\<And>a. prv h' a = (if a = hd (ys @ [r]) then Some (List.last (r # xs)) else prv h a) \<or> a = n"
  shows "ring h' r (xs @ ys)"
proof -
  have d: "distinct (r # xs @ n # ys)"
    using assms(1) by (simp add: ring_def)
  then have ds: "distinct (r # xs @ ys)" "distinct (r # xs)" "distinct (ys @ [r])" "n \<notin> set (r # xs @ ys)"
    by auto
  note e = ring_ends [OF ds(1)]
  have "linked h' (r # xs)"
  proof (rule linked_cong [OF ring_at(3) [OF assms(1)]])
    fix a assume "a \<in> set (butlast (r # xs))"
    then show "nxt h' a = nxt h a"
      using assms(2) [of a] e(3) ds(4) in_set_butlastD [of a "r # xs"] by (auto simp del: last.simps)
  next
    fix a assume "a \<in> set (tl (r # xs))"
    then show "prv h' a = prv h a"
      using assms(3) [of a] e(6) ds(4) by auto
  qed
  moreover have "linked h' (ys @ [r])"
  proof (rule linked_cong [OF ring_at(4) [OF assms(1)]])
    fix a assume "a \<in> set (butlast (ys @ [r]))"
    then show "nxt h' a = nxt h a"
      using assms(2) [of a] e(5) ds(4) by (auto simp del: last.simps)
  next
    fix a assume "a \<in> set (tl (ys @ [r]))"
    then show "prv h' a = prv h a"
      using assms(3) [of a] e(4) ds(4) in_set_tlD [of a "ys @ [r]"] by (auto simp del: last.simps)
  qed
  moreover have "nxt h' (List.last (r # xs)) = Some (hd (ys @ [r]))"
    using assms(2) [of "List.last (r # xs)"] e(1) ds(4) by (auto simp del: last.simps)
  moreover have "prv h' (hd (ys @ [r])) = Some (List.last (r # xs))"
    using assms(3) [of "hd (ys @ [r])"] e(2) ds(4) by (auto simp del: last.simps)
  ultimately show ?thesis
    using ds(1) by (simp add: ring_split_iff)
qed

lemma ring_insert:
  assumes "ring h r (xs @ ys)" "n \<notin> set (r # xs @ ys)"
    and "\<And>a. nxt h' a = (if a = n then Some (hd (ys @ [r])) else if a = List.last (r # xs) then Some n else nxt h a)"
    and "\<And>a. prv h' a = (if a = n then Some (List.last (r # xs)) else if a = hd (ys @ [r]) then Some n else prv h a)"
  shows "ring h' r (xs @ n # ys)"
proof -
  have ds: "distinct (r # xs @ ys)" "distinct (r # xs)" "distinct (ys @ [r])"
    using assms(1) by (auto simp: ring_def)
  have h: "linked h (r # xs)" "linked h (ys @ [r])"
    using assms(1) ds(1) by (simp_all add: ring_split_iff)
  note e = ring_ends [OF ds(1)]
  have "linked h' (r # xs)"
  proof (rule linked_cong [OF h(1)])
    fix a assume "a \<in> set (butlast (r # xs))"
    then show "nxt h' a = nxt h a"
      using assms(2) e(3) in_set_butlastD [of a "r # xs"] by (auto simp: assms(3) simp del: last.simps)
  next
    fix a assume "a \<in> set (tl (r # xs))"
    then show "prv h' a = prv h a"
      using assms(2) e(6) by (auto simp: assms(4))
  qed
  moreover have "linked h' (ys @ [r])"
  proof (rule linked_cong [OF h(2)])
    fix a assume "a \<in> set (butlast (ys @ [r]))"
    then show "nxt h' a = nxt h a"
      using assms(2) e(5) by (auto simp: assms(3) simp del: last.simps)
  next
    fix a assume "a \<in> set (tl (ys @ [r]))"
    then show "prv h' a = prv h a"
      using assms(2) e(4) in_set_tlD [of a "ys @ [r]"] by (auto simp: assms(4) simp del: last.simps)
  qed
  moreover have "nxt h' (List.last (r # xs)) = Some n" "prv h' n = Some (List.last (r # xs))"
    "nxt h' n = Some (hd (ys @ [r]))" "prv h' (hd (ys @ [r])) = Some n"
    using assms(2) e(1,2) by (auto simp: assms(3,4) simp del: last.simps)
  ultimately have "linked h' (r # xs)" "linked h' (n # (ys @ [r]))"
    "nxt h' (List.last (r # xs)) = Some (hd (n # ys @ [r]))" "prv h' (hd (n # ys @ [r])) = Some (List.last (r # xs))"
    by (simp_all add: linked_Cons [of h' n])
  then have "linked h' ((r # xs) @ n # (ys @ [r]))"
    using linked_join [of "r # xs" "n # ys @ [r]" h'] by blast
  then show ?thesis
    using ds(1) assms(2) by (simp add: ring_def)
qed

text \<open>Two rings through the same root have the same nodes.\<close>

lemma linked_unique:
  "linked h (a # xs @ [r]) \<Longrightarrow> linked h (a # ys @ [r]) \<Longrightarrow> r \<notin> set xs \<Longrightarrow> r \<notin> set ys \<Longrightarrow> xs = ys"
proof (induction xs arbitrary: a ys)
  case Nil
  then show ?case by (cases ys) (auto simp: linked_Cons)
next
  case (Cons x xs)
  then obtain z zs where ys: "ys = z # zs"
    by (cases ys) (auto simp: linked_Cons)
  with Cons.prems have "z = x" by (auto simp: linked_Cons)
  with Cons.prems show ?case
    using Cons.IH [of x zs] by (auto simp: ys linked_Cons [of h a])
qed

lemma ring_unique: "ring h r xs \<Longrightarrow> ring h r ys \<Longrightarrow> xs = ys"
  unfolding ring_def by (auto intro: linked_unique [of h r])

end
