(* ===== verification/Free_List.thy ===== *)
theory Free_List
  imports Timer_Node
begin

section \<open>The pool of free nodes (comLib/dhntimer/Free_List.h, DHNTimerDefine.h)\<close>

text \<open>
  \<^verbatim>\<open>DHN_Locked_Free_List\<close>: unused nodes are chained through their \<^verbatim>\<open>next_\<close> pointers. The abstract
  class \<^verbatim>\<open>DHN_Free_List\<close> is the locale \<open>node_pool\<close> below, with what its comments promise as laws; the
  wheel uses the list only through them. The last member function states are related by the nodes
  that are allocated and not in the pool: \<open>remove\<close> adds one to them, \<open>add\<close> takes one away, and no
  other node changes.
\<close>

subsection \<open>The class\<close>

definition DHN_FREE_LIST_WITH_POOL :: int where "DHN_FREE_LIST_WITH_POOL = 1"
definition DHN_PURE_FREE_LIST :: int where "DHN_PURE_FREE_LIST = 2"
definition DHN_DEFAULT_FREE_LIST_PREALLOC :: nat where "DHN_DEFAULT_FREE_LIST_PREALLOC = 0"
definition DHN_DEFAULT_FREE_LIST_LWM :: nat where "DHN_DEFAULT_FREE_LIST_LWM = 0"
definition DHN_DEFAULT_FREE_LIST_HWM :: nat where "DHN_DEFAULT_FREE_LIST_HWM = 25000"
definition DHN_DEFAULT_FREE_LIST_INC :: nat where "DHN_DEFAULT_FREE_LIST_INC = 100"

lemmas free_list_constants [model_simps] =
  DHN_FREE_LIST_WITH_POOL_def DHN_PURE_FREE_LIST_def DHN_DEFAULT_FREE_LIST_PREALLOC_def
  DHN_DEFAULT_FREE_LIST_LWM_def DHN_DEFAULT_FREE_LIST_HWM_def DHN_DEFAULT_FREE_LIST_INC_def

record FreeList =
  fl_mode :: int
  fl_head :: addr
  fl_lwm :: nat
  fl_hwm :: nat
  fl_inc :: nat
  fl_size :: nat

fun fl_alloc :: "nat \<Rightarrow> FreeList \<Rightarrow> Memory \<Rightarrow> (FreeList \<times> Memory) option" where
  "fl_alloc 0 fl m = Some (fl, m)"
| "fl_alloc (Suc n) fl m =
     (let (temp, m) = mem_new m
      in do {
        m \<leftarrow> set_next temp (fl_head fl) m;
        fl_alloc n (fl\<lparr>fl_head := temp, fl_size := fl_size fl + 1\<rparr>) m
      })"

fun fl_dealloc :: "nat \<Rightarrow> FreeList \<Rightarrow> Memory \<Rightarrow> (FreeList \<times> Memory) option" where
  "fl_dealloc 0 fl m = Some (fl, m)"
| "fl_dealloc (Suc n) fl m =
     (if fl_head fl \<noteq> NULL
      then do {
        nx \<leftarrow> get_next (fl_head fl) m;
        m \<leftarrow> mem_delete (fl_head fl) m;
        fl_dealloc n (fl\<lparr>fl_head := nx, fl_size := fl_size fl - 1\<rparr>) m
      }
      else Some (fl, m))"

definition fl_new :: "int \<Rightarrow> nat \<Rightarrow> nat \<Rightarrow> nat \<Rightarrow> nat \<Rightarrow> Memory \<Rightarrow> (FreeList \<times> Memory) option" where
  "fl_new md prealloc lwm hwm inc m =
     fl_alloc prealloc
       \<lparr>fl_mode = md, fl_head = NULL, fl_lwm = lwm, fl_hwm = hwm, fl_inc = inc, fl_size = 0\<rparr> m"

definition fl_add :: "addr \<Rightarrow> FreeList \<Rightarrow> Memory \<Rightarrow> (FreeList \<times> Memory) option" where
  "fl_add element fl m =
     (if fl_mode fl = DHN_PURE_FREE_LIST \<or> fl_size fl < fl_hwm fl
      then do {
        m \<leftarrow> set_next element (fl_head fl) m;
        Some (fl\<lparr>fl_head := element, fl_size := fl_size fl + 1\<rparr>, m)
      }
      else do {
        m \<leftarrow> mem_delete element m;
        Some (fl, m)
      })"

definition fl_remove :: "FreeList \<Rightarrow> Memory \<Rightarrow> (addr \<times> FreeList \<times> Memory) option" where
  "fl_remove fl m =
     do {
       (fl, m) \<leftarrow> (if fl_mode fl \<noteq> DHN_PURE_FREE_LIST \<and> fl_size fl \<le> fl_lwm fl
                   then fl_alloc (fl_inc fl) fl m else Some (fl, m));
       let temp = fl_head fl;
       (if temp \<noteq> NULL
        then do {
          nx \<leftarrow> get_next (fl_head fl) m;
          Some (temp, fl\<lparr>fl_head := nx, fl_size := fl_size fl - 1\<rparr>, m)
        }
        else Some (temp, fl, m))
     }"

definition fl_resize :: "nat \<Rightarrow> FreeList \<Rightarrow> Memory \<Rightarrow> (FreeList \<times> Memory) option" where
  "fl_resize newsize fl m =
     (if fl_mode fl \<noteq> DHN_PURE_FREE_LIST
      then if newsize < fl_size fl then fl_dealloc (fl_size fl - newsize) fl m
           else fl_alloc (newsize - fl_size fl) fl m
      else Some (fl, m))"

text \<open>The loop of the destructor; it does not end on a cyclic chain.\<close>

partial_function (option) fl_destroy_loop :: "addr \<Rightarrow> Memory \<Rightarrow> Memory option" where
  "fl_destroy_loop p m =
     (if p \<noteq> NULL
      then do {
        nx \<leftarrow> get_next p m;
        m \<leftarrow> mem_delete p m;
        fl_destroy_loop nx m
      }
      else Some m)"

definition fl_destroy :: "FreeList \<Rightarrow> Memory \<Rightarrow> Memory option" where
  "fl_destroy fl m =
     (if fl_mode fl \<noteq> DHN_PURE_FREE_LIST then fl_destroy_loop (fl_head fl) m else Some m)"

subsection \<open>The invariant\<close>

definition mem_wf :: "Memory \<Rightarrow> bool" where
  "mem_wf m \<longleftrightarrow> 0 < brk m \<and> (\<forall>a n. heap m a = Some n \<longrightarrow> 0 < a \<and> a < brk m)"

fun chain :: "(addr \<rightharpoonup> Node) \<Rightarrow> addr \<Rightarrow> addr list \<Rightarrow> bool" where
  "chain h p [] \<longleftrightarrow> p = NULL"
| "chain h p (x # xs) \<longleftrightarrow> p = x \<and> x \<noteq> NULL \<and> (\<exists>n. h x = Some n \<and> chain h (n_next n) xs)"

definition fl_inv :: "Memory \<Rightarrow> FreeList \<Rightarrow> addr list \<Rightarrow> bool" where
  "fl_inv m fl F \<longleftrightarrow> chain (heap m) (fl_head fl) F \<and> distinct F \<and> fl_size fl = length F"

lemma chain_cong: "chain h p F \<Longrightarrow> (\<And>a. a \<in> set F \<Longrightarrow> nxt h' a = nxt h a) \<Longrightarrow> chain h' p F"
proof (induction F arbitrary: p)
  case (Cons x xs)
  then obtain n where n: "h x = Some n" "chain h (n_next n) xs" by auto
  then obtain n' where "h' x = Some n'" "n_next n' = n_next n"
    using Cons.prems(2) [of x] by (auto simp: nxt_def)
  then show ?case
    using Cons.IH [OF n(2)] Cons.prems n by auto
qed simp

lemma chain_dom: "chain h p F \<Longrightarrow> set F \<subseteq> dom h"
  by (induction F arbitrary: p) auto

lemma chain_NULL: "chain h p F \<Longrightarrow> p = NULL \<longleftrightarrow> F = []"
  by (cases F) auto

lemma fl_inv_dom: "fl_inv m fl F \<Longrightarrow> set F \<subseteq> dom (heap m)"
  unfolding fl_inv_def using chain_dom by blast

lemma fl_inv_cong:
  "fl_inv m fl F \<Longrightarrow> (\<And>a. a \<in> set F \<Longrightarrow> nxt (heap m') a = nxt (heap m) a) \<Longrightarrow> fl_inv m' fl F"
  unfolding fl_inv_def by (auto intro: chain_cong)

lemma mem_new_wf:
  assumes "mem_wf m" "mem_new m = (p, m')"
  shows "mem_wf m'" "p \<notin> dom (heap m)" "p \<noteq> NULL" "p = brk m" "brk m' = Suc (brk m)"
    "heap m' = (heap m)(p \<mapsto> raw m p)"
  using assms by (force simp: mem_new_def mem_wf_def split: if_splits)+

subsection \<open>The operations on the invariant\<close>

text \<open>\<open>same_nodes A m m'\<close>: outside the addresses \<open>A\<close> the two memories hold the same nodes.\<close>

definition same_nodes :: "addr set \<Rightarrow> Memory \<Rightarrow> Memory \<Rightarrow> bool" where
  "same_nodes A m m' \<longleftrightarrow> (\<forall>a. a \<notin> A \<longrightarrow> heap m' a = heap m a)"

lemma fl_alloc_inv:
  assumes "fl_inv m fl F" "mem_wf m"
  shows "\<exists>N m'. fl_alloc k fl m = Some (fl\<lparr>fl_head := hd (N @ F @ [NULL]), fl_size := fl_size fl + k\<rparr>, m')
    \<and> fl_inv m' (fl\<lparr>fl_head := hd (N @ F @ [NULL]), fl_size := fl_size fl + k\<rparr>) (N @ F)
    \<and> length N = k \<and> set N = {brk m..<brk m + k} \<and> mem_wf m' \<and> brk m' = brk m + k
    \<and> dom (heap m') = dom (heap m) \<union> set N \<and> same_nodes (set N) m m'"
  using assms
proof (induction k arbitrary: fl m F)
  case 0
  then have "fl\<lparr>fl_head := hd (F @ [NULL]), fl_size := fl_size fl\<rparr> = fl"
    by (cases F) (auto simp: fl_inv_def)
  with 0 show ?case by (auto simp: same_nodes_def)
next
  case (Suc k)
  obtain p m1 where new: "mem_new m = (p, m1)" by (cases "mem_new m")
  note w = mem_new_wf [OF Suc.prems(2) new]
  define m2 where "m2 = m1\<lparr>heap := (heap m)(p \<mapsto> (raw m p)\<lparr>n_next := fl_head fl\<rparr>)\<rparr>"
  have set2: "set_next p (fl_head fl) m1 = Some m2"
    by (simp add: node_access w m2_def)
  have wf2: "mem_wf m2" and brk2: "brk m2 = Suc (brk m)"
    using w by (auto simp: m2_def mem_wf_def)
  let ?fl = "fl\<lparr>fl_head := p, fl_size := fl_size fl + 1\<rparr>"
  have pF: "p \<notin> set F"
    using fl_inv_dom [OF Suc.prems(1)] w(2) by auto
  then have "chain (heap m2) (fl_head fl) F"
    using Suc.prems(1) by (auto simp: fl_inv_def m2_def nxt_def intro: chain_cong)
  then have "fl_inv m2 ?fl (p # F)"
    using Suc.prems(1) pF w(3) by (simp add: fl_inv_def m2_def)
  from Suc.IH [OF this wf2] obtain N m' where N:
    "fl_alloc k ?fl m2 = Some (?fl\<lparr>fl_head := hd (N @ (p # F) @ [NULL]), fl_size := fl_size ?fl + k\<rparr>, m')"
    "fl_inv m' (?fl\<lparr>fl_head := hd (N @ (p # F) @ [NULL]), fl_size := fl_size ?fl + k\<rparr>) (N @ p # F)"
    "length N = k" "set N = {brk m2..<brk m2 + k}" "mem_wf m'" "brk m' = brk m2 + k"
    "dom (heap m') = dom (heap m2) \<union> set N" "same_nodes (set N) m2 m'"
    by blast
  have "set (N @ [p]) = {brk m..<brk m + Suc k}"
    using N(4) w(4) brk2 by auto
  moreover have "same_nodes (set (N @ [p])) m m'"
    using N(8) by (auto simp: same_nodes_def m2_def)
  ultimately show ?case
    using N brk2 by (intro exI [of _ "N @ [p]"] exI [of _ m']) (auto simp: new set2 m2_def)
qed

lemma fl_add_inv:
  assumes "fl_inv m fl F" "mem_wf m" "a \<in> dom (heap m)" "a \<notin> set F"
  shows "\<exists>fl' m' F'. fl_add a fl m = Some (fl', m') \<and> fl_inv m' fl' F' \<and> mem_wf m' \<and> same_nodes {a} m m'
    \<and> set F' \<subseteq> insert a (set F) \<and> dom (heap m') - set F' = dom (heap m) - set F - {a}
    \<and> fl_mode fl' = fl_mode fl \<and> fl_inc fl' = fl_inc fl"
proof (cases "fl_mode fl = DHN_PURE_FREE_LIST \<or> fl_size fl < fl_hwm fl")
  case True
  obtain n where n: "heap m a = Some n" using assms(3) by auto
  define m' where "m' = m\<lparr>heap := (heap m)(a \<mapsto> n\<lparr>n_next := fl_head fl\<rparr>)\<rparr>"
  have "chain (heap m') (fl_head fl) F"
    using assms(1,4) by (auto simp: fl_inv_def m'_def nxt_def intro: chain_cong)
  moreover have "a \<noteq> NULL"
    using assms(2,3) by (auto simp: mem_wf_def)
  ultimately have "fl_inv m' (fl\<lparr>fl_head := a, fl_size := fl_size fl + 1\<rparr>) (a # F)"
    using assms(1,4) by (simp add: fl_inv_def m'_def)
  moreover have "fl_add a fl m = Some (fl\<lparr>fl_head := a, fl_size := fl_size fl + 1\<rparr>, m')"
    using True n by (simp add: fl_add_def node_access m'_def)
  moreover have "mem_wf m'" "same_nodes {a} m m'" "dom (heap m') = dom (heap m)"
    using assms(2) n by (auto simp: m'_def mem_wf_def same_nodes_def)
  ultimately show ?thesis
    using assms(4) by (intro exI [of _ "fl\<lparr>fl_head := a, fl_size := fl_size fl + 1\<rparr>"] exI [of _ m'] exI [of _ "a # F"]) auto
next
  case False
  obtain n where n: "heap m a = Some n" using assms(3) by auto
  have "a \<noteq> NULL"
    using assms(2,3) by (auto simp: mem_wf_def)
  define m' where "m' = m\<lparr>heap := (heap m)(a := None)\<rparr>"
  have "fl_inv m' fl F"
    using assms(1,4) by (auto simp: m'_def nxt_def intro: fl_inv_cong)
  moreover have "fl_add a fl m = Some (fl, m')"
    using False n \<open>a \<noteq> NULL\<close> by (simp add: fl_add_def mem_delete_def m'_def)
  moreover have "mem_wf m'" "same_nodes {a} m m'" "dom (heap m') = dom (heap m) - {a}"
    using assms(2) n by (auto simp: m'_def mem_wf_def same_nodes_def)
  ultimately show ?thesis
    by (intro exI [of _ fl] exI [of _ m'] exI [of _ F]) auto
qed

text \<open>Taking the head of a chain that is not empty.\<close>

lemma fl_take_inv:
  assumes "fl_inv m fl (x # F)" "mem_wf m"
  shows "fl_head fl = x" "x \<noteq> NULL" "get_next x m = Some (hd (F @ [NULL]))" "x \<in> dom (heap m)" "x \<notin> set F"
    "fl_inv m (fl\<lparr>fl_head := hd (F @ [NULL]), fl_size := fl_size fl - 1\<rparr>) F"
  using assms by (auto simp: fl_inv_def get_next_def chain_NULL split: list.splits) (cases F; auto)+

lemma fl_remove_inv:
  assumes "fl_inv m fl F" "mem_wf m"
    and "F \<noteq> [] \<or> fl_mode fl \<noteq> DHN_PURE_FREE_LIST \<and> 0 < fl_inc fl"
  shows "\<exists>a fl' m' F'. fl_remove fl m = Some (a, fl', m') \<and> fl_inv m' fl' F' \<and> mem_wf m'
    \<and> a \<noteq> NULL \<and> a \<in> dom (heap m') \<and> a \<notin> set F' \<and> a \<notin> dom (heap m) - set F
    \<and> dom (heap m') - set F' = insert a (dom (heap m) - set F)
    \<and> set F' \<inter> (dom (heap m) - set F) = {} \<and> same_nodes (- dom (heap m)) m m'
    \<and> fl_mode fl' = fl_mode fl \<and> fl_inc fl' = fl_inc fl"
proof -
  let ?low = "fl_mode fl \<noteq> DHN_PURE_FREE_LIST \<and> fl_size fl \<le> fl_lwm fl"
  have "\<exists>fl1 m1 G. (if ?low then fl_alloc (fl_inc fl) fl m else Some (fl, m)) = Some (fl1, m1)
    \<and> fl_inv m1 fl1 G \<and> mem_wf m1 \<and> G \<noteq> [] \<and> dom (heap m1) - set G = dom (heap m) - set F
    \<and> same_nodes (- dom (heap m)) m m1 \<and> fl_mode fl1 = fl_mode fl \<and> fl_inc fl1 = fl_inc fl"
  proof (cases ?low)
    case True
    obtain N m' where N:
      "fl_alloc (fl_inc fl) fl m =
         Some (fl\<lparr>fl_head := hd (N @ F @ [NULL]), fl_size := fl_size fl + fl_inc fl\<rparr>, m')"
      "fl_inv m' (fl\<lparr>fl_head := hd (N @ F @ [NULL]), fl_size := fl_size fl + fl_inc fl\<rparr>) (N @ F)"
      "length N = fl_inc fl" "set N = {brk m..<brk m + fl_inc fl}" "mem_wf m'"
      "dom (heap m') = dom (heap m) \<union> set N" "same_nodes (set N) m m'"
      using fl_alloc_inv [OF assms(1,2)] by blast
    have "dom (heap m) \<inter> set N = {}"
      using assms(2) N(4) by (force simp: mem_wf_def)
    moreover have "N @ F \<noteq> []"
      using assms(3) True N(3) by (cases "fl_inc fl") auto
    moreover have "same_nodes (- dom (heap m)) m m'"
      using \<open>dom (heap m) \<inter> set N = {}\<close> N(7) by (force simp: same_nodes_def)
    ultimately show ?thesis
      using True N by (intro exI [of _ m'] exI [of _ "N @ F"] exI) auto
  next
    case False
    then have "F \<noteq> []"
      using assms(1,3) by (auto simp: fl_inv_def)
    then show ?thesis
      using False assms by (auto simp: same_nodes_def)
  qed
  then obtain fl1 m1 x F' where g: "(if ?low then fl_alloc (fl_inc fl) fl m else Some (fl, m)) = Some (fl1, m1)"
    "fl_inv m1 fl1 (x # F')" "mem_wf m1" "dom (heap m1) - set (x # F') = dom (heap m) - set F"
    "same_nodes (- dom (heap m)) m m1" "fl_mode fl1 = fl_mode fl" "fl_inc fl1 = fl_inc fl"
    by (metis neq_Nil_conv)
  note t = fl_take_inv [OF g(2,3)]
  have "fl_remove fl m = Some (x, fl1\<lparr>fl_head := hd (F' @ [NULL]), fl_size := fl_size fl1 - 1\<rparr>, m1)"
    using t(1,2,3) by (simp add: fl_remove_def g(1) Let_def)
  moreover have "dom (heap m1) - set F' = insert x (dom (heap m) - set F)" "x \<notin> dom (heap m) - set F"
    "set F' \<inter> (dom (heap m) - set F) = {}"
    using t(4,5) g(4) by auto
  ultimately show ?thesis
    using t(2,4,5,6) g(3,5-7)
    by (intro exI [of _ x] exI [of _ m1] exI [of _ F']
        exI [of _ "fl1\<lparr>fl_head := hd (F' @ [NULL]), fl_size := fl_size fl1 - 1\<rparr>"]) simp
qed

lemma fl_dealloc_inv:
  assumes "fl_inv m fl F" "mem_wf m"
  shows "\<exists>fl' m'. fl_dealloc k fl m = Some (fl', m') \<and> fl_inv m' fl' (drop k F) \<and> mem_wf m'
    \<and> dom (heap m') = dom (heap m) - set (take k F) \<and> same_nodes (set F) m m'
    \<and> fl_mode fl' = fl_mode fl \<and> fl_inc fl' = fl_inc fl"
  using assms
proof (induction k arbitrary: fl m F)
  case 0
  then show ?case by (auto simp: same_nodes_def)
next
  case (Suc k)
  show ?case
  proof (cases F)
    case Nil
    then show ?thesis
      using Suc.prems by (auto simp: fl_inv_def same_nodes_def)
  next
    case (Cons x G)
    note t = fl_take_inv [OF Suc.prems(1) [unfolded Cons] Suc.prems(2)]
    define m1 where "m1 = m\<lparr>heap := (heap m)(x := None)\<rparr>"
    have "mem_delete x m = Some m1" and wf: "mem_wf m1"
      using t(2,4) Suc.prems(2) by (auto simp: mem_delete_def m1_def mem_wf_def)
    let ?fl = "fl\<lparr>fl_head := hd (G @ [NULL]), fl_size := fl_size fl - 1\<rparr>"
    have inv: "fl_inv m1 ?fl G"
      by (rule fl_inv_cong [OF t(6)]) (use t(5) in \<open>auto simp: m1_def nxt_def\<close>)
    obtain fl' m' where "fl_dealloc k ?fl m1 = Some (fl', m')" "fl_inv m' fl' (drop k G)" "mem_wf m'"
      "dom (heap m') = dom (heap m1) - set (take k G)" "same_nodes (set G) m1 m'"
      "fl_mode fl' = fl_mode fl" "fl_inc fl' = fl_inc fl"
      using Suc.IH [OF inv wf] by auto
    then show ?thesis
      using t(1,2,3) \<open>mem_delete x m = Some m1\<close>
      by (intro exI [of _ fl'] exI [of _ m']) (auto simp: Cons m1_def same_nodes_def)
  qed
qed

lemma fl_resize_inv:
  assumes "fl_inv m fl F" "mem_wf m"
  shows "\<exists>fl' m' F'. fl_resize k fl m = Some (fl', m') \<and> fl_inv m' fl' F' \<and> mem_wf m'
    \<and> dom (heap m') - set F' = dom (heap m) - set F \<and> same_nodes (set F \<union> - dom (heap m)) m m'
    \<and> fl_mode fl' = fl_mode fl \<and> fl_inc fl' = fl_inc fl
    \<and> (fl_mode fl \<noteq> DHN_PURE_FREE_LIST \<longrightarrow> fl_size fl' = k)"
proof (cases "fl_mode fl \<noteq> DHN_PURE_FREE_LIST")
  case False
  then show ?thesis
    using assms by (auto simp: fl_resize_def same_nodes_def)
next
  case pool: True
  have dF: "set F \<subseteq> dom (heap m)" "length F = fl_size fl" "distinct F"
    using fl_inv_dom [OF assms(1)] assms(1) by (auto simp: fl_inv_def)
  show ?thesis
  proof (cases "k < fl_size fl")
    case True
    let ?d = "fl_size fl - k"
    obtain fl' m' where d: "fl_dealloc ?d fl m = Some (fl', m')" "fl_inv m' fl' (drop ?d F)" "mem_wf m'"
      "dom (heap m') = dom (heap m) - set (take ?d F)" "same_nodes (set F) m m'"
      "fl_mode fl' = fl_mode fl" "fl_inc fl' = fl_inc fl"
      using fl_dealloc_inv [OF assms] by blast
    have "set F = set (take ?d F) \<union> set (drop ?d F)"
      by (metis append_take_drop_id set_append)
    then have "dom (heap m') - set (drop ?d F) = dom (heap m) - set F"
      using d(4) by auto
    moreover have "fl_size fl' = k"
      using d(2) dF(2) True by (simp add: fl_inv_def)
    ultimately show ?thesis
      using d pool True by (intro exI [of _ fl'] exI [of _ m'] exI [of _ "drop ?d F"])
        (auto simp: fl_resize_def same_nodes_def)
  next
    case False
    let ?d = "k - fl_size fl"
    obtain N m' where N:
      "fl_alloc ?d fl m = Some (fl\<lparr>fl_head := hd (N @ F @ [NULL]), fl_size := fl_size fl + ?d\<rparr>, m')"
      "fl_inv m' (fl\<lparr>fl_head := hd (N @ F @ [NULL]), fl_size := fl_size fl + ?d\<rparr>) (N @ F)"
      "set N = {brk m..<brk m + ?d}" "mem_wf m'"
      "dom (heap m') = dom (heap m) \<union> set N" "same_nodes (set N) m m'"
      using fl_alloc_inv [OF assms] by blast
    have "dom (heap m) \<inter> set N = {}"
      using assms(2) N(3) by (force simp: mem_wf_def)
    then have "dom (heap m') - set (N @ F) = dom (heap m) - set F" "same_nodes (set F \<union> - dom (heap m)) m m'"
      using N(5,6) by (auto simp: same_nodes_def)
    then show ?thesis
      using N pool False
      by (intro exI [of _ m'] exI [of _ "N @ F"] exI) (auto simp: fl_resize_def)
  qed
qed

text \<open>The destructor returns every pooled node, and only those, to the system.\<close>

lemma fl_destroy_loop_inv:
  assumes "chain (heap m) p F" "distinct F" "mem_wf m"
  shows "\<exists>m'. fl_destroy_loop p m = Some m' \<and> dom (heap m') = dom (heap m) - set F \<and> same_nodes (set F) m m'
    \<and> mem_wf m'"
  using assms
proof (induction F arbitrary: p m)
  case Nil
  then show ?case by (simp add: fl_destroy_loop.simps same_nodes_def)
next
  case (Cons x G)
  then obtain n where n: "heap m x = Some n" "chain (heap m) (n_next n) G" "p = x" "x \<noteq> NULL" by auto
  define m1 where "m1 = m\<lparr>heap := (heap m)(x := None)\<rparr>"
  have "chain (heap m1) (n_next n) G"
    using Cons.prems(2) by (auto simp: m1_def nxt_def intro: chain_cong [OF n(2)])
  moreover have "mem_wf m1"
    using Cons.prems(3) by (auto simp: m1_def mem_wf_def)
  ultimately obtain m' where "fl_destroy_loop (n_next n) m1 = Some m'"
    "dom (heap m') = dom (heap m1) - set G" "same_nodes (set G) m1 m'" "mem_wf m'"
    using Cons.IH [of m1 "n_next n"] Cons.prems(2) by auto
  then show ?case
    using n by (auto simp: fl_destroy_loop.simps [of x] get_next_def mem_delete_def m1_def same_nodes_def)
qed

lemma fl_destroy_inv:
  assumes "fl_inv m fl F" "mem_wf m" "fl_mode fl \<noteq> DHN_PURE_FREE_LIST"
  shows "\<exists>m'. fl_destroy fl m = Some m' \<and> dom (heap m') = dom (heap m) - set F \<and> same_nodes (set F) m m'
    \<and> mem_wf m'"
  using assms fl_destroy_loop_inv by (auto simp: fl_destroy_def fl_inv_def)

subsection \<open>The interface DHN_Free_List\<close>

text \<open>
  \<open>pool m p F\<close>: in memory \<open>m\<close> the pool \<open>p\<close> is well formed and holds the nodes \<open>F\<close>. \<open>can_supply p\<close>: it can
  always provide a node.
\<close>

locale node_pool =
  fixes pool :: "Memory \<Rightarrow> 'p \<Rightarrow> addr list \<Rightarrow> bool"
    and can_supply :: "'p \<Rightarrow> bool"
    and pool_add :: "addr \<Rightarrow> 'p \<Rightarrow> Memory \<Rightarrow> ('p \<times> Memory) option"
    and pool_remove :: "'p \<Rightarrow> Memory \<Rightarrow> (addr \<times> 'p \<times> Memory) option"
  assumes add_law: "\<lbrakk>pool m p F; mem_wf m; a \<in> dom (heap m); a \<notin> set F\<rbrakk> \<Longrightarrow>
      \<exists>p' m' F'. pool_add a p m = Some (p', m') \<and> pool m' p' F' \<and> mem_wf m' \<and> same_nodes {a} m m'
        \<and> set F' \<subseteq> insert a (set F) \<and> dom (heap m') - set F' = dom (heap m) - set F - {a}
        \<and> (can_supply p \<longrightarrow> can_supply p')"
    and remove_law: "\<lbrakk>pool m p F; mem_wf m; can_supply p\<rbrakk> \<Longrightarrow>
      \<exists>a p' m' F'. pool_remove p m = Some (a, p', m') \<and> pool m' p' F' \<and> mem_wf m'
        \<and> a \<noteq> NULL \<and> a \<in> dom (heap m') \<and> a \<notin> set F' \<and> a \<notin> dom (heap m) - set F
        \<and> dom (heap m') - set F' = insert a (dom (heap m) - set F)
        \<and> same_nodes (- dom (heap m)) m m' \<and> can_supply p'"
    and pool_dom: "pool m p F \<Longrightarrow> set F \<subseteq> dom (heap m) \<and> distinct F"
    and pool_cong: "\<lbrakk>pool m p F; \<And>a. a \<in> set F \<Longrightarrow> heap m' a = heap m a\<rbrakk> \<Longrightarrow> pool m' p F"
begin

text \<open>A node that is given out and returned leaves the nodes in use as they were.\<close>

lemma remove_add:
  assumes "pool m p F" "mem_wf m" "can_supply p" "pool_remove p m = Some (a, p1, m1)"
  shows "\<exists>p' m' F'. pool_add a p1 m1 = Some (p', m') \<and> pool m' p' F' \<and> mem_wf m'
    \<and> dom (heap m') - set F' = dom (heap m) - set F \<and> (\<forall>x \<in> dom (heap m) - set F. heap m' x = heap m x)"
proof -
  obtain F1 where r: "pool m1 p1 F1" "mem_wf m1" "a \<in> dom (heap m1)" "a \<notin> set F1" "a \<notin> dom (heap m) - set F"
    "dom (heap m1) - set F1 = insert a (dom (heap m) - set F)" "same_nodes (- dom (heap m)) m m1"
    using remove_law [OF assms(1-3)] unfolding assms(4) option.inject prod.inject by blast
  obtain p' m' F' where "pool_add a p1 m1 = Some (p', m')" "pool m' p' F'" "mem_wf m'" "same_nodes {a} m1 m'"
    "dom (heap m') - set F' = dom (heap m1) - set F1 - {a}"
    using add_law [OF r(1-4)] by (elim exE conjE) (rule that)
  moreover have "\<forall>x \<in> dom (heap m) - set F. heap m' x = heap m x"
  proof
    fix x assume "x \<in> dom (heap m) - set F"
    then have "x \<noteq> a" "x \<in> dom (heap m)" using r(5) by auto
    then show "heap m' x = heap m x"
      using r(7) \<open>same_nodes {a} m1 m'\<close> by (simp add: same_nodes_def)
  qed
  moreover have "dom (heap m1) - set F1 - {a} = dom (heap m) - set F"
    using r(5,6) by auto
  ultimately show ?thesis
    by auto
qed

end

definition fl_supply :: "FreeList \<Rightarrow> bool" where
  "fl_supply fl \<longleftrightarrow> fl_mode fl \<noteq> DHN_PURE_FREE_LIST \<and> 0 < fl_inc fl"

interpretation locked: node_pool fl_inv fl_supply fl_add fl_remove
proof unfold_locales
  fix m p F and a :: addr
  assume "fl_inv m p F" "mem_wf m" "a \<in> dom (heap m)" "a \<notin> set F"
  from fl_add_inv [OF this]
  show "\<exists>p' m' F'. fl_add a p m = Some (p', m') \<and> fl_inv m' p' F' \<and> mem_wf m' \<and> same_nodes {a} m m'
        \<and> set F' \<subseteq> insert a (set F) \<and> dom (heap m') - set F' = dom (heap m) - set F - {a}
        \<and> (fl_supply p \<longrightarrow> fl_supply p')"
    unfolding fl_supply_def by metis
next
  fix m p F
  assume "fl_inv m p F" "mem_wf m" "fl_supply p"
  then show "\<exists>a p' m' F'. fl_remove p m = Some (a, p', m') \<and> fl_inv m' p' F' \<and> mem_wf m'
        \<and> a \<noteq> NULL \<and> a \<in> dom (heap m') \<and> a \<notin> set F' \<and> a \<notin> dom (heap m) - set F
        \<and> dom (heap m') - set F' = insert a (dom (heap m) - set F)
        \<and> same_nodes (- dom (heap m)) m m' \<and> fl_supply p'"
    using fl_remove_inv [of m p F] unfolding fl_supply_def by metis
next
  fix m p F
  assume "fl_inv m p F"
  then show "set F \<subseteq> dom (heap m) \<and> distinct F"
    using fl_inv_dom by (simp add: fl_inv_def)
next
  fix m m' :: Memory and p F
  assume "fl_inv m p F" "\<And>a. a \<in> set F \<Longrightarrow> heap m' a = heap m a"
  then show "fl_inv m' p F"
    by (auto simp: nxt_def intro: fl_inv_cong)
qed

end
