(* ===== verification/Timer_Wheel.thy ===== *)
theory Timer_Wheel
  imports Free_List
begin

section \<open>The timer wheel (comLib/dhntimer/DHNTimerWheel.h): operations\<close>

text \<open>
  \<^verbatim>\<open>TimerWheel\<close> extends \<^verbatim>\<open>TimerQueue\<close>, as the record below does: the base class owns the pool of
  nodes, the wheel an array of root nodes, each the start of a circular list of timers. A \<^verbatim>\<open>long\<close> has
  64 bits and an \<^verbatim>\<open>int\<close> 32; \<open>to_int\<close> and \<open>to_long\<close> are the conversions. \<^verbatim>\<open>timer_count_\<close> wraps at 32
  bits. The clock is an argument of the operations that read it.
\<close>

subsection \<open>State\<close>

record TimerQueue =
  tq_mem :: Memory
  tq_free :: FreeList

record TimerWheel = TimerQueue +
  spokes :: "addr list"
  spoke_count :: nat
  spoke_bits :: nat
  res_bits :: nat
  earliest_spoke :: nat
  wheel_time :: TimeValue
  timer_count :: u32

definition to_int :: "int \<Rightarrow> int" where "to_int x = signed_take_bit 31 x"
definition to_long :: "int \<Rightarrow> int" where "to_long x = signed_take_bit 63 x"

text \<open>Indexing the array \<^verbatim>\<open>spokes_\<close>.\<close>

definition spoke_at :: "nat \<Rightarrow> TimerWheel \<Rightarrow> addr option" where
  "spoke_at i w = (if i < length (spokes w) then Some (spokes w ! i) else None)"

definition alloc_node :: "TimerWheel \<Rightarrow> (addr \<times> TimerWheel) option" where
  "alloc_node w =
     do {
       (n, fl, m) \<leftarrow> fl_remove (tq_free w) (tq_mem w);
       Some (n, w\<lparr>tq_free := fl, tq_mem := m\<rparr>)
     }"

definition free_node :: "addr \<Rightarrow> TimerWheel \<Rightarrow> TimerWheel option" where
  "free_node node w =
     do {
       (fl, m) \<leftarrow> fl_add node (tq_free w) (tq_mem w);
       Some (w\<lparr>tq_free := fl, tq_mem := m\<rparr>)
     }"

subsection \<open>Construction\<close>

text \<open>
  \<open>bit_count\<close> is the loop of \<^verbatim>\<open>power2bits\<close>: shifting a negative \<^verbatim>\<open>int\<close> right never reaches zero, and
  the loop then does not end.
\<close>

partial_function (option) bit_count :: "int \<Rightarrow> nat \<Rightarrow> nat option" where
  "bit_count tmp i =
     (let tmp = drop_bit 1 tmp; i = i + 1
      in if tmp \<noteq> 0 then bit_count tmp i else Some i)"

definition power2bits :: "int \<Rightarrow> nat \<Rightarrow> nat \<Rightarrow> nat option" where
  "power2bits n min_bits max_bits =
     (if n > 2 ^ max_bits - 1 then Some max_bits
      else do {
        i \<leftarrow> bit_count n 0;
        if i \<le> min_bits then Some min_bits
        else let a = 2 ^ i - n;
                 b = 2 ^ (i - 1) - n;
                 b = (if b < 0 then - b else b)
             in if b < a then Some (i - 1) else Some i
      })"

fun make_roots :: "nat \<Rightarrow> TimerWheel \<Rightarrow> TimerWheel option" where
  "make_roots 0 w = Some w"
| "make_roots (Suc k) w =
     do {
       (root, w) \<leftarrow> alloc_node w;
       m \<leftarrow> node_set root NULL 0 0 tv_zero tv_zero root root 0 (tq_mem w);
       make_roots k (w\<lparr>tq_mem := m, spokes := spokes w @ [root]\<rparr>)
     }"

definition open_i :: "int \<Rightarrow> u32 \<Rightarrow> u32 \<Rightarrow> TimerWheel \<Rightarrow> TimerWheel option" where
  "open_i prealloc n_spokes res w =
     do {
       sb \<leftarrow> power2bits (sint n_spokes) 3 12;
       rb \<leftarrow> power2bits (sint res) 1 20;
       let w = w\<lparr>spoke_bits := sb, res_bits := rb, spoke_count := 2 ^ sb\<rparr>;
       (fl, m) \<leftarrow> fl_resize (unat (word_of_int prealloc + word_of_nat (spoke_count w) :: u32)) (tq_free w) (tq_mem w);
       make_roots (spoke_count w)
         (w\<lparr>tq_free := fl, tq_mem := m, wheel_time := tv_of_msec (2 ^ rb), spokes := []\<rparr>)
     }"

definition TimerWheel_new :: "u32 \<Rightarrow> u32 \<Rightarrow> int \<Rightarrow> FreeList \<Rightarrow> Memory \<Rightarrow> TimerWheel option" where
  "TimerWheel_new n_spokes res prealloc fl m =
     open_i prealloc n_spokes res
       \<lparr>tq_mem = m, tq_free = fl, spokes = [], spoke_count = 0, spoke_bits = 0, res_bits = 0,
        earliest_spoke = 0, wheel_time = TimeValue 0 0, timer_count = 0\<rparr>"

subsection \<open>Queries\<close>

definition wheel_is_empty :: "TimerWheel \<Rightarrow> bool" where
  "wheel_is_empty w \<longleftrightarrow> timer_count w = 0"

definition get_first_i :: "TimerWheel \<Rightarrow> addr option" where
  "get_first_i w =
     do {
       root \<leftarrow> spoke_at (earliest_spoke w) w;
       first \<leftarrow> get_next root (tq_mem w);
       if first \<noteq> root then Some first else Some NULL
     }"

definition get_first :: "TimerWheel \<Rightarrow> addr option" where
  "get_first w = get_first_i w"

definition earliest_time :: "TimerWheel \<Rightarrow> TimeValue option" where
  "earliest_time w =
     do {
       n \<leftarrow> get_first_i w;
       if n \<noteq> NULL then get_timer_value n (tq_mem w) else Some tv_zero
     }"

definition calculate_spoke :: "TimeValue \<Rightarrow> TimerWheel \<Rightarrow> nat" where
  "calculate_spoke t w =
     (let ulTime = tv_msec t
      in unat (ucast (drop_bit (res_bits w) ulTime AND (word_of_nat (spoke_count w) - 1)) :: u32))"

partial_function (option) find_from :: "addr \<Rightarrow> int \<Rightarrow> addr \<Rightarrow> Memory \<Rightarrow> addr option" where
  "find_from root timer_id n m =
     (if n \<noteq> root
      then do {
        i \<leftarrow> get_timer_id n m;
        if i = timer_id then Some n
        else do { nx \<leftarrow> get_next n m; find_from root timer_id nx m }
      }
      else Some NULL)"

definition find_spoke_node :: "nat \<Rightarrow> int \<Rightarrow> TimerWheel \<Rightarrow> addr option" where
  "find_spoke_node spoke timer_id w =
     do {
       root \<leftarrow> spoke_at spoke w;
       n \<leftarrow> get_next root (tq_mem w);
       find_from root timer_id n (tq_mem w)
     }"

fun find_rest :: "nat list \<Rightarrow> nat \<Rightarrow> int \<Rightarrow> TimerWheel \<Rightarrow> addr option" where
  "find_rest [] start timer_id w = Some NULL"
| "find_rest (i # is) start timer_id w =
     (if i \<noteq> start
      then do {
        n \<leftarrow> find_spoke_node i timer_id w;
        if n \<noteq> NULL then Some n else find_rest is start timer_id w
      }
      else find_rest is start timer_id w)"

definition find_node :: "int \<Rightarrow> TimerWheel \<Rightarrow> addr option" where
  "find_node timer_id w =
     (if timer_id = -1 then Some NULL
      else let start = unat (word_of_int timer_id AND (word_of_nat (spoke_count w) - 1) :: u32)
           in do {
             n \<leftarrow> find_spoke_node start timer_id w;
             if n \<noteq> NULL then Some n
             else find_rest [0..<spoke_count w] start timer_id w
           })"

subsection \<open>Linking and unlinking\<close>

definition unlink :: "addr \<Rightarrow> TimerWheel \<Rightarrow> TimerWheel option" where
  "unlink n w =
     do {
       let w = w\<lparr>timer_count := timer_count w - 1\<rparr>;
       let m = tq_mem w;
       p \<leftarrow> get_prev n m;
       q \<leftarrow> get_next n m;
       m \<leftarrow> set_next p q m;
       q \<leftarrow> get_next n m;
       p \<leftarrow> get_prev n m;
       m \<leftarrow> set_prev q p m;
       m \<leftarrow> set_prev n NULL m;
       m \<leftarrow> set_next n NULL m;
       Some (w\<lparr>tq_mem := m\<rparr>)
     }"

definition cancel_i :: "addr \<Rightarrow> TimerWheel \<Rightarrow> TimerWheel option" where
  "cancel_i n w = do { w \<leftarrow> unlink n w; free_node n w }"

text \<open>
  The loop of \<^verbatim>\<open>recalc_earliest\<close>: \<open>k\<close> spokes are left to visit. \<open>Inl spoke\<close> is the early return, \<open>Inr es\<close>
  the end of the loop.
\<close>

fun recalc_loop ::
  "nat \<Rightarrow> TimeValue \<Rightarrow> TimerWheel \<Rightarrow> nat \<Rightarrow> TimeValue \<Rightarrow> nat \<Rightarrow> (nat + nat) option" where
  "recalc_loop 0 last_tv w spoke et es = Some (Inr es)"
| "recalc_loop (Suc k) last_tv w spoke et es =
     do {
       root \<leftarrow> spoke_at spoke w;
       n \<leftarrow> get_next root (tq_mem w);
       let spoke' = (if spoke + 1 \<ge> spoke_count w then 0 else spoke + 1);
       if n \<noteq> root
       then do {
         t \<leftarrow> get_timer_value n (tq_mem w);
         if t < tv_add last_tv (wheel_time w) then Some (Inl spoke)
         else if et = tv_zero \<or> t < et then recalc_loop k last_tv w spoke' t spoke
         else recalc_loop k last_tv w spoke' et es
       }
       else recalc_loop k last_tv w spoke' et es
     }"

definition recalc_earliest :: "TimeValue \<Rightarrow> TimerWheel \<Rightarrow> TimerWheel option" where
  "recalc_earliest last_tv w =
     (if wheel_is_empty w then Some w
      else do {
        r \<leftarrow> recalc_loop (spoke_count w) last_tv w (earliest_spoke w) tv_zero 0;
        case r of
          Inl spoke \<Rightarrow> Some (w\<lparr>earliest_spoke := spoke\<rparr>)
        | Inr es \<Rightarrow> Some (w\<lparr>earliest_spoke := es\<rparr>)
      })"

text \<open>
  \<^verbatim>\<open>cancel_timer\<close> returns 1 and the two arguments of the timer, or 0 and leaves the caller's
  variables alone (\<open>None\<close>).
\<close>

definition cancel_timer :: "int \<Rightarrow> TimerWheel \<Rightarrow> (int \<times> (u64 \<times> u64) option \<times> TimerWheel) option" where
  "cancel_timer timer_id w =
     do {
       n \<leftarrow> find_node timer_id w;
       if n \<noteq> NULL
       then do {
         last_tv \<leftarrow> get_timer_value n (tq_mem w);
         f \<leftarrow> get_first_i w;
         let recalc = (f = n);
         a1 \<leftarrow> get_act1 n (tq_mem w);
         a2 \<leftarrow> get_act2 n (tq_mem w);
         w \<leftarrow> cancel_i n w;
         w \<leftarrow> (if recalc then recalc_earliest last_tv w else Some w);
         Some (1, Some (a1, a2), w)
       }
       else Some (0, None, w)
     }"

subsection \<open>Timer identifiers\<close>

text \<open>
  The scan for the next count in use starts from \<^verbatim>\<open>n\<close>, which is \<^verbatim>\<open>NULL\<close> where the code starts it.
\<close>

partial_function (option) next_cnt_scan :: "addr \<Rightarrow> nat \<Rightarrow> int \<Rightarrow> addr \<Rightarrow> int \<Rightarrow> Memory \<Rightarrow> int option" where
  "next_cnt_scan root bits cnt n next_cnt m =
     (if n \<noteq> root
      then do {
        i \<leftarrow> get_timer_id n m;
        let tmp = drop_bit bits i;
        nx \<leftarrow> get_next n m;
        next_cnt_scan root bits cnt nx
          (if tmp > cnt \<and> (tmp < next_cnt \<or> next_cnt = 0) then tmp else next_cnt) m
      }
      else Some next_cnt)"

function search_id :: "nat \<Rightarrow> addr \<Rightarrow> int \<Rightarrow> int \<Rightarrow> TimerWheel \<Rightarrow> (int \<times> TimerWheel) option" where
  "search_id spoke root max_cnt cnt w =
     (if cnt < max_cnt - 1
      then let tid = to_long (push_bit (spoke_bits w) cnt OR int spoke)
           in do {
             n \<leftarrow> find_spoke_node spoke tid w;
             if n = NULL
             then do {
               m \<leftarrow> set_timer_id root (cnt + 1) (tq_mem w);
               next_cnt \<leftarrow> next_cnt_scan root (spoke_bits w) cnt n 0 m;
               m \<leftarrow> set_act1 root (word_of_int next_cnt) m;
               Some (tid, w\<lparr>tq_mem := m\<rparr>)
             }
             else search_id spoke root max_cnt (cnt + 1) w
           }
      else Some (-1, w))"
  by pat_completeness auto
termination
  by (relation "measure (\<lambda>(_, _, max_cnt, cnt, _). nat (max_cnt - cnt))") auto

declare search_id.simps [simp del]

definition generate_timer_id :: "nat \<Rightarrow> TimerWheel \<Rightarrow> (int \<times> TimerWheel) option" where
  "generate_timer_id spoke w =
     do {
       let cnt_bits = 64 - spoke_bits w;
       let max_cnt = to_long (push_bit cnt_bits 1) - 1;
       let max_cnt = (if spoke = spoke_count w then max_cnt - 1 else max_cnt);
       root \<leftarrow> spoke_at spoke w;
       nx \<leftarrow> get_next root (tq_mem w);
       m \<leftarrow> (if root = nx then set_act1 root 0 (tq_mem w) else Some (tq_mem w));
       a1 \<leftarrow> get_act1 root m;
       let next_cnt = sint a1;
       cnt \<leftarrow> get_timer_id root m;
       nx \<leftarrow> get_next root m;
       if cnt \<ge> max_cnt \<and> root = nx
       then do { m \<leftarrow> set_timer_id root 1 m; Some (int spoke, w\<lparr>tq_mem := m\<rparr>) }
       else if cnt \<ge> max_cnt then search_id spoke root max_cnt 0 (w\<lparr>tq_mem := m\<rparr>)
       else if next_cnt = 0 \<or> cnt < next_cnt
       then do {
         m \<leftarrow> set_timer_id root (cnt + 1) m;
         Some (to_int (push_bit (spoke_bits w) cnt OR int spoke), w\<lparr>tq_mem := m\<rparr>)
       }
       else search_id spoke root max_cnt cnt (w\<lparr>tq_mem := m\<rparr>)
     }"

subsection \<open>Scheduling\<close>

partial_function (option) walk_back :: "addr \<Rightarrow> TimeValue \<Rightarrow> addr \<Rightarrow> Memory \<Rightarrow> addr option" where
  "walk_back root expire p m =
     (if p \<noteq> root
      then do {
        t \<leftarrow> get_timer_value p m;
        if t > expire then do { q \<leftarrow> get_prev p m; walk_back root expire q m }
        else Some p
      }
      else Some p)"

definition schedule_node :: "addr \<Rightarrow> nat \<Rightarrow> TimeValue \<Rightarrow> TimerWheel \<Rightarrow> TimerWheel option" where
  "schedule_node n spoke expire w =
     do {
       sooner \<leftarrow> (if wheel_is_empty w then Some True
                  else do { e \<leftarrow> earliest_time w; Some (expire < e) });
       let w = (if sooner then w\<lparr>earliest_spoke := spoke\<rparr> else w);
       root \<leftarrow> spoke_at spoke w;
       let m = tq_mem w;
       last_n \<leftarrow> get_prev root m;
       let w = w\<lparr>timer_count := timer_count w + 1\<rparr>;
       if last_n = root
       then do {
         m \<leftarrow> set_prev n root m;
         m \<leftarrow> set_next n root m;
         m \<leftarrow> set_prev root n m;
         m \<leftarrow> set_next root n m;
         Some (w\<lparr>tq_mem := m\<rparr>)
       }
       else do {
         p \<leftarrow> get_prev root m;
         p \<leftarrow> walk_back root expire p m;
         m \<leftarrow> set_prev n p m;
         q \<leftarrow> get_next p m;
         m \<leftarrow> set_next n q m;
         q \<leftarrow> get_next p m;
         m \<leftarrow> set_prev q n m;
         m \<leftarrow> set_next p n m;
         Some (w\<lparr>tq_mem := m\<rparr>)
       }
     }"

definition schedule_i ::
  "TimeValue \<Rightarrow> addr \<Rightarrow> u64 \<Rightarrow> u64 \<Rightarrow> TimeValue \<Rightarrow> TimeValue \<Rightarrow> TimerWheel \<Rightarrow> (int \<times> TimerWheel) option" where
  "schedule_i cur_time ty act1 act2 future_time interval w =
     do {
       (n, w) \<leftarrow> alloc_node w;
       if n \<noteq> NULL
       then do {
         let tv = tv_add cur_time future_time;
         let spoke = calculate_spoke tv w;
         (tid, w) \<leftarrow> generate_timer_id spoke w;
         w \<leftarrow> (if tid \<noteq> -1
               then do {
                 m \<leftarrow> node_set n ty act1 act2 tv interval NULL NULL tid (tq_mem w);
                 schedule_node n spoke tv (w\<lparr>tq_mem := m\<rparr>)
               }
               else Some w);
         Some (tid, w)
       }
       else Some (0, w)
     }"

definition reschedule :: "addr \<Rightarrow> TimerWheel \<Rightarrow> TimerWheel option" where
  "reschedule n w =
     do {
       expire \<leftarrow> get_timer_value n (tq_mem w);
       schedule_node n (calculate_spoke expire w) expire w
     }"

definition remove_first_expired :: "TimeValue \<Rightarrow> TimerWheel \<Rightarrow> (addr \<times> TimerWheel) option" where
  "remove_first_expired now w =
     do {
       n \<leftarrow> get_first w;
       tv \<leftarrow> get_timer_value n (tq_mem w);
       if n \<noteq> NULL \<and> (tv \<le> now \<or> tv_sec now = 0 \<and> tv_usec now = 0)
       then do {
         w \<leftarrow> unlink n w;
         tv \<leftarrow> get_timer_value n (tq_mem w);
         w \<leftarrow> recalc_earliest tv w;
         Some (n, w)
       }
       else Some (NULL, w)
     }"

definition remove_first :: "TimerWheel \<Rightarrow> (addr \<times> TimerWheel) option" where
  "remove_first w = remove_first_expired (tv_set 0 0) w"

subsection \<open>Destruction\<close>

partial_function (option) free_ring :: "addr \<Rightarrow> addr \<Rightarrow> TimerWheel \<Rightarrow> TimerWheel option" where
  "free_ring root n w =
     (if n \<noteq> root
      then do {
        nx \<leftarrow> get_next n (tq_mem w);
        w \<leftarrow> free_node n w;
        free_ring root nx w
      }
      else Some w)"

fun free_spokes :: "nat list \<Rightarrow> TimerWheel \<Rightarrow> TimerWheel option" where
  "free_spokes [] w = Some w"
| "free_spokes (i # is) w =
     do {
       root \<leftarrow> spoke_at i w;
       n \<leftarrow> get_next root (tq_mem w);
       w \<leftarrow> free_ring root n w;
       m \<leftarrow> mem_delete root (tq_mem w);
       free_spokes is (w\<lparr>tq_mem := m\<rparr>)
     }"

text \<open>The destructor of the wheel, then that of the base class, which deletes the pool it was given too.\<close>

definition TimerWheel_delete :: "TimerWheel \<Rightarrow> Memory option" where
  "TimerWheel_delete w =
     do {
       w \<leftarrow> free_spokes [0..<spoke_count w] w;
       fl_destroy (tq_free w) (tq_mem w)
     }"

end
