(* ===== verification/Timer_Wheel_Inv.thy ===== *)
theory Timer_Wheel_Inv
  imports Timer_Wheel
begin

section \<open>The timer wheel: invariant and correctness of the operations\<close>

text \<open>
  The state of a wheel is described by ghost arguments: \<open>R i\<close> is the list of the timer nodes of spoke
  \<open>i\<close>, \<open>F\<close> the pooled nodes and \<open>X\<close> the nodes that are allocated but neither pooled nor linked (a timer
  being dispatched). The invariant says that every spoke is a ring, that a timer lies on the spoke of
  its time and spokes are sorted by time, that the nodes of the memory are exactly the roots, the
  timers, the pool and \<open>X\<close>, and that the first timer of the earliest spoke is the first of all.
\<close>

subsection \<open>The spoke of a time\<close>

definition wheel_shape :: "TimerWheel \<Rightarrow> bool" where
  "wheel_shape w \<longleftrightarrow>
     length (spokes w) = spoke_count w \<and> spoke_count w = 2 ^ spoke_bits w
     \<and> 3 \<le> spoke_bits w \<and> spoke_bits w \<le> 12 \<and> 1 \<le> res_bits w \<and> res_bits w \<le> 20
     \<and> wheel_time w = tv_of_msec (2 ^ res_bits w) \<and> earliest_spoke w < spoke_count w"

definition slot :: "TimerWheel \<Rightarrow> TimeValue \<Rightarrow> int" where
  "slot w t = tv_total t div (1000 * 2 ^ res_bits w)"

definition good_time :: "TimeValue \<Rightarrow> bool" where
  "good_time t \<longleftrightarrow> tv_normal t \<and> tv_zero < t"

lemma wheel_shape_count: "wheel_shape w \<Longrightarrow> 8 \<le> spoke_count w \<and> spoke_count w \<le> 4096"
  using power_increasing [of 3 "spoke_bits w" "2::nat"] power_increasing [of "spoke_bits w" 12 "2::nat"]
  by (simp add: wheel_shape_def)

lemma good_time_total: "good_time t \<Longrightarrow> 0 < tv_total t"
  using tv_normal_less [of tv_zero t] by (simp add: good_time_def)

lemma good_time_less: "good_time a \<Longrightarrow> tv_normal b \<Longrightarrow> a < b \<longleftrightarrow> tv_total a < tv_total b"
  by (simp add: good_time_def tv_normal_less)

lemma and_pow2_minus1: "(x::'a::len word) AND (2 ^ k - 1) = take_bit k x"
  by (simp add: take_bit_eq_mask mask_eq_exp_minus_1)

lemma calculate_spoke_slot:
  assumes "wheel_shape w" "good_time t"
  shows "int (calculate_spoke t w) = slot w t mod int (spoke_count w)"
proof -
  let ?b = "spoke_bits w" and ?r = "res_bits w"
  have b: "?b \<le> 12" and c: "spoke_count w = 2 ^ ?b"
    using assms(1) by (simp_all add: wheel_shape_def)
  have t: "tv_msec t = word_of_int (tv_total t div 1000)"
    using assms(2) by (simp add: good_time_def tv_msec_nonneg order_less_imp_le)
  have "calculate_spoke t w = unat (ucast (take_bit ?b (drop_bit ?r (tv_msec t))) :: u32)"
    by (simp add: calculate_spoke_def c and_pow2_minus1)
  also have "\<dots> = unat (take_bit ?b (drop_bit ?r (tv_msec t)))"
    using b by (simp add: unsigned_ucast_eq unsigned_take_bit_eq min_def)
  finally have "int (calculate_spoke t w) = uint (take_bit ?b (drop_bit ?r (tv_msec t)))"
    by simp
  also have "\<dots> = take_bit ?b (drop_bit ?r (take_bit 64 (tv_total t div 1000)))"
    by (simp add: unsigned_take_bit_eq unsigned_drop_bit_eq t unsigned_of_int take_bit_drop_bit)
  also have "\<dots> = take_bit ?b (drop_bit ?r (tv_total t div 1000))"
    using b assms(1) by (simp add: take_bit_drop_bit wheel_shape_def)
  also have "\<dots> = slot w t mod int (spoke_count w)"
    by (simp add: take_bit_eq_mod drop_bit_eq_div slot_def c div_mult2_eq zdiv_zmult2_eq)
  finally show ?thesis .
qed

lemma wheel_upd_simps [simp]:
  "calculate_spoke t (w\<lparr>tq_mem := m\<rparr>) = calculate_spoke t w"
  "calculate_spoke t (w\<lparr>tq_free := fl\<rparr>) = calculate_spoke t w"
  "calculate_spoke t (w\<lparr>timer_count := k\<rparr>) = calculate_spoke t w"
  "calculate_spoke t (w\<lparr>earliest_spoke := e\<rparr>) = calculate_spoke t w"
  by (simp_all add: calculate_spoke_def)

lemma calculate_spoke_less:
  assumes "wheel_shape w" "good_time t"
  shows "calculate_spoke t w < spoke_count w"
proof -
  have "int (calculate_spoke t w) < int (spoke_count w)"
    unfolding calculate_spoke_slot [OF assms] using wheel_shape_count [OF assms(1)]
    by (intro pos_mod_bound) simp
  then show ?thesis by simp
qed

lemma slot_mono: "tv_total a \<le> tv_total b \<Longrightarrow> slot w a \<le> slot w b"
  by (simp add: slot_def zdiv_mono1)

text \<open>Within one \<open>wheel_time\<close> after a time there are only its own slot and the next one.\<close>

lemma slot_window:
  assumes "wheel_shape w" "tv_total a \<le> tv_total b" "tv_total b < tv_total a + tv_total (wheel_time w)"
  shows "slot w b = slot w a \<or> slot w b = slot w a + 1"
proof -
  let ?W = "1000 * 2 ^ res_bits w :: int"
  have "tv_total (wheel_time w) = ?W"
    using assms(1) by (simp add: wheel_shape_def)
  then have "tv_total b div ?W \<le> (tv_total a + ?W) div ?W"
    using assms(3) by (intro zdiv_mono1) auto
  then have "slot w b \<le> slot w a + 1"
    unfolding slot_def by (subst (asm) div_add_self2) simp_all
  then show ?thesis
    using slot_mono [OF assms(2), of w] by linarith
qed

lemma slot_same_spoke:
  assumes "wheel_shape w" "good_time a" "good_time b" "calculate_spoke a w = calculate_spoke b w"
    "slot w b = slot w a \<or> slot w b = slot w a + 1"
  shows "slot w b = slot w a"
proof (rule ccontr)
  assume "slot w b \<noteq> slot w a"
  then have "slot w b = slot w a + 1" using assms(5) by simp
  moreover have "slot w b mod int (spoke_count w) = slot w a mod int (spoke_count w)"
    using calculate_spoke_slot assms by metis
  ultimately have "int (spoke_count w) dvd 1"
    by (metis add_diff_cancel_left' mod_eq_dvd_iff)
  then show False
    using wheel_shape_count [OF assms(1)] by auto
qed

subsection \<open>Changing links\<close>

text \<open>Two memories have the \<open>same_payload\<close> when their nodes differ in the links only.\<close>

definition payload :: "Node \<Rightarrow> Node" where
  "payload n = n\<lparr>n_prev := NULL, n_next := NULL\<rparr>"

definition same_payload :: "Memory \<Rightarrow> Memory \<Rightarrow> bool" where
  "same_payload m m' \<longleftrightarrow>
     brk m' = brk m \<and> (\<forall>a. map_option payload (heap m' a) = map_option payload (heap m a))"

definition tval :: "Memory \<Rightarrow> addr \<Rightarrow> TimeValue" where
  "tval m a = n_timer_value (the (heap m a))"

lemma payload_eqD:
  assumes "payload n' = payload n"
  shows "n_type n' = n_type n" "n_act1 n' = n_act1 n" "n_act2 n' = n_act2 n"
    "n_timer_value n' = n_timer_value n" "n_interval n' = n_interval n" "n_timer_id n' = n_timer_id n"
  using assms unfolding payload_def by (cases n; cases n'; simp)+

lemma same_payload_refl [simp]: "same_payload m m"
  by (simp add: same_payload_def)

lemma same_payload_trans: "same_payload m m' \<Longrightarrow> same_payload m' m'' \<Longrightarrow> same_payload m m''"
  by (simp add: same_payload_def)

lemma same_payload_Some:
  assumes "same_payload m m'" "heap m a = Some n"
  obtains n' where "heap m' a = Some n'" "payload n' = payload n"
  using assms unfolding same_payload_def by (metis map_option_eq_Some option.simps(9))

lemma same_payload_dom: "same_payload m m' \<Longrightarrow> dom (heap m') = dom (heap m)"
proof -
  assume s: "same_payload m m'"
  have "heap m' a = None \<longleftrightarrow> heap m a = None" for a
  proof -
    have "map_option payload (heap m' a) = map_option payload (heap m a)"
      using s by (simp add: same_payload_def)
    then show ?thesis by (cases "heap m a"; cases "heap m' a") auto
  qed
  then show ?thesis by (auto simp: dom_def)
qed

lemma same_payload_tval:
  assumes "same_payload m m'" "a \<in> dom (heap m)"
  shows "tval m' a = tval m a"
proof -
  obtain n where n: "heap m a = Some n" using assms(2) by auto
  obtain n' where "heap m' a = Some n'" "payload n' = payload n"
    by (rule same_payload_Some [OF assms(1) n])
  with n show ?thesis
    using payload_eqD(4) [of n' n] by (simp add: tval_def)
qed

lemma same_payload_wf:
  assumes "same_payload m m'" "mem_wf m"
  shows "mem_wf m'"
proof -
  have "brk m' = brk m" "dom (heap m') = dom (heap m)"
    using assms(1) same_payload_dom by (simp_all add: same_payload_def)
  then show ?thesis
    using assms(2) unfolding mem_wf_def by (metis domD domI)
qed

lemma get_tval: "a \<in> dom (heap m) \<Longrightarrow> get_timer_value a m = Some (tval m a)"
  by (auto simp: get_timer_value_def tval_def)

lemma get_links: "get_next a m = nxt (heap m) a" "get_prev a m = prv (heap m) a"
  by (simp_all add: get_next_def get_prev_def nxt_def prv_def)

text \<open>The memory after \<^verbatim>\<open>set_next\<close> and \<^verbatim>\<open>set_prev\<close> of an allocated node.\<close>

definition mem_next :: "addr \<Rightarrow> addr \<Rightarrow> Memory \<Rightarrow> Memory" where
  "mem_next p v m = m\<lparr>heap := (heap m)(p := map_option (\<lambda>n. n\<lparr>n_next := v\<rparr>) (heap m p))\<rparr>"

definition mem_prev :: "addr \<Rightarrow> addr \<Rightarrow> Memory \<Rightarrow> Memory" where
  "mem_prev p v m = m\<lparr>heap := (heap m)(p := map_option (\<lambda>n. n\<lparr>n_prev := v\<rparr>) (heap m p))\<rparr>"

lemma set_links:
  "p \<in> dom (heap m) \<Longrightarrow> set_next p v m = Some (mem_next p v m)"
  "p \<in> dom (heap m) \<Longrightarrow> set_prev p v m = Some (mem_prev p v m)"
  by (auto simp: node_access mem_next_def mem_prev_def)

lemma mem_links_dom [simp]:
  "dom (heap (mem_next p v m)) = dom (heap m)" "dom (heap (mem_prev p v m)) = dom (heap m)"
  by (auto simp: mem_next_def mem_prev_def dom_def)

lemma mem_links_payload [simp]: "same_payload m (mem_next p v m)" "same_payload m (mem_prev p v m)"
  by (cases "heap m p"; auto simp: mem_next_def mem_prev_def same_payload_def payload_def)+

lemma mem_links_other [simp]:
  "a \<noteq> p \<Longrightarrow> heap (mem_next p v m) a = heap m a" "a \<noteq> p \<Longrightarrow> heap (mem_prev p v m) a = heap m a"
  by (simp_all add: mem_next_def mem_prev_def)

lemma nxt_mem_links:
  "nxt (heap (mem_next p v m)) a = (if a = p \<and> p \<in> dom (heap m) then Some v else nxt (heap m) a)"
  "nxt (heap (mem_prev p v m)) a = nxt (heap m) a"
  by (cases "heap m p"; auto simp: nxt_def mem_next_def mem_prev_def)+

lemma prv_mem_links:
  "prv (heap (mem_prev p v m)) a = (if a = p \<and> p \<in> dom (heap m) then Some v else prv (heap m) a)"
  "prv (heap (mem_next p v m)) a = prv (heap m) a"
  by (cases "heap m p"; auto simp: prv_def mem_next_def mem_prev_def)+

lemmas mem_links = nxt_mem_links prv_mem_links

lemma unlink_effect:
  assumes "ring (heap (tq_mem w)) r (xs @ n # ys)"
  obtains m' where "unlink n w = Some (w\<lparr>timer_count := timer_count w - 1, tq_mem := m'\<rparr>)"
    "same_payload (tq_mem w) m'" "ring (heap m') r (xs @ ys)"
    "\<forall>a. a \<notin> insert r (set (xs @ n # ys)) \<longrightarrow> heap m' a = heap (tq_mem w) a"
proof -
  let ?m = "tq_mem w" and ?p = "List.last (r # xs)" and ?q = "hd (ys @ [r])"
  let ?m' = "mem_next n NULL (mem_prev n NULL (mem_prev ?q ?p (mem_next ?p ?q ?m)))"
  have d: "distinct (r # xs @ n # ys)"
    using assms by (simp add: ring_def)
  have pq: "?p \<in> set (r # xs)" "?q \<in> set (ys @ [r])"
    using d ring_ends [of r xs ys] by (simp_all del: last.simps)
  then have "?p \<noteq> n" "?q \<noteq> n"
    using d by (auto simp del: last.simps)
  have "insert r (set (xs @ n # ys)) \<subseteq> dom (heap ?m)"
    using ring_dom [OF assms] .
  then have dom: "?p \<in> dom (heap ?m)" "?q \<in> dom (heap ?m)" "n \<in> dom (heap ?m)"
    using pq by (auto simp del: last.simps)
  have links: "prv (heap ?m) n = Some ?p" "nxt (heap ?m) n = Some ?q"
    using ring_at [OF assms] by blast+
  show ?thesis
  proof (rule that [of ?m'])
    show "unlink n w = Some (w\<lparr>timer_count := timer_count w - 1, tq_mem := ?m'\<rparr>)"
      using \<open>?p \<noteq> n\<close> dom by (simp add: unlink_def get_links set_links mem_links links del: last.simps domIff)
    show "same_payload ?m ?m'"
      by (meson mem_links_payload same_payload_trans)
    show "ring (heap ?m') r (xs @ ys)"
      using dom by (intro ring_remove [OF assms]) (auto simp: mem_links simp del: last.simps)
    show "\<forall>a. a \<notin> insert r (set (xs @ n # ys)) \<longrightarrow> heap ?m' a = heap ?m a"
    proof (intro allI impI)
      fix a assume that: "a \<notin> insert r (set (xs @ n # ys))"
      have "a \<noteq> n" "a \<noteq> ?p" "a \<noteq> ?q"
        using that pq by (auto simp del: last.simps)
      then show "heap ?m' a = heap ?m a" by (simp del: last.simps)
    qed
  qed
qed

subsection \<open>The invariant\<close>

definition live :: "TimerWheel \<Rightarrow> (nat \<Rightarrow> addr list) \<Rightarrow> addr set" where
  "live w R = (\<Union>i < spoke_count w. set (R i))"

definition rings :: "TimerWheel \<Rightarrow> (nat \<Rightarrow> addr list) \<Rightarrow> bool" where
  "rings w R \<longleftrightarrow> (\<forall>i < spoke_count w. ring (heap (tq_mem w)) (spokes w ! i) (R i))"

definition owned :: "TimerWheel \<Rightarrow> (nat \<Rightarrow> addr list) \<Rightarrow> addr list \<Rightarrow> addr set \<Rightarrow> bool" where
  "owned w R F X \<longleftrightarrow>
     mem_wf (tq_mem w) \<and> fl_inv (tq_mem w) (tq_free w) F \<and> fl_supply (tq_free w)
     \<and> distinct (spokes w) \<and> set (spokes w) \<inter> live w R = {}
     \<and> (set (spokes w) \<union> live w R) \<inter> (set F \<union> X) = {} \<and> set F \<inter> X = {}
     \<and> dom (heap (tq_mem w)) = set (spokes w) \<union> live w R \<union> set F \<union> X"

definition timed :: "TimerWheel \<Rightarrow> (nat \<Rightarrow> addr list) \<Rightarrow> bool" where
  "timed w R \<longleftrightarrow>
     (\<forall>i < spoke_count w. sorted (map (tval (tq_mem w)) (R i))
       \<and> (\<forall>a \<in> set (R i). good_time (tval (tq_mem w) a) \<and> calculate_spoke (tval (tq_mem w) a) w = i))"

definition counted :: "TimerWheel \<Rightarrow> (nat \<Rightarrow> addr list) \<Rightarrow> bool" where
  "counted w R \<longleftrightarrow>
     (\<Sum>i < spoke_count w. length (R i)) < 2 ^ 32
     \<and> timer_count w = word_of_nat (\<Sum>i < spoke_count w. length (R i))"

definition first_min :: "TimerWheel \<Rightarrow> (nat \<Rightarrow> addr list) \<Rightarrow> bool" where
  "first_min w R \<longleftrightarrow>
     (\<forall>a \<in> live w R. R (earliest_spoke w) \<noteq> []
        \<and> tval (tq_mem w) (hd (R (earliest_spoke w))) \<le> tval (tq_mem w) a)"

definition roots_clear :: "TimerWheel \<Rightarrow> bool" where
  "roots_clear w \<longleftrightarrow> (\<forall>r \<in> set (spokes w). get_act1 r (tq_mem w) = Some 0)"

text \<open>\<open>wheel_core\<close> is the part of the invariant that also holds before the earliest spoke is found again.\<close>

definition wheel_core :: "TimerWheel \<Rightarrow> (nat \<Rightarrow> addr list) \<Rightarrow> addr list \<Rightarrow> addr set \<Rightarrow> bool" where
  "wheel_core w R F X \<longleftrightarrow>
     wheel_shape w \<and> rings w R \<and> owned w R F X \<and> timed w R \<and> counted w R \<and> roots_clear w"

definition wheel_inv :: "TimerWheel \<Rightarrow> (nat \<Rightarrow> addr list) \<Rightarrow> addr list \<Rightarrow> addr set \<Rightarrow> bool" where
  "wheel_inv w R F X \<longleftrightarrow> wheel_core w R F X \<and> first_min w R"

lemmas wheel_parts = live_def rings_def owned_def timed_def counted_def first_min_def roots_clear_def

lemma live_iff: "a \<in> live w R \<longleftrightarrow> (\<exists>i < spoke_count w. a \<in> set (R i))"
  by (auto simp: live_def)

lemma live_upd_simps [simp]:
  "live (w\<lparr>tq_mem := m\<rparr>) R = live w R" "live (w\<lparr>tq_free := fl\<rparr>) R = live w R"
  "live (w\<lparr>timer_count := k\<rparr>) R = live w R" "live (w\<lparr>earliest_spoke := e\<rparr>) R = live w R"
  by (simp_all add: live_def)

lemma live_spoke: "i < spoke_count w \<Longrightarrow> set (R i) \<subseteq> live w R"
  by (auto simp: live_def)

lemma live_upd:
  assumes "i < spoke_count w"
  shows "live w (R(i := xs)) = set xs \<union> (\<Union>j \<in> {..<spoke_count w} - {i}. set (R j))"
    "live w R = set (R i) \<union> (\<Union>j \<in> {..<spoke_count w} - {i}. set (R j))"
  using assms by (auto simp: live_def split: if_splits)

lemma spoke_at_nth: "wheel_shape w \<Longrightarrow> i < spoke_count w \<Longrightarrow> spoke_at i w = Some (spokes w ! i)"
  by (simp add: spoke_at_def wheel_shape_def)

lemma rings_first:
  "rings w R \<Longrightarrow> i < spoke_count w \<Longrightarrow>
   get_next (spokes w ! i) (tq_mem w) = Some (hd (R i @ [spokes w ! i]))"
  by (simp add: rings_def get_links ring_first)

lemma rings_root: "rings w R \<Longrightarrow> i < spoke_count w \<Longrightarrow> spokes w ! i \<notin> set (R i)"
  by (simp add: rings_def ring_def)

lemma rings_hd: "rings w R \<Longrightarrow> i < spoke_count w \<Longrightarrow> hd (R i @ [spokes w ! i]) = spokes w ! i \<longleftrightarrow> R i = []"
  using rings_root [of w R i] by (cases "R i") auto

lemma live_dom: "rings w R \<Longrightarrow> live w R \<subseteq> dom (heap (tq_mem w))"
  unfolding live_def rings_def using ring_dom by fastforce

lemma counted_empty:
  assumes "counted w R"
  shows "wheel_is_empty w \<longleftrightarrow> live w R = {}"
proof -
  let ?n = "\<Sum>i < spoke_count w. length (R i)"
  have "?n < 2 ^ 32" and "timer_count w = 0 \<longleftrightarrow> 2 ^ 32 dvd ?n"
    using assms by (simp_all add: counted_def word_of_nat_eq_0_iff del: of_nat_sum)
  then have "timer_count w = 0 \<longleftrightarrow> ?n = 0"
    using nat_dvd_not_less [of ?n "2 ^ 32"] by auto
  then show ?thesis
    by (auto simp: wheel_is_empty_def live_def)
qed

lemma get_first_i_eq:
  assumes "wheel_shape w" "rings w R"
  shows "get_first_i w = Some (hd (R (earliest_spoke w) @ [NULL]))"
proof -
  let ?e = "earliest_spoke w"
  have e: "?e < spoke_count w"
    using assms(1) by (simp add: wheel_shape_def)
  show ?thesis
    using rings_first [OF assms(2) e] rings_hd [OF assms(2) e] spoke_at_nth [OF assms(1) e]
    by (cases "R ?e") (auto simp: get_first_i_def)
qed

lemma tval_hd_le:
  assumes "timed w R" "i < spoke_count w" "a \<in> set (R i)"
  shows "tval (tq_mem w) (hd (R i)) \<le> tval (tq_mem w) a"
  using assms by (cases "R i") (auto simp: timed_def)

subsection \<open>Finding the earliest timer again\<close>

fun positions :: "nat \<Rightarrow> nat \<Rightarrow> nat \<Rightarrow> nat list" where
  "positions n 0 s = []"
| "positions n (Suc k) s = s # positions n k (if s + 1 \<ge> n then 0 else s + 1)"

lemma positions_eq: "s < n \<Longrightarrow> positions n k s = map (\<lambda>j. (s + j) mod n) [0..<k]"
proof (induction k arbitrary: s)
  case (Suc k)
  have "map (\<lambda>j. ((if s + 1 \<ge> n then 0 else s + 1) + j) mod n) [0..<k] = map (\<lambda>j. (s + Suc j) mod n) [0..<k]"
    using Suc.prems by (auto simp: mod_if le_Suc_eq)
  moreover have "map (\<lambda>j. (s + j) mod n) [0..<Suc k] = s # map (\<lambda>j. (s + Suc j) mod n) [0..<k]"
    using Suc.prems by (simp add: upt_conv_Cons map_Suc_upt [symmetric] o_def del: upt_Suc)
  ultimately show ?case
    using Suc.IH [of "if s + 1 \<ge> n then 0 else s + 1"] Suc.prems by simp
qed simp

lemma positions_all:
  assumes "s < n"
  shows "set (positions n n s) = {..<n}"
proof -
  have "i \<in> (\<lambda>j. (s + j) mod n) ` {0..<n}" if "i < n" for i
  proof (cases "s \<le> i")
    case True
    then show ?thesis using that by (intro image_eqI [of _ _ "i - s"]) auto
  next
    case False
    then have "(s + (n + i - s)) mod n = i" using that assms by simp
    then show ?thesis using False assms by (intro image_eqI [of _ _ "n + i - s"]) auto
  qed
  then show ?thesis
    using assms by (auto simp: positions_eq)
qed

text \<open>
  The loop after the spokes \<open>V\<close>: none of them had a first timer before the limit \<open>lim\<close>, and \<open>et\<close> and \<open>es\<close>
  are the earliest of their first timers.
\<close>

definition best_of :: "TimerWheel \<Rightarrow> (nat \<Rightarrow> addr list) \<Rightarrow> nat set \<Rightarrow> TimeValue \<Rightarrow> nat \<Rightarrow> bool" where
  "best_of w R V et es \<longleftrightarrow>
     et = tv_zero \<and> (\<forall>v \<in> V. R v = [])
     \<or> es \<in> V \<and> R es \<noteq> [] \<and> et = tval (tq_mem w) (hd (R es))
       \<and> (\<forall>v \<in> V. R v \<noteq> [] \<longrightarrow> et \<le> tval (tq_mem w) (hd (R v)))"

lemma recalc_loop_spec:
  fixes w R last_tv
  defines "lim \<equiv> tv_add last_tv (wheel_time w)"
    and "first \<equiv> \<lambda>v. tval (tq_mem w) (hd (R v))"
  assumes "wheel_shape w" "rings w R" "timed w R"
  shows "\<lbrakk>spoke < spoke_count w; V \<union> set (positions (spoke_count w) k spoke) = {..<spoke_count w};
     best_of w R V et es\<rbrakk> \<Longrightarrow>
   \<exists>r. recalc_loop k last_tv w spoke et es = Some r \<and>
     (case r of
        Inl s \<Rightarrow> s < spoke_count w \<and> R s \<noteq> [] \<and> first s < lim
               \<and> (s \<noteq> spoke \<longrightarrow> R spoke = [] \<or> lim \<le> first spoke)
      | Inr s \<Rightarrow> \<exists>et'. best_of w R {..<spoke_count w} et' s)"
proof (induction k arbitrary: spoke V et es)
  case 0
  then show ?case by auto
next
  case (Suc k)
  let ?n = "spoke_count w"
  let ?s = "if spoke + 1 \<ge> ?n then 0 else spoke + 1"
  have s: "?s < ?n" "insert spoke V \<union> set (positions ?n k ?s) = {..<?n}"
    using Suc.prems(1,2) by auto
  note root = spoke_at_nth [OF assms(3) Suc.prems(1)] rings_first [OF assms(4) Suc.prems(1)]
  show ?case
  proof (cases "R spoke = []")
    case True
    then have "best_of w R (insert spoke V) et es"
      using Suc.prems(3) by (auto simp: best_of_def)
    from Suc.IH [OF s this] obtain r where "recalc_loop k last_tv w ?s et es = Some r"
      "case r of Inl s \<Rightarrow> s < ?n \<and> R s \<noteq> [] \<and> first s < lim \<and> (s \<noteq> ?s \<longrightarrow> R ?s = [] \<or> lim \<le> first ?s)
       | Inr s \<Rightarrow> \<exists>et'. best_of w R {..<?n} et' s"
      by blast
    then show ?thesis
      using True by (intro exI [of _ r]) (auto simp: root split: sum.splits)
  next
    case False
    then have hd: "hd (R spoke @ [spokes w ! spoke]) = hd (R spoke)" "hd (R spoke) \<noteq> spokes w ! spoke"
      "hd (R spoke) \<in> live w R"
      using rings_hd [OF assms(4) Suc.prems(1)] Suc.prems(1) by (auto simp: live_iff)
    then have val: "get_timer_value (hd (R spoke)) (tq_mem w) = Some (first spoke)"
      using get_tval [OF subsetD [OF live_dom [OF assms(4)]]] by (simp add: first_def)
    have pos: "tv_zero < first v" if "v < ?n" "R v \<noteq> []" for v
      using assms(5) that by (auto simp: timed_def good_time_def first_def)
    have "V \<subseteq> {..<?n}" using Suc.prems(2) by blast
    have step: "best_of w R (insert spoke V) (if et = tv_zero \<or> first spoke < et then first spoke else et)
        (if et = tv_zero \<or> first spoke < et then spoke else es)"
      using Suc.prems(3) False pos [of es] \<open>V \<subseteq> {..<?n}\<close> by (auto simp: best_of_def first_def)
    show ?thesis
    proof (cases "first spoke < lim")
      case True
      then show ?thesis
        using hd val Suc.prems(1) False by (simp add: root lim_def)
    next
      case nolim: False
      then show ?thesis
        using Suc.IH [OF s step] hd val
        by (auto simp: root lim_def Let_def split: sum.splits if_splits)
    qed
  qed
qed

text \<open>
  Given a time \<open>last_tv\<close> on the earliest spoke that no timer precedes, the search finds the first of
  all timers.
\<close>

lemma window_first:
  assumes "wheel_shape w" "rings w R" "timed w R" "good_time last_tv"
    and e: "calculate_spoke last_tv w = earliest_spoke w"
    and le: "\<forall>a \<in> live w R. last_tv \<le> tval (tq_mem w) a"
    and s: "s < spoke_count w" "R s \<noteq> []" "tval (tq_mem w) (hd (R s)) < tv_add last_tv (wheel_time w)"
      "s \<noteq> earliest_spoke w \<longrightarrow> R (earliest_spoke w) = []
        \<or> tv_add last_tv (wheel_time w) \<le> tval (tq_mem w) (hd (R (earliest_spoke w)))"
    and a: "a \<in> live w R"
  shows "tval (tq_mem w) (hd (R s)) \<le> tval (tq_mem w) a"
proof (rule ccontr)
  let ?t = "tval (tq_mem w)" and ?h = "hd (R s)" and ?e = "earliest_spoke w"
  assume "\<not> ?t ?h \<le> ?t a"
  then have less: "?t a < ?t ?h" by simp
  obtain i where i: "i < spoke_count w" "a \<in> set (R i)" using a by (auto simp: live_iff)
  have h: "?h \<in> live w R" using s by (auto simp: live_iff)
  have g: "good_time (?t a)" "good_time (?t ?h)" "calculate_spoke (?t a) w = i" "calculate_spoke (?t ?h) w = s"
    using assms(3) i s by (auto simp: timed_def)
  have lim: "?t x < tv_add last_tv (wheel_time w) \<Longrightarrow> x \<in> live w R \<Longrightarrow> good_time (?t x) \<Longrightarrow>
      slot w (?t x) = slot w last_tv \<or> slot w (?t x) = slot w last_tv + 1" for x
    using le assms(4) by (intro slot_window [OF assms(1)]) (auto simp: good_time_def tv_normal_less tv_normal_le)
  have sa: "slot w (?t a) = slot w last_tv \<or> slot w (?t a) = slot w last_tv + 1"
    and sh: "slot w (?t ?h) = slot w last_tv \<or> slot w (?t ?h) = slot w last_tv + 1"
    using lim a h g less s(3) by (meson less_trans)+
  have "slot w (?t a) \<le> slot w (?t ?h)"
    using less g by (intro slot_mono) (auto simp: good_time_def tv_normal_less)
  moreover have "i \<noteq> s"
    using tval_hd_le [OF assms(3) i] less by auto
  ultimately have "slot w (?t a) = slot w last_tv" "slot w (?t ?h) = slot w last_tv + 1"
    using sa sh calculate_spoke_slot [OF assms(1) g(1)] calculate_spoke_slot [OF assms(1) g(2)] g(3,4) by auto
  then have "i = ?e"
    using calculate_spoke_slot [OF assms(1) g(1)] calculate_spoke_slot [OF assms(1,4)] g(3) e by simp
  then have "tv_add last_tv (wheel_time w) \<le> ?t (hd (R ?e))"
    using s(4) i \<open>i \<noteq> s\<close> by auto
  also have "\<dots> \<le> ?t a"
    using tval_hd_le [OF assms(3) i] \<open>i = ?e\<close> by simp
  finally show False
    using less s(3) by simp
qed

lemma recalc_earliest_first:
  assumes "wheel_shape w" "rings w R" "timed w R" "counted w R" "good_time last_tv"
    and "calculate_spoke last_tv w = earliest_spoke w"
    and "\<forall>a \<in> live w R. last_tv \<le> tval (tq_mem w) a"
  shows "\<exists>e < spoke_count w. recalc_earliest last_tv w = Some (w\<lparr>earliest_spoke := e\<rparr>)
    \<and> (\<forall>a \<in> live w R. R e \<noteq> [] \<and> tval (tq_mem w) (hd (R e)) \<le> tval (tq_mem w) a)"
proof (cases "wheel_is_empty w")
  case True
  then have "live w R = {}" "recalc_earliest last_tv w = Some w"
    using counted_empty [OF assms(4)] by (simp_all add: recalc_earliest_def)
  then show ?thesis
    using assms(1) by (intro exI [of _ "earliest_spoke w"]) (simp add: wheel_shape_def)
next
  case False
  let ?n = "spoke_count w" and ?e = "earliest_spoke w" and ?t = "tval (tq_mem w)"
  have e: "?e < ?n" using assms(1) by (simp add: wheel_shape_def)
  have "best_of w R {} tv_zero 0" by (simp add: best_of_def)
  with recalc_loop_spec [OF assms(1-3) e, of "{}" ?n tv_zero 0] positions_all [OF e]
  obtain r where r: "recalc_loop ?n last_tv w ?e tv_zero 0 = Some r"
    "case r of Inl s \<Rightarrow> s < ?n \<and> R s \<noteq> [] \<and> ?t (hd (R s)) < tv_add last_tv (wheel_time w)
       \<and> (s \<noteq> ?e \<longrightarrow> R ?e = [] \<or> tv_add last_tv (wheel_time w) \<le> ?t (hd (R ?e)))
     | Inr s \<Rightarrow> \<exists>et'. best_of w R {..<?n} et' s"
    by auto
  show ?thesis
  proof (cases r)
    case (Inl s)
    then have "R s \<noteq> [] \<and> ?t (hd (R s)) \<le> ?t a" if "a \<in> live w R" for a
      using r(2) window_first [OF assms(1-3,5-7) _ _ _ _ that, of s] by simp
    then show ?thesis
      using r Inl False by (intro exI [of _ s]) (simp add: recalc_earliest_def)
  next
    case (Inr s)
    obtain x where "x \<in> live w R" using False counted_empty [OF assms(4)] by auto
    then have s: "s < ?n" "R s \<noteq> []" "\<forall>v < ?n. R v \<noteq> [] \<longrightarrow> ?t (hd (R s)) \<le> ?t (hd (R v))"
      using r(2) Inr by (auto simp: best_of_def live_iff)
    have "R s \<noteq> [] \<and> ?t (hd (R s)) \<le> ?t a" if "a \<in> live w R" for a
    proof -
      obtain i where i: "i < ?n" "a \<in> set (R i)" using \<open>a \<in> live w R\<close> by (auto simp: live_iff)
      then have "?t (hd (R s)) \<le> ?t (hd (R i))" using s(3) by auto
      then show ?thesis
        using tval_hd_le [OF assms(3) i] s(2) by (auto intro: order_trans)
    qed
    then show ?thesis
      using r(1) Inr False s(1) by (intro exI [of _ s]) (simp add: recalc_earliest_def)
  qed
qed

subsection \<open>Taking a timer off a spoke\<close>

lemma wheel_coreD:
  assumes "wheel_core w R F X"
  shows "wheel_shape w" "rings w R" "owned w R F X" "timed w R" "counted w R" "roots_clear w"
  using assms by (simp_all add: wheel_core_def)

lemma wheel_core_earliest:
  assumes "wheel_core w R F X" "e < spoke_count w"
  shows "wheel_core (w\<lparr>earliest_spoke := e\<rparr>) R F X"
proof -
  have "rings (w\<lparr>earliest_spoke := e\<rparr>) R" "owned (w\<lparr>earliest_spoke := e\<rparr>) R F X"
    "timed (w\<lparr>earliest_spoke := e\<rparr>) R" "counted (w\<lparr>earliest_spoke := e\<rparr>) R"
    "roots_clear (w\<lparr>earliest_spoke := e\<rparr>)"
    using wheel_coreD [OF assms(1)]
    by (simp_all add: rings_def owned_def timed_def counted_def roots_clear_def del: of_nat_sum)
  moreover have "wheel_shape (w\<lparr>earliest_spoke := e\<rparr>)"
    using wheel_coreD(1) [OF assms(1)] assms(2) by (simp add: wheel_shape_def)
  ultimately show ?thesis by (simp add: wheel_core_def)
qed

lemma sum_upd:
  fixes g :: "'b \<Rightarrow> 'c::comm_monoid_add"
  assumes "i < (n::nat)"
  shows "(\<Sum>j<n. g ((R(i := v)) j)) + g (R i) = (\<Sum>j<n. g (R j)) + g v"
proof -
  have "(\<Sum>j<n. g ((R(i := v)) j)) = g v + (\<Sum>j \<in> {..<n} - {i}. g (R j))"
    using assms by (simp add: sum.remove [of "{..<n}" i])
  moreover have "(\<Sum>j<n. g (R j)) = g (R i) + (\<Sum>j \<in> {..<n} - {i}. g (R j))"
    using assms by (simp add: sum.remove [of "{..<n}" i])
  ultimately show ?thesis by (simp add: ac_simps)
qed

lemma spoke_sep:
  assumes "wheel_core w R F X" "i < spoke_count w" "j < spoke_count w" "i \<noteq> j"
  shows "insert (spokes w ! j) (set (R j)) \<inter> insert (spokes w ! i) (set (R i)) = {}"
proof -
  note c = wheel_coreD [OF assms(1)]
  have "spokes w ! i \<noteq> spokes w ! j"
    using c(1,3) assms(2-4) by (simp add: owned_def wheel_shape_def nth_eq_iff_index_eq)
  moreover have "spokes w ! i \<in> set (spokes w)" "spokes w ! j \<in> set (spokes w)"
    using c(1) assms(2,3) by (simp_all add: wheel_shape_def)
  then have "spokes w ! j \<notin> set (R i)" "spokes w ! i \<notin> set (R j)"
    using c(3) live_spoke [OF assms(2)] live_spoke [OF assms(3)] unfolding owned_def by blast+
  moreover have "set (R j) \<inter> set (R i) = {}"
    using c(4) assms(2-4) unfolding timed_def by (metis disjoint_iff)
  ultimately show ?thesis by auto
qed

lemma wheel_nodes:
  assumes "wheel_core w R F X" "i < spoke_count w"
  shows "insert (spokes w ! i) (set (R i)) \<inter> (set F \<union> X) = {}"
    "insert (spokes w ! i) (set (R i)) \<subseteq> dom (heap (tq_mem w))" "spokes w ! i \<in> set (spokes w)"
proof -
  note c = wheel_coreD [OF assms(1)]
  show r: "spokes w ! i \<in> set (spokes w)"
    using c(1) assms(2) by (simp add: wheel_shape_def)
  have "set (R i) \<subseteq> live w R"
    by (rule live_spoke [OF assms(2)])
  with r have "insert (spokes w ! i) (set (R i)) \<subseteq> set (spokes w) \<union> live w R"
    by blast
  then show "insert (spokes w ! i) (set (R i)) \<inter> (set F \<union> X) = {}"
    "insert (spokes w ! i) (set (R i)) \<subseteq> dom (heap (tq_mem w))"
    using c(3) unfolding owned_def by blast+
qed

lemma roots_clear_payload:
  assumes "roots_clear w" "same_payload (tq_mem w) m'"
  shows "\<forall>r \<in> set (spokes w). get_act1 r m' = Some 0"
proof
  fix r assume "r \<in> set (spokes w)"
  then obtain n where n: "heap (tq_mem w) r = Some n" "n_act1 n = 0"
    using assms(1) by (auto simp: roots_clear_def get_act1_def)
  obtain n' where "heap m' r = Some n'" "payload n' = payload n"
    by (rule same_payload_Some [OF assms(2) n(1)])
  then show "get_act1 r m' = Some 0"
    using n payload_eqD(2) [of n' n] by (simp add: get_act1_def)
qed

lemma live_remove:
  assumes "wheel_core w R F X" "i < spoke_count w" "R i = xs @ n # ys"
  shows "live w (R(i := xs @ ys)) = live w R - {n}" "n \<in> live w R"
proof -
  have "n \<notin> set (xs @ ys)"
    using wheel_coreD(2) [OF assms(1)] assms(2,3) by (auto simp: rings_def ring_def)
  moreover have "n \<notin> set (R j)" if "j < spoke_count w" "j \<noteq> i" for j
    using spoke_sep [OF assms(1,2) that(1)] that(2) assms(3) by auto
  ultimately show "live w (R(i := xs @ ys)) = live w R - {n}"
    unfolding live_upd(1) [OF assms(2)] live_upd(2) [OF assms(2), of R] by (auto simp: assms(3))
  show "n \<in> live w R"
    using live_spoke [OF assms(2), of R] by (simp add: assms(3))
qed

lemma counted_remove:
  assumes "counted w R" "i < spoke_count w" "R i = xs @ n # ys"
  shows "counted (w\<lparr>timer_count := timer_count w - 1, tq_mem := m'\<rparr>) (R(i := xs @ ys))"
proof -
  have "(\<Sum>j < spoke_count w. length (R j)) = Suc (\<Sum>j < spoke_count w. length ((R(i := xs @ ys)) j))"
    using sum_upd [OF assms(2), of length R "xs @ ys"] assms(3) by simp
  then show ?thesis
    using assms(1) by (simp add: counted_def del: of_nat_sum)
qed

text \<open>
  A change of links that stays within spoke \<open>i\<close> and the nodes \<open>N\<close> outside the spokes and the pool
  keeps the other rings and the pool, and with them the times.
\<close>

lemma relink_spoke:
  assumes core: "wheel_core w R F X" and i: "i < spoke_count w" and N: "N \<subseteq> X"
    and ring: "ring (heap m') (spokes w ! i) zs"
    and frame: "\<forall>a. a \<notin> insert (spokes w ! i) (set (R i)) \<union> N \<longrightarrow> heap m' a = heap (tq_mem w) a"
  shows "\<forall>j < spoke_count w. ring (heap m') (spokes w ! j) ((R(i := zs)) j)" "fl_inv m' (tq_free w) F"
proof -
  note c = wheel_coreD [OF core]
  show "\<forall>j < spoke_count w. ring (heap m') (spokes w ! j) ((R(i := zs)) j)"
  proof (intro allI impI)
    fix j assume j: "j < spoke_count w"
    show "ring (heap m') (spokes w ! j) ((R(i := zs)) j)"
    proof (cases "j = i")
      case True
      then show ?thesis using ring by simp
    next
      case False
      have "heap m' a = heap (tq_mem w) a" if "a \<in> insert (spokes w ! j) (set (R j))" for a
        using spoke_sep [OF core i j] wheel_nodes(1) [OF core j] that False N
        by (intro frame [rule_format]) blast
      then show ?thesis
        using c(2) j False by (auto simp: rings_def nxt_def prv_def intro: ring_cong)
    qed
  qed
  have "fl_inv (tq_mem w) (tq_free w) F" "set F \<inter> X = {}"
    using c(3) by (simp_all add: owned_def)
  moreover have "heap m' a = heap (tq_mem w) a" if "a \<in> set F" for a
    using wheel_nodes(1) [OF core i] \<open>set F \<inter> X = {}\<close> that N by (intro frame [rule_format]) blast
  ultimately show "fl_inv m' (tq_free w) F"
    by (metis locked.pool_cong)
qed

lemma timed_payload:
  assumes "same_payload (tq_mem w) m'"
    and R': "\<And>j. j < spoke_count w \<Longrightarrow> sorted (map (tval (tq_mem w)) (R' j)) \<and>
      (\<forall>a \<in> set (R' j). a \<in> dom (heap (tq_mem w)) \<and> good_time (tval (tq_mem w) a)
        \<and> calculate_spoke (tval (tq_mem w) a) w = j)"
  shows "timed (w\<lparr>timer_count := k, tq_mem := m'\<rparr>) R'"
proof -
  have "tval m' a = tval (tq_mem w) a" if "j < spoke_count w" "a \<in> set (R' j)" for j a
    using R' [OF that(1)] that(2) by (intro same_payload_tval [OF assms(1)]) simp
  then have "map (tval m') (R' j) = map (tval (tq_mem w)) (R' j)"
    and tv: "\<forall>a \<in> set (R' j). tval m' a = tval (tq_mem w) a" if "j < spoke_count w" for j
    using that by simp_all
  then have "sorted (map (tval m') (R' j))" if "j < spoke_count w" for j
    using R' [OF that] that by metis
  then show ?thesis
    using R' tv unfolding timed_def by simp
qed

lemma unlink_core:
  assumes core: "wheel_core w R F X" and i: "i < spoke_count w" and Ri: "R i = xs @ n # ys"
  obtains m' where "unlink n w = Some (w\<lparr>timer_count := timer_count w - 1, tq_mem := m'\<rparr>)"
    "same_payload (tq_mem w) m'"
    "wheel_core (w\<lparr>timer_count := timer_count w - 1, tq_mem := m'\<rparr>) (R(i := xs @ ys)) F (insert n X)"
proof -
  note c = wheel_coreD [OF core]
  have "ring (heap (tq_mem w)) (spokes w ! i) (xs @ n # ys)"
    using c(2) i Ri by (metis rings_def)
  then obtain m' where u: "unlink n w = Some (w\<lparr>timer_count := timer_count w - 1, tq_mem := m'\<rparr>)"
    "same_payload (tq_mem w) m'" "ring (heap m') (spokes w ! i) (xs @ ys)"
    "\<forall>a. a \<notin> insert (spokes w ! i) (set (xs @ n # ys)) \<longrightarrow> heap m' a = heap (tq_mem w) a"
    by (rule unlink_effect)
  let ?w = "w\<lparr>timer_count := timer_count w - 1, tq_mem := m'\<rparr>" and ?R = "R(i := xs @ ys)"
  have re: "\<forall>j < spoke_count w. ring (heap m') (spokes w ! j) (?R j)" "fl_inv m' (tq_free w) F"
    using relink_spoke [OF core i _ u(3), of "{}"] u(4) by (simp_all add: Ri)
  have lv: "live ?w ?R = live w R - {n}" and nl: "n \<in> live w R"
    using live_remove [of w R F X i xs n ys, OF core i Ri] by (simp_all add: live_def)
  then have "owned ?w ?R F (insert n X)"
    using c(3) re(2) same_payload_dom [OF u(2)] same_payload_wf [OF u(2)] by (auto simp: owned_def)
  moreover have "timed ?w ?R"
  proof (rule timed_payload [OF u(2)])
    fix j assume j: "j < spoke_count w"
    have "set (?R j) \<subseteq> set (R j)" "sorted (map (tval (tq_mem w)) (R j))" using Ri c(4) j by (auto simp: timed_def)
    then show "sorted (map (tval (tq_mem w)) (?R j)) \<and> (\<forall>a \<in> set (?R j). a \<in> dom (heap (tq_mem w))
        \<and> good_time (tval (tq_mem w) a) \<and> calculate_spoke (tval (tq_mem w) a) w = j)"
      using c(4) j Ri wheel_nodes(2) [OF core j] by (auto simp: timed_def sorted_append)
  qed
  ultimately show ?thesis
    using that [OF u(1,2)] re(1) c counted_remove [OF c(5) i Ri] roots_clear_payload [OF c(6) u(2)]
    by (simp add: wheel_core_def wheel_shape_def roots_clear_def rings_def)
qed

subsection \<open>Putting a timer on a spoke\<close>

lemma walk_back_linked:
  assumes "linked (heap m) (r # xs @ ys)" "r \<notin> set (xs @ ys)" "set (xs @ ys) \<subseteq> dom (heap m)"
    and "\<forall>a \<in> set ys. tval m a > expire" "xs \<noteq> [] \<longrightarrow> tval m (List.last xs) \<le> expire"
  shows "walk_back r expire (List.last (r # xs @ ys)) m = Some (List.last (r # xs))"
  using assms(1-4)
proof (induction ys rule: rev_induct)
  case Nil
  have "List.last xs \<in> dom (heap m) \<and> List.last xs \<noteq> r" if "xs \<noteq> []"
    using last_in_set [OF that] Nil(2,3) by auto
  then show ?case
    using assms(5) get_tval [of "List.last xs" m] by (auto simp: walk_back.simps [of r expire])
next
  case (snoc y ys)
  let ?l = "List.last (r # xs @ ys)"
  have "linked (heap m) ((r # xs @ ys) @ [y])"
    using snoc.prems(1) by simp
  then have l: "linked (heap m) (r # xs @ ys)" and p: "prv (heap m) y = Some ?l"
    using linked_join [of "r # xs @ ys" "[y]" "heap m"] by auto
  have y: "y \<in> dom (heap m)" "y \<noteq> r" "tval m y > expire"
    using snoc.prems by auto
  then have "walk_back r expire y m = walk_back r expire ?l m"
    using p get_tval [OF y(1)] by (subst walk_back.simps) (simp add: get_links del: last.simps)
  also have "\<dots> = Some (List.last (r # xs))"
    using snoc.prems by (intro snoc.IH [OF l]) auto
  finally show ?case by simp
qed

lemma schedule_links_effect:
  assumes "ring (heap m) r (xs @ ys)" "n \<in> dom (heap m)" "n \<notin> insert r (set (xs @ ys))"
  defines "p \<equiv> List.last (r # xs)" and "q \<equiv> hd (ys @ [r])"
  defines "m' \<equiv> mem_next p n (mem_prev q n (mem_next n q (mem_prev n p m)))"
  shows "set_prev n p m = Some (mem_prev n p m)"
    "get_next p (mem_prev n p m) = Some q"
    "set_next n q (mem_prev n p m) = Some (mem_next n q (mem_prev n p m))"
    "get_next p (mem_next n q (mem_prev n p m)) = Some q"
    "set_prev q n (mem_next n q (mem_prev n p m)) = Some (mem_prev q n (mem_next n q (mem_prev n p m)))"
    "set_next p n (mem_prev q n (mem_next n q (mem_prev n p m))) = Some m'"
    "ring (heap m') r (xs @ n # ys)" "same_payload m m'"
    "\<forall>a. a \<notin> insert r (set (xs @ ys)) \<union> {n} \<longrightarrow> heap m' a = heap m a"
proof -
  have d: "distinct (r # xs @ ys)"
    using assms(1) by (simp add: ring_def)
  have pq: "p \<in> set (r # xs)" "q \<in> set (ys @ [r])"
    using ring_ends [OF d] by (simp_all add: p_def q_def del: last.simps)
  then have dom: "p \<in> dom (heap m)" "q \<in> dom (heap m)" and ne: "p \<noteq> n" "q \<noteq> n"
    using ring_dom [OF assms(1)] assms(3) by auto
  have nx: "nxt (heap m) p = Some q"
    using assms(1) d by (simp add: ring_split_iff p_def q_def del: last.simps)
  note simps = get_links set_links mem_links nx dom ne assms(2) m'_def
  show "set_prev n p m = Some (mem_prev n p m)" "get_next p (mem_prev n p m) = Some q"
    "set_next n q (mem_prev n p m) = Some (mem_next n q (mem_prev n p m))"
    "get_next p (mem_next n q (mem_prev n p m)) = Some q"
    "set_prev q n (mem_next n q (mem_prev n p m)) = Some (mem_prev q n (mem_next n q (mem_prev n p m)))"
    "set_next p n (mem_prev q n (mem_next n q (mem_prev n p m))) = Some m'"
    by (simp_all add: simps del: domIff)
  show "ring (heap m') r (xs @ n # ys)"
    using assms(3) dom ne assms(2)
    by (intro ring_insert [OF assms(1)])
      (auto simp: m'_def mem_links p_def [symmetric] q_def [symmetric] simp del: last.simps)
  show "same_payload m m'"
    unfolding m'_def by (meson mem_links_payload same_payload_trans)
  show "\<forall>a. a \<notin> insert r (set (xs @ ys)) \<union> {n} \<longrightarrow> heap m' a = heap m a"
  proof (intro allI impI)
    fix a assume "a \<notin> insert r (set (xs @ ys)) \<union> {n}"
    then have "a \<noteq> n" "a \<noteq> p" "a \<noteq> q" using pq by auto
    then show "heap m' a = heap m a" by (simp add: m'_def)
  qed
qed

lemma mem_wf_dom: "mem_wf m \<Longrightarrow> a \<in> dom (heap m) \<Longrightarrow> a \<noteq> NULL"
  by (auto simp: mem_wf_def)

lemma owned_wf: "owned w R F X \<Longrightarrow> mem_wf (tq_mem w)"
  by (simp add: owned_def)

lemma wheel_invD:
  assumes "wheel_inv w R F X"
  shows "wheel_core w R F X" "first_min w R"
  using assms by (simp_all add: wheel_inv_def)

lemma earliest_time_first:
  assumes "wheel_inv w R F X" "live w R \<noteq> {}"
  shows "earliest_time w = Some (tval (tq_mem w) (hd (R (earliest_spoke w))))" "R (earliest_spoke w) \<noteq> []"
    "hd (R (earliest_spoke w)) \<in> live w R" "hd (R (earliest_spoke w)) \<noteq> NULL"
proof -
  let ?e = "earliest_spoke w"
  note c = wheel_coreD [OF wheel_invD(1) [OF assms(1)]]
  show ne: "R ?e \<noteq> []"
    using assms by (auto simp: wheel_inv_def first_min_def)
  have "?e < spoke_count w" using c(1) by (simp add: wheel_shape_def)
  then show lv: "hd (R ?e) \<in> live w R"
    using ne live_spoke [of ?e w R] hd_in_set [OF ne] by blast
  then have dom: "hd (R ?e) \<in> dom (heap (tq_mem w))"
    using live_dom [OF c(2)] by blast
  then show nn: "hd (R ?e) \<noteq> NULL"
    using mem_wf_dom owned_wf [OF c(3)] by blast
  show "earliest_time w = Some (tval (tq_mem w) (hd (R ?e)))"
    using ne nn get_first_i_eq [OF c(1,2)] get_tval [OF dom] by (simp add: earliest_time_def)
qed

lemma sorted_between:
  fixes f :: "'a \<Rightarrow> 'b::linorder"
  shows "\<lbrakk>sorted (map f (xs @ ys)); \<forall>a \<in> set xs. f a \<le> t; \<forall>a \<in> set ys. t < f a; f n = t\<rbrakk> \<Longrightarrow>
    sorted (map f (xs @ n # ys))"
  by (fastforce simp: sorted_append)

lemma sorted_split:
  fixes f :: "'a \<Rightarrow> 'b::linorder"
  assumes "sorted (map f zs)"
  obtains xs ys where "zs = xs @ ys" "\<forall>a \<in> set xs. f a \<le> t" "\<forall>a \<in> set ys. t < f a"
    "\<And>n. f n = t \<Longrightarrow> sorted (map f (xs @ n # ys))"
proof -
  let ?xs = "takeWhile (\<lambda>a. f a \<le> t) zs" and ?ys = "dropWhile (\<lambda>a. f a \<le> t) zs"
  have s: "sorted (map f (?xs @ ?ys))" using assms by simp
  have xs: "\<forall>a \<in> set ?xs. f a \<le> t"
    using set_takeWhileD by fastforce
  have ys: "\<forall>a \<in> set ?ys. t < f a"
  proof (cases ?ys)
    case Nil
    show ?thesis unfolding Nil by simp
  next
    case (Cons y zs')
    then have "t < f y" using hd_dropWhile [of "\<lambda>a. f a \<le> t" zs] by auto
    then show ?thesis using s Cons by (auto simp: sorted_append)
  qed
  have "sorted (map f (?xs @ n # ?ys))" if "f n = t" for n
    using sorted_between [OF s xs ys that] .
  then show ?thesis
    using that [of ?xs ?ys] xs ys by simp
qed

lemma schedule_node_run:
  assumes core: "wheel_core w R F X" and i: "i < spoke_count w" and Ri: "R i = xs @ ys"
    and n: "n \<in> X" and xs: "\<forall>a \<in> set xs. tval (tq_mem w) a \<le> expire"
    and ys: "\<forall>a \<in> set ys. expire < tval (tq_mem w) a"
    and sooner: "(if wheel_is_empty w then Some True else do { e \<leftarrow> earliest_time w; Some (expire < e) }) = Some b"
  obtains m' where "schedule_node n i expire w =
      Some ((if b then w\<lparr>earliest_spoke := i\<rparr> else w)\<lparr>timer_count := timer_count w + 1, tq_mem := m'\<rparr>)"
    "ring (heap m') (spokes w ! i) (xs @ n # ys)" "same_payload (tq_mem w) m'"
    "\<forall>a. a \<notin> insert (spokes w ! i) (set (R i)) \<union> {n} \<longrightarrow> heap m' a = heap (tq_mem w) a"
proof -
  note c = wheel_coreD [OF core]
  let ?r = "spokes w ! i" and ?m = "tq_mem w"
  have ring: "ring (heap ?m) ?r (xs @ ys)"
    using c(2) i Ri by (metis rings_def)
  have nd: "n \<in> dom (heap ?m)" and nf: "n \<notin> insert ?r (set (xs @ ys))"
    using c(3) n wheel_nodes(1) [OF core i] Ri by (auto simp: owned_def)
  note eff = schedule_links_effect [OF ring nd nf]
  let ?p = "List.last (?r # xs)" and ?q = "hd (ys @ [?r])"
  let ?m' = "mem_next ?p n (mem_prev ?q n (mem_next n ?q (mem_prev n ?p ?m)))"
  have at: "spoke_at i (if b then w\<lparr>earliest_spoke := i\<rparr> else w) = Some ?r"
    using c(1) i by (simp add: spoke_at_def wheel_shape_def)
  have prev: "get_prev ?r ?m = Some (List.last (?r # xs @ ys))"
    using ring_last [OF ring] by (simp add: get_links)
  have empty: "List.last (?r # xs @ ys) = ?r \<longleftrightarrow> xs @ ys = []"
    using ring last_in_set [of "xs @ ys"] by (auto simp: ring_def)
  have "linked (heap ?m) ((?r # xs @ ys) @ [?r])" using ring by (simp add: ring_def)
  then have lk: "linked (heap ?m) (?r # xs @ ys)"
    using linked_join [of "?r # xs @ ys" "[?r]" "heap ?m"] by auto
  have wb: "walk_back ?r expire (List.last (?r # xs @ ys)) ?m = Some ?p"
    using ring ring_dom [OF ring] xs ys by (intro walk_back_linked [OF lk]) (auto simp: ring_def)
  have run: "schedule_node n i expire w =
      Some ((if b then w\<lparr>earliest_spoke := i\<rparr> else w)\<lparr>timer_count := timer_count w + 1, tq_mem := ?m'\<rparr>)"
  proof (cases "xs @ ys = []")
    case True
    then show ?thesis
      using eff(1,3,5,6) prev by (simp add: schedule_node_def sooner at)
  next
    case False
    then have "(List.last (?r # xs @ ys) = ?r) = False"
      using empty by blast
    then show ?thesis
      using eff(1-6) prev wb by (simp add: schedule_node_def sooner at Let_def del: last.simps)
  qed
  show ?thesis
    by (rule that [OF run]) (use eff(7-9) Ri in simp_all)
qed

end
