(* ===== verification/Timer_Wheel_Ops.thy ===== *)
theory Timer_Wheel_Ops
  imports Timer_Wheel_Inv "HOL-Library.Multiset"
begin

section \<open>The timer wheel as a collection of timers\<close>

text \<open>
  What the wheel holds, without the order of its lists, is the multiset \<open>pending\<close> of its timers (nodes
  without links). The operations are shown to add and remove exactly the timers they should, to keep
  the invariant and to lose no node.
\<close>

subsection \<open>The pending timers\<close>

definition timer_at :: "Memory \<Rightarrow> addr \<Rightarrow> Node" where
  "timer_at m a = payload (the (heap m a))"

definition pending :: "TimerWheel \<Rightarrow> (nat \<Rightarrow> addr list) \<Rightarrow> Node multiset" where
  "pending w R = (\<Sum>i < spoke_count w. mset (map (timer_at (tq_mem w)) (R i)))"

text \<open>What no operation after the construction changes.\<close>

definition same_config :: "TimerWheel \<Rightarrow> TimerWheel \<Rightarrow> bool" where
  "same_config w w' \<longleftrightarrow>
     spokes w' = spokes w \<and> spoke_count w' = spoke_count w \<and> spoke_bits w' = spoke_bits w
     \<and> res_bits w' = res_bits w"

lemma same_config_spoke: "same_config w w' \<Longrightarrow> calculate_spoke t w' = calculate_spoke t w"
  by (simp add: same_config_def calculate_spoke_def)

lemma same_config_live: "same_config w w' \<Longrightarrow> live w' R = live w R"
  by (simp add: same_config_def live_def)

lemma timer_at_payload: "same_payload m m' \<Longrightarrow> a \<in> dom (heap m) \<Longrightarrow> timer_at m' a = timer_at m a"
  unfolding timer_at_def by (metis domD option.sel same_payload_Some)

lemma timer_at_value [simp]: "n_timer_value (timer_at m a) = tval m a"
  by (simp add: timer_at_def payload_def tval_def)

lemma pending_payload:
  assumes "same_payload (tq_mem w) (tq_mem w')" "live w R \<subseteq> dom (heap (tq_mem w))"
    "spoke_count w' = spoke_count w"
  shows "pending w' R = pending w R"
proof -
  have "mset (map (timer_at (tq_mem w')) (R i)) = mset (map (timer_at (tq_mem w)) (R i))" if "i < spoke_count w" for i
    using assms(2) live_spoke [OF that, of R]
    by (intro arg_cong [of _ _ mset] map_cong refl timer_at_payload [OF assms(1)]) blast
  then show ?thesis
    unfolding pending_def assms(3) by (intro sum.cong) simp_all
qed

lemma pending_upd:
  assumes "i < spoke_count w" "R i = xs @ ys"
  shows "pending w (R(i := xs @ n # ys)) = add_mset (timer_at (tq_mem w) n) (pending w R)"
proof -
  have "pending w (R(i := xs @ n # ys)) + mset (map (timer_at (tq_mem w)) (xs @ ys))
      = pending w R + mset (map (timer_at (tq_mem w)) (xs @ n # ys))"
    using sum_upd [OF assms(1), of "\<lambda>zs. mset (map (timer_at (tq_mem w)) zs)" R "xs @ n # ys"] assms(2)
    by (simp only: pending_def)
  then show ?thesis by simp
qed

lemma pending_remove:
  assumes "i < spoke_count w" "R i = xs @ n # ys"
  shows "pending w R = add_mset (timer_at (tq_mem w) n) (pending w (R(i := xs @ ys)))"
  using pending_upd [of i w "R(i := xs @ ys)" xs ys n] assms
  by (simp add: fun_upd_idem)

lemma pending_size: "size (pending w R) = (\<Sum>i < spoke_count w. length (R i))"
  by (simp add: pending_def size_multiset_sum)

lemma pending_set: "set_mset (pending w R) = timer_at (tq_mem w) ` live w R"
  by (auto simp: pending_def live_def set_mset_sum)

lemma pending_upd_simps [simp]:
  "pending (w\<lparr>earliest_spoke := e\<rparr>) R = pending w R" "pending (w\<lparr>timer_count := k\<rparr>) R = pending w R"
  "pending (w\<lparr>tq_free := fl\<rparr>) R = pending w R"
  by (simp_all add: pending_def)

subsection \<open>Scheduling a node\<close>

lemma live_insert:
  assumes "i < spoke_count w" "R i = xs @ ys"
  shows "live w (R(i := xs @ n # ys)) = insert n (live w R)"
  unfolding live_upd(1) [OF assms(1)] live_upd(2) [OF assms(1), of R] by (auto simp: assms(2))

lemma counted_insert:
  assumes "counted w R" "i < spoke_count w" "R i = xs @ ys" "size (pending w R) + 1 < 2 ^ 32"
  shows "counted (w\<lparr>timer_count := timer_count w + 1, tq_mem := m'\<rparr>) (R(i := xs @ n # ys))"
proof -
  have "(\<Sum>j < spoke_count w. length ((R(i := xs @ n # ys)) j)) = Suc (\<Sum>j < spoke_count w. length (R j))"
    using sum_upd [OF assms(2), of length R "xs @ n # ys"] assms(3) by simp
  then show ?thesis
    using assms(1,4) by (simp add: counted_def pending_size del: of_nat_sum)
qed

lemma schedule_core:
  assumes core: "wheel_core w R F X" and n: "n \<in> X" and g: "good_time (tval (tq_mem w) n)"
    and i: "i = calculate_spoke (tval (tq_mem w) n) w" and Ri: "R i = xs @ ys"
    and srt: "sorted (map (tval (tq_mem w)) (xs @ n # ys))"
    and m': "ring (heap m') (spokes w ! i) (xs @ n # ys)" "same_payload (tq_mem w) m'"
      "\<forall>a. a \<notin> insert (spokes w ! i) (set (R i)) \<union> {n} \<longrightarrow> heap m' a = heap (tq_mem w) a"
    and size: "size (pending w R) + 1 < 2 ^ 32"
  shows "wheel_core (w\<lparr>timer_count := timer_count w + 1, tq_mem := m'\<rparr>) (R(i := xs @ n # ys)) F (X - {n})"
proof -
  note c = wheel_coreD [OF core]
  let ?w = "w\<lparr>timer_count := timer_count w + 1, tq_mem := m'\<rparr>" and ?R = "R(i := xs @ n # ys)"
  have i_less: "i < spoke_count w"
    using calculate_spoke_less [OF c(1) g] i by simp
  have re: "\<forall>j < spoke_count w. ring (heap m') (spokes w ! j) (?R j)" "fl_inv m' (tq_free w) F"
    using relink_spoke [OF core i_less _ m'(1), of "{n}"] m'(3) n by simp_all
  have dom: "n \<in> dom (heap (tq_mem w))"
    using c(3) n by (auto simp: owned_def)
  have lv: "live ?w ?R = insert n (live w R)"
    using live_insert [of i w R xs ys n, OF i_less Ri] by (simp add: live_def)
  have "owned ?w ?R F (X - {n})"
    using c(3) n lv re(2) same_payload_dom [OF m'(2)] same_payload_wf [OF m'(2)] by (auto simp: owned_def)
  moreover have "timed ?w ?R"
  proof (rule timed_payload [OF m'(2)])
    fix j assume j: "j < spoke_count w"
    show "sorted (map (tval (tq_mem w)) (?R j)) \<and> (\<forall>a \<in> set (?R j). a \<in> dom (heap (tq_mem w))
        \<and> good_time (tval (tq_mem w) a) \<and> calculate_spoke (tval (tq_mem w) a) w = j)"
    proof (cases "j = i")
      case True
      then show ?thesis
        using c(4) j Ri wheel_nodes(2) [OF core j] srt g i dom by (auto simp: timed_def)
    next
      case False
      then show ?thesis
        using c(4) j wheel_nodes(2) [OF core j] by (auto simp: timed_def)
    qed
  qed
  ultimately show ?thesis
    using re(1) c counted_insert [of w R i xs ys, OF c(5) i_less Ri size] roots_clear_payload [OF c(6) m'(2)]
    by (simp add: wheel_core_def wheel_shape_def roots_clear_def rings_def)
qed

lemma first_min_insert:
  assumes inv: "wheel_inv w R F X" and i: "i < spoke_count w" and Ri: "R i = xs @ ys"
    and tv: "\<forall>a \<in> insert n (live w R). tval m' a = tval (tq_mem w) a"
    and xs: "\<forall>a \<in> set xs. tval (tq_mem w) a \<le> tval (tq_mem w) n"
    and ys: "\<forall>a \<in> set ys. tval (tq_mem w) n < tval (tq_mem w) a"
    and b: "b \<longleftrightarrow> live w R = {} \<or> tval (tq_mem w) n < tval (tq_mem w) (hd (R (earliest_spoke w)))"
  shows "first_min (w\<lparr>earliest_spoke := if b then i else earliest_spoke w, timer_count := k, tq_mem := m'\<rparr>)
    (R(i := xs @ n # ys))"
proof -
  let ?t = "tval (tq_mem w)" and ?R = "R(i := xs @ n # ys)" and ?e = "earliest_spoke w"
  have lv: "live w ?R = insert n (live w R)"
    using live_insert [OF i, of R] Ri by simp
  have fm: "R ?e \<noteq> [] \<and> ?t (hd (R ?e)) \<le> ?t a" if "a \<in> live w R" for a
    using inv that by (auto simp: wheel_inv_def first_min_def)
  have xl: "set xs \<subseteq> live w R"
    using live_spoke [OF i, of R] Ri by simp
  define h where "h = hd (?R (if b then i else ?e))"
  have main: "?R (if b then i else ?e) \<noteq> [] \<and> h \<in> insert n (live w R) \<and> ?t h \<le> ?t a" if "a \<in> insert n (live w R)" for a
  proof (cases b)
    case True
    have "xs = []"
    proof (rule ccontr)
      assume "xs \<noteq> []"
      then have "hd xs \<in> set xs" by simp
      then show False
        using True b fm [of "hd xs"] xl xs by fastforce
    qed
    then have "h = n" using True by (simp add: h_def)
    moreover have "?t n \<le> ?t a"
      using True b fm that by fastforce
    ultimately show ?thesis using True \<open>xs = []\<close> by simp
  next
    case False
    then have ne: "live w R \<noteq> {}" and le: "?t (hd (R ?e)) \<le> ?t n" using b by auto
    then have Re: "R ?e \<noteq> []" and hl: "hd (R ?e) \<in> live w R"
      using earliest_time_first [OF inv] by auto
    have "?e = i \<Longrightarrow> xs \<noteq> []"
      using le Re Ri ys by (cases ys) auto
    then have "h = hd (R ?e)"
      using False Ri by (auto simp: h_def)
    then show ?thesis
      using False Re hl le fm that by (cases "?e = i") auto
  qed
  show ?thesis
    unfolding first_min_def
  proof
    fix a assume "a \<in> live (w\<lparr>earliest_spoke := if b then i else ?e, timer_count := k, tq_mem := m'\<rparr>) ?R"
    then have a: "a \<in> insert n (live w R)" using lv by simp
    then have "tval m' a = ?t a" "tval m' h = ?t h"
      using main [OF a] tv by blast+
    then show "?R (earliest_spoke (w\<lparr>earliest_spoke := if b then i else ?e, timer_count := k, tq_mem := m'\<rparr>)) \<noteq> []
      \<and> tval (tq_mem (w\<lparr>earliest_spoke := if b then i else ?e, timer_count := k, tq_mem := m'\<rparr>))
          (hd (?R (earliest_spoke (w\<lparr>earliest_spoke := if b then i else ?e, timer_count := k, tq_mem := m'\<rparr>))))
        \<le> tval (tq_mem (w\<lparr>earliest_spoke := if b then i else ?e, timer_count := k, tq_mem := m'\<rparr>)) a"
      using main [OF a] by (simp add: h_def del: fun_upd_apply)
  qed
qed

lemma schedule_node_inv:
  assumes inv: "wheel_inv w R F X" and n: "n \<in> X" and g: "good_time (tval (tq_mem w) n)"
    and size: "size (pending w R) + 1 < 2 ^ 32"
  obtains e m' R' where
    "schedule_node n (calculate_spoke (tval (tq_mem w) n) w) (tval (tq_mem w) n) w =
       Some (w\<lparr>earliest_spoke := e, timer_count := timer_count w + 1, tq_mem := m'\<rparr>)"
    "wheel_inv (w\<lparr>earliest_spoke := e, timer_count := timer_count w + 1, tq_mem := m'\<rparr>) R' F (X - {n})"
    "pending (w\<lparr>earliest_spoke := e, timer_count := timer_count w + 1, tq_mem := m'\<rparr>) R' =
       add_mset (timer_at (tq_mem w) n) (pending w R)"
    "same_payload (tq_mem w) m'" "live w R' = insert n (live w R)"
proof -
  note core = wheel_invD(1) [OF inv]
  note c = wheel_coreD [OF core]
  let ?t = "tval (tq_mem w)" and ?i = "calculate_spoke (tval (tq_mem w) n) w"
  define b where "b \<longleftrightarrow> live w R = {} \<or> ?t n < ?t (hd (R (earliest_spoke w)))"
  have i: "?i < spoke_count w"
    by (rule calculate_spoke_less [OF c(1) g])
  have "sorted (map ?t (R ?i))"
    using c(4) i by (simp add: timed_def)
  then obtain xs ys where Ri: "R ?i = xs @ ys" and le: "\<forall>a \<in> set xs. ?t a \<le> ?t n" "\<forall>a \<in> set ys. ?t n < ?t a"
    and srt: "sorted (map ?t (xs @ n # ys))"
    using sorted_split [of ?t "R ?i" "?t n"] by metis
  have sooner: "(if wheel_is_empty w then Some True else do { e \<leftarrow> earliest_time w; Some (?t n < e) }) = Some b"
    using counted_empty [OF c(5)] earliest_time_first(1) [OF inv] by (simp add: b_def)
  obtain m' where m': "schedule_node n ?i (?t n) w =
      Some ((if b then w\<lparr>earliest_spoke := ?i\<rparr> else w)\<lparr>timer_count := timer_count w + 1, tq_mem := m'\<rparr>)"
    "ring (heap m') (spokes w ! ?i) (xs @ n # ys)" "same_payload (tq_mem w) m'"
    "\<forall>a. a \<notin> insert (spokes w ! ?i) (set (R ?i)) \<union> {n} \<longrightarrow> heap m' a = heap (tq_mem w) a"
    by (rule schedule_node_run [OF core i Ri n le sooner])
  let ?e = "if b then ?i else earliest_spoke w" and ?R = "R(?i := xs @ n # ys)"
  let ?w = "w\<lparr>earliest_spoke := ?e, timer_count := timer_count w + 1, tq_mem := m'\<rparr>"
  have "wheel_core (w\<lparr>timer_count := timer_count w + 1, tq_mem := m'\<rparr>) ?R F (X - {n})"
    by (rule schedule_core [OF core n g refl Ri srt m'(2-4) size])
  then have "wheel_core ((w\<lparr>timer_count := timer_count w + 1, tq_mem := m'\<rparr>)\<lparr>earliest_spoke := ?e\<rparr>) ?R F (X - {n})"
    using i by (intro wheel_core_earliest) (auto dest: wheel_coreD(1) simp: wheel_shape_def)
  moreover have "(w\<lparr>timer_count := timer_count w + 1, tq_mem := m'\<rparr>)\<lparr>earliest_spoke := ?e\<rparr> = ?w"
    by simp
  ultimately have "wheel_core ?w ?R F (X - {n})" by metis
  moreover have ld: "insert n (live w R) \<subseteq> dom (heap (tq_mem w))"
    using c(3) n by (auto simp: owned_def)
  have "first_min ?w ?R"
    using ld same_payload_tval [OF m'(3)] by (intro first_min_insert [OF inv i Ri _ le]) (auto simp: b_def)
  ultimately have "wheel_inv ?w ?R F (X - {n})"
    by (simp add: wheel_inv_def)
  moreover have "pending ?w ?R = add_mset (timer_at (tq_mem w) n) (pending w R)"
    using pending_payload [of w ?w ?R] m'(3) ld live_insert [OF i, of R] pending_upd [OF i, of R] Ri by simp
  ultimately show ?thesis
    using that [of m' ?e ?R] m'(1,3) live_insert [OF i, of R] Ri by (cases b) simp_all
qed

subsection \<open>The pool and the wheel\<close>

text \<open>A change outside the timers that keeps the links of the roots keeps the invariant.\<close>

lemma core_frame_roots:
  assumes core: "wheel_core w R F X"
    and frame: "\<forall>a \<in> live w R. heap m' a = heap (tq_mem w) a"
    and roots: "\<forall>r \<in> set (spokes w). nxt (heap m') r = nxt (heap (tq_mem w)) r
      \<and> prv (heap m') r = prv (heap (tq_mem w)) r \<and> get_act1 r m' = get_act1 r (tq_mem w)"
    and pool: "mem_wf m'" "fl_inv m' fl' F'" "fl_supply fl'"
    and X': "dom (heap m') - set F' = set (spokes w) \<union> live w R \<union> X'" "(set (spokes w) \<union> live w R) \<inter> X' = {}"
  shows "wheel_core (w\<lparr>tq_free := fl', tq_mem := m'\<rparr>) R F' X'"
    "first_min w R \<Longrightarrow> first_min (w\<lparr>tq_free := fl', tq_mem := m'\<rparr>) R"
    "pending (w\<lparr>tq_free := fl', tq_mem := m'\<rparr>) R = pending w R"
proof -
  note c = wheel_coreD [OF core]
  let ?w = "w\<lparr>tq_free := fl', tq_mem := m'\<rparr>"
  have at: "nxt (heap m') a = nxt (heap (tq_mem w)) a \<and> prv (heap m') a = prv (heap (tq_mem w)) a"
    if "i < spoke_count w" "a \<in> insert (spokes w ! i) (set (R i))" for i a
  proof (cases "a = spokes w ! i")
    case True
    then show ?thesis using roots wheel_nodes(3) [OF core that(1)] by blast
  next
    case False
    then have "a \<in> live w R" using that live_spoke [OF that(1), of R] by blast
    then show ?thesis using frame by (simp add: nxt_def prv_def)
  qed
  have tv: "tval m' a = tval (tq_mem w) a" "timer_at m' a = timer_at (tq_mem w) a" if "a \<in> live w R" for a
    using frame that by (simp_all add: tval_def timer_at_def)
  have "rings ?w R"
    using c(2) at by (auto simp: rings_def intro: ring_cong)
  moreover have "set F' \<subseteq> dom (heap m')"
    using locked.pool_dom [OF pool(2)] by simp
  then have "owned ?w R F' X'"
    using c(3) pool X' unfolding owned_def by auto
  moreover have "map (tval m') (R i) = map (tval (tq_mem w)) (R i)" if "i < spoke_count w" for i
    using live_spoke [OF that, of R] tv(1) by (intro map_cong) auto
  then have "sorted (map (tval m') (R i))" if "i < spoke_count w" for i
    using c(4) that unfolding timed_def by metis
  then have "timed ?w R"
    using c(4) tv(1) live_spoke unfolding timed_def by fastforce
  moreover have "counted ?w R" "wheel_shape ?w"
    using c(1,5) by (simp_all add: counted_def wheel_shape_def del: of_nat_sum)
  moreover have "roots_clear ?w"
    using c(6) roots by (simp add: roots_clear_def)
  ultimately show "wheel_core ?w R F' X'"
    by (simp add: wheel_core_def)
  show "first_min ?w R" if fm: "first_min w R"
    unfolding first_min_def
  proof
    fix a assume "a \<in> live ?w R"
    then have a: "a \<in> live w R" by simp
    have "R (earliest_spoke w) \<noteq> []" using fm a by (simp add: first_min_def)
    moreover have "earliest_spoke w < spoke_count w" using c(1) by (simp add: wheel_shape_def)
    ultimately have "hd (R (earliest_spoke w)) \<in> live w R"
      using live_spoke hd_in_set by blast
    then show "R (earliest_spoke ?w) \<noteq> [] \<and> tval (tq_mem ?w) (hd (R (earliest_spoke ?w))) \<le> tval (tq_mem ?w) a"
      using fm a tv(1) by (simp add: first_min_def)
  qed
  have "mset (map (timer_at m') (R i)) = mset (map (timer_at (tq_mem w)) (R i))" if "i < spoke_count w" for i
    using live_spoke [OF that, of R] tv(2) by (intro arg_cong [of _ _ mset] map_cong) auto
  then show "pending ?w R = pending w R"
    unfolding pending_def by (intro sum.cong) simp_all
qed

lemma core_frame:
  assumes core: "wheel_core w R F X"
    and frame: "\<forall>a \<in> set (spokes w) \<union> live w R. heap m' a = heap (tq_mem w) a"
    and pool: "mem_wf m'" "fl_inv m' fl' F'" "fl_supply fl'"
    and X': "dom (heap m') - set F' = set (spokes w) \<union> live w R \<union> X'" "(set (spokes w) \<union> live w R) \<inter> X' = {}"
  shows "wheel_core (w\<lparr>tq_free := fl', tq_mem := m'\<rparr>) R F' X'"
    "first_min w R \<Longrightarrow> first_min (w\<lparr>tq_free := fl', tq_mem := m'\<rparr>) R"
    "pending (w\<lparr>tq_free := fl', tq_mem := m'\<rparr>) R = pending w R"
proof -
  have "\<forall>a \<in> live w R. heap m' a = heap (tq_mem w) a"
    and "\<forall>r \<in> set (spokes w). nxt (heap m') r = nxt (heap (tq_mem w)) r
      \<and> prv (heap m') r = prv (heap (tq_mem w)) r \<and> get_act1 r m' = get_act1 r (tq_mem w)"
    using frame by (auto simp: nxt_def prv_def get_act1_def)
  note f = core_frame_roots [OF core this pool X']
  show "wheel_core (w\<lparr>tq_free := fl', tq_mem := m'\<rparr>) R F' X'"
    "first_min w R \<Longrightarrow> first_min (w\<lparr>tq_free := fl', tq_mem := m'\<rparr>) R"
    "pending (w\<lparr>tq_free := fl', tq_mem := m'\<rparr>) R = pending w R"
    by (fact f)+
qed

lemma owned_pool:
  assumes "owned w R F X"
  shows "fl_inv (tq_mem w) (tq_free w) F" "mem_wf (tq_mem w)" "fl_supply (tq_free w)"
    "dom (heap (tq_mem w)) - set F = set (spokes w) \<union> live w R \<union> X"
    "(set (spokes w) \<union> live w R) \<inter> X = {}"
  using assms by (auto simp: owned_def)

lemma free_node_core:
  assumes core: "wheel_core w R F X" and n: "n \<in> X"
  obtains fl' m' F' where "free_node n w = Some (w\<lparr>tq_free := fl', tq_mem := m'\<rparr>)"
    "wheel_core (w\<lparr>tq_free := fl', tq_mem := m'\<rparr>) R F' (X - {n})"
    "first_min w R \<longrightarrow> first_min (w\<lparr>tq_free := fl', tq_mem := m'\<rparr>) R"
    "pending (w\<lparr>tq_free := fl', tq_mem := m'\<rparr>) R = pending w R" "same_nodes {n} (tq_mem w) m'"
proof -
  note o = owned_pool [OF wheel_coreD(3) [OF core]]
  have nF: "n \<in> dom (heap (tq_mem w))" "n \<notin> set F"
    using o(4) n by blast+
  obtain fl' m' F' where f: "fl_add n (tq_free w) (tq_mem w) = Some (fl', m')" "fl_inv m' fl' F'" "mem_wf m'"
    "same_nodes {n} (tq_mem w) m'" "dom (heap m') - set F' = dom (heap (tq_mem w)) - set F - {n}" "fl_supply fl'"
    using locked.add_law [OF o(1,2) nF] o(3) by (elim exE conjE impE) (assumption, rule that)
  have fr: "\<forall>a \<in> set (spokes w) \<union> live w R. heap m' a = heap (tq_mem w) a"
  proof
    fix a assume "a \<in> set (spokes w) \<union> live w R"
    then have "a \<noteq> n" using o(5) n by auto
    then show "heap m' a = heap (tq_mem w) a" using f(4) by (simp add: same_nodes_def)
  qed
  have X: "dom (heap m') - set F' = set (spokes w) \<union> live w R \<union> (X - {n})"
    "(set (spokes w) \<union> live w R) \<inter> (X - {n}) = {}"
    unfolding f(5) o(4) using n o(5) by auto
  show ?thesis
    using core_frame [OF core fr f(3,2,6) X]
    by (intro that [OF _ _ _ _ f(4)]) (simp_all add: free_node_def f(1))
qed

lemma alloc_node_inv:
  assumes inv: "wheel_inv w R F X"
  obtains n fl' m' F' where "alloc_node w = Some (n, w\<lparr>tq_free := fl', tq_mem := m'\<rparr>)"
    "wheel_inv (w\<lparr>tq_free := fl', tq_mem := m'\<rparr>) R F' (insert n X)"
    "pending (w\<lparr>tq_free := fl', tq_mem := m'\<rparr>) R = pending w R" "n \<noteq> NULL"
    "n \<notin> X" "\<forall>a \<in> set (spokes w) \<union> live w R \<union> X. heap m' a = heap (tq_mem w) a"
proof -
  note core = wheel_invD(1) [OF inv]
  note o = owned_pool [OF wheel_coreD(3) [OF core]]
  obtain n fl' m' F' where f: "fl_remove (tq_free w) (tq_mem w) = Some (n, fl', m')" "fl_inv m' fl' F'" "mem_wf m'"
    "n \<noteq> NULL" "n \<notin> dom (heap (tq_mem w)) - set F"
    "dom (heap m') - set F' = insert n (dom (heap (tq_mem w)) - set F)"
    "same_nodes (- dom (heap (tq_mem w))) (tq_mem w) m'" "fl_supply fl'"
    using locked.remove_law [OF o(1,2,3)] by (elim exE conjE) (rule that)
  have all: "\<forall>a \<in> set (spokes w) \<union> live w R \<union> X. heap m' a = heap (tq_mem w) a"
    using f(7) o(4) unfolding same_nodes_def by blast
  then have fr: "\<forall>a \<in> set (spokes w) \<union> live w R. heap m' a = heap (tq_mem w) a" by blast
  have nX: "n \<notin> X" "n \<notin> set (spokes w) \<union> live w R"
    using f(5) unfolding o(4) by auto
  have X: "dom (heap m') - set F' = set (spokes w) \<union> live w R \<union> insert n X"
    "(set (spokes w) \<union> live w R) \<inter> insert n X = {}"
    unfolding f(6) o(4) using o(5) nX by auto
  show ?thesis
  proof (rule that)
    show "alloc_node w = Some (n, w\<lparr>tq_free := fl', tq_mem := m'\<rparr>)"
      by (simp add: alloc_node_def f(1))
    show "wheel_inv (w\<lparr>tq_free := fl', tq_mem := m'\<rparr>) R F' (insert n X)"
      using core_frame(1,2) [OF core fr f(3,2,8) X] wheel_invD(2) [OF inv] by (simp add: wheel_inv_def)
    show "pending (w\<lparr>tq_free := fl', tq_mem := m'\<rparr>) R = pending w R"
      by (rule core_frame(3) [OF core fr f(3,2,8) X])
    show "n \<noteq> NULL" "n \<notin> X" "\<forall>a \<in> set (spokes w) \<union> live w R \<union> X. heap m' a = heap (tq_mem w) a"
      using f(4) nX(1) all by auto
  qed
qed

subsection \<open>Removing the first timer\<close>

text \<open>
  After the first timer is off its spoke, the search for the earliest spoke restores the invariant.
\<close>

lemma recalc_restores:
  assumes core: "wheel_core w R F X" and t: "good_time t" "calculate_spoke t w = earliest_spoke w"
    and le: "\<forall>a \<in> live w R. t \<le> tval (tq_mem w) a"
  obtains e where "recalc_earliest t w = Some (w\<lparr>earliest_spoke := e\<rparr>)"
    "wheel_inv (w\<lparr>earliest_spoke := e\<rparr>) R F X"
proof -
  note c = wheel_coreD [OF core]
  obtain e where e: "e < spoke_count w" "recalc_earliest t w = Some (w\<lparr>earliest_spoke := e\<rparr>)"
    "\<forall>a \<in> live w R. R e \<noteq> [] \<and> tval (tq_mem w) (hd (R e)) \<le> tval (tq_mem w) a"
    using recalc_earliest_first [OF c(1,2,4,5) t le] by blast
  then have "first_min (w\<lparr>earliest_spoke := e\<rparr>) R"
    by (simp add: first_min_def)
  then show ?thesis
    using that [OF e(2)] wheel_core_earliest [OF core e(1)] by (simp add: wheel_inv_def)
qed

lemma first_facts:
  assumes inv: "wheel_inv w R F X" and ne: "live w R \<noteq> {}"
  obtains n ys where "R (earliest_spoke w) = n # ys" "earliest_spoke w < spoke_count w" "n \<in> live w R"
    "n \<noteq> NULL" "n \<in> dom (heap (tq_mem w))" "get_first_i w = Some n" "good_time (tval (tq_mem w) n)"
    "calculate_spoke (tval (tq_mem w) n) w = earliest_spoke w"
    "\<forall>a \<in> live w R. tval (tq_mem w) n \<le> tval (tq_mem w) a"
proof -
  note c = wheel_coreD [OF wheel_invD(1) [OF inv]]
  let ?e = "earliest_spoke w"
  obtain n ys where R: "R ?e = n # ys"
    using earliest_time_first(2) [OF inv ne] by (cases "R ?e") auto
  have e: "?e < spoke_count w" using c(1) by (simp add: wheel_shape_def)
  have l: "n \<in> live w R" "n \<noteq> NULL"
    using earliest_time_first(3,4) [OF inv ne] R by auto
  moreover have "n \<in> dom (heap (tq_mem w))"
    using l(1) live_dom [OF c(2)] by blast
  moreover have "get_first_i w = Some n"
    using get_first_i_eq [OF c(1,2)] R by simp
  moreover have "good_time (tval (tq_mem w) n)" "calculate_spoke (tval (tq_mem w) n) w = ?e"
    using c(4) e R by (auto simp: timed_def)
  moreover have "\<forall>a \<in> live w R. tval (tq_mem w) n \<le> tval (tq_mem w) a"
    using wheel_invD(2) [OF inv] R by (simp add: first_min_def)
  ultimately show ?thesis
    using that [OF R e] by blast
qed

lemma remove_first_inv:
  assumes inv: "wheel_inv w R F X" and ne: "live w R \<noteq> {}"
  obtains n w' R' where "remove_first w = Some (n, w')" "n \<in> live w R" "n \<noteq> NULL"
    "wheel_inv w' R' F (insert n X)" "pending w R = add_mset (timer_at (tq_mem w) n) (pending w' R')"
    "\<forall>a \<in> live w R. tval (tq_mem w) n \<le> tval (tq_mem w) a"
    "same_payload (tq_mem w) (tq_mem w')" "same_config w w'" "live w' R' = live w R - {n}"
    "earliest_time w = Some (tval (tq_mem w) n)"
proof -
  note core = wheel_invD(1) [OF inv]
  let ?e = "earliest_spoke w"
  obtain n ys where f: "R ?e = n # ys" "?e < spoke_count w" "n \<in> live w R" "n \<noteq> NULL"
    "n \<in> dom (heap (tq_mem w))" "get_first_i w = Some n" "good_time (tval (tq_mem w) n)"
    "calculate_spoke (tval (tq_mem w) n) w = ?e" "\<forall>a \<in> live w R. tval (tq_mem w) n \<le> tval (tq_mem w) a"
    by (rule first_facts [OF inv ne])
  let ?R = "R(?e := ys)"
  obtain m' where u: "unlink n w = Some (w\<lparr>timer_count := timer_count w - 1, tq_mem := m'\<rparr>)"
    "same_payload (tq_mem w) m'"
    "wheel_core (w\<lparr>timer_count := timer_count w - 1, tq_mem := m'\<rparr>) ?R F (insert n X)"
    using unlink_core [OF core f(2), of "[]" n ys] f(1) by auto
  let ?w = "w\<lparr>timer_count := timer_count w - 1, tq_mem := m'\<rparr>"
  have lv: "live w ?R = live w R - {n}"
    using live_remove(1) [OF core f(2), of "[]" n ys] f(1) by simp
  have dom: "live w R \<subseteq> dom (heap (tq_mem w))"
    by (rule live_dom [OF wheel_coreD(2) [OF core]])
  have tv: "tval m' a = tval (tq_mem w) a" if "a \<in> live w R" for a
    using same_payload_tval [OF u(2)] dom that by blast
  obtain e where e: "recalc_earliest (tval (tq_mem w) n) ?w = Some (?w\<lparr>earliest_spoke := e\<rparr>)"
    "wheel_inv (?w\<lparr>earliest_spoke := e\<rparr>) ?R F (insert n X)"
    by (rule recalc_restores [OF u(3) f(7)]) (use f(8,9) lv tv in auto)
  have "remove_first w = Some (n, ?w\<lparr>earliest_spoke := e\<rparr>)"
    using f(4,6) get_tval [OF f(5)] tv [OF f(3)] get_tval [of n m'] same_payload_dom [OF u(2)] f(5) u(1) e(1)
    by (simp add: remove_first_def remove_first_expired_def get_first_def tv_zero_eq tv_zero_def [symmetric])
  moreover have "pending w R = add_mset (timer_at (tq_mem w) n) (pending (?w\<lparr>earliest_spoke := e\<rparr>) ?R)"
  proof -
    have "live w ?R \<subseteq> dom (heap (tq_mem w))" using lv dom by auto
    then have "pending ?w ?R = pending w ?R"
      using pending_payload [of w ?w ?R] u(2) by simp
    then show ?thesis
      using pending_remove [OF f(2), of R "[]" n ys] f(1) by simp
  qed
  moreover have "earliest_time w = Some (tval (tq_mem w) n)"
    using earliest_time_first(1) [OF inv ne] f(1) by simp
  ultimately show ?thesis
    using that [OF _ f(3,4) e(2) _ f(9)] u(2) lv by (simp add: same_config_def)
qed

subsection \<open>Finding and cancelling a timer\<close>

definition tid :: "Memory \<Rightarrow> addr \<Rightarrow> int" where
  "tid m a = n_timer_id (the (heap m a))"

lemma get_tid: "a \<in> dom (heap m) \<Longrightarrow> get_timer_id a m = Some (tid m a)"
  by (auto simp: get_timer_id_def tid_def)

text \<open>\<open>found m i A n\<close>: the result of a search for the identifier \<open>i\<close> among the nodes \<open>A\<close>.\<close>

definition found :: "Memory \<Rightarrow> int \<Rightarrow> addr set \<Rightarrow> addr \<Rightarrow> bool" where
  "found m i A n \<longleftrightarrow> (if n = NULL then \<forall>a \<in> A. tid m a \<noteq> i else n \<in> A \<and> tid m n = i)"

lemma found_Un: "found m i A n \<Longrightarrow> n \<noteq> NULL \<or> found m i B n \<Longrightarrow> found m i (A \<union> B) n"
  by (auto simp: found_def split: if_splits)

lemma found_mono: "found m i A n \<Longrightarrow> n \<noteq> NULL \<Longrightarrow> A \<subseteq> B \<Longrightarrow> found m i B n"
  by (auto simp: found_def)

lemma find_from_linked:
  assumes "linked (heap m) (a # ns @ [r])" "r \<notin> set ns" "set ns \<subseteq> dom (heap m)" "NULL \<notin> set ns"
  shows "\<exists>n. find_from r i (hd (ns @ [r])) m = Some n \<and> found m i (set ns) n"
  using assms
proof (induction ns arbitrary: a)
  case Nil
  then show ?case by (simp add: find_from.simps [of r] found_def)
next
  case (Cons b ns)
  have b: "get_timer_id b m = Some (tid m b)" "get_next b m = Some (hd (ns @ [r]))" "b \<noteq> r" "b \<noteq> NULL"
    using Cons.prems get_tid [of b m] by (auto simp: get_links linked_Cons)
  obtain n where n: "find_from r i (hd (ns @ [r])) m = Some n" "found m i (set ns) n"
    using Cons.IH [of b] Cons.prems by (auto simp: linked_Cons)
  show ?case
  proof (cases "tid m b = i")
    case True
    then show ?thesis using b by (simp add: find_from.simps [of r i b] found_def)
  next
    case False
    then show ?thesis
      using b n by (auto simp: find_from.simps [of r i b] found_def split: if_splits)
  qed
qed

lemma find_spoke_node_found:
  assumes core: "wheel_core w R F X" and i: "i < spoke_count w"
  shows "\<exists>n. find_spoke_node i k w = Some n \<and> found (tq_mem w) k (set (R i)) n"
proof -
  note c = wheel_coreD [OF core]
  have r: "linked (heap (tq_mem w)) (spokes w ! i # R i @ [spokes w ! i])" "spokes w ! i \<notin> set (R i)"
    using c(2) i by (auto simp: rings_def ring_def)
  have d: "set (R i) \<subseteq> dom (heap (tq_mem w))"
    using wheel_nodes(2) [OF core i] by simp
  then have "NULL \<notin> set (R i)"
    using mem_wf_dom [OF owned_wf [OF c(3)]] by blast
  then show ?thesis
    using find_from_linked [OF r d] spoke_at_nth [OF c(1) i] rings_first [OF c(2) i]
    by (simp add: find_spoke_node_def)
qed

lemma find_rest_found:
  assumes core: "wheel_core w R F X" and "\<forall>i \<in> set is. i < spoke_count w"
  shows "\<exists>n. find_rest is start k w = Some n
    \<and> (if n = NULL then found (tq_mem w) k (\<Union>i \<in> set is - {start}. set (R i)) n else found (tq_mem w) k (live w R) n)"
  using assms(2)
proof (induction "is")
  case Nil
  then show ?case by (simp add: found_def)
next
  case (Cons i is')
  obtain n where n: "find_rest is' start k w = Some n"
    "if n = NULL then found (tq_mem w) k (\<Union>i \<in> set is' - {start}. set (R i)) n else found (tq_mem w) k (live w R) n"
    using Cons by auto
  obtain n1 where n1: "find_spoke_node i k w = Some n1" "found (tq_mem w) k (set (R i)) n1"
    using find_spoke_node_found [OF core, of i] Cons.prems by auto
  show ?case
  proof (cases "i = start \<or> n1 = NULL")
    case True
    then have "find_rest (i # is') start k w = Some n" using n(1) n1(1) by auto
    moreover have "n = NULL \<Longrightarrow> found (tq_mem w) k (\<Union>i \<in> set (i # is') - {start}. set (R i)) n"
      using True n(2) n1(2) by (auto simp: found_def split: if_splits)
    ultimately show ?thesis using n(2) by auto
  next
    case False
    then have "found (tq_mem w) k (live w R) n1"
      using found_mono [OF n1(2)] live_spoke Cons.prems by simp
    then show ?thesis using False n1(1) by simp
  qed
qed

lemma find_node_found:
  assumes core: "wheel_core w R F X" and k: "k \<noteq> -1"
  shows "\<exists>n. find_node k w = Some n \<and> found (tq_mem w) k (live w R) n"
proof -
  note c = wheel_coreD [OF core]
  define start where "start = unat (word_of_int k AND (word_of_nat (spoke_count w) - 1) :: u32)"
  have "(word_of_nat (spoke_count w) - 1 :: u32) = 2 ^ spoke_bits w - 1" "spoke_bits w \<le> 12"
    using c(1) by (simp_all add: wheel_shape_def)
  then have "start = unat (take_bit (spoke_bits w) (word_of_int k :: u32))"
    by (simp add: start_def and_pow2_minus1)
  then have start: "start < spoke_count w"
    using c(1) by (simp add: wheel_shape_def unsigned_take_bit_eq)
  obtain n where n: "find_spoke_node start k w = Some n" "found (tq_mem w) k (set (R start)) n"
    using find_spoke_node_found [OF core start] by blast
  obtain n2 where n2: "find_rest [0..<spoke_count w] start k w = Some n2"
    "if n2 = NULL then found (tq_mem w) k (\<Union>i \<in> set [0..<spoke_count w] - {start}. set (R i)) n2
     else found (tq_mem w) k (live w R) n2"
    using find_rest_found [OF core, of "[0..<spoke_count w]" start k] by auto
  show ?thesis
  proof (cases "n = NULL")
    case False
    then show ?thesis
      using n(1) found_mono [OF n(2) False live_spoke [OF start, of R]] k
      by (simp add: find_node_def start_def [symmetric])
  next
    case True
    have "live w R = set (R start) \<union> (\<Union>i \<in> set [0..<spoke_count w] - {start}. set (R i))"
      using live_upd(2) [OF start, of R] by (simp add: lessThan_atLeast0)
    then have "found (tq_mem w) k (live w R) n2"
      using n(2) n2(2) True by (auto simp: found_def split: if_splits)
    then show ?thesis
      using n(1) n2(1) True k by (simp add: find_node_def start_def [symmetric])
  qed
qed

text \<open>Taking a timer that is not the first off its spoke leaves the first one first.\<close>

lemma unlink_other_first_min:
  assumes inv: "wheel_inv w R F X" and i: "i < spoke_count w" and Ri: "R i = xs @ n # ys"
    and first: "hd (R (earliest_spoke w)) \<noteq> n" and m': "same_payload (tq_mem w) m'"
  shows "first_min (w\<lparr>timer_count := k, tq_mem := m'\<rparr>) (R(i := xs @ ys))"
proof -
  note core = wheel_invD(1) [OF inv]
  let ?e = "earliest_spoke w" and ?R = "R(i := xs @ ys)"
  have lv: "live w ?R = live w R - {n}" by (rule live_remove(1) [OF core i Ri])
  have dom: "live w R \<subseteq> dom (heap (tq_mem w))" by (rule live_dom [OF wheel_coreD(2) [OF core]])
  have tv: "tval m' a = tval (tq_mem w) a" if "a \<in> live w R" for a
    using same_payload_tval [OF m'] dom that by blast
  have ne: "live w R \<noteq> {}" using live_remove(2) [OF core i Ri] by auto
  note e = earliest_time_first [OF inv ne]
  have "?e = i \<Longrightarrow> xs \<noteq> []" using first Ri by auto
  then have R: "?R ?e \<noteq> []" "hd (?R ?e) = hd (R ?e)"
    using e(2) Ri by auto
  show ?thesis
    unfolding first_min_def
  proof
    fix a assume "a \<in> live (w\<lparr>timer_count := k, tq_mem := m'\<rparr>) ?R"
    then have a: "a \<in> live w R" using lv by simp
    then have "tval m' (hd (R ?e)) \<le> tval m' a"
      using tv [OF a] tv [OF e(3)] wheel_invD(2) [OF inv] by (simp add: first_min_def)
    then show "?R (earliest_spoke (w\<lparr>timer_count := k, tq_mem := m'\<rparr>)) \<noteq> []
      \<and> tval (tq_mem (w\<lparr>timer_count := k, tq_mem := m'\<rparr>)) (hd (?R (earliest_spoke (w\<lparr>timer_count := k, tq_mem := m'\<rparr>))))
        \<le> tval (tq_mem (w\<lparr>timer_count := k, tq_mem := m'\<rparr>)) a"
      using R by (simp del: fun_upd_apply)
  qed
qed

lemma cancel_i_core:
  assumes inv: "wheel_inv w R F X" and n: "n \<in> live w R"
  obtains w' R' F' where "cancel_i n w = Some w'" "wheel_core w' R' F' X"
    "hd (R (earliest_spoke w)) \<noteq> n \<longrightarrow> first_min w' R'" "earliest_spoke w' = earliest_spoke w"
    "same_config w w'" "live w' R' = live w R - {n}"
    "\<forall>a \<in> set (spokes w) \<union> live w' R' \<union> X. timer_at (tq_mem w') a = timer_at (tq_mem w) a"
    "pending w R = add_mset (timer_at (tq_mem w) n) (pending w' R')"
proof -
  note core = wheel_invD(1) [OF inv]
  obtain i xs ys where i: "i < spoke_count w" and Ri: "R i = xs @ n # ys"
    using n by (auto simp: live_iff dest: split_list)
  let ?R = "R(i := xs @ ys)"
  obtain m' where u: "unlink n w = Some (w\<lparr>timer_count := timer_count w - 1, tq_mem := m'\<rparr>)"
    "same_payload (tq_mem w) m'"
    "wheel_core (w\<lparr>timer_count := timer_count w - 1, tq_mem := m'\<rparr>) ?R F (insert n X)"
    by (rule unlink_core [OF core i Ri])
  let ?w = "w\<lparr>timer_count := timer_count w - 1, tq_mem := m'\<rparr>"
  obtain fl' m2 F' where f: "free_node n ?w = Some (?w\<lparr>tq_free := fl', tq_mem := m2\<rparr>)"
    "wheel_core (?w\<lparr>tq_free := fl', tq_mem := m2\<rparr>) ?R F' (insert n X - {n})"
    "first_min ?w ?R \<longrightarrow> first_min (?w\<lparr>tq_free := fl', tq_mem := m2\<rparr>) ?R"
    "pending (?w\<lparr>tq_free := fl', tq_mem := m2\<rparr>) ?R = pending ?w ?R" "same_nodes {n} (tq_mem ?w) m2"
    by (rule free_node_core [OF u(3) insertI1])
  let ?w2 = "?w\<lparr>tq_free := fl', tq_mem := m2\<rparr>"
  have "n \<notin> X"
    using owned_pool(5) [OF wheel_coreD(3) [OF core]] n by auto
  then have core2: "wheel_core ?w2 ?R F' X" using f(2) by simp
  have lv: "live w ?R = live w R - {n}" by (rule live_remove(1) [OF core i Ri])
  have dom: "live w R \<subseteq> dom (heap (tq_mem w))" by (rule live_dom [OF wheel_coreD(2) [OF core]])
  have tv: "timer_at m2 a = timer_at (tq_mem w) a" if "a \<in> set (spokes w) \<union> (live w R - {n}) \<union> X" for a
  proof -
    have "a \<noteq> n" using that n \<open>n \<notin> X\<close> wheel_coreD(3) [OF core] by (auto simp: owned_def)
    then have "timer_at m2 a = timer_at m' a" using f(5) by (simp add: same_nodes_def timer_at_def)
    moreover have "a \<in> dom (heap (tq_mem w))"
      using that wheel_coreD(3) [OF core] by (auto simp: owned_def)
    ultimately show ?thesis using timer_at_payload [OF u(2)] by simp
  qed
  have "pending ?w ?R = pending w ?R"
    using pending_payload [of w ?w ?R] u(2) lv dom by auto
  then have pend: "pending w R = add_mset (timer_at (tq_mem w) n) (pending ?w2 ?R)"
    using f(4) pending_remove [of i w R xs n ys, OF i Ri] by simp
  have run: "cancel_i n w = Some ?w2" by (simp add: cancel_i_def u(1) f(1))
  show ?thesis
    using unlink_other_first_min [OF inv i Ri _ u(2)] f(3) lv tv
    by (intro that [OF run core2 _ _ _ _ _ pend]) (simp_all add: same_config_def)
qed

lemma cancel_i_recalc:
  assumes inv: "wheel_inv w R F X" and n: "n \<in> live w R"
  obtains f w1 w' R' F' where "get_first_i w = Some f" "cancel_i n w = Some w1"
    "(if f = n then recalc_earliest (tval (tq_mem w) n) w1 else Some w1) = Some w'"
    "wheel_inv w' R' F' X" "pending w R = add_mset (timer_at (tq_mem w) n) (pending w' R')"
    "same_config w w'" "live w' R' = live w R - {n}"
    "\<forall>a \<in> set (spokes w) \<union> live w' R' \<union> X. timer_at (tq_mem w') a = timer_at (tq_mem w) a"
proof -
  obtain w1 R' F' where w1: "cancel_i n w = Some w1" "wheel_core w1 R' F' X"
    "hd (R (earliest_spoke w)) \<noteq> n \<longrightarrow> first_min w1 R'" "earliest_spoke w1 = earliest_spoke w"
    "same_config w w1" "live w1 R' = live w R - {n}"
    "\<forall>a \<in> set (spokes w) \<union> live w1 R' \<union> X. timer_at (tq_mem w1) a = timer_at (tq_mem w) a"
    "pending w R = add_mset (timer_at (tq_mem w) n) (pending w1 R')"
    by (rule cancel_i_core [OF inv n])
  obtain f ys where f: "R (earliest_spoke w) = f # ys" "earliest_spoke w < spoke_count w" "f \<in> live w R"
    "f \<noteq> NULL" "f \<in> dom (heap (tq_mem w))" "get_first_i w = Some f" "good_time (tval (tq_mem w) f)"
    "calculate_spoke (tval (tq_mem w) f) w = earliest_spoke w"
    "\<forall>a \<in> live w R. tval (tq_mem w) f \<le> tval (tq_mem w) a"
    by (rule first_facts [OF inv]) (use n in auto)
  have tv: "tval (tq_mem w1) a = tval (tq_mem w) a" if "a \<in> live w1 R'" for a
    using w1(7) that by (metis UnI1 UnI2 timer_at_value)
  show ?thesis
  proof (cases "f = n")
    case True
    obtain e where "recalc_earliest (tval (tq_mem w) n) w1 = Some (w1\<lparr>earliest_spoke := e\<rparr>)"
      "wheel_inv (w1\<lparr>earliest_spoke := e\<rparr>) R' F' X"
      by (rule recalc_restores [OF w1(2)]) (use f True w1(4,6) tv same_config_spoke [OF w1(5)] in auto)
    then show ?thesis
      using that [OF f(6) w1(1)] True w1(5-8) by (simp add: same_config_def)
  next
    case False
    then show ?thesis
      using that [OF f(6) w1(1)] w1(2,3,5-8) f(1) by (simp add: wheel_inv_def)
  qed
qed

lemma cancel_timer_inv:
  assumes inv: "wheel_inv w R F X" and k: "k \<noteq> -1"
  shows "(\<forall>a \<in> live w R. tid (tq_mem w) a \<noteq> k) \<longrightarrow> cancel_timer k w = Some (0, None, w)"
    and "(\<exists>a \<in> live w R. tid (tq_mem w) a = k) \<longrightarrow>
      (\<exists>n w' R' F'. n \<in> live w R \<and> tid (tq_mem w) n = k
        \<and> cancel_timer k w = Some (1, Some (n_act1 (timer_at (tq_mem w) n), n_act2 (timer_at (tq_mem w) n)), w')
        \<and> wheel_inv w' R' F' X \<and> pending w R = add_mset (timer_at (tq_mem w) n) (pending w' R')
        \<and> same_config w w' \<and> live w' R' = live w R - {n}
        \<and> (\<forall>a \<in> set (spokes w) \<union> live w' R' \<union> X. timer_at (tq_mem w') a = timer_at (tq_mem w) a))"
proof -
  note core = wheel_invD(1) [OF inv]
  obtain n where n: "find_node k w = Some n" "found (tq_mem w) k (live w R) n"
    using find_node_found [OF core k] by blast
  have dom: "live w R \<subseteq> dom (heap (tq_mem w))" by (rule live_dom [OF wheel_coreD(2) [OF core]])
  then have nz: "NULL \<notin> live w R"
    using mem_wf_dom [OF owned_wf [OF wheel_coreD(3) [OF core]]] by blast
  show "(\<forall>a \<in> live w R. tid (tq_mem w) a \<noteq> k) \<longrightarrow> cancel_timer k w = Some (0, None, w)"
    using n by (auto simp: cancel_timer_def found_def split: if_splits)
  show "(\<exists>a \<in> live w R. tid (tq_mem w) a = k) \<longrightarrow> (\<exists>n w' R' F'. n \<in> live w R \<and> tid (tq_mem w) n = k
        \<and> cancel_timer k w = Some (1, Some (n_act1 (timer_at (tq_mem w) n), n_act2 (timer_at (tq_mem w) n)), w')
        \<and> wheel_inv w' R' F' X \<and> pending w R = add_mset (timer_at (tq_mem w) n) (pending w' R')
        \<and> same_config w w' \<and> live w' R' = live w R - {n}
        \<and> (\<forall>a \<in> set (spokes w) \<union> live w' R' \<union> X. timer_at (tq_mem w') a = timer_at (tq_mem w) a))"
  proof
    assume "\<exists>a \<in> live w R. tid (tq_mem w) a = k"
    then have nl: "n \<in> live w R" "tid (tq_mem w) n = k" "n \<noteq> NULL"
      using n(2) by (auto simp: found_def split: if_splits)
    obtain f w1 w' R' F' where r: "get_first_i w = Some f" "cancel_i n w = Some w1"
      "(if f = n then recalc_earliest (tval (tq_mem w) n) w1 else Some w1) = Some w'"
      "wheel_inv w' R' F' X" "pending w R = add_mset (timer_at (tq_mem w) n) (pending w' R')"
      "same_config w w'" "live w' R' = live w R - {n}"
      "\<forall>a \<in> set (spokes w) \<union> live w' R' \<union> X. timer_at (tq_mem w') a = timer_at (tq_mem w) a"
      by (rule cancel_i_recalc [OF inv nl(1)])
    obtain nd where nd: "heap (tq_mem w) n = Some nd" using nl(1) dom by blast
    then have at: "get_timer_value n (tq_mem w) = Some (tval (tq_mem w) n)"
      "get_act1 n (tq_mem w) = Some (n_act1 (timer_at (tq_mem w) n))"
      "get_act2 n (tq_mem w) = Some (n_act2 (timer_at (tq_mem w) n))"
      by (simp_all add: get_timer_value_def get_act1_def get_act2_def tval_def timer_at_def payload_def)
    have "cancel_timer k w = Some (1, Some (n_act1 (timer_at (tq_mem w) n), n_act2 (timer_at (tq_mem w) n)), w')"
      using r(3) nl(3) by (cases "f = n") (simp_all add: cancel_timer_def n(1) r(1,2) at)
    then show "\<exists>n w' R' F'. n \<in> live w R \<and> tid (tq_mem w) n = k
        \<and> cancel_timer k w = Some (1, Some (n_act1 (timer_at (tq_mem w) n), n_act2 (timer_at (tq_mem w) n)), w')
        \<and> wheel_inv w' R' F' X \<and> pending w R = add_mset (timer_at (tq_mem w) n) (pending w' R')
        \<and> same_config w w' \<and> live w' R' = live w R - {n}
        \<and> (\<forall>a \<in> set (spokes w) \<union> live w' R' \<union> X. timer_at (tq_mem w') a = timer_at (tq_mem w) a)"
      using nl(1,2) r(4-8) by (intro exI [of _ n] exI [of _ w'] exI [of _ R'] exI [of _ F'] conjI)
  qed
qed

end
