(* ===== verification/Timer_Wheel_Ids.thy ===== *)
theory Timer_Wheel_Ids
  imports Timer_Wheel_Ops
begin

section \<open>Timer identifiers and scheduling\<close>

text \<open>
  The counter of a spoke is the \<^verbatim>\<open>timer_id_\<close> of its root. An identifier is the counter and the spoke
  packed into an \<^verbatim>\<open>int\<close>; it is fresh while the counters fit into the bits the \<^verbatim>\<open>int\<close> leaves.
\<close>

subsection \<open>The identifier of a count\<close>

definition make_id :: "nat \<Rightarrow> int \<Rightarrow> nat \<Rightarrow> int" where
  "make_id b cnt s = to_int (push_bit b cnt OR int s)"

lemma make_id_value:
  assumes "s < 2 ^ b"
  shows "make_id b cnt s = to_int (cnt * 2 ^ b + int s)"
proof -
  have "take_bit b (int s) = int s"
    using assms by (simp add: take_bit_int_eq_self_iff)
  then have "push_bit b cnt OR int s = int s + push_bit b cnt"
    using concat_bit_def [of b "int s" cnt] concat_bit_eq [of b "int s" cnt] by (simp add: or.commute)
  then show ?thesis
    by (simp add: make_id_def push_bit_eq_mult add.commute)
qed

lemma packed_less:
  fixes c :: int
  assumes "b \<le> 12" "0 \<le> c" "c < 2 ^ (32 - b)" "s < 2 ^ b"
  shows "0 \<le> c * 2 ^ b + int s" "c * 2 ^ b + int s < 2 ^ 32"
proof -
  show "0 \<le> c * 2 ^ b + int s" using assms by simp
  have "(c + 1) * 2 ^ b \<le> 2 ^ (32 - b) * (2 ^ b :: int)"
    using assms(3) by (intro mult_right_mono) auto
  also have "\<dots> = 2 ^ 32"
    using assms(1) by (simp flip: power_add)
  finally have "c * 2 ^ b + 2 ^ b \<le> 2 ^ 32" by (simp add: distrib_right)
  moreover have "int s < 2 ^ b"
    using assms(4) by (metis of_nat_less_iff of_nat_numeral of_nat_power)
  ultimately show "c * 2 ^ b + int s < 2 ^ 32" by linarith
qed

lemma packed_inject:
  fixes c c' :: int
  assumes "s < 2 ^ b" "s' < 2 ^ b" "c * 2 ^ b + int s = c' * 2 ^ b + int s'"
  shows "c = c' \<and> s = s'"
proof -
  have s: "int s < 2 ^ b" "int s' < 2 ^ b"
    using assms(1,2) by (metis of_nat_less_iff of_nat_numeral of_nat_power)+
  have "(c * 2 ^ b + int s) div 2 ^ b = c" "(c' * 2 ^ b + int s') div 2 ^ b = c'"
    using s by simp_all
  with assms(3) show ?thesis by auto
qed

lemma to_int_inject:
  assumes "0 \<le> x" "x < 2 ^ 32" "0 \<le> y" "y < 2 ^ 32" "to_int x = to_int y"
  shows "x = y"
proof -
  have "take_bit 32 x = take_bit 32 y"
    using assms(5) signed_take_bit_eq_iff_take_bit_eq [of 31 x y] by (simp add: to_int_def)
  then show ?thesis
    using assms(1-4) by (simp add: take_bit_int_eq_self)
qed

lemma make_id_inject:
  assumes "b \<le> 12" "0 \<le> c" "c < 2 ^ (32 - b)" "s < 2 ^ b" "0 \<le> c'" "c' < 2 ^ (32 - b)" "s' < 2 ^ b"
    "make_id b c s = make_id b c' s'"
  shows "c = c' \<and> s = s'"
proof -
  have "to_int (c * 2 ^ b + int s) = to_int (c' * 2 ^ b + int s')"
    using assms(8) unfolding make_id_value [OF assms(4)] make_id_value [OF assms(7)] .
  then have "c * 2 ^ b + int s = c' * 2 ^ b + int s'"
    by (rule to_int_inject [OF packed_less [OF assms(1-4)] packed_less [OF assms(1,5-7)]])
  then show ?thesis
    by (rule packed_inject [OF assms(4,7)])
qed

lemma make_id_minus1:
  assumes "b \<le> 12" "0 \<le> c" "c < 2 ^ (32 - b) - 1" "s < 2 ^ b"
  shows "make_id b c s \<noteq> -1"
proof
  assume m: "make_id b c s = -1"
  have c: "c < 2 ^ (32 - b)" using assms(3) by simp
  have "to_int (c * 2 ^ b + int s) = to_int (2 ^ 32 - 1)"
    using m unfolding make_id_value [OF assms(4)] by (simp add: to_int_def)
  then have "c * 2 ^ b + int s = 2 ^ 32 - 1"
    by (rule to_int_inject [OF packed_less [OF assms(1,2) c assms(4)], rotated 2]) simp_all
  moreover have "(c + 1) * 2 ^ b + int s < 2 ^ 32"
    using packed_less(2) [of b "c + 1" s] assms by simp
  moreover have "(1::int) \<le> 2 ^ b" by simp
  ultimately show False by (simp add: distrib_right)
qed

subsection \<open>The ordinary path of \<open>generate_timer_id\<close>\<close>

definition counter :: "TimerWheel \<Rightarrow> nat \<Rightarrow> int" where
  "counter w s = tid (tq_mem w) (spokes w ! s)"

lemma generate_timer_id_inv:
  assumes inv: "wheel_inv w R F X" and i: "i < spoke_count w" and cnt: "counter w i < 2 ^ (64 - spoke_bits w) - 1"
  obtains m' where "generate_timer_id i w = Some (make_id (spoke_bits w) (counter w i) i, w\<lparr>tq_mem := m'\<rparr>)"
    "wheel_inv (w\<lparr>tq_mem := m'\<rparr>) R F X" "pending (w\<lparr>tq_mem := m'\<rparr>) R = pending w R"
    "same_nodes {spokes w ! i} (tq_mem w) m'" "tid m' (spokes w ! i) = counter w i + 1"
proof -
  note core = wheel_invD(1) [OF inv]
  note c = wheel_coreD [OF core]
  note o = owned_pool [OF c(3)]
  let ?r = "spokes w ! i" and ?m = "tq_mem w" and ?b = "spoke_bits w"
  obtain nd where nd: "heap ?m ?r = Some nd"
    using wheel_nodes(2) [OF core i] by auto
  have rs: "?r \<in> set (spokes w)" by (rule wheel_nodes(3) [OF core i])
  then have a0: "n_act1 nd = 0"
    using c(6) nd by (auto simp: roots_clear_def get_act1_def)
  have tid: "n_timer_id nd = counter w i" by (simp add: counter_def tid_def nd)
  define m' where "m' = ?m\<lparr>heap := (heap ?m)(?r \<mapsto> nd\<lparr>n_timer_id := counter w i + 1\<rparr>)\<rparr>"
  have b: "64 - ?b < 63" "i \<noteq> spoke_count w"
    using c(1) i by (auto simp: wheel_shape_def)
  have long: "to_long (2 ^ (64 - ?b)) = 2 ^ (64 - ?b)"
  proof -
    have "(2::int) ^ (64 - ?b) < 2 ^ 63"
      using b(1) by (intro power_strict_increasing) simp_all
    moreover have "- (2 ^ 63) \<le> (2::int) ^ (64 - ?b)"
      by (rule order_trans [of _ 0]) simp_all
    ultimately show ?thesis
      by (simp add: to_long_def signed_take_bit_int_eq_self)
  qed
  have "nd\<lparr>n_act1 := 0\<rparr> = nd" using a0 by (cases nd) simp
  then have run: "generate_timer_id i w = Some (make_id ?b (counter w i) i, w\<lparr>tq_mem := m'\<rparr>)"
    using spoke_at_nth [OF c(1) i] rings_first [OF c(2) i] nd a0 tid cnt b(2)
    by (simp add: generate_timer_id_def long node_access Let_def make_id_def m'_def fun_upd_idem)
  have rl: "?r \<notin> live w R" "?r \<notin> set F" "?r \<notin> X"
    using c(3) rs by (auto simp: owned_def)
  have fr: "\<forall>a \<in> live w R. heap m' a = heap ?m a"
    using rl(1) by (auto simp: m'_def)
  have rt: "\<forall>r \<in> set (spokes w). nxt (heap m') r = nxt (heap ?m) r
      \<and> prv (heap m') r = prv (heap ?m) r \<and> get_act1 r m' = get_act1 r ?m"
    using nd by (simp add: m'_def nxt_def prv_def get_act1_def)
  have dom: "dom (heap m') = dom (heap ?m)" using nd by (auto simp: m'_def)
  have wf: "mem_wf m'" using o(2) nd by (auto simp: m'_def mem_wf_def)
  have fl: "fl_inv m' (tq_free w) F"
    by (rule locked.pool_cong [OF o(1)]) (use rl(2) in \<open>auto simp: m'_def\<close>)
  note cf = core_frame_roots [OF core fr rt wf fl o(3) o(4) [folded dom] o(5)]
  have "w\<lparr>tq_free := tq_free w, tq_mem := m'\<rparr> = w\<lparr>tq_mem := m'\<rparr>" by simp
  then show ?thesis
    using cf wheel_invD(2) [OF inv]
    by (intro that [OF run]) (simp_all add: wheel_inv_def same_nodes_def m'_def tid_def)
qed

subsection \<open>Nodes off the wheel\<close>

text \<open>A node that is neither linked nor pooled may be written freely.\<close>

lemma float_update:
  assumes inv: "wheel_inv w R F X" and n: "n \<in> X" and m': "m' = (tq_mem w)\<lparr>heap := (heap (tq_mem w))(n \<mapsto> nd)\<rparr>"
  shows "wheel_inv (w\<lparr>tq_mem := m'\<rparr>) R F X" "pending (w\<lparr>tq_mem := m'\<rparr>) R = pending w R"
proof -
  note core = wheel_invD(1) [OF inv]
  note o = owned_pool [OF wheel_coreD(3) [OF core]]
  have nd: "n \<in> dom (heap (tq_mem w))" "n \<notin> set F" "n \<notin> set (spokes w) \<union> live w R"
    using wheel_coreD(3) [OF core] n by (auto simp: owned_def)
  have fr: "\<forall>a \<in> set (spokes w) \<union> live w R. heap m' a = heap (tq_mem w) a"
    using nd(3) by (auto simp: m')
  have dom: "dom (heap m') = dom (heap (tq_mem w))" using nd(1) by (auto simp: m')
  have wf: "mem_wf m'" using o(2) nd(1) by (auto simp: m' mem_wf_def)
  have fl: "fl_inv m' (tq_free w) F"
    by (rule locked.pool_cong [OF o(1)]) (use nd(2) in \<open>auto simp: m'\<close>)
  note cf = core_frame [OF core fr wf fl o(3) o(4) [folded dom] o(5)]
  have "w\<lparr>tq_free := tq_free w, tq_mem := m'\<rparr> = w\<lparr>tq_mem := m'\<rparr>" by simp
  then show "wheel_inv (w\<lparr>tq_mem := m'\<rparr>) R F X" "pending (w\<lparr>tq_mem := m'\<rparr>) R = pending w R"
    using cf wheel_invD(2) [OF inv] by (simp_all add: wheel_inv_def)
qed

subsection \<open>Distinct identifiers\<close>

definition ids_ok :: "TimerWheel \<Rightarrow> addr set \<Rightarrow> bool" where
  "ids_ok w A \<longleftrightarrow>
     (\<forall>s < spoke_count w. 0 \<le> counter w s \<and> counter w s < 2 ^ (32 - spoke_bits w))
     \<and> (\<forall>a \<in> A. \<exists>s < spoke_count w. \<exists>c. 0 \<le> c \<and> c < counter w s \<and> tid (tq_mem w) a = make_id (spoke_bits w) c s)
     \<and> inj_on (tid (tq_mem w)) A"

lemma tid_timer_at: "tid m a = n_timer_id (timer_at m a)"
  by (simp add: tid_def timer_at_def payload_def)

lemma ids_ok_sub:
  assumes "ids_ok w A" "same_config w w'" "A' \<subseteq> A" "length (spokes w) = spoke_count w"
    and same: "\<forall>a \<in> set (spokes w) \<union> A'. timer_at (tq_mem w') a = timer_at (tq_mem w) a"
  shows "ids_ok w' A'"
proof -
  have cnt: "counter w' s = counter w s" if "s < spoke_count w" for s
    using same assms(2,4) that by (simp add: counter_def tid_timer_at same_config_def)
  have t: "tid (tq_mem w') a = tid (tq_mem w) a" if "a \<in> A'" for a
    using same that by (simp add: tid_timer_at)
  have "inj_on (tid (tq_mem w')) A'"
    using assms(1,3) t unfolding ids_ok_def inj_on_def by (metis subsetD)
  then show ?thesis
    using assms(1-3) cnt t unfolding ids_ok_def same_config_def by (metis subsetD)
qed

lemma make_id_fresh:
  assumes ok: "ids_ok w A" and shape: "wheel_shape w" and s: "s < spoke_count w" and a: "a \<in> A"
  shows "tid (tq_mem w) a \<noteq> make_id (spoke_bits w) (counter w s) s"
proof
  assume e: "tid (tq_mem w) a = make_id (spoke_bits w) (counter w s) s"
  obtain s' c where c: "s' < spoke_count w" "0 \<le> c" "c < counter w s'" "tid (tq_mem w) a = make_id (spoke_bits w) c s'"
    using ok a unfolding ids_ok_def by blast
  have sh: "spoke_bits w \<le> 12" "spoke_count w = 2 ^ spoke_bits w"
    using shape by (simp_all add: wheel_shape_def)
  have b: "0 \<le> counter w t \<and> counter w t < 2 ^ (32 - spoke_bits w)" if "t < spoke_count w" for t
    using ok that by (simp add: ids_ok_def)
  have "c = counter w s \<and> s' = s"
    using b [OF s] b [OF c(1)] c s e sh by (intro make_id_inject [OF sh(1)]) auto
  then show False using c(3) by simp
qed

lemma ids_ok_insert:
  assumes ok: "ids_ok w A" and shape: "wheel_shape w" and s: "s < spoke_count w"
    and cfg: "same_config w w'" and cnt: "counter w s < 2 ^ (32 - spoke_bits w) - 1"
    and same: "\<forall>a \<in> A. tid (tq_mem w') a = tid (tq_mem w) a"
    and counters: "\<forall>t < spoke_count w. counter w' t = (if t = s then counter w s + 1 else counter w t)"
    and n: "tid (tq_mem w') n = make_id (spoke_bits w) (counter w s) s"
  shows "ids_ok w' (insert n A)"
proof -
  have cfg': "spoke_count w' = spoke_count w" "spoke_bits w' = spoke_bits w"
    using cfg by (simp_all add: same_config_def)
  have old: "\<exists>t < spoke_count w'. \<exists>c. 0 \<le> c \<and> c < counter w' t \<and> tid (tq_mem w') a = make_id (spoke_bits w') c t"
    if a: "a \<in> A" for a
  proof -
    obtain t c where "t < spoke_count w" "0 \<le> c" "c < counter w t" "tid (tq_mem w) a = make_id (spoke_bits w) c t"
      using ok a unfolding ids_ok_def by blast
    then show ?thesis
      using counters same a cfg' by (intro exI [of _ t]) auto
  qed
  have new: "\<exists>t < spoke_count w'. \<exists>c. 0 \<le> c \<and> c < counter w' t \<and> tid (tq_mem w') n = make_id (spoke_bits w') c t"
    using ok s counters n cfg' by (intro exI [of _ s] conjI exI [of _ "counter w s"]) (auto simp: ids_ok_def)
  have "inj_on (tid (tq_mem w')) (insert n A)"
    using ok same n make_id_fresh [OF ok shape s] by (auto simp: ids_ok_def inj_on_def)
  then show ?thesis
    using ok counters cnt old new s cfg' unfolding ids_ok_def by simp
qed

subsection \<open>Scheduling a timer\<close>

definition new_timer :: "addr \<Rightarrow> u64 \<Rightarrow> u64 \<Rightarrow> TimeValue \<Rightarrow> TimeValue \<Rightarrow> int \<Rightarrow> Node" where
  "new_timer ty a1 a2 t iv k =
     \<lparr>n_type = ty, n_act1 = a1, n_act2 = a2, n_timer_value = t, n_interval = iv,
      n_prev = NULL, n_next = NULL, n_timer_id = k\<rparr>"

lemma schedule_i_prepare:
  assumes inv: "wheel_inv w R F X" and s: "s < spoke_count w" and cnt: "counter w s < 2 ^ (64 - spoke_bits w) - 1"
  obtains n w1 F' m where "alloc_node w = Some (n, w1)" "same_config w w1" "n \<noteq> NULL" "n \<notin> X"
    "generate_timer_id s w1 = Some (make_id (spoke_bits w) (counter w s) s, w1\<lparr>tq_mem := m\<rparr>)"
    "wheel_inv (w1\<lparr>tq_mem := m\<rparr>) R F' (insert n X)" "pending (w1\<lparr>tq_mem := m\<rparr>) R = pending w R"
    "\<forall>a \<in> set (spokes w) \<union> live w R \<union> X - {spokes w ! s}. heap m a = heap (tq_mem w) a"
    "tid m (spokes w ! s) = counter w s + 1" "n \<in> dom (heap m)"
proof -
  obtain n fl' m' F' where a: "alloc_node w = Some (n, w\<lparr>tq_free := fl', tq_mem := m'\<rparr>)"
    "wheel_inv (w\<lparr>tq_free := fl', tq_mem := m'\<rparr>) R F' (insert n X)"
    "pending (w\<lparr>tq_free := fl', tq_mem := m'\<rparr>) R = pending w R" "n \<noteq> NULL"
    "n \<notin> X" "\<forall>a \<in> set (spokes w) \<union> live w R \<union> X. heap m' a = heap (tq_mem w) a"
    by (rule alloc_node_inv [OF inv])
  let ?w1 = "w\<lparr>tq_free := fl', tq_mem := m'\<rparr>"
  have root: "spokes w ! s \<in> set (spokes w)"
    by (rule wheel_nodes(3) [OF wheel_invD(1) [OF inv] s])
  have c1: "counter ?w1 s = counter w s"
    using a(6) root by (simp add: counter_def tid_def)
  then have s1: "s < spoke_count ?w1" and cnt1: "counter ?w1 s < 2 ^ (64 - spoke_bits ?w1) - 1"
    using s cnt by simp_all
  obtain m where g: "generate_timer_id s ?w1 = Some (make_id (spoke_bits ?w1) (counter ?w1 s) s, ?w1\<lparr>tq_mem := m\<rparr>)"
    "wheel_inv (?w1\<lparr>tq_mem := m\<rparr>) R F' (insert n X)" "pending (?w1\<lparr>tq_mem := m\<rparr>) R = pending ?w1 R"
    "same_nodes {spokes ?w1 ! s} (tq_mem ?w1) m" "tid m (spokes ?w1 ! s) = counter ?w1 s + 1"
    by (rule generate_timer_id_inv [OF a(2) s1 cnt1])
  have dom: "n \<in> dom (heap m)"
    using wheel_coreD(3) [OF wheel_invD(1) [OF g(2)]] by (simp add: owned_def)
  have "\<forall>a \<in> set (spokes w) \<union> live w R \<union> X - {spokes w ! s}. heap m a = heap (tq_mem w) a"
    using a(6) g(4) by (auto simp: same_nodes_def)
  then show ?thesis
    using g c1 a dom by (intro that [of n ?w1 m F']) (simp_all add: same_config_def)
qed

lemma set_and_schedule:
  assumes inv: "wheel_inv w R F X" and n: "n \<in> X" and g: "good_time tv"
    and size: "size (pending w R) + 1 < 2 ^ 32"
  obtains w' R' where
    "do { m \<leftarrow> node_set n ty a1 a2 tv iv NULL NULL k (tq_mem w);
          schedule_node n (calculate_spoke tv w) tv (w\<lparr>tq_mem := m\<rparr>) } = Some w'"
    "wheel_inv w' R' F (X - {n})" "pending w' R' = add_mset (new_timer ty a1 a2 tv iv k) (pending w R)"
    "same_config w w'" "live w' R' = insert n (live w R)" "tid (tq_mem w') n = k"
    "\<forall>a \<in> dom (heap (tq_mem w)) - {n}. timer_at (tq_mem w') a = timer_at (tq_mem w) a"
proof -
  have dom: "n \<in> dom (heap (tq_mem w))"
    using wheel_coreD(3) [OF wheel_invD(1) [OF inv]] n by (auto simp: owned_def)
  then obtain nd where nd: "heap (tq_mem w) n = Some nd" by auto
  let ?t = "nd\<lparr>n_type := ty, n_act1 := a1, n_act2 := a2, n_timer_value := tv, n_interval := iv,
       n_prev := NULL, n_next := NULL, n_timer_id := k\<rparr>"
  define m2 where "m2 = (tq_mem w)\<lparr>heap := (heap (tq_mem w))(n \<mapsto> ?t)\<rparr>"
  let ?w2 = "w\<lparr>tq_mem := m2\<rparr>"
  have set2: "node_set n ty a1 a2 tv iv NULL NULL k (tq_mem w) = Some m2"
    by (simp add: node_access nd m2_def)
  have i2: "wheel_inv ?w2 R F X" "pending ?w2 R = pending w R"
    using float_update [OF inv n m2_def] .
  have t2: "tval m2 n = tv" "timer_at m2 n = new_timer ty a1 a2 tv iv k"
    by (cases nd; simp add: m2_def tval_def timer_at_def payload_def new_timer_def)+
  have g2: "good_time (tval (tq_mem ?w2) n)" and size2: "size (pending ?w2 R) + 1 < 2 ^ 32"
    using t2 g size i2(2) by simp_all
  obtain e m3 R' where r: "schedule_node n (calculate_spoke (tval (tq_mem ?w2) n) ?w2) (tval (tq_mem ?w2) n) ?w2 =
       Some (?w2\<lparr>earliest_spoke := e, timer_count := timer_count ?w2 + 1, tq_mem := m3\<rparr>)"
    "wheel_inv (?w2\<lparr>earliest_spoke := e, timer_count := timer_count ?w2 + 1, tq_mem := m3\<rparr>) R' F (X - {n})"
    "pending (?w2\<lparr>earliest_spoke := e, timer_count := timer_count ?w2 + 1, tq_mem := m3\<rparr>) R' =
       add_mset (timer_at (tq_mem ?w2) n) (pending ?w2 R)"
    "same_payload (tq_mem ?w2) m3" "live ?w2 R' = insert n (live ?w2 R)"
    by (rule schedule_node_inv [OF i2(1) n g2 size2])
  let ?w3 = "?w2\<lparr>earliest_spoke := e, timer_count := timer_count ?w2 + 1, tq_mem := m3\<rparr>"
  have at: "timer_at m3 a = timer_at m2 a" if "a \<in> dom (heap m2)" for a
    using timer_at_payload [OF r(4)] that by simp
  have d2: "dom (heap m2) = dom (heap (tq_mem w))" using dom by (auto simp: m2_def)
  have "\<forall>a \<in> dom (heap (tq_mem w)) - {n}. timer_at m3 a = timer_at (tq_mem w) a"
    using at d2 by (auto simp: timer_at_def m2_def)
  moreover have "tid m3 n = k"
    using at [of n] t2(2) d2 dom by (simp add: tid_timer_at new_timer_def)
  ultimately show ?thesis
    using r t2 i2(2) set2 by (intro that [of ?w3 R']) (simp_all add: same_config_def)
qed

lemma schedule_i_links:
  fixes now future w
  defines "tv \<equiv> tv_add now future"
  defines "s \<equiv> calculate_spoke tv w"
  defines "k \<equiv> make_id (spoke_bits w) (counter w s) s"
  assumes inv: "wheel_inv w R F X" and g: "good_time tv" and size: "size (pending w R) + 1 < 2 ^ 32"
    and cnt: "counter w s < 2 ^ (64 - spoke_bits w) - 1" and k: "k \<noteq> -1"
  obtains n w' R' F' where "schedule_i now ty a1 a2 future interval w = Some (k, w')"
    "wheel_inv w' R' F' X" "pending w' R' = add_mset (new_timer ty a1 a2 tv interval k) (pending w R)"
    "same_config w w'" "live w' R' = insert n (live w R)" "n \<notin> X" "tid (tq_mem w') n = k"
    "\<forall>a \<in> set (spokes w) \<union> live w R \<union> X - {spokes w ! s}. timer_at (tq_mem w') a = timer_at (tq_mem w) a"
    "counter w' s = counter w s + 1"
proof -
  have s: "s < spoke_count w"
    unfolding s_def by (rule calculate_spoke_less [OF wheel_coreD(1) [OF wheel_invD(1) [OF inv]] g])
  obtain n w1 F' m where p: "alloc_node w = Some (n, w1)" "same_config w w1" "n \<noteq> NULL" "n \<notin> X"
    "generate_timer_id s w1 = Some (make_id (spoke_bits w) (counter w s) s, w1\<lparr>tq_mem := m\<rparr>)"
    "wheel_inv (w1\<lparr>tq_mem := m\<rparr>) R F' (insert n X)" "pending (w1\<lparr>tq_mem := m\<rparr>) R = pending w R"
    "\<forall>a \<in> set (spokes w) \<union> live w R \<union> X - {spokes w ! s}. heap m a = heap (tq_mem w) a"
    "tid m (spokes w ! s) = counter w s + 1" "n \<in> dom (heap m)"
    by (rule schedule_i_prepare [OF inv s cnt])
  let ?w1 = "w1\<lparr>tq_mem := m\<rparr>"
  have lv1: "live w1 R = live w R" using p(2) by (rule same_config_live)
  have own1: "set (spokes w) \<union> live w R \<union> X \<subseteq> dom (heap m) - {n}"
    using wheel_coreD(3) [OF wheel_invD(1) [OF p(6)]] p(2,4) lv1 by (auto simp: owned_def same_config_def)
  have size1: "size (pending ?w1 R) + 1 < 2 ^ 32" using size p(7) by simp
  obtain w' R' where r: "do { m \<leftarrow> node_set n ty a1 a2 tv interval NULL NULL k (tq_mem ?w1);
          schedule_node n (calculate_spoke tv ?w1) tv (?w1\<lparr>tq_mem := m\<rparr>) } = Some w'"
    "wheel_inv w' R' F' (insert n X - {n})" "pending w' R' = add_mset (new_timer ty a1 a2 tv interval k) (pending ?w1 R)"
    "same_config ?w1 w'" "live w' R' = insert n (live ?w1 R)" "tid (tq_mem w') n = k"
    "\<forall>a \<in> dom (heap (tq_mem ?w1)) - {n}. timer_at (tq_mem w') a = timer_at (tq_mem ?w1) a"
    by (rule set_and_schedule [OF p(6) insertI1 g size1])
  have sp: "calculate_spoke tv w1 = s"
    using same_config_spoke [OF p(2)] by (simp add: s_def)
  have run: "schedule_i now ty a1 a2 future interval w = Some (k, w')"
    using p(3) k r(1) sp
    by (auto simp: schedule_i_def p(1,5) tv_def [symmetric] Let_def k_def [symmetric] bind_eq_Some_conv)
  have root: "spokes w ! s \<in> set (spokes w)"
    by (rule wheel_nodes(3) [OF wheel_invD(1) [OF inv] s])
  then have "timer_at (tq_mem w') (spokes w ! s) = timer_at m (spokes w ! s)"
    using r(7) own1 by auto
  then have "counter w' s = counter w s + 1"
    using p(2,9) r(4) by (simp add: counter_def tid_timer_at same_config_def)
  moreover have "\<forall>a \<in> set (spokes w) \<union> live w R \<union> X - {spokes w ! s}. timer_at (tq_mem w') a = timer_at (tq_mem w) a"
  proof
    fix a assume a: "a \<in> set (spokes w) \<union> live w R \<union> X - {spokes w ! s}"
    then have "timer_at (tq_mem w') a = timer_at m a" using r(7) own1 by auto
    moreover have "heap m a = heap (tq_mem w) a" using p(8) a by blast
    ultimately show "timer_at (tq_mem w') a = timer_at (tq_mem w) a" by (simp add: timer_at_def)
  qed
  ultimately show ?thesis
    using r(2,3,5,6) p(2,4,7) r(4) lv1 by (intro that [OF run, of R' F' n]) (simp_all add: same_config_def)
qed

lemma schedule_i_inv:
  fixes now future w
  defines "tv \<equiv> tv_add now future"
  defines "s \<equiv> calculate_spoke tv w"
  defines "k \<equiv> make_id (spoke_bits w) (counter w s) s"
  assumes inv: "wheel_inv w R F X" and ok: "ids_ok w (live w R \<union> X)" and g: "good_time tv"
    and size: "size (pending w R) + 1 < 2 ^ 32" and cnt: "counter w s < 2 ^ (32 - spoke_bits w) - 1"
  obtains w' R' F' where "schedule_i now ty a1 a2 future interval w = Some (k, w')"
    "wheel_inv w' R' F' X" "pending w' R' = add_mset (new_timer ty a1 a2 tv interval k) (pending w R)"
    "same_config w w'" "ids_ok w' (live w' R' \<union> X)" "k \<noteq> -1"
    "\<forall>a \<in> live w R \<union> X. timer_at (tq_mem w') a = timer_at (tq_mem w) a \<and> tid (tq_mem w) a \<noteq> k"
proof -
  note c = wheel_coreD [OF wheel_invD(1) [OF inv]]
  have shape: "spoke_bits w \<le> 12" "spoke_count w = 2 ^ spoke_bits w" "length (spokes w) = spoke_count w"
    using c(1) by (simp_all add: wheel_shape_def)
  have s: "s < spoke_count w"
    unfolding s_def by (rule calculate_spoke_less [OF c(1) g])
  have "(2::int) ^ (32 - spoke_bits w) \<le> 2 ^ (64 - spoke_bits w)"
    by (intro power_increasing) simp_all
  then have cnt': "counter w s < 2 ^ (64 - spoke_bits w) - 1" using cnt by linarith
  have k: "k \<noteq> -1"
    unfolding k_def using ok s cnt shape by (intro make_id_minus1) (auto simp: ids_ok_def)
  obtain n w' R' F' where r: "schedule_i now ty a1 a2 future interval w = Some (k, w')"
    "wheel_inv w' R' F' X" "pending w' R' = add_mset (new_timer ty a1 a2 tv interval k) (pending w R)"
    "same_config w w'" "live w' R' = insert n (live w R)" "n \<notin> X" "tid (tq_mem w') n = k"
    "\<forall>a \<in> set (spokes w) \<union> live w R \<union> X - {spokes w ! s}. timer_at (tq_mem w') a = timer_at (tq_mem w) a"
    "counter w' s = counter w s + 1"
    using schedule_i_links [OF inv g [unfolded tv_def] size] cnt' k unfolding k_def s_def tv_def by metis
  have root: "spokes w ! t \<in> set (spokes w)" "spokes w ! t \<notin> live w R \<union> X" if "t < spoke_count w" for t
    using wheel_nodes(3) [OF wheel_invD(1) [OF inv] that] c(3) unfolding owned_def by blast+
  have old: "timer_at (tq_mem w') a = timer_at (tq_mem w) a" if "a \<in> live w R \<union> X" for a
    using r(8) root(2) [OF s] that by blast
  have "counter w' t = counter w t" if "t < spoke_count w" "t \<noteq> s" for t
  proof -
    have "spokes w ! t \<noteq> spokes w ! s"
      using that s shape(3) c(3) by (simp add: owned_def nth_eq_iff_index_eq)
    then have "timer_at (tq_mem w') (spokes w ! t) = timer_at (tq_mem w) (spokes w ! t)"
      using r(8) root(1) [OF that(1)] by blast
    then show ?thesis
      using r(4) by (simp add: counter_def tid_timer_at same_config_def)
  qed
  then have "ids_ok w' (insert n (live w R \<union> X))"
    using old r(7,9) by (intro ids_ok_insert [OF ok c(1) s r(4) cnt]) (auto simp: tid_timer_at k_def)
  moreover have "tid (tq_mem w) a \<noteq> k" if "a \<in> live w R \<union> X" for a
    unfolding k_def by (rule make_id_fresh [OF ok c(1) s that])
  moreover have "insert n (live w R \<union> X) = live w' R' \<union> X" using r(5) by auto
  ultimately show ?thesis
    using old by (intro that [OF r(1-4) _ k]) auto
qed

end
