(* ===== verification/Timer_Wheel_Life.thy ===== *)
theory Timer_Wheel_Life
  imports Timer_Wheel_Ids
begin

section \<open>Construction and destruction of the wheel\<close>

subsection \<open>\<open>power2bits\<close>\<close>

lemma bit_count_spec:
  assumes "0 \<le> n"
  shows "\<exists>i \<ge> 1. bit_count n k = Some (k + i) \<and> n < 2 ^ i \<and> (i = 1 \<or> 2 ^ (i - 1) \<le> n)"
  using assms
proof (induction "nat n" arbitrary: n k rule: less_induct)
  case less
  have d: "drop_bit 1 n = n div 2" by (simp add: drop_bit_eq_div)
  show ?case
  proof (cases "n div 2 = 0")
    case True
    then have "n < 2" using less.prems by auto
    then show ?thesis
      using True d by (intro exI [of _ 1]) (simp add: bit_count.simps [of n])
  next
    case False
    then have "n div 2 > 0" "n \<ge> 2" using less.prems by auto
    then obtain i where i: "i \<ge> 1" "bit_count (n div 2) (k + 1) = Some (k + 1 + i)" "n div 2 < 2 ^ i"
      "i = 1 \<or> 2 ^ (i - 1) \<le> n div 2"
      using less.hyps [of "n div 2" "k + 1"] by fastforce
    have "n < 2 * 2 ^ i" "2 ^ i \<le> n"
    proof -
      show "n < 2 * 2 ^ i" using i(3) by linarith
      have "(2::int) ^ i = 2 * 2 ^ (i - 1)" using i(1) by (cases i) auto
      then show "2 ^ i \<le> n" using i(1,4) \<open>n \<ge> 2\<close> by (cases "i = 1") auto
    qed
    then show ?thesis
      using i False d by (intro exI [of _ "Suc i"]) (simp add: bit_count.simps [of n])
  qed
qed

lemma bit_count_negative:
  assumes "n < 0"
  shows "bit_count n k = None"
proof -
  have "0 \<le> n" if "bit_count n k = Some y" for y
    using that
    by (rule bit_count.raw_induct [where P = "\<lambda>n k y. 0 \<le> n", rotated])
      (force simp: Let_def drop_bit_eq_div split: if_splits)
  then show ?thesis
    using assms by (cases "bit_count n k") auto
qed

lemma power2bits_nearest_lemma:
  assumes "0 \<le> n" "1 \<le> lo" "lo \<le> hi"
  shows "\<exists>b. power2bits n lo hi = Some b \<and> lo \<le> b \<and> b \<le> hi
    \<and> (\<forall>c. lo \<le> c \<longrightarrow> c \<le> hi \<longrightarrow> \<bar>2 ^ b - n\<bar> \<le> \<bar>2 ^ c - n\<bar>)"
proof (cases "n > 2 ^ hi - 1")
  case True
  have "\<bar>2 ^ hi - n\<bar> \<le> \<bar>2 ^ c - n\<bar>" if "c \<le> hi" for c
    using True power_increasing [OF that, of "2::int"] by linarith
  then show ?thesis
    using True assms(3) by (intro exI [of _ hi]) (simp add: power2bits_def)
next
  case False
  obtain i where i: "i \<ge> 1" "bit_count n 0 = Some i" "n < 2 ^ i" "i = 1 \<or> 2 ^ (i - 1) \<le> n"
    using bit_count_spec [OF assms(1), of 0] by auto
  show ?thesis
  proof (cases "i \<le> lo")
    case True
    have "\<bar>2 ^ lo - n\<bar> \<le> \<bar>2 ^ c - n\<bar>" if "lo \<le> c" for c
      using power_increasing [OF that, of "2::int"] power_increasing [OF True, of "2::int"] i(3) by linarith
    then show ?thesis
      using True False i(2) assms(3) by (intro exI [of _ lo]) (simp add: power2bits_def)
  next
    case hi: False
    have low: "2 ^ (i - 1) \<le> n" using i(4) hi assms(2) by auto
    have "i \<le> hi"
    proof (rule ccontr)
      assume "\<not> i \<le> hi"
      then have "(2::int) ^ hi \<le> 2 ^ (i - 1)" by (intro power_increasing) auto
      then show False using low False by linarith
    qed
    have dist: "min (n - 2 ^ (i - 1)) (2 ^ i - n) \<le> \<bar>2 ^ c - n\<bar>" for c
    proof (cases "c \<le> i - 1")
      case True
      then have "(2::int) ^ c \<le> 2 ^ (i - 1)" by (intro power_increasing) auto
      then show ?thesis by linarith
    next
      case False
      then have "(2::int) ^ i \<le> 2 ^ c" by (intro power_increasing) auto
      then show ?thesis by linarith
    qed
    show ?thesis
    proof (cases "n - 2 ^ (i - 1) < 2 ^ i - n")
      case True
      have "power2bits n lo hi = Some (i - 1)"
        using True low hi False i(2) by (auto simp: power2bits_def Let_def)
      moreover have "\<bar>2 ^ (i - 1) - n\<bar> \<le> \<bar>2 ^ c - n\<bar>" for c using dist [of c] True low by linarith
      ultimately show ?thesis
        using hi \<open>i \<le> hi\<close> by (intro exI [of _ "i - 1"]) auto
    next
      case far: False
      have "power2bits n lo hi = Some i"
        using far low hi False i(2) by (auto simp: power2bits_def Let_def)
      moreover have "\<bar>2 ^ i - n\<bar> \<le> \<bar>2 ^ c - n\<bar>" for c using dist [of c] far i(3) by linarith
      ultimately show ?thesis
        using hi \<open>i \<le> hi\<close> by (intro exI [of _ i]) simp
    qed
  qed
qed

subsection \<open>The roots\<close>

definition roots_inv :: "TimerWheel \<Rightarrow> addr list \<Rightarrow> bool" where
  "roots_inv w F \<longleftrightarrow>
     mem_wf (tq_mem w) \<and> fl_inv (tq_mem w) (tq_free w) F \<and> fl_supply (tq_free w) \<and> distinct (spokes w)
     \<and> dom (heap (tq_mem w)) - set F = set (spokes w)
     \<and> (\<forall>r \<in> set (spokes w). \<exists>nd. heap (tq_mem w) r = Some nd \<and> n_next nd = r \<and> n_prev nd = r
          \<and> n_act1 nd = 0 \<and> n_timer_id nd = 0)"

definition same_params :: "TimerWheel \<Rightarrow> TimerWheel \<Rightarrow> bool" where
  "same_params w w' \<longleftrightarrow>
     spoke_count w' = spoke_count w \<and> spoke_bits w' = spoke_bits w \<and> res_bits w' = res_bits w
     \<and> earliest_spoke w' = earliest_spoke w \<and> wheel_time w' = wheel_time w \<and> timer_count w' = timer_count w"

lemma make_root_inv:
  assumes "roots_inv w F"
  obtains root w1 m F' where "alloc_node w = Some (root, w1)"
    "node_set root NULL 0 0 tv_zero tv_zero root root 0 (tq_mem w1) = Some m"
    "roots_inv (w1\<lparr>tq_mem := m, spokes := spokes w1 @ [root]\<rparr>) F'"
    "spokes w1 = spokes w" "same_params w w1"
proof -
  have p: "fl_inv (tq_mem w) (tq_free w) F" "mem_wf (tq_mem w)" "fl_supply (tq_free w)"
    and sp: "dom (heap (tq_mem w)) - set F = set (spokes w)"
    using assms by (simp_all add: roots_inv_def)
  obtain n fl' m' F' where f: "fl_remove (tq_free w) (tq_mem w) = Some (n, fl', m')" "fl_inv m' fl' F'" "mem_wf m'"
    "n \<noteq> NULL" "n \<in> dom (heap m')" "n \<notin> set F'" "n \<notin> dom (heap (tq_mem w)) - set F"
    "dom (heap m') - set F' = insert n (dom (heap (tq_mem w)) - set F)"
    "same_nodes (- dom (heap (tq_mem w))) (tq_mem w) m'" "fl_supply fl'"
    using locked.remove_law [OF p] by (elim exE conjE) (rule that)
  let ?w1 = "w\<lparr>tq_free := fl', tq_mem := m'\<rparr>"
  obtain nd where nd: "heap m' n = Some nd" using f(5) by auto
  let ?nd = "nd\<lparr>n_type := NULL, n_act1 := 0, n_act2 := 0, n_timer_value := tv_zero, n_interval := tv_zero,
      n_prev := n, n_next := n, n_timer_id := 0\<rparr>"
  define m where "m = m'\<lparr>heap := (heap m')(n \<mapsto> ?nd)\<rparr>"
  have set: "node_set n NULL 0 0 tv_zero tv_zero n n 0 (tq_mem ?w1) = Some m"
    by (simp add: node_access nd m_def)
  have old: "heap m a = heap (tq_mem w) a" if "a \<in> set (spokes w)" for a
  proof -
    have "a \<noteq> n" "a \<in> dom (heap (tq_mem w))" using that sp f(7) by auto
    then show ?thesis using f(9) by (simp add: m_def same_nodes_def)
  qed
  have "fl_inv m fl' F'"
    by (rule locked.pool_cong [OF f(2)]) (use f(6) in \<open>auto simp: m_def\<close>)
  moreover have "mem_wf m" using f(3,4) nd by (auto simp: m_def mem_wf_def)
  moreover have "dom (heap m) - set F' = set (spokes w @ [n])"
    using f(5,8) sp by (auto simp: m_def)
  moreover have "heap m n = Some ?nd" by (simp add: m_def)
  ultimately have "roots_inv (?w1\<lparr>tq_mem := m, spokes := spokes ?w1 @ [n]\<rparr>) F'"
    using assms f(7,10) sp old by (auto simp: roots_inv_def)
  then show ?thesis
    using set by (intro that [of n ?w1 m F']) (auto simp: alloc_node_def f(1) same_params_def)
qed

lemma make_roots_inv:
  assumes "roots_inv w F"
  shows "\<exists>w' F'. make_roots k w = Some w' \<and> roots_inv w' F' \<and> length (spokes w') = length (spokes w) + k
    \<and> same_params w w'"
  using assms
proof (induction k arbitrary: w F)
  case 0
  then show ?case by (auto simp: same_params_def)
next
  case (Suc k)
  obtain root w1 m F1 where r: "alloc_node w = Some (root, w1)"
    "node_set root NULL 0 0 tv_zero tv_zero root root 0 (tq_mem w1) = Some m"
    "roots_inv (w1\<lparr>tq_mem := m, spokes := spokes w1 @ [root]\<rparr>) F1"
    "spokes w1 = spokes w" "same_params w w1"
    by (rule make_root_inv [OF Suc.prems])
  obtain w' F' where "make_roots k (w1\<lparr>tq_mem := m, spokes := spokes w1 @ [root]\<rparr>) = Some w'" "roots_inv w' F'"
    "length (spokes w') = length (spokes w1 @ [root]) + k" "same_params (w1\<lparr>tq_mem := m, spokes := spokes w1 @ [root]\<rparr>) w'"
    using Suc.IH [OF r(3)] by auto
  then show ?case
    using r(4,5) by (intro exI [of _ w'] exI [of _ F']) (simp add: r(1,2) same_params_def)
qed

lemma roots_inv_wheel:
  assumes "roots_inv w F" "wheel_shape w" "timer_count w = 0"
  shows "wheel_inv w (\<lambda>_. []) F {}" "ids_ok w {}" "pending w (\<lambda>_. []) = {#}"
    "\<forall>s < spoke_count w. counter w s = 0"
proof -
  have r: "spokes w ! i \<in> set (spokes w)" if "i < spoke_count w" for i
    using assms(2) that by (simp add: wheel_shape_def)
  have lv: "live w (\<lambda>_. []) = {}" by (simp add: live_def)
  have "rings w (\<lambda>_. [])"
    using r assms(1) by (fastforce simp: rings_def ring_self nxt_def prv_def roots_inv_def)
  moreover have "set F \<subseteq> dom (heap (tq_mem w))"
    using assms(1) locked.pool_dom [of "tq_mem w" "tq_free w" F] by (simp add: roots_inv_def)
  then have "owned w (\<lambda>_. []) F {}"
    using assms(1) lv unfolding owned_def roots_inv_def by auto
  moreover have "roots_clear w"
    using assms(1) by (fastforce simp: roots_clear_def roots_inv_def get_act1_def)
  ultimately show "wheel_inv w (\<lambda>_. []) F {}"
    using assms(2,3) lv by (simp add: wheel_inv_def wheel_core_def timed_def counted_def first_min_def)
  show zero: "\<forall>s < spoke_count w. counter w s = 0"
    using r assms(1) by (fastforce simp: counter_def tid_def roots_inv_def)
  then show "ids_ok w {}" by (simp add: ids_ok_def)
  show "pending w (\<lambda>_. []) = {#}" by (simp add: pending_def)
qed

lemma sint_u32_nonneg:
  assumes "unat (x::u32) < 2 ^ 31"
  shows "sint x = int (unat x)"
proof -
  have u: "int (unat x) = uint x" by simp
  then have "uint x < 2 ^ 31" using assms by (metis of_nat_less_iff of_nat_numeral of_nat_power)
  moreover have "0 \<le> uint x" by simp
  then have "- (2 ^ 31) \<le> uint x" by (rule order_trans [rotated]) simp
  ultimately have "signed_take_bit 31 (uint x) = uint x" by (intro signed_take_bit_int_eq_self)
  then show ?thesis by (simp add: sint_uint)
qed

lemma TimerWheel_new_inv:
  assumes "unat n_spokes < 2 ^ 31" "unat res < 2 ^ 31"
    and "fl_inv m fl F" "mem_wf m" "fl_supply fl" "dom (heap m) = set F"
  obtains w F' where "TimerWheel_new n_spokes res prealloc fl m = Some w"
    "wheel_inv w (\<lambda>_. []) F' {}" "ids_ok w {}" "pending w (\<lambda>_. []) = {#}"
    "\<forall>s < spoke_count w. counter w s = 0"
proof -
  obtain sb where sb: "power2bits (sint n_spokes) 3 12 = Some sb" "3 \<le> sb" "sb \<le> 12"
    using power2bits_nearest_lemma [of "sint n_spokes" 3 12] sint_u32_nonneg [OF assms(1)] by auto
  obtain rb where rb: "power2bits (sint res) 1 20 = Some rb" "1 \<le> rb" "rb \<le> 20"
    using power2bits_nearest_lemma [of "sint res" 1 20] sint_u32_nonneg [OF assms(2)] by auto
  let ?k = "unat (word_of_int prealloc + word_of_nat (2 ^ sb) :: u32)"
  obtain fl' m' F' where f: "fl_resize ?k fl m = Some (fl', m')" "fl_inv m' fl' F'" "mem_wf m'"
    "dom (heap m') - set F' = dom (heap m) - set F" "fl_supply fl'"
    using fl_resize_inv [OF assms(3,4), of ?k] assms(5) unfolding fl_supply_def by metis
  let ?w0 = "\<lparr>tq_mem = m', tq_free = fl', spokes = [], spoke_count = 2 ^ sb, spoke_bits = sb, res_bits = rb,
      earliest_spoke = 0, wheel_time = tv_of_msec (2 ^ rb), timer_count = 0\<rparr>"
  have "roots_inv ?w0 F'"
    using f assms(6) by (simp add: roots_inv_def)
  then obtain w F2 where w: "make_roots (2 ^ sb) ?w0 = Some w" "roots_inv w F2" "length (spokes w) = 2 ^ sb"
    "same_params ?w0 w"
    using make_roots_inv [of ?w0 F' "2 ^ sb"] by auto
  have "TimerWheel_new n_spokes res prealloc fl m = Some w"
    using w(1) f(1) rb(1) by (simp add: TimerWheel_new_def open_i_def sb(1))
  moreover have "wheel_shape w" "timer_count w = 0"
    using w(3,4) sb rb by (simp_all add: wheel_shape_def same_params_def)
  ultimately show ?thesis
    using that roots_inv_wheel [OF w(2)] by blast
qed

text \<open>A negative number of spokes or resolution, after its conversion to \<^verbatim>\<open>int\<close>, hangs the constructor.\<close>

lemma TimerWheel_new_hangs:
  assumes "sint n_spokes < 0"
  shows "TimerWheel_new n_spokes res prealloc fl m = None"
  using assms bit_count_negative [OF assms]
  by (simp add: TimerWheel_new_def open_i_def power2bits_def)

subsection \<open>Destruction\<close>

text \<open>The loop over one spoke returns all its timers to the pool; the pool never touches the root.\<close>

lemma free_ring_inv:
  assumes "linked (heap (tq_mem w)) (ns @ [r])" "distinct ns" "r \<notin> set ns" "set ns \<subseteq> A"
    and "fl_inv (tq_mem w) (tq_free w) F" "mem_wf (tq_mem w)" "dom (heap (tq_mem w)) - set F = A"
  shows "\<exists>fl m F'. free_ring r (hd (ns @ [r])) w = Some (w\<lparr>tq_free := fl, tq_mem := m\<rparr>)
    \<and> fl_inv m fl F' \<and> mem_wf m \<and> dom (heap m) - set F' = A - set ns
    \<and> (\<forall>x \<in> A - set ns. heap m x = heap (tq_mem w) x) \<and> fl_mode fl = fl_mode (tq_free w)"
  using assms
proof (induction ns arbitrary: w F A)
  case Nil
  have "w = w\<lparr>tq_free := tq_free w, tq_mem := tq_mem w\<rparr>" by simp
  then show ?case
    using Nil by (intro exI [of _ "tq_free w"] exI [of _ "tq_mem w"] exI [of _ F]) (simp add: free_ring.simps [of r])
next
  case (Cons b ns)
  have b: "b \<in> dom (heap (tq_mem w))" "b \<notin> set F" "b \<in> A" using Cons.prems(4,7) by auto
  obtain fl1 m1 F1 where f: "fl_add b (tq_free w) (tq_mem w) = Some (fl1, m1)" "fl_inv m1 fl1 F1" "mem_wf m1"
    "same_nodes {b} (tq_mem w) m1" "dom (heap m1) - set F1 = dom (heap (tq_mem w)) - set F - {b}"
    "fl_mode fl1 = fl_mode (tq_free w)"
    using fl_add_inv [OF Cons.prems(5,6) b(1,2)] by (elim exE conjE) (rule that)
  let ?w = "w\<lparr>tq_free := fl1, tq_mem := m1\<rparr>"
  have lk: "linked (heap (tq_mem w)) (ns @ [r])" and nx: "get_next b (tq_mem w) = Some (hd (ns @ [r]))"
    using Cons.prems(1) by (auto simp: linked_Cons get_links)
  have other: "heap m1 x = heap (tq_mem w) x" if "x \<noteq> b" for x
    using f(4) that by (simp add: same_nodes_def)
  have nb: "x \<noteq> b" if "x \<in> set (ns @ [r])" for x using Cons.prems(2,3) that by auto
  have "nxt (heap m1) x = nxt (heap (tq_mem w)) x" "prv (heap m1) x = prv (heap (tq_mem w)) x"
    if "x \<in> set (ns @ [r])" for x using other [OF nb [OF that]] by (simp_all add: nxt_def prv_def)
  then have lk1: "linked (heap (tq_mem ?w)) (ns @ [r])"
    by (auto intro!: linked_cong [OF lk] dest: in_set_butlastD in_set_tlD)
  have "dom (heap (tq_mem ?w)) - set F1 = A - {b}" "set ns \<subseteq> A - {b}" "distinct ns" "r \<notin> set ns"
    using f(5) Cons.prems by auto
  then obtain fl m F' where "free_ring r (hd (ns @ [r])) ?w = Some (?w\<lparr>tq_free := fl, tq_mem := m\<rparr>)"
    "fl_inv m fl F'" "mem_wf m" "dom (heap m) - set F' = A - {b} - set ns"
    "\<forall>x \<in> A - {b} - set ns. heap m x = heap (tq_mem ?w) x" "fl_mode fl = fl_mode (tq_free ?w)"
    using Cons.IH [OF lk1, of "A - {b}" F1] f(2,3) by auto
  moreover have "A - {b} - set ns = A - set (b # ns)" by auto
  ultimately show ?case
    using Cons.prems(3) nx f(1,6) other
    by (intro exI [of _ fl] exI [of _ m] exI [of _ F']) (simp add: free_ring.simps [of r b] free_node_def)
qed

abbreviation spoke_nodes :: "TimerWheel \<Rightarrow> (nat \<Rightarrow> addr list) \<Rightarrow> nat \<Rightarrow> addr set" where
  "spoke_nodes w R i \<equiv> insert (spokes w ! i) (set (R i))"

lemma free_spoke_step:
  assumes "i < length (spokes w)" "ring (heap (tq_mem w)) (spokes w ! i) (R i)" "spoke_nodes w R i \<subseteq> A"
    and "fl_inv (tq_mem w) (tq_free w) F" "mem_wf (tq_mem w)" "dom (heap (tq_mem w)) - set F = A"
  obtains w1 m F' where "\<forall>is. free_spokes (i # is) w = free_spokes is (w1\<lparr>tq_mem := m\<rparr>)" "spokes w1 = spokes w"
    "fl_inv m (tq_free w1) F'" "mem_wf m" "dom (heap m) - set F' = A - spoke_nodes w R i"
    "\<forall>x \<in> A - spoke_nodes w R i. heap m x = heap (tq_mem w) x" "fl_mode (tq_free w1) = fl_mode (tq_free w)"
proof -
  let ?r = "spokes w ! i"
  have r: "distinct (R i)" "?r \<notin> set (R i)" "linked (heap (tq_mem w)) (R i @ [?r])"
    "get_next ?r (tq_mem w) = Some (hd (R i @ [?r]))"
    using assms(2) ring_first [OF assms(2)] by (auto simp: ring_def linked_Cons get_links)
  have "set (R i) \<subseteq> A" using assms(3) by simp
  from free_ring_inv [OF r(3,1,2) this assms(4-6)] obtain fl m1 F' where
    f: "free_ring ?r (hd (R i @ [?r])) w = Some (w\<lparr>tq_free := fl, tq_mem := m1\<rparr>)"
    "fl_inv m1 fl F'" "mem_wf m1" "dom (heap m1) - set F' = A - set (R i)"
    "\<forall>x \<in> A - set (R i). heap m1 x = heap (tq_mem w) x" "fl_mode fl = fl_mode (tq_free w)"
    by (elim exE conjE) (rule that)
  have rA: "?r \<in> A - set (R i)" using assms(3) r(2) by auto
  then have r1: "?r \<in> dom (heap m1)" "?r \<notin> set F'" using f(4) by auto
  then have r0: "?r \<noteq> NULL" using mem_wf_dom [OF f(3)] by blast
  define m where "m = m1\<lparr>heap := (heap m1)(?r := None)\<rparr>"
  have del: "mem_delete ?r m1 = Some m"
    using r0 r1(1) by (auto simp: mem_delete_def m_def)
  have "fl_inv m fl F'"
    by (rule locked.pool_cong [OF f(2)]) (use r1(2) in \<open>auto simp: m_def\<close>)
  moreover have "mem_wf m" using f(3) by (auto simp: m_def mem_wf_def)
  moreover have "dom (heap m) - set F' = A - spoke_nodes w R i"
    using f(4) by (auto simp: m_def)
  moreover have "\<forall>x \<in> A - spoke_nodes w R i. heap m x = heap (tq_mem w) x"
    using f(5) by (simp add: m_def)
  ultimately show ?thesis
    using assms(1) r(4) f(1,6) del by (intro that [of m "w\<lparr>tq_free := fl, tq_mem := m1\<rparr>" F']) (simp_all add: spoke_at_def)
qed

lemma free_spokes_inv:
  assumes "distinct is" "\<forall>i \<in> set is. i < length (spokes w) \<and> ring (heap (tq_mem w)) (spokes w ! i) (R i)"
    and "\<forall>i \<in> set is. \<forall>j \<in> set is. i \<noteq> j \<longrightarrow> spoke_nodes w R i \<inter> spoke_nodes w R j = {}"
    and "dom (heap (tq_mem w)) - set F = (\<Union>i \<in> set is. spoke_nodes w R i) \<union> X"
    and "(\<Union>i \<in> set is. spoke_nodes w R i) \<inter> X = {}" "fl_inv (tq_mem w) (tq_free w) F" "mem_wf (tq_mem w)"
  shows "\<exists>w' F'. free_spokes is w = Some w' \<and> fl_inv (tq_mem w') (tq_free w') F' \<and> mem_wf (tq_mem w')
    \<and> dom (heap (tq_mem w')) - set F' = X \<and> fl_mode (tq_free w') = fl_mode (tq_free w)"
  using assms
proof (induction "is" arbitrary: w F)
  case Nil
  then show ?case by auto
next
  case (Cons i is')
  let ?A = "(\<Union>i \<in> set (i # is'). spoke_nodes w R i) \<union> X"
  have i: "i < length (spokes w)" "ring (heap (tq_mem w)) (spokes w ! i) (R i)" "spoke_nodes w R i \<subseteq> ?A"
    using Cons.prems(2) by auto
  obtain w1 m F' where s: "\<forall>is. free_spokes (i # is) w = free_spokes is (w1\<lparr>tq_mem := m\<rparr>)" "spokes w1 = spokes w"
    "fl_inv m (tq_free w1) F'" "mem_wf m" "dom (heap m) - set F' = ?A - spoke_nodes w R i"
    "\<forall>x \<in> ?A - spoke_nodes w R i. heap m x = heap (tq_mem w) x" "fl_mode (tq_free w1) = fl_mode (tq_free w)"
    by (rule free_spoke_step [of i w R ?A F, OF i Cons.prems(6,7,4)])
  let ?w = "w1\<lparr>tq_mem := m\<rparr>"
  have sep: "spoke_nodes w R j \<inter> spoke_nodes w R i = {}" if "j \<in> set is'" for j
    using Cons.prems(1,3) that by (metis distinct.simps(2) list.set_intros)
  have keep: "heap m x = heap (tq_mem w) x" if "j \<in> set is'" "x \<in> spoke_nodes w R j" for j x
  proof -
    have "x \<notin> spoke_nodes w R i" using sep [OF that(1)] that(2) by auto
    moreover have "x \<in> ?A" using that by (intro UnI1 UN_I [of j]) auto
    ultimately show ?thesis using s(6) by simp
  qed
  have "\<forall>j \<in> set is'. j < length (spokes ?w) \<and> ring (heap (tq_mem ?w)) (spokes ?w ! j) (R j)"
  proof
    fix j assume j: "j \<in> set is'"
    have old: "ring (heap (tq_mem w)) (spokes w ! j) (R j)" using Cons.prems(2) j by simp
    have "ring (heap m) (spokes w ! j) (R j)"
      by (rule ring_cong [OF old]) (simp add: nxt_def prv_def keep [OF j])
    then show "j < length (spokes ?w) \<and> ring (heap (tq_mem ?w)) (spokes ?w ! j) (R j)"
      using Cons.prems(2) j s(2) by simp
  qed
  moreover have "?A - spoke_nodes w R i = (\<Union>j \<in> set is'. spoke_nodes w R j) \<union> X"
  proof -
    have "X \<inter> spoke_nodes w R i = {}" using Cons.prems(5) by auto
    moreover have "(\<Union>j \<in> set is'. spoke_nodes w R j) \<inter> spoke_nodes w R i = {}" using sep by blast
    ultimately show ?thesis by auto
  qed
  ultimately have "\<exists>w' F'. free_spokes is' ?w = Some w' \<and> fl_inv (tq_mem w') (tq_free w') F' \<and> mem_wf (tq_mem w')
    \<and> dom (heap (tq_mem w')) - set F' = X \<and> fl_mode (tq_free w') = fl_mode (tq_free ?w)"
    using Cons.prems(1,3,5) s(2-5) by (intro Cons.IH) (simp_all add: Int_Un_distrib2)
  then show ?case using s(1,7) by simp
qed

lemma TimerWheel_delete_inv:
  assumes inv: "wheel_inv w R F X"
  obtains m where "TimerWheel_delete w = Some m" "dom (heap m) = X"
proof -
  note core = wheel_invD(1) [OF inv]
  note c = wheel_coreD [OF core]
  note o = owned_pool [OF c(3)]
  have len: "length (spokes w) = spoke_count w" using c(1) by (simp add: wheel_shape_def)
  let ?is = "[0..<spoke_count w]"
  have nodes: "(\<Union>i \<in> set ?is. spoke_nodes w R i) = set (spokes w) \<union> live w R"
  proof -
    have "set (spokes w) = (\<Union>i < spoke_count w. {spokes w ! i})"
      by (auto simp: set_conv_nth len)
    then show ?thesis by (auto simp: live_def)
  qed
  have "\<exists>w' F'. free_spokes ?is w = Some w' \<and> fl_inv (tq_mem w') (tq_free w') F' \<and> mem_wf (tq_mem w')
    \<and> dom (heap (tq_mem w')) - set F' = X \<and> fl_mode (tq_free w') = fl_mode (tq_free w)"
  proof (rule free_spokes_inv [OF distinct_upt])
    show "\<forall>i \<in> set ?is. i < length (spokes w) \<and> ring (heap (tq_mem w)) (spokes w ! i) (R i)"
      using c(2) len by (simp add: rings_def)
    show "\<forall>i \<in> set ?is. \<forall>j \<in> set ?is. i \<noteq> j \<longrightarrow> spoke_nodes w R i \<inter> spoke_nodes w R j = {}"
      using spoke_sep [OF core] by simp
  qed (use nodes o in simp_all)
  then obtain w' F' where f: "free_spokes ?is w = Some w'" "fl_inv (tq_mem w') (tq_free w') F'" "mem_wf (tq_mem w')"
    "dom (heap (tq_mem w')) - set F' = X" "fl_mode (tq_free w') = fl_mode (tq_free w)"
    by blast
  have "fl_mode (tq_free w') \<noteq> DHN_PURE_FREE_LIST"
    using f(5) o(3) by (simp add: fl_supply_def)
  then show ?thesis
    using fl_destroy_inv [OF f(2,3)] f(1,4) that by (auto simp: TimerWheel_delete_def)
qed

end
