(* ===== verification/Timer_Queue.thy ===== *)
theory Timer_Queue
  imports Timer_Wheel_Life
begin

section \<open>The timer queue: dispatching expired timers (comLib/dhntimer/DHNTimerQueue.h)\<close>

text \<open>
  \<^verbatim>\<open>TimerQueue\<close> is an abstract class: its member functions below are written over pure virtual ones, which
  are here a record \<open>virtuals\<close> of functions on the state \<open>'q\<close> of the queue. The clock, and the virtual
  member functions of the tasks, which belong to the program that uses the timers, are a record \<open>env\<close> over
  a state \<open>'u\<close> of that program. A task may call the queue back (its mutex is recursive), so it receives the
  state of the queue too. Every public operation holds the mutex from start to end.
\<close>

subsection \<open>Operations\<close>

record 'q virtuals =
  v_is_empty :: "'q \<Rightarrow> bool"
  v_earliest_time :: "'q \<Rightarrow> TimeValue option"
  v_remove_first :: "'q \<Rightarrow> (addr \<times> 'q) option"
  v_reschedule :: "addr \<Rightarrow> 'q \<Rightarrow> 'q option"
  v_free_node :: "addr \<Rightarrow> 'q \<Rightarrow> 'q option"
  v_mem :: "'q \<Rightarrow> Memory"
  v_set_mem :: "Memory \<Rightarrow> 'q \<Rightarrow> 'q"

record ('u, 'q) env =
  gettimeofday :: "'u \<Rightarrow> TimeValue \<times> 'u"
  handle_timeout :: "addr \<Rightarrow> int \<Rightarrow> TimeValue \<Rightarrow> u64 \<Rightarrow> u64 \<Rightarrow> 'u \<times> 'q \<Rightarrow> ('u \<times> 'q) option"
  is_stop_repeated :: "addr \<Rightarrow> 'u \<Rightarrow> bool"
  handle_repeated_timer_stoped :: "addr \<Rightarrow> 'u \<times> 'q \<Rightarrow> ('u \<times> 'q) option"

text \<open>
  \<^verbatim>\<open>calculate_timeout\<close> takes two pointers (\<open>None\<close> is \<^verbatim>\<open>NULL\<close>) and returns one of them: the model returns the
  value behind the returned pointer and the value left behind \<^verbatim>\<open>the_timeout\<close>.
\<close>

definition calculate_timeout ::
  "'q virtuals \<Rightarrow> ('u, 'q) env \<Rightarrow> TimeValue option \<Rightarrow> TimeValue option \<Rightarrow> 'u \<times> 'q \<Rightarrow>
   (TimeValue option \<times> TimeValue option \<times> 'u) option" where
  "calculate_timeout V E max_wait_time the_timeout = (\<lambda>(u, q).
     (case the_timeout of
        None \<Rightarrow> Some (max_wait_time, None, u)
      | Some tt \<Rightarrow>
         if v_is_empty V q
         then (case max_wait_time of
                 Some mw \<Rightarrow> Some (Some mw, Some mw, u)
               | None \<Rightarrow> Some (None, Some tt, u))
         else let (cur_time, u) = gettimeofday E u
              in do {
                t_earliest_time \<leftarrow> v_earliest_time V q;
                let tt = (if t_earliest_time > cur_time
                          then let tt = tv_sub t_earliest_time cur_time
                               in case max_wait_time of
                                    None \<Rightarrow> tt
                                  | Some mw \<Rightarrow> if \<not> mw > tt then mw else tt
                          else tv_zero);
                Some (Some tt, Some tt, u)
              }))"

text \<open>The do-while loop of an interval timer.\<close>

partial_function (option) advance :: "'q virtuals \<Rightarrow> TimeValue \<Rightarrow> addr \<Rightarrow> 'q \<Rightarrow> 'q option" where
  "advance V cur_time expired q =
     do {
       v \<leftarrow> get_timer_value expired (v_mem V q);
       i \<leftarrow> get_interval expired (v_mem V q);
       m \<leftarrow> set_timer_value expired (tv_add v i) (v_mem V q);
       v \<leftarrow> get_timer_value expired m;
       if v \<le> cur_time then advance V cur_time expired (v_set_mem V m q) else Some (v_set_mem V m q)
     }"

definition dispatch_info_i ::
  "'q virtuals \<Rightarrow> ('u, 'q) env \<Rightarrow> TimeValue \<Rightarrow> 'u \<times> 'q \<Rightarrow> (int \<times> 'u \<times> 'q) option" where
  "dispatch_info_i V E cur_time = (\<lambda>(u, q).
     (if v_is_empty V q then Some (0, u, q)
      else do {
        earliest \<leftarrow> v_earliest_time V q;
        if earliest \<le> cur_time
        then do {
          (expired, q) \<leftarrow> v_remove_first V q;
          if expired = NULL then Some (0, u, q)
          else do {
            ev \<leftarrow> get_type expired (v_mem V q);
            if ev = NULL then Some (0, u, q)
            else do {
              let (tv, u) = gettimeofday E u;
              i \<leftarrow> get_timer_id expired (v_mem V q);
              a1 \<leftarrow> get_act1 expired (v_mem V q);
              a2 \<leftarrow> get_act2 expired (v_mem V q);
              (u, q) \<leftarrow> handle_timeout E ev (to_int i) tv a1 a2 (u, q);
              tExpires \<leftarrow> get_interval expired (v_mem V q);
              if tExpires > tv_zero
              then do {
                q \<leftarrow> advance V cur_time expired q;
                if is_stop_repeated E ev u
                then do {
                  q \<leftarrow> v_free_node V expired q;
                  (u, q) \<leftarrow> handle_repeated_timer_stoped E ev (u, q);
                  Some (1, u, q)
                }
                else do {
                  q \<leftarrow> v_reschedule V expired q;
                  Some (1, u, q)
                }
              }
              else do {
                q \<leftarrow> v_free_node V expired q;
                Some (1, u, q)
              }
            }
          }
        }
        else Some (0, u, q)
      }))"

partial_function (option) expire_loop ::
  "'q virtuals \<Rightarrow> ('u, 'q) env \<Rightarrow> TimeValue \<Rightarrow> int \<Rightarrow> 'u \<times> 'q \<Rightarrow> (int \<times> 'u \<times> 'q) option" where
  "expire_loop V E cur_time number s =
     do {
       (result, s') \<leftarrow> dispatch_info_i V E cur_time s;
       if result \<noteq> 0 then expire_loop V E cur_time (number + 1) s' else Some (number, s')
     }"

definition expire_at :: "'q virtuals \<Rightarrow> ('u, 'q) env \<Rightarrow> TimeValue \<Rightarrow> 'u \<times> 'q \<Rightarrow> (int \<times> 'u \<times> 'q) option" where
  "expire_at V E cur_time = (\<lambda>(u, q).
     if v_is_empty V q then Some (0, u, q) else expire_loop V E cur_time 0 (u, q))"

definition expire :: "'q virtuals \<Rightarrow> ('u, 'q) env \<Rightarrow> 'u \<times> 'q \<Rightarrow> (int \<times> 'u \<times> 'q) option" where
  "expire V E = (\<lambda>(u, q).
     if \<not> v_is_empty V q
     then let (t, u) = gettimeofday E u in expire_at V E t (u, q)
     else Some (0, u, q))"

text \<open>The virtual functions of the wheel.\<close>

definition wheel_virtuals :: "TimerWheel virtuals" where
  "wheel_virtuals =
     \<lparr>v_is_empty = wheel_is_empty, v_earliest_time = earliest_time, v_remove_first = remove_first,
      v_reschedule = reschedule, v_free_node = free_node, v_mem = tq_mem, v_set_mem = (\<lambda>m w. w\<lparr>tq_mem := m\<rparr>)\<rparr>"

text \<open>\<^verbatim>\<open>TimerQueue::schedule\<close> on the wheel: the clock is read inside \<^verbatim>\<open>schedule_i\<close>.\<close>

definition tq_schedule ::
  "('u, TimerWheel) env \<Rightarrow> addr \<Rightarrow> u64 \<Rightarrow> u64 \<Rightarrow> TimeValue \<Rightarrow> TimeValue \<Rightarrow> 'u \<times> TimerWheel \<Rightarrow>
   (int \<times> 'u \<times> TimerWheel) option" where
  "tq_schedule E ty act1 act2 tAfter tInterval = (\<lambda>(u, w).
     let (now, u) = gettimeofday E u
     in do {
       (i, w) \<leftarrow> schedule_i now ty act1 act2 tAfter tInterval w;
       Some (i, u, w)
     })"

subsection \<open>What a dispatch should do\<close>

text \<open>
  An interval timer runs next at the first of its times after \<open>cur\<close>. A task that does not call the
  queue back is \<open>quiet\<close> (\<open>calls_back C E\<close>: what the tasks of \<open>E\<close> do to the queue is in \<open>C\<close>); then a dispatch is a function of the program's state, \<open>fire\<close>, and the timers it
  schedules again are \<open>again\<close>. \<open>runs\<close> is the effect of dispatching a list of timers in order.
\<close>

definition next_run :: "TimeValue \<Rightarrow> TimeValue \<Rightarrow> TimeValue \<Rightarrow> TimeValue" where
  "next_run cur v iv =
     tv_set 0 (tv_total v + tv_total iv * ((tv_total cur - tv_total v) div tv_total iv + 1))"

definition quiet ::
  "('u, 'q) env \<Rightarrow> (addr \<Rightarrow> int \<Rightarrow> TimeValue \<Rightarrow> u64 \<Rightarrow> u64 \<Rightarrow> 'u \<Rightarrow> 'u) \<Rightarrow> (addr \<Rightarrow> 'u \<Rightarrow> 'u) \<Rightarrow> bool" where
  "quiet E hu hs \<longleftrightarrow>
     (\<forall>ev i tv a1 a2 u q. handle_timeout E ev i tv a1 a2 (u, q) = Some (hu ev i tv a1 a2 u, q))
     \<and> (\<forall>ev u q. handle_repeated_timer_stoped E ev (u, q) = Some (hs ev u, q))"

definition calls_back :: "('q \<Rightarrow> 'q \<Rightarrow> bool) \<Rightarrow> ('u, 'q) env \<Rightarrow> bool" where
  "calls_back C E \<longleftrightarrow>
     (\<forall>ev i tv a1 a2 u q u' q'. handle_timeout E ev i tv a1 a2 (u, q) = Some (u', q') \<longrightarrow> C q q')
     \<and> (\<forall>ev u q u' q'. handle_repeated_timer_stoped E ev (u, q) = Some (u', q') \<longrightarrow> C q q')"

definition handled ::
  "('u, 'q) env \<Rightarrow> (addr \<Rightarrow> int \<Rightarrow> TimeValue \<Rightarrow> u64 \<Rightarrow> u64 \<Rightarrow> 'u \<Rightarrow> 'u) \<Rightarrow> Node \<Rightarrow> 'u \<Rightarrow> 'u" where
  "handled E hu t u =
     (let (tv, u) = gettimeofday E u
      in hu (n_type t) (to_int (n_timer_id t)) tv (n_act1 t) (n_act2 t) u)"

definition repeats :: "('u, 'q) env \<Rightarrow> Node \<Rightarrow> 'u \<Rightarrow> bool" where
  "repeats E t u \<longleftrightarrow> n_interval t > tv_zero \<and> \<not> is_stop_repeated E (n_type t) u"

definition fire ::
  "('u, 'q) env \<Rightarrow> (addr \<Rightarrow> int \<Rightarrow> TimeValue \<Rightarrow> u64 \<Rightarrow> u64 \<Rightarrow> 'u \<Rightarrow> 'u) \<Rightarrow> (addr \<Rightarrow> 'u \<Rightarrow> 'u) \<Rightarrow> Node \<Rightarrow> 'u \<Rightarrow> 'u" where
  "fire E hu hs t u =
     (let u = handled E hu t u
      in if n_interval t > tv_zero \<and> is_stop_repeated E (n_type t) u then hs (n_type t) u else u)"

definition again ::
  "('u, 'q) env \<Rightarrow> (addr \<Rightarrow> int \<Rightarrow> TimeValue \<Rightarrow> u64 \<Rightarrow> u64 \<Rightarrow> 'u \<Rightarrow> 'u) \<Rightarrow> TimeValue \<Rightarrow> Node \<Rightarrow> 'u \<Rightarrow> Node multiset" where
  "again E hu cur t u =
     (if repeats E t (handled E hu t u)
      then {#t\<lparr>n_timer_value := next_run cur (n_timer_value t) (n_interval t)\<rparr>#} else {#})"

fun runs ::
  "('u, 'q) env \<Rightarrow> (addr \<Rightarrow> int \<Rightarrow> TimeValue \<Rightarrow> u64 \<Rightarrow> u64 \<Rightarrow> 'u \<Rightarrow> 'u) \<Rightarrow> (addr \<Rightarrow> 'u \<Rightarrow> 'u) \<Rightarrow> TimeValue \<Rightarrow>
   Node list \<Rightarrow> 'u \<Rightarrow> 'u \<times> Node multiset" where
  "runs E hu hs cur [] u = (u, {#})"
| "runs E hu hs cur (t # ts) u =
     (let (u', M) = runs E hu hs cur ts (fire E hu hs t u) in (u', again E hu cur t u + M))"

definition proper_timer :: "Node \<Rightarrow> bool" where
  "proper_timer t \<longleftrightarrow> n_type t \<noteq> NULL \<and> tv_normal (n_interval t)"

lemma next_run_total [simp]:
  "tv_total (next_run cur v iv) = tv_total v + tv_total iv * ((tv_total cur - tv_total v) div tv_total iv + 1)"
  by (simp add: next_run_def)

lemma next_run_normal [simp]: "tv_normal (next_run cur v iv)"
  by (simp add: next_run_def)

lemma next_run_step:
  assumes "0 < tv_total iv"
  shows "next_run cur (tv_add v iv) iv = next_run cur v iv"
proof (rule tv_normal_unique)
  have "(tv_total cur - (tv_total v + tv_total iv)) div tv_total iv = (tv_total cur - tv_total v) div tv_total iv - 1"
    using div_add_self2 [of "tv_total iv" "tv_total cur - tv_total v - tv_total iv"] assms
    by (simp add: algebra_simps)
  then show "tv_total (next_run cur (tv_add v iv) iv) = tv_total (next_run cur v iv)"
    by (simp add: algebra_simps)
qed simp_all

lemma next_run_first:
  assumes "0 < tv_total iv" "tv_total v \<le> tv_total cur" "tv_total cur < tv_total v + tv_total iv"
  shows "next_run cur v iv = tv_add v iv"
  by (rule tv_normal_unique) (use assms in \<open>simp_all add: div_pos_pos_trivial\<close>)

lemma next_run_later:
  assumes "0 < tv_total iv" "tv_normal cur"
  shows "cur < next_run cur v iv"
proof -
  let ?d = "tv_total cur - tv_total v" and ?i = "tv_total iv"
  have "?i * (?d div ?i) + ?d mod ?i = ?d" "?d mod ?i < ?i"
    using assms(1) by (simp_all only: mult_div_mod_eq pos_mod_bound)
  then have "tv_total cur < tv_total v + (?i * (?d div ?i) + ?i)"
    by linarith
  then have "tv_total cur < tv_total v + ?i * (?d div ?i + 1)"
    by (simp only: distrib_left mult_1_right)
  then show ?thesis
    using assms(2) by (simp add: tv_normal_less)
qed

lemma filter_mset_none: "{#t \<in># M. P t#} = {#} \<longleftrightarrow> (\<forall>t \<in># M. \<not> P t)"
  by (induction M) auto

lemma filter_mset_all: "(\<forall>t \<in># M. P t) \<Longrightarrow> {#t \<in># M. P t#} = M"
  by (induction M) auto

subsection \<open>The interface of the virtual functions\<close>

text \<open>
  \<open>ok q X\<close>: the queue is well formed and \<open>X\<close> are the nodes taken from it that are being dispatched.
  \<open>timers q\<close> are its pending timers.
\<close>

locale timer_queue =
  fixes V :: "'q virtuals"
    and ok :: "'q \<Rightarrow> addr set \<Rightarrow> bool"
    and timers :: "'q \<Rightarrow> Node multiset"
  assumes empty_law: "ok q X \<Longrightarrow> v_is_empty V q \<longleftrightarrow> timers q = {#}"
    and first_law: "\<lbrakk>ok q X; timers q \<noteq> {#}\<rbrakk> \<Longrightarrow>
      \<exists>n q' t. v_earliest_time V q = Some (n_timer_value t) \<and> v_remove_first V q = Some (n, q')
        \<and> n \<noteq> NULL \<and> n \<notin> X \<and> ok q' (insert n X) \<and> timers q = add_mset t (timers q')
        \<and> map_option payload (heap (v_mem V q') n) = Some t \<and> good_time (n_timer_value t)
        \<and> (\<forall>t' \<in># timers q. n_timer_value t \<le> n_timer_value t')"
    and free_law: "\<lbrakk>ok q (insert n X); n \<notin> X\<rbrakk> \<Longrightarrow> \<exists>q'. v_free_node V n q = Some q' \<and> ok q' X \<and> timers q' = timers q"
    and reschedule_law: "\<lbrakk>ok q (insert n X); n \<notin> X; heap (v_mem V q) n = Some nd; good_time (n_timer_value nd);
        size (timers q) + 1 < 2 ^ 32\<rbrakk> \<Longrightarrow>
      \<exists>q'. v_reschedule V n q = Some q' \<and> ok q' X \<and> timers q' = add_mset (payload nd) (timers q)"
    and set_law: "\<lbrakk>ok q (insert n X); heap (v_mem V q) n = Some nd; payload (nd'\<lparr>n_timer_value := n_timer_value nd\<rparr>) = payload nd;
        m' = (v_mem V q)\<lparr>heap := (heap (v_mem V q))(n \<mapsto> nd')\<rparr>\<rbrakk> \<Longrightarrow>
      ok (v_set_mem V m' q) (insert n X) \<and> timers (v_set_mem V m' q) = timers q \<and> v_mem V (v_set_mem V m' q) = m'"
    and size_law: "ok q X \<Longrightarrow> size (timers q) < 2 ^ 32"

begin

text \<open>The do-while loop ends with the next run of the timer.\<close>

lemma advance_ok:
  assumes "ok q (insert n X)" "heap (v_mem V q) n = Some nd" "tv_normal (n_timer_value nd)"
    and "0 < tv_total (n_interval nd)" "tv_normal cur" "n_timer_value nd \<le> cur"
  shows "\<exists>q'. advance V cur n q = Some q' \<and> ok q' (insert n X) \<and> timers q' = timers q
    \<and> heap (v_mem V q') n = Some (nd\<lparr>n_timer_value := next_run cur (n_timer_value nd) (n_interval nd)\<rparr>)"
  using assms
proof (induction "nat (tv_total cur - tv_total (n_timer_value nd))" arbitrary: q nd rule: less_induct)
  case less
  let ?v = "tv_add (n_timer_value nd) (n_interval nd)"
  let ?nd = "nd\<lparr>n_timer_value := ?v\<rparr>"
  define m where "m = (v_mem V q)\<lparr>heap := (heap (v_mem V q))(n \<mapsto> ?nd)\<rparr>"
  have pl: "payload (?nd\<lparr>n_timer_value := n_timer_value nd\<rparr>) = payload nd" by simp
  note s = set_law [OF less.prems(1,2) pl m_def]
  have le: "tv_total (n_timer_value nd) \<le> tv_total cur"
    using less.prems(3,5,6) by (simp add: tv_normal_le)
  have step: "advance V cur n q = (if ?v \<le> cur then advance V cur n (v_set_mem V m q) else Some (v_set_mem V m q))"
    using less.prems(2) by (subst advance.simps) (simp add: node_access m_def)
  show ?case
  proof (cases "?v \<le> cur")
    case True
    have "nat (tv_total cur - tv_total (n_timer_value ?nd)) < nat (tv_total cur - tv_total (n_timer_value nd))"
      using le less.prems(4) True less.prems(5) by (simp add: tv_normal_le)
    from less.hyps [OF this, of "v_set_mem V m q"] show ?thesis
      using s step True less.prems(4,5) next_run_step [OF less.prems(4)] by (simp add: m_def)
  next
    case False
    then have "next_run cur (n_timer_value nd) (n_interval nd) = ?v"
      using le less.prems(4,5) by (intro next_run_first) (simp_all add: tv_normal_le not_le)
    then show ?thesis
      using s step False by (simp add: m_def)
  qed
qed

text \<open>After it the timer can be freed or scheduled again.\<close>

lemma advance_then:
  assumes q: "ok q (insert n X)" "n \<notin> X" "heap (v_mem V q) n = Some nd" "size (timers q) + 1 < 2 ^ 32"
    and nd: "good_time (n_timer_value nd)" "tv_normal (n_interval nd)" "n_timer_value nd \<le> cur" "n_interval nd > tv_zero"
    and cur: "tv_normal cur"
  obtains q1 q2 q3 where "advance V cur n q = Some q1"
    "v_free_node V n q1 = Some q2" "ok q2 X" "timers q2 = timers q"
    "v_reschedule V n q1 = Some q3" "ok q3 X"
    "timers q3 = add_mset ((payload nd)\<lparr>n_timer_value := next_run cur (n_timer_value nd) (n_interval nd)\<rparr>) (timers q)"
proof -
  let ?v = "next_run cur (n_timer_value nd) (n_interval nd)"
  have iv: "0 < tv_total (n_interval nd)"
    using nd(2,4) tv_normal_less [of tv_zero "n_interval nd"] by simp
  have v: "tv_normal (n_timer_value nd)" using nd(1) by (simp add: good_time_def)
  obtain q1 where a: "advance V cur n q = Some q1" "ok q1 (insert n X)" "timers q1 = timers q"
    "heap (v_mem V q1) n = Some (nd\<lparr>n_timer_value := ?v\<rparr>)"
    using advance_ok [OF q(1,3) v iv cur nd(3)] by blast
  have "tv_zero < ?v"
    using next_run_later [OF iv cur, of "n_timer_value nd"] nd(1,3) unfolding good_time_def by (meson less_le_trans less_trans)
  then have g: "good_time (n_timer_value (nd\<lparr>n_timer_value := ?v\<rparr>))" by (simp add: good_time_def)
  have pl: "payload (nd\<lparr>n_timer_value := ?v\<rparr>) = (payload nd)\<lparr>n_timer_value := ?v\<rparr>"
    by (simp add: payload_def)
  have "size (timers q1) + 1 < 2 ^ 32" using a(3) q(4) by simp
  from reschedule_law [OF a(2) q(2) a(4) g this] obtain q3 where
    "v_reschedule V n q1 = Some q3" "ok q3 X" "timers q3 = add_mset ((payload nd)\<lparr>n_timer_value := ?v\<rparr>) (timers q)"
    unfolding pl a(3) by blast
  then show ?thesis
    using free_law [OF a(2) q(2)] a(1,3) that by auto
qed

lemma dispatch_tail:
  assumes q: "ok q (insert n X)" "n \<notin> X" "heap (v_mem V q) n = Some nd" "size (timers q) + 1 < 2 ^ 32"
    and E: "quiet E hu hs" and nd: "good_time (n_timer_value nd)" "tv_normal (n_interval nd)" "n_timer_value nd \<le> cur"
    and cur: "tv_normal cur"
  shows "\<exists>q'. (if n_interval nd > tv_zero
      then do {
        q \<leftarrow> advance V cur n q;
        if is_stop_repeated E (n_type nd) u
        then do {
          q \<leftarrow> v_free_node V n q;
          (u, q) \<leftarrow> handle_repeated_timer_stoped E (n_type nd) (u, q);
          Some (1, u, q)
        }
        else do { q \<leftarrow> v_reschedule V n q; Some (1, u, q) }
      }
      else do { q \<leftarrow> v_free_node V n q; Some (1::int, u, q) }) =
      Some (1, if n_interval nd > tv_zero \<and> is_stop_repeated E (n_type nd) u then hs (n_type nd) u else u, q')
    \<and> ok q' X \<and> timers q' = timers q +
      (if n_interval nd > tv_zero \<and> \<not> is_stop_repeated E (n_type nd) u
       then {#(payload nd)\<lparr>n_timer_value := next_run cur (n_timer_value nd) (n_interval nd)\<rparr>#} else {#})"
proof (cases "n_interval nd > tv_zero")
  case False
  then show ?thesis using free_law [OF q(1,2)] by auto
next
  case True
  show ?thesis
    by (rule advance_then [OF q nd True cur]) (use True E in \<open>auto simp: quiet_def\<close>)
qed

lemma dispatch_due:
  assumes q: "ok q X" "timers q \<noteq> {#}" and E: "quiet E hu hs" and proper: "\<forall>t \<in># timers q. proper_timer t"
    and cur: "tv_normal cur" and due: "\<exists>t \<in># timers q. n_timer_value t \<le> cur"
  shows "\<exists>q' t rest. dispatch_info_i V E cur (u, q) = Some (1, fire E hu hs t u, q') \<and> ok q' X
    \<and> timers q = add_mset t rest \<and> timers q' = rest + again E hu cur t u \<and> n_timer_value t \<le> cur
    \<and> (\<forall>t' \<in># timers q. n_timer_value t \<le> n_timer_value t')"
proof -
  obtain n q1 t where r: "v_earliest_time V q = Some (n_timer_value t)" "v_remove_first V q = Some (n, q1)"
    "n \<noteq> NULL" "n \<notin> X" "ok q1 (insert n X)" "timers q = add_mset t (timers q1)"
    "map_option payload (heap (v_mem V q1) n) = Some t" "good_time (n_timer_value t)"
    "\<forall>t' \<in># timers q. n_timer_value t \<le> n_timer_value t'"
    using first_law [OF q] by (elim exE conjE) (rule that)
  obtain nd where nd: "heap (v_mem V q1) n = Some nd" "t = payload nd" using r(7) by auto
  have f: "n_type t = n_type nd" "n_act1 t = n_act1 nd" "n_act2 t = n_act2 nd" "n_timer_id t = n_timer_id nd"
    "n_interval t = n_interval nd" "n_timer_value t = n_timer_value nd"
    by (simp_all add: nd(2) payload_def)
  have tdue: "n_timer_value t \<le> cur" using due r(9) by (auto intro: order_trans)
  have pt: "n_type nd \<noteq> NULL" "tv_normal (n_interval nd)"
    using proper r(6) f by (auto simp: proper_timer_def)
  obtain tv u1 where clk: "gettimeofday E u = (tv, u1)" by (cases "gettimeofday E u")
  let ?u = "handled E hu t u"
  have h: "handle_timeout E (n_type nd) (to_int (n_timer_id nd)) tv (n_act1 nd) (n_act2 nd) (u1, q1) = Some (?u, q1)"
    using E clk f by (simp add: quiet_def handled_def)
  have "size (timers q1) + 1 < 2 ^ 32" using size_law [OF q(1)] r(6) by simp
  from dispatch_tail [OF r(5,4) nd(1) this E, of cur ?u] r(8) pt(2) tdue cur f
  obtain q' where q': "(if n_interval nd > tv_zero
      then do {
        q \<leftarrow> advance V cur n q1;
        if is_stop_repeated E (n_type nd) ?u
        then do {
          q \<leftarrow> v_free_node V n q;
          (u, q) \<leftarrow> handle_repeated_timer_stoped E (n_type nd) (?u, q);
          Some (1, u, q)
        }
        else do { q \<leftarrow> v_reschedule V n q; Some (1, ?u, q) }
      }
      else do { q \<leftarrow> v_free_node V n q1; Some (1::int, ?u, q) }) = Some (1, fire E hu hs t u, q')"
    "ok q' X" "timers q' = timers q1 + again E hu cur t u"
    by (auto simp: fire_def again_def repeats_def Let_def nd(2) [symmetric])
  have "\<not> v_is_empty V q" using empty_law [OF q(1)] q(2) by simp
  then have "dispatch_info_i V E cur (u, q) = Some (1, fire E hu hs t u, q')"
    using r(1,2,3) tdue pt(1) clk h q'(1) nd(1)
    by (simp add: dispatch_info_i_def node_access)
  then show ?thesis
    using q'(2,3) r(6,9) tdue by blast
qed

lemma dispatch_idle:
  assumes "ok q X" "\<forall>t \<in># timers q. cur < n_timer_value t"
  shows "dispatch_info_i V E cur (u, q) = Some (0, u, q)"
proof (cases "timers q = {#}")
  case True
  then show ?thesis using empty_law [OF assms(1)] by (simp add: dispatch_info_i_def)
next
  case False
  then obtain t where "v_earliest_time V q = Some (n_timer_value t)" "t \<in># timers q"
    using first_law [OF assms(1) False] by (metis union_single_eq_member)
  then show ?thesis
    using assms empty_law [OF assms(1)] False by (auto simp: dispatch_info_i_def not_le)
qed

text \<open>
  The handlers may call the queue back. If what they do keeps the queue well formed and the nodes that
  are being dispatched, so does a dispatch.
\<close>

lemma dispatch_keeps:
  assumes q: "ok q X" "\<forall>t \<in># timers q. proper_timer t" and cur: "tv_normal cur"
    and C: "\<And>q q' Y. \<lbrakk>C q q'; ok q Y; size (timers q) + 1 < 2 ^ 32; \<forall>t \<in># timers q. proper_timer t\<rbrakk> \<Longrightarrow>
      ok q' Y \<and> size (timers q') + 1 < 2 ^ 32 \<and> (\<forall>t \<in># timers q'. proper_timer t)
      \<and> (\<forall>n \<in> Y. map_option payload (heap (v_mem V q') n) = map_option payload (heap (v_mem V q) n))"
    and E: "calls_back C E" and run: "dispatch_info_i V E cur (u, q) = Some (r, u', q')"
  shows "ok q' X \<and> (\<forall>t \<in># timers q'. proper_timer t)"
proof (cases "timers q = {#} \<or> (\<forall>t \<in># timers q. cur < n_timer_value t)")
  case True
  then have "\<forall>t \<in># timers q. cur < n_timer_value t" by auto
  from dispatch_idle [OF q(1) this, of E u] show ?thesis using run q by simp
next
  case False
  then have ne0: "timers q \<noteq> {#}" by simp
  obtain n q1 t where f: "v_earliest_time V q = Some (n_timer_value t)" "v_remove_first V q = Some (n, q1)"
    "n \<noteq> NULL" "n \<notin> X" "ok q1 (insert n X)" "timers q = add_mset t (timers q1)"
    "map_option payload (heap (v_mem V q1) n) = Some t" "good_time (n_timer_value t)"
    "\<forall>t' \<in># timers q. n_timer_value t \<le> n_timer_value t'"
    using first_law [OF q(1) ne0] by (elim exE conjE) (rule that)
  obtain nd where nd: "heap (v_mem V q1) n = Some nd" "t = payload nd" using f(7) by auto
  have due: "n_timer_value t \<le> cur" using False f(9) by (auto simp: not_less intro: order_trans)
  have pt: "proper_timer t" using q(2) f(6) by simp
  have ty: "n_type nd \<noteq> NULL" using pt nd(2) by (simp add: proper_timer_def payload_def)
  have ne: "\<not> v_is_empty V q" using empty_law [OF q(1)] f(6) by simp
  obtain tv u1 where clk: "gettimeofday E u = (tv, u1)" by (cases "gettimeofday E u")
  obtain u2 q2 where h: "handle_timeout E (n_type nd) (to_int (n_timer_id nd)) tv (n_act1 nd) (n_act2 nd) (u1, q1) = Some (u2, q2)"
    using run ne f(1-3) due ty clk nd(1) by (auto simp: dispatch_info_i_def node_access bind_eq_Some_conv)
  have sz: "size (timers q1) + 1 < 2 ^ 32" using size_law [OF q(1)] f(6) by simp
  have p1: "\<forall>t \<in># timers q1. proper_timer t" using q(2) f(6) by simp
  have "C q1 q2" using E h by (simp add: calls_back_def)
  from C [OF this f(5) sz p1] have c: "ok q2 (insert n X)" "size (timers q2) + 1 < 2 ^ 32" "\<forall>t \<in># timers q2. proper_timer t"
    "map_option payload (heap (v_mem V q2) n) = Some t" using f(7) by simp_all
  obtain nd2 where nd2: "heap (v_mem V q2) n = Some nd2" "t = payload nd2" using c(4) by auto
  have same: "n_type nd2 = n_type nd" "n_interval nd2 = n_interval t" "n_timer_value nd2 = n_timer_value t"
    using payload_eqD [of nd2 nd] nd(2) nd2(2) by (simp_all add: payload_def)
  note st = f(1-3) due ty clk nd(1) h nd2(1) ne
  show ?thesis
  proof (cases "n_interval nd2 > tv_zero")
    case False
    then show ?thesis
      using run st free_law [OF c(1) f(4)] c(3) by (auto simp: dispatch_info_i_def node_access)
  next
    case True
    have nm: "tv_normal (n_interval nd2)" "good_time (n_timer_value nd2)" "n_timer_value nd2 \<le> cur"
      using pt f(8) due same by (simp_all add: proper_timer_def)
    obtain q3 q4 q5 where a: "advance V cur n q2 = Some q3"
      "v_free_node V n q3 = Some q4" "ok q4 X" "timers q4 = timers q2"
      "v_reschedule V n q3 = Some q5" "ok q5 X"
      "timers q5 = add_mset ((payload nd2)\<lparr>n_timer_value := next_run cur (n_timer_value nd2) (n_interval nd2)\<rparr>) (timers q2)"
      by (rule advance_then [OF c(1) f(4) nd2(1) c(2) nm(2,1,3) True cur])
    show ?thesis
    proof (cases "is_stop_repeated E (n_type nd) u2")
      case stop: True
      then have "handle_repeated_timer_stoped E (n_type nd) (u2, q4) = Some (u', q')"
        using run st True a by (auto simp: dispatch_info_i_def node_access bind_eq_Some_conv)
      then have "C q4 q'" using E by (simp add: calls_back_def)
      from C [OF this a(3)] show ?thesis using c(2,3) a(4) by simp
    next
      case False
      then have "q' = q5" using run st True a by (auto simp: dispatch_info_i_def node_access)
      then show ?thesis using a(6,7) c(3) pt nd2(2) by (simp add: proper_timer_def)
    qed
  qed
qed

text \<open>
  The loop of \<^verbatim>\<open>expire\<close> ends: it dispatches the due timers, each once and in the order of their times,
  and leaves no timer that is due.
\<close>

lemma expire_loop_ok:
  assumes "ok q X" "quiet E hu hs" "\<forall>t \<in># timers q. proper_timer t" "tv_normal cur"
  shows "\<exists>ts q'. expire_loop V E cur k (u, q) = Some (k + int (length ts), fst (runs E hu hs cur ts u), q')
    \<and> ok q' X \<and> mset ts = {#t \<in># timers q. n_timer_value t \<le> cur#} \<and> sorted (map n_timer_value ts)
    \<and> timers q' = {#t \<in># timers q. cur < n_timer_value t#} + snd (runs E hu hs cur ts u)
    \<and> (\<forall>t \<in># timers q'. cur < n_timer_value t)"
  using assms(1,3)
proof (induction "size {#t \<in># timers q. n_timer_value t \<le> cur#}" arbitrary: q k u)
  case 0
  then have late: "\<forall>t \<in># timers q. cur < n_timer_value t"
    by (simp add: filter_mset_none not_le)
  then have "{#t \<in># timers q. cur < n_timer_value t#} = timers q" by (rule filter_mset_all)
  then show ?case
    using late dispatch_idle [OF 0(2) late, of E u] 0 by (intro exI [of _ "[]"] exI [of _ q]) (simp add: expire_loop.simps)
next
  case (Suc s)
  have "{#t \<in># timers q. n_timer_value t \<le> cur#} \<noteq> {#}" using Suc(2) by (intro notI) simp
  then have due: "\<exists>t \<in># timers q. n_timer_value t \<le> cur" unfolding filter_mset_none by simp
  then have ne: "timers q \<noteq> {#}" by auto
  obtain q1 t rest where d: "dispatch_info_i V E cur (u, q) = Some (1, fire E hu hs t u, q1)" "ok q1 X"
    "timers q = add_mset t rest" "timers q1 = rest + again E hu cur t u" "n_timer_value t \<le> cur"
    "\<forall>t' \<in># timers q. n_timer_value t \<le> n_timer_value t'"
    using dispatch_due [OF Suc.prems(1) ne assms(2) Suc.prems(2) assms(4) due, of u] by (elim exE conjE) (rule that)
  have pt: "proper_timer t" using Suc.prems(2) d(3) by simp
  have late: "cur < n_timer_value t'" if "t' \<in># again E hu cur t u" for t'
    using that pt assms(4) tv_normal_less [of tv_zero "n_interval t"]
    by (auto simp: again_def repeats_def proper_timer_def intro!: next_run_later split: if_splits)
  have pa: "\<forall>t \<in># timers q1. proper_timer t"
    using Suc.prems(2) d(3,4) by (auto simp: again_def proper_timer_def split: if_splits)
  have f1: "{#t \<in># again E hu cur t u. n_timer_value t \<le> cur#} = {#}"
    "{#t \<in># again E hu cur t u. cur < n_timer_value t#} = again E hu cur t u"
    using late by (auto simp: filter_mset_none not_le intro: filter_mset_all)
  have "s = size {#t \<in># timers q1. n_timer_value t \<le> cur#}"
    using Suc(2) d(3,4,5) f1 by simp
  from Suc(1) [OF this d(2) pa, of "k + 1" "fire E hu hs t u"]
  obtain ts q' where ts: "expire_loop V E cur (k + 1) (fire E hu hs t u, q1) =
      Some (k + 1 + int (length ts), fst (runs E hu hs cur ts (fire E hu hs t u)), q')" "ok q' X"
    "mset ts = {#t \<in># timers q1. n_timer_value t \<le> cur#}" "sorted (map n_timer_value ts)"
    "timers q' = {#t \<in># timers q1. cur < n_timer_value t#} + snd (runs E hu hs cur ts (fire E hu hs t u))"
    "\<forall>t \<in># timers q'. cur < n_timer_value t"
    by (elim exE conjE) (rule that)
  have m: "mset ts = {#t \<in># rest. n_timer_value t \<le> cur#}" using ts(3) d(4) f1 by simp
  then have "\<forall>x \<in> set ts. n_timer_value t \<le> n_timer_value x"
    using d(3,6) by (metis (no_types, lifting) insertI2 mem_Collect_eq set_mset_add_mset_insert set_mset_filter set_mset_mset)
  then have sorted: "sorted (map n_timer_value (t # ts))" using ts(4) by simp
  have run: "runs E hu hs cur (t # ts) u =
      (fst (runs E hu hs cur ts (fire E hu hs t u)), again E hu cur t u + snd (runs E hu hs cur ts (fire E hu hs t u)))"
    by (simp add: split_beta)
  have "\<not> cur < n_timer_value t" using d(5) by simp
  then have left: "timers q' = {#t \<in># timers q. cur < n_timer_value t#} + snd (runs E hu hs cur (t # ts) u)"
    unfolding ts(5) d(3,4) run by (simp add: f1)
  have "mset (t # ts) = {#t \<in># timers q. n_timer_value t \<le> cur#}"
    unfolding d(3) using m d(5) by simp
  moreover have "expire_loop V E cur k (u, q) = Some (k + int (length (t # ts)), fst (runs E hu hs cur (t # ts) u), q')"
    unfolding expire_loop.simps [of V E cur k] d(1) run using ts(1) by simp
  ultimately show ?case
    using ts(2,6) sorted left by (intro exI [of _ "t # ts"] exI [of _ q'] conjI)
qed

end

end
