(* ===== verification/Timer_Run.thy ===== *)
theory Timer_Run
  imports Timer_Queue
begin

section \<open>The timer wheel as a timer queue\<close>

text \<open>
  The ghost arguments of the invariant are read off a wheel: \<open>spoke_list\<close> walks a spoke, \<open>timers\<close> are the
  timers on all spokes. The wheel is an instance of the interface that the dispatching code uses, and
  the states a program can reach through the public operations, those called from inside a timer's
  handler included, satisfy the invariant.
\<close>

subsection \<open>Reading a wheel\<close>

text \<open>No spoke has more timers than the wheel counts.\<close>

fun ring_from :: "nat \<Rightarrow> addr \<Rightarrow> addr \<Rightarrow> Memory \<Rightarrow> addr list" where
  "ring_from 0 root n m = []"
| "ring_from (Suc k) root n m =
     (if n = root then [] else (case get_next n m of None \<Rightarrow> [] | Some nx \<Rightarrow> n # ring_from k root nx m))"

definition spoke_list :: "TimerWheel \<Rightarrow> nat \<Rightarrow> addr list" where
  "spoke_list w i =
     (case spoke_at i w of
        None \<Rightarrow> []
      | Some root \<Rightarrow>
         (case get_next root (tq_mem w) of
            None \<Rightarrow> []
          | Some n \<Rightarrow> ring_from (unat (timer_count w)) root n (tq_mem w)))"

definition timers :: "TimerWheel \<Rightarrow> Node multiset" where
  "timers w = pending w (spoke_list w)"

lemma ring_from_linked:
  assumes "linked (heap m) (a # ns @ [r])" "r \<notin> set ns" "length ns \<le> k"
  shows "ring_from k r (hd (ns @ [r])) m = ns"
  using assms
proof (induction ns arbitrary: a k)
  case Nil
  then show ?case by (cases k) simp_all
next
  case (Cons n ns)
  obtain k' where k: "k = Suc k'" using Cons.prems(3) by (cases k) simp_all
  have l: "linked (heap m) (n # ns @ [r])" using Cons.prems(1) by simp
  have "nxt (heap m) n = Some (hd (ns @ [r]))" using l by (cases ns) auto
  then show ?case
    using Cons.IH [OF l, of k'] Cons.prems k by (simp add: get_links)
qed

lemma spoke_list_eq:
  assumes "wheel_core w R F X" "i < spoke_count w"
  shows "spoke_list w i = R i"
proof -
  note c = wheel_coreD [OF assms(1)]
  let ?r = "spokes w ! i"
  have ring: "ring (heap (tq_mem w)) ?r (R i)" using c(2) assms(2) by (simp add: rings_def)
  have "length (R i) \<le> (\<Sum>i < spoke_count w. length (R i))"
    using assms(2) by (intro member_le_sum) auto
  then have len: "length (R i) \<le> unat (timer_count w)"
    using c(5) by (simp add: counted_def unsigned_of_nat take_bit_nat_eq_self del: of_nat_sum)
  have "linked (heap (tq_mem w)) (?r # R i @ [?r])" using ring by (simp add: ring_def)
  from ring_from_linked [OF this rings_root [OF c(2) assms(2)] len] show ?thesis
    using spoke_at_nth [OF c(1) assms(2)] rings_first [OF c(2) assms(2)] by (simp add: spoke_list_def)
qed

lemma timers_eq:
  assumes "wheel_core w R F X"
  shows "timers w = pending w R"
  unfolding timers_def pending_def using spoke_list_eq [OF assms] by (intro sum.cong) auto

definition wheel_ok :: "TimerWheel \<Rightarrow> addr set \<Rightarrow> bool" where
  "wheel_ok w X \<longleftrightarrow> (\<exists>R F. wheel_inv w R F X \<and> ids_ok w (live w R \<union> X))"

lemma wheel_okE:
  assumes "wheel_ok w X"
  obtains R F where "wheel_inv w R F X" "ids_ok w (live w R \<union> X)" "timers w = pending w R"
  using assms timers_eq [OF wheel_invD(1)] unfolding wheel_ok_def by blast

lemma wheel_okI:
  assumes "wheel_inv w R F X" "ids_ok w (live w R \<union> X)"
  shows "wheel_ok w X" "timers w = pending w R"
  using assms timers_eq [OF wheel_invD(1) [OF assms(1)]] unfolding wheel_ok_def by blast+

subsection \<open>The laws of the interface\<close>

lemma wheel_ok_size: "wheel_ok w X \<Longrightarrow> size (timers w) < 2 ^ 32"
  by (elim wheel_okE) (simp add: pending_size wheel_inv_def wheel_core_def counted_def)

lemma wheel_ok_empty:
  assumes "wheel_ok w X"
  shows "wheel_is_empty w \<longleftrightarrow> timers w = {#}"
proof -
  obtain R F where r: "wheel_inv w R F X" "timers w = pending w R"
    using assms by (elim wheel_okE)
  then have "wheel_is_empty w \<longleftrightarrow> live w R = {}"
    using counted_empty wheel_coreD(5) [OF wheel_invD(1)] by blast
  then show ?thesis
    using r(2) pending_set [of w R] by (metis image_is_empty set_mset_eq_empty_iff)
qed

lemma wheel_ok_nodes:
  assumes "wheel_inv w R F X"
  shows "length (spokes w) = spoke_count w" "set (spokes w) \<union> live w R \<union> X \<subseteq> dom (heap (tq_mem w))"
    "X \<inter> live w R = {}" "X \<inter> set (spokes w) = {}"
  using wheel_coreD(1,3) [OF wheel_invD(1) [OF assms]] by (auto simp: wheel_shape_def owned_def)

lemma wheel_ok_good:
  assumes "wheel_ok w X" "t \<in># timers w"
  shows "good_time (n_timer_value t)"
proof -
  obtain R F where r: "wheel_inv w R F X" "timers w = pending w R"
    using assms(1) by (elim wheel_okE)
  then obtain a where "a \<in> live w R" "t = timer_at (tq_mem w) a"
    using assms(2) by (auto simp: pending_set)
  then show ?thesis
    using wheel_coreD(4) [OF wheel_invD(1) [OF r(1)]] by (auto simp: timed_def live_iff)
qed

lemma wheel_ok_first:
  assumes "wheel_ok w X" "timers w \<noteq> {#}"
  obtains n w' where "earliest_time w = Some (n_timer_value (timer_at (tq_mem w') n))" "remove_first w = Some (n, w')"
    "n \<noteq> NULL" "n \<notin> X" "wheel_ok w' (insert n X)" "timers w = add_mset (timer_at (tq_mem w') n) (timers w')"
    "n \<in> dom (heap (tq_mem w'))" "good_time (n_timer_value (timer_at (tq_mem w') n))"
    "\<forall>t \<in># timers w. n_timer_value (timer_at (tq_mem w') n) \<le> n_timer_value t"
    "\<forall>a \<in> X. timer_at (tq_mem w') a = timer_at (tq_mem w) a"
proof -
  obtain R F where r: "wheel_inv w R F X" "ids_ok w (live w R \<union> X)" "timers w = pending w R"
    using assms(1) by (elim wheel_okE)
  have ne: "live w R \<noteq> {}"
    using assms(2) r(3) pending_set [of w R] by auto
  obtain n w' R' where f: "remove_first w = Some (n, w')" "n \<in> live w R" "n \<noteq> NULL"
    "wheel_inv w' R' F (insert n X)" "pending w R = add_mset (timer_at (tq_mem w) n) (pending w' R')"
    "\<forall>a \<in> live w R. tval (tq_mem w) n \<le> tval (tq_mem w) a"
    "same_payload (tq_mem w) (tq_mem w')" "same_config w w'" "live w' R' = live w R - {n}"
    "earliest_time w = Some (tval (tq_mem w) n)"
    by (rule remove_first_inv [OF r(1) ne])
  note d = wheel_ok_nodes [OF r(1)]
  have at: "timer_at (tq_mem w') a = timer_at (tq_mem w) a" if "a \<in> set (spokes w) \<union> live w R \<union> X" for a
    using timer_at_payload [OF f(7)] d(2) that by blast
  have sub: "live w' R' \<union> insert n X = live w R \<union> X" using f(2,9) by blast
  have "ids_ok w' (live w' R' \<union> insert n X)"
    unfolding sub using at by (intro ids_ok_sub [OF r(2) f(8) subset_refl d(1)]) blast
  note ok = wheel_okI [OF f(4) this]
  have n: "timer_at (tq_mem w') n = timer_at (tq_mem w) n" using at f(2) by blast
  have dom: "n \<in> dom (heap (tq_mem w'))" using wheel_ok_nodes(2) [OF f(4)] by blast
  have g: "good_time (tval (tq_mem w) n)"
    using f(2) wheel_coreD(4) [OF wheel_invD(1) [OF r(1)]] by (auto simp: timed_def live_iff)
  have nX: "n \<notin> X" using f(2) d(3) by blast
  show ?thesis
    by (rule that [OF _ f(1,3) nX ok(1) _ dom])
      (use f(5,6,10) g ok(2) r(3) n at pending_set [of w R] in \<open>auto simp del: domIff\<close>)
qed

lemma wheel_ok_free:
  assumes "wheel_ok w (insert n X)" "n \<notin> X"
  obtains w' where "free_node n w = Some w'" "wheel_ok w' X" "timers w' = timers w"
    "\<forall>a \<in> X. timer_at (tq_mem w') a = timer_at (tq_mem w) a"
proof -
  obtain R F where r: "wheel_inv w R F (insert n X)" "ids_ok w (live w R \<union> insert n X)" "timers w = pending w R"
    using assms(1) by (elim wheel_okE)
  obtain fl' m' F' where f: "free_node n w = Some (w\<lparr>tq_free := fl', tq_mem := m'\<rparr>)"
    "wheel_core (w\<lparr>tq_free := fl', tq_mem := m'\<rparr>) R F' (insert n X - {n})"
    "first_min w R \<longrightarrow> first_min (w\<lparr>tq_free := fl', tq_mem := m'\<rparr>) R"
    "pending (w\<lparr>tq_free := fl', tq_mem := m'\<rparr>) R = pending w R" "same_nodes {n} (tq_mem w) m'"
    by (rule free_node_core [OF wheel_invD(1) [OF r(1)] insertI1])
  let ?w = "w\<lparr>tq_free := fl', tq_mem := m'\<rparr>"
  note d = wheel_ok_nodes [OF r(1)]
  have X: "insert n X - {n} = X" using assms(2) by simp
  have inv: "wheel_inv ?w R F' X"
    using f(2,3) wheel_invD(2) [OF r(1)] by (simp add: wheel_inv_def X)
  have at: "timer_at m' a = timer_at (tq_mem w) a" if "a \<noteq> n" "a \<in> set (spokes w) \<union> live w R \<union> X" for a
    using f(5) that d(2) by (auto simp: same_nodes_def timer_at_def)
  have atX: "timer_at m' a = timer_at (tq_mem w) a" if "a \<in> X" for a
    using that assms(2) by (intro at) auto
  have nn: "n \<notin> set (spokes w) \<union> (live w R \<union> X)" using d(3,4) assms(2) by blast
  have "ids_ok ?w (live w R \<union> X)"
  proof (rule ids_ok_sub [OF r(2) _ _ d(1)])
    show "\<forall>a \<in> set (spokes w) \<union> (live w R \<union> X). timer_at (tq_mem ?w) a = timer_at (tq_mem w) a"
      proof
      fix a assume a: "a \<in> set (spokes w) \<union> (live w R \<union> X)"
      then have "a \<noteq> n" using nn by metis
      then show "timer_at (tq_mem ?w) a = timer_at (tq_mem w) a" using at a by simp
    qed
  qed (auto simp: same_config_def)
  then have "ids_ok ?w (live ?w R \<union> X)" by simp
  note ok = wheel_okI [OF inv this]
  show ?thesis
    by (rule that [OF f(1) ok(1)]) (use f(4) r(3) ok(2) atX in auto)
qed

lemma wheel_ok_reschedule:
  assumes "wheel_ok w (insert n X)" "n \<notin> X" "heap (tq_mem w) n = Some nd" "good_time (n_timer_value nd)"
    "size (timers w) + 1 < 2 ^ 32"
  obtains w' where "reschedule n w = Some w'" "wheel_ok w' X" "timers w' = add_mset (payload nd) (timers w)"
    "\<forall>a \<in> X. timer_at (tq_mem w') a = timer_at (tq_mem w) a"
proof -
  obtain R F where r: "wheel_inv w R F (insert n X)" "ids_ok w (live w R \<union> insert n X)" "timers w = pending w R"
    using assms(1) by (elim wheel_okE)
  have t: "tval (tq_mem w) n = n_timer_value nd" "timer_at (tq_mem w) n = payload nd"
    using assms(3) by (simp_all add: tval_def timer_at_def)
  have g: "good_time (tval (tq_mem w) n)" and sz: "size (pending w R) + 1 < 2 ^ 32"
    using assms(4,5) t r(3) by simp_all
  obtain e m' R' where s: "schedule_node n (calculate_spoke (tval (tq_mem w) n) w) (tval (tq_mem w) n) w =
       Some (w\<lparr>earliest_spoke := e, timer_count := timer_count w + 1, tq_mem := m'\<rparr>)"
    "wheel_inv (w\<lparr>earliest_spoke := e, timer_count := timer_count w + 1, tq_mem := m'\<rparr>) R' F (insert n X - {n})"
    "pending (w\<lparr>earliest_spoke := e, timer_count := timer_count w + 1, tq_mem := m'\<rparr>) R' =
       add_mset (timer_at (tq_mem w) n) (pending w R)"
    "same_payload (tq_mem w) m'" "live w R' = insert n (live w R)"
    by (rule schedule_node_inv [OF r(1) insertI1 g sz])
  let ?w = "w\<lparr>earliest_spoke := e, timer_count := timer_count w + 1, tq_mem := m'\<rparr>"
  note d = wheel_ok_nodes [OF r(1)]
  have at: "timer_at m' a = timer_at (tq_mem w) a" if "a \<in> set (spokes w) \<union> live w R \<union> insert n X" for a
    using timer_at_payload [OF s(4)] d(2) that by blast
  have inv: "wheel_inv ?w R' F X" using s(2) assms(2) by simp
  have sub: "live ?w R' \<union> X = live w R \<union> insert n X" using s(5) by simp
  have "ids_ok ?w (live ?w R' \<union> X)"
    unfolding sub by (rule ids_ok_sub [OF r(2) _ subset_refl d(1)]) (use at in \<open>auto simp: same_config_def\<close>)
  note ok = wheel_okI [OF inv this]
  have "reschedule n w = Some ?w"
    using s(1) t(1) assms(3) by (simp add: reschedule_def node_access)
  from that [OF this ok(1)] show ?thesis
    using s(3) t(2) r(3) ok(2) at by simp
qed

lemma wheel_ok_set:
  assumes "wheel_ok w (insert n X)" "heap (tq_mem w) n = Some nd" "n_timer_id nd' = n_timer_id nd"
    and m': "m' = (tq_mem w)\<lparr>heap := (heap (tq_mem w))(n \<mapsto> nd')\<rparr>"
  shows "wheel_ok (w\<lparr>tq_mem := m'\<rparr>) (insert n X)" "timers (w\<lparr>tq_mem := m'\<rparr>) = timers w"
proof -
  obtain R F where r: "wheel_inv w R F (insert n X)" "ids_ok w (live w R \<union> insert n X)" "timers w = pending w R"
    using assms(1) by (elim wheel_okE)
  note f = float_update [OF r(1) insertI1 m']
  note d = wheel_ok_nodes [OF r(1)]
  have tid: "tid m' a = tid (tq_mem w) a" for a
    using assms(2,3) by (simp add: m' tid_def)
  then have "ids_ok (w\<lparr>tq_mem := m'\<rparr>) (live w R \<union> insert n X)"
    using r(2) unfolding ids_ok_def by (simp add: counter_def inj_on_def)
  then have "ids_ok (w\<lparr>tq_mem := m'\<rparr>) (live (w\<lparr>tq_mem := m'\<rparr>) R \<union> insert n X)" by simp
  from wheel_okI [OF f(1) this] show "wheel_ok (w\<lparr>tq_mem := m'\<rparr>) (insert n X)"
    "timers (w\<lparr>tq_mem := m'\<rparr>) = timers w"
    using f(2) r(3) by simp_all
qed

interpretation wheel: timer_queue wheel_virtuals wheel_ok timers
proof unfold_locales
  show "v_is_empty wheel_virtuals w \<longleftrightarrow> timers w = {#}" if "wheel_ok w X" for w X
    using wheel_ok_empty [OF that] by (simp add: wheel_virtuals_def)
  show "size (timers w) < 2 ^ 32" if "wheel_ok w X" for w X
    using that by (rule wheel_ok_size)
  show "\<exists>n w' t. v_earliest_time wheel_virtuals w = Some (n_timer_value t) \<and> v_remove_first wheel_virtuals w = Some (n, w')
        \<and> n \<noteq> NULL \<and> n \<notin> X \<and> wheel_ok w' (insert n X) \<and> timers w = add_mset t (timers w')
        \<and> map_option payload (heap (v_mem wheel_virtuals w') n) = Some t \<and> good_time (n_timer_value t)
        \<and> (\<forall>t' \<in># timers w. n_timer_value t \<le> n_timer_value t')"
    if ok: "wheel_ok w X" "timers w \<noteq> {#}" for w X
    by (rule wheel_ok_first [OF ok])
      (rule exI, rule exI, rule exI, intro conjI, auto simp: wheel_virtuals_def timer_at_def simp del: domIff)
  show "\<exists>w'. v_free_node wheel_virtuals n w = Some w' \<and> wheel_ok w' X \<and> timers w' = timers w"
    if ok: "wheel_ok w (insert n X)" "n \<notin> X" for w n X
    by (rule wheel_ok_free [OF ok]) (simp add: wheel_virtuals_def)
  show "\<exists>w'. v_reschedule wheel_virtuals n w = Some w' \<and> wheel_ok w' X \<and> timers w' = add_mset (payload nd) (timers w)"
    if ok: "wheel_ok w (insert n X)" "n \<notin> X" "heap (v_mem wheel_virtuals w) n = Some nd" "good_time (n_timer_value nd)"
      "size (timers w) + 1 < 2 ^ 32" for w n X nd
    by (rule wheel_ok_reschedule [OF ok(1,2) _ ok(4,5)]) (use ok(3) in \<open>simp_all add: wheel_virtuals_def\<close>)
  show "wheel_ok (v_set_mem wheel_virtuals m' w) (insert n X) \<and> timers (v_set_mem wheel_virtuals m' w) = timers w
      \<and> v_mem wheel_virtuals (v_set_mem wheel_virtuals m' w) = m'"
    if "wheel_ok w (insert n X)" "heap (v_mem wheel_virtuals w) n = Some nd"
      "payload (nd'\<lparr>n_timer_value := n_timer_value nd\<rparr>) = payload nd"
      "m' = (v_mem wheel_virtuals w)\<lparr>heap := (heap (v_mem wheel_virtuals w))(n \<mapsto> nd')\<rparr>" for w n X nd nd' m'
    using wheel_ok_set [OF that(1), of nd nd' m'] that(2-4) payload_eqD(6) [OF that(3)]
    by (simp add: wheel_virtuals_def)
qed

subsection \<open>Scheduling and cancelling\<close>

text \<open>
  What a program must observe to schedule a timer: a task, a normalised interval, a time after 1970, room
  for two more timers (the other one for the timer that may be being dispatched), and a count of the
  spoke that has not run out of identifiers.
\<close>

definition may_schedule :: "TimeValue \<Rightarrow> addr \<Rightarrow> TimeValue \<Rightarrow> TimeValue \<Rightarrow> TimerWheel \<Rightarrow> bool" where
  "may_schedule now ty future interval w \<longleftrightarrow>
     ty \<noteq> NULL \<and> tv_normal interval \<and> good_time (tv_add now future) \<and> size (timers w) + 2 < 2 ^ 32
     \<and> counter w (calculate_spoke (tv_add now future) w) < 2 ^ (32 - spoke_bits w) - 1"

lemma ids_ok_minus1:
  assumes "ids_ok w A" "wheel_shape w" "a \<in> A"
  shows "tid (tq_mem w) a \<noteq> -1"
proof -
  obtain s c where c: "s < spoke_count w" "0 \<le> c" "c < counter w s" "tid (tq_mem w) a = make_id (spoke_bits w) c s"
    using assms(1,3) unfolding ids_ok_def by blast
  moreover have "counter w s < 2 ^ (32 - spoke_bits w)" using assms(1) c(1) by (simp add: ids_ok_def)
  ultimately show ?thesis
    using make_id_minus1 [of "spoke_bits w" c s] assms(2) by (simp add: wheel_shape_def)
qed

lemma wheel_ok_schedule:
  assumes "wheel_ok w X" "may_schedule now ty future interval w"
  obtains k w' where "schedule_i now ty a1 a2 future interval w = Some (k, w')" "wheel_ok w' X" "k \<noteq> -1"
    "timers w' = add_mset (new_timer ty a1 a2 (tv_add now future) interval k) (timers w)"
    "\<forall>t \<in># timers w. n_timer_id t \<noteq> k"
    "\<forall>a \<in> X. timer_at (tq_mem w') a = timer_at (tq_mem w) a \<and> tid (tq_mem w) a \<noteq> k"
proof -
  let ?s = "calculate_spoke (tv_add now future) w"
  let ?k = "make_id (spoke_bits w) (counter w ?s) ?s"
  obtain R F where r: "wheel_inv w R F X" "ids_ok w (live w R \<union> X)" "timers w = pending w R"
    using assms(1) by (elim wheel_okE)
  have m: "good_time (tv_add now future)" "size (pending w R) + 1 < 2 ^ 32" "counter w ?s < 2 ^ (32 - spoke_bits w) - 1"
    using assms(2) r(3) by (simp_all add: may_schedule_def)
  obtain w' R' F' where s: "schedule_i now ty a1 a2 future interval w = Some (?k, w')"
    "wheel_inv w' R' F' X" "pending w' R' = add_mset (new_timer ty a1 a2 (tv_add now future) interval ?k) (pending w R)"
    "same_config w w'" "ids_ok w' (live w' R' \<union> X)" "?k \<noteq> -1"
    "\<forall>a \<in> live w R \<union> X. timer_at (tq_mem w') a = timer_at (tq_mem w) a \<and> tid (tq_mem w) a \<noteq> ?k"
    by (rule schedule_i_inv [OF r(1,2) m])
  note ok = wheel_okI [OF s(2,5)]
  have "\<forall>t \<in># timers w. n_timer_id t \<noteq> ?k"
    using s(7) by (auto simp: r(3) pending_set tid_timer_at)
  then show ?thesis
    using s(3,7) r(3) ok(2) by (intro that [OF s(1) ok(1) s(6)]) simp_all
qed

lemma wheel_ok_cancel:
  assumes "wheel_ok w X"
  obtains "\<forall>t \<in># timers w. n_timer_id t \<noteq> k" "cancel_timer k w = Some (0, None, w)"
  | t w' where "cancel_timer k w = Some (1, Some (n_act1 t, n_act2 t), w')" "wheel_ok w' X"
      "timers w = add_mset t (timers w')" "n_timer_id t = k" "\<forall>t \<in># timers w'. n_timer_id t \<noteq> k"
      "\<forall>a \<in> X. timer_at (tq_mem w') a = timer_at (tq_mem w) a"
proof -
  obtain R F where r: "wheel_inv w R F X" "ids_ok w (live w R \<union> X)" "timers w = pending w R"
    using assms by (elim wheel_okE)
  note d = wheel_ok_nodes [OF r(1)]
  show ?thesis
  proof (cases "\<exists>a \<in> live w R. tid (tq_mem w) a = k")
    case False
    then have none: "\<forall>t \<in># timers w. n_timer_id t \<noteq> k"
      by (auto simp: r(3) pending_set tid_timer_at)
    have "cancel_timer k w = Some (0, None, w)"
      using cancel_timer_inv(1) [OF r(1), of k] False
      by (cases "k = -1") (auto simp: cancel_timer_def find_node_def)
    then show ?thesis using none that(1) by blast
  next
    case True
    have "k \<noteq> -1" using ids_ok_minus1 [OF r(2) wheel_coreD(1) [OF wheel_invD(1) [OF r(1)]]] True by auto
    from cancel_timer_inv(2) [OF r(1) this] True obtain n w' R' F' where
      c: "n \<in> live w R" "tid (tq_mem w) n = k"
        "cancel_timer k w = Some (1, Some (n_act1 (timer_at (tq_mem w) n), n_act2 (timer_at (tq_mem w) n)), w')"
        "wheel_inv w' R' F' X" "pending w R = add_mset (timer_at (tq_mem w) n) (pending w' R')"
        "same_config w w'" "live w' R' = live w R - {n}"
        "\<forall>a \<in> set (spokes w) \<union> live w' R' \<union> X. timer_at (tq_mem w') a = timer_at (tq_mem w) a"
      by (elim impE exE conjE) (assumption, rule that)
    have sub: "live w' R' \<union> X \<subseteq> live w R \<union> X" using c(7) by blast
    have "ids_ok w' (live w' R' \<union> X)"
      by (rule ids_ok_sub [OF r(2) c(6) sub d(1)]) (use c(8) in blast)
    note ok = wheel_okI [OF c(4) this]
    have "tid (tq_mem w') a \<noteq> k" if a: "a \<in> live w' R'" for a
    proof -
      have "tid (tq_mem w') a = tid (tq_mem w) a" using c(8) a by (simp add: tid_timer_at)
      moreover have "a \<in> live w R" "a \<noteq> n" using a c(7) by blast+
      ultimately show ?thesis using r(2) c(1,2) by (auto simp: ids_ok_def inj_on_def)
    qed
    then have "\<forall>t \<in># timers w'. n_timer_id t \<noteq> k"
      by (auto simp: ok(2) pending_set tid_timer_at)
    then show ?thesis
      using c(2,5,8) r(3) ok(2) by (intro that(2) [OF c(3) ok(1)]) (simp_all add: tid_timer_at)
  qed
qed

subsection \<open>Reachable wheels\<close>

text \<open>
  \<open>calls\<close> is what a program does to a wheel between two dispatches, or a task inside its handler. A wheel is
  \<open>reachable\<close> when it comes from the constructor by such calls and by dispatches.
\<close>

inductive calls :: "TimerWheel \<Rightarrow> TimerWheel \<Rightarrow> bool" for w where
  calls_none: "calls w w"
| calls_schedule: "\<lbrakk>calls w w1; may_schedule now ty future interval w1;
    schedule_i now ty a1 a2 future interval w1 = Some (k, w2)\<rbrakk> \<Longrightarrow> calls w w2"
| calls_cancel: "\<lbrakk>calls w w1; cancel_timer k w1 = Some (r, acts, w2)\<rbrakk> \<Longrightarrow> calls w w2"

inductive reachable :: "('u, TimerWheel) env \<Rightarrow> TimerWheel \<Rightarrow> bool" for E where
  reachable_new: "\<lbrakk>fl_new md k lwm hwm inc m0 = Some (fl, m); md \<noteq> DHN_PURE_FREE_LIST; 0 < inc;
    heap m0 = Map.empty; 0 < brk m0; unat n_spokes < 2 ^ 31; unat res < 2 ^ 31;
    TimerWheel_new n_spokes res prealloc fl m = Some w\<rbrakk> \<Longrightarrow> reachable E w"
| reachable_calls: "\<lbrakk>reachable E w; calls w w'\<rbrakk> \<Longrightarrow> reachable E w'"
| reachable_dispatch: "\<lbrakk>reachable E w; tv_normal cur;
    dispatch_info_i wheel_virtuals E cur (u, w) = Some (r, u', w')\<rbrakk> \<Longrightarrow> reachable E w'"

lemma calls_keep:
  assumes "calls w w'" "wheel_ok w X" "\<forall>t \<in># timers w. proper_timer t"
  shows "wheel_ok w' X \<and> (size (timers w) + 1 < 2 ^ 32 \<longrightarrow> size (timers w') + 1 < 2 ^ 32) \<and> (\<forall>t \<in># timers w'. proper_timer t)
    \<and> (\<forall>a \<in> X. timer_at (tq_mem w') a = timer_at (tq_mem w) a)"
  using assms
proof (induction rule: calls.induct)
  case calls_none
  then show ?case by simp
next
  case (calls_schedule w1 now ty future interval a1 a2 k w2)
  then have ih: "wheel_ok w1 X" "\<forall>t \<in># timers w1. proper_timer t" "\<forall>a \<in> X. timer_at (tq_mem w1) a = timer_at (tq_mem w) a"
    by blast+
  show ?case
    by (rule wheel_ok_schedule [OF ih(1) calls_schedule.hyps(2), of a1 a2])
      (use calls_schedule.hyps(2,3) ih in \<open>simp add: may_schedule_def proper_timer_def new_timer_def\<close>)
next
  case (calls_cancel w1 k r acts w2)
  then have ih: "wheel_ok w1 X" "size (timers w) + 1 < 2 ^ 32 \<longrightarrow> size (timers w1) + 1 < 2 ^ 32" "\<forall>t \<in># timers w1. proper_timer t"
    "\<forall>a \<in> X. timer_at (tq_mem w1) a = timer_at (tq_mem w) a"
    by blast+
  show ?case
    by (rule wheel_ok_cancel [OF ih(1), of k]) (use calls_cancel.hyps(2) ih in auto)
qed

lemma TimerWheel_new_ok:
  assumes "fl_new md k lwm hwm inc m0 = Some (fl, m)" "md \<noteq> DHN_PURE_FREE_LIST" "0 < inc"
    "heap m0 = Map.empty" "0 < brk m0" "unat n_spokes < 2 ^ 31" "unat res < 2 ^ 31"
  obtains w where "TimerWheel_new n_spokes res prealloc fl m = Some w" "wheel_ok w {}" "timers w = {#}"
    "\<forall>s < spoke_count w. counter w s = 0"
proof -
  let ?fl = "\<lparr>fl_mode = md, fl_head = NULL, fl_lwm = lwm, fl_hwm = hwm, fl_inc = inc, fl_size = 0\<rparr>"
  have i: "fl_inv m0 ?fl []" "mem_wf m0" using assms(4,5) by (simp_all add: fl_inv_def mem_wf_def)
  obtain F where f: "fl_inv m fl F" "mem_wf m" "fl_supply fl" and dom: "dom (heap m) = set F"
    using fl_alloc_inv [OF i, of k] assms(1-4) unfolding fl_new_def fl_supply_def
    by (elim exE conjE) (simp, use that in fastforce)
  obtain w F' where w: "TimerWheel_new n_spokes res prealloc fl m = Some w"
    "wheel_inv w (\<lambda>_. []) F' {}" "ids_ok w {}" "pending w (\<lambda>_. []) = {#}" "\<forall>s < spoke_count w. counter w s = 0"
    by (rule TimerWheel_new_inv [OF assms(6,7) f dom])
  have "ids_ok w (live w (\<lambda>_. []) \<union> {})" using w(3) by (simp add: live_def)
  from wheel_okI [OF w(2) this] show ?thesis using that w(1,4,5) by simp
qed

lemma wheel_ok_dom: "wheel_ok w X \<Longrightarrow> X \<subseteq> dom (heap (tq_mem w))"
  using wheel_ok_nodes(2) by (elim wheel_okE) blast

lemma calls_payload:
  assumes "calls w w'" "wheel_ok w X" "\<forall>t \<in># timers w. proper_timer t" "n \<in> X"
  shows "map_option payload (heap (tq_mem w') n) = map_option payload (heap (tq_mem w) n)"
proof -
  note k = calls_keep [OF assms(1-3)]
  obtain a b where "heap (tq_mem w) n = Some a" "heap (tq_mem w') n = Some b"
    using wheel_ok_dom assms(2,4) k by blast
  then show ?thesis using k assms(4) by (auto simp: timer_at_def)
qed

lemma reachable_ok:
  assumes "reachable E w" "calls_back calls E"
  shows "wheel_ok w {} \<and> (\<forall>t \<in># timers w. proper_timer t)"
  using assms(1)
proof (induction rule: reachable.induct)
  case (reachable_new md k lwm hwm inc m0 fl m n_spokes res prealloc w)
  show ?case
    by (rule TimerWheel_new_ok [OF reachable_new(1-7), of prealloc]) (use reachable_new(8) in simp)
next
  case (reachable_calls w w')
  then show ?case using calls_keep by blast
next
  case (reachable_dispatch w cur u r u' w')
  show ?case
  proof (rule wheel.dispatch_keeps [OF _ _ reachable_dispatch.hyps(2) _ assms(2) reachable_dispatch.hyps(3)])
    fix q q' Y assume c: "calls q q'" "wheel_ok q Y" "size (timers q) + 1 < 2 ^ 32" "\<forall>t \<in># timers q. proper_timer t"
    show "wheel_ok q' Y \<and> size (timers q') + 1 < 2 ^ 32 \<and> (\<forall>t \<in># timers q'. proper_timer t)
      \<and> (\<forall>n \<in> Y. map_option payload (heap (v_mem wheel_virtuals q') n) = map_option payload (heap (v_mem wheel_virtuals q) n))"
      using calls_keep [OF c(1,2,4)] calls_payload [OF c(1,2,4)] c(3) by (simp add: wheel_virtuals_def)
  qed (use reachable_dispatch.IH in simp_all)
qed

subsection \<open>The promises of the wheel\<close>

text \<open>A small wheel, with 8 spokes, for the concrete instances below.\<close>

definition demo_node :: Node where
  "demo_node = new_timer NULL 0 0 tv_zero tv_zero 0"

definition demo_wheel :: "TimerWheel option" where
  "demo_wheel = do {
     (fl, m) \<leftarrow> fl_new DHN_FREE_LIST_WITH_POOL 0 0 25000 1 \<lparr>heap = Map.empty, brk = 1, raw = (\<lambda>_. demo_node)\<rparr>;
     TimerWheel_new 8 2 0 fl m }"

definition demo_env :: "(Node list, TimerWheel) env" where
  "demo_env =
     \<lparr>gettimeofday = (\<lambda>u. (TimeValue 1 0, u)), handle_timeout = (\<lambda>_ _ _ _ _ s. Some s),
      is_stop_repeated = (\<lambda>_ _. False), handle_repeated_timer_stoped = (\<lambda>_ s. Some s)\<rparr>"

lemma tv_normal_pair: "tv_normal (TimeValue s u) \<longleftrightarrow> \<bar>u\<bar> < 1000000 \<and> (s \<ge> 1 \<longrightarrow> u \<ge> 0) \<and> (s < 0 \<longrightarrow> u \<le> 0)"
  by (simp add: tv_normal_def)

lemma demo_quiet: "quiet demo_env (\<lambda>_ _ _ _ _ u. u) (\<lambda>_ u. u)"
  by (simp add: quiet_def demo_env_def)

lemma quiet_calls_back: "quiet E hu hs \<Longrightarrow> calls_back calls E"
  by (auto simp: quiet_def calls_back_def intro: calls_none)

lemma demo_reachable:
  obtains w where "demo_wheel = Some w" "reachable E w" "timers w = {#}" "wheel_ok w {}"
    "\<forall>s < spoke_count w. counter w s = 0"
proof -
  let ?m = "\<lparr>heap = Map.empty, brk = 1, raw = (\<lambda>_. demo_node)\<rparr>"
  let ?fl = "\<lparr>fl_mode = DHN_FREE_LIST_WITH_POOL, fl_head = NULL, fl_lwm = 0, fl_hwm = 25000, fl_inc = 1, fl_size = 0\<rparr>"
  have f: "fl_new DHN_FREE_LIST_WITH_POOL 0 0 25000 1 ?m = Some (?fl, ?m)" by (simp add: fl_new_def)
  have c: "DHN_FREE_LIST_WITH_POOL \<noteq> DHN_PURE_FREE_LIST" "0 < (1::nat)" "heap ?m = Map.empty" "0 < brk ?m"
    "unat (8::u32) < 2 ^ 31" "unat (2::u32) < 2 ^ 31"
    by (simp_all add: free_list_constants)
  show ?thesis
  proof (rule TimerWheel_new_ok [OF f c, of 0])
    fix w assume w: "TimerWheel_new 8 2 0 ?fl ?m = Some w" "wheel_ok w {}" "timers w = {#}"
      "\<forall>s < spoke_count w. counter w s = 0"
    have "demo_wheel = Some w" using f w(1) by (simp add: demo_wheel_def)
    then show thesis using w reachable_new [OF f c w(1), of E] by (intro that)
  qed
qed

lemma demo_may_schedule:
  assumes "wheel_ok w {}" "timers w = {#}" "\<forall>s < spoke_count w. counter w s = 0" "tv_normal iv"
  shows "may_schedule (TimeValue 1 0) 5 (TimeValue 0 3000) iv w"
proof -
  obtain R F where "wheel_inv w R F {}" using assms(1) by (elim wheel_okE)
  then have sh: "wheel_shape w" using wheel_coreD(1) wheel_invD(1) by blast
  have g: "good_time (tv_add (TimeValue 1 0) (TimeValue 0 3000))"
    by (simp add: good_time_def tv_normal_less)
  have "0 < (2::int) ^ (32 - spoke_bits w) - 1"
    using sh one_less_power [of "2::int" "32 - spoke_bits w"] by (simp add: wheel_shape_def)
  then show ?thesis
    using assms(2-4) calculate_spoke_less [OF sh g] g by (simp add: may_schedule_def)
qed

lemma demo_one:
  obtains w0 k w where "demo_wheel = Some w0" "reachable E w0" "timers w0 = {#}" "wheel_ok w0 {}"
    "may_schedule (TimeValue 1 0) 5 (TimeValue 0 3000) (TimeValue 0 2000) w0"
    "schedule_i (TimeValue 1 0) 5 7 9 (TimeValue 0 3000) (TimeValue 0 2000) w0 = Some (k, w)"
    "reachable E w" "wheel_ok w {}"
    "timers w = {#new_timer 5 7 9 (tv_add (TimeValue 1 0) (TimeValue 0 3000)) (TimeValue 0 2000) k#}"
proof (rule demo_reachable [of E])
  fix w0 assume w0: "demo_wheel = Some w0" "reachable E w0" "timers w0 = {#}" "wheel_ok w0 {}"
    "\<forall>s < spoke_count w0. counter w0 s = 0"
  have "tv_normal (TimeValue 0 2000)" by (simp add: tv_normal_def)
  note may = demo_may_schedule [OF w0(4,3,5) this]
  show thesis
  proof (rule wheel_ok_schedule [OF w0(4) may, of 7 9])
    fix k w assume w: "schedule_i (TimeValue 1 0) 5 7 9 (TimeValue 0 3000) (TimeValue 0 2000) w0 = Some (k, w)" "wheel_ok w {}"
      "timers w = add_mset (new_timer 5 7 9 (tv_add (TimeValue 1 0) (TimeValue 0 3000)) (TimeValue 0 2000) k) (timers w0)"
    have "calls w0 w" by (rule calls_schedule [OF calls_none may w(1)])
    then have "reachable E w" by (rule reachable_calls [OF w0(2)])
    then show thesis using w w0 may by (intro that [of w0 k w]) simp_all
  qed
qed

text \<open>
  C7. Every wheel that a program reaches from the constructor by scheduling and cancelling timers and by
  dispatching them, with tasks that themselves schedule and cancel timers while they are dispatched, is
  well formed: spokes are rings sorted by time, every timer is on the spoke of its time and has an identifier
  of its own, the count is right, the first timer of the earliest spoke is the first of all, and every
  node of the memory is a root, a pending timer or in the free list. Timers have a task, and the count from which the identifiers
  of a spoke are made stays below its limit.
\<close>

theorem TimerWheel_invariant:
  assumes "calls_back calls E" "reachable E w"
  shows "wheel_ok w {} \<and> (\<forall>t \<in># timers w. proper_timer t)"
  by (rule reachable_ok [OF assms(2,1)])

theorem TimerWheel_invariant_witness:
  "\<exists>w0 k w. demo_wheel = Some w0
     \<and> schedule_i (TimeValue 1 0) 5 7 9 (TimeValue 0 3000) (TimeValue 0 2000) w0 = Some (k, w)
     \<and> wheel_ok w {} \<and> (\<forall>t \<in># timers w. proper_timer t)"
proof (rule demo_one [of demo_env])
  fix w0 k w assume "demo_wheel = Some w0" "reachable demo_env w"
    "schedule_i (TimeValue 1 0) 5 7 9 (TimeValue 0 3000) (TimeValue 0 2000) w0 = Some (k, w)"
  then show ?thesis
    using TimerWheel_invariant [OF quiet_calls_back [OF demo_quiet], of w] by blast
qed

text \<open>
  C6. If the handlers of the tasks return and do not call the queue, \<^verbatim>\<open>expire\<close> at the time \<open>cur\<close> on a reachable wheel returns and
  has dispatched exactly the timers that were due, each once, in the order of their times; it returns
  their number, and leaves those that were not due and the repeating ones among the dispatched timers, at
  their first time after \<open>cur\<close>, so that none is due any more.
\<close>

theorem expire_dispatches:
  assumes "quiet E hu hs" "reachable E w" "tv_normal cur"
  shows "\<exists>ts w'. expire_at wheel_virtuals E cur (u, w) = Some (int (length ts), fst (runs E hu hs cur ts u), w')
    \<and> wheel_ok w' {} \<and> mset ts = {#t \<in># timers w. n_timer_value t \<le> cur#} \<and> sorted (map n_timer_value ts)
    \<and> timers w' = {#t \<in># timers w. cur < n_timer_value t#} + snd (runs E hu hs cur ts u)
    \<and> (\<forall>t \<in># timers w'. cur < n_timer_value t)"
proof -
  have r: "wheel_ok w {}" "\<forall>t \<in># timers w. proper_timer t"
    using reachable_ok [OF assms(2) quiet_calls_back [OF assms(1)]] by blast+
  have e: "v_is_empty wheel_virtuals w \<longleftrightarrow> timers w = {#}" by (rule wheel.empty_law [OF r(1)])
  show ?thesis
  proof (cases "timers w = {#}")
    case True
    then show ?thesis
      using e r(1) by (intro exI [of _ "[]"] exI [of _ w]) (simp add: expire_at_def)
  next
    case False
    then show ?thesis
      using wheel.expire_loop_ok [OF r(1) assms(1) r(2) assms(3), of 0 u] e by (simp add: expire_at_def)
  qed
qed

theorem expire_dispatches_witness:
  "\<exists>w0 k w w'. demo_wheel = Some w0
     \<and> schedule_i (TimeValue 1 0) 5 7 9 (TimeValue 0 3000) (TimeValue 0 2000) w0 = Some (k, w)
     \<and> expire_at wheel_virtuals demo_env (TimeValue 1 4000) ([], w) = Some (1, [], w')
     \<and> timers w' = {#new_timer 5 7 9 (TimeValue 1 5000) (TimeValue 0 2000) k#}"
proof (rule demo_one [of demo_env])
  let ?t = "\<lambda>k. new_timer 5 7 9 (TimeValue 1 3000) (TimeValue 0 2000) k"
  have add: "tv_add (TimeValue 1 0) (TimeValue 0 3000) = TimeValue 1 3000"
    by (rule tv_normal_unique) (simp_all add: tv_normal_pair)
  have nx: "next_run (TimeValue 1 4000) (TimeValue 1 3000) (TimeValue 0 2000) = TimeValue 1 5000"
    by (rule tv_normal_unique) (simp_all add: tv_normal_pair)
  fix w0 k w assume w: "demo_wheel = Some w0" "reachable demo_env w"
    "schedule_i (TimeValue 1 0) 5 7 9 (TimeValue 0 3000) (TimeValue 0 2000) w0 = Some (k, w)"
    "timers w = {#new_timer 5 7 9 (tv_add (TimeValue 1 0) (TimeValue 0 3000)) (TimeValue 0 2000) k#}"
  have t: "timers w = {#?t k#}" using w(4) by (simp add: add)
  have "tv_normal (TimeValue 1 4000)" by (simp add: tv_normal_pair)
  from expire_dispatches [OF demo_quiet w(2) this, of "[]"] obtain ts w' where
    e: "expire_at wheel_virtuals demo_env (TimeValue 1 4000) ([], w) =
        Some (int (length ts), fst (runs demo_env (\<lambda>_ _ _ _ _ u. u) (\<lambda>_ u. u) (TimeValue 1 4000) ts []), w')"
      "mset ts = {#t \<in># timers w. n_timer_value t \<le> TimeValue 1 4000#}"
      "timers w' = {#t \<in># timers w. TimeValue 1 4000 < n_timer_value t#} +
        snd (runs demo_env (\<lambda>_ _ _ _ _ u. u) (\<lambda>_ u. u) (TimeValue 1 4000) ts [])"
    by (elim exE conjE) (rule that)
  have cmp: "TimeValue 1 3000 \<le> TimeValue 1 4000" "\<not> TimeValue 1 4000 < TimeValue 1 3000" "tv_zero < TimeValue 0 2000"
    by (simp_all add: tv_normal_le tv_normal_less tv_normal_pair)
  have "ts = [?t k]" using e(2) t cmp by (simp add: new_timer_def)
  moreover have "runs demo_env (\<lambda>_ _ _ _ _ u. u) (\<lambda>_ u. u) (TimeValue 1 4000) [?t k] [] =
    ([], {#new_timer 5 7 9 (TimeValue 1 5000) (TimeValue 0 2000) k#})"
    using cmp nx by (simp add: fire_def again_def repeats_def handled_def demo_env_def new_timer_def Let_def)
  ultimately have "expire_at wheel_virtuals demo_env (TimeValue 1 4000) ([], w) = Some (1, [], w')"
    "timers w' = {#new_timer 5 7 9 (TimeValue 1 5000) (TimeValue 0 2000) k#}"
    using e t cmp by (simp_all add: new_timer_def)
  then show ?thesis using w by blast
qed

lemma schedule_then_cancel:
  assumes "wheel_ok w X" "may_schedule now ty future interval w"
  shows "\<exists>k w1 w2. schedule_i now ty a1 a2 future interval w = Some (k, w1) \<and> wheel_ok w1 X \<and> k \<noteq> -1
    \<and> timers w1 = add_mset (new_timer ty a1 a2 (tv_add now future) interval k) (timers w)
    \<and> (\<forall>t \<in># timers w. n_timer_id t \<noteq> k) \<and> (\<forall>a \<in> X. tid (tq_mem w) a \<noteq> k)
    \<and> cancel_timer k w1 = Some (1, Some (a1, a2), w2) \<and> wheel_ok w2 X \<and> timers w2 = timers w"
proof (rule wheel_ok_schedule [OF assms, of a1 a2])
  fix k w1 assume s: "schedule_i now ty a1 a2 future interval w = Some (k, w1)" "wheel_ok w1 X" "k \<noteq> -1"
    "timers w1 = add_mset (new_timer ty a1 a2 (tv_add now future) interval k) (timers w)"
    "\<forall>t \<in># timers w. n_timer_id t \<noteq> k"
    "\<forall>a \<in> X. timer_at (tq_mem w1) a = timer_at (tq_mem w) a \<and> tid (tq_mem w) a \<noteq> k"
  let ?t = "new_timer ty a1 a2 (tv_add now future) interval k"
  have id: "n_timer_id ?t = k" by (simp add: new_timer_def)
  show ?thesis
  proof (rule wheel_ok_cancel [OF s(2), of k])
    assume "\<forall>t \<in># timers w1. n_timer_id t \<noteq> k"
    then show ?thesis using s(4) id by simp
  next
    fix t w2 assume c: "cancel_timer k w1 = Some (1, Some (n_act1 t, n_act2 t), w2)" "wheel_ok w2 X"
      "timers w1 = add_mset t (timers w2)" "n_timer_id t = k"
    have "t \<in># timers w1" using c(3) by simp
    then have t: "t = ?t" using s(4,5) c(4) by auto
    have a: "n_act1 t = a1" "n_act2 t = a2" by (simp_all add: t new_timer_def)
    have "timers w2 = timers w" using c(3) s(4) t by simp
    then show ?thesis
      using s c(2) c(1) [unfolded a] by blast
  qed
qed

text \<open>
  C8. While the count of its spoke is below its limit, \<^verbatim>\<open>schedule\<close> allocates a timer for the given task, arguments, time and interval and adds exactly it to the
  wheel. The returned identifier is not \<open>-1\<close> and neither a pending timer nor one that is being dispatched
  has it; cancelling it at once gives the arguments back and leaves the same timers as before.
\<close>

theorem schedule_cancel:
  assumes "wheel_ok w X" "may_schedule now ty future interval w"
  shows "\<exists>k w1 w2. schedule_i now ty a1 a2 future interval w = Some (k, w1) \<and> wheel_ok w1 X \<and> k \<noteq> -1
    \<and> timers w1 = add_mset (new_timer ty a1 a2 (tv_add now future) interval k) (timers w)
    \<and> (\<forall>t \<in># timers w. n_timer_id t \<noteq> k) \<and> (\<forall>a \<in> X. tid (tq_mem w) a \<noteq> k)
    \<and> cancel_timer k w1 = Some (1, Some (a1, a2), w2) \<and> wheel_ok w2 X \<and> timers w2 = timers w"
  by (rule schedule_then_cancel [OF assms])

theorem schedule_cancel_witness:
  "\<exists>w k w1 w2. demo_wheel = Some w
     \<and> schedule_i (TimeValue 1 0) 5 7 9 (TimeValue 0 3000) (TimeValue 0 2000) w = Some (k, w1)
     \<and> cancel_timer k w1 = Some (1, Some (7, 9), w2) \<and> timers w2 = {#}"
proof (rule demo_one [of demo_env])
  fix w0 k w assume "demo_wheel = Some w0" "wheel_ok w0 {}" "timers w0 = {#}"
    "may_schedule (TimeValue 1 0) 5 (TimeValue 0 3000) (TimeValue 0 2000) w0"
  then show ?thesis
    using schedule_cancel [of w0 "{}" "TimeValue 1 0" 5 "TimeValue 0 3000" "TimeValue 0 2000" 7 9] by auto
qed

text \<open>
  A task that cancels its own timer while it is being dispatched changes nothing: the timer is not on
  the wheel, \<^verbatim>\<open>cancel_timer\<close> returns 0, and a repeating timer is scheduled again afterwards. No other timer
  is cancelled in its place, because no other has its identifier.
\<close>

lemma cancel_dispatched:
  assumes "wheel_ok w (insert n X)"
  shows "cancel_timer (tid (tq_mem w) n) w = Some (0, None, w)"
proof -
  obtain R F where r: "wheel_inv w R F (insert n X)" "ids_ok w (live w R \<union> insert n X)" "timers w = pending w R"
    using assms by (elim wheel_okE)
  have "tid (tq_mem w) a \<noteq> tid (tq_mem w) n" if "a \<in> live w R" for a
  proof -
    have "a \<noteq> n" using that wheel_ok_nodes(3) [OF r(1)] by blast
    then show ?thesis using r(2) that by (auto simp: ids_ok_def inj_on_def)
  qed
  then have "\<forall>t \<in># timers w. n_timer_id t \<noteq> tid (tq_mem w) n"
    by (auto simp: r(3) pending_set tid_timer_at)
  then show ?thesis
    by (rule_tac wheel_ok_cancel [OF assms, of "tid (tq_mem w) n"]) auto
qed

lemma cancel_dispatched_witness:
  "\<exists>w0 k w n w1. demo_wheel = Some w0
     \<and> schedule_i (TimeValue 1 0) 5 7 9 (TimeValue 0 3000) (TimeValue 0 2000) w0 = Some (k, w)
     \<and> remove_first w = Some (n, w1) \<and> cancel_timer (tid (tq_mem w1) n) w1 = Some (0, None, w1)"
proof (rule demo_one [of demo_env])
  fix w0 k w assume w: "demo_wheel = Some w0" "wheel_ok w {}"
    "schedule_i (TimeValue 1 0) 5 7 9 (TimeValue 0 3000) (TimeValue 0 2000) w0 = Some (k, w)"
    "timers w = {#new_timer 5 7 9 (tv_add (TimeValue 1 0) (TimeValue 0 3000)) (TimeValue 0 2000) k#}"
  have ne: "timers w \<noteq> {#}" using w(4) by simp
  show ?thesis
  proof (rule wheel_ok_first [OF w(2) ne])
    fix n w1 assume "remove_first w = Some (n, w1)" "wheel_ok w1 (insert n {})"
    then show ?thesis using w cancel_dispatched [of w1 n "{}"] by blast
  qed
qed

text \<open>
  C9. The destructor of a reachable wheel reads and deletes only nodes that exist, and nothing is left: the
  timers, the roots and the nodes of the free list are all deleted, each once.
\<close>

theorem TimerWheel_delete_all:
  assumes "calls_back calls E" "reachable E w"
  shows "\<exists>m. TimerWheel_delete w = Some m \<and> heap m = Map.empty"
proof -
  obtain R F where "wheel_inv w R F {}"
    using reachable_ok [OF assms(2,1)] by (elim conjE wheel_okE)
  then show ?thesis by (rule TimerWheel_delete_inv) auto
qed

theorem TimerWheel_delete_all_witness:
  "\<exists>w0 k w m. demo_wheel = Some w0
     \<and> schedule_i (TimeValue 1 0) 5 7 9 (TimeValue 0 3000) (TimeValue 0 2000) w0 = Some (k, w)
     \<and> TimerWheel_delete w = Some m \<and> heap m = Map.empty"
proof (rule demo_one [of demo_env])
  fix w0 k w assume "demo_wheel = Some w0" "reachable demo_env w"
    "schedule_i (TimeValue 1 0) 5 7 9 (TimeValue 0 3000) (TimeValue 0 2000) w0 = Some (k, w)"
  then show ?thesis
    using TimerWheel_delete_all [OF quiet_calls_back [OF demo_quiet], of w] by blast
qed

subsection \<open>At the limits\<close>

text \<open>
  \<^verbatim>\<open>remove_first_expired\<close> reads the timer before it tests the pointer, so on an empty wheel it dereferences
  \<^verbatim>\<open>NULL\<close>; the dispatching code asks \<^verbatim>\<open>is_empty\<close> first.
\<close>

lemma remove_first_expired_empty:
  assumes "wheel_ok w X" "timers w = {#}"
  shows "remove_first_expired now w = None"
proof -
  obtain R F where r: "wheel_inv w R F X" "timers w = pending w R"
    using assms(1) by (elim wheel_okE)
  note c = wheel_coreD [OF wheel_invD(1) [OF r(1)]]
  have e: "earliest_spoke w < spoke_count w" using c(1) by (simp add: wheel_shape_def)
  have "live w R = {}" using assms(2) r(2) pending_set [of w R] by simp
  then have "R (earliest_spoke w) = []" using live_spoke [OF e, of R] by auto
  then have f: "get_first w = Some NULL"
    using get_first_i_eq [OF c(1,2)] by (simp add: get_first_def)
  have "heap (tq_mem w) NULL = None"
    using owned_wf [OF c(3)] by (cases "heap (tq_mem w) NULL") (auto simp: mem_wf_def)
  then show ?thesis by (simp add: remove_first_expired_def f node_access)
qed

text \<open>
  The count of a spoke is a \<^verbatim>\<open>long\<close>, an identifier an \<^verbatim>\<open>int\<close>. When the count of the last spoke is
  \<open>2 ^ (32 - spoke_bits w) - 1\<close> the identifier is \<open>-1\<close>: \<^verbatim>\<open>schedule\<close> fails, and the node it has taken from the pool is lost.
  From then on the identifiers of the spoke repeat.
\<close>

lemma schedule_i_leak:
  fixes now future w
  defines "s \<equiv> calculate_spoke (tv_add now future) w"
  assumes inv: "wheel_inv w R F X" and g: "good_time (tv_add now future)"
    and s: "s = spoke_count w - 1" and cnt: "counter w s = 2 ^ (32 - spoke_bits w) - 1"
  obtains n w' F' where "schedule_i now ty a1 a2 future interval w = Some (-1, w')" "n \<notin> X"
    "wheel_inv w' R F' (insert n X)" "pending w' R = pending w R"
proof -
  note sh = wheel_coreD(1) [OF wheel_invD(1) [OF inv]]
  have b: "spoke_bits w \<le> 12" "spoke_count w = 2 ^ spoke_bits w" using sh by (simp_all add: wheel_shape_def)
  have sl: "s < spoke_count w" unfolding s_def by (rule calculate_spoke_less [OF sh g])
  have "(2::int) ^ (32 - spoke_bits w) < 2 ^ (64 - spoke_bits w)"
    using b(1) by (intro power_strict_increasing) simp_all
  then have c: "counter w s < 2 ^ (64 - spoke_bits w) - 1" using cnt by linarith
  have "counter w s * 2 ^ spoke_bits w + int s = 2 ^ (32 - spoke_bits w) * 2 ^ spoke_bits w - 1"
  proof -
    have "int s = 2 ^ spoke_bits w - 1" using s b(2) by (simp add: of_nat_diff)
    then show ?thesis unfolding cnt by (simp add: left_diff_distrib)
  qed
  also have "\<dots> = 2 ^ 32 - 1" using b(1) by (simp add: power_add [symmetric])
  finally have k: "make_id (spoke_bits w) (counter w s) s = -1"
    using make_id_value [of s "spoke_bits w" "counter w s"] sl b(2) by (simp add: to_int_def)
  obtain n w1 F' m where p: "alloc_node w = Some (n, w1)" "same_config w w1" "n \<noteq> NULL" "n \<notin> X"
    "generate_timer_id s w1 = Some (make_id (spoke_bits w) (counter w s) s, w1\<lparr>tq_mem := m\<rparr>)"
    "wheel_inv (w1\<lparr>tq_mem := m\<rparr>) R F' (insert n X)" "pending (w1\<lparr>tq_mem := m\<rparr>) R = pending w R"
    by (rule schedule_i_prepare [OF inv sl c])
  have "calculate_spoke (tv_add now future) w1 = s"
    using same_config_spoke [OF p(2)] by (simp add: s_def)
  then have "schedule_i now ty a1 a2 future interval w = Some (-1, w1\<lparr>tq_mem := m\<rparr>)"
    using p(1,3,5) k by (simp add: schedule_i_def Let_def)
  then show ?thesis using p(4,6,7) by (intro that)
qed

lemma make_id_wraps:
  assumes "b \<le> 12" "s < 2 ^ b"
  shows "make_id b (c + 2 ^ (32 - b)) s = make_id b c s"
proof -
  have "(c + 2 ^ (32 - b)) * 2 ^ b + int s = (c * 2 ^ b + int s) + 2 ^ 32"
    using assms(1) by (simp add: algebra_simps power_add [symmetric])
  moreover have "signed_take_bit 31 (x + 2 ^ 32 :: int) = signed_take_bit 31 x" for x
    using mod_add_self2 [of "x + 2 ^ 31" "2 ^ 32 :: int"]
    by (simp add: signed_take_bit_eq_take_bit_shift take_bit_eq_mod algebra_simps)
  ultimately show ?thesis
    unfolding make_id_value [OF assms(2)] to_int_def by metis
qed

end
