(* ===== verification/Timer_Service.thy ===== *)
theory Timer_Service
  imports Timer_Run
begin

section \<open>The timer thread (comLib/dhntimer/DHNTimer_T.h, DHNTimer.cpp)\<close>

text \<open>
  \<^verbatim>\<open>Timer\<close> owns a timer queue, adds and cancels timers given in milliseconds, and runs a thread that sleeps
  in \<^verbatim>\<open>select\<close> until the next timer is due and dispatches the expired timers. \<^verbatim>\<open>DHNTimer\<close> builds one on
  a wheel of 1024 spokes and forwards to it.

  The socket calls of the operating system, the flag \<^verbatim>\<open>m_bRunning\<close> that other threads reset, and what other threads do to the queue
  are a record \<open>os\<close> over the state \<open>'u\<close> of the rest of the program. The branch of the sources for \<^verbatim>\<open>WIN32\<close> differs from the other
  one in the name of \<^verbatim>\<open>close\<close> only.
\<close>

subsection \<open>Adding and cancelling timers\<close>

record TimerT =
  m_pTimerQueue :: "TimerWheel option"
  initialized :: bool
  restart :: bool
  m_nSocket :: int

definition Timer_open :: "nat \<Rightarrow> bool \<Rightarrow> TimerWheel option \<Rightarrow> TimerT \<Rightarrow> int \<times> TimerT" where
  "Timer_open number rst tq t =
     (if initialized t then (-1, t)
      else (0, t\<lparr>restart := rst, m_pTimerQueue := tq, initialized := True\<rparr>))"

text \<open>The constructor leaves \<^verbatim>\<open>restart_\<close> and \<^verbatim>\<open>m_nSocket\<close> to what the storage holds.\<close>

definition Timer_new :: "bool \<Rightarrow> int \<Rightarrow> TimerWheel option \<Rightarrow> TimerT" where
  "Timer_new rst0 sock0 tq =
     snd (Timer_open 256 False tq \<lparr>m_pTimerQueue = None, initialized = False, restart = rst0, m_nSocket = sock0\<rparr>)"

definition Timer_delete :: "TimerT \<Rightarrow> Memory option option" where
  "Timer_delete t =
     (case m_pTimerQueue t of
        None \<Rightarrow> Some None
      | Some w \<Rightarrow> do { m \<leftarrow> TimerWheel_delete w; Some (Some m) })"

definition addTimer ::
  "('u, TimerWheel) env \<Rightarrow> addr \<Rightarrow> int \<Rightarrow> u64 \<Rightarrow> u64 \<Rightarrow> bool \<Rightarrow> 'u \<times> TimerT \<Rightarrow> (int \<times> 'u \<times> TimerT) option" where
  "addTimer E ty nTimeOut arg1 arg2 bIsRepet = (\<lambda>(u, t).
     if ty = NULL then Some (-1, u, t)
     else case m_pTimerQueue t of
       None \<Rightarrow> Some (-2, u, t)
     | Some w \<Rightarrow>
         let nSecond = nTimeOut sdiv 1000;
             nUSecond = 1000 * (nTimeOut smod 1000);
             tv = tv_set nSecond nUSecond
         in do {
           (nRet, u, w) \<leftarrow>
             (if \<not> bIsRepet then tq_schedule E ty arg1 arg2 tv tv_zero (u, w)
              else tq_schedule E ty arg1 arg2 tv tv (u, w));
           Some (nRet, u, t\<lparr>m_pTimerQueue := Some w\<rparr>)
         })"

definition cancelTimer :: "int \<Rightarrow> TimerT \<Rightarrow> ((u64 \<times> u64) option \<times> TimerT) option" where
  "cancelTimer nTimerID t =
     (case m_pTimerQueue t of
        None \<Rightarrow> Some (None, t)
      | Some w \<Rightarrow> do {
          (r, act, w) \<leftarrow> cancel_timer nTimerID w;
          Some (act, t\<lparr>m_pTimerQueue := Some w\<rparr>)
        })"

subsection \<open>The socket and the loop of the thread\<close>

record sockaddr_in =
  sin_addr :: u32
  sin_port :: u16

text \<open>
  \<open>others\<close> is what the other threads do, by \<^verbatim>\<open>addTimer\<close> and \<^verbatim>\<open>cancelTimer\<close> among others, between two operations of this thread on the
  queue: each of those holds the mutex from start to end. A descriptor that is not below \<open>fd_setsize\<close> does not fit into the
  set \<^verbatim>\<open>m_read_fd_set\<close>, and \<^verbatim>\<open>_FD_SET\<close> writes past its end.
\<close>

record 'u os =
  SOCKET_OPEN :: "'u \<Rightarrow> int \<times> 'u"
  SOCKET_UNBLOCK :: "int \<Rightarrow> 'u \<Rightarrow> int \<times> 'u"
  SOCKET_BIND :: "int \<Rightarrow> sockaddr_in \<Rightarrow> 'u \<Rightarrow> int \<times> 'u"
  getsockname :: "int \<Rightarrow> sockaddr_in \<Rightarrow> 'u \<Rightarrow> sockaddr_in \<times> 'u"
  close :: "int \<Rightarrow> 'u \<Rightarrow> 'u"
  os_select :: "int \<Rightarrow> int \<times> int \<Rightarrow> 'u \<Rightarrow> int \<times> 'u"
  inet_addr :: "string \<Rightarrow> u32"
  m_bRunning :: "'u \<Rightarrow> bool"
  fd_setsize :: int
  others :: "'u \<times> TimerWheel \<Rightarrow> 'u \<times> TimerWheel"

definition init_socket :: "'u os \<Rightarrow> string option \<Rightarrow> u16 \<Rightarrow> 'u \<times> TimerT \<Rightarrow> int \<times> u16 \<times> 'u \<times> TimerT" where
  "init_socket S szIp usPort = (\<lambda>(u, t).
     let (s, u) = SOCKET_OPEN S u; t = t\<lparr>m_nSocket := s\<rparr>
     in if s < 0 then (-1, usPort, u, t)
        else
          let (r, u) = SOCKET_UNBLOCK S s u
          in if r < 0 then (-2, usPort, close S s u, t)
             else
               let ip = (case szIp of
                           None \<Rightarrow> 0
                         | Some z \<Rightarrow> if z = [] \<or> z = ''0.0.0.0'' then 0 else inet_addr S z);
                   ipSin = \<lparr>sin_addr = ip, sin_port = htons usPort\<rparr>;
                   (r, u) = SOCKET_BIND S s ipSin u;
                   (failed, ipSin, u) =
                     (if r \<noteq> 0
                      then let ipSin = ipSin\<lparr>sin_port := htons 0\<rparr>; (r, u) = SOCKET_BIND S s ipSin u
                           in (r \<noteq> 0, ipSin, u)
                      else (False, ipSin, u))
               in if failed then (-3, usPort, close S s u, t)
                  else let (ipSin, u) = getsockname S s ipSin u
                       in (0, htons (sin_port ipSin), u, t))"

text \<open>One pass of the loop: \<open>Inl\<close> is the \<^verbatim>\<open>break\<close> after a failed \<^verbatim>\<open>select\<close>.\<close>

definition run_pass ::
  "'u os \<Rightarrow> ('u, TimerWheel) env \<Rightarrow> int \<Rightarrow> 'u \<times> TimerWheel \<Rightarrow> ('u \<times> TimerWheel + 'u \<times> TimerWheel) option" where
  "run_pass S E sock = (\<lambda>s.
     let (u, w) = others S s
     in do {
       (this_timeout, _, u) \<leftarrow> calculate_timeout wheel_virtuals E (Some (tv_of_msec 300)) (Some (tv_set 0 0)) (u, w);
       tm \<leftarrow> this_timeout;
       _ \<leftarrow> (if sock < fd_setsize S then Some () else None);
       let (u, w) = others S (u, w);
       let (nRet, u) = os_select S (sock + 1) (tv_sec tm, tv_usec tm) u;
       let (u, w) = others S (u, w);
       if nRet < 0 then Some (Inl (u, w))
       else do {
         (_, u, w) \<leftarrow> expire wheel_virtuals E (u, w);
         Some (Inr (u, w))
       }
     })"

partial_function (option) run_loop ::
  "'u os \<Rightarrow> ('u, TimerWheel) env \<Rightarrow> int \<Rightarrow> 'u \<times> TimerWheel \<Rightarrow> ('u \<times> TimerWheel) option" where
  "run_loop S E sock s =
     (if m_bRunning S (fst s)
      then do {
        r \<leftarrow> run_pass S E sock s;
        case r of Inl s \<Rightarrow> Some s | Inr s \<Rightarrow> run_loop S E sock s
      }
      else Some s)"

definition Timer_run :: "'u os \<Rightarrow> ('u, TimerWheel) env \<Rightarrow> 'u \<times> TimerT \<Rightarrow> ('u \<times> TimerT) option" where
  "Timer_run S E = (\<lambda>(u, t).
     case m_pTimerQueue t of
       None \<Rightarrow> Some (u, t)
     | Some w \<Rightarrow>
         let (nRet, nPort, u, t) = init_socket S None 0 (u, t)
         in if nRet < 0 then Some (u, t)
            else do {
              (u, w) \<leftarrow> run_loop S E (m_nSocket t) (u, w);
              let t = t\<lparr>m_pTimerQueue := Some w\<rparr>;
              Some (if m_nSocket t > 0 then (close S (m_nSocket t) u, t\<lparr>m_nSocket := -1\<rparr>) else (u, t))
            })"

subsection \<open>The facade\<close>

definition DHNTimer_new :: "bool \<Rightarrow> int \<Rightarrow> Memory \<Rightarrow> TimerT option" where
  "DHNTimer_new rst0 sock0 m =
     do {
       (fl, m) \<leftarrow> fl_new DHN_FREE_LIST_WITH_POOL DHN_DEFAULT_FREE_LIST_PREALLOC DHN_DEFAULT_FREE_LIST_LWM
                    DHN_DEFAULT_FREE_LIST_HWM DHN_DEFAULT_FREE_LIST_INC m;
       w \<leftarrow> TimerWheel_new 1024 100 0 fl m;
       Some (Timer_new rst0 sock0 (Some w))
     }"

definition DHNTimer_addTimer ::
  "('u, TimerWheel) env \<Rightarrow> addr \<Rightarrow> int \<Rightarrow> u64 \<Rightarrow> u64 \<Rightarrow> bool \<Rightarrow> 'u \<times> TimerT option \<Rightarrow> (int \<times> 'u \<times> TimerT option) option" where
  "DHNTimer_addTimer E pTask nTimeOut arg1 arg2 bIsRepet = (\<lambda>(u, d).
     case d of
       None \<Rightarrow> Some (-1, u, None)
     | Some t \<Rightarrow> do {
         (r, u, t) \<leftarrow> addTimer E pTask nTimeOut arg1 arg2 bIsRepet (u, t);
         Some (r, u, Some t)
       })"

definition DHNTimer_cancelTimer :: "int \<Rightarrow> TimerT option \<Rightarrow> ((u64 \<times> u64) option \<times> TimerT option) option" where
  "DHNTimer_cancelTimer nTimerID d =
     (case d of
        None \<Rightarrow> Some (None, None)
      | Some t \<Rightarrow> do { (act, t) \<leftarrow> cancelTimer nTimerID t; Some (act, Some t) })"

subsection \<open>How long the thread sleeps\<close>

lemma calculate_timeout_value:
  assumes ok: "wheel_ok w X" and clk: "gettimeofday E u = (cur, u1)" "tv_normal cur"
    and mw: "tv_normal mw" "tv_zero \<le> mw"
  shows "\<exists>d u'. calculate_timeout wheel_virtuals E (Some mw) (Some tt) (u, w) = Some (Some d, Some d, u')
    \<and> u' = (if timers w = {#} then u else u1) \<and> tv_normal d \<and> tv_zero \<le> d \<and> d \<le> mw
    \<and> (\<forall>t \<in># timers w. tv_total d \<le> max 0 (tv_total (n_timer_value t) - tv_total cur))
    \<and> (d < mw \<longrightarrow> (\<exists>t \<in># timers w. tv_total d = max 0 (tv_total (n_timer_value t) - tv_total cur)))"
proof (cases "timers w = {#}")
  case True
  then show ?thesis
    using wheel_ok_empty [OF ok] mw by (simp add: calculate_timeout_def wheel_virtuals_def)
next
  case False
  obtain n w' where f: "earliest_time w = Some (n_timer_value (timer_at (tq_mem w') n))"
    "timers w = add_mset (timer_at (tq_mem w') n) (timers w')" "good_time (n_timer_value (timer_at (tq_mem w') n))"
    "\<forall>t \<in># timers w. n_timer_value (timer_at (tq_mem w') n) \<le> n_timer_value t"
    by (rule wheel_ok_first [OF ok False]) (rule that)
  define e where "e = n_timer_value (timer_at (tq_mem w') n)"
  have fe: "earliest_time w = Some e" using f(1) by (simp only: e_def)
  have en: "tv_normal e" using f(3) by (simp add: e_def good_time_def)
  have mem: "timer_at (tq_mem w') n \<in># timers w" using f(2) by simp
  have le: "tv_total e \<le> tv_total (n_timer_value t)" if "t \<in># timers w" for t
  proof -
    have "e \<le> n_timer_value t" using f(4) that unfolding e_def by blast
    then show ?thesis using wheel_ok_good [OF ok that] en by (simp add: good_time_def tv_normal_le)
  qed
  let ?d = "if e > cur then (if \<not> mw > tv_sub e cur then mw else tv_sub e cur) else tv_zero"
  have run: "calculate_timeout wheel_virtuals E (Some mw) (Some tt) (u, w) = Some (Some ?d, Some ?d, u1)"
    using wheel_ok_empty [OF ok] False fe clk(1) by (simp add: calculate_timeout_def wheel_virtuals_def Let_def)
  have n: "tv_normal ?d" "tv_zero \<le> ?d" "?d \<le> mw"
    using mw clk(2) en by (auto simp: tv_normal_le tv_normal_less not_less)
  have t: "tv_total ?d = min (tv_total mw) (max 0 (tv_total e - tv_total cur))"
    using mw clk(2) en by (auto simp: tv_normal_le tv_normal_less not_less)
  have "\<forall>t \<in># timers w. tv_total ?d \<le> max 0 (tv_total (n_timer_value t) - tv_total cur)"
    unfolding t using le by force
  moreover have "?d < mw \<longrightarrow> (\<exists>t \<in># timers w. tv_total ?d = max 0 (tv_total (n_timer_value t) - tv_total cur))"
  proof
    assume "?d < mw"
    then have "tv_total ?d < tv_total mw" using tv_normal_less [OF n(1) mw(1)] by simp
    then have "tv_total ?d = max 0 (tv_total e - tv_total cur)" unfolding t by linarith
    then show "\<exists>t \<in># timers w. tv_total ?d = max 0 (tv_total (n_timer_value t) - tv_total cur)"
      using mem e_def by blast
  qed
  ultimately show ?thesis
    using False n run by (intro exI [of _ ?d] exI [of _ u1] conjI) simp_all
qed

text \<open>
  C10. On a reachable wheel \<^verbatim>\<open>calculate_timeout\<close>, with which the timer thread decides how long to sleep, returns a
  time between zero and the given maximum that never goes past the first pending timer, is zero when a timer
  is already due, and is shorter than the maximum only when a timer is due at its end.
\<close>

theorem calculate_timeout_bounds:
  assumes "calls_back calls E" "reachable E w" "tv_normal (fst (gettimeofday E u))" "tv_normal mw" "tv_zero \<le> mw"
  shows "\<exists>d u'. calculate_timeout wheel_virtuals E (Some mw) (Some tt) (u, w) = Some (Some d, Some d, u')
    \<and> tv_zero \<le> d \<and> d \<le> mw
    \<and> (\<forall>t \<in># timers w. tv_total d \<le> max 0 (tv_total (n_timer_value t) - tv_total (fst (gettimeofday E u))))
    \<and> (d < mw \<longrightarrow> (\<exists>t \<in># timers w. tv_total d = max 0 (tv_total (n_timer_value t) - tv_total (fst (gettimeofday E u)))))"
proof -
  have ok: "wheel_ok w {}" using reachable_ok [OF assms(2,1)] by blast
  obtain cur u1 where c: "gettimeofday E u = (cur, u1)" by (cases "gettimeofday E u")
  then have "tv_normal cur" using assms(3) by simp
  from calculate_timeout_value [OF ok c this assms(4,5), of tt] show ?thesis
    unfolding c fst_conv by blast
qed

theorem calculate_timeout_bounds_witness:
  "\<exists>w0 k w. demo_wheel = Some w0
     \<and> schedule_i (TimeValue 1 0) 5 7 9 (TimeValue 0 3000) (TimeValue 0 2000) w0 = Some (k, w)
     \<and> (\<exists>d u'. calculate_timeout wheel_virtuals demo_env (Some (tv_of_msec 300)) (Some tv_zero) ([], w) = Some (Some d, Some d, u')
          \<and> tv_total d \<le> 3000)"
proof (rule demo_one [of demo_env])
  fix w0 k w assume w: "demo_wheel = Some w0" "reachable demo_env w"
    "schedule_i (TimeValue 1 0) 5 7 9 (TimeValue 0 3000) (TimeValue 0 2000) w0 = Some (k, w)"
    "timers w = {#new_timer 5 7 9 (tv_add (TimeValue 1 0) (TimeValue 0 3000)) (TimeValue 0 2000) k#}"
  have n: "tv_normal (fst (gettimeofday demo_env []))" "tv_normal (tv_of_msec 300)" "tv_zero \<le> tv_of_msec 300"
    by (simp_all add: demo_env_def tv_normal_pair tv_normal_le)
  have t: "tv_total (fst (gettimeofday demo_env [])) = 1000000" by (simp add: demo_env_def)
  from calculate_timeout_bounds [OF quiet_calls_back [OF demo_quiet] w(2) n, of tv_zero] show ?thesis
    using w unfolding t w(4) by (auto simp: new_timer_def)
qed

subsection \<open>Adding a timer\<close>

definition timeout_tv :: "int \<Rightarrow> TimeValue" where
  "timeout_tv n = tv_set (n sdiv 1000) (1000 * (n smod 1000))"

lemma timeout_normal [simp]: "tv_normal (timeout_tv n)"
  by (simp add: timeout_tv_def)

lemma timeout_total [simp]: "tv_total (timeout_tv n) = 1000 * n"
proof -
  have "n sdiv 1000 * 1000 + n smod 1000 = n" by (rule sdiv_mult_smod_eq)
  then have "1000 * (n sdiv 1000 * 1000 + n smod 1000) = 1000 * n" by simp
  then show ?thesis by (simp add: timeout_tv_def algebra_simps)
qed

text \<open>
  C11. \<^verbatim>\<open>addTimer\<close> refuses a null task with \<open>-1\<close> and a timer without queue with \<open>-2\<close>, in both cases without any
  effect. Otherwise, while the count for identifiers of the spoke is below its limit, it adds one timer that is due \<^verbatim>\<open>nTimeOut\<close> milliseconds after the time it reads, negative values
  included, and repeats with that period if asked to; \<^verbatim>\<open>cancelTimer\<close> with the returned identifier removes
  it again and hands back its arguments.
\<close>

theorem addTimer_adds:
  assumes "wheel_ok w X" "m_pTimerQueue t = Some w" "gettimeofday E u = (now, u1)"
    and "may_schedule now ty (timeout_tv nTimeOut) (if rep then timeout_tv nTimeOut else tv_zero) w"
  shows "addTimer E NULL nTimeOut a1 a2 rep (u, t) = Some (-1, u, t)
    \<and> addTimer E ty nTimeOut a1 a2 rep (u, t\<lparr>m_pTimerQueue := None\<rparr>) = Some (-2, u, t\<lparr>m_pTimerQueue := None\<rparr>)
    \<and> (\<exists>k w1 w2 v iv. addTimer E ty nTimeOut a1 a2 rep (u, t) = Some (k, u1, t\<lparr>m_pTimerQueue := Some w1\<rparr>)
      \<and> wheel_ok w1 X \<and> timers w1 = add_mset (new_timer ty a1 a2 v iv k) (timers w)
      \<and> tv_normal v \<and> tv_total v = tv_total now + 1000 * nTimeOut \<and> tv_normal iv \<and> tv_total iv = (if rep then 1000 * nTimeOut else 0)
      \<and> cancelTimer k (t\<lparr>m_pTimerQueue := Some w1\<rparr>) = Some (Some (a1, a2), t\<lparr>m_pTimerQueue := Some w2\<rparr>)
      \<and> wheel_ok w2 X \<and> timers w2 = timers w)"
proof (intro conjI)
  let ?tv = "timeout_tv nTimeOut"
  let ?iv = "if rep then ?tv else tv_zero"
  have ty: "ty \<noteq> NULL" using assms(4) by (simp add: may_schedule_def)
  show "addTimer E NULL nTimeOut a1 a2 rep (u, t) = Some (-1, u, t)"
    by (simp add: addTimer_def)
  show "addTimer E ty nTimeOut a1 a2 rep (u, t\<lparr>m_pTimerQueue := None\<rparr>) = Some (-2, u, t\<lparr>m_pTimerQueue := None\<rparr>)"
    using ty by (simp add: addTimer_def)
  obtain k w1 w2 where s: "schedule_i now ty a1 a2 ?tv ?iv w = Some (k, w1)" "wheel_ok w1 X"
    "timers w1 = add_mset (new_timer ty a1 a2 (tv_add now ?tv) ?iv k) (timers w)"
    "cancel_timer k w1 = Some (1, Some (a1, a2), w2)" "wheel_ok w2 X" "timers w2 = timers w"
    using schedule_then_cancel [OF assms(1,4), of a1 a2] by (elim exE conjE) (rule that)
  have "addTimer E ty nTimeOut a1 a2 rep (u, t) = Some (k, u1, t\<lparr>m_pTimerQueue := Some w1\<rparr>)"
    using ty s(1) assms(2,3) by (cases rep) (simp_all add: addTimer_def tq_schedule_def Let_def timeout_tv_def [symmetric])
  moreover have "cancelTimer k (t\<lparr>m_pTimerQueue := Some w1\<rparr>) = Some (Some (a1, a2), t\<lparr>m_pTimerQueue := Some w2\<rparr>)"
    using s(4) by (simp add: cancelTimer_def)
  ultimately show "\<exists>k w1 w2 v iv. addTimer E ty nTimeOut a1 a2 rep (u, t) = Some (k, u1, t\<lparr>m_pTimerQueue := Some w1\<rparr>)
      \<and> wheel_ok w1 X \<and> timers w1 = add_mset (new_timer ty a1 a2 v iv k) (timers w)
      \<and> tv_normal v \<and> tv_total v = tv_total now + 1000 * nTimeOut \<and> tv_normal iv \<and> tv_total iv = (if rep then 1000 * nTimeOut else 0)
      \<and> cancelTimer k (t\<lparr>m_pTimerQueue := Some w1\<rparr>) = Some (Some (a1, a2), t\<lparr>m_pTimerQueue := Some w2\<rparr>)
      \<and> wheel_ok w2 X \<and> timers w2 = timers w"
    using s(2,3,5,6)
    by (intro exI [of _ k] exI [of _ w1] exI [of _ w2] exI [of _ "tv_add now ?tv"] exI [of _ ?iv] conjI) simp_all
qed

theorem addTimer_adds_witness:
  "\<exists>w k w1. demo_wheel = Some w
     \<and> addTimer demo_env 5 3 7 9 True ([], Timer_new False 0 (Some w)) = Some (k, [], Timer_new False 0 (Some w1))
     \<and> timers w1 = {#new_timer 5 7 9 (TimeValue 1 3000) (TimeValue 0 3000) k#}"
proof (rule demo_reachable [of demo_env])
  have tv: "timeout_tv 3 = TimeValue 0 3000" "tv_add (TimeValue 1 0) (TimeValue 0 3000) = TimeValue 1 3000"
    by (rule tv_normal_unique; simp add: timeout_tv_def tv_normal_pair)+
  fix w assume w: "demo_wheel = Some w" "timers w = {#}" "wheel_ok w {}" "\<forall>s < spoke_count w. counter w s = 0"
  have may: "may_schedule (TimeValue 1 0) 5 (timeout_tv 3) (if True then timeout_tv 3 else tv_zero) w"
    unfolding tv using demo_may_schedule [OF w(3,2,4)] by (simp add: tv_normal_pair)
  have q: "m_pTimerQueue (Timer_new False 0 (Some w)) = Some w" by (simp add: Timer_new_def Timer_open_def)
  have c: "gettimeofday demo_env [] = (TimeValue 1 0, [])" by (simp add: demo_env_def)
  from addTimer_adds [OF w(3) q c may, of 7 9] obtain k w1 v iv where
    a: "addTimer demo_env 5 3 7 9 True ([], Timer_new False 0 (Some w)) =
        Some (k, [], (Timer_new False 0 (Some w))\<lparr>m_pTimerQueue := Some w1\<rparr>)"
      "timers w1 = add_mset (new_timer 5 7 9 v iv k) (timers w)" "tv_normal v" "tv_total v = 1003000" "tv_normal iv" "tv_total iv = 3000"
    by (elim exE conjE) (rule that, simp_all)
  have "v = TimeValue 1 3000" "iv = TimeValue 0 3000"
    by (rule tv_normal_unique; use a(3-6) in \<open>simp add: tv_normal_pair\<close>)+
  then have "timers w1 = {#new_timer 5 7 9 (TimeValue 1 3000) (TimeValue 0 3000) k#}" using a(2) w(2) by simp
  moreover have "(Timer_new False 0 (Some w))\<lparr>m_pTimerQueue := Some w1\<rparr> = Timer_new False 0 (Some w1)"
    by (simp add: Timer_new_def Timer_open_def)
  ultimately show ?thesis using w(1) a(1) by metis
qed

subsection \<open>The loop of the thread\<close>

lemma expire_loop_reachable:
  assumes "expire_loop wheel_virtuals E cur k s = Some r" "reachable E (snd s)" "tv_normal cur"
  shows "reachable E (snd (snd r))"
proof -
  have "V = wheel_virtuals \<longrightarrow> E' = E \<longrightarrow> reachable E (snd s) \<longrightarrow> tv_normal cur \<longrightarrow> reachable E (snd (snd r))"
    if "expire_loop V E' cur k s = Some r" for V E' cur k s r
  proof (rule expire_loop.raw_induct [OF _ that, where P =
      "\<lambda>V E' cur k s r. V = wheel_virtuals \<longrightarrow> E' = E \<longrightarrow> reachable E (snd s) \<longrightarrow> tv_normal cur \<longrightarrow> reachable E (snd (snd r))"])
    fix loop V E' cur k s r
    assume ih: "\<And>V E' cur k s r. loop V E' cur k s = Some r \<Longrightarrow>
        V = wheel_virtuals \<longrightarrow> E' = E \<longrightarrow> reachable E (snd s) \<longrightarrow> tv_normal cur \<longrightarrow> reachable E (snd (snd r))"
      and run: "do { (result, s') \<leftarrow> dispatch_info_i V E' cur s;
          if result \<noteq> 0 then loop V E' cur (k + 1) s' else Some (k, s') } = Some r"
    show "V = wheel_virtuals \<longrightarrow> E' = E \<longrightarrow> reachable E (snd s) \<longrightarrow> tv_normal cur \<longrightarrow> reachable E (snd (snd r))"
    proof (intro impI)
      assume h: "V = wheel_virtuals" "E' = E" "reachable E (snd s)" "tv_normal cur"
      obtain res u' w' where d: "dispatch_info_i wheel_virtuals E cur (fst s, snd s) = Some (res, u', w')"
        "(if res \<noteq> 0 then loop V E' cur (k + 1) (u', w') else Some (k, u', w')) = Some r"
        using run h(1,2) by (auto simp: bind_eq_Some_conv)
      have "reachable E w'" by (rule reachable_dispatch [OF h(3,4) d(1)])
      then show "reachable E (snd (snd r))"
        using d(2) ih [of V E' cur "k + 1" "(u', w')" r] h by (auto split: if_splits)
    qed
  qed
  then show ?thesis using assms by blast
qed

lemma expire_reachable:
  assumes "expire wheel_virtuals E (u, w) = Some (k, u', w')" "reachable E w" "\<forall>u. tv_normal (fst (gettimeofday E u))"
  shows "reachable E w'"
proof -
  obtain cur u1 where c: "gettimeofday E u = (cur, u1)" by (cases "gettimeofday E u")
  then have "tv_normal cur" using assms(3) by (metis fst_conv)
  then show ?thesis
    using assms(1,2) expire_loop_reachable [of E cur 0 "(u1, w)" "(k, u', w')"] c
    by (auto simp: expire_def expire_at_def split: if_splits)
qed

text \<open>With tasks that return and leave the queue alone, \<^verbatim>\<open>expire\<close> returns and keeps what they and the clock keep.\<close>

definition kept :: "('u, TimerWheel) env \<Rightarrow> (addr \<Rightarrow> int \<Rightarrow> TimeValue \<Rightarrow> u64 \<Rightarrow> u64 \<Rightarrow> 'u \<Rightarrow> 'u) \<Rightarrow> (addr \<Rightarrow> 'u \<Rightarrow> 'u) \<Rightarrow> ('u \<Rightarrow> 'b) \<Rightarrow> bool" where
  "kept E hu hs ob \<longleftrightarrow> (\<forall>u. ob (snd (gettimeofday E u)) = ob u)
     \<and> (\<forall>ev i tv a1 a2 u. ob (hu ev i tv a1 a2 u) = ob u) \<and> (\<forall>ev u. ob (hs ev u) = ob u)"

lemma runs_kept: "kept E hu hs ob \<Longrightarrow> ob (fst (runs E hu hs cur ts u)) = ob u"
proof (induction ts arbitrary: u)
  case (Cons t ts)
  have "ob (handled E hu t u) = ob u" using Cons.prems by (simp add: kept_def handled_def split_beta)
  then have "ob (fire E hu hs t u) = ob u" using Cons.prems by (simp add: kept_def fire_def Let_def)
  then show ?case using Cons by (simp add: split_beta)
qed simp

lemma expire_returns:
  assumes "quiet E hu hs" "reachable E w" "\<forall>u. tv_normal (fst (gettimeofday E u))" "kept E hu hs ob"
  shows "\<exists>k u' w'. expire wheel_virtuals E (u, w) = Some (k, u', w') \<and> reachable E w' \<and> ob u' = ob u"
proof -
  have r: "wheel_ok w {}" "\<forall>t \<in># timers w. proper_timer t"
    using reachable_ok [OF assms(2) quiet_calls_back [OF assms(1)]] by blast+
  obtain cur u1 where c: "gettimeofday E u = (cur, u1)" by (cases "gettimeofday E u")
  then have n: "tv_normal cur" "ob u1 = ob u" using assms(3,4) by (metis fst_conv, metis kept_def snd_conv)
  have "\<exists>k u' w'. expire wheel_virtuals E (u, w) = Some (k, u', w') \<and> ob u' = ob u"
    using wheel.expire_loop_ok [OF r(1) assms(1) r(2) n(1), of 0 u1] runs_kept [OF assms(4), of cur _ u1] n(2)
    by (cases "v_is_empty wheel_virtuals w") (auto simp: expire_def expire_at_def c)
  then show ?thesis using expire_reachable [OF _ assms(2,3)] by blast
qed

text \<open>
  The laws of the calls, for the descriptors \<open>own\<close> that the thread has open: \<^verbatim>\<open>socket\<close> opens a new one or fails, \<^verbatim>\<open>close\<close> closes one,
  and nothing else changes them; other threads change the queue by scheduling and cancelling only; the clock gives normalized times.
\<close>

definition os_ok ::
  "'u os \<Rightarrow> ('u, TimerWheel) env \<Rightarrow> (addr \<Rightarrow> int \<Rightarrow> TimeValue \<Rightarrow> u64 \<Rightarrow> u64 \<Rightarrow> 'u \<Rightarrow> 'u) \<Rightarrow> (addr \<Rightarrow> 'u \<Rightarrow> 'u) \<Rightarrow> ('u \<Rightarrow> int set) \<Rightarrow> bool" where
  "os_ok S E hu hs own \<longleftrightarrow>
     (\<forall>u s u'. SOCKET_OPEN S u = (s, u') \<longrightarrow> (if s < 0 then own u' = own u else s \<notin> own u \<and> own u' = insert s (own u)))
   \<and> (\<forall>s u. own (close S s u) = own u - {s})
   \<and> (\<forall>s u. own (snd (SOCKET_UNBLOCK S s u)) = own u)
   \<and> (\<forall>s a u. own (snd (SOCKET_BIND S s a u)) = own u)
   \<and> (\<forall>s a u. own (snd (getsockname S s a u)) = own u)
   \<and> (\<forall>n tv u. own (snd (os_select S n tv u)) = own u)
   \<and> (\<forall>u w. own (fst (others S (u, w))) = own u \<and> calls w (snd (others S (u, w))))
   \<and> (\<forall>u. tv_normal (fst (gettimeofday E u)))
   \<and> kept E hu hs own"

lemma os_okD:
  assumes "os_ok S E hu hs own"
  shows "SOCKET_OPEN S u = (s, u') \<Longrightarrow> if s < 0 then own u' = own u else s \<notin> own u \<and> own u' = insert s (own u)"
    and "own (close S s u) = own u - {s}"
    and "SOCKET_UNBLOCK S s u = (r, u') \<Longrightarrow> own u' = own u" and "SOCKET_BIND S s a u = (r, u') \<Longrightarrow> own u' = own u"
    and "getsockname S s a u = (a', u') \<Longrightarrow> own u' = own u" and "os_select S n tv u = (r, u') \<Longrightarrow> own u' = own u"
    and "others S (u, w) = (u', w') \<Longrightarrow> own u' = own u \<and> calls w w'"
    and "\<forall>u. tv_normal (fst (gettimeofday E u))" and "kept E hu hs own"
  using assms unfolding os_ok_def by (metis fst_conv snd_conv)+

lemma init_socket_own:
  assumes "os_ok S E hu hs own" "init_socket S szIp p (u, t) = (nRet, nPort, u1, t1)"
  shows "m_pTimerQueue t1 = m_pTimerQueue t"
    and "own u1 = (if nRet < 0 then own u else insert (fst (SOCKET_OPEN S u)) (own u))"
    and "0 \<le> nRet \<Longrightarrow> m_nSocket t1 = fst (SOCKET_OPEN S u) \<and> 0 \<le> m_nSocket t1 \<and> m_nSocket t1 \<notin> own u"
proof -
  obtain s v where o: "SOCKET_OPEN S u = (s, v)" by fastforce
  note law = os_okD(1) [OF assms(1) o] os_okD(2-5) [OF assms(1)]
  show "m_pTimerQueue t1 = m_pTimerQueue t"
    "own u1 = (if nRet < 0 then own u else insert (fst (SOCKET_OPEN S u)) (own u))"
    "0 \<le> nRet \<Longrightarrow> m_nSocket t1 = fst (SOCKET_OPEN S u) \<and> 0 \<le> m_nSocket t1 \<and> m_nSocket t1 \<notin> own u"
    using assms(2) law by (auto simp: init_socket_def o Let_def split: prod.splits if_splits)
qed

lemma run_pass_ob:
  assumes "quiet E hu hs" "\<forall>u. tv_normal (fst (gettimeofday E u))" "kept E hu hs ob"
    and oth: "\<forall>u w. ob (fst (others S (u, w))) = ob u \<and> calls w (snd (others S (u, w)))"
    and "reachable E (snd s)" "sock < fd_setsize S"
  shows "\<exists>s' n tv v. (run_pass S E sock s = Some (Inl s') \<or> run_pass S E sock s = Some (Inr s'))
    \<and> reachable E (snd s') \<and> ob v = ob (fst s) \<and> ob (fst s') = ob (snd (os_select S n tv v))"
proof -
  have other: "reachable E w' \<and> ob u' = ob u" if "others S (u, w) = (u', w')" "reachable E w" for u w u' w'
    using oth [rule_format, of u w] that reachable_calls [OF that(2)] by simp
  obtain u1 w1 where o1: "others S s = (u1, w1)" by fastforce
  have s1: "reachable E w1" "ob u1 = ob (fst s)" using other [of "fst s" "snd s"] o1 assms(5) by auto
  have ok: "wheel_ok w1 {}" using reachable_ok [OF s1(1) quiet_calls_back [OF assms(1)]] by blast
  obtain cur v where c: "gettimeofday E u1 = (cur, v)" by fastforce
  have n: "tv_normal cur" "tv_normal (tv_of_msec 300)" "tv_zero \<le> tv_of_msec 300"
    using assms(2) c by (metis fst_conv, simp_all add: tv_normal_le)
  obtain tm u2 where t: "calculate_timeout wheel_virtuals E (Some (tv_of_msec 300)) (Some (tv_set 0 0)) (u1, w1) = Some (Some tm, Some tm, u2)"
    "u2 = (if timers w1 = {#} then u1 else v)"
    using calculate_timeout_value [OF ok c n, of "tv_set 0 0"] by blast
  have s2: "ob u2 = ob (fst s)" using t(2) s1(2) c assms(3) by (metis kept_def snd_conv)
  obtain u3 w3 r u4 u5 w5 where o2: "others S (u2, w1) = (u3, w3)" "os_select S (sock + 1) (tv_sec tm, tv_usec tm) u3 = (r, u4)"
    "others S (u4, w3) = (u5, w5)" by fastforce
  have s5: "ob u3 = ob (fst s)" "reachable E w5" "ob u5 = ob u4"
    using other [OF o2(1) s1(1)] other [OF o2(3)] s2 by simp_all
  obtain k u6 w6 where x: "expire wheel_virtuals E (u5, w5) = Some (k, u6, w6)" "reachable E w6" "ob u6 = ob u5"
    using expire_returns [OF assms(1) s5(2) assms(2,3)] by blast
  let ?s = "if r < 0 then (u5, w5) else (u6, w6)"
  have "run_pass S E sock s = Some (Inl ?s) \<or> run_pass S E sock s = Some (Inr ?s)"
    using assms(6) x by (simp add: run_pass_def o1 t(1) o2)
  moreover have "reachable E (snd ?s)" "ob (fst ?s) = ob (snd (os_select S (sock + 1) (tv_sec tm, tv_usec tm) u3))"
    using s5 x o2(2) by simp_all
  ultimately show ?thesis using s5(1) by blast
qed

lemma run_pass_returns:
  assumes "os_ok S E hu hs own" "quiet E hu hs" "reachable E (snd s)" "sock < fd_setsize S"
  shows "\<exists>s'. (run_pass S E sock s = Some (Inl s') \<or> run_pass S E sock s = Some (Inr s'))
    \<and> reachable E (snd s') \<and> own (fst s') = own (fst s)"
proof -
  have "\<forall>u w. own (fst (others S (u, w))) = own u \<and> calls w (snd (others S (u, w)))"
    "\<forall>n tv u. own (snd (os_select S n tv u)) = own u"
    using assms(1) by (simp_all add: os_ok_def)
  then show ?thesis using run_pass_ob [OF assms(2) os_okD(8,9) [OF assms(1)] _ assms(3,4)] by metis
qed

definition run_next :: "'u os \<Rightarrow> ('u, TimerWheel) env \<Rightarrow> int \<Rightarrow> 'u \<times> TimerWheel \<Rightarrow> 'u \<times> TimerWheel" where
  "run_next S E sock s = (case run_pass S E sock s of Some (Inr s') \<Rightarrow> s' | _ \<Rightarrow> s)"

definition goes_on :: "'u os \<Rightarrow> ('u, TimerWheel) env \<Rightarrow> int \<Rightarrow> 'u \<times> TimerWheel \<Rightarrow> bool" where
  "goes_on S E sock s \<longleftrightarrow> m_bRunning S (fst s) \<and> run_pass S E sock s = Some (Inr (run_next S E sock s))"

lemma run_loop_now:
  assumes "os_ok S E hu hs own" "quiet E hu hs" "reachable E (snd s)" "sock < fd_setsize S" "\<not> goes_on S E sock s"
  shows "\<exists>s'. run_loop S E sock s = Some s' \<and> reachable E (snd s') \<and> own (fst s') = own (fst s)"
  using run_pass_returns [OF assms(1-4)] assms(3,5)
  by (cases s; subst run_loop.simps) (auto simp: goes_on_def run_next_def)

lemma run_loop_returns:
  assumes "os_ok S E hu hs own" "quiet E hu hs" "reachable E (snd s)" "sock < fd_setsize S"
    and "\<not> goes_on S E sock ((run_next S E sock ^^ n) s)"
  shows "\<exists>s'. run_loop S E sock s = Some s' \<and> reachable E (snd s') \<and> own (fst s') = own (fst s)"
  using assms(3,5)
proof (induction n arbitrary: s)
  case 0
  then show ?case using run_loop_now [OF assms(1,2) 0(1) assms(4)] by simp
next
  case (Suc n)
  show ?case
  proof (cases "goes_on S E sock s")
    case True
    then obtain s' where g: "run_pass S E sock s = Some (Inr s')" "run_next S E sock s = s'" "m_bRunning S (fst s)"
      "reachable E (snd s')" "own (fst s') = own (fst s)"
      using run_pass_returns [OF assms(1,2) Suc.prems(1) assms(4)] by (auto simp: goes_on_def run_next_def)
    then show ?thesis
      using Suc.IH [OF g(4)] Suc.prems(2) by (subst run_loop.simps) (simp add: funpow_swap1)
  qed (rule run_loop_now [OF assms(1,2) Suc.prems(1) assms(4)])
qed

lemma run_loop_stops:
  assumes "run_loop S E sock s = Some r"
  shows "\<exists>n. \<not> goes_on S E sock ((run_next S E sock ^^ n) s)"
proof (rule run_loop.raw_induct [OF _ assms, where P = "\<lambda>S E sock s r. \<exists>n. \<not> goes_on S E sock ((run_next S E sock ^^ n) s)"], goal_cases)
  case (1 loop S E sock s r)
  show ?case
  proof (cases "goes_on S E sock s")
    case True
    then have "loop S E sock (run_next S E sock s) = Some r" using 1(2) by (auto simp: goes_on_def)
    from 1(1) [OF this] obtain n where "\<not> goes_on S E sock ((run_next S E sock ^^ n) (run_next S E sock s))" by blast
    then have "\<not> goes_on S E sock ((run_next S E sock ^^ Suc n) s)" by (simp only: funpow_Suc_right o_apply not_False_eq_True)
    then show ?thesis by blast
  qed (auto intro: exI [of _ 0])
qed

lemma run_loop_unfit:
  assumes "fd_setsize S \<le> sock"
  shows "run_loop S E sock s = (if m_bRunning S (fst s) then None else Some s)"
proof -
  have "run_pass S E sock s = None" using assms by (auto simp: run_pass_def split: prod.splits bind_splits)
  then show ?thesis by (subst run_loop.simps) simp
qed

lemma run_next_keeps:
  assumes "os_ok S E hu hs own" "quiet E hu hs" "reachable E (snd s)" "sock < fd_setsize S"
  shows "reachable E (snd ((run_next S E sock ^^ n) s))"
proof (induction n)
  case (Suc n)
  then show ?case using run_pass_returns [OF assms(1,2) Suc assms(4)] by (auto simp: run_next_def)
qed (use assms(3) in simp)

text \<open>
  C12. The timer thread, with tasks that return and do not call the queue, while other threads schedule and cancel timers. A
  call of \<^verbatim>\<open>run\<close> returns, or its socket does not fit into the \<^verbatim>\<open>fd_set\<close>, or it goes on for ever, always seeing
  \<^verbatim>\<open>m_bRunning\<close> set and a wheel that a program can reach. When it returns, the wheel is one that a program can
  reach, and the thread has open what it had open before, whether \<^verbatim>\<open>init_socket\<close> failed or not: it has closed its socket, unless
  that is descriptor 0.
\<close>

theorem Timer_run_safe:
  assumes "os_ok S E hu hs own" "quiet E hu hs" "m_pTimerQueue t = Some w" "reachable E w"
    and "init_socket S None 0 (u, t) = (nRet, nPort, u1, t1)" "SOCKET_OPEN S u = (sock, v)"
  shows "case Timer_run S E (u, t) of
      Some (u', t') \<Rightarrow>
        own u' = (if 0 \<le> nRet \<and> sock = 0 then insert 0 (own u) else own u)
        \<and> (\<exists>w'. m_pTimerQueue t' = Some w' \<and> reachable E w' \<and> wheel_ok w' {})
    | None \<Rightarrow> fd_setsize S \<le> sock \<or>
        (\<exists>f. f 0 = (u1, w) \<and> (\<forall>i. m_bRunning S (fst (f i)) \<and> reachable E (snd (f i)) \<and> run_pass S E sock (f i) = Some (Inr (f (Suc i)))))"
proof -
  have cb: "calls_back calls E" by (rule quiet_calls_back [OF assms(2)])
  note i = init_socket_own [OF assms(1,5)]
  show ?thesis
  proof (cases "nRet < 0")
    case True
    then have "Timer_run S E (u, t) = Some (u1, t1)" using assms(3,5) by (simp add: Timer_run_def)
    then show ?thesis using True i(1,2) assms(3,4) reachable_ok [OF assms(4) cb] by auto
  next
    case False
    then have s: "m_nSocket t1 = sock" "0 \<le> sock" "sock \<notin> own u" using i(3) assms(6) by auto
    show ?thesis
    proof (cases "sock < fd_setsize S \<and> (\<exists>n. \<not> goes_on S E sock ((run_next S E sock ^^ n) (u1, w)))")
      case False2: False
      show ?thesis
      proof (cases "sock < fd_setsize S")
        case True
        let ?f = "\<lambda>n. (run_next S E sock ^^ n) (u1, w)"
        have "goes_on S E sock (?f n)" for n using False2 True by blast
        then have "run_loop S E sock (u1, w) = None" "m_bRunning S (fst (?f n))" "run_pass S E sock (?f n) = Some (Inr (?f (Suc n)))" for n
          using run_loop_stops [of S E sock "(u1, w)"] by (cases "run_loop S E sock (u1, w)", auto simp: goes_on_def)
        moreover have "reachable E (snd (?f n))" for n by (rule run_next_keeps [OF assms(1,2) _ True]) (use assms(4) in simp)
        ultimately show ?thesis
          using False s assms(3,5) by (auto simp: Timer_run_def Let_def intro!: exI [of _ ?f])
      qed (use False s i(2) assms(3,4,5,6) reachable_ok [OF assms(4) cb] os_okD(2) [OF assms(1)] in
        \<open>auto simp: Timer_run_def Let_def run_loop_unfit\<close>)
    next
      case True
      then obtain n where "sock < fd_setsize S" "\<not> goes_on S E sock ((run_next S E sock ^^ n) (u1, w))" by auto
      with run_loop_returns [OF assms(1,2) _ this] assms(4) obtain u2 w2 where
        r: "run_loop S E sock (u1, w) = Some (u2, w2)" "reachable E w2" "own u2 = own u1" by auto
      then show ?thesis
        using False s i(2) assms(3,5,6) reachable_ok [OF r(2) cb] os_okD(2) [OF assms(1)]
        by (auto simp: Timer_run_def Let_def)
    qed
  qed
qed

text \<open>
  A program for which the hypotheses hold: a table of open descriptors and a number of passes after which another thread resets
  \<^verbatim>\<open>m_bRunning\<close>; another thread cancels a timer whenever it can.
\<close>

definition thread_env :: "(nat list \<times> nat, TimerWheel) env" where
  "thread_env =
     \<lparr>gettimeofday = (\<lambda>u. (TimeValue 1 4000, u)), handle_timeout = (\<lambda>_ _ _ _ _ s. Some s),
      is_stop_repeated = (\<lambda>_ _. False), handle_repeated_timer_stoped = (\<lambda>_ s. Some s)\<rparr>"

definition thread_os :: "(nat list \<times> nat) os" where
  "thread_os =
     \<lparr>SOCKET_OPEN = (\<lambda>(fds, n). let s = Suc (sum_list fds) in (int s, s # fds, n)),
      SOCKET_UNBLOCK = (\<lambda>_ u. (0, u)), SOCKET_BIND = (\<lambda>_ _ u. (0, u)), getsockname = (\<lambda>_ a u. (a, u)),
      close = (\<lambda>s (fds, n). (filter (\<lambda>k. int k \<noteq> s) fds, n)), os_select = (\<lambda>_ _ (fds, n). (0, fds, n - 1)),
      inet_addr = (\<lambda>_. 0), m_bRunning = (\<lambda>(fds, n). n > 0), fd_setsize = 1024,
      others = (\<lambda>(u, w). case cancel_timer 0 w of None \<Rightarrow> (u, w) | Some (_, _, w') \<Rightarrow> (u, w'))\<rparr>"

lemma thread_quiet: "quiet thread_env (\<lambda>_ _ _ _ _ u. u) (\<lambda>_ u. u)"
  by (simp add: quiet_def thread_env_def)

lemma thread_kept: "kept thread_env (\<lambda>_ _ _ _ _ u. u) (\<lambda>_ u. u) ob"
  by (simp add: kept_def thread_env_def)

lemma thread_normal: "\<forall>u. tv_normal (fst (gettimeofday thread_env u))"
  by (simp add: thread_env_def tv_normal_pair)

lemma thread_os_ok: "os_ok thread_os thread_env (\<lambda>_ _ _ _ _ u. u) (\<lambda>_ u. u) (\<lambda>u. int ` set (fst u))"
proof -
  have "1 + int (sum_list xs) \<noteq> int x" if "x \<in> set xs" for x and xs :: "nat list"
    using member_le_sum_list [OF that] by simp
  moreover have "calls w w'" if "cancel_timer 0 w = Some (r, a, w')" for w r a w'
    by (rule calls_cancel [OF calls_none that])
  ultimately show ?thesis
    using thread_kept thread_normal
    by (auto simp: os_ok_def thread_os_def Let_def calls_none split: option.splits)
qed

lemma thread_pass:
  assumes "run_pass thread_os thread_env sock s = Some (Inr s')" "reachable thread_env (snd s)" "m_bRunning thread_os (fst s)"
  shows "snd (fst s') < snd (fst s)"
proof -
  have o: "\<forall>u w. fst (others thread_os (u, w)) = u \<and> calls w (snd (others thread_os (u, w)))"
    by (auto simp: thread_os_def calls_none intro: calls_cancel [OF calls_none] split: option.splits)
  have "sock < fd_setsize thread_os"
    using assms(1) by (cases "sock < fd_setsize thread_os") (auto simp: run_pass_def split: prod.splits bind_splits)
  from run_pass_ob [OF thread_quiet thread_normal thread_kept [of "\<lambda>u. u"] o assms(2) this] assms(1)
  obtain n tv where "fst s' = snd (os_select thread_os n tv (fst s))" by auto
  then show ?thesis using assms(3) by (auto simp: thread_os_def split_beta)
qed

theorem Timer_run_safe_witness:
  "\<exists>w0 k w u' t'. demo_wheel = Some w0
     \<and> schedule_i (TimeValue 1 0) 5 7 9 (TimeValue 0 3000) (TimeValue 0 2000) w0 = Some (k, w)
     \<and> Timer_run thread_os thread_env (([], 2), Timer_new False 0 (Some w)) = Some (u', t') \<and> fst u' = []"
proof (rule demo_one [of thread_env])
  fix w0 k w assume w: "demo_wheel = Some w0" "reachable thread_env w"
    "schedule_i (TimeValue 1 0) 5 7 9 (TimeValue 0 3000) (TimeValue 0 2000) w0 = Some (k, w)"
  let ?t = "Timer_new False 0 (Some w)"
  have q: "m_pTimerQueue ?t = Some w" by (simp add: Timer_new_def Timer_open_def)
  have i: "init_socket thread_os None 0 (([], 2), ?t) = (0, htons (htons 0), ([1], 2), ?t\<lparr>m_nSocket := 1\<rparr>)"
    "SOCKET_OPEN thread_os ([], 2) = (1, [1], 2)"
    by (simp_all add: init_socket_def thread_os_def)
  have False if f: "\<forall>i. m_bRunning thread_os (fst (f i)) \<and> reachable thread_env (snd (f i))
      \<and> run_pass thread_os thread_env 1 (f i) = Some (Inr (f (Suc i)))" for f
  proof -
    have d: "snd (fst (f (Suc i))) < snd (fst (f i))" for i using thread_pass f by blast
    have "snd (fst (f i)) + i \<le> snd (fst (f 0))" for i
    proof (induction i)
      case (Suc i)
      then show ?case using d [of i] by linarith
    qed simp
    from this [of "Suc (snd (fst (f 0)))"] show False by simp
  qed
  then obtain u' t' where "Timer_run thread_os thread_env (([], 2), ?t) = Some (u', t')" "int ` set (fst u') = {}"
    using Timer_run_safe [OF thread_os_ok thread_quiet q w(2) i]
    by (cases "Timer_run thread_os thread_env (([], 2), ?t)") (auto simp: thread_os_def)
  then show ?thesis using w by blast
qed

end
