(* ===== verification/Net_Addr.thy ===== *)
theory Net_Addr
  imports Prelude
begin

section \<open>Network addresses (util/netbase: CNetAddr)\<close>

text \<open>
  An address is an array of 16 bytes in network order; an IPv4 address is mapped into the range
  \<open>::ffff:0:0/96\<close>, a Tor address into the range of OnionCat. The theory holds its construction, classification,
  comparison, groups and reachability, and the two theorems that read the tests on bytes as prefixes of bits.
\<close>

subsection \<open>Networks\<close>

datatype Network = NET_UNROUTABLE | NET_IPV4 | NET_IPV6 | NET_TOR

fun network_num :: "Network \<Rightarrow> nat" where
  "network_num NET_UNROUTABLE = 0"
| "network_num NET_IPV4 = 1"
| "network_num NET_IPV6 = 2"
| "network_num NET_TOR = 3"

definition NET_MAX :: nat where "NET_MAX = 4"

text \<open>\<^verbatim>\<open>boost::to_lower\<close> in the C locale.\<close>

definition to_lower :: "char \<Rightarrow> char" where
  "to_lower c = (let n = of_char c :: nat in if 65 \<le> n \<and> n \<le> 90 then char_of (n + 32) else c)"

definition ParseNetwork :: "string \<Rightarrow> Network" where
  "ParseNetwork net =
     (let net = map to_lower net
      in if net = ''ipv4'' then NET_IPV4
         else if net = ''ipv6'' then NET_IPV6
         else if net = ''tor'' \<or> net = ''onion'' then NET_TOR
         else NET_UNROUTABLE)"

definition GetNetworkName :: "Network \<Rightarrow> string" where
  "GetNetworkName net =
     (case net of
        NET_IPV4 \<Rightarrow> ''ipv4''
      | NET_IPV6 \<Rightarrow> ''ipv6''
      | NET_TOR \<Rightarrow> ''onion''
      | _ \<Rightarrow> '''')"

subsection \<open>Addresses\<close>

record CNetAddr =
  ip :: "byte list"

definition pchIPv4 :: "byte list" where
  "pchIPv4 = [0, 0, 0, 0, 0, 0, 0, 0, 0, 0, 0xff, 0xff]"

definition pchOnionCat :: "byte list" where
  "pchOnionCat = [0xFD, 0x87, 0xD8, 0x7E, 0xEB, 0x43]"

definition net_Init :: CNetAddr where
  "net_Init = \<lparr>ip = replicate 16 0\<rparr>"

definition SetIP :: "CNetAddr \<Rightarrow> 'a CNetAddr_scheme \<Rightarrow> 'a CNetAddr_scheme" where
  "SetIP ipIn a = a\<lparr>ip := ip ipIn\<rparr>"

text \<open>\<open>None\<close> is the failed assertion; \<^verbatim>\<open>memcpy\<close> reads the first bytes of its source.\<close>

definition SetRaw :: "Network \<Rightarrow> byte list \<Rightarrow> 'a CNetAddr_scheme \<Rightarrow> 'a CNetAddr_scheme option" where
  "SetRaw network ip_in a =
     (case network of
        NET_IPV4 \<Rightarrow> Some (a\<lparr>ip := take 12 pchIPv4 @ take 4 ip_in\<rparr>)
      | NET_IPV6 \<Rightarrow> Some (a\<lparr>ip := take 16 ip_in\<rparr>)
      | _ \<Rightarrow> None)"

definition CNetAddr_in_addr :: "byte list \<Rightarrow> CNetAddr option" where
  "CNetAddr_in_addr ipv4Addr = SetRaw NET_IPV4 ipv4Addr net_Init"

definition CNetAddr_in6_addr :: "byte list \<Rightarrow> CNetAddr option" where
  "CNetAddr_in6_addr ipv6Addr = SetRaw NET_IPV6 ipv6Addr net_Init"

definition GetByte :: "'a CNetAddr_scheme \<Rightarrow> nat \<Rightarrow> u32" where
  "GetByte a n = ucast (ip a ! (15 - n))"

subsection \<open>Classification\<close>

definition IsIPv4 :: "'a CNetAddr_scheme \<Rightarrow> bool" where
  "IsIPv4 a \<longleftrightarrow> take 12 (ip a) = pchIPv4"

definition IsTor :: "'a CNetAddr_scheme \<Rightarrow> bool" where
  "IsTor a \<longleftrightarrow> take 6 (ip a) = pchOnionCat"

definition IsIPv6 :: "'a CNetAddr_scheme \<Rightarrow> bool" where
  "IsIPv6 a \<longleftrightarrow> \<not> IsIPv4 a \<and> \<not> IsTor a"

definition IsRFC1918 :: "'a CNetAddr_scheme \<Rightarrow> bool" where
  "IsRFC1918 a \<longleftrightarrow> IsIPv4 a \<and>
     (GetByte a 3 = 10 \<or>
      (GetByte a 3 = 192 \<and> GetByte a 2 = 168) \<or>
      (GetByte a 3 = 172 \<and> (GetByte a 2 \<ge> 16 \<and> GetByte a 2 \<le> 31)))"

definition IsRFC2544 :: "'a CNetAddr_scheme \<Rightarrow> bool" where
  "IsRFC2544 a \<longleftrightarrow> IsIPv4 a \<and> GetByte a 3 = 198 \<and> (GetByte a 2 = 18 \<or> GetByte a 2 = 19)"

definition IsRFC3927 :: "'a CNetAddr_scheme \<Rightarrow> bool" where
  "IsRFC3927 a \<longleftrightarrow> IsIPv4 a \<and> (GetByte a 3 = 169 \<and> GetByte a 2 = 254)"

definition IsRFC6598 :: "'a CNetAddr_scheme \<Rightarrow> bool" where
  "IsRFC6598 a \<longleftrightarrow> IsIPv4 a \<and> GetByte a 3 = 100 \<and> GetByte a 2 \<ge> 64 \<and> GetByte a 2 \<le> 127"

definition IsRFC5737 :: "'a CNetAddr_scheme \<Rightarrow> bool" where
  "IsRFC5737 a \<longleftrightarrow> IsIPv4 a \<and>
     ((GetByte a 3 = 192 \<and> GetByte a 2 = 0 \<and> GetByte a 1 = 2) \<or>
      (GetByte a 3 = 198 \<and> GetByte a 2 = 51 \<and> GetByte a 1 = 100) \<or>
      (GetByte a 3 = 203 \<and> GetByte a 2 = 0 \<and> GetByte a 1 = 113))"

definition IsRFC3849 :: "'a CNetAddr_scheme \<Rightarrow> bool" where
  "IsRFC3849 a \<longleftrightarrow> GetByte a 15 = 0x20 \<and> GetByte a 14 = 0x01 \<and> GetByte a 13 = 0x0D \<and> GetByte a 12 = 0xB8"

definition IsRFC3964 :: "'a CNetAddr_scheme \<Rightarrow> bool" where
  "IsRFC3964 a \<longleftrightarrow> GetByte a 15 = 0x20 \<and> GetByte a 14 = 0x02"

definition IsRFC6052 :: "'a CNetAddr_scheme \<Rightarrow> bool" where
  "IsRFC6052 a \<longleftrightarrow> take 12 (ip a) = [0, 0x64, 0xFF, 0x9B, 0, 0, 0, 0, 0, 0, 0, 0]"

definition IsRFC4380 :: "'a CNetAddr_scheme \<Rightarrow> bool" where
  "IsRFC4380 a \<longleftrightarrow> GetByte a 15 = 0x20 \<and> GetByte a 14 = 0x01 \<and> GetByte a 13 = 0 \<and> GetByte a 12 = 0"

definition IsRFC4862 :: "'a CNetAddr_scheme \<Rightarrow> bool" where
  "IsRFC4862 a \<longleftrightarrow> take 8 (ip a) = [0xFE, 0x80, 0, 0, 0, 0, 0, 0]"

definition IsRFC4193 :: "'a CNetAddr_scheme \<Rightarrow> bool" where
  "IsRFC4193 a \<longleftrightarrow> GetByte a 15 AND 0xFE = 0xFC"

definition IsRFC6145 :: "'a CNetAddr_scheme \<Rightarrow> bool" where
  "IsRFC6145 a \<longleftrightarrow> take 12 (ip a) = [0, 0, 0, 0, 0, 0, 0, 0, 0xFF, 0xFF, 0, 0]"

definition IsRFC4843 :: "'a CNetAddr_scheme \<Rightarrow> bool" where
  "IsRFC4843 a \<longleftrightarrow> GetByte a 15 = 0x20 \<and> GetByte a 14 = 0x01 \<and> GetByte a 13 = 0x00 \<and> GetByte a 12 AND 0xF0 = 0x10"

definition IsLocal :: "'a CNetAddr_scheme \<Rightarrow> bool" where
  "IsLocal a \<longleftrightarrow>
     (if IsIPv4 a \<and> (GetByte a 3 = 127 \<or> GetByte a 3 = 0) then True
      else if take 16 (ip a) = [0, 0, 0, 0, 0, 0, 0, 0, 0, 0, 0, 0, 0, 0, 0, 1] then True
      else False)"

definition IsMulticast :: "'a CNetAddr_scheme \<Rightarrow> bool" where
  "IsMulticast a \<longleftrightarrow> IsIPv4 a \<and> GetByte a 3 AND 0xF0 = 0xE0 \<or> GetByte a 15 = 0xFF"

definition IsValid :: "'a CNetAddr_scheme \<Rightarrow> bool" where
  "IsValid a \<longleftrightarrow>
     (if take 9 (ip a) = drop 3 pchIPv4 then False
      else if take 16 (ip a) = replicate 16 0 then False
      else if IsRFC3849 a then False
      else if IsIPv4 a
      then (if take 4 (drop 12 (ip a)) = replicate 4 0xFF then False
            else if take 4 (drop 12 (ip a)) = replicate 4 0 then False
            else True)
      else True)"

definition IsRoutable :: "'a CNetAddr_scheme \<Rightarrow> bool" where
  "IsRoutable a \<longleftrightarrow> IsValid a \<and>
     \<not> (IsRFC1918 a \<or> IsRFC2544 a \<or> IsRFC3927 a \<or> IsRFC4862 a \<or> IsRFC6598 a \<or> IsRFC5737 a
        \<or> (IsRFC4193 a \<and> \<not> IsTor a) \<or> IsRFC4843 a \<or> IsLocal a)"

definition GetNetwork :: "'a CNetAddr_scheme \<Rightarrow> Network" where
  "GetNetwork a =
     (if \<not> IsRoutable a then NET_UNROUTABLE
      else if IsIPv4 a then NET_IPV4
      else if IsTor a then NET_TOR
      else NET_IPV6)"

subsection \<open>Comparison and conversion\<close>

text \<open>\<^verbatim>\<open>memcmp\<close> on two arrays of the same length: the sign of the first difference.\<close>

fun memcmp :: "byte list \<Rightarrow> byte list \<Rightarrow> int" where
  "memcmp (x # xs) (y # ys) = (if x < y then -1 else if y < x then 1 else memcmp xs ys)"
| "memcmp _ _ = 0"

definition net_eq :: "'a CNetAddr_scheme \<Rightarrow> 'b CNetAddr_scheme \<Rightarrow> bool" where
  "net_eq a b \<longleftrightarrow> memcmp (take 16 (ip a)) (take 16 (ip b)) = 0"

definition net_ne :: "'a CNetAddr_scheme \<Rightarrow> 'b CNetAddr_scheme \<Rightarrow> bool" where
  "net_ne a b \<longleftrightarrow> memcmp (take 16 (ip a)) (take 16 (ip b)) \<noteq> 0"

definition net_lt :: "'a CNetAddr_scheme \<Rightarrow> 'b CNetAddr_scheme \<Rightarrow> bool" where
  "net_lt a b \<longleftrightarrow> memcmp (take 16 (ip a)) (take 16 (ip b)) < 0"

definition GetInAddr :: "'a CNetAddr_scheme \<Rightarrow> byte list option" where
  "GetInAddr a = (if \<not> IsIPv4 a then None else Some (take 4 (drop 12 (ip a))))"

definition GetIn6Addr :: "'a CNetAddr_scheme \<Rightarrow> byte list option" where
  "GetIn6Addr a = Some (take 16 (ip a))"

subsection \<open>Groups and reachability\<close>

function group_loop :: "'a CNetAddr_scheme \<Rightarrow> nat \<Rightarrow> nat \<Rightarrow> byte list" where
  "group_loop a nStartByte nBits =
     (if nBits \<ge> 8 then ucast (GetByte a (15 - nStartByte)) # group_loop a (nStartByte + 1) (nBits - 8)
      else if nBits > 0 then [ucast (GetByte a (15 - nStartByte) OR (push_bit (8 - nBits) 1 - 1))]
      else [])"
  by pat_completeness auto
termination
  by (relation "measure (\<lambda>(_, _, n). n)") auto

declare group_loop.simps [simp del]

definition GetGroup :: "'a CNetAddr_scheme \<Rightarrow> byte list" where
  "GetGroup a =
     (let (nClass, nStartByte, nBits) = (2 :: nat, 0 :: nat, 16 :: nat);
          (nClass, nBits) = (if IsLocal a then (255, 0) else (nClass, nBits))
      in if \<not> IsRoutable a then word_of_nat (network_num NET_UNROUTABLE) # group_loop a nStartByte 0
         else if IsIPv4 a \<or> IsRFC6145 a \<or> IsRFC6052 a
         then word_of_nat (network_num NET_IPV4) # group_loop a 12 nBits
         else if IsRFC3964 a then word_of_nat (network_num NET_IPV4) # group_loop a 2 nBits
         else if IsRFC4380 a
         then [word_of_nat (network_num NET_IPV4), ucast (GetByte a 3 XOR 0xFF), ucast (GetByte a 2 XOR 0xFF)]
         else if IsTor a then word_of_nat (network_num NET_TOR) # group_loop a 6 4
         else if GetByte a 15 = 0x20 \<and> GetByte a 14 = 0x01 \<and> GetByte a 13 = 0x04 \<and> GetByte a 12 = 0x70
         then word_of_nat nClass # group_loop a nStartByte 36
         else word_of_nat nClass # group_loop a nStartByte 32)"

datatype ExtNetwork = Ext Network | NET_UNKNOWN | NET_TEREDO

datatype Reachability =
  REACH_UNREACHABLE | REACH_DEFAULT | REACH_TEREDO | REACH_IPV6_WEAK | REACH_IPV4 | REACH_IPV6_STRONG | REACH_PRIVATE

definition GetExtNetwork :: "'a CNetAddr_scheme option \<Rightarrow> ExtNetwork" where
  "GetExtNetwork addr =
     (case addr of
        None \<Rightarrow> NET_UNKNOWN
      | Some a \<Rightarrow> if IsRFC4380 a then NET_TEREDO else Ext (GetNetwork a))"

definition GetReachabilityFrom :: "'a CNetAddr_scheme option \<Rightarrow> 'b CNetAddr_scheme \<Rightarrow> Reachability" where
  "GetReachabilityFrom paddrPartner a =
     (if \<not> IsRoutable a then REACH_UNREACHABLE
      else
        let ourNet = GetExtNetwork (Some a);
            theirNet = GetExtNetwork paddrPartner;
            fTunnel = IsRFC3964 a \<or> IsRFC6052 a \<or> IsRFC6145 a
        in case theirNet of
             Ext NET_IPV4 \<Rightarrow> (case ourNet of Ext NET_IPV4 \<Rightarrow> REACH_IPV4 | _ \<Rightarrow> REACH_DEFAULT)
           | Ext NET_IPV6 \<Rightarrow>
               (case ourNet of
                  NET_TEREDO \<Rightarrow> REACH_TEREDO
                | Ext NET_IPV4 \<Rightarrow> REACH_IPV4
                | Ext NET_IPV6 \<Rightarrow> if fTunnel then REACH_IPV6_WEAK else REACH_IPV6_STRONG
                | _ \<Rightarrow> REACH_DEFAULT)
           | Ext NET_TOR \<Rightarrow>
               (case ourNet of Ext NET_IPV4 \<Rightarrow> REACH_IPV4 | Ext NET_TOR \<Rightarrow> REACH_PRIVATE | _ \<Rightarrow> REACH_DEFAULT)
           | NET_TEREDO \<Rightarrow>
               (case ourNet of
                  NET_TEREDO \<Rightarrow> REACH_TEREDO
                | Ext NET_IPV6 \<Rightarrow> REACH_IPV6_WEAK
                | Ext NET_IPV4 \<Rightarrow> REACH_IPV4
                | _ \<Rightarrow> REACH_DEFAULT)
           | _ \<Rightarrow>
               (case ourNet of
                  NET_TEREDO \<Rightarrow> REACH_TEREDO
                | Ext NET_IPV6 \<Rightarrow> REACH_IPV6_WEAK
                | Ext NET_IPV4 \<Rightarrow> REACH_IPV4
                | Ext NET_TOR \<Rightarrow> REACH_PRIVATE
                | _ \<Rightarrow> REACH_DEFAULT))"

subsection \<open>Prefixes\<close>

text \<open>
  Bit \<open>i\<close> of an address counts from the most significant bit of the first byte. Two addresses share a
  \<open>prefix\<close> of \<open>n\<close> bits when their first \<open>n\<close> bits agree.
\<close>

definition net_wf :: "'a CNetAddr_scheme \<Rightarrow> bool" where
  "net_wf a \<longleftrightarrow> length (ip a) = 16"

definition addr_bit :: "byte list \<Rightarrow> nat \<Rightarrow> bool" where
  "addr_bit bs i = bit (bs ! (i div 8)) (7 - i mod 8)"

definition same_prefix :: "nat \<Rightarrow> byte list \<Rightarrow> byte list \<Rightarrow> bool" where
  "same_prefix n xs ys \<longleftrightarrow> (\<forall>i < n. addr_bit xs i = addr_bit ys i)"

lemma byte_prefix:
  fixes x y :: byte
  assumes "k \<le> 8"
  shows "(\<forall>j < k. bit x (7 - j) = bit y (7 - j)) \<longleftrightarrow> drop_bit (8 - k) x = drop_bit (8 - k) y"
proof
  assume b: "\<forall>j < k. bit x (7 - j) = bit y (7 - j)"
  show "drop_bit (8 - k) x = drop_bit (8 - k) y"
  proof (rule bit_word_eqI)
    fix n assume "n < LENGTH(8)"
    show "bit (drop_bit (8 - k) x) n = bit (drop_bit (8 - k) y) n"
    proof (cases "8 - k + n < 8")
      case True
      then have j: "7 - (8 - k + n) < k" "7 - (7 - (8 - k + n)) = 8 - k + n" using assms by linarith+
      show ?thesis using b [rule_format, OF j(1)] unfolding j(2) by (simp only: bit_drop_bit_eq o_apply)
    qed (auto simp: bit_simps dest: bit_imp_le_length)
  qed
next
  assume d: "drop_bit (8 - k) x = drop_bit (8 - k) y"
  show "\<forall>j < k. bit x (7 - j) = bit y (7 - j)"
  proof (intro allI impI)
    fix j assume j: "j < k"
    then have e: "8 - k + (k - 1 - j) = 7 - j" using assms by simp
    show "bit x (7 - j) = bit y (7 - j)"
      using arg_cong [OF d, of "\<lambda>w. bit w (k - 1 - j)"] by (simp only: bit_drop_bit_eq o_apply e)
  qed
qed

lemma same_prefix_Cons:
  "same_prefix n (x # xs) (y # ys) \<longleftrightarrow>
     (if n \<le> 8 then drop_bit (8 - n) x = drop_bit (8 - n) y else x = y \<and> same_prefix (n - 8) xs ys)"
proof (cases "n \<le> 8")
  case True
  have "same_prefix n (x # xs) (y # ys) \<longleftrightarrow> (\<forall>j < n. bit x (7 - j) = bit y (7 - j))"
    using True by (auto simp: same_prefix_def addr_bit_def)
  then show ?thesis using byte_prefix [OF True, of x y] True by simp
next
  case False
  have hd: "(\<forall>i < 8. addr_bit (x # xs) i = addr_bit (y # ys) i) \<longleftrightarrow> x = y"
    using byte_prefix [of 8 x y] by (simp add: addr_bit_def)
  have tl: "addr_bit (z # zs) (i + 8) = addr_bit zs i" for z zs i
  proof -
    have "(i + 8) div 8 = Suc (i div 8)" by simp
    then show ?thesis by (simp add: addr_bit_def)
  qed
  have split: "(\<forall>i < n. P i) \<longleftrightarrow> (\<forall>i < 8. P i) \<and> (\<forall>i < n - 8. P (i + 8))" for P
  proof (intro iffI conjI allI impI)
    fix i assume P: "(\<forall>i < 8. P i) \<and> (\<forall>i < n - 8. P (i + 8))" and i: "i < n"
    show "P i"
    proof (cases "i < 8")
      case ge: False
      then have "i - 8 < n - 8" "i - 8 + 8 = i" using i by simp_all
      then show ?thesis using P by metis
    qed (use P in simp)
  qed (use False in simp_all)
  have "same_prefix n (x # xs) (y # ys) \<longleftrightarrow> x = y \<and> same_prefix (n - 8) xs ys"
    unfolding same_prefix_def split hd tl ..
  then show ?thesis using False by simp
qed

lemma same_prefix_0 [simp]: "same_prefix 0 xs ys"
  by (simp add: same_prefix_def)

lemma ip_nth:
  assumes "net_wf a"
  obtains b0 b1 b2 b3 b4 b5 b6 b7 b8 b9 b10 b11 b12 b13 b14 b15
  where "ip a = [b0, b1, b2, b3, b4, b5, b6, b7, b8, b9, b10, b11, b12, b13, b14, b15]"
  using assms unfolding net_wf_def
  by (auto simp: length_Suc_conv numeral_eq_Suc)

text \<open>The ranges of one byte that the code tests are its leading bits.\<close>

lemma unat_ucast_byte [simp]: "unat (ucast (x :: byte) :: u32) = unat x"
proof -
  have "unat x < 2 ^ 32" using unat_byte_less [of x] by simp
  then show ?thesis by (simp add: unsigned_ucast_eq take_bit_nat_eq_self)
qed

lemma ucast_byte_eq: "((ucast (x :: byte) :: u32) = ucast y) = (x = y)"
  by (metis unat_ucast_byte word_unat_eq_iff)

lemma drop_byte_eq: "(drop_bit k (x :: byte) = y) = (unat x div 2 ^ k = unat y)"
proof -
  have "unat (drop_bit k x) = unat x div 2 ^ k"
    using unat_byte_less [of x]
    by (simp add: unsigned_drop_bit_eq) (simp add: drop_bit_eq_div take_bit_nat_eq_self)
  then show ?thesis by (simp only: word_unat_eq_iff)
qed

lemma byte_ranges:
  fixes x :: byte
  shows "(16 \<le> (ucast x :: u32) \<and> (ucast x :: u32) \<le> 31) = (drop_bit 4 x = 1)"
    and "(x = 18 \<or> x = 19) = (drop_bit 1 x = 9)"
    and "(64 \<le> (ucast x :: u32) \<and> (ucast x :: u32) \<le> 127) = (drop_bit 6 x = 1)"
  using unat_byte_less [of x]
  unfolding drop_byte_eq by (auto simp: word_le_nat_alt word_unat_eq_iff)

lemma byte_and_high: "((x :: byte) AND NOT (mask k) = push_bit k c) = (drop_bit k x = take_bit (8 - k) c)"
proof
  assume h: "x AND NOT (mask k) = push_bit k c"
  show "drop_bit k x = take_bit (8 - k) c"
  proof (rule bit_word_eqI)
    fix n assume "n < LENGTH(8)"
    show "bit (drop_bit k x) n = bit (take_bit (8 - k) c) n"
    proof (cases "n < 8 - k")
      case True
      then show ?thesis
        using arg_cong [OF h, of "\<lambda>w. bit w (k + n)"] by (simp add: bit_simps less_diff_conv)
    next
      case False
      then show ?thesis by (auto simp: bit_simps dest: bit_imp_le_length)
    qed
  qed
next
  assume h: "drop_bit k x = take_bit (8 - k) c"
  show "x AND NOT (mask k) = push_bit k c"
  proof (rule bit_word_eqI)
    fix n assume n: "n < LENGTH(8)"
    show "bit (x AND NOT (mask k)) n = bit (push_bit k c) n"
    proof (cases "k \<le> n")
      case True
      then show ?thesis
        using arg_cong [OF h, of "\<lambda>w. bit w (n - k)"] n by (auto simp: bit_simps)
    next
      case False
      then show ?thesis by (simp add: bit_simps)
    qed
  qed
qed

lemma ucast_byte_and: "(ucast (x :: byte) :: u32) AND ucast y = ucast (x AND y)"
  by (rule bit_word_eqI) (auto simp: bit_simps)

lemma byte_masks:
  fixes x :: byte
  shows "((ucast x :: u32) AND 0xFE = 0xFC) = (drop_bit 1 x = 0x7E)"
    and "((ucast x :: u32) AND 0xF0 = 0x10) = (drop_bit 4 x = 1)"
    and "((ucast x :: u32) AND 0xF0 = 0xE0) = (drop_bit 4 x = 0xE)"
proof -
  have m: "(- 2 :: byte) = 0xFE" "NOT (mask 4) = (0xF0 :: byte)"
    by (simp_all add: mask_eq_exp_minus_1)
  show "((ucast x :: u32) AND 0xFE = 0xFC) = (drop_bit 1 x = 0x7E)"
    using ucast_byte_and [of x "0xFE"] ucast_byte_eq [of "x AND 0xFE" "0xFC"] byte_and_high [of x 1 "0x7E"] by (simp add: m)
  show "((ucast x :: u32) AND 0xF0 = 0x10) = (drop_bit 4 x = 1)"
    using ucast_byte_and [of x "0xF0"] ucast_byte_eq [of "x AND 0xF0" "0x10"] byte_and_high [of x 4 1] by (simp add: m)
  show "((ucast x :: u32) AND 0xF0 = 0xE0) = (drop_bit 4 x = 0xE)"
    using ucast_byte_and [of x "0xF0"] ucast_byte_eq [of "x AND 0xF0" "0xE0"] byte_and_high [of x 4 "0xE"] by (simp add: m)
qed

lemma ucast_byte_small: "n < 256 \<Longrightarrow> ((ucast (x :: byte) :: u32) = word_of_nat n) = (x = word_of_nat n)"
  by (simp add: word_unat_eq_iff unsigned_of_nat take_bit_nat_eq_self)

lemma ucast_byte_numeral [simp]:
  "((ucast (x :: byte) :: u32) = 0) = (x = 0)" "((ucast (x :: byte) :: u32) = 1) = (x = 1)"
  "numeral k < (256 :: nat) \<Longrightarrow> ((ucast (x :: byte) :: u32) = numeral k) = (x = numeral k)"
  using ucast_byte_small [of 0 x] ucast_byte_small [of 1 x] ucast_byte_small [of "numeral k" x] by simp_all

lemma same_prefix_IPv4:
  assumes "net_wf a" "96 \<le> n"
  shows "same_prefix n (ip a) (pchIPv4 @ bs) \<longleftrightarrow> IsIPv4 a \<and> same_prefix (n - 96) (drop 12 (ip a)) bs"
proof -
  obtain k where k: "n = k + 96" using assms(2) by (metis add.commute le_Suc_ex)
  show ?thesis
    by (rule ip_nth [OF assms(1)]) (cases "k = 0"; simp add: k IsIPv4_def pchIPv4_def same_prefix_Cons)
qed

lemma same_prefix_take:
  assumes "length xs = length ys" "n = 8 * k" "k \<le> length xs"
  shows "same_prefix n xs ys \<longleftrightarrow> take k xs = take k ys"
  using assms
proof (induction xs ys arbitrary: n k rule: list_induct2)
  case (Cons x xs y ys)
  then show ?case by (cases k) (auto simp: same_prefix_Cons)
qed simp

text \<open>
  C25. The tests of the class for reserved ranges, written over single bytes, masks and \<^verbatim>\<open>memcmp\<close>, accept exactly the
  addresses in the prefixes that the header documents (the IPv4 ranges inside \<open>::ffff:0:0/96\<close>), all but \<^verbatim>\<open>IsRFC2544\<close>;
  \<^verbatim>\<open>IsTor\<close> and \<^verbatim>\<open>IsMulticast\<close>, which are not documented there, those of OnionCat and of multicast.
\<close>

theorem reserved_ranges:
  assumes "net_wf a"
  shows "(IsIPv4 a \<longleftrightarrow> same_prefix 96 (ip a) (pchIPv4 @ [0, 0, 0, 0]))
    \<and> (IsRFC1918 a \<longleftrightarrow> same_prefix 104 (ip a) (pchIPv4 @ [10, 0, 0, 0]) \<or> same_prefix 112 (ip a) (pchIPv4 @ [192, 168, 0, 0])
         \<or> same_prefix 108 (ip a) (pchIPv4 @ [172, 16, 0, 0]))
    \<and> (IsRFC3927 a \<longleftrightarrow> same_prefix 112 (ip a) (pchIPv4 @ [169, 254, 0, 0]))
    \<and> (IsRFC6598 a \<longleftrightarrow> same_prefix 106 (ip a) (pchIPv4 @ [100, 64, 0, 0]))
    \<and> (IsRFC5737 a \<longleftrightarrow> same_prefix 120 (ip a) (pchIPv4 @ [192, 0, 2, 0])
         \<or> same_prefix 120 (ip a) (pchIPv4 @ [198, 51, 100, 0]) \<or> same_prefix 120 (ip a) (pchIPv4 @ [203, 0, 113, 0]))
    \<and> (IsRFC3849 a \<longleftrightarrow> same_prefix 32 (ip a) ([0x20, 0x01, 0x0D, 0xB8] @ replicate 12 0))
    \<and> (IsRFC3964 a \<longleftrightarrow> same_prefix 16 (ip a) ([0x20, 0x02] @ replicate 14 0))
    \<and> (IsRFC4193 a \<longleftrightarrow> same_prefix 7 (ip a) (0xFC # replicate 15 0))
    \<and> (IsRFC4380 a \<longleftrightarrow> same_prefix 32 (ip a) ([0x20, 0x01, 0, 0] @ replicate 12 0))
    \<and> (IsRFC4843 a \<longleftrightarrow> same_prefix 28 (ip a) ([0x20, 0x01, 0, 0x10] @ replicate 12 0))
    \<and> (IsRFC4862 a \<longleftrightarrow> same_prefix 64 (ip a) ([0xFE, 0x80] @ replicate 14 0))
    \<and> (IsRFC6052 a \<longleftrightarrow> same_prefix 96 (ip a) ([0, 0x64, 0xFF, 0x9B] @ replicate 12 0))
    \<and> (IsRFC6145 a \<longleftrightarrow> same_prefix 96 (ip a) (replicate 8 0 @ [0xFF, 0xFF] @ replicate 6 0))
    \<and> (IsTor a \<longleftrightarrow> same_prefix 48 (ip a) (pchOnionCat @ replicate 10 0))
    \<and> (IsMulticast a \<longleftrightarrow> same_prefix 100 (ip a) (pchIPv4 @ [0xE0, 0, 0, 0]) \<or> same_prefix 8 (ip a) (0xFF # replicate 15 0))"
proof -
  obtain b0 b1 b2 b3 b4 b5 b6 b7 b8 b9 b10 b11 b12 b13 b14 b15
    where a: "ip a = [b0, b1, b2, b3, b4, b5, b6, b7, b8, b9, b10, b11, b12, b13, b14, b15]"
    by (rule ip_nth [OF assms])
  have low: "drop 12 (ip a) = [b12, b13, b14, b15]" by (simp add: a)
  have zeros: "replicate 6 (0 :: byte) = [0, 0, 0, 0, 0, 0]" "replicate 8 (0 :: byte) = [0, 0, 0, 0, 0, 0, 0, 0]"
    "replicate 10 (0 :: byte) = [0, 0, 0, 0, 0, 0, 0, 0, 0, 0]" "replicate 12 (0 :: byte) = [0, 0, 0, 0, 0, 0, 0, 0, 0, 0, 0, 0]"
    "replicate 14 (0 :: byte) = [0, 0, 0, 0, 0, 0, 0, 0, 0, 0, 0, 0, 0, 0]"
    "replicate 15 (0 :: byte) = [0, 0, 0, 0, 0, 0, 0, 0, 0, 0, 0, 0, 0, 0, 0]"
    by (simp_all add: numeral_eq_Suc)
  have byte: "GetByte a 15 = ucast b0" "GetByte a 14 = ucast b1" "GetByte a 13 = ucast b2" "GetByte a 12 = ucast b3"
    "GetByte a 3 = ucast b12" "GetByte a 2 = ucast b13" "GetByte a (Suc 0) = ucast b14"
    by (simp_all add: GetByte_def a)
  note v4 = same_prefix_IPv4 [OF assms] low
  note more = zeros a pchOnionCat_def
  note test = byte same_prefix_Cons byte_ranges byte_masks
  have "IsIPv4 a \<longleftrightarrow> same_prefix 96 (ip a) (pchIPv4 @ [0, 0, 0, 0])" by (simp add: v4)
  moreover have "IsRFC1918 a \<longleftrightarrow> same_prefix 104 (ip a) (pchIPv4 @ [10, 0, 0, 0])
    \<or> same_prefix 112 (ip a) (pchIPv4 @ [192, 168, 0, 0]) \<or> same_prefix 108 (ip a) (pchIPv4 @ [172, 16, 0, 0])"
    by (simp add: v4 test IsRFC1918_def) blast
  moreover have "IsRFC3927 a \<longleftrightarrow> same_prefix 112 (ip a) (pchIPv4 @ [169, 254, 0, 0])"
    by (simp add: v4 test IsRFC3927_def)
  moreover have "IsRFC6598 a \<longleftrightarrow> same_prefix 106 (ip a) (pchIPv4 @ [100, 64, 0, 0])"
    by (simp add: v4 test IsRFC6598_def)
  moreover have "IsRFC5737 a \<longleftrightarrow> same_prefix 120 (ip a) (pchIPv4 @ [192, 0, 2, 0])
    \<or> same_prefix 120 (ip a) (pchIPv4 @ [198, 51, 100, 0]) \<or> same_prefix 120 (ip a) (pchIPv4 @ [203, 0, 113, 0])"
    by (simp add: v4 test IsRFC5737_def) blast
  moreover have "IsMulticast a \<longleftrightarrow> same_prefix 100 (ip a) (pchIPv4 @ [0xE0, 0, 0, 0]) \<or> same_prefix 8 (ip a) (0xFF # replicate 15 0)"
    by (simp add: v4 test IsMulticast_def) (simp add: a same_prefix_Cons)
  ultimately show ?thesis
    by (intro conjI; (assumption | simp add: test more IsRFC3849_def IsRFC3964_def IsRFC4193_def IsRFC4380_def
      IsRFC4843_def IsRFC4862_def IsRFC6052_def IsRFC6145_def IsTor_def))
qed

theorem reserved_ranges_witness:
  "net_wf \<lparr>ip = pchIPv4 @ [172, 20, 0, 1]\<rparr>
   \<and> (IsRFC1918 \<lparr>ip = pchIPv4 @ [172, 20, 0, 1]\<rparr> \<longleftrightarrow>
        same_prefix 104 (pchIPv4 @ [172, 20, 0, 1]) (pchIPv4 @ [10, 0, 0, 0])
        \<or> same_prefix 112 (pchIPv4 @ [172, 20, 0, 1]) (pchIPv4 @ [192, 168, 0, 0])
        \<or> same_prefix 108 (pchIPv4 @ [172, 20, 0, 1]) (pchIPv4 @ [172, 16, 0, 0]))"
proof -
  have w: "net_wf \<lparr>ip = pchIPv4 @ [172, 20, 0, 1]\<rparr>" by (simp add: net_wf_def pchIPv4_def)
  from reserved_ranges [OF w] w show ?thesis by simp
qed

text \<open>
  \<^verbatim>\<open>IsRFC2544\<close> accepts 198.18.0.0/15, the range of that RFC; the comment in \<^verbatim>\<open>netbase.h\<close> gives 192.18.0.0/15, of which
  it accepts nothing.
\<close>

lemma RFC2544_range:
  assumes "net_wf a"
  shows "IsRFC2544 a \<longleftrightarrow> same_prefix 111 (ip a) (pchIPv4 @ [198, 18, 0, 0])"
    and "same_prefix 111 (ip a) (pchIPv4 @ [192, 18, 0, 0]) \<Longrightarrow> \<not> IsRFC2544 a"
proof -
  obtain b0 b1 b2 b3 b4 b5 b6 b7 b8 b9 b10 b11 b12 b13 b14 b15
    where a: "ip a = [b0, b1, b2, b3, b4, b5, b6, b7, b8, b9, b10, b11, b12, b13, b14, b15]"
    by (rule ip_nth [OF assms])
  have low: "drop 12 (ip a) = [b12, b13, b14, b15]" and byte: "GetByte a 3 = ucast b12" "GetByte a 2 = ucast b13"
    by (simp_all add: GetByte_def a)
  show "IsRFC2544 a \<longleftrightarrow> same_prefix 111 (ip a) (pchIPv4 @ [198, 18, 0, 0])"
    and "same_prefix 111 (ip a) (pchIPv4 @ [192, 18, 0, 0]) \<Longrightarrow> \<not> IsRFC2544 a"
    by (auto simp: same_prefix_IPv4 [OF assms] low byte same_prefix_Cons byte_ranges byte_masks IsRFC2544_def)
qed

subsection \<open>Groups\<close>

text \<open>
  The group of an address stands for its \<open>site\<close>: the class and the leading bits of the address, or of the IPv4
  address inside it. \<open>site_key\<close> says how many bits of which bytes.
\<close>

definition embedded_IPv4 :: "'a CNetAddr_scheme \<Rightarrow> byte list option" where
  "embedded_IPv4 a =
     (if IsIPv4 a \<or> IsRFC6145 a \<or> IsRFC6052 a then Some (drop 12 (ip a))
      else if IsRFC3964 a then Some (drop 2 (ip a))
      else if IsRFC4380 a then Some (map (\<lambda>b. b XOR 0xFF) (drop 12 (ip a)))
      else None)"

definition leading_bits :: "nat \<Rightarrow> byte list \<Rightarrow> bool list" where
  "leading_bits n bs = map (addr_bit bs) [0..<n]"

definition site_key :: "'a CNetAddr_scheme \<Rightarrow> Network \<times> nat \<times> byte list" where
  "site_key a =
     (if \<not> IsRoutable a then (NET_UNROUTABLE, 0, [])
      else case embedded_IPv4 a of
        Some v4 \<Rightarrow> (NET_IPV4, 16, v4)
      | None \<Rightarrow>
          if IsTor a then (NET_TOR, 4, drop 6 (ip a))
          else if same_prefix 32 (ip a) ([0x20, 0x01, 0x04, 0x70] @ replicate 12 0) then (NET_IPV6, 36, ip a)
          else (NET_IPV6, 32, ip a))"

definition site :: "'a CNetAddr_scheme \<Rightarrow> Network \<times> bool list" where
  "site a = (let (c, n, bs) = site_key a in (c, leading_bits n bs))"

lemma leading_bits_eq: "leading_bits n xs = leading_bits m ys \<longleftrightarrow> n = m \<and> same_prefix n xs ys"
proof (cases "n = m")
  case True
  then show ?thesis by (auto simp: leading_bits_def same_prefix_def)
next
  case False
  then have "length (leading_bits n xs) \<noteq> length (leading_bits m ys)" by (simp add: leading_bits_def)
  then show ?thesis using False by metis
qed

fun group_bytes :: "byte list \<Rightarrow> nat \<Rightarrow> byte list" where
  "group_bytes [] n = []"
| "group_bytes (b # bs) n =
     (if n \<ge> 8 then b # group_bytes bs (n - 8) else if n > 0 then [b OR mask (8 - n)] else [])"

lemma group_bytes_0 [simp]: "group_bytes bs 0 = []"
  by (cases bs) simp_all

lemma byte_or_mask:
  fixes x y :: byte
  shows "x OR mask k = y OR mask k \<longleftrightarrow> drop_bit k x = drop_bit k y"
proof
  assume h: "x OR mask k = y OR mask k"
  show "drop_bit k x = drop_bit k y"
    by (rule bit_word_eqI) (use arg_cong [OF h, of "\<lambda>w. bit w (k + n)" for n] in \<open>auto simp: bit_simps dest: bit_imp_le_length\<close>)
next
  assume h: "drop_bit k x = drop_bit k y"
  show "x OR mask k = y OR mask k"
  proof (rule bit_word_eqI)
    fix n assume "n < LENGTH(8)"
    then show "bit (x OR mask k) n = bit (y OR mask k) n"
      using arg_cong [OF h, of "\<lambda>w. bit w (n - k)"] by (cases "n < k") (simp_all add: bit_simps)
  qed
qed

lemma group_bytes_eq:
  assumes "n \<le> 8 * length xs" "n \<le> 8 * length ys"
  shows "group_bytes xs n = group_bytes ys n \<longleftrightarrow> same_prefix n xs ys"
  using assms
proof (induction xs arbitrary: ys n)
  case (Cons x xs)
  show ?case
  proof (cases ys)
    case (Cons y zs)
    show ?thesis
      using Cons.IH [of "n - 8" zs] Cons.prems Cons byte_or_mask [of x "8 - n" y]
      by (auto simp: same_prefix_Cons)
  qed (use Cons.prems in auto)
qed simp

lemma ucast_GetByte:
  assumes "s < 16"
  shows "ucast (GetByte a (15 - s)) = ip a ! s"
    and "ucast (GetByte a (15 - s) OR (push_bit k 1 - 1)) = ip a ! s OR mask k"
    and "ucast (GetByte a (15 - s) XOR 0xFF) = ip a ! s XOR 0xFF"
proof -
  have s: "15 - (15 - s) = s" using assms by simp
  have m: "push_bit k 1 - 1 = (mask k :: u32)" by (simp add: mask_eq_exp_minus_1 push_bit_eq_mult)
  have f: "(0xFF :: u32) = ucast (0xFF :: byte)" by simp
  show "ucast (GetByte a (15 - s)) = ip a ! s"
    unfolding GetByte_def s by (rule bit_word_eqI) (simp add: bit_simps)
  show "ucast (GetByte a (15 - s) OR (push_bit k 1 - 1)) = ip a ! s OR mask k"
    unfolding GetByte_def s m by (rule bit_word_eqI) (auto simp: bit_simps)
  show "ucast (GetByte a (15 - s) XOR 0xFF) = ip a ! s XOR 0xFF"
    unfolding GetByte_def s f by (rule bit_word_eqI) (simp add: bit_simps)
qed

lemma group_loop_bytes:
  assumes "net_wf a" "n \<le> 8 * (16 - s)"
  shows "group_loop a s n = group_bytes (drop s (ip a)) n"
  using assms(2)
proof (induction n arbitrary: s rule: less_induct)
  case (less n)
  show ?case
  proof (cases "n = 0")
    case False
    then have s: "s < 16" using less.prems by auto
    then have d: "drop s (ip a) = ip a ! s # drop (Suc s) (ip a)"
      using assms(1) by (simp add: net_wf_def Cons_nth_drop_Suc)
    show ?thesis
      using less.IH [of "n - 8" "s + 1"] less.prems False ucast_GetByte(1) [OF s, of a]
        ucast_GetByte(2) [OF s, of a "8 - n"] s
      by (subst group_loop.simps) (auto simp: d)
  qed (simp add: group_loop.simps)
qed

lemma length_group_bytes: "n \<le> 8 * length bs \<Longrightarrow> length (group_bytes bs n) = (n + 7) div 8"
proof (induction bs arbitrary: n)
  case (Cons b bs)
  then show ?case
    using Cons.IH [of "n - 8"] by (auto simp: div_if [of "n + 7"] div_if [of "n - 8 + 7"])
qed simp

lemma site_key_bounds:
  assumes "net_wf a" "site_key a = (c, n, bs)"
  shows "n \<le> 8 * length bs"
    and "case c of NET_UNROUTABLE \<Rightarrow> n = 0 | NET_IPV4 \<Rightarrow> n = 16 | NET_IPV6 \<Rightarrow> n = 32 \<or> n = 36 | NET_TOR \<Rightarrow> n = 4"
  using assms by (auto simp: site_key_def embedded_IPv4_def net_wf_def split: if_splits option.splits)

lemma GetGroup_key:
  assumes "net_wf a" "site_key a = (c, n, bs)"
  shows "GetGroup a = word_of_nat (network_num c) # group_bytes bs n"
proof -
  have local: "IsRoutable a \<longrightarrow> \<not> IsLocal a" by (simp add: IsRoutable_def)
  have he: "same_prefix 32 (ip a) ([0x20, 0x01, 0x04, 0x70] @ replicate 12 0) \<longleftrightarrow>
      GetByte a 15 = 0x20 \<and> GetByte a 14 = 0x01 \<and> GetByte a 13 = 0x04 \<and> GetByte a 12 = 0x70"
    by (rule ip_nth [OF assms(1)]) (simp add: GetByte_def same_prefix_Cons)
  have teredo: "[ucast (GetByte a 3 XOR 0xFF), ucast (GetByte a 2 XOR 0xFF)] = group_bytes (map (\<lambda>b. b XOR 0xFF) (drop 12 (ip a))) 16"
    using ucast_GetByte(3) [of 12 a] ucast_GetByte(3) [of 13 a] by (rule_tac ip_nth [OF assms(1)]) simp
  note loop = group_loop_bytes [OF assms(1)]
  show ?thesis
  proof (cases "IsRoutable a")
    case True
    then show ?thesis
      using assms(2) local he teredo loop [of 16 12] loop [of 16 2] loop [of 4 6] loop [of 36 0] loop [of 32 0]
      unfolding site_key_def embedded_IPv4_def GetGroup_def by (auto split: if_splits)
  qed (use assms(2) in \<open>simp add: site_key_def GetGroup_def group_loop.simps\<close>)
qed

text \<open>
  C26. Two addresses have the same group exactly when they have the same site: all unroutable addresses share one;
  IPv4 addresses, also embedded in translated, 6to4 and Teredo addresses, are grouped by their first 16
  bits, Tor addresses by the first 4 bits of their name, other IPv6 addresses by 32 bits, or 36 inside the
  prefix of Hurricane Electric. The class 255 that the code reserves for local addresses is never used.
\<close>

theorem GetGroup_site:
  assumes "net_wf a" "net_wf b"
  shows "(GetGroup a = GetGroup b \<longleftrightarrow> site a = site b) \<and> hd (GetGroup a) \<noteq> 255"
proof -
  obtain c n bs c' n' bs' where k: "site_key a = (c, n, bs)" "site_key b = (c', n', bs')"
    by (metis prod_cases3)
  note ga = GetGroup_key [OF assms(1) k(1)] and gb = GetGroup_key [OF assms(2) k(2)]
  note ba = site_key_bounds [OF assms(1) k(1)] and bb = site_key_bounds [OF assms(2) k(2)]
  have num: "(word_of_nat (network_num c) :: byte) = word_of_nat (network_num c') \<longleftrightarrow> c = c'"
    "(word_of_nat (network_num c) :: byte) \<noteq> 255"
    by (cases c; cases c'; simp)+
  have "c = c' \<longrightarrow> (group_bytes bs n = group_bytes bs' n' \<longleftrightarrow> n = n' \<and> same_prefix n bs bs')"
  proof
    assume c: "c = c'"
    have "length (group_bytes bs n) \<noteq> length (group_bytes bs' n')" if "n \<noteq> n'"
      using that ba bb c length_group_bytes [OF ba(1)] length_group_bytes [OF bb(1)] by (auto split: Network.splits)
    then show "group_bytes bs n = group_bytes bs' n' \<longleftrightarrow> n = n' \<and> same_prefix n bs bs'"
      using group_bytes_eq [OF ba(1), of bs'] bb(1) by (cases "n = n'") auto
  qed
  then show ?thesis
    unfolding ga gb site_def k using num by (auto simp: leading_bits_eq)
qed

theorem GetGroup_site_witness:
  "net_wf \<lparr>ip = pchIPv4 @ [8, 8, 8, 8]\<rparr> \<and> net_wf \<lparr>ip = [0x20, 0x02, 8, 8, 1, 2, 0, 0, 0, 0, 0, 0, 0, 0, 0, 1]\<rparr>
   \<and> GetGroup \<lparr>ip = pchIPv4 @ [8, 8, 8, 8]\<rparr> = GetGroup \<lparr>ip = [0x20, 0x02, 8, 8, 1, 2, 0, 0, 0, 0, 0, 0, 0, 0, 0, 1]\<rparr>"
proof -
  let ?a = "\<lparr>ip = pchIPv4 @ [8, 8, 8, 8]\<rparr>" and ?b = "\<lparr>ip = [0x20, 0x02, 8, 8, 1, 2, 0, 0, 0, 0, 0, 0, 0, 0, 0, 1]\<rparr>"
  have w: "net_wf ?a" "net_wf ?b" by (simp_all add: net_wf_def pchIPv4_def)
  have "site ?a = site ?b" by code_simp
  then show ?thesis using GetGroup_site [OF w] w by simp
qed

end
