(* ===== verification/Net_Service.thy ===== *)
theory Net_Service
  imports Net_Addr "HOL-Library.Monad_Syntax"
begin

section \<open>Services, names and lookups (util/netbase)\<close>

text \<open>
  \<^verbatim>\<open>CService\<close> with its conversions to socket addresses and text, the splitting of host and port, and the
  lookups. What they use of other libraries is the record \<open>netlib\<close>: base-32 encoding, \<^verbatim>\<open>ParseInt32\<close>, the hash and
  the resolver of the C library, whose answers are lists of \<open>addrinfo\<close>. \<^verbatim>\<open>HAVE_GETADDRINFO_A\<close> is a macro of a
  configuration header that the repository does not have, so the branches without it are modelled.
\<close>

subsection \<open>Services\<close>

record CService = CNetAddr +
  port :: u16

datatype sockaddr = Sockaddr_in "byte list" u16 | Sockaddr_in6 "byte list" u16 | Sockaddr_other nat

definition CService_new :: CService where
  "CService_new = \<lparr>ip = replicate 16 0, port = 0\<rparr>"

definition CService_ip :: "'a CNetAddr_scheme \<Rightarrow> u16 \<Rightarrow> CService" where
  "CService_ip cip portIn = \<lparr>ip = ip cip, port = portIn\<rparr>"

definition CService_in_addr :: "byte list \<Rightarrow> u16 \<Rightarrow> CService option" where
  "CService_in_addr ipv4Addr portIn = map_option (\<lambda>a. CService_ip a portIn) (CNetAddr_in_addr ipv4Addr)"

definition CService_in6_addr :: "byte list \<Rightarrow> u16 \<Rightarrow> CService option" where
  "CService_in6_addr ipv6Addr portIn = map_option (\<lambda>a. CService_ip a portIn) (CNetAddr_in6_addr ipv6Addr)"

text \<open>The constructors from a \<^verbatim>\<open>sockaddr_in\<close> and a \<^verbatim>\<open>sockaddr_in6\<close>; \<open>None\<close> is a failed assertion.\<close>

definition CService_sockaddr_in :: "sockaddr \<Rightarrow> CService option" where
  "CService_sockaddr_in addr =
     (case addr of Sockaddr_in a p \<Rightarrow> CService_in_addr a (htons p) | _ \<Rightarrow> None)"

definition CService_sockaddr_in6 :: "sockaddr \<Rightarrow> CService option" where
  "CService_sockaddr_in6 addr =
     (case addr of Sockaddr_in6 a p \<Rightarrow> CService_in6_addr a (htons p) | _ \<Rightarrow> None)"

text \<open>\<^verbatim>\<open>SetSockAddr\<close> returns the Boolean and the service.\<close>

definition SetSockAddr :: "sockaddr \<Rightarrow> CService \<Rightarrow> (bool \<times> CService) option" where
  "SetSockAddr paddr s =
     (case paddr of
        Sockaddr_in _ _ \<Rightarrow> map_option (Pair True) (CService_sockaddr_in paddr)
      | Sockaddr_in6 _ _ \<Rightarrow> map_option (Pair True) (CService_sockaddr_in6 paddr)
      | Sockaddr_other _ \<Rightarrow> Some (False, s))"

definition GetPort :: "CService \<Rightarrow> u16" where "GetPort s = port s"

definition SetPort :: "u16 \<Rightarrow> CService \<Rightarrow> CService" where "SetPort portIn s = s\<lparr>port := portIn\<rparr>"

definition service_eq :: "CService \<Rightarrow> CService \<Rightarrow> bool" where
  "service_eq a b \<longleftrightarrow> net_eq a b \<and> port a = port b"

definition service_ne :: "CService \<Rightarrow> CService \<Rightarrow> bool" where
  "service_ne a b \<longleftrightarrow> net_ne a b \<or> port a \<noteq> port b"

definition service_lt :: "CService \<Rightarrow> CService \<Rightarrow> bool" where
  "service_lt a b \<longleftrightarrow> net_lt a b \<or> (net_eq a b \<and> port a < port b)"

text \<open>\<open>None\<close> is the result \<^verbatim>\<open>false\<close>; the sizes are those of the structures on the platform.\<close>

definition GetSockAddr :: "CService \<Rightarrow> nat \<Rightarrow> (sockaddr \<times> nat) option" where
  "GetSockAddr s addrlen =
     (if IsIPv4 s
      then (if addrlen < 16 then None
            else do {
              a \<leftarrow> GetInAddr s;
              Some (Sockaddr_in a (htons (port s)), 16)
            })
      else if IsIPv6 s
      then (if addrlen < 28 then None
            else do {
              a \<leftarrow> GetIn6Addr s;
              Some (Sockaddr_in6 a (htons (port s)), 28)
            })
      else None)"

definition GetKey :: "CService \<Rightarrow> byte list" where
  "GetKey s = take 16 (ip s) @ [ucast (port s div 0x100), ucast (port s AND 0x0FF)]"

subsection \<open>Text\<close>

text \<open>\<^verbatim>\<open>strprintf\<close> with \<^verbatim>\<open>%u\<close> and \<^verbatim>\<open>%x\<close>.\<close>

definition digit_char :: "nat \<Rightarrow> char" where
  "digit_char d = ''0123456789abcdef'' ! d"

fun printf_u :: "nat \<Rightarrow> string" where
  "printf_u n = (if n < 10 then [digit_char n] else printf_u (n div 10) @ [digit_char (n mod 10)])"

fun printf_x :: "nat \<Rightarrow> string" where
  "printf_x n = (if n < 16 then [digit_char n] else printf_x (n div 16) @ [digit_char (n mod 16)])"

declare printf_u.simps [simp del] printf_x.simps [simp del]

datatype ai_family = AF_INET | AF_INET6 | AF_OTHER

record addrinfo =
  ai_family :: ai_family
  ai_addrlen :: nat
  ai_addr :: "byte list"

record netlib =
  DecodeBase32 :: "string \<Rightarrow> byte list"
  EncodeBase32 :: "byte list \<Rightarrow> string"
  lib_ParseInt32 :: "string \<Rightarrow> int option"
  lib_Hash :: "byte list \<Rightarrow> byte list"
  getaddrinfo :: "string \<Rightarrow> bool \<Rightarrow> addrinfo list option"
  getnameinfo :: "sockaddr \<Rightarrow> string option"

definition join_with :: "string \<Rightarrow> string list \<Rightarrow> string" where
  "join_with sep xs = (case xs of [] \<Rightarrow> [] | y # ys \<Rightarrow> y @ concat (map (\<lambda>z. sep @ z) ys))"

text \<open>The two fallback formats are shared with the netmasks of subnets.\<close>

definition format_IPv4 :: "byte list \<Rightarrow> string" where
  "format_IPv4 bs = join_with ''.'' (map (\<lambda>i. printf_u (unat (bs ! i))) [12, 13, 14, 15])"

definition format_IPv6 :: "byte list \<Rightarrow> string" where
  "format_IPv6 bs =
     join_with '':'' (map (\<lambda>i. printf_x (unat (push_bit 8 (ucast (bs ! i)) OR ucast (bs ! (i + 1)) :: u32))) [0, 2, 4, 6, 8, 10, 12, 14])"

definition ToStringIP :: "netlib \<Rightarrow> 'a CNetAddr_scheme \<Rightarrow> string" where
  "ToStringIP L a =
     (if IsTor a then EncodeBase32 L (take 10 (drop 6 (ip a))) @ ''.onion''
      else let serv = CService_ip a 0;
               name = do {
                 (sa, len) \<leftarrow> GetSockAddr serv 128;
                 getnameinfo L sa
               }
           in case name of
                Some nm \<Rightarrow> nm
              | None \<Rightarrow> if IsIPv4 a then format_IPv4 (ip a) else format_IPv6 (ip a))"

definition net_ToString :: "netlib \<Rightarrow> 'a CNetAddr_scheme \<Rightarrow> string" where
  "net_ToString L a = ToStringIP L a"

definition ToStringPort :: "CService \<Rightarrow> string" where
  "ToStringPort s = printf_u (unat (port s))"

definition ToStringIPPort :: "netlib \<Rightarrow> CService \<Rightarrow> string" where
  "ToStringIPPort L s =
     (if IsIPv4 s \<or> IsTor s then ToStringIP L s @ '':'' @ ToStringPort s
      else ''['' @ ToStringIP L s @ '']:'' @ ToStringPort s)"

definition service_ToString :: "netlib \<Rightarrow> CService \<Rightarrow> string" where
  "service_ToString L s = ToStringIPPort L s"

text \<open>The first eight bytes of the hash, read in the order of the machine.\<close>

definition GetHash :: "netlib \<Rightarrow> 'a CNetAddr_scheme \<Rightarrow> u64" where
  "GetHash L a = word_rcat (rev (take 8 (lib_Hash L (take 16 (ip a)))))"

subsection \<open>Host and port\<close>

text \<open>\<open>find_last_of c s\<close> is the position of the last \<open>c\<close> in \<open>s\<close>; \<open>None\<close> is \<^verbatim>\<open>npos\<close>.\<close>

definition find_last_of :: "char \<Rightarrow> string \<Rightarrow> nat option" where
  "find_last_of c s = (if c \<in> set s then Some (length s - 1 - length (takeWhile (\<lambda>d. d \<noteq> c) (rev s))) else None)"

text \<open>The result is the pair of port and host; the port keeps its old value when none is found.\<close>

definition SplitHostPort :: "netlib \<Rightarrow> string \<Rightarrow> int \<Rightarrow> int \<times> string" where
  "SplitHostPort L inS portOut =
     (let colon = find_last_of (CHR '':'') inS;
          (inS, portOut) =
            (case colon of
               None \<Rightarrow> (inS, portOut)
             | Some c \<Rightarrow>
                 let fBracketed = (inS ! 0 = CHR ''['' \<and> inS ! (c - 1) = CHR '']'');
                     fMultiColon = (if c = 0 then True else find_last_of (CHR '':'') (take c inS) \<noteq> None)
                 in if c = 0 \<or> fBracketed \<or> \<not> fMultiColon
                    then (case lib_ParseInt32 L (drop (c + 1) inS) of
                            Some n \<Rightarrow> if n > 0 \<and> n < 0x10000 then (take c inS, n) else (inS, portOut)
                          | None \<Rightarrow> (inS, portOut))
                    else (inS, portOut))
      in if length inS > 0 \<and> inS ! 0 = CHR ''['' \<and> inS ! (length inS - 1) = CHR '']''
         then (portOut, take (length inS - 2) (drop 1 inS))
         else (portOut, inS))"

subsection \<open>Lookups\<close>

definition SetSpecial :: "netlib \<Rightarrow> string \<Rightarrow> CNetAddr \<Rightarrow> bool \<times> CNetAddr" where
  "SetSpecial L strName a =
     (if length strName > 6 \<and> drop (length strName - 6) strName = ''.onion''
      then let vchAddr = DecodeBase32 L (c_str (take (length strName - 6) strName))
           in if length vchAddr \<noteq> 16 - length pchOnionCat then (False, a)
              else (True, a\<lparr>ip := pchOnionCat @ vchAddr\<rparr>)
      else (False, a))"

text \<open>The loop over the answers of the resolver; \<open>None\<close> is a failed assertion.\<close>

fun lookup_loop :: "addrinfo list \<Rightarrow> nat \<Rightarrow> CNetAddr list \<Rightarrow> CNetAddr list option" where
  "lookup_loop [] nMaxSolutions vIP = Some vIP"
| "lookup_loop (ai # aiTrav) nMaxSolutions vIP =
     (if nMaxSolutions = 0 \<or> length vIP < nMaxSolutions
      then do {
        vIP \<leftarrow> (if ai_family ai = AF_INET
                then (if ai_addrlen ai \<ge> 16
                      then map_option (\<lambda>a. vIP @ [a]) (CNetAddr_in_addr (ai_addr ai)) else None)
                else Some vIP);
        vIP \<leftarrow> (if ai_family ai = AF_INET6
                then (if ai_addrlen ai \<ge> 28
                      then map_option (\<lambda>a. vIP @ [a]) (CNetAddr_in6_addr (ai_addr ai)) else None)
                else Some vIP);
        lookup_loop aiTrav nMaxSolutions vIP
      }
      else Some vIP)"

definition LookupIntern :: "netlib \<Rightarrow> string \<Rightarrow> nat \<Rightarrow> bool \<Rightarrow> (bool \<times> CNetAddr list) option" where
  "LookupIntern L pszName nMaxSolutions fAllowLookup =
     (let (special, addr) = SetSpecial L pszName net_Init
      in if special then Some (True, [addr])
         else case getaddrinfo L pszName fAllowLookup of
                None \<Rightarrow> Some (False, [])
              | Some aiRes \<Rightarrow> do {
                  vIP \<leftarrow> lookup_loop aiRes nMaxSolutions [];
                  Some (length vIP > 0, vIP)
                })"

text \<open>\<^verbatim>\<open>LookupHost\<close> leaves the caller's list alone for an empty name (the second \<open>None\<close>).\<close>

definition LookupHost :: "netlib \<Rightarrow> string \<Rightarrow> nat \<Rightarrow> bool \<Rightarrow> (bool \<times> CNetAddr list option) option" where
  "LookupHost L pszName nMaxSolutions fAllowLookup =
     (let strHost = pszName
      in if strHost = [] then Some (False, None)
         else let strHost = (if strHost ! 0 = CHR ''['' \<and> strHost ! (length strHost - 1) = CHR '']''
                             then take (length strHost - 2) (drop 1 strHost) else strHost)
              in map_option (\<lambda>(b, v). (b, Some v)) (LookupIntern L (c_str strHost) nMaxSolutions fAllowLookup))"

text \<open>The result of \<^verbatim>\<open>Lookup\<close> is \<open>Some None\<close> for \<^verbatim>\<open>false\<close>.\<close>

definition Lookup_all :: "netlib \<Rightarrow> string \<Rightarrow> int \<Rightarrow> bool \<Rightarrow> nat \<Rightarrow> CService list option option" where
  "Lookup_all L pszName portDefault fAllowLookup nMaxSolutions =
     (if pszName = [] then Some None
      else let (p, hostname) = SplitHostPort L pszName portDefault
           in do {
             (fRet, vIP) \<leftarrow> LookupIntern L (c_str hostname) nMaxSolutions fAllowLookup;
             Some (if \<not> fRet then None else Some (map (\<lambda>a. CService_ip a (word_of_int p)) vIP))
           })"

definition Lookup :: "netlib \<Rightarrow> string \<Rightarrow> int \<Rightarrow> bool \<Rightarrow> CService option option" where
  "Lookup L pszName portDefault fAllowLookup =
     do {
       r \<leftarrow> Lookup_all L pszName portDefault fAllowLookup 1;
       Some (case r of None \<Rightarrow> None | Some vService \<Rightarrow> Some (vService ! 0))
     }"

definition LookupNumeric :: "netlib \<Rightarrow> string \<Rightarrow> int \<Rightarrow> CService option option" where
  "LookupNumeric L pszName portDefault = Lookup L pszName portDefault False"

definition CNetAddr_str :: "netlib \<Rightarrow> string \<Rightarrow> bool \<Rightarrow> CNetAddr option" where
  "CNetAddr_str L strIp fAllowLookup =
     do {
       (b, v) \<leftarrow> LookupHost L (c_str strIp) 1 fAllowLookup;
       Some (case v of Some vIP \<Rightarrow> if b then vIP ! 0 else net_Init | None \<Rightarrow> net_Init)
     }"

definition CService_str :: "netlib \<Rightarrow> string \<Rightarrow> int \<Rightarrow> bool \<Rightarrow> CService option" where
  "CService_str L strIpPort portDefault fAllowLookup =
     do {
       r \<leftarrow> Lookup L (c_str strIpPort) portDefault fAllowLookup;
       Some (case r of Some s \<Rightarrow> s | None \<Rightarrow> CService_new)
     }"

subsection \<open>Lookups return addresses\<close>

text \<open>
  What \<^verbatim>\<open>getaddrinfo\<close> documents of its answers: an entry of family \<^verbatim>\<open>AF_INET\<close> or \<^verbatim>\<open>AF_INET6\<close> carries a socket address of
  that family, with its length.
\<close>

definition entry_ok :: "addrinfo \<Rightarrow> bool" where
  "entry_ok ai \<longleftrightarrow>
     (case ai_family ai of
        AF_INET \<Rightarrow> 16 \<le> ai_addrlen ai \<and> length (ai_addr ai) = 4
      | AF_INET6 \<Rightarrow> 28 \<le> ai_addrlen ai \<and> length (ai_addr ai) = 16
      | AF_OTHER \<Rightarrow> True)"

definition resolver_ok :: "netlib \<Rightarrow> bool" where
  "resolver_ok L \<longleftrightarrow> (\<forall>name f ais. getaddrinfo L name f = Some ais \<longrightarrow> (\<forall>ai \<in> set ais. entry_ok ai))"

lemma net_wf_in_addr:
  "length a = 4 \<Longrightarrow> \<exists>c. CNetAddr_in_addr a = Some c \<and> net_wf c \<and> ip c = pchIPv4 @ a"
  "length a = 16 \<Longrightarrow> \<exists>c. CNetAddr_in6_addr a = Some c \<and> net_wf c \<and> ip c = a"
  by (simp_all add: CNetAddr_in_addr_def CNetAddr_in6_addr_def SetRaw_def net_wf_def net_Init_def pchIPv4_def)

lemma net_wf_simps [simp]:
  "net_wf net_Init" "net_wf CService_new" "net_wf (CService_ip a p) = net_wf a"
  by (simp_all add: net_wf_def net_Init_def CService_new_def CService_ip_def)

lemma lookup_loop_typed:
  assumes "\<forall>ai \<in> set ais. entry_ok ai" "\<forall>a \<in> set v. net_wf a" "n \<noteq> 0 \<longrightarrow> length v \<le> n"
  shows "\<exists>v'. lookup_loop ais n v = Some v' \<and> (\<forall>a \<in> set v'. net_wf a) \<and> (n \<noteq> 0 \<longrightarrow> length v' \<le> n)"
  using assms
proof (induction ais arbitrary: v)
  case (Cons ai ais)
  show ?case
  proof (cases "n = 0 \<or> length v < n")
    case True
    have "entry_ok ai" using Cons.prems(1) by simp
    then obtain c where "ai_family ai = AF_OTHER
        \<or> ai_family ai = AF_INET \<and> 16 \<le> ai_addrlen ai \<and> CNetAddr_in_addr (ai_addr ai) = Some c \<and> net_wf c
        \<or> ai_family ai = AF_INET6 \<and> 28 \<le> ai_addrlen ai \<and> CNetAddr_in6_addr (ai_addr ai) = Some c \<and> net_wf c"
      using net_wf_in_addr [of "ai_addr ai"] by (cases "ai_family ai") (auto simp: entry_ok_def)
    then show ?thesis
      using True Cons.IH [of v] Cons.IH [of "v @ [c]"] Cons.prems by (elim disjE) (auto split: if_splits)
  qed (use Cons.prems in auto)
qed auto

lemma LookupIntern_typed:
  assumes "resolver_ok L"
  shows "\<exists>b v. LookupIntern L name n f = Some (b, v) \<and> (b \<longleftrightarrow> v \<noteq> []) \<and> (\<forall>a \<in> set v. net_wf a) \<and> (n \<noteq> 0 \<longrightarrow> length v \<le> n)"
proof (cases "getaddrinfo L name f")
  case None
  then show ?thesis
    by (auto simp: LookupIntern_def SetSpecial_def Let_def net_wf_def pchOnionCat_def split: prod.splits if_splits)
next
  case (Some ais)
  then obtain v where "lookup_loop ais n [] = Some v" "\<forall>a \<in> set v. net_wf a" "n \<noteq> 0 \<longrightarrow> length v \<le> n"
    using lookup_loop_typed [of ais "[]" n] assms by (auto simp: resolver_ok_def)
  then show ?thesis
    using Some
    by (auto simp: LookupIntern_def SetSpecial_def Let_def net_wf_def pchOnionCat_def split: prod.splits if_splits)
qed

lemma LookupHost_typed:
  assumes "resolver_ok L"
  shows "\<exists>b v. LookupHost L name n f = Some (b, v) \<and>
    (b \<longrightarrow> (\<exists>vIP. v = Some vIP \<and> vIP \<noteq> [] \<and> (\<forall>a \<in> set vIP. net_wf a)))"
proof -
  let ?h = "if name ! 0 = CHR ''['' \<and> name ! (length name - 1) = CHR '']'' then take (length name - 2) (drop 1 name) else name"
  obtain b v where "LookupIntern L (c_str ?h) n f = Some (b, v)" "b \<longleftrightarrow> v \<noteq> []" "\<forall>a \<in> set v. net_wf a"
    using LookupIntern_typed [OF assms, of "c_str ?h" n f] by blast
  then show ?thesis by (simp only: LookupHost_def Let_def) auto
qed

lemma Lookup_typed:
  assumes "resolver_ok L"
  shows "\<exists>r. Lookup L name p f = Some r \<and> (\<forall>s. r = Some s \<longrightarrow> net_wf s)"
proof (cases "name = []")
  case False
  obtain q h where sp: "SplitHostPort L name p = (q, h)" by fastforce
  obtain b v where "LookupIntern L (c_str h) 1 f = Some (b, v)" "b \<longleftrightarrow> v \<noteq> []" "\<forall>a \<in> set v. net_wf a"
    using LookupIntern_typed [OF assms, of "c_str h" 1 f] by blast
  then show ?thesis using False sp by (cases v) (auto simp: Lookup_def Lookup_all_def)
qed (simp add: Lookup_def Lookup_all_def)

lemma CNetAddr_str_wf:
  assumes "resolver_ok L"
  shows "\<exists>a. CNetAddr_str L txt f = Some a \<and> net_wf a"
proof -
  obtain b v where "LookupHost L (c_str txt) 1 f = Some (b, v)"
    "b \<longrightarrow> (\<exists>vIP. v = Some vIP \<and> vIP \<noteq> [] \<and> (\<forall>a \<in> set vIP. net_wf a))"
    using LookupHost_typed [OF assms, of "c_str txt" 1 f] by blast
  then show ?thesis by (auto simp: CNetAddr_str_def split: option.splits)
qed

lemma CService_str_wf:
  assumes "resolver_ok L"
  shows "\<exists>s. CService_str L txt p f = Some s \<and> net_wf s"
proof -
  obtain r where "Lookup L (c_str txt) p f = Some r" "\<forall>s. r = Some s \<longrightarrow> net_wf s"
    using Lookup_typed [OF assms, of "c_str txt" p f] by blast
  then show ?thesis by (auto simp: CService_str_def split: option.splits)
qed

subsection \<open>The order of services\<close>

lemma memcmp_eq_0: "length xs = length ys \<Longrightarrow> memcmp xs ys = 0 \<longleftrightarrow> xs = ys"
  by (induction xs ys rule: memcmp.induct) auto

lemma memcmp_lex: "length xs = length ys \<Longrightarrow> memcmp xs ys < 0 \<longleftrightarrow> (xs, ys) \<in> lex {(x, y). x < y}"
  by (induction xs ys rule: memcmp.induct) auto

lemma memcmp_total: "length xs = length ys \<Longrightarrow> memcmp xs ys < 0 \<or> xs = ys \<or> memcmp ys xs < 0"
  by (induction xs ys rule: memcmp.induct) auto

lemma memcmp_append:
  "length xs = length ys \<Longrightarrow> memcmp (xs @ us) (ys @ vs) = (if xs = ys then memcmp us vs else memcmp xs ys)"
  by (induction xs ys rule: list_induct2) auto

lemma unat_u16: "unat (r :: u16) < 65536"
  using unsigned_less [of r] by simp

lemma div_mod_order:
  fixes m n :: nat
  shows "m div 256 < n div 256 \<or> m div 256 = n div 256 \<and> m mod 256 < n mod 256 \<longleftrightarrow> m < n"
    and "m div 256 = n div 256 \<and> m mod 256 = n mod 256 \<longleftrightarrow> m = n"
proof -
  obtain q r q' r' where v: "m div 256 = q" "m mod 256 = r" "n div 256 = q'" "n mod 256 = r'" by blast
  then have "m = 256 * q + r" "n = 256 * q' + r'" "r < 256" "r' < 256" by auto
  note mn = this
  have "q < q' \<or> q = q' \<and> r < r' \<longleftrightarrow> m < n"
    unfolding mn(1,2) using mn(3,4) by (cases q q' rule: linorder_cases) auto
  moreover have "q = q' \<and> r = r' \<longleftrightarrow> m = n"
    unfolding mn(1,2) using mn(3,4) by (cases q q' rule: linorder_cases) auto
  ultimately show "m div 256 < n div 256 \<or> m div 256 = n div 256 \<and> m mod 256 < n mod 256 \<longleftrightarrow> m < n"
    "m div 256 = n div 256 \<and> m mod 256 = n mod 256 \<longleftrightarrow> m = n" unfolding v by blast+
qed

lemma port_bytes:
  fixes p q :: u16
  shows "(ucast (p div 0x100) :: byte) < ucast (q div 0x100)
      \<or> (ucast (p div 0x100) :: byte) = ucast (q div 0x100) \<and> (ucast (p AND 0x0FF) :: byte) < ucast (q AND 0x0FF) \<longleftrightarrow> p < q"
    and "(ucast (p div 0x100) :: byte) = ucast (q div 0x100) \<and> (ucast (p AND 0x0FF) :: byte) = ucast (q AND 0x0FF) \<longleftrightarrow> p = q"
proof -
  have hi: "unat (ucast (r div 0x100) :: byte) = unat r div 256" for r :: u16
    using unat_u16 [of r] by (simp add: unsigned_ucast_eq unat_div take_bit_eq_mod)
  have "r AND 0x0FF = take_bit 8 r" for r :: u16 by (simp add: take_bit_eq_mask mask_eq_exp_minus_1)
  then have lo: "unat (ucast (r AND 0x0FF) :: byte) = unat r mod 256" for r :: u16
    by (simp add: unsigned_ucast_eq take_bit_eq_mod unat_mod)
  show "(ucast (p div 0x100) :: byte) < ucast (q div 0x100)
      \<or> (ucast (p div 0x100) :: byte) = ucast (q div 0x100) \<and> (ucast (p AND 0x0FF) :: byte) < ucast (q AND 0x0FF) \<longleftrightarrow> p < q"
    using div_mod_order [of "unat p" "unat q"] by (simp only: word_less_nat_alt word_unat_eq_iff hi lo)
  show "(ucast (p div 0x100) :: byte) = ucast (q div 0x100) \<and> (ucast (p AND 0x0FF) :: byte) = ucast (q AND 0x0FF) \<longleftrightarrow> p = q"
    using div_mod_order [of "unat p" "unat q"] by (simp only: word_less_nat_alt word_unat_eq_iff hi lo)
qed

text \<open>
  Types whose \<^verbatim>\<open><\<close> compares a key of fixed length byte by byte: the order is strict and total up to the key.
\<close>

locale keyed_order =
  fixes wf :: "'a \<Rightarrow> bool" and key :: "'a \<Rightarrow> byte list" and lt :: "'a \<Rightarrow> 'a \<Rightarrow> bool" and n :: nat
  assumes key_length: "wf a \<Longrightarrow> length (key a) = n"
    and lt_key: "wf a \<Longrightarrow> wf b \<Longrightarrow> lt a b \<longleftrightarrow> memcmp (key a) (key b) < 0"
begin

lemma lt_lex: "wf a \<Longrightarrow> wf b \<Longrightarrow> lt a b \<longleftrightarrow> (key a, key b) \<in> lex {(x, y). x < y}"
  using memcmp_lex [of "key a" "key b"] key_length [of a] key_length [of b] by (simp add: lt_key)

lemma lt_irrefl: "wf a \<Longrightarrow> \<not> lt a a"
  using memcmp_eq_0 [of "key a" "key a"] by (simp add: lt_key)

lemma lt_trans: "wf a \<Longrightarrow> wf b \<Longrightarrow> wf c \<Longrightarrow> lt a b \<Longrightarrow> lt b c \<Longrightarrow> lt a c"
proof -
  have "trans {(x, y). x < (y :: byte)}" by (auto simp: trans_def)
  then have "trans (lex {(x, y). x < (y :: byte)})" by (rule lex_transI)
  then show "wf a \<Longrightarrow> wf b \<Longrightarrow> wf c \<Longrightarrow> lt a b \<Longrightarrow> lt b c \<Longrightarrow> lt a c" by (auto simp: lt_lex trans_def)
qed

lemma lt_asym: "wf a \<Longrightarrow> wf b \<Longrightarrow> lt a b \<Longrightarrow> \<not> lt b a"
  using lt_irrefl lt_trans by blast

lemma lt_total: "wf a \<Longrightarrow> wf b \<Longrightarrow> lt a b \<or> key a = key b \<or> lt b a"
  using memcmp_total [of "key a" "key b"] key_length [of a] key_length [of b] by (simp add: lt_key)

end

interpretation net_order: keyed_order net_wf ip net_lt 16
  by unfold_locales (simp_all add: net_wf_def net_lt_def)

lemma service_lt_key:
  assumes "net_wf a" "net_wf b"
  shows "service_lt a b \<longleftrightarrow> memcmp (GetKey a) (GetKey b) < 0"
  using port_bytes [of "port a" "port b"] assms memcmp_eq_0 [of "ip a" "ip b"]
  by (auto simp: service_lt_def net_lt_def net_eq_def GetKey_def memcmp_append net_wf_def)

interpretation service: keyed_order net_wf GetKey service_lt 18
  by unfold_locales (simp_all add: service_lt_key GetKey_def net_wf_def)

lemma GetKey_eq:
  assumes "net_wf a" "net_wf b"
  shows "GetKey a = GetKey b \<longleftrightarrow> a = b"
proof -
  have "a = b \<longleftrightarrow> ip a = ip b \<and> port a = port b" by (cases a; cases b) simp
  then show ?thesis using port_bytes(2) [of "port a" "port b"] assms by (auto simp: GetKey_def net_wf_def)
qed

text \<open>
  C27. On services with a full address, \<^verbatim>\<open>==\<close> and \<^verbatim>\<open>!=\<close> are equality and its negation, \<^verbatim>\<open>GetKey\<close> distinguishes
  services, and \<^verbatim>\<open><\<close> is the lexicographic order of the keys, a strict total order, so it orders services as \<^verbatim>\<open>memcmp\<close>
  orders what is stored under them.
\<close>

theorem service_order:
  assumes "net_wf a" "net_wf b" "net_wf c"
  shows "(service_eq a b \<longleftrightarrow> a = b) \<and> (service_ne a b \<longleftrightarrow> a \<noteq> b) \<and> (GetKey a = GetKey b \<longleftrightarrow> a = b)
    \<and> (service_lt a b \<longleftrightarrow> (GetKey a, GetKey b) \<in> lex {(x, y). x < y})
    \<and> (service_lt a b \<or> a = b \<or> service_lt b a) \<and> \<not> service_lt a a \<and> (service_lt a b \<and> service_lt b c \<longrightarrow> service_lt a c)"
proof -
  have "a = b \<longleftrightarrow> ip a = ip b \<and> port a = port b" by (cases a; cases b) simp
  then have "(service_eq a b \<longleftrightarrow> a = b) \<and> (service_ne a b \<longleftrightarrow> a \<noteq> b)"
    using assms by (auto simp: service_eq_def service_ne_def net_eq_def net_ne_def memcmp_eq_0 net_wf_def)
  then show ?thesis
    using service.lt_lex [OF assms(1,2)] service.lt_total [OF assms(1,2)] service.lt_irrefl [OF assms(1)]
      service.lt_trans [OF assms] GetKey_eq [OF assms(1,2)] by blast
qed

theorem service_order_witness:
  "service_lt (CService_ip \<lparr>ip = pchIPv4 @ [10, 0, 0, 1]\<rparr> 80) (CService_ip \<lparr>ip = pchIPv4 @ [10, 0, 0, 1]\<rparr> 0x150)"
proof -
  let ?a = "CService_ip \<lparr>ip = pchIPv4 @ [10, 0, 0, 1]\<rparr> 80" and ?b = "CService_ip \<lparr>ip = pchIPv4 @ [10, 0, 0, 1]\<rparr> 0x150"
  have w: "net_wf ?a" "net_wf ?b" by (simp_all add: net_wf_def CService_ip_def pchIPv4_def)
  have "(GetKey ?a, GetKey ?b) \<in> lex {(x, y). x < y}"
    by (simp add: GetKey_def CService_ip_def pchIPv4_def)
  then show ?thesis using service_order [OF w w(2)] by blast
qed

subsection \<open>Socket addresses\<close>

lemma IsTor_not_IPv4: "IsTor a \<Longrightarrow> \<not> IsIPv4 a"
proof
  assume t: "IsTor a" "IsIPv4 a"
  have "take 6 (take 12 (ip a)) = take 6 (ip a)" by simp
  with t show False by (simp add: IsTor_def IsIPv4_def pchIPv4_def pchOnionCat_def)
qed

text \<open>
  \<^verbatim>\<open>GetSockAddr\<close> fails exactly for Tor services and for buffers that are too short, and otherwise
  \<^verbatim>\<open>SetSockAddr\<close> reads the same service back from the socket address, in network byte order, that it wrote; no assertion
  fails.
\<close>

lemma sockaddr_roundtrip:
  assumes "net_wf s"
  shows "(case GetSockAddr s len of
      Some (sa, len') \<Rightarrow> SetSockAddr sa t = Some (True, s) \<and> len' \<le> len
        \<and> (case sa of Sockaddr_in a p \<Rightarrow> IsIPv4 s \<and> len' = 16 \<and> length a = 4 \<and> port s = htons p
            | Sockaddr_in6 a p \<Rightarrow> IsIPv6 s \<and> len' = 28 \<and> a = ip s \<and> port s = htons p
            | Sockaddr_other n \<Rightarrow> False)
    | None \<Rightarrow> IsTor s \<or> len < (if IsIPv4 s then 16 else 28))"
proof -
  have l: "length (ip s) = 16" using assms by (simp add: net_wf_def)
  have v4: "ip s = pchIPv4 @ drop 12 (ip s)" if "IsIPv4 s"
    using that append_take_drop_id [of 12 "ip s"] by (simp add: IsIPv4_def)
  have mk: "CService_ip c (port s) = s" if "ip c = ip s" for c :: CNetAddr
    using that by (cases s) (simp add: CService_ip_def)
  have p12: "take 12 pchIPv4 = pchIPv4" by (simp add: pchIPv4_def)
  note defs = GetSockAddr_def SetSockAddr_def CService_sockaddr_in_def CService_sockaddr_in6_def CService_in_addr_def
    CService_in6_addr_def CNetAddr_in_addr_def CNetAddr_in6_addr_def SetRaw_def GetInAddr_def GetIn6Addr_def
  show ?thesis
  proof (cases "IsIPv4 s")
    case True
    then show ?thesis using l v4 mk p12 by (auto simp: defs)
  next
    case False
    then show ?thesis using l mk by (auto simp: defs IsIPv6_def)
  qed
qed

lemma sockaddr_roundtrip_witness:
  "GetSockAddr (CService_ip \<lparr>ip = pchIPv4 @ [127, 0, 0, 1]\<rparr> 8333) 128 = Some (Sockaddr_in [127, 0, 0, 1] 0x8D20, 16)
   \<and> SetSockAddr (Sockaddr_in [127, 0, 0, 1] 0x8D20) CService_new = Some (True, CService_ip \<lparr>ip = pchIPv4 @ [127, 0, 0, 1]\<rparr> 8333)"
proof -
  have w: "net_wf (CService_ip \<lparr>ip = pchIPv4 @ [127, 0, 0, 1]\<rparr> 8333)" by (simp add: net_wf_def CService_ip_def pchIPv4_def)
  have g: "GetSockAddr (CService_ip \<lparr>ip = pchIPv4 @ [127, 0, 0, 1]\<rparr> 8333) 128 = Some (Sockaddr_in [127, 0, 0, 1] 0x8D20, 16)"
    by code_simp
  from sockaddr_roundtrip [OF w, of 128 CService_new] show ?thesis by (simp add: g)
qed

subsection \<open>Host and port in text\<close>

lemma find_last_of_app: "c \<notin> set t \<Longrightarrow> find_last_of c (h @ c # t) = Some (length h)"
proof -
  assume "c \<notin> set t"
  then have "takeWhile (\<lambda>d. d \<noteq> c) (rev t @ c # rev h) = rev t" by (subst takeWhile_append2) auto
  then show ?thesis by (simp add: find_last_of_def)
qed

lemma find_last_of_None [simp]: "find_last_of c s = None \<longleftrightarrow> c \<notin> set s"
  by (simp add: find_last_of_def)

lemma SplitHostPort_plain:
  assumes "CHR '':'' \<notin> set h" "CHR '':'' \<notin> set t" "lib_ParseInt32 L t = Some n" "0 < n" "n < 0x10000" "CHR ''['' \<notin> set h"
  shows "SplitHostPort L (h @ '':'' @ t) d = (n, h)"
proof -
  have "find_last_of (CHR '':'') (h @ CHR '':'' # t) = Some (length h)" using assms(2) by (rule find_last_of_app)
  moreover have "h \<noteq> [] \<Longrightarrow> h ! 0 \<noteq> CHR ''[''" using assms(6) by (metis length_greater_0_conv nth_mem)
  ultimately show ?thesis using assms by (auto simp: SplitHostPort_def Let_def)
qed

lemma SplitHostPort_bracketed:
  assumes "CHR '':'' \<notin> set t" "lib_ParseInt32 L t = Some n" "0 < n" "n < 0x10000"
  shows "SplitHostPort L (''['' @ h @ '']:'' @ t) d = (n, h)"
proof -
  have "find_last_of (CHR '':'') ((CHR ''['' # h @ [CHR '']'']) @ CHR '':'' # t) = Some (length h + 2)"
    using find_last_of_app [OF assms(1), of "CHR ''['' # h @ [CHR '']'']"] by simp
  then show ?thesis using assms(2-) by (simp add: SplitHostPort_def Let_def nth_append)
qed

lemma SplitHostPort_colons:
  assumes "CHR '':'' \<in> set h" "CHR '':'' \<notin> set t" "CHR ''['' \<notin> set h"
  shows "SplitHostPort L (h @ '':'' @ t) d = (d, h @ '':'' @ t)"
proof -
  have "find_last_of (CHR '':'') (h @ CHR '':'' # t) = Some (length h)" using assms(2) by (rule find_last_of_app)
  moreover have "h \<noteq> []" "h ! 0 \<noteq> CHR ''[''" using assms by (auto, metis length_pos_if_in_set nth_mem)
  ultimately show ?thesis using assms by (simp add: SplitHostPort_def Let_def nth_append)
qed

lemma SplitHostPort_bad_port:
  assumes "CHR '':'' \<notin> set t" "\<And>n. lib_ParseInt32 L t = Some n \<Longrightarrow> n \<le> 0 \<or> 0x10000 \<le> n" "CHR ''['' \<notin> set h"
  shows "SplitHostPort L (h @ '':'' @ t) d = (d, h @ '':'' @ t)"
proof -
  have "find_last_of (CHR '':'') (h @ CHR '':'' # t) = Some (length h)" using assms(1) by (rule find_last_of_app)
  moreover have "(h @ CHR '':'' # t) ! 0 \<noteq> CHR ''[''" using assms(3) by (cases h) auto
  ultimately show ?thesis using assms(2) by (force simp: SplitHostPort_def Let_def split: option.splits)
qed

text \<open>
  \<^verbatim>\<open>SplitHostPort\<close>, on every form of its input: \<open>host:port\<close> and \<open>[host]:port\<close> give the host and the port when the
  port is a number from 1 to 65535; a bare IPv6 address, whose last group must not be taken for a port, and a
  host with an unusable port are kept whole with the default port, as is a host without a port; brackets
  around a lone host are dropped.
\<close>

lemma SplitHostPort_forms:
  assumes "CHR '':'' \<notin> set t" "CHR '':'' \<notin> set h" "CHR ''['' \<notin> set h" "CHR '':'' \<in> set v6" "CHR ''['' \<notin> set v6"
    "lib_ParseInt32 L t = Some n" "0 < n" "n < 0x10000"
    "CHR '':'' \<notin> set bad" "\<And>k. lib_ParseInt32 L bad = Some k \<Longrightarrow> k \<le> 0 \<or> 0x10000 \<le> k"
  shows "SplitHostPort L (h @ '':'' @ t) d = (n, h) \<and> SplitHostPort L (''['' @ w @ '']:'' @ t) d = (n, w)
    \<and> SplitHostPort L (v6 @ '':'' @ t) d = (d, v6 @ '':'' @ t)
    \<and> SplitHostPort L (h @ '':'' @ bad) d = (d, h @ '':'' @ bad)
    \<and> SplitHostPort L h d = (d, h) \<and> SplitHostPort L (''['' @ h @ '']'') d = (d, h)"
proof -
  have "find_last_of (CHR '':'') h = None" "find_last_of (CHR '':'') (CHR ''['' # h @ [CHR '']'']) = None"
    using assms(2) by (simp_all only: find_last_of_None) auto
  moreover have "h \<noteq> [] \<Longrightarrow> h ! 0 \<noteq> CHR ''[''" using assms(3) by (metis length_greater_0_conv nth_mem)
  ultimately have "SplitHostPort L h d = (d, h)" "SplitHostPort L (''['' @ h @ '']'') d = (d, h)"
    by (auto simp: SplitHostPort_def Let_def nth_append simp del: find_last_of_None)
  moreover have "SplitHostPort L (h @ '':'' @ t) d = (n, h)" by (rule SplitHostPort_plain) (rule assms)+
  moreover have "SplitHostPort L (''['' @ w @ '']:'' @ t) d = (n, w)" by (rule SplitHostPort_bracketed) (rule assms)+
  moreover have "SplitHostPort L (v6 @ '':'' @ t) d = (d, v6 @ '':'' @ t)" by (rule SplitHostPort_colons) (rule assms)+
  moreover have "SplitHostPort L (h @ '':'' @ bad) d = (d, h @ '':'' @ bad)"
    using assms(9,10,3) by (rule SplitHostPort_bad_port)
  ultimately show ?thesis by blast
qed

text \<open>A library with one host, for the examples.\<close>

definition sample_lib :: netlib where
  "sample_lib =
     \<lparr>DecodeBase32 = (\<lambda>_. []), EncodeBase32 = (\<lambda>_. []),
      lib_ParseInt32 = (\<lambda>s. if s = ''80'' then Some 80 else if s = ''8'' then Some 8 else None),
      lib_Hash = (\<lambda>_. []),
      getaddrinfo = (\<lambda>name _.
        if name = ''10.1.2.3'' then Some [\<lparr>ai_family = AF_INET, ai_addrlen = 16, ai_addr = [10, 1, 2, 3]\<rparr>]
        else if name = ''255.0.255.0'' then Some [\<lparr>ai_family = AF_INET, ai_addrlen = 16, ai_addr = [255, 0, 255, 0]\<rparr>]
        else None),
      getnameinfo = (\<lambda>_. None)\<rparr>"

lemma SplitHostPort_forms_witness:
  "SplitHostPort sample_lib ''10.1.2.3:80'' 7 = (80, ''10.1.2.3'')
   \<and> SplitHostPort sample_lib ''[::1]:80'' 7 = (80, ''::1'') \<and> SplitHostPort sample_lib ''::1:80'' 7 = (7, ''::1:80'')
   \<and> SplitHostPort sample_lib ''10.1.2.3:http'' 7 = (7, ''10.1.2.3:http'')"
  using SplitHostPort_forms [of "''80''" "''10.1.2.3''" "''::1''" sample_lib 80 "''http''" 7 "''::1''"]
  by (simp add: sample_lib_def)

subsection \<open>What a lookup answers\<close>

text \<open>
  The reference: the entries of the resolver's answer that are IPv4 or IPv6 addresses, in its order, each as the class stores it, cut
  after \<open>n\<close> of them unless \<open>n\<close> is 0.
\<close>

definition entry_addr :: "addrinfo \<Rightarrow> CNetAddr" where
  "entry_addr ai = \<lparr>ip = (if ai_family ai = AF_INET then pchIPv4 @ ai_addr ai else ai_addr ai)\<rparr>"

definition inet_entries :: "addrinfo list \<Rightarrow> CNetAddr list" where
  "inet_entries ais = map entry_addr (filter (\<lambda>ai. ai_family ai \<noteq> AF_OTHER) ais)"

definition resolved :: "netlib \<Rightarrow> string \<Rightarrow> bool \<Rightarrow> nat \<Rightarrow> CNetAddr list" where
  "resolved L host f n =
     (let v = inet_entries (case getaddrinfo L host f of None \<Rightarrow> [] | Some ais \<Rightarrow> ais) in if n = 0 then v else take n v)"

lemma in_addr_entry:
  "length a = 4 \<Longrightarrow> CNetAddr_in_addr a = Some \<lparr>ip = pchIPv4 @ a\<rparr>" "length a = 16 \<Longrightarrow> CNetAddr_in6_addr a = Some \<lparr>ip = a\<rparr>"
  by (simp_all add: CNetAddr_in_addr_def CNetAddr_in6_addr_def SetRaw_def net_Init_def pchIPv4_def)

lemma lookup_loop_entries:
  assumes "\<forall>ai \<in> set ais. entry_ok ai" "n = 0 \<or> length v \<le> n"
  shows "lookup_loop ais n v = Some (v @ (if n = 0 then inet_entries ais else take (n - length v) (inet_entries ais)))"
  using assms
proof (induction ais arbitrary: v)
  case (Cons ai ais)
  have ok: "entry_ok ai" "\<forall>ai \<in> set ais. entry_ok ai" using Cons.prems(1) by simp_all
  show ?case
  proof (cases "n = 0 \<or> length v < n")
    case True
    then have "n \<noteq> 0 \<Longrightarrow> n - length v = Suc (n - Suc (length v))" by simp
    then show ?thesis
      using True ok Cons.IH [of v] Cons.IH [of "v @ [entry_addr ai]"] in_addr_entry [of "ai_addr ai"]
      by (cases "ai_family ai") (auto simp: entry_ok_def inet_entries_def entry_addr_def)
  qed (use Cons.prems in auto)
qed (simp add: inet_entries_def)

lemma LookupIntern_resolved:
  assumes "resolver_ok L" "SetSpecial L host net_Init = (False, a)"
  shows "LookupIntern L host n f = Some (resolved L host f n \<noteq> [], resolved L host f n)"
  using assms lookup_loop_entries [of _ n "[]"]
  by (auto simp: LookupIntern_def resolved_def inet_entries_def resolver_ok_def split: option.splits)

text \<open>
  C24. \<^verbatim>\<open>Lookup\<close> of a name with an optional port. For an onion name whose part before the suffix decodes to ten bytes the
  result is that Tor address, and the resolver is not asked. For any other name it is the IPv4 and IPv6 addresses of the
  resolver's answer in its order, at most \<^verbatim>\<open>nMaxSolutions\<close> unless that is 0, each with the port from the name or the
  default one, and \<^verbatim>\<open>false\<close> when there is none. The version for one service gives the first of them.
\<close>

theorem Lookup_answers:
  assumes "resolver_ok L" "name \<noteq> []" "SplitHostPort L name d = (p, host)"
  shows "(\<forall>h. c_str host = h @ ''.onion'' \<and> h \<noteq> [] \<and> length (DecodeBase32 L (c_str h)) = 10 \<longrightarrow>
      Lookup_all L name d f n = Some (Some [CService_ip \<lparr>ip = pchOnionCat @ DecodeBase32 L (c_str h)\<rparr> (word_of_int p)]))
    \<and> (\<not> fst (SetSpecial L (c_str host) net_Init) \<longrightarrow>
        Lookup_all L name d f n =
          Some (if resolved L (c_str host) f n = [] then None
                else Some (map (\<lambda>a. CService_ip a (word_of_int p)) (resolved L (c_str host) f n)))
        \<and> Lookup L name d f =
          Some (case resolved L (c_str host) f 0 of [] \<Rightarrow> None | a # _ \<Rightarrow> Some (CService_ip a (word_of_int p))))"
proof (intro conjI allI impI)
  fix h assume "c_str host = h @ ''.onion'' \<and> h \<noteq> [] \<and> length (DecodeBase32 L (c_str h)) = 10"
  then show "Lookup_all L name d f n = Some (Some [CService_ip \<lparr>ip = pchOnionCat @ DecodeBase32 L (c_str h)\<rparr> (word_of_int p)])"
    using assms by (simp add: Lookup_all_def LookupIntern_def SetSpecial_def net_Init_def pchOnionCat_def)
next
  assume "\<not> fst (SetSpecial L (c_str host) net_Init)"
  then obtain a where "SetSpecial L (c_str host) net_Init = (False, a)" by (cases "SetSpecial L (c_str host) net_Init") simp
  note r = LookupIntern_resolved [OF assms(1) this]
  show all: "Lookup_all L name d f n =
      Some (if resolved L (c_str host) f n = [] then None
            else Some (map (\<lambda>a. CService_ip a (word_of_int p)) (resolved L (c_str host) f n)))"
    using assms r by (simp add: Lookup_all_def)
  have one: "resolved L (c_str host) f 1 = take 1 (resolved L (c_str host) f 0)" by (simp add: resolved_def)
  show "Lookup L name d f = Some (case resolved L (c_str host) f 0 of [] \<Rightarrow> None | a # _ \<Rightarrow> Some (CService_ip a (word_of_int p)))"
    using assms r by (cases "resolved L (c_str host) f 0") (simp_all add: Lookup_def Lookup_all_def one del: One_nat_def)
qed

definition answer_lib :: netlib where
  "answer_lib = sample_lib\<lparr>getaddrinfo := (\<lambda>_ _. Some
     [\<lparr>ai_family = AF_OTHER, ai_addrlen = 0, ai_addr = []\<rparr>,
      \<lparr>ai_family = AF_INET6, ai_addrlen = 28, ai_addr = replicate 15 0 @ [1]\<rparr>,
      \<lparr>ai_family = AF_INET, ai_addrlen = 16, ai_addr = [10, 1, 2, 3]\<rparr>,
      \<lparr>ai_family = AF_INET, ai_addrlen = 16, ai_addr = [10, 1, 2, 4]\<rparr>])\<rparr>"

theorem Lookup_answers_witness:
  "Lookup_all answer_lib ''host:80'' 7 True 2 = Some (Some
     [CService_ip \<lparr>ip = replicate 15 0 @ [1]\<rparr> 80, CService_ip \<lparr>ip = pchIPv4 @ [10, 1, 2, 3]\<rparr> 80])"
proof -
  have "resolver_ok answer_lib" by (simp add: resolver_ok_def answer_lib_def entry_ok_def)
  moreover have "SplitHostPort answer_lib ''host:80'' 7 = (80, ''host'')" by code_simp
  moreover have "\<not> fst (SetSpecial answer_lib (c_str ''host'') net_Init)" by code_simp
  moreover have "resolved answer_lib (c_str ''host'') True 2 = [\<lparr>ip = replicate 15 0 @ [1]\<rparr>, \<lparr>ip = pchIPv4 @ [10, 1, 2, 3]\<rparr>]" by code_simp
  ultimately show ?thesis using Lookup_answers [of answer_lib "''host:80''" 7 80 "''host''" True 2] by simp
qed

lemma digit_char_in: "d < 10 \<Longrightarrow> digit_char d \<in> set ''0123456789''" "d < 16 \<Longrightarrow> digit_char d \<in> set ''0123456789abcdef''"
proof -
  show "digit_char d \<in> set ''0123456789''" if "d < 10"
  proof -
    have "digit_char d = ''0123456789'' ! d" using that by (auto simp: digit_char_def nth_append numeral_eq_Suc less_Suc_eq)
    then show ?thesis using that by (simp only: nth_mem) (rule nth_mem, simp)
  qed
  show "d < 16 \<Longrightarrow> digit_char d \<in> set ''0123456789abcdef''"
    unfolding digit_char_def by (rule nth_mem) simp
qed

lemma printf_u_chars: "set (printf_u n) \<subseteq> set ''0123456789''"
proof (induction n rule: printf_u.induct)
  case (1 n)
  have "digit_char (n mod 10) \<in> set ''0123456789''" by (rule digit_char_in) simp
  then show ?case using 1 digit_char_in(1) [of n] by (subst printf_u.simps) auto
qed

lemma printf_x_chars: "set (printf_x n) \<subseteq> set ''0123456789abcdef''"
proof (induction n rule: printf_x.induct)
  case (1 n)
  have "digit_char (n mod 16) \<in> set ''0123456789abcdef''" by (rule digit_char_in) simp
  then show ?case using 1 digit_char_in(2) [of n] by (subst printf_x.simps) auto
qed

definition numeric_chars :: "char set" where
  "numeric_chars = set ''0123456789abcdef.:''"

lemma set_join_map:
  assumes "\<And>i. set (f i) \<subseteq> A"
  shows "set (join_with sep (map f l)) \<subseteq> set sep \<union> A"
proof
  fix c assume "c \<in> set (join_with sep (map f l))"
  then have "c \<in> set sep \<or> (\<exists>i. c \<in> set (f i))" by (cases l) (auto simp: join_with_def split: if_splits)
  then show "c \<in> set sep \<union> A" using assms by blast
qed

lemma join_map_nonempty: "l \<noteq> [] \<Longrightarrow> (\<And>i. f i \<noteq> []) \<Longrightarrow> join_with sep (map f l) \<noteq> []"
  by (cases l) (auto simp: join_with_def)

lemma printf_nonempty [simp]: "printf_u n \<noteq> []" "printf_x n \<noteq> []"
  by (subst printf_u.simps, simp) (subst printf_x.simps, simp)

lemma format_IPv4_chars: "set (format_IPv4 bs) \<subseteq> numeric_chars - {CHR '':''}" "format_IPv4 bs \<noteq> []"
proof -
  have "set (format_IPv4 bs) \<subseteq> set ''.'' \<union> set ''0123456789''"
    unfolding format_IPv4_def by (rule set_join_map) (rule printf_u_chars)
  moreover have "set ''.'' \<union> set ''0123456789'' \<subseteq> numeric_chars - {CHR '':''}" by (simp add: numeric_chars_def)
  ultimately show "set (format_IPv4 bs) \<subseteq> numeric_chars - {CHR '':''}" by (rule order_trans)
  show "format_IPv4 bs \<noteq> []" unfolding format_IPv4_def by (rule join_map_nonempty) simp_all
qed

lemma format_IPv6_chars: "set (format_IPv6 bs) \<subseteq> numeric_chars" "format_IPv6 bs \<noteq> []"
proof -
  have "set (format_IPv6 bs) \<subseteq> set '':'' \<union> set ''0123456789abcdef''"
    unfolding format_IPv6_def by (rule set_join_map) (rule printf_x_chars)
  moreover have "set '':'' \<union> set ''0123456789abcdef'' \<subseteq> numeric_chars" by (simp add: numeric_chars_def)
  ultimately show "set (format_IPv6 bs) \<subseteq> numeric_chars" by (rule order_trans)
  show "format_IPv6 bs \<noteq> []" unfolding format_IPv6_def by (rule join_map_nonempty) simp_all
qed

subsection \<open>Printing and reading a service\<close>

text \<open>
  What the resolver documents for numeric names, at the address of a service: the name that \<^verbatim>\<open>getnameinfo\<close> gives
  (with \<^verbatim>\<open>NI_NUMERICHOST\<close>) and the text of the fallback format are numeric, and \<^verbatim>\<open>getaddrinfo\<close> reads them as that address.
  For Tor, that base 32 without padding can be decoded.
\<close>

definition addr_entry :: "'a CNetAddr_scheme \<Rightarrow> addrinfo" where
  "addr_entry a =
     (if IsIPv4 a then \<lparr>ai_family = AF_INET, ai_addrlen = 16, ai_addr = drop 12 (ip a)\<rparr>
      else \<lparr>ai_family = AF_INET6, ai_addrlen = 28, ai_addr = ip a\<rparr>)"

definition numeric_name :: "'a CNetAddr_scheme \<Rightarrow> string \<Rightarrow> bool" where
  "numeric_name a nm \<longleftrightarrow> nm \<noteq> [] \<and> set nm \<subseteq> (if IsIPv4 a then numeric_chars - {CHR '':''} else numeric_chars)"

definition names_ok :: "netlib \<Rightarrow> 'a CNetAddr_scheme \<Rightarrow> bool" where
  "names_ok L a \<longleftrightarrow>
     (if IsTor a
      then let nm = EncodeBase32 L (drop 6 (ip a))
           in nm \<noteq> [] \<and> CHR '':'' \<notin> set nm \<and> CHR ''['' \<notin> set nm \<and> CHR 0x00 \<notin> set nm \<and> DecodeBase32 L nm = drop 6 (ip a)
      else (case GetSockAddr (CService_ip a 0) 128 of
              None \<Rightarrow> True
            | Some (sa, len) \<Rightarrow>
                (case getnameinfo L sa of
                   None \<Rightarrow> True
                 | Some nm \<Rightarrow> numeric_name a nm \<and> getaddrinfo L nm False = Some [addr_entry a]))
           \<and> getaddrinfo L (if IsIPv4 a then format_IPv4 (ip a) else format_IPv6 (ip a)) False = Some [addr_entry a])"

lemma numeric_excludes:
  "CHR 0x00 \<notin> numeric_chars" "CHR ''['' \<notin> numeric_chars" "CHR ''o'' \<notin> numeric_chars"
  by (simp_all add: numeric_chars_def)

lemma printf_u_excludes: "CHR 0x00 \<notin> set (printf_u n)" "CHR '':'' \<notin> set (printf_u n)"
  using printf_u_chars [of n] by auto

lemma ToStringIP_numeric:
  assumes "names_ok L a" "\<not> IsTor a"
  shows "numeric_name a (ToStringIP L a) \<and> getaddrinfo L (ToStringIP L a) False = Some [addr_entry a]"
  using assms format_IPv4_chars [of "ip a"] format_IPv6_chars [of "ip a"]
  by (auto simp: names_ok_def ToStringIP_def numeric_name_def Let_def split: option.splits)

lemma LookupIntern_entry:
  assumes "net_wf a" "\<not> IsTor a" "numeric_name a nm" "getaddrinfo L nm False = Some [addr_entry a]"
  shows "\<exists>c. LookupIntern L nm 1 False = Some (True, [c]) \<and> ip c = ip a"
proof -
  have l: "length (ip a) = 16" using assms(1) by (simp add: net_wf_def)
  have "set nm \<subseteq> numeric_chars" using assms(3) by (auto simp: numeric_name_def split: if_splits)
  then have "drop k nm \<noteq> ''.onion''" for k using numeric_excludes(3) set_drop_subset [of k nm] by (metis list.set_intros subsetD)
  then have sp: "SetSpecial L nm net_Init = (False, net_Init)" by (simp add: SetSpecial_def)
  show ?thesis
  proof (cases "IsIPv4 a")
    case True
    then have "ip a = pchIPv4 @ drop 12 (ip a)" using append_take_drop_id [of 12 "ip a"] by (simp add: IsIPv4_def)
    then show ?thesis
      using net_wf_in_addr(1) [of "drop 12 (ip a)"] l True assms(4) by (auto simp: LookupIntern_def sp addr_entry_def)
  next
    case False
    then show ?thesis
      using net_wf_in_addr(2) [of "ip a"] l assms(4) by (auto simp: LookupIntern_def sp addr_entry_def)
  qed
qed

lemma LookupIntern_onion:
  assumes "net_wf a" "IsTor a" "names_ok L a"
  shows "\<exists>c. LookupIntern L (ToStringIP L a) 1 False = Some (True, [c]) \<and> ip c = ip a"
proof -
  have l: "length (ip a) = 16" using assms(1) by (simp add: net_wf_def)
  then have "ip a = pchOnionCat @ drop 6 (ip a)" "take 10 (drop 6 (ip a)) = drop 6 (ip a)"
    using assms(2) append_take_drop_id [of 6 "ip a"] by (simp_all add: IsTor_def)
  then show ?thesis
    using assms(2,3) l
    by (auto simp: ToStringIP_def LookupIntern_def SetSpecial_def names_ok_def Let_def c_str_id pchOnionCat_def)
qed

text \<open>The printed host, in brackets exactly when it may contain colons, is split off again.\<close>

lemma SplitHostPort_ToString:
  assumes "net_wf s" "names_ok L s" "lib_ParseInt32 L (ToStringPort s) = Some (int (unat (port s)))" "port s \<noteq> 0"
  shows "SplitHostPort L (service_ToString L s) d = (int (unat (port s)), ToStringIP L s)"
    and "CHR 0x00 \<notin> set (service_ToString L s)"
    and "CHR 0x00 \<notin> set (ToStringIP L s)"
proof -
  have "0 < unat (port s)" "unat (port s) < 65536" using assms(4) unat_u16 [of "port s"] by (simp_all add: unat_gt_0)
  then have n: "0 < int (unat (port s))" "int (unat (port s)) < 0x10000" by linarith+
  have t: "CHR '':'' \<notin> set (ToStringPort s)" "CHR 0x00 \<notin> set (ToStringPort s)"
    by (simp_all add: ToStringPort_def printf_u_excludes)
  have tor: "take 10 (drop 6 (ip s)) = drop 6 (ip s)" using assms(1) by (simp add: net_wf_def)
  have host: "CHR 0x00 \<notin> set (ToStringIP L s)"
    "IsIPv4 s \<or> IsTor s \<Longrightarrow> CHR '':'' \<notin> set (ToStringIP L s) \<and> CHR ''['' \<notin> set (ToStringIP L s)"
  proof (atomize (full), cases "IsTor s")
    case True
    then show "CHR 0x00 \<notin> set (ToStringIP L s) \<and>
      (IsIPv4 s \<or> IsTor s \<longrightarrow> CHR '':'' \<notin> set (ToStringIP L s) \<and> CHR ''['' \<notin> set (ToStringIP L s))"
      using assms(2) tor by (auto simp: ToStringIP_def names_ok_def Let_def)
  next
    case False
    then show "CHR 0x00 \<notin> set (ToStringIP L s) \<and>
      (IsIPv4 s \<or> IsTor s \<longrightarrow> CHR '':'' \<notin> set (ToStringIP L s) \<and> CHR ''['' \<notin> set (ToStringIP L s))"
      using ToStringIP_numeric [OF assms(2)] numeric_excludes by (auto simp: numeric_name_def split: if_splits)
  qed
  show "SplitHostPort L (service_ToString L s) d = (int (unat (port s)), ToStringIP L s)"
    using SplitHostPort_plain [OF _ t(1) assms(3) n, of "ToStringIP L s"] host
      SplitHostPort_bracketed [OF t(1) assms(3) n, of "ToStringIP L s"]
    by (auto simp: service_ToString_def ToStringIPPort_def)
  show "CHR 0x00 \<notin> set (service_ToString L s)" "CHR 0x00 \<notin> set (ToStringIP L s)"
    using host(1) t(2) by (auto simp: service_ToString_def ToStringIPPort_def)
qed

text \<open>
  C20. The constructor from text reads back what \<^verbatim>\<open>ToString\<close> prints: a service with a nonzero port, IPv4, IPv6 or Tor, printed with its
  host (in brackets for IPv6) and port, is the same service after \<^verbatim>\<open>CService(text)\<close> without name lookup,
  whatever default port is given.
\<close>

theorem service_text_roundtrip:
  assumes "net_wf s" "port s \<noteq> 0" "names_ok L s" "lib_ParseInt32 L (ToStringPort s) = Some (int (unat (port s)))"
  shows "CService_str L (service_ToString L s) d False = Some s"
proof -
  note split = SplitHostPort_ToString [OF assms(1,3,4,2)]
  obtain c where c: "LookupIntern L (ToStringIP L s) 1 False = Some (True, [c])" "ip c = ip s"
    using LookupIntern_onion [OF assms(1) _ assms(3)] LookupIntern_entry [OF assms(1)] ToStringIP_numeric [OF assms(3)]
    by (cases "IsTor s") blast+
  have "service_ToString L s \<noteq> []" by (simp add: service_ToString_def ToStringIPPort_def)
  moreover have "CService_ip c (port s) = s" using c(2) by (cases s) (simp add: CService_ip_def)
  ultimately show ?thesis
    using split c(1) by (simp add: CService_str_def Lookup_def Lookup_all_def c_str_id)
qed

theorem service_text_roundtrip_witness:
  "CService_str sample_lib (service_ToString sample_lib (CService_ip \<lparr>ip = pchIPv4 @ [10, 1, 2, 3]\<rparr> 80)) 0 False
     = Some (CService_ip \<lparr>ip = pchIPv4 @ [10, 1, 2, 3]\<rparr> 80)"
proof -
  let ?s = "CService_ip \<lparr>ip = pchIPv4 @ [10, 1, 2, 3]\<rparr> 80"
  have "net_wf ?s" by (simp add: net_wf_def CService_ip_def pchIPv4_def)
  moreover have "port ?s \<noteq> 0" by code_simp
  moreover have "names_ok sample_lib ?s" by code_simp
  moreover have "lib_ParseInt32 sample_lib (ToStringPort ?s) = Some (int (unat (port ?s)))" by code_simp
  ultimately show ?thesis by (rule service_text_roundtrip)
qed

end
