(* ===== verification/Net_Subnet.thy ===== *)
theory Net_Subnet
  imports Net_Service
begin

section \<open>Subnets (util/netbase: CSubNet)\<close>

text \<open>
  A subnet is a base address and a mask of 16 bytes. The constructor from text accepts a single address,
  \<open>address/n\<close> and \<open>address/mask\<close>; the theorems say which addresses the subnet so written matches and that it is
  printed back with the same \<open>n\<close>.
\<close>

record CSubNet =
  network :: CNetAddr
  netmask :: "byte list"
  valid :: bool

definition CSubNet_new :: CSubNet where
  "CSubNet_new = \<lparr>network = net_Init, netmask = replicate 16 0, valid = False\<rparr>"

text \<open>The loop that clears the bits from \<open>n\<close> on, and the copy of a mask into the bytes from \<open>astartofs\<close> on.\<close>

function clear_loop :: "nat \<Rightarrow> byte list \<Rightarrow> byte list" where
  "clear_loop n m =
     (if n < 128
      then clear_loop (Suc n) (m[n div 8 := m ! (n div 8) AND NOT (push_bit (7 - n mod 8) 1)])
      else m)"
  by pat_completeness auto
termination
  by (relation "measure (\<lambda>(n, _). 128 - n)") auto

declare clear_loop.simps [simp del]

definition copy_mask :: "nat \<Rightarrow> byte list \<Rightarrow> byte list \<Rightarrow> byte list" where
  "copy_mask astartofs src m = take astartofs m @ take (16 - astartofs) (drop astartofs src)"

definition and_bytes :: "byte list \<Rightarrow> byte list \<Rightarrow> byte list" where
  "and_bytes xs ys = map2 (AND) xs ys"

text \<open>\<open>None\<close> is a failed assertion of the lookup.\<close>

definition CSubNet_str :: "netlib \<Rightarrow> string \<Rightarrow> bool \<Rightarrow> CSubNet option" where
  "CSubNet_str L strSubnet fAllowLookup =
     (let slash = find_last_of (CHR ''/'') strSubnet;
          this = \<lparr>network = net_Init, netmask = replicate 16 255, valid = True\<rparr>;
          strAddress = (case slash of None \<Rightarrow> strSubnet | Some k \<Rightarrow> take k strSubnet)
      in do {
        (found, vIP) \<leftarrow> LookupHost L (c_str strAddress) 1 fAllowLookup;
        this \<leftarrow>
          (if found then
             let this = this\<lparr>network := the vIP ! 0\<rparr>
             in case slash of
                  None \<Rightarrow> Some this
                | Some k \<Rightarrow>
                    let strNetmask = drop (k + 1) strSubnet;
                        astartofs = (if IsIPv4 (network this) then 12 else 0)
                    in case lib_ParseInt32 L strNetmask of
                         Some n \<Rightarrow>
                           Some (if n \<ge> 0 \<and> n \<le> 128 - int astartofs * 8
                                 then this\<lparr>netmask := clear_loop (nat n + astartofs * 8) (netmask this)\<rparr>
                                 else this\<lparr>valid := False\<rparr>)
                       | None \<Rightarrow> do {
                           (found, vIP) \<leftarrow> LookupHost L (c_str strNetmask) 1 False;
                           Some (if found then this\<lparr>netmask := copy_mask astartofs (ip (the vIP ! 0)) (netmask this)\<rparr>
                                 else this\<lparr>valid := False\<rparr>)
                         }
           else Some (this\<lparr>valid := False\<rparr>));
        Some (this\<lparr>network := (network this)\<lparr>ip := and_bytes (ip (network this)) (netmask this)\<rparr>\<rparr>)
      })"

definition CSubNet_addr :: "CNetAddr \<Rightarrow> CSubNet" where
  "CSubNet_addr addr = \<lparr>network = addr, netmask = replicate 16 255, valid = IsValid addr\<rparr>"

definition Match :: "CSubNet \<Rightarrow> 'a CNetAddr_scheme \<Rightarrow> bool" where
  "Match this addr \<longleftrightarrow>
     (if \<not> valid this \<or> \<not> IsValid addr then False
      else list_all (\<lambda>x. ip addr ! x AND netmask this ! x = ip (network this) ! x) [0..<16])"

definition NetmaskBits :: "byte \<Rightarrow> int" where
  "NetmaskBits x =
     (if x = 0x00 then 0 else if x = 0x80 then 1 else if x = 0xc0 then 2 else if x = 0xe0 then 3
      else if x = 0xf0 then 4 else if x = 0xf8 then 5 else if x = 0xfc then 6 else if x = 0xfe then 7
      else if x = 0xff then 8 else - 1)"

text \<open>The two loops of \<^verbatim>\<open>ToString\<close>: over the leading bytes \<^verbatim>\<open>0xff\<close> and over the bytes that must be zero.\<close>

function ones_loop :: "byte list \<Rightarrow> nat \<Rightarrow> int \<Rightarrow> nat \<times> int" where
  "ones_loop m n cidr = (if n < 16 \<and> m ! n = 0xff then ones_loop m (Suc n) (cidr + 8) else (n, cidr))"
  by pat_completeness auto
termination
  by (relation "measure (\<lambda>(_, n, _). 16 - n)") auto

declare ones_loop.simps [simp del]

function zeros_loop :: "byte list \<Rightarrow> nat \<Rightarrow> bool \<Rightarrow> bool" where
  "zeros_loop m n valid_cidr =
     (if n < 16 \<and> valid_cidr then zeros_loop m (Suc n) (if m ! n \<noteq> 0x00 then False else valid_cidr)
      else valid_cidr)"
  by pat_completeness auto
termination
  by (relation "measure (\<lambda>(_, n, _). 16 - n)") auto

declare zeros_loop.simps [simp del]

definition mask_cidr :: "byte list \<Rightarrow> nat \<Rightarrow> int option" where
  "mask_cidr m start =
     (let (n, cidr) = ones_loop m start 0;
          (n, cidr, valid_cidr) =
            (if n < 16
             then let bits = NetmaskBits (m ! n)
                  in (Suc n, if bits < 0 then cidr else cidr + bits, \<not> bits < 0)
             else (n, cidr, True))
      in if zeros_loop m n valid_cidr then Some cidr else None)"

definition subnet_ToString :: "netlib \<Rightarrow> CSubNet \<Rightarrow> string" where
  "subnet_ToString L this =
     (let strNetmask =
            (case mask_cidr (netmask this) (if IsIPv4 (network this) then 12 else 0) of
               Some cidr \<Rightarrow> printf_u (nat cidr)
             | None \<Rightarrow> if IsIPv4 (network this) then format_IPv4 (netmask this) else format_IPv6 (netmask this))
      in net_ToString L (network this) @ ''/'' @ strNetmask)"

definition subnet_IsValid :: "CSubNet \<Rightarrow> bool" where "subnet_IsValid this = valid this"

definition subnet_eq :: "CSubNet \<Rightarrow> CSubNet \<Rightarrow> bool" where
  "subnet_eq a b \<longleftrightarrow> valid a = valid b \<and> net_eq (network a) (network b) \<and> memcmp (netmask a) (netmask b) = 0"

definition subnet_ne :: "CSubNet \<Rightarrow> CSubNet \<Rightarrow> bool" where "subnet_ne a b \<longleftrightarrow> \<not> subnet_eq a b"

definition subnet_lt :: "CSubNet \<Rightarrow> CSubNet \<Rightarrow> bool" where
  "subnet_lt a b \<longleftrightarrow>
     net_lt (network a) (network b) \<or> (net_eq (network a) (network b) \<and> memcmp (netmask a) (netmask b) < 0)"

subsection \<open>Masks as bits\<close>

lemma length_clear_loop [simp]: "length (clear_loop n m) = length m"
  by (induction n m rule: clear_loop.induct) (subst clear_loop.simps, simp)

lemma addr_bit_clear:
  assumes "length m = 16" "n < 128" "i < 128"
  shows "addr_bit (m[n div 8 := m ! (n div 8) AND NOT (push_bit (7 - n mod 8) 1)]) i \<longleftrightarrow> addr_bit m i \<and> i \<noteq> n"
proof (cases "i div 8 = n div 8")
  case True
  have "7 - i mod 8 = 7 - n mod 8 \<longleftrightarrow> i mod 8 = n mod 8"
    using mod_less_divisor [of 8 i] mod_less_divisor [of 8 n] by linarith
  moreover have "i = n \<longleftrightarrow> i mod 8 = n mod 8" using True by (metis div_mult_mod_eq)
  moreover have "7 - i mod 8 < 8" by simp
  ultimately show ?thesis using assms True by (auto simp: addr_bit_def bit_simps bit_1_iff)
next
  case False
  then show ?thesis using assms by (auto simp: addr_bit_def)
qed

lemma addr_bit_clear_loop:
  assumes "length m = 16" "i < 128"
  shows "addr_bit (clear_loop n m) i \<longleftrightarrow> addr_bit m i \<and> i < n"
  using assms
proof (induction n m rule: clear_loop.induct)
  case (1 n m)
  show ?case
    using 1 addr_bit_clear [of m n i] by (subst clear_loop.simps) auto
qed

lemma addr_bit_ones: "i < 128 \<Longrightarrow> addr_bit (replicate 16 255) i"
proof -
  assume "i < 128"
  then have "(replicate 16 255 :: byte list) ! (i div 8) = mask 8"
    by (simp add: nth_replicate mask_eq_exp_minus_1)
  then show ?thesis by (simp add: addr_bit_def bit_simps)
qed

lemma bytes_eqI:
  assumes "length xs = 16" "length ys = 16"
  shows "xs = ys \<longleftrightarrow> (\<forall>i < 128. addr_bit xs i = addr_bit ys i)"
  using same_prefix_take [of xs ys 128 16] assms by (simp add: same_prefix_def)

lemma addr_bit_and:
  assumes "length xs = 16" "length ys = 16" "i < 128"
  shows "addr_bit (and_bytes xs ys) i \<longleftrightarrow> addr_bit xs i \<and> addr_bit ys i"
  using assms by (simp add: addr_bit_def and_bytes_def bit_simps)

lemma length_and_bytes [simp]: "length (and_bytes xs ys) = min (length xs) (length ys)"
  by (simp add: and_bytes_def)

lemma Match_bits:
  assumes "length (netmask S) = 16" "length (ip (network S)) = 16" "net_wf b"
  shows "Match S b \<longleftrightarrow> valid S \<and> IsValid b \<and>
    (\<forall>i < 128. (addr_bit (ip b) i \<and> addr_bit (netmask S) i) = addr_bit (ip (network S)) i)"
proof -
  have b: "length (ip b) = 16" using assms(3) by (simp add: net_wf_def)
  have "list_all (\<lambda>x. ip b ! x AND netmask S ! x = ip (network S) ! x) [0..<16] \<longleftrightarrow>
      and_bytes (ip b) (netmask S) = ip (network S)"
    using assms b by (auto simp: list_all_iff list_eq_iff_nth_eq and_bytes_def)
  then show ?thesis
    using assms b bytes_eqI [of "and_bytes (ip b) (netmask S)" "ip (network S)"]
    by (auto simp: Match_def addr_bit_and)
qed

subsection \<open>Masks as numbers\<close>

text \<open>\<open>cidr_byte k\<close> has \<open>k\<close> leading ones; a mask of \<open>n\<close> ones is made of such bytes.\<close>

definition cidr_byte :: "nat \<Rightarrow> byte" where
  "cidr_byte k = NOT (mask (8 - k))"

lemma NetmaskBits_cidr: "k \<le> 8 \<Longrightarrow> NetmaskBits (cidr_byte k) = int k"
proof -
  assume "k \<le> 8"
  then have "k \<in> {0, 1, 2, 3, 4, 5, 6, 7, 8}" by auto
  then show ?thesis by (auto simp: cidr_byte_def NetmaskBits_def mask_eq_exp_minus_1)
qed

lemma cidr_byte_full: "k \<le> 8 \<Longrightarrow> cidr_byte k = 0xff \<longleftrightarrow> k = 8"
  using NetmaskBits_cidr [of k] by (auto simp: NetmaskBits_def split: if_splits)

lemma addr_bit_byte: "j < 8 \<Longrightarrow> addr_bit bs (8 * x + j) = bit (bs ! x) (7 - j)"
  by (simp add: addr_bit_def)

lemma clear_loop_nth:
  assumes "x < 16"
  shows "clear_loop n (replicate 16 255) ! x = cidr_byte (min 8 (n - 8 * x))"
proof (rule bit_word_eqI)
  fix k assume "k < LENGTH(8)"
  then obtain j where j: "j < 8" "k = 7 - j" by (intro that [of "7 - k"]) auto
  have i: "8 * x + j < 128" using j assms by simp
  have "bit (clear_loop n (replicate 16 255) ! x) k \<longleftrightarrow> 8 * x + j < n"
    using addr_bit_clear_loop [OF _ i] addr_bit_ones [OF i] addr_bit_byte [OF j(1)] unfolding j(2) by simp
  also have "\<dots> \<longleftrightarrow> 8 - min 8 (n - 8 * x) \<le> k" using j by auto
  finally show "bit (clear_loop n (replicate 16 255) ! x) k = bit (cidr_byte (min 8 (n - 8 * x))) k"
    using j by (auto simp: cidr_byte_def bit_simps not_less)
qed

lemma ones_loop_cidr:
  assumes "\<And>x. x < 16 \<Longrightarrow> m ! x = cidr_byte (min 8 (n - 8 * x))" "8 * i \<le> n" "n \<le> 128"
  shows "ones_loop m i c = (n div 8, c + 8 * (int (n div 8) - int i))"
  using assms(2)
proof (induction "16 - i" arbitrary: i c)
  case 0
  then have "i = 16" "n = 128" using assms(3) by auto
  then show ?case by (subst ones_loop.simps) simp
next
  case (Suc k)
  have i: "i < 16" using Suc.hyps(2) by simp
  show ?case
  proof (cases "8 * Suc i \<le> n")
    case True
    then show ?thesis
      using Suc.hyps(1) [of "Suc i" "c + 8"] Suc.hyps(2) i assms(1) [OF i]
      by (subst ones_loop.simps) (simp add: cidr_byte_full)
  next
    case False
    then have "n div 8 = i" "n - 8 * i \<noteq> 8" "min 8 (n - 8 * i) = n - 8 * i" "n - 8 * i \<le> 8"
      using Suc.prems by auto
    then show ?thesis using i assms(1) [OF i] by (subst ones_loop.simps) (simp add: cidr_byte_full)
  qed
qed

lemma zeros_loop_cidr:
  assumes "\<And>x. i \<le> x \<Longrightarrow> x < 16 \<Longrightarrow> m ! x = 0"
  shows "zeros_loop m i True"
  using assms
proof (induction "16 - i" arbitrary: i)
  case (Suc k)
  then have "zeros_loop m (Suc i) True" by (intro Suc.hyps(1)) auto
  then show ?case using Suc.prems [of i] by (subst zeros_loop.simps) simp
qed (subst zeros_loop.simps, simp)

lemma mask_cidr_clear:
  assumes "8 * start \<le> n" "n \<le> 128"
  shows "mask_cidr (clear_loop n (replicate 16 255)) start = Some (int (n - 8 * start))"
proof -
  let ?m = "clear_loop n (replicate 16 255)"
  have nth: "?m ! x = cidr_byte (min 8 (n - 8 * x))" if "x < 16" for x using clear_loop_nth [OF that] .
  have ones: "ones_loop ?m start 0 = (n div 8, 8 * (int (n div 8) - int start))"
    using ones_loop_cidr [OF nth assms] by simp
  show ?thesis
  proof (cases "n div 8 < 16")
    case True
    have bits: "NetmaskBits (?m ! (n div 8)) = int (n mod 8)"
      using nth [OF True] NetmaskBits_cidr [of "n mod 8"] min_absorb2 [of "n mod 8" 8]
      by (simp add: minus_mult_div_eq_mod)
    have "zeros_loop ?m (Suc (n div 8)) True"
      by (rule zeros_loop_cidr) (auto simp: nth cidr_byte_def mask_eq_exp_minus_1)
    moreover have "8 * (int (n div 8) - int start) + int (n mod 8) = int (n - 8 * start)"
      using assms(1) by (simp add: zdiv_int zmod_int of_nat_diff algebra_simps)
    ultimately show ?thesis using True by (simp add: mask_cidr_def ones bits)
  next
    case False
    then have "n = 128" using assms(2) by auto
    then show ?thesis
      using assms(1) ones zeros_loop.simps [of ?m 16 True] by (simp add: mask_cidr_def of_nat_diff)
  qed
qed

subsection \<open>Subnets from text\<close>

definition addr_start :: "'a CNetAddr_scheme \<Rightarrow> nat" where
  "addr_start a = (if IsIPv4 a then 12 else 0)"

lemma CSubNet_str_cidr:
  assumes "CHR ''/'' \<notin> set t" "LookupHost L (c_str h) 1 f = Some (True, Some [a])"
    "lib_ParseInt32 L t = Some (int n)" "n \<le> 128 - 8 * addr_start a"
  shows "CSubNet_str L (h @ ''/'' @ t) f =
    Some (let m = clear_loop (n + 8 * addr_start a) (replicate 16 255)
          in \<lparr>network = a\<lparr>ip := and_bytes (ip a) m\<rparr>, netmask = m, valid = True\<rparr>)"
proof -
  have "find_last_of (CHR ''/'') (h @ CHR ''/'' # t) = Some (length h)" using assms(1) by (rule find_last_of_app)
  then show ?thesis
    using assms(2-) by (cases "IsIPv4 a") (simp_all add: CSubNet_str_def addr_start_def Let_def)
qed

lemma CSubNet_str_mask:
  assumes "CHR ''/'' \<notin> set t" "LookupHost L (c_str h) 1 f = Some (True, Some [a])"
    "lib_ParseInt32 L t = None" "LookupHost L (c_str t) 1 False = Some (True, Some [b])"
  shows "CSubNet_str L (h @ ''/'' @ t) f =
    Some (let m = copy_mask (addr_start a) (ip b) (replicate 16 255)
          in \<lparr>network = a\<lparr>ip := and_bytes (ip a) m\<rparr>, netmask = m, valid = True\<rparr>)"
proof -
  have "find_last_of (CHR ''/'') (h @ CHR ''/'' # t) = Some (length h)" using assms(1) by (rule find_last_of_app)
  then show ?thesis
    using assms(2-) by (simp add: CSubNet_str_def addr_start_def Let_def)
qed

lemma CSubNet_str_single:
  assumes "CHR ''/'' \<notin> set h" "LookupHost L (c_str h) 1 f = Some (True, Some [a])"
  shows "CSubNet_str L h f =
    Some \<lparr>network = a\<lparr>ip := and_bytes (ip a) (replicate 16 255)\<rparr>, netmask = replicate 16 255, valid = True\<rparr>"
proof -
  have "find_last_of (CHR ''/'') h = None" by (simp only: find_last_of_None assms(1) not_False_eq_True)
  then show ?thesis using assms(2) by (simp del: find_last_of_None add: CSubNet_str_def Let_def)
qed

text \<open>A subnet normalised by its mask matches the valid addresses that agree with it where the mask has ones.\<close>

lemma Match_normalised:
  assumes "net_wf a" "net_wf b" "length m = 16"
  shows "Match \<lparr>network = a\<lparr>ip := and_bytes (ip a) m\<rparr>, netmask = m, valid = True\<rparr> b \<longleftrightarrow>
    IsValid b \<and> (\<forall>i < 128. addr_bit m i \<longrightarrow> addr_bit (ip a) i = addr_bit (ip b) i)"
  using assms by (subst Match_bits) (auto simp: net_wf_def addr_bit_and)

lemma IsIPv4_bits:
  assumes "net_wf a"
  shows "IsIPv4 a \<longleftrightarrow> same_prefix 96 (ip a) (pchIPv4 @ [0, 0, 0, 0])"
  using assms same_prefix_take [of "ip a" "pchIPv4 @ [0, 0, 0, 0]" 96 12]
  by (simp add: net_wf_def IsIPv4_def pchIPv4_def)

lemma IsIPv4_normalised:
  assumes "net_wf a" "n \<le> 128 - 8 * addr_start a"
  shows "IsIPv4 (a\<lparr>ip := and_bytes (ip a) (clear_loop (n + 8 * addr_start a) (replicate 16 255))\<rparr>) = IsIPv4 a"
proof -
  let ?m = "clear_loop (n + 8 * addr_start a) (replicate 16 255)"
  let ?b = "a\<lparr>ip := and_bytes (ip a) ?m\<rparr>"
  have a: "length (ip a) = 16" using assms(1) by (simp add: net_wf_def)
  then have b: "net_wf ?b" by (simp add: net_wf_def)
  have bits: "addr_bit (ip ?b) i \<longleftrightarrow> addr_bit (ip a) i \<and> i < n + 8 * addr_start a" if "i < 128" for i
    using that a by (simp add: addr_bit_and addr_bit_clear_loop addr_bit_ones)
  have last: "addr_bit (pchIPv4 @ [0, 0, 0, 0]) 95" by (simp add: addr_bit_def pchIPv4_def)
  show ?thesis
  proof (cases "IsIPv4 a")
    case True
    then show ?thesis
      using IsIPv4_bits [OF assms(1)] IsIPv4_bits [OF b] bits by (simp add: same_prefix_def addr_start_def)
  next
    case False
    have "same_prefix 96 (ip a) (pchIPv4 @ [0, 0, 0, 0])" if s: "same_prefix 96 (ip ?b) (pchIPv4 @ [0, 0, 0, 0])"
    proof -
      have "95 < n" using s [unfolded same_prefix_def, rule_format, of 95] bits [of 95] last False by (simp add: addr_start_def)
      then show ?thesis using s bits False by (auto simp: same_prefix_def addr_start_def)
    qed
    then show ?thesis using False IsIPv4_bits [OF assms(1)] IsIPv4_bits [OF b] by blast
  qed
qed

lemma addr_bit_copy_mask:
  assumes "length src = 16" "k \<le> 16" "i < 128"
  shows "addr_bit (copy_mask k src (replicate 16 255)) i \<longleftrightarrow> i < 8 * k \<or> addr_bit src i"
proof (cases "i div 8 < k")
  case True
  then have "copy_mask k src (replicate 16 255) ! (i div 8) = replicate 16 255 ! (i div 8)"
    using assms by (simp add: copy_mask_def nth_append)
  then show ?thesis using True addr_bit_ones [OF assms(3)] by (auto simp: addr_bit_def)
next
  case False
  then have "copy_mask k src (replicate 16 255) ! (i div 8) = src ! (i div 8)"
    using assms by (auto simp: copy_mask_def nth_append)
  then show ?thesis using False by (auto simp: addr_bit_def)
qed

lemma length_copy_mask: "length src = 16 \<Longrightarrow> k \<le> 16 \<Longrightarrow> length (copy_mask k src (replicate 16 255)) = 16"
  by (simp add: copy_mask_def)

text \<open>
  C19. A subnet written \<open>address/n\<close>, with \<open>n\<close> at most the width of the address, is valid, matches exactly the valid
  addresses that share the first \<open>n\<close> bits of the address (for IPv4, after its 96 fixed bits), and prints its
  mask as the same \<open>n\<close>.
\<close>

theorem CSubNet_prefix:
  assumes "CHR ''/'' \<notin> set t" "LookupHost L (c_str h) 1 f = Some (True, Some [a])" "net_wf a"
    "lib_ParseInt32 L t = Some (int n)" "n \<le> 128 - 8 * addr_start a" "net_wf b"
  shows "\<exists>S. CSubNet_str L (h @ ''/'' @ t) f = Some S \<and> subnet_IsValid S
    \<and> (Match S b \<longleftrightarrow> IsValid b \<and> same_prefix (n + 8 * addr_start a) (ip a) (ip b))
    \<and> subnet_ToString L S = net_ToString L (network S) @ ''/'' @ printf_u n"
proof -
  let ?k = "n + 8 * addr_start a"
  let ?m = "clear_loop ?k (replicate 16 255)"
  let ?S = "\<lparr>network = a\<lparr>ip := and_bytes (ip a) ?m\<rparr>, netmask = ?m, valid = True\<rparr>"
  have k: "?k \<le> 128" using assms(5) by (auto simp: addr_start_def split: if_splits)
  have "CSubNet_str L (h @ ''/'' @ t) f = Some ?S"
    using CSubNet_str_cidr [OF assms(1,2,4,5)] by (simp only: Let_def)
  moreover have "Match ?S b \<longleftrightarrow> IsValid b \<and> same_prefix ?k (ip a) (ip b)"
    using k by (subst Match_normalised) (auto simp: assms addr_bit_clear_loop addr_bit_ones same_prefix_def)
  moreover have "(if IsIPv4 (network ?S) then 12 else 0) = addr_start a"
    using IsIPv4_normalised [OF assms(3,5)] by (simp add: addr_start_def)
  then have "subnet_ToString L ?S = net_ToString L (network ?S) @ ''/'' @ printf_u n"
    using mask_cidr_clear [of "addr_start a" ?k] k by (simp add: subnet_ToString_def)
  ultimately show ?thesis by (simp add: subnet_IsValid_def)
qed

theorem CSubNet_prefix_witness:
  "\<exists>S. CSubNet_str sample_lib ''10.1.2.3/8'' False = Some S
     \<and> (Match S \<lparr>ip = pchIPv4 @ [10, 9, 9, 9]\<rparr> \<longleftrightarrow>
          IsValid \<lparr>ip = pchIPv4 @ [10, 9, 9, 9]\<rparr> \<and> same_prefix 104 (pchIPv4 @ [10, 1, 2, 3]) (pchIPv4 @ [10, 9, 9, 9]))
     \<and> subnet_ToString sample_lib S = net_ToString sample_lib (network S) @ ''/'' @ printf_u 8"
proof -
  have a: "net_wf \<lparr>ip = pchIPv4 @ [10, 1, 2, 3]\<rparr>" "net_wf \<lparr>ip = pchIPv4 @ [10, 9, 9, 9]\<rparr>"
    "addr_start \<lparr>ip = pchIPv4 @ [10, 1, 2, 3]\<rparr> = 12"
    by (simp_all add: net_wf_def pchIPv4_def addr_start_def IsIPv4_def)
  have l: "LookupHost sample_lib (c_str ''10.1.2.3'') 1 False = Some (True, Some [\<lparr>ip = pchIPv4 @ [10, 1, 2, 3]\<rparr>])"
    by code_simp
  have p: "lib_ParseInt32 sample_lib ''8'' = Some (int 8)" by (simp add: sample_lib_def)
  from CSubNet_prefix [OF _ l a(1) p _ a(2)] show ?thesis by (auto simp: a(3))
qed

text \<open>
  A subnet written \<open>address/mask\<close>, where the mask is itself an address, matches exactly the valid addresses that
  agree with the address in the bits set in the mask; of an IPv4 address the first 96 bits must agree whatever
  the mask has there.
\<close>

lemma CSubNet_netmask:
  assumes "CHR ''/'' \<notin> set t" "LookupHost L (c_str h) 1 f = Some (True, Some [a])" "net_wf a"
    "lib_ParseInt32 L t = None" "LookupHost L (c_str t) 1 False = Some (True, Some [m])" "net_wf m" "net_wf b"
  shows "\<exists>S. CSubNet_str L (h @ ''/'' @ t) f = Some S \<and> subnet_IsValid S
    \<and> (Match S b \<longleftrightarrow> IsValid b \<and> same_prefix (8 * addr_start a) (ip a) (ip b)
         \<and> (\<forall>i < 128. addr_bit (ip m) i \<longrightarrow> addr_bit (ip a) i = addr_bit (ip b) i))"
proof -
  let ?m = "copy_mask (addr_start a) (ip m) (replicate 16 255)"
  let ?S = "\<lparr>network = a\<lparr>ip := and_bytes (ip a) ?m\<rparr>, netmask = ?m, valid = True\<rparr>"
  have k: "addr_start a \<le> 16" by (simp add: addr_start_def)
  have len: "length (ip m) = 16" using assms(6) by (simp add: net_wf_def)
  have "Match ?S b \<longleftrightarrow> IsValid b \<and> same_prefix (8 * addr_start a) (ip a) (ip b)
      \<and> (\<forall>i < 128. addr_bit (ip m) i \<longrightarrow> addr_bit (ip a) i = addr_bit (ip b) i)"
    using k Match_normalised [OF assms(3,7) length_copy_mask [OF len k]]
    by (auto simp: addr_bit_copy_mask [OF len k] same_prefix_def)
  then show ?thesis
    using CSubNet_str_mask [OF assms(1,2,4,5)] by (simp add: Let_def subnet_IsValid_def)
qed

lemma CSubNet_netmask_witness:
  "\<exists>S. CSubNet_str sample_lib ''10.1.2.3/255.0.255.0'' False = Some S \<and> Match S \<lparr>ip = pchIPv4 @ [10, 99, 2, 7]\<rparr>"
proof -
  let ?a = "\<lparr>ip = pchIPv4 @ [10, 1, 2, 3]\<rparr>" and ?b = "\<lparr>ip = pchIPv4 @ [10, 99, 2, 7]\<rparr>" and ?m = "pchIPv4 @ [255, 0, 255, 0]"
  have a: "net_wf ?a" "net_wf \<lparr>ip = ?m\<rparr>" "net_wf ?b" by (simp_all add: net_wf_def pchIPv4_def)
  have l: "LookupHost sample_lib (c_str ''10.1.2.3'') 1 False = Some (True, Some [?a])"
    "LookupHost sample_lib (c_str ''255.0.255.0'') 1 False = Some (True, Some [\<lparr>ip = ?m\<rparr>])"
    by code_simp+
  have p: "lib_ParseInt32 sample_lib ''255.0.255.0'' = None" by (simp add: sample_lib_def)
  have v: "IsValid ?b" by code_simp
  have "\<forall>k \<in> set [0..<16]. ?m ! k = 0 \<or> ip ?a ! k = ip ?b ! k" by code_simp
  then have "\<forall>k < 16. ?m ! k = 0 \<or> ip ?a ! k = ip ?b ! k" by simp
  then have bits: "addr_bit ?m i \<longrightarrow> addr_bit (ip ?a) i = addr_bit (ip ?b) i" if "i < 128" for i
  proof -
    have "i div 8 < 16" using that by simp
    then have "?m ! (i div 8) = 0 \<or> ip ?a ! (i div 8) = ip ?b ! (i div 8)"
      using \<open>\<forall>k < 16. ?m ! k = 0 \<or> ip ?a ! k = ip ?b ! k\<close> by blast
    then show ?thesis unfolding addr_bit_def by (elim disjE) simp_all
  qed
  have "same_prefix (8 * addr_start ?a) (ip ?a) (ip ?b)"
    using same_prefix_take [of "ip ?a" "ip ?b" "8 * addr_start ?a" 12]
    by (simp add: addr_start_def IsIPv4_def pchIPv4_def)
  with v bits show ?thesis using CSubNet_netmask [OF _ l(1) a(1) p l(2) a(2,3)] by auto
qed

lemma CSubNet_single:
  assumes "CHR ''/'' \<notin> set h" "LookupHost L (c_str h) 1 f = Some (True, Some [a])" "net_wf a" "net_wf b"
  shows "\<exists>S. CSubNet_str L h f = Some S \<and> (Match S b \<longleftrightarrow> IsValid b \<and> ip a = ip b)"
  using CSubNet_str_single [OF assms(1,2)] Match_normalised [OF assms(3,4), of "replicate 16 255"]
    bytes_eqI [of "ip a" "ip b"] assms(3,4) by (simp add: addr_bit_ones net_wf_def)

subsection \<open>Well-formed results\<close>

definition subnet_wf :: "CSubNet \<Rightarrow> bool" where
  "subnet_wf S \<longleftrightarrow> net_wf (network S) \<and> length (netmask S) = 16"

text \<open>
  \<^verbatim>\<open><\<close> of subnets orders them by network and mask only, while \<^verbatim>\<open>==\<close> also compares the flag \<^verbatim>\<open>valid\<close>.
\<close>

interpretation subnet: keyed_order subnet_wf "\<lambda>S. ip (network S) @ netmask S" subnet_lt 32
proof
  fix a b assume wf: "subnet_wf a" "subnet_wf b"
  then show "subnet_lt a b \<longleftrightarrow> memcmp (ip (network a) @ netmask a) (ip (network b) @ netmask b) < 0"
    using memcmp_eq_0 [of "ip (network a)" "ip (network b)"]
    by (auto simp: subnet_lt_def net_lt_def net_eq_def memcmp_append subnet_wf_def net_wf_def)
qed (simp add: subnet_wf_def net_wf_def)

lemma subnet_order_ignores_valid:
  assumes "subnet_wf S"
  shows "\<not> subnet_lt (S\<lparr>valid := False\<rparr>) (S\<lparr>valid := True\<rparr>) \<and> \<not> subnet_lt (S\<lparr>valid := True\<rparr>) (S\<lparr>valid := False\<rparr>)
    \<and> subnet_ne (S\<lparr>valid := False\<rparr>) (S\<lparr>valid := True\<rparr>)"
  using subnet.lt_irrefl [OF assms] by (simp add: subnet_lt_def subnet_ne_def subnet_eq_def)

lemma CSubNet_str_wf:
  assumes "resolver_ok L"
  shows "\<exists>S. CSubNet_str L txt f = Some S \<and> subnet_wf S"
proof -
  let ?h = "case find_last_of (CHR ''/'') txt of None \<Rightarrow> txt | Some k \<Rightarrow> take k txt"
  let ?t = "drop (the (find_last_of (CHR ''/'') txt) + 1) txt"
  obtain b v where h: "LookupHost L (c_str ?h) 1 f = Some (b, v)"
    "b \<longrightarrow> (\<exists>vIP. v = Some vIP \<and> vIP \<noteq> [] \<and> (\<forall>a \<in> set vIP. net_wf a))"
    using LookupHost_typed [OF assms, of "c_str ?h" 1 f] by blast
  obtain b' v' where t: "LookupHost L (c_str ?t) 1 False = Some (b', v')"
    "b' \<longrightarrow> (\<exists>vIP. v' = Some vIP \<and> vIP \<noteq> [] \<and> (\<forall>a \<in> set vIP. net_wf a))"
    using LookupHost_typed [OF assms, of "c_str ?t" 1 False] by blast
  have w: "b \<Longrightarrow> length (ip (the v ! 0)) = 16" "b' \<Longrightarrow> length (ip (the v' ! 0)) = 16"
    using h(2) t(2) by (auto simp: net_wf_def)
  have i: "length (ip net_Init) = 16" by (simp add: net_Init_def)
  show ?thesis
    using h(1) t(1) w i
    by (cases "find_last_of (CHR ''/'') txt")
      (auto simp: CSubNet_str_def Let_def subnet_wf_def net_wf_def length_copy_mask
         simp del: find_last_of_None split: option.splits)
qed

text \<open>
  If the resolver keeps its contract, no constructor from text fails an assertion of the lookup, and what it makes is well formed.
\<close>

lemma netbase_types:
  assumes "resolver_ok L"
  shows "(\<exists>a. CNetAddr_str L txt f = Some a \<and> net_wf a) \<and> (\<exists>s. CService_str L txt p f = Some s \<and> net_wf s)
    \<and> (\<exists>S. CSubNet_str L txt f = Some S \<and> subnet_wf S)"
  using CNetAddr_str_wf [OF assms] CService_str_wf [OF assms] CSubNet_str_wf [OF assms] by blast

text \<open>\<^verbatim>\<open>GetNetwork\<close> reports the kind of an address when it is routable, and only then.\<close>

lemma GetNetwork_kind:
  "GetNetwork a = NET_UNROUTABLE \<longleftrightarrow> \<not> IsRoutable a" "GetNetwork a = NET_IPV4 \<longleftrightarrow> IsRoutable a \<and> IsIPv4 a"
  "GetNetwork a = NET_TOR \<longleftrightarrow> IsRoutable a \<and> IsTor a" "GetNetwork a = NET_IPV6 \<longleftrightarrow> IsRoutable a \<and> IsIPv6 a"
  using IsTor_not_IPv4 [of a] by (auto simp: GetNetwork_def IsIPv6_def)

end
