(* ===== verification/Data_Stream.thy ===== *)
theory Data_Stream
  imports Prelude
begin

section \<open>The byte stream CDataStream (util/serialize/serialize.h)\<close>

text \<open>
  The class as a record with the members of the code. \<^verbatim>\<open>nReadPos\<close> is 32 bits wide and sums with it wrap.
  An operation that may throw returns the result and the stream it leaves behind. Iterators are indices
  into \<^verbatim>\<open>vch\<close>. Copying from behind the end of the vector is the error \<open>out_of_bounds\<close>; \<open>diverges\<close> stands for a
  loop that never ends.
\<close>

subsection \<open>Data\<close>

datatype stream_exn = ios_failure string | assert_failed | out_of_bounds | diverges

type_synonym 'a sresult = "stream_exn + 'a"

record CDataStream =
  vch :: "byte list"
  nReadPos :: u32
  state :: u16
  exceptmask :: u16
  nType :: u32
  nVersion :: u32

text \<open>\<^verbatim>\<open>std::ios::badbit\<close> and \<^verbatim>\<open>std::ios::failbit\<close> of libstdc++.\<close>

definition badbit :: u16 where "badbit = 1"
definition failbit :: u16 where "failbit = 4"

definition ds_Init :: "u32 \<Rightarrow> u32 \<Rightarrow> CDataStream \<Rightarrow> CDataStream" where
  "ds_Init nTypeIn nVersionIn s =
     s\<lparr>nReadPos := 0, nType := nTypeIn, nVersion := nVersionIn, state := 0, exceptmask := badbit OR failbit\<rparr>"

text \<open>The constructors: all of them copy a range of bytes (the first one none) and call \<^verbatim>\<open>Init\<close>.\<close>

definition CDataStream_new :: "byte list \<Rightarrow> u32 \<Rightarrow> u32 \<Rightarrow> CDataStream" where
  "CDataStream_new vchIn nTypeIn nVersionIn =
     ds_Init nTypeIn nVersionIn
       \<lparr>vch = vchIn, nReadPos = 0, state = 0, exceptmask = 0, nType = 0, nVersion = 0\<rparr>"

subsection \<open>Vector subset\<close>

text \<open>The bytes from \<^verbatim>\<open>begin()\<close> to \<^verbatim>\<open>end()\<close>.\<close>

definition ds_range :: "CDataStream \<Rightarrow> byte list" where
  "ds_range s = drop (unat (nReadPos s)) (vch s)"

definition ds_append :: "CDataStream \<Rightarrow> CDataStream \<Rightarrow> CDataStream" where
  "ds_append s b = s\<lparr>vch := vch s @ ds_range b\<rparr>"

definition ds_plus :: "CDataStream \<Rightarrow> CDataStream \<Rightarrow> CDataStream" where
  "ds_plus a b = (let ret = a in ds_append ret b)"

definition ds_str :: "CDataStream \<Rightarrow> byte list" where
  "ds_str s = ds_range s"

definition ds_size :: "CDataStream \<Rightarrow> nat" where
  "ds_size s = length (vch s) - unat (nReadPos s)"

definition ds_empty :: "CDataStream \<Rightarrow> bool" where
  "ds_empty s \<longleftrightarrow> length (vch s) = unat (nReadPos s)"


definition ds_index :: "CDataStream \<Rightarrow> nat \<Rightarrow> byte sresult" where
  "ds_index s pos =
     (if pos + unat (nReadPos s) < length (vch s) then Inr (vch s ! (pos + unat (nReadPos s))) else Inl out_of_bounds)"

definition ds_clear :: "CDataStream \<Rightarrow> CDataStream" where
  "ds_clear s = s\<lparr>vch := [], nReadPos := 0\<rparr>"

definition ds_insert1 :: "nat \<Rightarrow> byte \<Rightarrow> CDataStream \<Rightarrow> CDataStream" where
  "ds_insert1 it x s = s\<lparr>vch := take it (vch s) @ [x] @ drop it (vch s)\<rparr>"






definition ds_Rewind :: "nat \<Rightarrow> CDataStream \<Rightarrow> bool \<times> CDataStream" where
  "ds_Rewind n s =
     (if unat (nReadPos s) < n then (False, s) else (True, s\<lparr>nReadPos := nReadPos s - of_nat n\<rparr>))"

subsection \<open>Stream subset\<close>

definition ds_setstate :: "u16 \<Rightarrow> string \<Rightarrow> CDataStream \<Rightarrow> unit sresult \<times> CDataStream" where
  "ds_setstate bits psz s =
     (let s = s\<lparr>state := state s OR bits\<rparr> in
      if state s AND exceptmask s \<noteq> 0 then (Inl (ios_failure psz), s) else (Inr (), s))"

definition ds_eof :: "CDataStream \<Rightarrow> bool" where
  "ds_eof s \<longleftrightarrow> ds_size s = 0"

definition ds_fail :: "CDataStream \<Rightarrow> bool" where
  "ds_fail s \<longleftrightarrow> state s AND (badbit OR failbit) \<noteq> 0"

definition ds_good :: "CDataStream \<Rightarrow> bool" where
  "ds_good s \<longleftrightarrow> \<not> ds_eof s \<and> state s = 0"

definition ds_clear_state :: "u16 \<Rightarrow> CDataStream \<Rightarrow> CDataStream" where
  "ds_clear_state n s = s\<lparr>state := n\<rparr>"

definition ds_exceptions :: "u16 \<Rightarrow> CDataStream \<Rightarrow> u16 sresult \<times> CDataStream" where
  "ds_exceptions msk s =
     (let prev = exceptmask s;
          (r, s) = ds_setstate 0 ''CDataStream'' (s\<lparr>exceptmask := msk\<rparr>)
      in (map_sum id (\<lambda>_. prev) r, s))"

text \<open>\<^verbatim>\<open>memcpy\<close> of \<open>n\<close> bytes from the reading position.\<close>

definition ds_copy :: "nat \<Rightarrow> CDataStream \<Rightarrow> byte list sresult" where
  "ds_copy n s =
     (if unat (nReadPos s) + n \<le> length (vch s) then Inr (take n (drop (unat (nReadPos s)) (vch s))) else Inl out_of_bounds)"

text \<open>The result is the content of the buffer \<^verbatim>\<open>pch\<close>.\<close>

definition ds_read :: "nat \<Rightarrow> CDataStream \<Rightarrow> byte list sresult \<times> CDataStream" where
  "ds_read nSize s =
     (let nReadPosNext = nReadPos s + of_nat nSize in
      if length (vch s) \<le> unat nReadPosNext
      then if length (vch s) < unat nReadPosNext
           then (case ds_setstate failbit ''CDataStream::read() : end of data'' s of
                   (Inl e, s) \<Rightarrow> (Inl e, s)
                 | (Inr _, s) \<Rightarrow>
                     (let n = length (vch s) - unat (nReadPos s) in
                      (map_sum id (\<lambda>d. d @ replicate (nSize - n) 0) (ds_copy n s), s\<lparr>nReadPos := 0, vch := []\<rparr>)))
           else (ds_copy nSize s, s\<lparr>nReadPos := 0, vch := []\<rparr>)
      else (ds_copy nSize s, s\<lparr>nReadPos := nReadPosNext\<rparr>))"


definition ds_write :: "byte list \<Rightarrow> CDataStream \<Rightarrow> unit sresult \<times> CDataStream" where
  "ds_write pch s = (Inr (), s\<lparr>vch := vch s @ pch\<rparr>)"

definition ds_SetType :: "u32 \<Rightarrow> CDataStream \<Rightarrow> CDataStream" where
  "ds_SetType n s = s\<lparr>nType := n\<rparr>"

definition ds_SetVersion :: "u32 \<Rightarrow> CDataStream \<Rightarrow> CDataStream" where
  "ds_SetVersion n s = s\<lparr>nVersion := n\<rparr>"

text \<open>\<^verbatim>\<open>CDataStream::Serialize\<close>, to a stream with the operation \<open>wr\<close>.\<close>

definition ds_Serialize :: "(byte list \<Rightarrow> 's \<Rightarrow> unit sresult \<times> 's) \<Rightarrow> CDataStream \<Rightarrow> 's \<Rightarrow> unit sresult \<times> 's" where
  "ds_Serialize wr b s = (if vch b \<noteq> [] then wr (vch b) s else (Inr (), s))"

definition ds_GetAndClear :: "byte list \<Rightarrow> CDataStream \<Rightarrow> byte list \<times> CDataStream" where
  "ds_GetAndClear data s = (data @ ds_range s, ds_clear s)"

subsection \<open>The stream is a queue of bytes\<close>

text \<open>
  The invariant: the reading position is within the vector, the vector fits the 32-bit position, and a failure
  throws, as after \<^verbatim>\<open>Init\<close>. The abstract queue is the range of bytes not yet read.
\<close>

definition ds_ok :: "CDataStream \<Rightarrow> bool" where
  "ds_ok s \<longleftrightarrow> unat (nReadPos s) \<le> length (vch s) \<and> length (vch s) < 2 ^ 32 \<and> exceptmask s AND failbit \<noteq> 0"

lemma ds_okD: "ds_ok s \<Longrightarrow> unat (nReadPos s) \<le> length (vch s)" "ds_ok s \<Longrightarrow> length (vch s) < 2 ^ 32"
  by (simp_all add: ds_ok_def)

lemma unat_add32: "unat (p :: u32) + n < 2 ^ 32 \<Longrightarrow> unat (p + of_nat n) = unat p + n"
  by (simp add: unat_word_ariths(1) unat_of_nat take_bit_nat_eq_self)

lemma ds_ok_new: "length d < 2 ^ 32 \<Longrightarrow> ds_ok (CDataStream_new d t v) \<and> ds_range (CDataStream_new d t v) = d"
  by (simp add: ds_ok_def CDataStream_new_def ds_Init_def badbit_def failbit_def ds_range_def)

lemma ds_write_range:
  assumes "ds_ok s" and "length (vch s) + length d < 2 ^ 32"
  shows "fst (ds_write d s) = Inr ()" "ds_ok (snd (ds_write d s))" "ds_range (snd (ds_write d s)) = ds_range s @ d"
    "length (vch (snd (ds_write d s))) = length (vch s) + length d"
  using assms by (simp_all add: ds_write_def ds_ok_def ds_range_def)

lemma ds_length: "ds_ok s \<Longrightarrow> length (vch s) = unat (nReadPos s) + length (ds_range s)"
  by (simp add: ds_ok_def ds_range_def)

lemma ds_read_range:
  assumes s: "ds_ok s" and n: "n \<le> length (ds_range s)"
  shows "fst (ds_read n s) = Inr (take n (ds_range s))" "ds_ok (snd (ds_read n s))"
    "ds_range (snd (ds_read n s)) = drop n (ds_range s)" "length (vch (snd (ds_read n s))) \<le> length (vch s)"
proof -
  have l: "unat (nReadPos s) + n \<le> length (vch s)" "length (vch s) < 2 ^ 32"
    using n ds_length [OF s] ds_okD [OF s] by simp_all
  then have p: "unat (nReadPos s + of_nat n) = unat (nReadPos s) + n"
    by (intro unat_add32) simp
  show "fst (ds_read n s) = Inr (take n (ds_range s))" "ds_ok (snd (ds_read n s))"
    "ds_range (snd (ds_read n s)) = drop n (ds_range s)" "length (vch (snd (ds_read n s))) \<le> length (vch s)"
    using s l p by (auto simp: ds_read_def Let_def ds_copy_def ds_range_def ds_ok_def add.commute)
qed

lemma ds_read_short:
  assumes s: "ds_ok s" and n: "length (ds_range s) < n" and b: "unat (nReadPos s) + n < 2 ^ 32"
  shows "ds_read n s = (Inl (ios_failure ''CDataStream::read() : end of data''), s\<lparr>state := state s OR failbit\<rparr>)"
proof -
  have "unat (nReadPos s + of_nat n) = unat (nReadPos s) + n"
    using b by (intro unat_add32) simp
  moreover have "(state s OR failbit) AND exceptmask s \<noteq> 0"
    using s by (simp add: ds_ok_def bit_eq_iff bit_simps) blast
  ultimately show ?thesis
    using n ds_length [OF s] by (simp add: ds_read_def ds_setstate_def Let_def)
qed

lemma ds_rewind_read:
  assumes "ds_ok s" and "n < length (ds_range s)"
  shows "ds_Rewind n (snd (ds_read n s)) = (True, s)"
proof -
  have l: "unat (nReadPos s) + n < length (vch s)" "length (vch s) < 2 ^ 32"
    using assms ds_length ds_okD by simp_all
  then have p: "unat (nReadPos s + of_nat n) = unat (nReadPos s) + n"
    by (intro unat_add32) simp
  then show ?thesis
    using l by (simp add: ds_read_def ds_Rewind_def Let_def)
qed

text \<open>
  \<^verbatim>\<open>stream << stream\<close> agrees with \<^verbatim>\<open>stream += stream\<close>, as its comment says, only while nothing has been read from the
  stream on the right.
\<close>

lemma ds_Serialize_append:
  "snd (ds_Serialize ds_write b s) = ds_append s b \<longleftrightarrow> nReadPos b = 0 \<or> vch b = []"
proof -
  have "n = 0 \<or> xs = []" if "drop n xs = xs" for n and xs :: "byte list"
  proof -
    have "length xs - n = length xs"
      using that by (metis length_drop)
    then show ?thesis by (cases xs) auto
  qed
  from this [of "unat (nReadPos b)" "vch b"]
  have "drop (unat (nReadPos b)) (vch b) = vch b \<longleftrightarrow> nReadPos b = 0 \<or> vch b = []"
    by (auto simp: unat_eq_0)
  moreover have "s\<lparr>vch := x\<rparr> = s\<lparr>vch := y\<rparr> \<longleftrightarrow> x = y" for x y
    by (cases s) simp
  ultimately show ?thesis
    by (auto simp: ds_Serialize_def ds_write_def ds_append_def ds_range_def)
qed

subsection \<open>Sequences of operations\<close>








lemma ds_ok_update_state [simp]: "ds_ok (s\<lparr>state := x\<rparr>) = ds_ok s" "ds_range (s\<lparr>state := x\<rparr>) = ds_range s"
  by (simp_all add: ds_ok_def ds_range_def)






lemma ds_split: "vch s = take (unat (nReadPos s)) (vch s) @ ds_range s"
  by (simp add: ds_range_def)










subsection \<open>What the serializer relies on\<close>

text \<open>
  The templates of the serializer work on anything with \<^verbatim>\<open>write\<close> or \<^verbatim>\<open>read\<close>. \<open>good k\<close> says that there is room for
  \<open>k\<close> more bytes; \<open>appended s d s'\<close> that \<open>s'\<close> is \<open>s\<close> with the bytes \<open>d\<close> behind it.
\<close>

definition s_return :: "'a \<Rightarrow> 's \<Rightarrow> 'a sresult \<times> 's" where
  "s_return x s = (Inr x, s)"

definition s_bind :: "('s \<Rightarrow> 'a sresult \<times> 's) \<Rightarrow> ('a \<Rightarrow> 's \<Rightarrow> 'b sresult \<times> 's) \<Rightarrow> 's \<Rightarrow> 'b sresult \<times> 's" where
  "s_bind m f s = (case m s of (Inl e, s) \<Rightarrow> (Inl e, s) | (Inr x, s) \<Rightarrow> f x s)"

definition s_throw :: "string \<Rightarrow> 's \<Rightarrow> 'a sresult \<times> 's" where
  "s_throw what s = (Inl (ios_failure what), s)"

locale byte_sink =
  fixes wr :: "byte list \<Rightarrow> 's \<Rightarrow> unit sresult \<times> 's"
    and good :: "nat \<Rightarrow> 's \<Rightarrow> bool"
    and appended :: "'s \<Rightarrow> byte list \<Rightarrow> 's \<Rightarrow> bool"
  assumes appended_refl: "appended s [] s"
    and appended_trans: "appended s d s' \<Longrightarrow> appended s' e s'' \<Longrightarrow> appended s (d @ e) s''"
    and wr_ok: "good (k + length d) s \<Longrightarrow> \<exists>s'. wr d s = (Inr (), s') \<and> good k s' \<and> appended s d s'"
begin

definition writes :: "('s \<Rightarrow> unit sresult \<times> 's) \<Rightarrow> byte list \<Rightarrow> bool" where
  "writes f d \<longleftrightarrow> (\<forall>k s. good (k + length d) s \<longrightarrow> (\<exists>s'. f s = (Inr (), s') \<and> good k s' \<and> appended s d s'))"

lemma writes_wr: "writes (wr d) d"
  by (simp add: writes_def wr_ok)

lemma writes_return: "writes (s_return ()) []"
  by (simp add: writes_def s_return_def appended_refl)

lemma writes_bind:
  assumes f: "writes f d" and g: "writes g e"
  shows "writes (s_bind f (\<lambda>_. g)) (d @ e)"
  unfolding writes_def
proof (intro allI impI)
  fix k s assume "good (k + length (d @ e)) s"
  then have "good ((k + length e) + length d) s"
    by (simp add: ac_simps)
  then obtain s' where s': "f s = (Inr (), s')" "good (k + length e) s'" "appended s d s'"
    using f unfolding writes_def by blast
  then obtain s'' where "g s' = (Inr (), s'')" "good k s''" "appended s' e s''"
    using g unfolding writes_def by blast
  then show "\<exists>s''. s_bind f (\<lambda>_. g) s = (Inr (), s'') \<and> good k s'' \<and> appended s (d @ e) s''"
    using s' appended_trans by (auto simp: s_bind_def)
qed

end

locale byte_source =
  fixes rd :: "nat \<Rightarrow> 's \<Rightarrow> byte list sresult \<times> 's"
    and good :: "nat \<Rightarrow> 's \<Rightarrow> bool"
    and content :: "'s \<Rightarrow> byte list"
  assumes rd_ok: "good k s \<Longrightarrow> content s = d @ r \<Longrightarrow> \<exists>s'. rd (length d) s = (Inr d, s') \<and> good k s' \<and> content s' = r"
    and rd_short: "good k s \<Longrightarrow> n \<le> k \<Longrightarrow> length (content s) < n \<Longrightarrow> \<exists>e s'. rd n s = (Inl e, s')"
begin

definition reads :: "('s \<Rightarrow> 'a sresult \<times> 's) \<Rightarrow> byte list \<Rightarrow> 'a \<Rightarrow> bool" where
  "reads f d x \<longleftrightarrow> (\<forall>k s r. good k s \<longrightarrow> content s = d @ r \<longrightarrow> (\<exists>s'. f s = (Inr x, s') \<and> good k s' \<and> content s' = r))"

lemma reads_rd: "length d = n \<Longrightarrow> reads (rd n) d d"
  using rd_ok by (auto simp: reads_def)

lemma reads_return: "reads (s_return x) [] x"
  by (simp add: reads_def s_return_def)

lemma reads_bind:
  assumes f: "reads f d x" and g: "reads (g x) e y"
  shows "reads (s_bind f g) (d @ e) y"
  unfolding reads_def
proof (intro allI impI)
  fix k s r assume "good k s" "content s = (d @ e) @ r"
  then have "good k s" "content s = d @ (e @ r)"
    by simp_all
  then obtain s' where s': "f s = (Inr x, s')" "good k s'" "content s' = e @ r"
    using f unfolding reads_def by blast
  then obtain s'' where "g x s' = (Inr y, s'')" "good k s''" "content s'' = r"
    using g unfolding reads_def by blast
  then show "\<exists>s'. s_bind f g s = (Inr y, s') \<and> good k s' \<and> content s' = r"
    using s'(1) by (simp add: s_bind_def)
qed

lemma rd_inv:
  assumes "good k s" and "n \<le> k" and "rd n s = (Inr d, s')"
  shows "length d = n \<and> content s = d @ content s' \<and> good k s'"
proof -
  have "n \<le> length (content s)"
  proof (rule ccontr)
    assume "\<not> n \<le> length (content s)"
    then show False
      using rd_short [OF assms(1,2)] assms(3) by simp
  qed
  then have len: "length (take n (content s)) = n"
    by simp
  obtain s2 where "rd n s = (Inr (take n (content s)), s2)" "good k s2" "content s2 = drop n (content s)"
    using rd_ok [OF assms(1) append_take_drop_id [symmetric], of n] unfolding len by blast
  moreover from this have "d = take n (content s)" "s' = s2"
    using assms(3) by simp_all
  ultimately show ?thesis
    using len append_take_drop_id [of n "content s"] by metis
qed

end

definition ds_room :: "nat \<Rightarrow> CDataStream \<Rightarrow> bool" where
  "ds_room k s \<longleftrightarrow> ds_ok s \<and> length (vch s) + k < 2 ^ 32"

definition ds_appended :: "CDataStream \<Rightarrow> byte list \<Rightarrow> CDataStream \<Rightarrow> bool" where
  "ds_appended s d s' \<longleftrightarrow> ds_range s' = ds_range s @ d"

interpretation ds: byte_sink ds_write ds_room ds_appended
proof unfold_locales
  fix k s and d :: "byte list" assume "ds_room (k + length d) s"
  then show "\<exists>s'. ds_write d s = (Inr (), s') \<and> ds_room k s' \<and> ds_appended s d s'"
    using ds_write_range [of s d] by (auto simp: ds_room_def ds_appended_def intro!: prod_eqI)
qed (simp_all add: ds_appended_def)

interpretation ds: byte_source ds_read ds_room ds_range
proof unfold_locales
  fix k s and d r :: "byte list" assume "ds_room k s" "ds_range s = d @ r"
  then show "\<exists>s'. ds_read (length d) s = (Inr d, s') \<and> ds_room k s' \<and> ds_range s' = r"
    using ds_read_range [of s "length d"] by (auto simp: ds_room_def intro!: prod_eqI)
next
  fix k n s assume "ds_room k s" "n \<le> k" "length (ds_range s) < n"
  then show "\<exists>e s'. ds_read n s = (Inl e, s')"
    using ds_read_short [of s n] ds_okD [of s] by (simp add: ds_room_def)
qed

text \<open>\<^verbatim>\<open>CSizeComputer\<close> only counts.\<close>

record CSizeComputer =
  nSize :: u64
  scType :: u32
  scVersion :: u32

definition CSizeComputer_new :: "u32 \<Rightarrow> u32 \<Rightarrow> CSizeComputer" where
  "CSizeComputer_new nTypeIn nVersionIn = \<lparr>nSize = 0, scType = nTypeIn, scVersion = nVersionIn\<rparr>"

definition sc_write :: "byte list \<Rightarrow> CSizeComputer \<Rightarrow> unit sresult \<times> CSizeComputer" where
  "sc_write psz s = (Inr (), s\<lparr>nSize := nSize s + of_nat (length psz)\<rparr>)"

definition sc_size :: "CSizeComputer \<Rightarrow> u64" where
  "sc_size s = nSize s"

definition sc_appended :: "CSizeComputer \<Rightarrow> byte list \<Rightarrow> CSizeComputer \<Rightarrow> bool" where
  "sc_appended s d s' \<longleftrightarrow> sc_size s' = sc_size s + of_nat (length d)"

interpretation sc: byte_sink sc_write "\<lambda>k s. True" sc_appended
  by unfold_locales (simp_all add: sc_appended_def sc_size_def sc_write_def)

subsection \<open>Properties\<close>



text \<open>
  \<^verbatim>\<open>read\<close> adds the requested size, of 64 bits, to the 32-bit position before it compares with the size of the
  buffer: a request of 2 to the 32 bytes from a stream that holds any passes the test and copies from behind
  the end of the buffer instead of throwing.
\<close>

lemma CDataStream_read_wraps:
  assumes "ds_ok s" and "ds_range s \<noteq> []"
  shows "ds_read (2 ^ 32) s = (Inl out_of_bounds, s)"
proof -
  have "unat (nReadPos s) < length (vch s)" "length (vch s) < 2 ^ 32"
    using assms ds_okD by (auto simp: ds_range_def)
  moreover have "nReadPos s + of_nat (2 ^ 32) = nReadPos s"
    by simp
  ultimately show ?thesis
    unfolding ds_read_def Let_def by (simp only: simp_thms if_False not_le [symmetric] if_True) (simp add: ds_copy_def)
qed

lemma CDataStream_read_wraps_witness:
  "ds_read (2 ^ 32) (CDataStream_new [1] 0 0) = (Inl out_of_bounds, CDataStream_new [1] 0 0)"
  using CDataStream_read_wraps [of "CDataStream_new [1] 0 0"] ds_ok_new [of "[1]" 0 0] by simp

end
