(* ===== verification/Serialize.thy ===== *)
theory Serialize
  imports Data_Stream "HOL-Library.List_Lexorder"
begin

section \<open>Serialization of values (util/serialize/serialize.h)\<close>

text \<open>
  The templates \<^verbatim>\<open>GetSerializeSize\<close>, \<^verbatim>\<open>Serialize\<close> and \<^verbatim>\<open>Unserialize\<close> as functions of the stream's \<^verbatim>\<open>write\<close> (\<open>wr\<close>) or
  \<^verbatim>\<open>read\<close> (\<open>rd\<close>) and of the operations of the element types, which the compiler finds by overloading. Integers
  are written in the byte order of the machine, little endian. \<^verbatim>\<open>unsigned int\<close> sizes are 32-bit words. A
  value that is being read when an exception is thrown is not observed. A \<^verbatim>\<open>std::map\<close> is the list of its pairs in
  the order of the keys, a \<^verbatim>\<open>std::set\<close> the ordered list of its elements.
\<close>

subsection \<open>Basic types\<close>

definition MAX_SIZE :: u32 where "MAX_SIZE = 0x02000000"

primrec le_bytes :: "nat \<Rightarrow> nat \<Rightarrow> byte list" where
  "le_bytes 0 v = []"
| "le_bytes (Suc n) v = of_nat v # le_bytes n (v div 256)"

primrec le_value :: "byte list \<Rightarrow> nat" where
  "le_value [] = 0"
| "le_value (b # bs) = unat b + 256 * le_value bs"

text \<open>The object representation of an integer of the width of the word, for \<^verbatim>\<open>WRITEDATA\<close> and \<^verbatim>\<open>READDATA\<close>.\<close>

definition sizeof_word :: "'a::len word itself \<Rightarrow> nat" where
  "sizeof_word t = LENGTH('a) div 8"

definition word_bytes :: "'a::len word \<Rightarrow> byte list" where
  "word_bytes a = le_bytes (sizeof_word TYPE('a word)) (unat a)"

definition GetSerializeSize_word :: "'a::len word \<Rightarrow> u32" where
  "GetSerializeSize_word a = of_nat (sizeof_word TYPE('a word))"

definition Serialize_word :: "(byte list \<Rightarrow> 's \<Rightarrow> unit sresult \<times> 's) \<Rightarrow> 'a::len word \<Rightarrow> 's \<Rightarrow> unit sresult \<times> 's" where
  "Serialize_word wr a = wr (word_bytes a)"

definition Unserialize_word :: "(nat \<Rightarrow> 's \<Rightarrow> byte list sresult \<times> 's) \<Rightarrow> 's \<Rightarrow> ('a::len word) sresult \<times> 's" where
  "Unserialize_word rd = s_bind (rd (sizeof_word TYPE('a word))) (\<lambda>d. s_return (of_nat (le_value d)))"

definition GetSerializeSize_bool :: "bool \<Rightarrow> u32" where
  "GetSerializeSize_bool a = 1"

definition Serialize_bool :: "(byte list \<Rightarrow> 's \<Rightarrow> unit sresult \<times> 's) \<Rightarrow> bool \<Rightarrow> 's \<Rightarrow> unit sresult \<times> 's" where
  "Serialize_bool wr a = (let f = (if a then 1 else 0 :: byte) in Serialize_word wr f)"

definition Unserialize_bool :: "(nat \<Rightarrow> 's \<Rightarrow> byte list sresult \<times> 's) \<Rightarrow> 's \<Rightarrow> bool sresult \<times> 's" where
  "Unserialize_bool rd = s_bind (Unserialize_word rd) (\<lambda>f :: byte. s_return (f \<noteq> 0))"

subsection \<open>Compact size\<close>

definition GetSizeOfCompactSize :: "u64 \<Rightarrow> u32" where
  "GetSizeOfCompactSize sz =
     (if sz < 253 then 1
      else if sz \<le> 0xFFFF then 1 + 2
      else if sz \<le> 0xFFFFFFFF then 1 + 4
      else 1 + 8)"

definition WriteCompactSize :: "(byte list \<Rightarrow> 's \<Rightarrow> unit sresult \<times> 's) \<Rightarrow> u64 \<Rightarrow> 's \<Rightarrow> unit sresult \<times> 's" where
  "WriteCompactSize wr sz =
     (if sz < 253 then Serialize_word wr (ucast sz :: byte)
      else if sz \<le> 0xFFFF
      then s_bind (Serialize_word wr (253 :: byte)) (\<lambda>_. Serialize_word wr (ucast sz :: u16))
      else if sz \<le> 0xFFFFFFFF
      then s_bind (Serialize_word wr (254 :: byte)) (\<lambda>_. Serialize_word wr (ucast sz :: u32))
      else s_bind (Serialize_word wr (255 :: byte)) (\<lambda>_. Serialize_word wr sz))"

definition ReadCompactSize :: "(nat \<Rightarrow> 's \<Rightarrow> byte list sresult \<times> 's) \<Rightarrow> 's \<Rightarrow> u64 sresult \<times> 's" where
  "ReadCompactSize rd =
     s_bind (Unserialize_word rd) (\<lambda>chSize :: byte.
     s_bind
       (if chSize < 253 then s_return (ucast chSize)
        else if chSize = 253
        then s_bind (Unserialize_word rd) (\<lambda>xSize :: u16.
               if (ucast xSize :: u64) < 253 then s_throw ''non-canonical ReadCompactSize()'' else s_return (ucast xSize))
        else if chSize = 254
        then s_bind (Unserialize_word rd) (\<lambda>xSize :: u32.
               if (ucast xSize :: u64) < 0x10000 then s_throw ''non-canonical ReadCompactSize()'' else s_return (ucast xSize))
        else s_bind (Unserialize_word rd) (\<lambda>xSize :: u64.
               if xSize < 0x100000000 then s_throw ''non-canonical ReadCompactSize()'' else s_return xSize))
       (\<lambda>nSizeRet.
         if ucast MAX_SIZE < nSizeRet then s_throw ''ReadCompactSize() : size too large'' else s_return nSizeRet))"

subsection \<open>Flat data and strings\<close>

definition GetSerializeSize_flat :: "byte list \<Rightarrow> u32" where
  "GetSerializeSize_flat d = of_nat (length d)"

definition Serialize_flat :: "(byte list \<Rightarrow> 's \<Rightarrow> unit sresult \<times> 's) \<Rightarrow> byte list \<Rightarrow> 's \<Rightarrow> unit sresult \<times> 's" where
  "Serialize_flat wr d = wr d"

definition Unserialize_flat :: "(nat \<Rightarrow> 's \<Rightarrow> byte list sresult \<times> 's) \<Rightarrow> nat \<Rightarrow> 's \<Rightarrow> byte list sresult \<times> 's" where
  "Unserialize_flat rd n = rd n"

definition GetSerializeSize_string :: "byte list \<Rightarrow> u32" where
  "GetSerializeSize_string str = GetSizeOfCompactSize (of_nat (length str)) + of_nat (length str)"

definition Serialize_string :: "(byte list \<Rightarrow> 's \<Rightarrow> unit sresult \<times> 's) \<Rightarrow> byte list \<Rightarrow> 's \<Rightarrow> unit sresult \<times> 's" where
  "Serialize_string wr str =
     s_bind (WriteCompactSize wr (of_nat (length str))) (\<lambda>_. if str \<noteq> [] then wr str else s_return ())"

definition Unserialize_string :: "(nat \<Rightarrow> 's \<Rightarrow> byte list sresult \<times> 's) \<Rightarrow> 's \<Rightarrow> byte list sresult \<times> 's" where
  "Unserialize_string rd =
     s_bind (ReadCompactSize rd) (\<lambda>n. let sz = (ucast n :: u32) in
       if sz \<noteq> 0 then rd (unat sz) else s_return [])"

subsection \<open>Vectors\<close>

text \<open>Vectors of fundamental types are written as one block and read in blocks of at most five million bytes.\<close>

definition GetSerializeSize_vector_flat :: "'a::len word list \<Rightarrow> u32" where
  "GetSerializeSize_vector_flat v =
     GetSizeOfCompactSize (of_nat (length v)) + of_nat (length v * sizeof_word TYPE('a word))"

definition Serialize_vector_flat ::
  "(byte list \<Rightarrow> 's \<Rightarrow> unit sresult \<times> 's) \<Rightarrow> 'a::len word list \<Rightarrow> 's \<Rightarrow> unit sresult \<times> 's" where
  "Serialize_vector_flat wr v =
     s_bind (WriteCompactSize wr (of_nat (length v))) (\<lambda>_. if v \<noteq> [] then wr (concat (map word_bytes v)) else s_return ())"

definition words_from :: "nat \<Rightarrow> byte list \<Rightarrow> 'a::len word list" where
  "words_from n bs =
     (let sz = sizeof_word TYPE('a word) in map (\<lambda>i. of_nat (le_value (take sz (drop (i * sz) bs)))) [0..<n])"

function read_blocks ::
  "(nat \<Rightarrow> 's \<Rightarrow> byte list sresult \<times> 's) \<Rightarrow> nat \<Rightarrow> nat \<Rightarrow> 'a::len word list \<Rightarrow> 's \<Rightarrow> ('a word list) sresult \<times> 's" where
  "read_blocks rd sz i v s =
     (if i < sz
      then let blk = min (sz - i) (1 + 4999999 div sizeof_word TYPE('a word)) in
           case rd (blk * sizeof_word TYPE('a word)) s of
             (Inl e, s) \<Rightarrow> (Inl e, s)
           | (Inr d, s) \<Rightarrow> read_blocks rd sz (i + blk) (v @ words_from blk d) s
      else (Inr v, s))"
  by pat_completeness auto
termination
  by (relation "measure (\<lambda>(rd, sz, i, v, s). sz - i)") auto

declare read_blocks.simps [simp del]

definition Unserialize_vector_flat ::
  "(nat \<Rightarrow> 's \<Rightarrow> byte list sresult \<times> 's) \<Rightarrow> 's \<Rightarrow> ('a::len word list) sresult \<times> 's" where
  "Unserialize_vector_flat rd = s_bind (ReadCompactSize rd) (\<lambda>n. read_blocks rd (unat (ucast n :: u32)) 0 [])"

text \<open>
  Vectors of other types, element by element. \<open>szT\<close> is the size of the element type in bytes; when
  it is above five million the outer loop makes no progress.
\<close>

fun size_all :: "('a \<Rightarrow> u32) \<Rightarrow> 'a list \<Rightarrow> u32 \<Rightarrow> u32" where
  "size_all gss [] n = n"
| "size_all gss (x # xs) n = size_all gss xs (n + gss x)"

fun ser_all :: "('a \<Rightarrow> 's \<Rightarrow> unit sresult \<times> 's) \<Rightarrow> 'a list \<Rightarrow> 's \<Rightarrow> unit sresult \<times> 's" where
  "ser_all ser [] = s_return ()"
| "ser_all ser (x # xs) = s_bind (ser x) (\<lambda>_. ser_all ser xs)"

fun unser_n :: "('s \<Rightarrow> 'a sresult \<times> 's) \<Rightarrow> nat \<Rightarrow> 's \<Rightarrow> 'a list sresult \<times> 's" where
  "unser_n unser 0 = s_return []"
| "unser_n unser (Suc n) = s_bind unser (\<lambda>x. s_bind (unser_n unser n) (\<lambda>xs. s_return (x # xs)))"

definition GetSerializeSize_vector :: "('a \<Rightarrow> u32) \<Rightarrow> 'a list \<Rightarrow> u32" where
  "GetSerializeSize_vector gss v = size_all gss v (GetSizeOfCompactSize (of_nat (length v)))"

definition Serialize_vector ::
  "(byte list \<Rightarrow> 's \<Rightarrow> unit sresult \<times> 's) \<Rightarrow> ('a \<Rightarrow> 's \<Rightarrow> unit sresult \<times> 's) \<Rightarrow> 'a list \<Rightarrow> 's \<Rightarrow> unit sresult \<times> 's" where
  "Serialize_vector wr ser v = s_bind (WriteCompactSize wr (of_nat (length v))) (\<lambda>_. ser_all ser v)"

function read_mids :: "('s \<Rightarrow> 'a sresult \<times> 's) \<Rightarrow> nat \<Rightarrow> nat \<Rightarrow> nat \<Rightarrow> 'a list \<Rightarrow> 's \<Rightarrow> 'a list sresult \<times> 's" where
  "read_mids unser szT sz nMid v s =
     (if nMid < sz
      then if 5000000 div szT = 0 then (Inl diverges, s)
           else let next = min (nMid + 5000000 div szT) sz in
                case unser_n unser (next - nMid) s of
                  (Inl e, s) \<Rightarrow> (Inl e, s)
                | (Inr xs, s) \<Rightarrow> read_mids unser szT sz next (v @ xs) s
      else (Inr v, s))"
  by pat_completeness auto
termination
  by (relation "measure (\<lambda>(unser, szT, sz, nMid, v, s). sz - nMid)") auto

declare read_mids.simps [simp del]

definition Unserialize_vector ::
  "(nat \<Rightarrow> 's \<Rightarrow> byte list sresult \<times> 's) \<Rightarrow> nat \<Rightarrow> ('s \<Rightarrow> 'a sresult \<times> 's) \<Rightarrow> 's \<Rightarrow> 'a list sresult \<times> 's" where
  "Unserialize_vector rd szT unser =
     s_bind (ReadCompactSize rd) (\<lambda>n. read_mids unser szT (unat (ucast n :: u32)) 0 [])"

subsection \<open>Pairs and tuples\<close>

definition GetSerializeSize_pair :: "('a \<Rightarrow> u32) \<Rightarrow> ('b \<Rightarrow> u32) \<Rightarrow> 'a \<times> 'b \<Rightarrow> u32" where
  "GetSerializeSize_pair gss1 gss2 item = gss1 (fst item) + gss2 (snd item)"

definition Serialize_pair ::
  "('a \<Rightarrow> 's \<Rightarrow> unit sresult \<times> 's) \<Rightarrow> ('b \<Rightarrow> 's \<Rightarrow> unit sresult \<times> 's) \<Rightarrow> 'a \<times> 'b \<Rightarrow> 's \<Rightarrow> unit sresult \<times> 's" where
  "Serialize_pair ser1 ser2 item = s_bind (ser1 (fst item)) (\<lambda>_. ser2 (snd item))"

definition Unserialize_pair ::
  "('s \<Rightarrow> 'a sresult \<times> 's) \<Rightarrow> ('s \<Rightarrow> 'b sresult \<times> 's) \<Rightarrow> 's \<Rightarrow> ('a \<times> 'b) sresult \<times> 's" where
  "Unserialize_pair unser1 unser2 = s_bind unser1 (\<lambda>x. s_bind unser2 (\<lambda>y. s_return (x, y)))"

definition GetSerializeSize_tuple3 :: "('a \<Rightarrow> u32) \<Rightarrow> ('b \<Rightarrow> u32) \<Rightarrow> ('c \<Rightarrow> u32) \<Rightarrow> 'a \<times> 'b \<times> 'c \<Rightarrow> u32" where
  "GetSerializeSize_tuple3 g0 g1 g2 item = (case item of (x, y, z) \<Rightarrow> 0 + g0 x + g1 y + g2 z)"

definition Serialize_tuple3 ::
  "('a \<Rightarrow> 's \<Rightarrow> unit sresult \<times> 's) \<Rightarrow> ('b \<Rightarrow> 's \<Rightarrow> unit sresult \<times> 's) \<Rightarrow> ('c \<Rightarrow> 's \<Rightarrow> unit sresult \<times> 's) \<Rightarrow>
   'a \<times> 'b \<times> 'c \<Rightarrow> 's \<Rightarrow> unit sresult \<times> 's" where
  "Serialize_tuple3 s0 s1 s2 item = (case item of (x, y, z) \<Rightarrow> s_bind (s0 x) (\<lambda>_. s_bind (s1 y) (\<lambda>_. s2 z)))"

definition Unserialize_tuple3 ::
  "('s \<Rightarrow> 'a sresult \<times> 's) \<Rightarrow> ('s \<Rightarrow> 'b sresult \<times> 's) \<Rightarrow> ('s \<Rightarrow> 'c sresult \<times> 's) \<Rightarrow> 's \<Rightarrow> ('a \<times> 'b \<times> 'c) sresult \<times> 's" where
  "Unserialize_tuple3 u0 u1 u2 =
     s_bind u0 (\<lambda>x. s_bind u1 (\<lambda>y. s_bind u2 (\<lambda>z. s_return (x, y, z))))"

definition GetSerializeSize_tuple4 ::
  "('a \<Rightarrow> u32) \<Rightarrow> ('b \<Rightarrow> u32) \<Rightarrow> ('c \<Rightarrow> u32) \<Rightarrow> ('d \<Rightarrow> u32) \<Rightarrow> 'a \<times> 'b \<times> 'c \<times> 'd \<Rightarrow> u32" where
  "GetSerializeSize_tuple4 g0 g1 g2 g3 item = (case item of (x, y, z, w) \<Rightarrow> 0 + g0 x + g1 y + g2 z + g3 w)"

definition Serialize_tuple4 ::
  "('a \<Rightarrow> 's \<Rightarrow> unit sresult \<times> 's) \<Rightarrow> ('b \<Rightarrow> 's \<Rightarrow> unit sresult \<times> 's) \<Rightarrow> ('c \<Rightarrow> 's \<Rightarrow> unit sresult \<times> 's) \<Rightarrow>
   ('d \<Rightarrow> 's \<Rightarrow> unit sresult \<times> 's) \<Rightarrow> 'a \<times> 'b \<times> 'c \<times> 'd \<Rightarrow> 's \<Rightarrow> unit sresult \<times> 's" where
  "Serialize_tuple4 s0 s1 s2 s3 item =
     (case item of (x, y, z, w) \<Rightarrow> s_bind (s0 x) (\<lambda>_. s_bind (s1 y) (\<lambda>_. s_bind (s2 z) (\<lambda>_. s3 w))))"

definition Unserialize_tuple4 ::
  "('s \<Rightarrow> 'a sresult \<times> 's) \<Rightarrow> ('s \<Rightarrow> 'b sresult \<times> 's) \<Rightarrow> ('s \<Rightarrow> 'c sresult \<times> 's) \<Rightarrow> ('s \<Rightarrow> 'd sresult \<times> 's) \<Rightarrow>
   's \<Rightarrow> ('a \<times> 'b \<times> 'c \<times> 'd) sresult \<times> 's" where
  "Unserialize_tuple4 u0 u1 u2 u3 =
     s_bind u0 (\<lambda>x. s_bind u1 (\<lambda>y. s_bind u2 (\<lambda>z. s_bind u3 (\<lambda>w. s_return (x, y, z, w)))))"

subsection \<open>Maps and sets\<close>

text \<open>\<^verbatim>\<open>insert\<close> of a map or set: an element whose key is there already is not inserted.\<close>

fun map_insert :: "'k::linorder \<times> 'v \<Rightarrow> ('k \<times> 'v) list \<Rightarrow> ('k \<times> 'v) list" where
  "map_insert item [] = [item]"
| "map_insert item (p # m) =
     (if fst item < fst p then item # p # m
      else if fst item = fst p then p # m
      else p # map_insert item m)"

fun set_insert :: "'k::linorder \<Rightarrow> 'k list \<Rightarrow> 'k list" where
  "set_insert key [] = [key]"
| "set_insert key (k # m) = (if key < k then key # k # m else if key = k then k # m else k # set_insert key m)"

fun insert_n :: "('a \<Rightarrow> 'm \<Rightarrow> 'm) \<Rightarrow> ('s \<Rightarrow> 'a sresult \<times> 's) \<Rightarrow> nat \<Rightarrow> 'm \<Rightarrow> 's \<Rightarrow> 'm sresult \<times> 's" where
  "insert_n ins unser 0 m = s_return m"
| "insert_n ins unser (Suc n) m = s_bind unser (\<lambda>item. insert_n ins unser n (ins item m))"

definition GetSerializeSize_map :: "('k \<Rightarrow> u32) \<Rightarrow> ('v \<Rightarrow> u32) \<Rightarrow> ('k \<times> 'v) list \<Rightarrow> u32" where
  "GetSerializeSize_map gss1 gss2 m =
     size_all (GetSerializeSize_pair gss1 gss2) m (GetSizeOfCompactSize (of_nat (length m)))"

definition Serialize_map ::
  "(byte list \<Rightarrow> 's \<Rightarrow> unit sresult \<times> 's) \<Rightarrow> ('k \<Rightarrow> 's \<Rightarrow> unit sresult \<times> 's) \<Rightarrow> ('v \<Rightarrow> 's \<Rightarrow> unit sresult \<times> 's) \<Rightarrow>
   ('k \<times> 'v) list \<Rightarrow> 's \<Rightarrow> unit sresult \<times> 's" where
  "Serialize_map wr ser1 ser2 m =
     s_bind (WriteCompactSize wr (of_nat (length m))) (\<lambda>_. ser_all (Serialize_pair ser1 ser2) m)"

definition Unserialize_map ::
  "(nat \<Rightarrow> 's \<Rightarrow> byte list sresult \<times> 's) \<Rightarrow> ('s \<Rightarrow> 'k sresult \<times> 's) \<Rightarrow> ('s \<Rightarrow> 'v sresult \<times> 's) \<Rightarrow>
   's \<Rightarrow> ('k::linorder \<times> 'v) list sresult \<times> 's" where
  "Unserialize_map rd unser1 unser2 =
     s_bind (ReadCompactSize rd) (\<lambda>n. insert_n map_insert (Unserialize_pair unser1 unser2) (unat (ucast n :: u32)) [])"

definition GetSerializeSize_set :: "('k \<Rightarrow> u32) \<Rightarrow> 'k list \<Rightarrow> u32" where
  "GetSerializeSize_set gss m = size_all gss m (GetSizeOfCompactSize (of_nat (length m)))"

definition Serialize_set ::
  "(byte list \<Rightarrow> 's \<Rightarrow> unit sresult \<times> 's) \<Rightarrow> ('k \<Rightarrow> 's \<Rightarrow> unit sresult \<times> 's) \<Rightarrow> 'k list \<Rightarrow> 's \<Rightarrow> unit sresult \<times> 's" where
  "Serialize_set wr ser m = s_bind (WriteCompactSize wr (of_nat (length m))) (\<lambda>_. ser_all ser m)"

definition Unserialize_set ::
  "(nat \<Rightarrow> 's \<Rightarrow> byte list sresult \<times> 's) \<Rightarrow> ('s \<Rightarrow> 'k::linorder sresult \<times> 's) \<Rightarrow> 's \<Rightarrow> 'k list sresult \<times> 's" where
  "Unserialize_set rd unser =
     s_bind (ReadCompactSize rd) (\<lambda>n. insert_n set_insert unser (unat (ucast n :: u32)) [])"

subsection \<open>The version of a stream\<close>

definition ds_WriteVersion :: "CDataStream \<Rightarrow> unit sresult \<times> CDataStream" where
  "ds_WriteVersion s = Serialize_word ds_write (nVersion s) s"

definition ds_ReadVersion :: "CDataStream \<Rightarrow> unit sresult \<times> CDataStream" where
  "ds_ReadVersion = s_bind (Unserialize_word ds_read) (\<lambda>v s. (Inr (), s\<lparr>nVersion := v\<rparr>))"

subsection \<open>Bytes of an integer\<close>

lemma length_le_bytes [simp]: "length (le_bytes n v) = n"
  by (induction n arbitrary: v) simp_all

lemma unat_of_nat_byte: "unat (of_nat v :: byte) = v mod 256"
  by (simp add: unat_of_nat take_bit_eq_mod)

lemma le_value_bytes: "v < 256 ^ n \<Longrightarrow> le_value (le_bytes n v) = v"
proof (induction n arbitrary: v)
  case (Suc n)
  then have "v div 256 < 256 ^ n"
    by (simp add: less_mult_imp_div_less mult.commute)
  then show ?case
    using Suc.IH by (simp add: unat_of_nat_byte)
qed simp

lemma le_value_bound: "le_value bs < 256 ^ length bs"
proof (induction bs)
  case (Cons b bs)
  then show ?case
    using unat_byte_less [of b] by simp
qed simp

lemma le_bytes_value: "le_bytes (length bs) (le_value bs) = bs"
proof (induction bs)
  case (Cons b bs)
  have "of_nat (unat b + 256 * le_value bs) = b"
    using unat_byte_less [of b] by (intro iffD2 [OF word_unat_eq_iff]) (simp add: unat_of_nat_byte del: of_nat_add)
  then show ?case
    using Cons unat_byte_less [of b] by simp
qed simp

lemma length_word_bytes: "length (word_bytes (a :: 'a::len word)) = sizeof_word TYPE('a word)"
  by (simp add: word_bytes_def)

lemma pow256: "8 dvd n \<Longrightarrow> (256 :: nat) ^ (n div 8) = 2 ^ n"
  using power_mult [of "2 :: nat" 8 "n div 8"] by simp

lemma word_bytes_value:
  assumes "8 dvd LENGTH('a::len)"
  shows "of_nat (le_value (word_bytes (a :: 'a word))) = a"
proof -
  have "unat a < 256 ^ (LENGTH('a) div 8)"
    using unsigned_less [of a] pow256 [OF assms] by simp
  then show ?thesis
    by (simp add: word_bytes_def sizeof_word_def le_value_bytes)
qed

lemma word_bytes_of_value:
  assumes "8 dvd LENGTH('a::len)" and "length d = sizeof_word TYPE('a word)"
  shows "word_bytes (of_nat (le_value d) :: 'a word) = d"
proof -
  have "le_value d < 2 ^ LENGTH('a)"
    using le_value_bound [of d] pow256 [OF assms(1)] assms(2) by (simp add: sizeof_word_def)
  then have "unat (of_nat (le_value d) :: 'a word) = le_value d"
    by (simp add: unat_of_nat take_bit_nat_eq_self)
  then show ?thesis
    using le_bytes_value [of d] assms(2) by (simp add: word_bytes_def)
qed

lemma sizeof_words [simp]:
  "sizeof_word TYPE(byte) = 1" "sizeof_word TYPE(u16) = 2" "sizeof_word TYPE(u32) = 4" "sizeof_word TYPE(u64) = 8"
  by (simp_all add: sizeof_word_def)

subsection \<open>The format\<close>

definition enc_compact :: "u64 \<Rightarrow> byte list" where
  "enc_compact n =
     (if n < 253 then word_bytes (ucast n :: byte)
      else if n \<le> 0xFFFF then word_bytes (253 :: byte) @ word_bytes (ucast n :: u16)
      else if n \<le> 0xFFFFFFFF then word_bytes (254 :: byte) @ word_bytes (ucast n :: u32)
      else word_bytes (255 :: byte) @ word_bytes n)"

definition enc_count :: "'a list \<Rightarrow> byte list" where
  "enc_count xs = enc_compact (of_nat (length xs))"

definition enc_string :: "byte list \<Rightarrow> byte list" where
  "enc_string str = enc_count str @ str"

definition enc_list :: "('a \<Rightarrow> byte list) \<Rightarrow> 'a list \<Rightarrow> byte list" where
  "enc_list enc v = enc_count v @ concat (map enc v)"

definition enc_pair :: "('a \<Rightarrow> byte list) \<Rightarrow> ('b \<Rightarrow> byte list) \<Rightarrow> 'a \<times> 'b \<Rightarrow> byte list" where
  "enc_pair e1 e2 p = e1 (fst p) @ e2 (snd p)"

context byte_sink
begin

lemma writes_word: "writes (Serialize_word wr a) (word_bytes a)"
  by (simp add: Serialize_word_def writes_wr)

lemma writes_compact: "writes (WriteCompactSize wr n) (enc_compact n)"
  by (simp add: WriteCompactSize_def enc_compact_def writes_word writes_bind)

lemma writes_ser_all: "(\<And>x. x \<in> set v \<Longrightarrow> writes (ser x) (enc x)) \<Longrightarrow> writes (ser_all ser v) (concat (map enc v))"
  by (induction v) (simp_all add: writes_return writes_bind)

lemma writes_vector:
  assumes "\<And>x. x \<in> set v \<Longrightarrow> writes (ser x) (enc x)"
  shows "writes (Serialize_vector wr ser v) (enc_list enc v)"
  unfolding Serialize_vector_def enc_list_def enc_count_def
  by (intro writes_bind writes_compact writes_ser_all assms)

lemma writes_string: "writes (Serialize_string wr str) (enc_string str)"
proof -
  have "writes (if str \<noteq> [] then wr str else s_return ()) str"
    using writes_wr [of str] writes_return by simp
  then show ?thesis
    unfolding Serialize_string_def enc_string_def enc_count_def by (intro writes_bind writes_compact)
qed

lemma writes_vector_flat: "writes (Serialize_vector_flat wr v) (enc_list word_bytes v)"
proof -
  have "writes (if v \<noteq> [] then wr (concat (map word_bytes v)) else s_return ()) (concat (map word_bytes v))"
    using writes_wr writes_return by simp
  then show ?thesis
    unfolding Serialize_vector_flat_def enc_list_def enc_count_def by (intro writes_bind writes_compact)
qed

lemma writes_pair:
  "writes (ser1 (fst p)) (e1 (fst p)) \<Longrightarrow> writes (ser2 (snd p)) (e2 (snd p)) \<Longrightarrow> writes (Serialize_pair ser1 ser2 p) (enc_pair e1 e2 p)"
  unfolding Serialize_pair_def enc_pair_def by (intro writes_bind)

lemma writes_tuple:
  assumes "writes (s0 x) d0" and "writes (s1 y) d1" and "writes (s2 z) d2"
  shows "writes (Serialize_tuple3 s0 s1 s2 (x, y, z)) (d0 @ d1 @ d2)"
    and "writes (s3 w) d3 \<Longrightarrow> writes (Serialize_tuple4 s0 s1 s2 s3 (x, y, z, w)) (d0 @ d1 @ d2 @ d3)"
  using assms by (simp_all add: Serialize_tuple3_def Serialize_tuple4_def writes_bind)

lemma writes_map:
  assumes "\<And>p. p \<in> set m \<Longrightarrow> writes (ser1 (fst p)) (e1 (fst p))" and "\<And>p. p \<in> set m \<Longrightarrow> writes (ser2 (snd p)) (e2 (snd p))"
  shows "writes (Serialize_map wr ser1 ser2 m) (enc_list (enc_pair e1 e2) m)"
  unfolding Serialize_map_def enc_list_def enc_count_def
  by (intro writes_bind writes_compact writes_ser_all writes_pair assms)

end

lemma unat_ucast_small: "unat (n :: u64) < 2 ^ LENGTH('b) \<Longrightarrow> unat (ucast n :: 'b::len word) = unat n"
  by (simp add: unsigned_ucast_eq take_bit_nat_eq_self)

lemma ucast_ucast_small:
  assumes "unat (n :: u64) < 2 ^ LENGTH('b::len)"
  shows "ucast (ucast n :: 'b word) = n"
proof -
  have "unat (ucast (ucast n :: 'b word) :: u64) = take_bit 64 (unat (ucast n :: 'b word))"
    by (rule unsigned_ucast_eq [where ?'c = 64, simplified])
  moreover have "unat n < 2 ^ 64"
    using unsigned_less [of n] by simp
  ultimately show ?thesis
    by (intro iffD2 [OF word_unat_eq_iff]) (simp add: unat_ucast_small [OF assms] take_bit_nat_eq_self)
qed

lemma length_concat_word_bytes:
  "length (concat (map word_bytes (v :: 'a::len word list))) = length v * sizeof_word TYPE('a word)"
  by (induction v) (simp_all add: length_word_bytes)

lemma concat_chunk:
  "\<forall>x \<in> set w. length (f x) = sz \<Longrightarrow> i < length w \<Longrightarrow> take sz (drop (i * sz) (concat (map f w))) = f (w ! i)"
proof (induction w arbitrary: i)
  case (Cons x w)
  then show ?case by (cases i) simp_all
qed simp

lemma words_from_bytes:
  fixes w :: "'a::len word list"
  assumes "8 dvd LENGTH('a)"
  shows "words_from (length w) (concat (map word_bytes w)) = w"
  by (rule nth_equalityI) (simp_all add: words_from_def Let_def concat_chunk length_word_bytes word_bytes_value [OF assms])

lemma unat_ucast_up:
  assumes "LENGTH('b::len) \<le> 64"
  shows "unat (ucast (x :: 'b word) :: u64) = unat x"
proof -
  have "unat x < 2 ^ LENGTH('b)"
    using unsigned_less [of x] by simp
  also have "\<dots> \<le> 2 ^ 64"
    using assms by (intro power_increasing) simp_all
  finally show ?thesis
    by (simp add: unsigned_ucast_eq take_bit_nat_eq_self)
qed

lemma ucast_up_bounds:
  "(ucast (x :: u16) :: u64) \<le> 0xFFFF" "ucast (ucast x :: u64) = x"
  "(ucast (y :: u32) :: u64) \<le> 0xFFFFFFFF" "ucast (ucast y :: u64) = y"
proof -
  have u: "unat x < 2 ^ 16" "unat y < 2 ^ 32"
    using unsigned_less [of x] unsigned_less [of y] by simp_all
  then show "(ucast x :: u64) \<le> 0xFFFF" "(ucast y :: u64) \<le> 0xFFFFFFFF"
    by (simp_all add: word_le_nat_alt unat_ucast_up)
  have "unat (ucast (ucast x :: u64) :: u16) = unat x" "unat (ucast (ucast y :: u64) :: u32) = unat y"
    using u by (subst unat_ucast_small; simp add: unat_ucast_up)+
  then show "ucast (ucast x :: u64) = x" "ucast (ucast y :: u64) = y"
    by (simp_all only: word_unat_eq_iff)
qed

lemma marker_cases:
  obtains "c < 253" | "c = 253" | "c = 254" | "c = (255 :: byte)"
proof -
  have "unat c < 253 \<or> unat c = 253 \<or> unat c = 254 \<or> unat c = 255"
    using unat_byte_less [of c] by linarith
  then show ?thesis
    using that by (auto simp: word_less_nat_alt word_unat_eq_iff)
qed

lemmas compact_unfold = ReadCompactSize_def s_bind_def s_throw_def s_return_def

context byte_source
begin

lemma reads_word: "8 dvd LENGTH('a::len) \<Longrightarrow> reads (Unserialize_word rd) (word_bytes a) (a :: 'a word)"
  using reads_bind [OF reads_rd [OF length_word_bytes [of a]], of "\<lambda>d. s_return (of_nat (le_value d))" "[]" a]
  by (simp add: Unserialize_word_def word_bytes_value reads_return)

lemma reads_compact_body:
  assumes "reads (Unserialize_word rd) (word_bytes c) (c :: byte)"
    and "reads f d n" and "\<not> ucast MAX_SIZE < n"
    and "f = (if c < 253 then s_return (ucast c)
        else if c = 253
        then s_bind (Unserialize_word rd) (\<lambda>xSize :: u16.
               if (ucast xSize :: u64) < 253 then s_throw ''non-canonical ReadCompactSize()'' else s_return (ucast xSize))
        else if c = 254
        then s_bind (Unserialize_word rd) (\<lambda>xSize :: u32.
               if (ucast xSize :: u64) < 0x10000 then s_throw ''non-canonical ReadCompactSize()'' else s_return (ucast xSize))
        else s_bind (Unserialize_word rd) (\<lambda>xSize :: u64.
               if xSize < 0x100000000 then s_throw ''non-canonical ReadCompactSize()'' else s_return xSize))"
  shows "reads (ReadCompactSize rd) (word_bytes c @ d) n"
proof -
  have "reads (s_bind f (\<lambda>nSizeRet. if ucast MAX_SIZE < nSizeRet then s_throw ''ReadCompactSize() : size too large''
      else s_return nSizeRet)) (d @ []) n"
    using assms(3) by (intro reads_bind [OF assms(2)]) (simp add: reads_return)
  then show ?thesis
    unfolding ReadCompactSize_def assms(4) by (intro reads_bind [OF assms(1)]) simp
qed

lemma reads_compact:
  assumes "n \<le> ucast MAX_SIZE"
  shows "reads (ReadCompactSize rd) (enc_compact n) n"
proof -
  have n: "unat n \<le> 0x02000000"
    using assms by (simp add: word_le_nat_alt MAX_SIZE_def unsigned_ucast_eq)
  then have m: "\<not> ucast MAX_SIZE < n"
    using assms by simp
  have b: "reads (Unserialize_word rd) (word_bytes c) (c :: byte)" for c
    by (rule reads_word) simp
  consider "n < 253" | "253 \<le> n" "n \<le> 0xFFFF" | "0xFFFF < n" "n \<le> 0xFFFFFFFF"
    using n by (fastforce simp: word_le_nat_alt word_less_nat_alt)
  then show ?thesis
  proof cases
    case 1
    then have "ucast (ucast n :: byte) = n" "(ucast n :: byte) < 253"
      by (simp_all add: ucast_ucast_small word_less_nat_alt unat_ucast_small)
    then show ?thesis
      using reads_compact_body [OF b _ m refl, of "ucast n" "[]"] 1 by (simp add: enc_compact_def reads_return)
  next
    case 2
    then have u: "ucast (ucast n :: u16) = n" "\<not> n < 253"
      by (simp_all add: ucast_ucast_small word_le_nat_alt word_less_nat_alt)
    have "reads (s_bind (Unserialize_word rd) (\<lambda>xSize :: u16.
        if (ucast xSize :: u64) < 253 then s_throw ''non-canonical ReadCompactSize()'' else s_return (ucast xSize)))
        (word_bytes (ucast n :: u16) @ []) n"
      using u by (intro reads_bind [OF reads_word]) (simp_all add: reads_return)
    then show ?thesis
      using reads_compact_body [OF b _ m refl, of 253 "word_bytes (ucast n :: u16)"] 2 u by (simp add: enc_compact_def)
  next
    case 3
    then have u: "ucast (ucast n :: u32) = n" "\<not> n < 0x10000" "\<not> n < 253" "\<not> n \<le> 0xFFFF"
      by (simp_all add: ucast_ucast_small word_le_nat_alt word_less_nat_alt)
    have "reads (s_bind (Unserialize_word rd) (\<lambda>xSize :: u32.
        if (ucast xSize :: u64) < 0x10000 then s_throw ''non-canonical ReadCompactSize()'' else s_return (ucast xSize)))
        (word_bytes (ucast n :: u32) @ []) n"
      using u by (intro reads_bind [OF reads_word]) (simp_all add: reads_return)
    then show ?thesis
      using reads_compact_body [OF b _ m refl, of 254 "word_bytes (ucast n :: u32)"] 3 u by (simp add: enc_compact_def)
  qed
qed

lemma reads_count:
  assumes "length xs \<le> 0x02000000"
  shows "reads (ReadCompactSize rd) (enc_count xs) (of_nat (length xs))"
    and "unat (ucast (of_nat (length xs) :: u64) :: u32) = length xs"
proof -
  have u: "unat (of_nat (length xs) :: u64) = length xs"
    using assms by (simp add: unat_of_nat take_bit_nat_eq_self)
  then show "reads (ReadCompactSize rd) (enc_count xs) (of_nat (length xs))"
    unfolding enc_count_def
    using assms by (intro reads_compact) (simp add: word_le_nat_alt MAX_SIZE_def)
  show "unat (ucast (of_nat (length xs) :: u64) :: u32) = length xs"
    using assms u by (subst unat_ucast_small) simp_all
qed

lemma reads_string:
  assumes "length str \<le> 0x02000000"
  shows "reads (Unserialize_string rd) (enc_string str) str"
proof -
  have "reads (let sz = (ucast (of_nat (length str) :: u64) :: u32) in if sz \<noteq> 0 then rd (unat sz) else s_return []) str str"
    using reads_count(2) [OF assms] reads_rd [of str] reads_return by (auto simp: Let_def simp flip: unat_eq_0)
  then show ?thesis
    unfolding Unserialize_string_def enc_string_def by (intro reads_bind [OF reads_count(1) [OF assms]])
qed

lemma reads_unser_n:
  "(\<And>x. x \<in> set v \<Longrightarrow> reads unser (enc x) x) \<Longrightarrow> reads (unser_n unser (length v)) (concat (map enc v)) v"
proof (induction v)
  case (Cons x v)
  have "reads (s_bind (unser_n unser (length v)) (\<lambda>xs. s_return (x # xs))) (concat (map enc v) @ []) (x # v)"
    using Cons by (intro reads_bind [where x = v] reads_return) simp_all
  then show ?case
    using Cons.prems by (auto intro!: reads_bind [where x = x])
qed (simp add: reads_return)

text \<open>A loop that reads a list in chunks, whatever their sizes.\<close>

lemma reads_chunks:
  assumes "\<And>i. i < length v \<Longrightarrow> \<exists>j chunk. i < j \<and> j \<le> length v \<and>
      L i (take i v) = s_bind chunk (\<lambda>w. L j (take i v @ w)) \<and>
      reads chunk (concat (map enc (drop i (take j v)))) (drop i (take j v))"
    and "L (length v) v = s_return v" and "i \<le> length v"
  shows "reads (L i (take i v)) (concat (map enc (drop i v))) v"
  using assms(3)
proof (induction "length v - i" arbitrary: i rule: less_induct)
  case less
  show ?case
  proof (cases "i < length v")
    case True
    then obtain j chunk where j: "i < j" "j \<le> length v" "L i (take i v) = s_bind chunk (\<lambda>w. L j (take i v @ w))"
      "reads chunk (concat (map enc (drop i (take j v)))) (drop i (take j v))"
      using assms(1) by blast
    have split1: "take i v @ drop i (take j v) = take j v"
      using j append_take_drop_id [of i "take j v"] by (simp add: min_def)
    have split2: "drop i v = drop i (take j v) @ drop j v"
      using j append_take_drop_id [of j v] drop_append [of i "take j v" "drop j v"] by (simp add: min_def)
    have "reads (L j (take j v)) (concat (map enc (drop j v))) v"
      using less(1) [of j] j by simp
    then have "reads (s_bind chunk (\<lambda>w. L j (take i v @ w))) (concat (map enc (drop i (take j v))) @ concat (map enc (drop j v))) v"
      using reads_bind [OF j(4), where g = "\<lambda>w. L j (take i v @ w)"] by (simp only: split1)
    then show ?thesis
      by (simp only: j(3) split2 map_append concat_append)
  next
    case False
    then show ?thesis
      using less.prems assms(2) by (simp add: reads_return)
  qed
qed

lemma reads_mids:
  assumes "\<And>x. x \<in> set v \<Longrightarrow> reads unser (enc x) x" and "0 < 5000000 div szT"
  shows "reads (read_mids unser szT (length v) 0 []) (concat (map enc v)) v"
proof -
  have "reads (read_mids unser szT (length v) 0 (take 0 v)) (concat (map enc (drop 0 v))) v"
  proof (rule reads_chunks)
    fix i assume i: "i < length v"
    let ?j = "min (i + 5000000 div szT) (length v)"
    have "read_mids unser szT (length v) i (take i v) =
        s_bind (unser_n unser (?j - i)) (\<lambda>w. read_mids unser szT (length v) ?j (take i v @ w))"
      using i assms(2) by (auto simp: fun_eq_iff read_mids.simps [of unser szT "length v" i] s_bind_def Let_def)
    moreover have "reads (unser_n unser (length (drop i (take ?j v)))) (concat (map enc (drop i (take ?j v)))) (drop i (take ?j v))"
      by (intro reads_unser_n assms(1)) (meson in_set_dropD in_set_takeD)
    ultimately show "\<exists>j chunk. i < j \<and> j \<le> length v \<and>
        read_mids unser szT (length v) i (take i v) = s_bind chunk (\<lambda>w. read_mids unser szT (length v) j (take i v @ w)) \<and>
        reads chunk (concat (map enc (drop i (take j v)))) (drop i (take j v))"
      using i assms(2) by (intro exI [of _ ?j] exI [of _ "unser_n unser (?j - i)"]) simp
  qed (simp_all add: fun_eq_iff read_mids.simps s_return_def)
  then show ?thesis by simp
qed

lemma reads_vector:
  assumes "\<And>x. x \<in> set v \<Longrightarrow> reads unser (enc x) x" and "length v \<le> 0x02000000" and "0 < 5000000 div szT"
  shows "reads (Unserialize_vector rd szT unser) (enc_list enc v) v"
  unfolding Unserialize_vector_def enc_list_def
  using reads_mids [OF assms(1,3)] reads_count(2) [OF assms(2)]
  by (intro reads_bind [OF reads_count(1) [OF assms(2)]]) simp

lemma reads_blocks:
  fixes v :: "'a::len word list"
  assumes "8 dvd LENGTH('a)"
  shows "reads (read_blocks rd (length v) 0 []) (concat (map word_bytes v)) v"
proof -
  let ?sz = "sizeof_word TYPE('a word)"
  have "reads (read_blocks rd (length v) 0 (take 0 v)) (concat (map word_bytes (drop 0 v))) v"
  proof (rule reads_chunks)
    fix i assume i: "i < length v"
    let ?b = "min (length v - i) (1 + 4999999 div ?sz)"
    let ?w = "drop i (take (i + ?b) v)"
    let ?c = "s_bind (rd (?b * ?sz)) (\<lambda>d. s_return (words_from ?b d))"
    have len: "length ?w = ?b"
      using i by simp
    have "reads (rd (?b * ?sz)) (concat (map word_bytes ?w)) (concat (map word_bytes ?w))"
      using len by (intro reads_rd) (simp only: length_concat_word_bytes)
    then have "reads ?c (concat (map word_bytes ?w) @ []) ?w"
      using reads_bind [of _ _ _ "\<lambda>d. s_return (words_from ?b d)" "[]" ?w] reads_return [of ?w]
      by (simp only: words_from_bytes [OF assms, of ?w, unfolded len])
    moreover have "read_blocks rd (length v) i (take i v) = s_bind ?c (\<lambda>w. read_blocks rd (length v) (i + ?b) (take i v @ w))"
      using i by (auto simp: fun_eq_iff read_blocks.simps [of rd "length v" i] s_bind_def s_return_def Let_def split: prod.splits sum.splits)
    ultimately show "\<exists>j chunk. i < j \<and> j \<le> length v \<and>
        read_blocks rd (length v) i (take i v) = s_bind chunk (\<lambda>w. read_blocks rd (length v) j (take i v @ w)) \<and>
        reads chunk (concat (map word_bytes (drop i (take j v)))) (drop i (take j v))"
      using i by (intro exI [of _ "i + ?b"] exI [of _ ?c]) simp
  qed (simp_all add: fun_eq_iff read_blocks.simps s_return_def)
  then show ?thesis by simp
qed

lemma reads_vector_flat:
  fixes v :: "'a::len word list"
  assumes "8 dvd LENGTH('a)" and "length v \<le> 0x02000000"
  shows "reads (Unserialize_vector_flat rd) (enc_list word_bytes v) v"
  unfolding Unserialize_vector_flat_def enc_list_def
  using reads_blocks [OF assms(1), of v] reads_count(2) [OF assms(2)]
  by (intro reads_bind [OF reads_count(1) [OF assms(2)]]) simp

lemma reads_bool: "reads (Unserialize_bool rd) (word_bytes (if b then 1 else 0 :: byte)) b"
  using reads_bind [OF reads_word [of "if b then 1 else 0 :: byte"], of "\<lambda>f. s_return (f \<noteq> 0)" "[]" b]
  by (simp add: Unserialize_bool_def reads_return)

lemma reads_pair:
  assumes "reads u1 (e1 (fst p)) (fst p)" and "reads u2 (e2 (snd p)) (snd p)"
  shows "reads (Unserialize_pair u1 u2) (enc_pair e1 e2 p) p"
proof -
  have "reads (s_bind u2 (\<lambda>y. s_return (fst p, y))) (e2 (snd p) @ []) p"
    by (intro reads_bind [OF assms(2)]) (simp add: reads_return)
  then show ?thesis
    unfolding Unserialize_pair_def enc_pair_def by (intro reads_bind [OF assms(1)]) simp
qed

lemma reads_last: "reads u d x \<Longrightarrow> reads (s_bind u (\<lambda>x. s_return (f x))) d (f x)"
  using reads_bind [of u d x "\<lambda>x. s_return (f x)" "[]" "f x"] by (simp add: reads_return)

lemma reads_tuple:
  assumes "reads u0 d0 x" and "reads u1 d1 y"
  shows "reads u2 d2 z \<Longrightarrow> reads (Unserialize_tuple3 u0 u1 u2) (d0 @ d1 @ d2) (x, y, z)"
    and "reads u2 d2 z \<Longrightarrow> reads u3 d3 w \<Longrightarrow> reads (Unserialize_tuple4 u0 u1 u2 u3) (d0 @ d1 @ d2 @ d3) (x, y, z, w)"
  unfolding Unserialize_tuple3_def Unserialize_tuple4_def
  by (intro reads_bind [OF assms(1)] reads_bind [OF assms(2)] reads_bind [where x = z] reads_last; assumption)+

lemma reads_insert_n:
  assumes "\<And>x. x \<in> set v \<Longrightarrow> reads unser (enc x) x"
    and "\<And>x m1 m2. m @ v = m1 @ x # m2 \<Longrightarrow> ins x m1 = m1 @ [x]"
  shows "reads (insert_n ins unser (length v) m) (concat (map enc v)) (m @ v)"
  using assms
proof (induction v arbitrary: m)
  case (Cons x v)
  have "ins x m = m @ [x]"
    using Cons.prems(2) [of m x v] by simp
  moreover have "reads (insert_n ins unser (length v) (m @ [x])) (concat (map enc v)) ((m @ [x]) @ v)"
    using Cons.prems by (intro Cons.IH) simp_all
  ultimately show ?case
    using Cons.prems(1) by (auto intro!: reads_bind [where x = x])
qed (simp add: reads_return)

lemma reads_map:
  assumes "\<And>p. p \<in> set m \<Longrightarrow> reads u1 (e1 (fst p)) (fst p)" and "\<And>p. p \<in> set m \<Longrightarrow> reads u2 (e2 (snd p)) (snd p)"
    and "length m \<le> 0x02000000" and "sorted_wrt (<) (map fst m)"
  shows "reads (Unserialize_map rd u1 u2) (enc_list (enc_pair e1 e2) m) m"
proof -
  have "map_insert x m1 = m1 @ [x]" if "[] @ m = m1 @ x # m2" for x m1 m2
  proof -
    have "\<forall>y \<in> set m1. fst y < fst x"
      using assms(4) that by (auto simp: sorted_wrt_append)
    then show ?thesis
      by (induction m1) auto
  qed
  then have "reads (insert_n map_insert (Unserialize_pair u1 u2) (length m) []) (concat (map (enc_pair e1 e2) m)) ([] @ m)"
    using assms(1,2) by (intro reads_insert_n reads_pair)
  then show ?thesis
    unfolding Unserialize_map_def enc_list_def
    using reads_count(2) [OF assms(3)] by (intro reads_bind [OF reads_count(1) [OF assms(3)]]) simp
qed

lemma reads_set:
  assumes "\<And>x. x \<in> set m \<Longrightarrow> reads u (enc x) x" and "length m \<le> 0x02000000" and "sorted_wrt (<) m"
  shows "reads (Unserialize_set rd u) (enc_list enc m) m"
proof -
  have "set_insert x m1 = m1 @ [x]" if "[] @ m = m1 @ x # m2" for x m1 m2
  proof -
    have "\<forall>y \<in> set m1. y < x"
      using assms(3) that by (auto simp: sorted_wrt_append)
    then show ?thesis
      by (induction m1) auto
  qed
  then have "reads (insert_n set_insert u (length m) []) (concat (map enc m)) ([] @ m)"
    using assms(1) by (intro reads_insert_n)
  then show ?thesis
    unfolding Unserialize_set_def enc_list_def
    using reads_count(2) [OF assms(2)] by (intro reads_bind [OF reads_count(1) [OF assms(2)]]) simp
qed

lemma word_inv:
  assumes "8 dvd LENGTH('a::len)" and "good k s" and "sizeof_word TYPE('a word) \<le> k"
    and "Unserialize_word rd s = (Inr (a :: 'a word), s')"
  shows "content s = word_bytes a @ content s' \<and> good k s'"
proof -
  obtain d where d: "rd (sizeof_word TYPE('a word)) s = (Inr d, s')" "a = of_nat (le_value d)"
    using assms(4) by (auto simp: Unserialize_word_def s_bind_def s_return_def split: prod.splits sum.splits)
  then show ?thesis
    using rd_inv [OF assms(2,3) d(1)] word_bytes_of_value [OF assms(1), of d] by simp
qed

lemma compact_inv:
  assumes "good k s" and "9 \<le> k" and "ReadCompactSize rd s = (Inr n, s')"
  shows "content s = enc_compact n @ content s' \<and> n \<le> ucast MAX_SIZE"
proof -
  obtain c s1 where c: "Unserialize_word rd s = (Inr (c :: byte), s1)"
    using assms(3) by (auto simp: ReadCompactSize_def s_bind_def split: prod.splits sum.splits)
  have cs: "content s = word_bytes c @ content s1" "good k s1"
    using word_inv [OF _ assms(1) _ c] assms(2) by simp_all
  have m: "n \<le> ucast MAX_SIZE"
    using assms(3) c by (auto simp: compact_unfold split: prod.splits sum.splits if_splits)
  have "content s = enc_compact n @ content s'"
  proof (cases c rule: marker_cases)
    case 1
    then have "n = ucast c" "s' = s1"
      using assms(3) c by (auto simp: compact_unfold split: if_splits)
    moreover have "(ucast c :: u64) < 253" "ucast (ucast c :: u64) = c"
      using 1 by (simp_all add: word_less_nat_alt unsigned_ucast_eq take_bit_nat_eq_self take_bit_word_eq_self)
    ultimately show ?thesis
      using cs by (simp add: enc_compact_def)
  next
    case 2
    then obtain x s2 where x: "Unserialize_word rd s1 = (Inr (x :: u16), s2)" "\<not> (ucast x :: u64) < 253" "n = ucast x" "s' = s2"
      using assms(3) c by (auto simp: compact_unfold split: prod.splits sum.splits if_splits)
    then show ?thesis
      using cs word_inv [OF _ cs(2) _ x(1)] assms(2) 2 ucast_up_bounds(1,2) [of x] by (simp add: enc_compact_def)
  next
    case 3
    then obtain x s2 where x: "Unserialize_word rd s1 = (Inr (x :: u32), s2)" "\<not> (ucast x :: u64) < 0x10000" "n = ucast x" "s' = s2"
      using assms(3) c by (auto simp: compact_unfold split: prod.splits sum.splits if_splits)
    moreover have "\<not> (ucast x :: u64) < 253" "\<not> (ucast x :: u64) \<le> 0xFFFF"
      using x(2) by (simp_all add: word_le_nat_alt word_less_nat_alt)
    ultimately show ?thesis
      using cs word_inv [OF _ cs(2) _ x(1)] assms(2) 3 ucast_up_bounds(3,4) [of x] by (simp add: enc_compact_def)
  next
    case 4
    then have "0x100000000 \<le> n"
      using assms(3) c by (auto simp: compact_unfold split: prod.splits sum.splits if_splits)
    then show ?thesis
      using m by (simp add: word_le_nat_alt MAX_SIZE_def)
  qed
  then show ?thesis using m by simp
qed

end

subsection \<open>Sizes\<close>

lemma size_compact: "GetSizeOfCompactSize n = of_nat (length (enc_compact n))"
  by (simp add: GetSizeOfCompactSize_def enc_compact_def length_word_bytes)

lemma size_count: "GetSizeOfCompactSize (of_nat (length xs)) = of_nat (length (enc_count xs))"
  by (simp add: size_compact enc_count_def)

lemma size_all_sum:
  "(\<And>x. x \<in> set v \<Longrightarrow> gss x = of_nat (length (enc x))) \<Longrightarrow> size_all gss v n = n + of_nat (length (concat (map enc v)))"
  by (induction v arbitrary: n) simp_all

lemma size_string: "GetSerializeSize_string str = of_nat (length (enc_string str))"
  by (simp add: GetSerializeSize_string_def enc_string_def size_count)

lemma size_word: "GetSerializeSize_word a = of_nat (length (word_bytes a))"
  by (simp add: GetSerializeSize_word_def length_word_bytes)

lemma size_vector:
  "(\<And>x. x \<in> set v \<Longrightarrow> gss x = of_nat (length (enc x))) \<Longrightarrow> GetSerializeSize_vector gss v = of_nat (length (enc_list enc v))"
  by (simp add: GetSerializeSize_vector_def enc_list_def size_count size_all_sum)

lemma size_vector_flat: "GetSerializeSize_vector_flat v = of_nat (length (enc_list word_bytes v))"
  by (simp add: GetSerializeSize_vector_flat_def enc_list_def size_count length_concat_word_bytes)

lemma size_pair:
  "g1 (fst p) = of_nat (length (e1 (fst p))) \<Longrightarrow> g2 (snd p) = of_nat (length (e2 (snd p))) \<Longrightarrow>
     GetSerializeSize_pair g1 g2 p = of_nat (length (enc_pair e1 e2 p))"
  by (simp add: GetSerializeSize_pair_def enc_pair_def)

lemma size_map:
  assumes "\<And>p. p \<in> set m \<Longrightarrow> g1 (fst p) = of_nat (length (e1 (fst p)))" and "\<And>p. p \<in> set m \<Longrightarrow> g2 (snd p) = of_nat (length (e2 (snd p)))"
  shows "GetSerializeSize_map g1 g2 m = of_nat (length (enc_list (enc_pair e1 e2) m))"
  using assms by (simp add: GetSerializeSize_map_def enc_list_def size_count size_all_sum [where enc = "enc_pair e1 e2"] size_pair)

lemma ds_room_new: "length d + k < 2 ^ 32 \<Longrightarrow> ds_room k (CDataStream_new d t v)"
  using ds_ok_new [of d t v] by (simp add: ds_room_def CDataStream_new_def ds_Init_def)

subsection \<open>Properties\<close>

text \<open>
  C5. \<^verbatim>\<open>WriteCompactSize\<close> appends one, three, five or nine bytes, as many as \<^verbatim>\<open>GetSizeOfCompactSize\<close> says, and
  \<^verbatim>\<open>ReadCompactSize\<close> accepts exactly these encodings of the sizes up to \<^verbatim>\<open>MAX_SIZE\<close>: longer encodings of a
  size, larger sizes and truncated input throw.
\<close>

theorem compact_size_exact:
  assumes "ds_room 9 s"
  shows "(\<exists>s'. WriteCompactSize ds_write n s = (Inr (), s') \<and> ds_range s' = ds_range s @ enc_compact n) \<and>
    length (enc_compact n) = unat (GetSizeOfCompactSize n) \<and>
    ((\<exists>s'. ReadCompactSize ds_read s = (Inr n, s') \<and> ds_range s' = r) \<longleftrightarrow> ds_range s = enc_compact n @ r \<and> n \<le> ucast MAX_SIZE)"
proof (intro conjI)
  have len: "length (enc_compact n) \<le> 9"
    by (simp add: enc_compact_def length_word_bytes)
  then show "length (enc_compact n) = unat (GetSizeOfCompactSize n)"
    by (simp add: size_compact unat_of_nat32)
  have "ds_room (0 + length (enc_compact n)) s"
    using assms len by (simp add: ds_room_def)
  then show "\<exists>s'. WriteCompactSize ds_write n s = (Inr (), s') \<and> ds_range s' = ds_range s @ enc_compact n"
    using ds.writes_compact [of n] unfolding ds.writes_def ds_appended_def by blast
  show "(\<exists>s'. ReadCompactSize ds_read s = (Inr n, s') \<and> ds_range s' = r) \<longleftrightarrow> ds_range s = enc_compact n @ r \<and> n \<le> ucast MAX_SIZE"
  proof
    show "ds_range s = enc_compact n @ r \<and> n \<le> ucast MAX_SIZE" if "\<exists>s'. ReadCompactSize ds_read s = (Inr n, s') \<and> ds_range s' = r"
      using ds.compact_inv [OF assms] that by blast
    show "\<exists>s'. ReadCompactSize ds_read s = (Inr n, s') \<and> ds_range s' = r" if "ds_range s = enc_compact n @ r \<and> n \<le> ucast MAX_SIZE"
      using ds.reads_compact [of n] that assms unfolding ds.reads_def by blast
  qed
qed

lemma compact_size_exact_witness:
  "\<exists>s'. ReadCompactSize ds_read (CDataStream_new [0xFD, 0x2C, 0x01, 7] 0 0) = (Inr 300, s') \<and> ds_range s' = [7]"
proof -
  have "ds_room 9 (CDataStream_new [0xFD, 0x2C, 0x01, 7] 0 0)"
    by (rule ds_room_new) simp
  moreover have "ds_range (CDataStream_new [0xFD, 0x2C, 0x01, 7] 0 0) = [0xFD, 0x2C, 0x01, 7]"
    using ds_ok_new [of "[0xFD, 0x2C, 0x01, 7]" 0 0] by simp
  moreover have "le_bytes (Suc (Suc 0)) 300 = [0x2C, 0x01]" "le_bytes (Suc 0) 253 = [0xFD]"
    by simp_all
  then have "enc_compact 300 = [0xFD, 0x2C, 0x01]"
    by (simp add: enc_compact_def word_bytes_def flip: numeral_2_eq_2)
  moreover have "(300 :: u64) \<le> ucast MAX_SIZE"
    by (simp add: MAX_SIZE_def)
  ultimately show ?thesis
    using compact_size_exact [of "CDataStream_new [0xFD, 0x2C, 0x01, 7] 0 0" 300 "[7]"] by simp
qed

text \<open>
  The instances of the templates for the type
  \<^verbatim>\<open>std::map<std::string, std::vector<std::pair<unsigned int, std::string> > >\<close>, its encoding, and the values that
  fit the limits: no container has more than \<^verbatim>\<open>MAX_SIZE\<close> elements.
\<close>

type_synonym index = "(byte list \<times> (u32 \<times> byte list) list) list"

definition Serialize_index :: "(byte list \<Rightarrow> 's \<Rightarrow> unit sresult \<times> 's) \<Rightarrow> index \<Rightarrow> 's \<Rightarrow> unit sresult \<times> 's" where
  "Serialize_index wr =
     Serialize_map wr (Serialize_string wr) (Serialize_vector wr (Serialize_pair (Serialize_word wr) (Serialize_string wr)))"

definition Unserialize_index :: "(nat \<Rightarrow> 's \<Rightarrow> byte list sresult \<times> 's) \<Rightarrow> nat \<Rightarrow> 's \<Rightarrow> index sresult \<times> 's" where
  "Unserialize_index rd szT =
     Unserialize_map rd (Unserialize_string rd)
       (Unserialize_vector rd szT (Unserialize_pair (Unserialize_word rd) (Unserialize_string rd)))"

definition GetSerializeSize_index :: "index \<Rightarrow> u32" where
  "GetSerializeSize_index =
     GetSerializeSize_map GetSerializeSize_string
       (GetSerializeSize_vector (GetSerializeSize_pair GetSerializeSize_word GetSerializeSize_string))"

definition enc_index :: "index \<Rightarrow> byte list" where
  "enc_index = enc_list (enc_pair enc_string (enc_list (enc_pair word_bytes enc_string)))"

definition index_ok :: "index \<Rightarrow> bool" where
  "index_ok m \<longleftrightarrow> sorted_wrt (<) (map fst m) \<and> length m \<le> 0x02000000 \<and>
     list_all (\<lambda>(k, v). length k \<le> 0x02000000 \<and> length v \<le> 0x02000000 \<and>
       list_all (\<lambda>(n, str). length str \<le> 0x02000000) v) m"

lemma index_elements:
  assumes "index_ok m" and "p \<in> set m"
  shows "length (fst p) \<le> 0x02000000" "length (snd p) \<le> 0x02000000" "q \<in> set (snd p) \<Longrightarrow> length (snd q) \<le> 0x02000000"
  using assms by (auto simp: index_ok_def list_all_iff case_prod_beta)

context byte_sink
begin

lemma writes_index: "writes (Serialize_index wr m) (enc_index m)"
  unfolding Serialize_index_def enc_index_def
  by (intro writes_map writes_vector writes_pair writes_string writes_word)

end

context byte_source
begin

lemma reads_index:
  assumes "index_ok m" and "0 < szT" and "szT \<le> 5000000"
  shows "reads (Unserialize_index rd szT) (enc_index m) m"
  unfolding Unserialize_index_def enc_index_def
proof (intro reads_map reads_vector reads_pair reads_string reads_word)
  show "0 < 5000000 div szT"
    using assms by (simp add: div_greater_zero_iff)
qed (use assms index_elements [OF assms(1)] in \<open>auto simp: index_ok_def\<close>)

end

lemma size_index: "GetSerializeSize_index m = of_nat (length (enc_index m))"
  unfolding GetSerializeSize_index_def enc_index_def
  by (intro size_map size_vector size_pair size_string size_word)

text \<open>
  C4. A map from strings to vectors of pairs that is written to an empty stream with enough room is read back
  unchanged and leaves nothing behind; its size is what \<^verbatim>\<open>GetSerializeSize\<close> and a \<^verbatim>\<open>CSizeComputer\<close> announce. The
  elements of the vectors, of \<open>szT\<close> bytes in memory, must not be larger than five million bytes, or the
  reading loop does not end.
\<close>

theorem serialize_roundtrip:
  assumes "index_ok m" and "0 < szT" and "szT \<le> 5000000"
    and "ds_room (length (enc_index m)) s" and "ds_range s = []"
  shows "\<exists>s1 s2 c. Serialize_index ds_write m s = (Inr (), s1) \<and> ds_range s1 = enc_index m \<and>
    Unserialize_index ds_read szT s1 = (Inr m, s2) \<and> ds_range s2 = [] \<and>
    GetSerializeSize_index m = of_nat (length (enc_index m)) \<and>
    Serialize_index sc_write m (CSizeComputer_new t v) = (Inr (), c) \<and> sc_size c = of_nat (length (enc_index m))"
proof -
  obtain s1 where s1: "Serialize_index ds_write m s = (Inr (), s1)" "ds_room 0 s1" "ds_range s1 = enc_index m"
    using ds.writes_index [of m] assms(4,5) unfolding ds.writes_def ds_appended_def by (metis add_0 append_Nil)
  then obtain s2 where s2: "Unserialize_index ds_read szT s1 = (Inr m, s2)" "ds_range s2 = []"
    using ds.reads_index [OF assms(1-3)] unfolding ds.reads_def by (metis append_Nil2)
  obtain c where "Serialize_index sc_write m (CSizeComputer_new t v) = (Inr (), c)"
    "sc_appended (CSizeComputer_new t v) (enc_index m) c"
    using sc.writes_index [of m] unfolding sc.writes_def by blast
  then show ?thesis
    using s1 s2 size_index [of m] by (auto simp: sc_appended_def sc_size_def CSizeComputer_new_def)
qed

lemma serialize_roundtrip_witness:
  "\<exists>s1 s2 c. Serialize_index ds_write [([0x61], [(7, [0x62])])] (CDataStream_new [] 0 0) = (Inr (), s1) \<and>
    ds_range s1 = enc_index [([0x61], [(7, [0x62])])] \<and>
    Unserialize_index ds_read 40 s1 = (Inr [([0x61], [(7, [0x62])])], s2) \<and> ds_range s2 = [] \<and>
    GetSerializeSize_index [([0x61], [(7, [0x62])])] = of_nat (length (enc_index [([0x61], [(7, [0x62])])])) \<and>
    Serialize_index sc_write [([0x61], [(7, [0x62])])] (CSizeComputer_new 0 0) = (Inr (), c) \<and>
    sc_size c = of_nat (length (enc_index [([0x61], [(7, [0x62])])]))"
proof (rule serialize_roundtrip)
  show "ds_room (length (enc_index [([0x61], [(7, [0x62])])])) (CDataStream_new [] 0 0)"
    by (rule ds_room_new) (simp add: enc_index_def enc_list_def enc_pair_def enc_string_def enc_count_def enc_compact_def length_word_bytes)
qed (simp_all add: index_ok_def CDataStream_new_def ds_Init_def ds_range_def)

end
