(* ===== verification/Net_Serialize.thy ===== *)
theory Net_Serialize
  imports Net_Subnet Serialize
begin

section \<open>Network types in byte streams (util/netbase and util/serialize)\<close>

text \<open>
  The serialization methods of \<^verbatim>\<open>CNetAddr\<close>, \<^verbatim>\<open>CService\<close> and \<^verbatim>\<open>CSubNet\<close>: flat copies of their fields, the port in network
  byte order. They take the operations of the stream as arguments, so the laws of the locales \<open>byte_sink\<close> and
  \<open>byte_source\<close> carry the proofs.
\<close>

definition Serialize_CNetAddr ::
  "(byte list \<Rightarrow> 's \<Rightarrow> unit sresult \<times> 's) \<Rightarrow> 'a CNetAddr_scheme \<Rightarrow> 's \<Rightarrow> unit sresult \<times> 's" where
  "Serialize_CNetAddr wr a = Serialize_flat wr (ip a)"

definition Unserialize_CNetAddr :: "(nat \<Rightarrow> 's \<Rightarrow> byte list sresult \<times> 's) \<Rightarrow> 's \<Rightarrow> CNetAddr sresult \<times> 's" where
  "Unserialize_CNetAddr rd = s_bind (Unserialize_flat rd 16) (\<lambda>d. s_return \<lparr>ip = d\<rparr>)"

definition Serialize_CService ::
  "(byte list \<Rightarrow> 's \<Rightarrow> unit sresult \<times> 's) \<Rightarrow> CService \<Rightarrow> 's \<Rightarrow> unit sresult \<times> 's" where
  "Serialize_CService wr s =
     s_bind (Serialize_flat wr (ip s)) (\<lambda>_.
       let portN = htons (port s) in Serialize_flat wr (word_bytes portN))"

definition Unserialize_CService :: "(nat \<Rightarrow> 's \<Rightarrow> byte list sresult \<times> 's) \<Rightarrow> 's \<Rightarrow> CService sresult \<times> 's" where
  "Unserialize_CService rd =
     s_bind (Unserialize_flat rd 16) (\<lambda>d.
     s_bind (Unserialize_flat rd 2) (\<lambda>portN.
     s_return \<lparr>ip = d, port = htons (of_nat (le_value portN))\<rparr>))"

text \<open>A Boolean is stored as one byte, 0 or 1; another byte is no Boolean and its use is undefined.\<close>

definition Serialize_CSubNet ::
  "(byte list \<Rightarrow> 's \<Rightarrow> unit sresult \<times> 's) \<Rightarrow> CSubNet \<Rightarrow> 's \<Rightarrow> unit sresult \<times> 's" where
  "Serialize_CSubNet wr n =
     s_bind (Serialize_CNetAddr wr (network n)) (\<lambda>_.
     s_bind (Serialize_flat wr (netmask n)) (\<lambda>_.
     Serialize_flat wr [if valid n then 1 else 0]))"

definition Unserialize_CSubNet :: "(nat \<Rightarrow> 's \<Rightarrow> byte list sresult \<times> 's) \<Rightarrow> 's \<Rightarrow> CSubNet sresult \<times> 's" where
  "Unserialize_CSubNet rd =
     s_bind (Unserialize_CNetAddr rd) (\<lambda>a.
     s_bind (Unserialize_flat rd 16) (\<lambda>m.
     s_bind (Unserialize_flat rd 1) (\<lambda>v.
     s_return \<lparr>network = a, netmask = m, valid = (v \<noteq> [0])\<rparr>)))"

definition enc_service :: "CService \<Rightarrow> byte list" where
  "enc_service s = ip s @ word_bytes (htons (port s))"

definition enc_subnet :: "CSubNet \<Rightarrow> byte list" where
  "enc_subnet n = ip (network n) @ netmask n @ [if valid n then 1 else 0]"

context byte_sink
begin

lemma writes_CNetAddr: "writes (Serialize_CNetAddr wr a) (ip a)"
  by (simp add: Serialize_CNetAddr_def Serialize_flat_def writes_wr)

lemma writes_CService: "writes (Serialize_CService wr s) (enc_service s)"
  by (simp add: Serialize_CService_def enc_service_def Serialize_flat_def Let_def writes_bind writes_wr)

lemma writes_CSubNet: "writes (Serialize_CSubNet wr n) (enc_subnet n)"
  unfolding Serialize_CSubNet_def enc_subnet_def Serialize_flat_def
  by (intro writes_bind writes_CNetAddr writes_wr)

end

context byte_source
begin

lemma reads_CNetAddr: "net_wf a \<Longrightarrow> reads (Unserialize_CNetAddr rd) (ip a) \<lparr>ip = ip a\<rparr>"
  using reads_bind [OF reads_rd [of "ip a" 16], of "\<lambda>d. s_return \<lparr>ip = d\<rparr>" "[]"]
  by (simp add: Unserialize_CNetAddr_def Unserialize_flat_def net_wf_def reads_return)

lemma reads_CService:
  assumes "net_wf s"
  shows "reads (Unserialize_CService rd) (enc_service s) s"
proof -
  let ?p = "word_bytes (htons (port s))"
  have eta: "\<lparr>ip = ip s, port = port s\<rparr> = s" by (cases s) simp
  have p: "length ?p = 2" "of_nat (le_value ?p) = htons (port s)" by (simp_all add: length_word_bytes word_bytes_value)
  have "reads (s_bind (rd 2) (\<lambda>portN. s_return \<lparr>ip = ip s, port = htons (of_nat (le_value portN))\<rparr>)) (?p @ []) s"
    by (rule reads_bind [OF reads_rd [OF p(1)]]) (simp only: p(2) htons_htons eta reads_return)
  then have "reads (s_bind (rd 16) (\<lambda>d. s_bind (rd 2) (\<lambda>portN. s_return \<lparr>ip = d, port = htons (of_nat (le_value portN))\<rparr>)))
      (ip s @ ?p) s"
    using assms by (intro reads_bind [OF reads_rd]) (simp_all add: net_wf_def)
  then show ?thesis by (simp add: Unserialize_CService_def Unserialize_flat_def enc_service_def)
qed

lemma reads_CSubNet:
  assumes "subnet_wf n"
  shows "reads (Unserialize_CSubNet rd) (enc_subnet n) n"
proof -
  have eta: "\<lparr>network = network n, netmask = netmask n, valid = ([if valid n then 1 else 0 :: byte] \<noteq> [0])\<rparr> = n" by (cases n) simp
  have net: "\<lparr>ip = ip (network n)\<rparr> = network n" by simp
  let ?v = "[if valid n then 1 else 0 :: byte]"
  have "reads (s_bind (rd 1) (\<lambda>v. s_return \<lparr>network = network n, netmask = netmask n, valid = (v \<noteq> [0])\<rparr>)) (?v @ []) n"
    by (rule reads_bind [OF reads_rd]) (simp, simp only: eta reads_return)
  then have "reads (s_bind (rd 16) (\<lambda>m. s_bind (rd 1) (\<lambda>v. s_return \<lparr>network = network n, netmask = m, valid = (v \<noteq> [0])\<rparr>)))
      (netmask n @ ?v) n"
    using assms by (intro reads_bind [OF reads_rd]) (simp_all add: subnet_wf_def)
  then have "reads (Unserialize_CSubNet rd) (ip (network n) @ netmask n @ ?v) n"
    unfolding Unserialize_CSubNet_def Unserialize_flat_def
    using assms net by (intro reads_bind [OF reads_CNetAddr]) (simp_all only: subnet_wf_def net)
  then show ?thesis by (simp add: enc_subnet_def)
qed

end

text \<open>Written to an empty \<^verbatim>\<open>CDataStream\<close> with room, services and subnets are read back unchanged.\<close>

lemma net_serialize_roundtrip:
  assumes "net_wf a" "subnet_wf n" "ds_room 18 s" "ds_range s = []" "ds_room 33 s'" "ds_range s' = []"
  shows "\<exists>s1 s2. Serialize_CService ds_write a s = (Inr (), s1) \<and> length (ds_range s1) = 18
      \<and> Unserialize_CService ds_read s1 = (Inr a, s2) \<and> ds_range s2 = []"
    and "\<exists>s1 s2. Serialize_CSubNet ds_write n s' = (Inr (), s1) \<and> length (ds_range s1) = 33
      \<and> Unserialize_CSubNet ds_read s1 = (Inr n, s2) \<and> ds_range s2 = []"
proof -
  have l: "length (enc_service a) = 18" "length (enc_subnet n) = 33"
    using assms(1,2) by (simp_all add: enc_service_def enc_subnet_def net_wf_def subnet_wf_def length_word_bytes)
  obtain s1 where s1: "Serialize_CService ds_write a s = (Inr (), s1)" "ds_room 0 s1" "ds_range s1 = enc_service a"
    using ds.writes_CService [of a] assms(3,4) l(1) unfolding ds.writes_def ds_appended_def by (metis add_0 append_Nil)
  moreover obtain s2 where "Unserialize_CService ds_read s1 = (Inr a, s2)" "ds_range s2 = []"
    using ds.reads_CService [OF assms(1)] s1(2,3) unfolding ds.reads_def by (metis append_Nil2)
  ultimately show "\<exists>s1 s2. Serialize_CService ds_write a s = (Inr (), s1) \<and> length (ds_range s1) = 18
      \<and> Unserialize_CService ds_read s1 = (Inr a, s2) \<and> ds_range s2 = []" using l(1) by metis
  obtain s1 where s1: "Serialize_CSubNet ds_write n s' = (Inr (), s1)" "ds_room 0 s1" "ds_range s1 = enc_subnet n"
    using ds.writes_CSubNet [of n] assms(5,6) l(2) unfolding ds.writes_def ds_appended_def by (metis add_0 append_Nil)
  moreover obtain s2 where "Unserialize_CSubNet ds_read s1 = (Inr n, s2)" "ds_range s2 = []"
    using ds.reads_CSubNet [OF assms(2)] s1(2,3) unfolding ds.reads_def by (metis append_Nil2)
  ultimately show "\<exists>s1 s2. Serialize_CSubNet ds_write n s' = (Inr (), s1) \<and> length (ds_range s1) = 33
      \<and> Unserialize_CSubNet ds_read s1 = (Inr n, s2) \<and> ds_range s2 = []" using l(2) by metis
qed

end
