(* ===== verification/Net_Socks.thy ===== *)
theory Net_Socks
  imports Net_Service
begin

section \<open>Proxies and connections (util/netbase)\<close>

text \<open>
  Connecting a socket, directly or through a SOCKS5 proxy. The calls of the operating system, the clock and
  the random numbers are the record \<open>sockets\<close>, functions on a state \<open>'u\<close> of the world; sockets are of a type \<open>'h\<close>.
  An operation may stop the program in one of the ways \<open>stop\<close>: the interruption of the thread, a write past the end of a
  buffer or of an \<^verbatim>\<open>fd_set\<close>, a failed assertion. \<open>None\<close> is a loop that never ends.
\<close>

subsection \<open>Operations on the world\<close>

datatype stop = Interrupted | Out_of_buffer | Past_fd_set | Assertion

datatype errno = E_INPROGRESS | E_WOULDBLOCK | E_INVAL | E_OTHER

type_synonym ('u, 'a) io = "'u \<Rightarrow> (stop + 'a \<times> 'u) option"

definition io_return :: "'a \<Rightarrow> ('u, 'a) io" where
  "io_return a u = Some (Inr (a, u))"

definition io_stop :: "stop \<Rightarrow> ('u, 'a) io" where
  "io_stop e u = Some (Inl e)"

definition io_bind :: "('u, 'a) io \<Rightarrow> ('a \<Rightarrow> ('u, 'b) io) \<Rightarrow> ('u, 'b) io" where
  "io_bind m k u = (case m u of None \<Rightarrow> None | Some (Inl e) \<Rightarrow> Some (Inl e) | Some (Inr (a, u')) \<Rightarrow> k a u')"

definition io_call :: "('u \<Rightarrow> 'a \<times> 'u) \<Rightarrow> ('u, 'a) io" where
  "io_call f u = Some (Inr (f u))"

record timeval =
  tv_sec :: int
  tv_usec :: int

text \<open>
  \<^verbatim>\<open>INVALID_SOCKET\<close> is \<open>sk_invalid\<close>. A result \<open>None\<close> of \<open>sk_select\<close> and \<open>sk_getsockopt\<close> is \<^verbatim>\<open>SOCKET_ERROR\<close>, as is \<open>False\<close> of
  \<open>sk_setflags\<close> and \<open>sk_close\<close>; \<open>sk_connect\<close> gives the error and \<open>sk_recv\<close> the error or the bytes. \<open>sk_interrupt\<close> says whether an interruption
  of the thread is pending. \<open>sk_selectable\<close> says whether a socket fits into an \<^verbatim>\<open>fd_set\<close>: it is \<^verbatim>\<open>IsSelectableSocket\<close>, which the
  sources only call, and where \<^verbatim>\<open>FD_SET\<close> is applied without asking it, a socket that does not fit is written past the end of the set.
\<close>

record ('h, 'u) sockets =
  sk_invalid :: 'h
  sk_socket :: "sockaddr \<Rightarrow> 'u \<Rightarrow> 'h \<times> 'u"
  sk_setsockopt :: "'h \<Rightarrow> 'u \<Rightarrow> int \<times> 'u"
  sk_getflags :: "'h \<Rightarrow> 'u \<Rightarrow> u32 \<times> 'u"
  sk_setflags :: "'h \<Rightarrow> u32 \<Rightarrow> 'u \<Rightarrow> bool \<times> 'u"
  sk_nonblock :: u32
  sk_connect :: "'h \<Rightarrow> sockaddr \<Rightarrow> nat \<Rightarrow> 'u \<Rightarrow> errno option \<times> 'u"
  sk_select :: "bool \<Rightarrow> 'h \<Rightarrow> timeval \<Rightarrow> 'u \<Rightarrow> int option \<times> 'u"
  sk_getsockopt :: "'h \<Rightarrow> 'u \<Rightarrow> int option \<times> 'u"
  sk_close :: "'h \<Rightarrow> 'u \<Rightarrow> bool \<times> 'u"
  sk_send :: "'h \<Rightarrow> byte list \<Rightarrow> 'u \<Rightarrow> int \<times> 'u"
  sk_recv :: "'h \<Rightarrow> nat \<Rightarrow> 'u \<Rightarrow> (errno + byte list) \<times> 'u"
  sk_selectable :: "'h \<Rightarrow> bool"
  sk_now :: "'u \<Rightarrow> int \<times> 'u"
  sk_interrupt :: "'u \<Rightarrow> bool \<times> 'u"
  sk_rand :: "'u \<Rightarrow> u32 \<times> 'u"

subsection \<open>Sockets\<close>

text \<open>C++ division and remainder round towards zero.\<close>

definition MillisToTimeval :: "int \<Rightarrow> timeval" where
  "MillisToTimeval nTimeout =
     \<lparr>tv_sec = sgn nTimeout * (\<bar>nTimeout\<bar> div 1000), tv_usec = sgn nTimeout * (\<bar>nTimeout\<bar> mod 1000) * 1000\<rparr>"

definition CloseSocket :: "('h, 'u) sockets \<Rightarrow> 'h \<Rightarrow> ('u, bool \<times> 'h) io" where
  "CloseSocket S hSocket =
     (if hSocket = sk_invalid S then io_return (False, hSocket)
      else io_bind (io_call (sk_close S hSocket)) (\<lambda>ret. io_return (ret, sk_invalid S)))"

definition SetSocketNonBlocking :: "('h, 'u) sockets \<Rightarrow> 'h \<Rightarrow> bool \<Rightarrow> ('u, bool \<times> 'h) io" where
  "SetSocketNonBlocking S hSocket fNonBlocking =
     (if fNonBlocking
      then io_bind (io_call (sk_getflags S hSocket)) (\<lambda>fFlags.
           io_bind (io_call (sk_setflags S hSocket (fFlags OR sk_nonblock S))) (\<lambda>ok.
           if \<not> ok then io_bind (CloseSocket S hSocket) (\<lambda>(_, hSocket). io_return (False, hSocket))
           else io_return (True, hSocket)))
      else io_bind (io_call (sk_getflags S hSocket)) (\<lambda>fFlags.
           io_bind (io_call (sk_setflags S hSocket (fFlags AND NOT (sk_nonblock S)))) (\<lambda>ok.
           if \<not> ok then io_bind (CloseSocket S hSocket) (\<lambda>(_, hSocket). io_return (False, hSocket))
           else io_return (True, hSocket))))"

text \<open>
  The loop of \<^verbatim>\<open>InterruptibleRecv\<close>: \<open>pos\<close> is how far the pointer \<^verbatim>\<open>data\<close> has moved in the buffer \<open>buf\<close>.
\<close>

partial_function (option) recv_loop ::
  "('h, 'u) sockets \<Rightarrow> 'h \<Rightarrow> int \<Rightarrow> byte list \<Rightarrow> nat \<Rightarrow> nat \<Rightarrow> int \<Rightarrow> 'u \<Rightarrow> (stop + (bool \<times> byte list) \<times> 'u) option" where
  "recv_loop S hSocket endTime buf pos len curTime u =
     (if len > 0 \<and> curTime < endTime
      then let (ret, u) = sk_recv S hSocket len u
           in (case ret of
                 Inr bytes \<Rightarrow>
                   if bytes = [] then Some (Inr ((False, buf), u))
                   else if length buf < pos + length bytes then Some (Inl Out_of_buffer)
                   else let (intr, u) = sk_interrupt S u
                        in if intr then Some (Inl Interrupted)
                           else let (curTime, u) = sk_now S u
                                in recv_loop S hSocket endTime (take pos buf @ bytes @ drop (pos + length bytes) buf)
                                     (pos + length bytes) (len - length bytes) curTime u
               | Inl nErr \<Rightarrow>
                   if nErr = E_INPROGRESS \<or> nErr = E_WOULDBLOCK \<or> nErr = E_INVAL
                   then (if \<not> sk_selectable S hSocket then Some (Inr ((False, buf), u))
                         else let (nRet, u) = sk_select S False hSocket (MillisToTimeval (min (endTime - curTime) 1000)) u
                              in if nRet = None then Some (Inr ((False, buf), u))
                                 else let (intr, u) = sk_interrupt S u
                                      in if intr then Some (Inl Interrupted)
                                         else let (curTime, u) = sk_now S u
                                              in recv_loop S hSocket endTime buf pos len curTime u)
                   else Some (Inr ((False, buf), u)))
      else Some (Inr ((len = 0, buf), u)))"

declare recv_loop.simps [code]

definition InterruptibleRecv ::
  "('h, 'u) sockets \<Rightarrow> byte list \<Rightarrow> nat \<Rightarrow> int \<Rightarrow> 'h \<Rightarrow> ('u, bool \<times> byte list) io" where
  "InterruptibleRecv S data len timeout hSocket =
     io_bind (io_call (sk_now S)) (\<lambda>curTime.
       recv_loop S hSocket (curTime + timeout) data 0 len curTime)"

subsection \<open>SOCKS5\<close>

definition SOCKS5_RECV_TIMEOUT :: int where "SOCKS5_RECV_TIMEOUT = 20 * 1000"

record ProxyCredentials =
  username :: string
  password :: string

definition str_bytes :: "string \<Rightarrow> byte list" where
  "str_bytes s = map of_char s"

text \<open>The error exit: the socket is closed and the result is \<^verbatim>\<open>false\<close>. The messages that are logged are not modelled.\<close>

definition close_fail :: "('h, 'u) sockets \<Rightarrow> 'h \<Rightarrow> ('u, bool \<times> 'h) io" where
  "close_fail S hSocket = io_bind (CloseSocket S hSocket) (\<lambda>(_, hSocket). io_return (False, hSocket))"

text \<open>
  The parts of \<^verbatim>\<open>Socks5\<close> in their order: the choice of a method, the authentication, the request and its answer, and the
  bound address. Each returns \<open>False\<close> where the function returns early.
\<close>

definition vSocks5Init :: "ProxyCredentials option \<Rightarrow> byte list" where
  "vSocks5Init auth = 0x05 # (if auth \<noteq> None then [0x02, 0x00, 0x02] else [0x01, 0x00])"

definition vAuth :: "ProxyCredentials \<Rightarrow> byte list" where
  "vAuth auth = [0x01, word_of_nat (length (username auth))] @ str_bytes (username auth)
     @ [word_of_nat (length (password auth))] @ str_bytes (password auth)"

definition vSocks5 :: "string \<Rightarrow> int \<Rightarrow> byte list" where
  "vSocks5 strDest portNum = [0x05, 0x01, 0x00, 0x03, word_of_nat (length strDest)] @ str_bytes strDest
     @ [word_of_int (drop_bit 8 portNum AND 0xFF), word_of_int (portNum AND 0xFF)]"

text \<open>One exchange: send a message, read an answer of \<open>n\<close> bytes and go on with it.\<close>

definition socks_exchange ::
  "('h, 'u) sockets \<Rightarrow> 'h \<Rightarrow> byte list \<Rightarrow> nat \<Rightarrow> (byte list \<Rightarrow> ('u, bool \<times> 'h) io) \<Rightarrow> ('u, bool \<times> 'h) io" where
  "socks_exchange S hSocket msg n k =
     io_bind (io_call (sk_send S hSocket msg)) (\<lambda>ret.
       if ret \<noteq> int (length msg) then close_fail S hSocket
       else io_bind (InterruptibleRecv S (replicate n 0) n SOCKS5_RECV_TIMEOUT hSocket) (\<lambda>(ok, pchRet).
         if \<not> ok then close_fail S hSocket else k pchRet))"

definition socks_auth :: "('h, 'u) sockets \<Rightarrow> ProxyCredentials option \<Rightarrow> 'h \<Rightarrow> byte \<Rightarrow> ('u, bool \<times> 'h) io" where
  "socks_auth S auth hSocket meth =
     (case auth of
        Some a \<Rightarrow>
          if meth = 0x02
          then (if length (username a) > 255 \<or> length (password a) > 255 then io_return (False, hSocket)
                else socks_exchange S hSocket (vAuth a) 2 (\<lambda>pchRetA.
                  if pchRetA ! 0 \<noteq> 0x01 \<or> pchRetA ! 1 \<noteq> 0x00 then close_fail S hSocket
                  else io_return (True, hSocket)))
          else if meth = 0x00 then io_return (True, hSocket) else close_fail S hSocket
      | None \<Rightarrow> if meth = 0x00 then io_return (True, hSocket) else close_fail S hSocket)"

text \<open>The length of a name is a signed \<^verbatim>\<open>char\<close> that is converted to \<^verbatim>\<open>size_t\<close>.\<close>

definition name_length :: "byte \<Rightarrow> nat" where
  "name_length b = unat (word_of_int (sint b) :: u64)"

definition socks_bound :: "('h, 'u) sockets \<Rightarrow> 'h \<Rightarrow> byte \<Rightarrow> ('u, bool \<times> 'h) io" where
  "socks_bound S hSocket atyp =
     (let pchRet3 = replicate 256 0;
          recv3 = (\<lambda>buf n. InterruptibleRecv S buf n SOCKS5_RECV_TIMEOUT hSocket);
          last2 = (\<lambda>(ret, pchRet3).
            if \<not> ret then close_fail S hSocket
            else io_bind (recv3 pchRet3 2) (\<lambda>(ok, _). if \<not> ok then close_fail S hSocket else io_return (True, hSocket)))
      in if atyp = 0x01 then io_bind (recv3 pchRet3 4) last2
         else if atyp = 0x04 then io_bind (recv3 pchRet3 16) last2
         else if atyp = 0x03
         then io_bind (recv3 pchRet3 1) (\<lambda>(ret, pchRet3).
                if \<not> ret then close_fail S hSocket
                else io_bind (recv3 pchRet3 (name_length (pchRet3 ! 0))) last2)
         else close_fail S hSocket)"

definition socks_request :: "('h, 'u) sockets \<Rightarrow> string \<Rightarrow> int \<Rightarrow> 'h \<Rightarrow> ('u, bool \<times> 'h) io" where
  "socks_request S strDest portNum hSocket =
     socks_exchange S hSocket (vSocks5 strDest portNum) 4 (\<lambda>pchRet2.
       if pchRet2 ! 0 \<noteq> 0x05 then close_fail S hSocket
       else if pchRet2 ! 1 \<noteq> 0x00 then close_fail S hSocket
       else if pchRet2 ! 2 \<noteq> 0x00 then close_fail S hSocket
       else socks_bound S hSocket (pchRet2 ! 3))"

definition Socks5 :: "('h, 'u) sockets \<Rightarrow> string \<Rightarrow> int \<Rightarrow> ProxyCredentials option \<Rightarrow> 'h \<Rightarrow> ('u, bool \<times> 'h) io" where
  "Socks5 S strDest portNum auth hSocket =
     (if length strDest > 255 then close_fail S hSocket
      else socks_exchange S hSocket (vSocks5Init auth) 2 (\<lambda>pchRet1.
        if pchRet1 ! 0 \<noteq> 0x05 then close_fail S hSocket
        else io_bind (socks_auth S auth hSocket (pchRet1 ! 1)) (\<lambda>(ok, hSocket).
          if \<not> ok then io_return (False, hSocket) else socks_request S strDest portNum hSocket)))"

subsection \<open>Connections\<close>

definition ConnectSocketDirectly :: "('h, 'u) sockets \<Rightarrow> CService \<Rightarrow> int \<Rightarrow> ('u, bool \<times> 'h) io" where
  "ConnectSocketDirectly S addrConnect nTimeout =
     (case GetSockAddr addrConnect 128 of
        None \<Rightarrow> io_return (False, sk_invalid S)
      | Some (sa, len) \<Rightarrow>
          io_bind (io_call (sk_socket S sa)) (\<lambda>hSocket.
          if hSocket = sk_invalid S then io_return (False, sk_invalid S)
          else io_bind (io_call (sk_setsockopt S hSocket)) (\<lambda>_.
          io_bind (SetSocketNonBlocking S hSocket True) (\<lambda>(ok, hSocket).
          if \<not> ok then io_return (False, sk_invalid S)
          else io_bind (io_call (sk_connect S hSocket sa len)) (\<lambda>err.
            let fail = io_bind (CloseSocket S hSocket) (\<lambda>_. io_return (False, sk_invalid S))
            in case err of
                 None \<Rightarrow> io_return (True, hSocket)
               | Some nErr \<Rightarrow>
                   if nErr = E_INPROGRESS \<or> nErr = E_WOULDBLOCK \<or> nErr = E_INVAL
                   then if \<not> sk_selectable S hSocket then io_stop Past_fd_set
                        else io_bind (io_call (sk_select S True hSocket (MillisToTimeval nTimeout))) (\<lambda>nRet.
                          if nRet = Some 0 then fail
                          else if nRet = None then fail
                          else io_bind (io_call (sk_getsockopt S hSocket)) (\<lambda>soError.
                            if soError = None then fail
                            else if soError \<noteq> Some 0 then fail
                            else io_return (True, hSocket)))
                   else fail)))))"

record proxyType =
  proxy :: CService
  randomize_credentials :: bool

record netstate =
  proxyInfo :: "proxyType list"
  nameProxy :: proxyType

definition proxy_new :: proxyType where
  "proxy_new = \<lparr>proxy = CService_new, randomize_credentials = False\<rparr>"

definition netstate_new :: netstate where
  "netstate_new = \<lparr>proxyInfo = replicate NET_MAX proxy_new, nameProxy = proxy_new\<rparr>"

definition proxy_IsValid :: "proxyType \<Rightarrow> bool" where
  "proxy_IsValid p = IsValid (proxy p)"

definition SetProxy :: "Network \<Rightarrow> proxyType \<Rightarrow> netstate \<Rightarrow> bool \<times> netstate" where
  "SetProxy net addrProxy st =
     (if \<not> proxy_IsValid addrProxy then (False, st)
      else (True, st\<lparr>proxyInfo := (proxyInfo st)[network_num net := addrProxy]\<rparr>))"

definition GetProxy :: "Network \<Rightarrow> netstate \<Rightarrow> proxyType option" where
  "GetProxy net st =
     (if \<not> proxy_IsValid (proxyInfo st ! network_num net) then None else Some (proxyInfo st ! network_num net))"

definition SetNameProxy :: "proxyType \<Rightarrow> netstate \<Rightarrow> bool \<times> netstate" where
  "SetNameProxy addrProxy st =
     (if \<not> proxy_IsValid addrProxy then (False, st) else (True, st\<lparr>nameProxy := addrProxy\<rparr>))"

definition GetNameProxy :: "netstate \<Rightarrow> proxyType option" where
  "GetNameProxy st = (if \<not> proxy_IsValid (nameProxy st) then None else Some (nameProxy st))"

definition HaveNameProxy :: "netstate \<Rightarrow> bool" where
  "HaveNameProxy st = proxy_IsValid (nameProxy st)"

definition IsProxy :: "'a CNetAddr_scheme \<Rightarrow> netstate \<Rightarrow> bool" where
  "IsProxy addr st = list_ex (\<lambda>i. net_eq addr (proxy (proxyInfo st ! i))) [0..<NET_MAX]"

text \<open>
  The results are the Boolean, \<^verbatim>\<open>hSocketRet\<close> and the flag \<^verbatim>\<open>*outProxyConnectionFailed\<close>; \<open>None\<close> is a null pointer.
\<close>

definition ConnectThroughProxy ::
  "('h, 'u) sockets \<Rightarrow> proxyType \<Rightarrow> string \<Rightarrow> int \<Rightarrow> 'h \<Rightarrow> int \<Rightarrow> bool option \<Rightarrow> ('u, bool \<times> 'h \<times> bool option) io" where
  "ConnectThroughProxy S p strDest portNum hSocketRet nTimeout outFailed =
     io_bind (ConnectSocketDirectly S (proxy p) nTimeout) (\<lambda>(ok, hSocket).
       if \<not> ok then io_return (False, hSocketRet, map_option (\<lambda>_. True) outFailed)
       else io_bind
         (if randomize_credentials p
          then io_bind (io_call (sk_rand S)) (\<lambda>r1. io_bind (io_call (sk_rand S)) (\<lambda>r2.
                 Socks5 S strDest (uint (word_of_int portNum :: u16))
                   (Some \<lparr>username = printf_u (unat r1), password = printf_u (unat r2)\<rparr>) hSocket))
          else Socks5 S strDest (uint (word_of_int portNum :: u16)) None hSocket) (\<lambda>(ok, hSocket).
         if \<not> ok then io_return (False, hSocketRet, outFailed) else io_return (True, hSocket, outFailed)))"

definition ConnectSocket ::
  "netlib \<Rightarrow> ('h, 'u) sockets \<Rightarrow> netstate \<Rightarrow> CService \<Rightarrow> 'h \<Rightarrow> int \<Rightarrow> bool option \<Rightarrow> ('u, bool \<times> 'h \<times> bool option) io" where
  "ConnectSocket L S st addrDest hSocketRet nTimeout outFailed =
     (let outFailed = map_option (\<lambda>_. False) outFailed
      in case GetProxy (GetNetwork addrDest) st of
           Some p \<Rightarrow> ConnectThroughProxy S p (ToStringIP L addrDest) (uint (GetPort addrDest)) hSocketRet nTimeout outFailed
         | None \<Rightarrow> io_bind (ConnectSocketDirectly S addrDest nTimeout) (\<lambda>(ok, hSocketRet). io_return (ok, hSocketRet, outFailed)))"

definition io_assert :: "'a option \<Rightarrow> ('u, 'a) io" where
  "io_assert x = (case x of None \<Rightarrow> io_stop Assertion | Some a \<Rightarrow> io_return a)"

definition ConnectSocketByName ::
  "netlib \<Rightarrow> ('h, 'u) sockets \<Rightarrow> netstate \<Rightarrow> bool \<Rightarrow> string \<Rightarrow> 'h \<Rightarrow> int \<Rightarrow> int \<Rightarrow> bool option
     \<Rightarrow> ('u, CService \<times> bool \<times> 'h \<times> bool option) io" where
  "ConnectSocketByName L S st fNameLookup pszDest hSocketRet portDefault nTimeout outFailed =
     (let outFailed = map_option (\<lambda>_. False) outFailed;
          (portNum, strDest) = SplitHostPort L pszDest portDefault;
          namePrx = (case GetNameProxy st of None \<Rightarrow> proxy_new | Some p \<Rightarrow> p)
      in io_bind (io_assert (CNetAddr_str L strDest (fNameLookup \<and> \<not> HaveNameProxy st))) (\<lambda>a.
         let addrResolved = CService_ip a (word_of_int portNum)
         in if IsValid addrResolved
            then io_bind (ConnectSocket L S st addrResolved hSocketRet nTimeout None) (\<lambda>(ok, hSocketRet, _).
                   io_return (addrResolved, ok, hSocketRet, outFailed))
            else io_bind (io_assert (CService_str L ''0.0.0.0:0'' 0 False)) (\<lambda>addr.
                   if \<not> HaveNameProxy st then io_return (addr, False, hSocketRet, outFailed)
                   else io_bind (ConnectThroughProxy S namePrx strDest portNum hSocketRet nTimeout outFailed)
                          (\<lambda>r. io_return (addr, r)))))"

subsection \<open>What the operating system promises\<close>

text \<open>
  Two quantities of the world: the open sockets and the bytes sent. The laws: \<^verbatim>\<open>socket\<close> opens a new socket, \<^verbatim>\<open>close\<close> closes
  one and nothing else does; \<^verbatim>\<open>send\<close> sends what it is given when it returns its length; \<^verbatim>\<open>recv\<close> gives at most as many bytes as asked for.
  Nothing is assumed about the clock, nor about how long \<^verbatim>\<open>select\<close> waits.
\<close>

record ('h, 'u) ghost =
  opens :: "'u \<Rightarrow> 'h set"
  sent :: "'u \<Rightarrow> byte list"

definition io_quiet :: "('h, 'u) ghost \<Rightarrow> 'u \<Rightarrow> 'u \<Rightarrow> bool" where
  "io_quiet G u u' \<longleftrightarrow> opens G u' = opens G u \<and> sent G u' = sent G u"

definition sockets_ok :: "('h, 'u) sockets \<Rightarrow> ('h, 'u) ghost \<Rightarrow> bool" where
  "sockets_ok S G \<longleftrightarrow>
     (\<forall>sa u h u'. sk_socket S sa u = (h, u') \<longrightarrow> sent G u' = sent G u \<and>
        (if h = sk_invalid S then opens G u' = opens G u else h \<notin> opens G u \<and> opens G u' = insert h (opens G u)))
   \<and> (\<forall>h u r u'. sk_close S h u = (r, u') \<longrightarrow> opens G u' = opens G u - {h} \<and> sent G u' = sent G u)
   \<and> (\<forall>h d u r u'. sk_send S h d u = (r, u') \<longrightarrow> opens G u' = opens G u \<and> (r = int (length d) \<longrightarrow> sent G u' = sent G u @ d))
   \<and> (\<forall>h n u r u'. sk_recv S h n u = (r, u') \<longrightarrow> io_quiet G u u' \<and> (\<forall>bs. r = Inr bs \<longrightarrow> length bs \<le> n))
   \<and> (\<forall>w h tv u r u'. sk_select S w h tv u = (r, u') \<longrightarrow> io_quiet G u u')
   \<and> (\<forall>u t u'. sk_now S u = (t, u') \<longrightarrow> io_quiet G u u')
   \<and> (\<forall>u r u'. sk_interrupt S u = (r, u') \<longrightarrow> io_quiet G u u')
   \<and> (\<forall>h u r u'. sk_setsockopt S h u = (r, u') \<longrightarrow> io_quiet G u u')
   \<and> (\<forall>h u r u'. sk_getflags S h u = (r, u') \<longrightarrow> io_quiet G u u')
   \<and> (\<forall>h f u r u'. sk_setflags S h f u = (r, u') \<longrightarrow> io_quiet G u u')
   \<and> (\<forall>h sa n u r u'. sk_connect S h sa n u = (r, u') \<longrightarrow> io_quiet G u u')
   \<and> (\<forall>h u r u'. sk_getsockopt S h u = (r, u') \<longrightarrow> io_quiet G u u')
   \<and> (\<forall>u r u'. sk_rand S u = (r, u') \<longrightarrow> io_quiet G u u')"

lemma io_quiet_refl [simp]: "io_quiet G u u"
  by (simp add: io_quiet_def)

lemma io_quiet_trans: "io_quiet G u v \<Longrightarrow> io_quiet G v w \<Longrightarrow> io_quiet G u w"
  by (auto simp: io_quiet_def)

lemma sockets_okD:
  assumes "sockets_ok S G"
  shows "sk_socket S sa u = (h, u') \<Longrightarrow> sent G u' = sent G u \<and>
      (if h = sk_invalid S then opens G u' = opens G u else h \<notin> opens G u \<and> opens G u' = insert h (opens G u))"
    and "sk_close S h u = (b, u') \<Longrightarrow> opens G u' = opens G u - {h} \<and> sent G u' = sent G u"
    and "sk_send S h d u = (i, u') \<Longrightarrow> opens G u' = opens G u \<and> (i = int (length d) \<longrightarrow> sent G u' = sent G u @ d)"
    and "sk_recv S h n u = (rr, u') \<Longrightarrow> io_quiet G u u' \<and> (\<forall>bs. rr = Inr bs \<longrightarrow> length bs \<le> n)"
    and "sk_select S w h tv u = (rs, u') \<Longrightarrow> io_quiet G u u'"
    and "sk_now S u = (t, u') \<Longrightarrow> io_quiet G u u'"
    and "sk_interrupt S u = (b, u') \<Longrightarrow> io_quiet G u u'"
    and "sk_setsockopt S h u = (i, u') \<Longrightarrow> io_quiet G u u'"
    and "sk_getflags S h u = (f, u') \<Longrightarrow> io_quiet G u u'"
    and "sk_setflags S h f u = (b, u') \<Longrightarrow> io_quiet G u u'"
    and "sk_connect S h sa n u = (re, u') \<Longrightarrow> io_quiet G u u'"
    and "sk_getsockopt S h u = (ri, u') \<Longrightarrow> io_quiet G u u'"
    and "sk_rand S u = (f, u') \<Longrightarrow> io_quiet G u u'"
  using assms unfolding sockets_ok_def by metis+

subsection \<open>Runs\<close>

text \<open>
  \<open>io_runs m u E Q\<close>: from \<open>u\<close> the operation returns with a result that satisfies \<open>Q\<close>, or stops in a way that \<open>E\<close> allows; not
  to end is the way \<open>None\<close>.
\<close>

definition io_runs :: "('u, 'a) io \<Rightarrow> 'u \<Rightarrow> (stop option \<Rightarrow> bool) \<Rightarrow> ('a \<Rightarrow> 'u \<Rightarrow> bool) \<Rightarrow> bool" where
  "io_runs m u E Q \<longleftrightarrow> (case m u of None \<Rightarrow> E None | Some (Inl e) \<Rightarrow> E (Some e) | Some (Inr (a, u')) \<Rightarrow> Q a u')"

lemma io_runs_return [simp]: "io_runs (io_return a) u E Q \<longleftrightarrow> Q a u"
  by (simp add: io_runs_def io_return_def)

lemma io_runs_stop [simp]: "io_runs (io_stop e) u E Q \<longleftrightarrow> E (Some e)"
  by (simp add: io_runs_def io_stop_def)

lemma io_runs_call [simp]: "io_runs (io_call f) u E Q \<longleftrightarrow> (case f u of (a, u') \<Rightarrow> Q a u')"
  by (simp add: io_runs_def io_call_def split: prod.splits)

lemma io_bind_return [simp]: "io_bind (io_return x) k = k x"
  by (rule ext) (simp add: io_bind_def io_return_def)

lemma io_runs_bind:
  assumes "io_runs m u E P" "\<And>a u'. P a u' \<Longrightarrow> io_runs (k a) u' E Q"
  shows "io_runs (io_bind m k) u E Q"
proof (cases "m u")
  case (Some r)
  then show ?thesis using assms by (cases r) (auto simp: io_runs_def io_bind_def)
qed (use assms(1) in \<open>simp add: io_runs_def io_bind_def\<close>)

lemma io_runs_bind_call:
  assumes "\<And>a u'. f u = (a, u') \<Longrightarrow> io_runs (k a) u' E Q"
  shows "io_runs (io_bind (io_call f) k) u E Q"
  using assms by (cases "f u") (simp add: io_runs_def io_bind_def io_call_def)

lemma io_runs_mono:
  assumes "io_runs m u E P" "\<And>e. E e \<Longrightarrow> F e" "\<And>a u'. P a u' \<Longrightarrow> Q a u'"
  shows "io_runs m u F Q"
  using assms by (auto simp: io_runs_def split: option.splits sum.splits)

subsection \<open>Receiving\<close>

text \<open>
  The loop keeps the size of the buffer and what is before its position, and can leave the buffer only when it is asked for
  more than fits.
\<close>

definition recv_post :: "('h, 'u) ghost \<Rightarrow> 'u \<Rightarrow> byte list \<Rightarrow> bool \<times> byte list \<Rightarrow> 'u \<Rightarrow> bool" where
  "recv_post G u buf = (\<lambda>(ok, buf') u'. io_quiet G u u' \<and> length buf' = length buf)"

definition recv_good :: "('h, 'u) ghost \<Rightarrow> byte list \<Rightarrow> nat \<Rightarrow> nat \<Rightarrow> 'u \<Rightarrow> stop + (bool \<times> byte list) \<times> 'u \<Rightarrow> bool" where
  "recv_good G buf pos len u r \<longleftrightarrow>
     (case r of
        Inl e \<Rightarrow> e = Interrupted \<or> e = Out_of_buffer \<and> length buf < pos + len
      | Inr (a, u') \<Rightarrow> recv_post G u buf a u')"

lemma recv_good_data:
  assumes "recv_good G (take pos buf @ bs @ drop (pos + length bs) buf) (pos + length bs) (len - length bs) v r"
    "io_quiet G u v" "length bs \<le> len" "pos + length bs \<le> length buf"
  shows "recv_good G buf pos len u r"
  using assms by (auto simp: recv_good_def recv_post_def intro: io_quiet_trans split: sum.splits)

lemma recv_good_wait: "recv_good G buf pos len v r \<Longrightarrow> io_quiet G u v \<Longrightarrow> recv_good G buf pos len u r"
  by (auto simp: recv_good_def recv_post_def intro: io_quiet_trans split: sum.splits)

lemma recv_loop_good:
  assumes "sockets_ok S G" "recv_loop S h endTime buf pos len curTime u = Some r"
  shows "recv_good G buf pos len u r"
proof -
  have "S' = S \<longrightarrow> recv_good G buf pos len u r" if "recv_loop S' h endTime buf pos len curTime u = Some r"
    for S' h endTime buf pos len curTime u r
  proof (rule recv_loop.raw_induct [OF _ that, where P = "\<lambda>S' h endTime buf pos len curTime u r. S' = S \<longrightarrow> recv_good G buf pos len u r"],
      rule impI, goal_cases)
    case (1 loop S' h endTime buf pos len curTime u r)
    note law = sockets_okD [OF assms(1)]
    obtain ret u1 where recv: "sk_recv S h len u = (ret, u1)" by fastforce
    have q1: "io_quiet G u u1" "\<And>bs. ret = Inr bs \<Longrightarrow> length bs \<le> len" using law(4) [OF recv] by auto
    show ?case
    proof (cases ret)
      case (Inr bs)
      obtain i u2 t u3 where nxt: "sk_interrupt S u1 = (i, u2)" "sk_now S u2 = (t, u3)" by fastforce
      have "io_quiet G u u3" using io_quiet_trans [OF io_quiet_trans [OF q1(1) law(7) [OF nxt(1)]] law(6) [OF nxt(2)]] .
      then show ?thesis
        using 1(2,3) q1 recv_good_data [OF 1(1) [THEN mp], of S h endTime pos buf bs len t u3 r u]
        by (auto simp: recv nxt Inr recv_good_def recv_post_def not_less split: if_splits)
    next
      case (Inl e)
      obtain n u2 i u3 t u4 where nxt: "sk_select S False h (MillisToTimeval (min (endTime - curTime) 1000)) u1 = (n, u2)"
        "sk_interrupt S u2 = (i, u3)" "sk_now S u3 = (t, u4)" by fastforce
      have q2: "io_quiet G u u2" using io_quiet_trans [OF q1(1) law(5) [OF nxt(1)]] .
      have "io_quiet G u u4" using io_quiet_trans [OF io_quiet_trans [OF q2 law(7) [OF nxt(2)]] law(6) [OF nxt(3)]] .
      then show ?thesis
        using 1(2,3) q1 q2 recv_good_wait [OF 1(1) [THEN mp], of S h endTime buf pos len t u4 r u]
        by (auto simp: recv nxt Inl recv_good_def recv_post_def split: if_splits)
    qed
  qed
  then show ?thesis using assms(2) by blast
qed

text \<open>
  A turn of waiting: nothing has come, \<^verbatim>\<open>select\<close> returns for whatever reason, and the clock is read before the deadline \<open>T\<close>. The
  loop returns when such turns cannot follow each other for ever, that is when the clock gets past every deadline in the end;
  it may stand still and be set back on the way.
\<close>

definition waits :: "('h, 'u) sockets \<Rightarrow> 'h \<Rightarrow> nat \<Rightarrow> int \<Rightarrow> 'u \<Rightarrow> 'u \<Rightarrow> bool" where
  "waits S h len T u u' \<longleftrightarrow> (\<exists>e u1 tv n u2 u3 t. sk_recv S h len u = (Inl e, u1) \<and> sk_select S False h tv u1 = (Some n, u2)
     \<and> sk_interrupt S u2 = (False, u3) \<and> sk_now S u3 = (t, u') \<and> t < T)"

definition waits_end :: "('h, 'u) sockets \<Rightarrow> bool" where
  "waits_end S \<longleftrightarrow> (\<forall>h len T. \<not> (\<exists>f. \<forall>i. waits S h len T (f i) (f (Suc i))))"

lemma recv_loop_returns:
  assumes "waits_end S"
  shows "\<exists>r. recv_loop S h T buf pos len curTime u = Some r"
proof (induction len arbitrary: buf pos curTime u rule: less_induct)
  case (less len)
  have wf: "wfP (\<lambda>u' u. waits S h len T u u')"
    using assms by (auto simp: waits_end_def wfp_def wf_iff_no_infinite_down_chain)
  show ?case
  proof (induction u arbitrary: buf pos curTime rule: wfp_induct_rule [OF wf])
    case (1 u)
    obtain ret u1 where recv: "sk_recv S h len u = (ret, u1)" by fastforce
    show ?case
    proof (cases ret)
      case (Inr bs)
      obtain i u2 t u3 where nxt: "sk_interrupt S u1 = (i, u2)" "sk_now S u2 = (t, u3)" by fastforce
      show ?thesis
        using less.IH [of "len - length bs"] by (subst recv_loop.simps) (simp add: recv nxt Inr)
    next
      case (Inl e)
      obtain n u2 i u3 t u4 where nxt: "sk_select S False h (MillisToTimeval (min (T - curTime) 1000)) u1 = (n, u2)"
        "sk_interrupt S u2 = (i, u3)" "sk_now S u3 = (t, u4)" by fastforce
      have "\<exists>r. recv_loop S h T buf pos len t u4 = Some r" if "n \<noteq> None" "\<not> i"
      proof (cases "t < T")
        case True
        then have "waits S h len T u u4" using that recv nxt Inl unfolding waits_def by (cases n) (simp, simp, blast)
        then show ?thesis by (rule 1)
      qed (subst recv_loop.simps, simp)
      then show ?thesis by (subst recv_loop.simps) (auto simp: recv nxt Inl)
    qed
  qed
qed

lemma InterruptibleRecv_runs:
  assumes "sockets_ok S G"
  shows "io_runs (InterruptibleRecv S buf n timeout h) u
    (\<lambda>e. e = Some Interrupted \<or> e = Some Out_of_buffer \<and> length buf < n \<or> e = None \<and> \<not> waits_end S) (recv_post G u buf)"
  unfolding InterruptibleRecv_def
proof (rule io_runs_bind_call)
  fix t u' assume "sk_now S u = (t, u')"
  then have q: "io_quiet G u u'" using sockets_okD(6) [OF assms] by blast
  have "recv_good G buf 0 n u r" if "recv_loop S h (t + timeout) buf 0 n t u' = Some r" for r
    by (rule recv_good_wait [OF recv_loop_good [OF assms that] q])
  moreover have "\<not> waits_end S" if "recv_loop S h (t + timeout) buf 0 n t u' = None"
    using recv_loop_returns [of S h "t + timeout" buf 0 n t u'] that by auto
  ultimately show "io_runs (recv_loop S h (t + timeout) buf 0 n t) u'
      (\<lambda>e. e = Some Interrupted \<or> e = Some Out_of_buffer \<and> length buf < n \<or> e = None \<and> \<not> waits_end S) (recv_post G u buf)"
    by (auto simp: io_runs_def recv_good_def split: option.splits sum.splits)
qed

subsection \<open>The protocol\<close>

text \<open>
  After a part of the negotiation on the socket \<open>h\<close>, started in \<open>u\<close>: on success the same sockets are open and one of the messages \<open>M\<close> has been sent; on
  failure the socket is closed.
\<close>

definition socks_post :: "('h, 'u) ghost \<Rightarrow> 'h \<Rightarrow> 'u \<Rightarrow> byte list set \<Rightarrow> bool \<times> 'h \<Rightarrow> 'u \<Rightarrow> bool" where
  "socks_post G h u M = (\<lambda>(ok, h') u'.
     if ok then h' = h \<and> opens G u' = opens G u \<and> (\<exists>m \<in> M. sent G u' = sent G u @ m) else opens G u' = opens G u - {h})"

definition socks_stop :: "('h, 'u) sockets \<Rightarrow> stop option \<Rightarrow> bool" where
  "socks_stop S e \<longleftrightarrow> e = Some Interrupted \<or> e = Some Out_of_buffer \<or> e = Some Past_fd_set \<and> (\<exists>h. \<not> sk_selectable S h)
     \<or> e = None \<and> \<not> waits_end S"

lemma close_fail_runs:
  assumes "sockets_ok S G" "h \<noteq> sk_invalid S" "opens G v = opens G u"
  shows "io_runs (close_fail S h) v E (socks_post G h u M)"
  unfolding close_fail_def CloseSocket_def
  using assms(2,3) sockets_okD(2) [OF assms(1)]
  by (auto simp: socks_post_def io_bind_def io_call_def io_runs_def io_return_def split: prod.splits)

lemma recv_then:
  assumes "sockets_ok S G" "h \<noteq> sk_invalid S" "opens G v = opens G u" "sent G v = sent G u @ m"
    and "\<And>bs w. length bs = length buf \<Longrightarrow> opens G w = opens G u \<Longrightarrow> sent G w = sent G u @ m \<Longrightarrow>
      io_runs (k (True, bs)) w (socks_stop S) (socks_post G h u M)"
    and "\<And>bs. k (False, bs) = close_fail S h"
  shows "io_runs (io_bind (InterruptibleRecv S buf n t h) k) v (socks_stop S) (socks_post G h u M)"
proof (rule io_runs_bind)
  show "io_runs (InterruptibleRecv S buf n t h) v (socks_stop S) (recv_post G v buf)"
    by (rule io_runs_mono [OF InterruptibleRecv_runs [OF assms(1)]]) (auto simp: socks_stop_def)
  fix r w assume "recv_post G v buf r w"
  then show "io_runs (k r) w (socks_stop S) (socks_post G h u M)"
    using assms close_fail_runs [OF assms(1,2)] by (cases r; cases "fst r") (auto simp: recv_post_def io_quiet_def)
qed

lemma exchange_runs:
  assumes "sockets_ok S G" "h \<noteq> sk_invalid S" "opens G v = opens G u" "sent G v = sent G u @ m"
    and "\<And>bs w. length bs = n \<Longrightarrow> opens G w = opens G u \<Longrightarrow> sent G w = sent G u @ m @ msg \<Longrightarrow>
      io_runs (k bs) w (socks_stop S) (socks_post G h u M)"
  shows "io_runs (socks_exchange S h msg n k) v (socks_stop S) (socks_post G h u M)"
  unfolding socks_exchange_def
proof (rule io_runs_bind_call)
  fix r w assume "sk_send S h msg v = (r, w)"
  then have w: "opens G w = opens G u" "r = int (length msg) \<longrightarrow> sent G w = sent G u @ m @ msg"
    using sockets_okD(3) [OF assms(1)] assms(3,4) by fastforce+
  show "io_runs (if r \<noteq> int (length msg) then close_fail S h
       else io_bind (InterruptibleRecv S (replicate n 0) n SOCKS5_RECV_TIMEOUT h)
         (\<lambda>(ok, pchRet). if \<not> ok then close_fail S h else k pchRet)) w (socks_stop S) (socks_post G h u M)"
  proof (cases "r = int (length msg)")
    case True
    then show ?thesis using w assms(5) by (auto intro!: recv_then [OF assms(1,2)])
  qed (use close_fail_runs [OF assms(1,2)] w in auto)
qed

lemma socks_bound_runs:
  assumes "sockets_ok S G" "h \<noteq> sk_invalid S" "opens G v = opens G u" "sent G v = sent G u @ m" "m \<in> M"
  shows "io_runs (socks_bound S h atyp) v (socks_stop S) (socks_post G h u M)"
proof -
  note fail = close_fail_runs [OF assms(1,2)] and recv = recv_then [OF assms(1,2), where m = m]
  define last2 where "last2 = (\<lambda>(ret, pchRet3).
      if \<not> ret then close_fail S h
      else io_bind (InterruptibleRecv S pchRet3 2 SOCKS5_RECV_TIMEOUT h)
             (\<lambda>(ok, _). if \<not> ok then close_fail S h else io_return (True, h)))"
  have last: "io_runs (last2 (True, bs)) w (socks_stop S) (socks_post G h u M)"
    if "opens G w = opens G u" "sent G w = sent G u @ m" for bs w
  proof -
    have "socks_post G h u M (True, h) w'" if "opens G w' = opens G u" "sent G w' = sent G u @ m" for w'
      using that assms(5) by (auto simp: socks_post_def)
    then show ?thesis unfolding last2_def prod.case using that by (auto intro!: recv)
  qed
  have fixed: "io_runs (io_bind (InterruptibleRecv S buf n SOCKS5_RECV_TIMEOUT h) last2) w (socks_stop S) (socks_post G h u M)"
    if "opens G w = opens G u" "sent G w = sent G u @ m" for buf n w
    by (rule recv [OF that], erule (1) last, simp add: last2_def)
  have name: "io_runs (io_bind (InterruptibleRecv S (replicate 256 0) 1 SOCKS5_RECV_TIMEOUT h) (\<lambda>(ret, pchRet3).
      if \<not> ret then close_fail S h
      else io_bind (InterruptibleRecv S pchRet3 (name_length (pchRet3 ! 0)) SOCKS5_RECV_TIMEOUT h) last2)) v (socks_stop S) (socks_post G h u M)"
    by (rule recv [OF assms(3,4)]) (simp_all add: fixed)
  show ?thesis
    using fixed [OF assms(3,4)] name fail [OF assms(3)] unfolding socks_bound_def Let_def last2_def [symmetric] by auto
qed

lemma socks_request_runs:
  assumes "sockets_ok S G" "h \<noteq> sk_invalid S" "opens G v = opens G u" "sent G v = sent G u @ m" "m @ vSocks5 dest p \<in> M"
  shows "io_runs (socks_request S dest p h) v (socks_stop S) (socks_post G h u M)"
  unfolding socks_request_def
  using close_fail_runs [OF assms(1,2)] socks_bound_runs [OF assms(1,2) _ _ assms(5)]
  by (intro exchange_runs [OF assms(1-4)]) auto

text \<open>The messages of a client to the proxy: with user name and password only when it has credentials.\<close>

definition auth_messages :: "ProxyCredentials option \<Rightarrow> byte list set" where
  "auth_messages auth = insert [] (case auth of None \<Rightarrow> {} | Some a \<Rightarrow> {vAuth a})"

definition socks_messages :: "string \<Rightarrow> int \<Rightarrow> ProxyCredentials option \<Rightarrow> byte list set" where
  "socks_messages dest p auth = {vSocks5Init auth @ m @ vSocks5 dest p |m. m \<in> auth_messages auth}"

definition auth_short :: "ProxyCredentials option \<Rightarrow> bool" where
  "auth_short auth \<longleftrightarrow> (\<forall>a. auth = Some a \<longrightarrow> length (username a) \<le> 255 \<and> length (password a) \<le> 255)"

lemma socks_auth_runs:
  assumes "sockets_ok S G" "h \<noteq> sk_invalid S" "opens G v = opens G u" "sent G v = sent G u @ i" "auth_short auth"
  shows "io_runs (socks_auth S auth h meth) v (socks_stop S) (socks_post G h u {i @ m |m. m \<in> auth_messages auth})"
proof (cases "\<exists>a. auth = Some a \<and> meth = 0x02")
  case True
  then obtain a where a: "auth = Some a" "meth = 0x02" by blast
  have "io_runs (socks_exchange S h (vAuth a) 2 (\<lambda>r. if r ! 0 \<noteq> 0x01 \<or> r ! 1 \<noteq> 0x00 then close_fail S h else io_return (True, h)))
      v (socks_stop S) (socks_post G h u {i @ m |m. m \<in> auth_messages auth})"
    using close_fail_runs [OF assms(1,2)]
    by (intro exchange_runs [OF assms(1-4)]) (auto simp: socks_post_def auth_messages_def a)
  then show ?thesis using a assms(5) by (simp add: socks_auth_def auth_short_def not_less)
next
  case False
  then show ?thesis
    using close_fail_runs [OF assms(1-3)] assms(3,4)
    by (cases auth) (auto simp: socks_auth_def socks_post_def auth_messages_def)
qed

lemma Socks5_runs:
  assumes "sockets_ok S G" "h \<noteq> sk_invalid S" "auth_short auth"
  shows "io_runs (Socks5 S dest p auth h) u (socks_stop S) (socks_post G h u (socks_messages dest p auth))"
proof -
  let ?A = "{vSocks5Init auth @ m |m. m \<in> auth_messages auth}"
  have rest: "io_runs (io_bind (socks_auth S auth h meth) (\<lambda>(ok, h). if \<not> ok then io_return (False, h) else socks_request S dest p h))
      w (socks_stop S) (socks_post G h u (socks_messages dest p auth))"
    if "opens G w = opens G u" "sent G w = sent G u @ vSocks5Init auth" for meth w
  proof (rule io_runs_bind [OF socks_auth_runs [OF assms(1,2) that assms(3)]])
    fix r w' assume a: "socks_post G h u ?A r w'"
    obtain ok h' where r: "r = (ok, h')" by fastforce
    show "io_runs (case r of (ok, h) \<Rightarrow> if \<not> ok then io_return (False, h) else socks_request S dest p h) w'
        (socks_stop S) (socks_post G h u (socks_messages dest p auth))"
    proof (cases ok)
      case True
      with a r obtain m where m: "m \<in> auth_messages auth" "h' = h" "opens G w' = opens G u" "sent G w' = sent G u @ vSocks5Init auth @ m"
        by (auto simp: socks_post_def)
      then have "(vSocks5Init auth @ m) @ vSocks5 dest p \<in> socks_messages dest p auth" by (auto simp: socks_messages_def)
      with m r True show ?thesis by (auto intro!: socks_request_runs [OF assms(1,2)])
    qed (use a r in \<open>simp add: socks_post_def\<close>)
  qed
  show ?thesis
    using close_fail_runs [OF assms(1,2) refl] close_fail_runs [OF assms(1,2)] rest
    unfolding Socks5_def by (auto intro!: exchange_runs [OF assms(1,2) refl, where m = "[]"])
qed

subsection \<open>Connecting\<close>

text \<open>A connection leaves the open sockets as they were, or adds exactly the socket it returns.\<close>

definition connect_post :: "('h, 'u) ghost \<Rightarrow> 'u \<Rightarrow> bool \<times> 'h \<Rightarrow> 'u \<Rightarrow> bool" where
  "connect_post G u = (\<lambda>(ok, h) u'.
     if ok then h \<notin> opens G u \<and> opens G u' = insert h (opens G u) else opens G u' = opens G u)"

lemma connect_fail_runs:
  assumes "sockets_ok S G" "h \<noteq> sk_invalid S" "h \<notin> opens G u" "opens G v = insert h (opens G u)"
  shows "io_runs (io_bind (CloseSocket S h) (\<lambda>_. io_return (False, x))) v E
    (\<lambda>(ok, h') u'. \<not> ok \<and> opens G u' = opens G u)"
  unfolding CloseSocket_def
  using assms(2-) sockets_okD(2) [OF assms(1)]
  by (auto simp: connect_post_def io_bind_def io_call_def io_runs_def io_return_def split: prod.splits)

lemma SetSocketNonBlocking_runs:
  assumes "sockets_ok S G" "h \<noteq> sk_invalid S"
  shows "io_runs (SetSocketNonBlocking S h b) v E
    (\<lambda>(ok, h') u'. if ok then h' = h \<and> opens G u' = opens G v \<and> sent G u' = sent G v else opens G u' = opens G v - {h})"
proof -
  have "io_runs (if \<not> ok then io_bind (CloseSocket S h) (\<lambda>(_, h). io_return (False, h)) else io_return (True, h)) w E
      (\<lambda>(ok, h') u'. if ok then h' = h \<and> opens G u' = opens G v \<and> sent G u' = sent G v else opens G u' = opens G v - {h})"
    if "io_quiet G v w" for ok w
    using that assms(2) sockets_okD(2) [OF assms(1)]
    by (auto simp: CloseSocket_def io_quiet_def io_bind_def io_call_def io_runs_def io_return_def split: prod.splits)
  then show ?thesis
    unfolding SetSocketNonBlocking_def
    by (cases b; simp only: if_True if_False)
      (intro io_runs_bind_call; drule sockets_okD(9) [OF assms(1)], drule sockets_okD(10) [OF assms(1)], blast intro: io_quiet_trans)+
qed

text \<open>The end of \<^verbatim>\<open>ConnectSocketDirectly\<close>, once the new socket \<open>h\<close> is not blocking.\<close>

lemma connect_end_runs:
  assumes "sockets_ok S G" "h \<noteq> sk_invalid S" "h \<notin> opens G u" "opens G v = insert h (opens G u)" "sent G v = sent G u"
  defines "Q \<equiv> \<lambda>(ok, h) u'. connect_post G u (ok, h) u' \<and> (ok \<longrightarrow> h \<noteq> sk_invalid S \<and> sent G u' = sent G u)"
  assumes E: "\<not> sk_selectable S h \<Longrightarrow> E (Some Past_fd_set)"
  defines "fail \<equiv> io_bind (CloseSocket S h) (\<lambda>_. io_return (False, sk_invalid S))"
  shows "io_runs (case err of
      None \<Rightarrow> io_return (True, h)
    | Some nErr \<Rightarrow>
        if nErr = E_INPROGRESS \<or> nErr = E_WOULDBLOCK \<or> nErr = E_INVAL
        then if \<not> sk_selectable S h then io_stop Past_fd_set
             else io_bind (io_call (sk_select S True h tv)) (\<lambda>nRet.
               if nRet = Some 0 then fail else if nRet = None then fail
               else io_bind (io_call (sk_getsockopt S h)) (\<lambda>soError.
                 if soError = None then fail else if soError \<noteq> Some 0 then fail else io_return (True, h)))
        else fail) v E Q"
proof -
  have fail: "io_runs fail w E Q" if "io_quiet G v w" for w
    unfolding fail_def
    by (rule io_runs_mono [OF connect_fail_runs [OF assms(1-3), where E = E]])
      (use that assms(4) in \<open>auto simp: io_quiet_def Q_def connect_post_def\<close>)
  have ret: "Q (True, h) w" if "io_quiet G v w" for w
    using that assms(2-5) by (auto simp: Q_def connect_post_def io_quiet_def)
  have opt: "io_runs (io_bind (io_call (sk_getsockopt S h)) (\<lambda>soError.
      if soError = None then fail else if soError \<noteq> Some 0 then fail else io_return (True, h))) w E Q"
    if "io_quiet G v w" for w
  proof (rule io_runs_bind_call, goal_cases)
    case (1 r w')
    have "io_quiet G v w'" using io_quiet_trans [OF that sockets_okD(12) [OF assms(1) 1]] .
    then show ?case using fail ret by auto
  qed
  have "io_runs (io_bind (io_call (sk_select S True h tv)) (\<lambda>nRet.
      if nRet = Some 0 then fail else if nRet = None then fail
      else io_bind (io_call (sk_getsockopt S h)) (\<lambda>soError.
        if soError = None then fail else if soError \<noteq> Some 0 then fail else io_return (True, h)))) v E Q"
    using fail opt sockets_okD(5) [OF assms(1)] by (intro io_runs_bind_call) auto
  then show ?thesis using fail ret E by (auto split: option.splits)
qed

lemma ConnectSocketDirectly_runs:
  assumes "sockets_ok S G" and E: "\<And>h. \<not> sk_selectable S h \<Longrightarrow> E (Some Past_fd_set)"
  shows "io_runs (ConnectSocketDirectly S a t) u E
    (\<lambda>(ok, h) u'. connect_post G u (ok, h) u' \<and> (ok \<longrightarrow> h \<noteq> sk_invalid S \<and> sent G u' = sent G u))"
    (is "io_runs _ _ _ ?Q")
proof (cases "GetSockAddr a 128")
  case (Some r)
  obtain sa len where r: "r = (sa, len)" by fastforce
  show ?thesis
    unfolding ConnectSocketDirectly_def Some r option.case prod.case Let_def
  proof (rule io_runs_bind_call, goal_cases)
    case (1 h u1)
    note sock = sockets_okD(1) [OF assms(1) 1]
    show ?case
    proof (cases "h = sk_invalid S")
      case False
      with sock have h: "h \<notin> opens G u" "opens G u1 = insert h (opens G u)" "sent G u1 = sent G u" by simp_all
      show ?thesis unfolding if_not_P [OF False]
      proof (rule io_runs_bind_call, rule io_runs_bind [OF SetSocketNonBlocking_runs [OF assms(1) False]], goal_cases)
        case (1 x u2 r u3)
        note q2 = sockets_okD(8) [OF assms(1) 1(1)]
        show ?case
        proof (cases "fst r")
          case True
          then have r: "r = (True, h)" and u3: "opens G u3 = insert h (opens G u)" "sent G u3 = sent G u"
            using 1(2) q2 h by (auto simp: io_quiet_def split: prod.splits)
          show ?thesis
            unfolding r prod.case not_True_eq_False if_False
          proof (rule io_runs_bind_call, rule connect_end_runs [OF assms(1) False h(1)], goal_cases)
            case (1 err u4)
            then show ?case using sockets_okD(11) [OF assms(1) 1] u3 by (simp add: io_quiet_def)
          next
            case (2 err u4)
            then show ?case using sockets_okD(11) [OF assms(1) 2] u3 by (simp add: io_quiet_def)
          next
            case 3
            then show ?case using E by blast
          qed
        qed (use 1(2) q2 h in \<open>auto simp: io_quiet_def connect_post_def split: prod.splits\<close>)
      qed
    qed (use sock in \<open>simp add: connect_post_def\<close>)
  qed
qed (simp add: ConnectSocketDirectly_def connect_post_def)

subsection \<open>Through a proxy\<close>

lemma length_printf_u: "n < 10 ^ Suc k \<Longrightarrow> length (printf_u n) \<le> Suc k"
proof (induction k arbitrary: n)
  case 0
  then show ?case by (subst printf_u.simps) simp
next
  case (Suc k)
  have "n div 10 < 10 ^ Suc k" using Suc.prems by (simp add: less_mult_imp_div_less)
  then show ?case using Suc.IH [of "n div 10"] by (subst printf_u.simps) auto
qed

lemma random_auth_short: "auth_short (Some \<lparr>username = printf_u (unat r1), password = printf_u (unat r2)\<rparr>)" for r1 r2 :: u32
proof -
  have "unat r < 2 ^ 32" for r :: u32 using unsigned_less [of r] by simp
  then have "unat r < 10 ^ Suc 9" for r :: u32 by (rule less_trans) simp
  then have "length (printf_u (unat r)) \<le> 10" for r :: u32 using length_printf_u [of "unat r" 9] by simp
  from this [of r1] this [of r2] show ?thesis by (simp add: auth_short_def)
qed

text \<open>What a run of \<^verbatim>\<open>ConnectThroughProxy\<close> sends when it succeeds, whatever the random credentials are.\<close>

definition proxy_messages :: "proxyType \<Rightarrow> string \<Rightarrow> int \<Rightarrow> byte list set" where
  "proxy_messages p dest n =
     (if randomize_credentials p
      then (\<Union>(r1 :: u32) (r2 :: u32). socks_messages dest (uint (word_of_int n :: u16))
              (Some \<lparr>username = printf_u (unat r1), password = printf_u (unat r2)\<rparr>))
      else socks_messages dest (uint (word_of_int n :: u16)) None)"

definition through_post :: "('h, 'u) ghost \<Rightarrow> 'u \<Rightarrow> byte list set \<Rightarrow> bool \<times> 'h \<times> bool option \<Rightarrow> 'u \<Rightarrow> bool" where
  "through_post G u M = (\<lambda>(ok, h, out) u'. connect_post G u (ok, h) u' \<and> (ok \<longrightarrow> (\<exists>m \<in> M. sent G u' = sent G u @ m)))"

lemma Socks5_through:
  assumes "sockets_ok S G" "h \<noteq> sk_invalid S" "h \<notin> opens G u" "opens G v = insert h (opens G u)" "sent G v = sent G u"
    "auth_short auth" "socks_messages dest n auth \<subseteq> M"
  shows "io_runs (Socks5 S dest n auth h) v (socks_stop S) (\<lambda>(ok, h') u'. through_post G u M (ok, h', out) u')"
proof (rule io_runs_mono [OF Socks5_runs [OF assms(1,2,6)]])
  fix r u' assume "socks_post G h v (socks_messages dest n auth) r u'"
  then show "(case r of (ok, h') \<Rightarrow> \<lambda>u'. through_post G u M (ok, h', out) u') u'"
    using assms(3-5,7) by (auto simp: socks_post_def through_post_def connect_post_def split: if_splits)
qed

lemma ConnectThroughProxy_runs:
  assumes "sockets_ok S G"
  shows "io_runs (ConnectThroughProxy S p dest n hRet t out) u (socks_stop S) (through_post G u (proxy_messages p dest n))"
  unfolding ConnectThroughProxy_def
proof (rule io_runs_bind [OF ConnectSocketDirectly_runs [OF assms]], goal_cases)
  case (1 h)
  then show ?case by (auto simp: socks_stop_def)
next
  case (2 r v)
  obtain ok h where r: "r = (ok, h)" by fastforce
  show ?case
  proof (cases ok)
    case True
    let ?port = "uint (word_of_int n :: u16)" and ?M = "proxy_messages p dest n"
    have h: "h \<noteq> sk_invalid S" "h \<notin> opens G u" "opens G v = insert h (opens G u)" "sent G v = sent G u"
      using 2 True r by (auto simp: connect_post_def)
    have socks: "io_runs (Socks5 S dest ?port auth h) w (socks_stop S) (\<lambda>(ok, h') u'. through_post G u ?M (ok, h', out) u')"
      if "io_quiet G v w" "auth_short auth" "socks_messages dest ?port auth \<subseteq> ?M" for w auth
      using that h by (intro Socks5_through [OF assms]) (auto simp: io_quiet_def)
    have ok: "(\<not> ok) = False" using True by simp
    have "io_runs (if randomize_credentials p
          then io_bind (io_call (sk_rand S)) (\<lambda>r1. io_bind (io_call (sk_rand S)) (\<lambda>r2.
                 Socks5 S dest ?port (Some \<lparr>username = printf_u (unat r1), password = printf_u (unat r2)\<rparr>) h))
          else Socks5 S dest ?port None h) v (socks_stop S) (\<lambda>(ok, h') u'. through_post G u ?M (ok, h', out) u')"
    proof (cases "randomize_credentials p")
      case True
      show ?thesis unfolding if_P [OF True]
      proof (rule io_runs_bind_call, rule io_runs_bind_call, rule socks [OF _ random_auth_short], goal_cases)
        case (1 r1 u1 r2 u2)
        then show ?case using io_quiet_trans [OF sockets_okD(13) [OF assms 1(1)] sockets_okD(13) [OF assms 1(2)]] by simp
      next
        case (2 r1 u1 r2 u2)
        then show ?case using True by (auto simp: proxy_messages_def)
      qed
    next
      case False
      show ?thesis unfolding if_not_P [OF False]
        by (rule socks) (use False in \<open>auto simp: proxy_messages_def auth_short_def\<close>)
    qed
    then show ?thesis
      unfolding r prod.case ok if_False
      by (rule io_runs_bind) (auto simp: through_post_def connect_post_def split: if_splits)
  qed (use 2 r in \<open>auto simp: through_post_def connect_post_def\<close>)
qed

definition destination :: "netlib \<Rightarrow> netstate \<Rightarrow> CService \<Rightarrow> byte list set" where
  "destination L st a =
     (case GetProxy (GetNetwork a) st of
        None \<Rightarrow> {[]}
      | Some p \<Rightarrow> proxy_messages p (ToStringIP L a) (uint (GetPort a)))"

lemma ConnectSocket_runs:
  assumes "sockets_ok S G"
  shows "io_runs (ConnectSocket L S st a hRet t out) u
    (\<lambda>e. if GetProxy (GetNetwork a) st = None then e = Some Past_fd_set \<and> (\<exists>h. \<not> sk_selectable S h) else socks_stop S e)
    (through_post G u (destination L st a))"
proof (cases "GetProxy (GetNetwork a) st")
  case None
  show ?thesis
    unfolding ConnectSocket_def None option.case Let_def
    by (rule io_runs_bind [OF ConnectSocketDirectly_runs [OF assms]])
      (auto simp: through_post_def destination_def None split: if_splits)
next
  case (Some p)
  show ?thesis
    unfolding ConnectSocket_def Some option.case Let_def
    using ConnectThroughProxy_runs [OF assms] by (simp add: destination_def Some)
qed

lemma ConnectSocketByName_runs:
  assumes "sockets_ok S G" "resolver_ok L"
  shows "io_runs (ConnectSocketByName L S st fName name hRet d t out) u (socks_stop S)
    (\<lambda>(addr, ok, h, out) u'. net_wf addr \<and> connect_post G u (ok, h) u')"
proof -
  obtain n dest where sp: "SplitHostPort L name d = (n, dest)" by fastforce
  obtain a where a: "CNetAddr_str L dest (fName \<and> \<not> HaveNameProxy st) = Some a" "net_wf a"
    using CNetAddr_str_wf [OF assms(2)] by blast
  obtain z where z: "CService_str L ''0.0.0.0:0'' 0 False = Some z" "net_wf z"
    using CService_str_wf [OF assms(2)] by blast
  have conn: "io_runs (io_bind (ConnectSocket L S st b hRet t None) (\<lambda>(ok, h, _). io_return (b, ok, h, o'))) u (socks_stop S)
      (\<lambda>(addr, ok, h, out) u'. net_wf addr \<and> connect_post G u (ok, h) u')" if "net_wf b" for b o'
    by (rule io_runs_bind [OF io_runs_mono [OF ConnectSocket_runs [OF assms(1)], where F = "socks_stop S"]])
      (use that in \<open>auto simp: through_post_def socks_stop_def split: if_splits\<close>)
  have thr: "io_runs (io_bind (ConnectThroughProxy S p dest n hRet t o') (\<lambda>r. io_return (z, r))) u (socks_stop S)
      (\<lambda>(addr, ok, h, out) u'. net_wf addr \<and> connect_post G u (ok, h) u')" for p o'
    by (rule io_runs_bind [OF ConnectThroughProxy_runs [OF assms(1)]]) (use z(2) in \<open>auto simp: through_post_def\<close>)
  have none: "connect_post G u (False, hRet) u" by (simp add: connect_post_def)
  show ?thesis
    unfolding ConnectSocketByName_def Let_def sp prod.case io_assert_def a(1) z(1) option.case io_bind_return
    using a(2) z(2) conn [of "CService_ip a (word_of_int n)"] thr none by auto
qed

text \<open>
  C18. A direct \<^verbatim>\<open>ConnectSocket\<close> returns, unless a socket that does not fit is put into its \<^verbatim>\<open>fd_set\<close>; through a proxy the thread
  may also be interrupted, the buffer for the bound address may be left, and it waits for ever only if the turns of waiting can be
  repeated without end before a deadline. When it returns \<^verbatim>\<open>true\<close>, exactly one socket has been opened, the one it returns, and the bytes
  sent on the way are none for a direct connection and the messages of RFC 1928 and RFC 1929 for the destination when the network
  has a proxy. When it returns \<^verbatim>\<open>false\<close>, no socket is left open. The laws of the sockets say nothing about time.
\<close>

theorem ConnectSocket_no_leak:
  assumes "sockets_ok S G"
  shows "case ConnectSocket L S st a hRet t out u of
      None \<Rightarrow> GetProxy (GetNetwork a) st \<noteq> None \<and> \<not> waits_end S
    | Some (Inl e) \<Rightarrow> e = Past_fd_set \<and> (\<exists>h. \<not> sk_selectable S h)
        \<or> GetProxy (GetNetwork a) st \<noteq> None \<and> (e = Interrupted \<or> e = Out_of_buffer)
    | Some (Inr ((ok, h, _), u')) \<Rightarrow>
        if ok then h \<notin> opens G u \<and> opens G u' = insert h (opens G u) \<and> (\<exists>m \<in> destination L st a. sent G u' = sent G u @ m)
        else opens G u' = opens G u"
  using ConnectSocket_runs [OF assms, of L st a hRet t out u]
  by (auto simp: io_runs_def socks_stop_def through_post_def connect_post_def split: option.splits sum.splits if_splits)

text \<open>The table of proxies: what is set is what is used, for the same network only, and only valid proxies are set.\<close>

lemma GetProxy_SetProxy:
  assumes "length (proxyInfo st) = NET_MAX"
  shows "GetProxy net' (snd (SetProxy net p st)) = (if net' = net \<and> fst (SetProxy net p st) then Some p else GetProxy net' st)"
    and "length (proxyInfo (snd (SetProxy net p st))) = NET_MAX"
    and "fst (SetProxy net p st) = IsValid (proxy p)"
proof -
  have lt: "network_num k < 4" for k by (cases k) simp_all
  have inj: "network_num k = network_num l \<longleftrightarrow> k = l" for k l by (cases k; cases l) simp_all
  show "GetProxy net' (snd (SetProxy net p st)) = (if net' = net \<and> fst (SetProxy net p st) then Some p else GetProxy net' st)"
    using assms lt [of net] inj by (auto simp: SetProxy_def GetProxy_def NET_MAX_def proxy_IsValid_def nth_list_update)
qed (use assms in \<open>simp_all add: SetProxy_def proxy_IsValid_def\<close>)

lemma IsProxy_SetProxy:
  assumes "length (proxyInfo st) = NET_MAX" "fst (SetProxy net p st)"
  shows "IsProxy (proxy p) (snd (SetProxy net p st))"
proof -
  have n: "network_num net < 4" by (cases net) simp_all
  then have "(proxyInfo st)[network_num net := p] ! network_num net = p" using assms(1) by (simp add: NET_MAX_def)
  then show ?thesis
    using assms(2) n
    by (auto simp: IsProxy_def SetProxy_def list_ex_iff NET_MAX_def net_eq_def memcmp_eq_0 split: if_splits
      intro!: bexI [of _ "network_num net"])
qed

subsection \<open>A scripted peer\<close>

text \<open>A world with a peer that has a fixed list of bytes to send; waiting moves its clock.\<close>

record world =
  w_open :: "nat list"
  w_out :: "byte list"
  w_in :: "byte list"
  w_clock :: int

definition script_sockets :: "(nat, world) sockets" where
  "script_sockets =
     \<lparr>sk_invalid = 0,
      sk_socket = (\<lambda>_ u. let h = Suc (sum_list (w_open u)) in (h, u\<lparr>w_open := h # w_open u\<rparr>)),
      sk_setsockopt = (\<lambda>_ u. (0, u)), sk_getflags = (\<lambda>_ u. (0, u)), sk_setflags = (\<lambda>_ _ u. (True, u)), sk_nonblock = 2048,
      sk_connect = (\<lambda>_ _ _ u. (Some E_INPROGRESS, u)),
      sk_select = (\<lambda>_ _ _ u. (Some 1, u\<lparr>w_clock := w_clock u + 1\<rparr>)),
      sk_getsockopt = (\<lambda>_ u. (Some 0, u)),
      sk_close = (\<lambda>h u. (True, u\<lparr>w_open := filter (\<lambda>k. k \<noteq> h) (w_open u)\<rparr>)),
      sk_send = (\<lambda>_ d u. (int (length d), u\<lparr>w_out := w_out u @ d\<rparr>)),
      sk_recv = (\<lambda>_ n u. if w_in u = [] then (Inl E_WOULDBLOCK, u) else (Inr (take n (w_in u)), u\<lparr>w_in := drop n (w_in u)\<rparr>)),
      sk_selectable = (\<lambda>_. True), sk_now = (\<lambda>u. (w_clock u, u)), sk_interrupt = (\<lambda>u. (False, u)),
      sk_rand = (\<lambda>u. (7, u))\<rparr>"

definition script_ghost :: "(nat, world) ghost" where
  "script_ghost = \<lparr>opens = (\<lambda>u. set (w_open u)), sent = w_out\<rparr>"

lemma script_ok: "sockets_ok script_sockets script_ghost"
proof -
  have "Suc (sum_list xs) \<notin> set xs" for xs :: "nat list"
    using member_le_sum_list [of "Suc (sum_list xs)" xs] by auto
  then show ?thesis
    by (auto simp: sockets_ok_def script_sockets_def script_ghost_def io_quiet_def Let_def split: if_splits)
qed

text \<open>
  The length of a bound name is read as a signed \<^verbatim>\<open>char\<close>: from 128 on it becomes a request for almost \<open>2 ^ 64\<close> bytes, and a proxy that sends more than
  256 writes past the end of the buffer.
\<close>

lemma name_length_negative: "name_length 0x80 = 2 ^ 64 - 128"
  by (simp add: name_length_def)

lemma script_waits_end: "waits_end script_sockets"
proof -
  have "w_clock u' = w_clock u + 1 \<and> w_clock u' < T" if "waits script_sockets h len T u u'" for h len T u u'
    using that by (auto simp: waits_def script_sockets_def split: if_splits)
  then have "wfP (\<lambda>u' u. waits script_sockets h len T u u')" for h len T
    unfolding wfp_def by (intro wf_subset [OF wf_measure [of "\<lambda>u. nat (T - w_clock u)"]]) force
  then show ?thesis by (auto simp: waits_end_def wfp_def wf_iff_no_infinite_down_chain)
qed

text \<open>A connection to port 80 of 8.8.8.8 through a proxy that takes every client and names the address it has bound.\<close>

definition proxied :: netstate where
  "proxied = snd (SetProxy NET_IPV4 \<lparr>proxy = CService_ip \<lparr>ip = pchIPv4 @ [9, 9, 9, 9]\<rparr> 1080, randomize_credentials = False\<rparr> netstate_new)"

definition proxy_world :: world where
  "proxy_world = \<lparr>w_open = [], w_out = [], w_in = [5, 0, 5, 0, 0, 1, 8, 8, 8, 8, 0, 80], w_clock = 0\<rparr>"

lemma proxied_run:
  "ConnectSocket sample_lib script_sockets proxied (CService_ip \<lparr>ip = pchIPv4 @ [8, 8, 8, 8]\<rparr> 80) 0 1000 (Some True) proxy_world
    = Some (Inr ((True, 1, Some False), \<lparr>w_open = [1], w_out = [5, 1, 0, 5, 1, 0, 3, 7, 56, 46, 56, 46, 56, 46, 56, 0, 80], w_in = [], w_clock = 1\<rparr>))"
  by code_simp

theorem ConnectSocket_no_leak_witness:
  "\<exists>u'. ConnectSocket sample_lib script_sockets proxied (CService_ip \<lparr>ip = pchIPv4 @ [8, 8, 8, 8]\<rparr> 80) 0 1000 (Some True) proxy_world
      = Some (Inr ((True, 1, Some False), u'))
    \<and> set (w_open u') = {1} \<and> w_out u' = vSocks5Init None @ vSocks5 ''8.8.8.8'' 80
    \<and> w_out u' \<in> destination sample_lib proxied (CService_ip \<lparr>ip = pchIPv4 @ [8, 8, 8, 8]\<rparr> 80)
    \<and> waits_end script_sockets"
proof -
  have "vSocks5Init None @ vSocks5 ''8.8.8.8'' 80 = [5, 1, 0, 5, 1, 0, 3, 7, 56, 46, 56, 46, 56, 46, 56, 0, 80]" by code_simp
  then show ?thesis
    using ConnectSocket_no_leak [OF script_ok, where L = sample_lib and st = proxied and hRet = 0 and t = 1000 and out = "Some True"
        and a = "CService_ip \<lparr>ip = pchIPv4 @ [8, 8, 8, 8]\<rparr> 80" and u = proxy_world] script_waits_end
    unfolding proxied_run by (auto simp: script_ghost_def proxy_world_def)
qed

lemma script_simps [simp]:
  "sk_recv script_sockets h n u =
     (if w_in u = [] then (Inl E_WOULDBLOCK, u) else (Inr (take n (w_in u)), u\<lparr>w_in := drop n (w_in u)\<rparr>))"
  "sk_now script_sockets u = (w_clock u, u)" "sk_interrupt script_sockets u = (False, u)"
  by (simp_all add: script_sockets_def)

lemma recv_loop_0: "recv_loop S h e buf pos 0 t u = Some (Inr ((True, buf), u))"
  by (subst recv_loop.simps) simp

lemma Socks5_overflow:
  "socks_bound script_sockets 1 0x03 \<lparr>w_open = [1], w_out = [], w_in = 0x80 # replicate 300 0, w_clock = 0\<rparr>
     = Some (Inl Out_of_buffer)"
proof -
  have "recv_loop script_sockets 1 20000 (replicate 256 0) 0 1 0 \<lparr>w_open = [1], w_out = [], w_in = 0x80 # replicate 300 0, w_clock = 0\<rparr>
      = Some (Inr ((True, 0x80 # replicate 255 0), \<lparr>w_open = [1], w_out = [], w_in = replicate 300 0, w_clock = 0\<rparr>))"
    by (subst recv_loop.simps) (simp add: recv_loop_0)
  moreover have "recv_loop script_sockets 1 20000 (0x80 # replicate 255 0) 0 (2 ^ 64 - 128) 0
      \<lparr>w_open = [1], w_out = [], w_in = replicate 300 0, w_clock = 0\<rparr> = Some (Inl Out_of_buffer)"
    by (subst recv_loop.simps) simp
  ultimately show ?thesis
    by (simp add: socks_bound_def InterruptibleRecv_def io_bind_def io_call_def SOCKS5_RECV_TIMEOUT_def name_length_negative)
qed

end
