(* ===== verification/Ini_File.thy ===== *)
theory Ini_File
  imports Univalue "HOL-Library.List_Lexorder" "HOL-Library.Char_ord"
begin

section \<open>Configuration files (comLib/IniFile.cpp)\<close>

text \<open>
  \<^verbatim>\<open>IniFile\<close> keeps sections of keys and values in ordered maps; it reads them from a file line by line and writes them
  to a file or a string. An ordered map is a list of pairs sorted by key; the pointer to a section is the name under
  which it is stored. A C string is a list without the final zero; a pointer that the code compares with \<^verbatim>\<open>NULL\<close> is an
  option. The mutex is recursive and held by every operation. Loading is a partial function over an input stream:
  \<open>None\<close> is a load that never returns.
\<close>

subsection \<open>Ordered maps\<close>

text \<open>\<open>std_put\<close> is \<^verbatim>\<open>m[k] = v\<close>, \<open>map_of\<close> is \<^verbatim>\<open>find\<close> and \<open>std_erase\<close> is \<^verbatim>\<open>erase\<close>.\<close>

fun std_put :: "'k::linorder \<Rightarrow> 'v \<Rightarrow> ('k \<times> 'v) list \<Rightarrow> ('k \<times> 'v) list" where
  "std_put k v [] = [(k, v)]"
| "std_put k v (p # m) =
     (if k < fst p then (k, v) # p # m else if k = fst p then (k, v) # m else p # std_put k v m)"

definition std_erase :: "'k \<Rightarrow> ('k \<times> 'v) list \<Rightarrow> ('k \<times> 'v) list" where
  "std_erase k m = filter (\<lambda>p. fst p \<noteq> k) m"

definition std_sorted :: "('k::linorder \<times> 'v) list \<Rightarrow> bool" where
  "std_sorted m \<longleftrightarrow> sorted_wrt (<) (map fst m)"

subsection \<open>The class\<close>

type_synonym TSection = "(string \<times> string) list"

record IniFile =
  m_Inifile :: "(string \<times> TSection) list"
  m_strFilePath :: string

definition IniFile_new :: IniFile where
  "IniFile_new = \<lparr>m_Inifile = [], m_strFilePath = []\<rparr>"

definition getLowercase :: "char \<Rightarrow> char" where
  "getLowercase c = (let n = of_char c :: nat in if 65 \<le> n \<and> n \<le> 90 then char_of (n - 65 + 97) else c)"

definition lowercase :: "string \<Rightarrow> string" where
  "lowercase s = map getLowercase s"

definition ini_clear :: "IniFile \<Rightarrow> IniFile" where
  "ini_clear this = this\<lparr>m_Inifile := []\<rparr>"

definition getSection :: "string \<Rightarrow> bool \<Rightarrow> IniFile \<Rightarrow> string option \<times> IniFile" where
  "getSection szSection is_need_create this =
     (let strSec = lowercase szSection
      in case map_of (m_Inifile this) strSec of
           None \<Rightarrow> if \<not> is_need_create then (None, this)
                   else (Some strSec, this\<lparr>m_Inifile := std_put strSec [] (m_Inifile this)\<rparr>)
         | Some _ \<Rightarrow> (Some strSec, this))"

text \<open>The section behind a pointer, and an assignment through it.\<close>

definition section_at :: "string \<Rightarrow> IniFile \<Rightarrow> TSection" where
  "section_at p this = the (map_of (m_Inifile this) p)"

definition section_put :: "string \<Rightarrow> string \<Rightarrow> string \<Rightarrow> IniFile \<Rightarrow> IniFile" where
  "section_put p k v this = this\<lparr>m_Inifile := std_put p (std_put k v (section_at p this)) (m_Inifile this)\<rparr>"

definition getValue :: "TSection \<Rightarrow> string \<Rightarrow> string option" where
  "getValue pSec szP = map_option c_str (map_of pSec (lowercase szP))"

text \<open>What every getter looks up: \<open>None\<close> when the section or the key is missing.\<close>

definition ini_lookup :: "string \<Rightarrow> string \<Rightarrow> IniFile \<Rightarrow> string option" where
  "ini_lookup szSection szKey this =
     (case getSection szSection False this of
        (None, _) \<Rightarrow> None
      | (Some p, _) \<Rightarrow> getValue (section_at p this) szKey)"

text \<open>\<^verbatim>\<open>sscanf("%x")\<close> of a text that starts with \<^verbatim>\<open>0x\<close>, and \<^verbatim>\<open>atoi\<close>; both are stored in 32 bits.\<close>

definition hex_digit :: "char \<Rightarrow> nat option" where
  "hex_digit c =
     (let n = of_char c :: nat
      in if 48 \<le> n \<and> n \<le> 57 then Some (n - 48)
         else if 65 \<le> n \<and> n \<le> 70 then Some (n - 55)
         else if 97 \<le> n \<and> n \<le> 102 then Some (n - 87)
         else None)"

definition scan_x :: "string \<Rightarrow> int" where
  "scan_x s =
     (let ds = takeWhile (\<lambda>c. hex_digit c \<noteq> None) (drop 2 s);
          n = foldl (\<lambda>acc c. 16 * acc + the (hex_digit c)) 0 ds
      in sint (word_of_nat (if n < 2 ^ 64 then n else 2 ^ 64 - 1) :: u32))"

definition atoi :: "string \<Rightarrow> int" where
  "atoi s = sint (word_of_int (fst (strtol10 s)) :: u32)"

definition GetInteger :: "string \<Rightarrow> string \<Rightarrow> int \<Rightarrow> IniFile \<Rightarrow> int" where
  "GetInteger szSection szKey nDefault this =
     (case ini_lookup szSection szKey this of
        None \<Rightarrow> nDefault
      | Some szValue \<Rightarrow>
          if 2 \<le> length szValue \<and> szValue ! 0 = CHR ''0'' \<and> (szValue ! 1 = CHR ''x'' \<or> szValue ! 1 = CHR ''X'')
          then scan_x szValue else atoi szValue)"

definition GetString :: "string \<Rightarrow> string \<Rightarrow> string \<Rightarrow> IniFile \<Rightarrow> string" where
  "GetString szSection szKey szDefault this =
     (case ini_lookup szSection szKey this of None \<Rightarrow> szDefault | Some szValue \<Rightarrow> szValue)"

definition GetStringLowercase :: "string \<Rightarrow> string \<Rightarrow> string \<Rightarrow> IniFile \<Rightarrow> string" where
  "GetStringLowercase szSection szKey szDefault this =
     (case ini_lookup szSection szKey this of None \<Rightarrow> szDefault | Some szValue \<Rightarrow> lowercase szValue)"

definition GetBool :: "string \<Rightarrow> string \<Rightarrow> bool \<Rightarrow> IniFile \<Rightarrow> bool" where
  "GetBool szSection szKey bDefault this =
     (let str = GetStringLowercase szSection szKey (if bDefault then ''yes'' else ''no'') this
      in str = ''yes'' \<or> str = ''true'')"

definition makeSec :: "string \<Rightarrow> int \<Rightarrow> string" where
  "makeSec keyPrefix index = keyPrefix @ dec_int index"

definition GetIntegerEx :: "string \<Rightarrow> string \<Rightarrow> int \<Rightarrow> int \<Rightarrow> IniFile \<Rightarrow> int" where
  "GetIntegerEx szSection keyPrefix index nDefault this = GetInteger szSection (c_str (makeSec keyPrefix index)) nDefault this"

definition GetStringEx :: "string \<Rightarrow> string \<Rightarrow> int \<Rightarrow> string \<Rightarrow> IniFile \<Rightarrow> string" where
  "GetStringEx szSection keyPrefix index szDefault this = GetString szSection (c_str (makeSec keyPrefix index)) szDefault this"

definition GetStringLowercaseEx :: "string \<Rightarrow> string \<Rightarrow> int \<Rightarrow> string \<Rightarrow> IniFile \<Rightarrow> string" where
  "GetStringLowercaseEx szSection keyPrefix index szDefault this =
     GetStringLowercase szSection (c_str (makeSec keyPrefix index)) szDefault this"

definition GetBoolEx :: "string \<Rightarrow> string \<Rightarrow> int \<Rightarrow> bool \<Rightarrow> IniFile \<Rightarrow> bool" where
  "GetBoolEx szSection keyPrefix index bDefault this = GetBool szSection (c_str (makeSec keyPrefix index)) bDefault this"

definition SetInteger :: "string option \<Rightarrow> string option \<Rightarrow> int \<Rightarrow> IniFile \<Rightarrow> IniFile" where
  "SetInteger szSection szKey value this =
     (case (szSection, szKey) of
        (Some sec, Some k) \<Rightarrow>
          (case getSection sec True this of
             (None, this) \<Rightarrow> this
           | (Some p, this) \<Rightarrow> section_put p k (dec_int value) this)
      | _ \<Rightarrow> this)"

definition SetString :: "string option \<Rightarrow> string option \<Rightarrow> string option \<Rightarrow> IniFile \<Rightarrow> IniFile" where
  "SetString szSection szKey value this =
     (case (szSection, szKey, value) of
        (Some sec, Some k, Some v) \<Rightarrow>
          if length v = 0 then this
          else (case getSection sec True this of
                  (None, this) \<Rightarrow> this
                | (Some p, this) \<Rightarrow> section_put p k v this)
      | _ \<Rightarrow> this)"

definition SetBool :: "string option \<Rightarrow> string option \<Rightarrow> bool \<Rightarrow> IniFile \<Rightarrow> IniFile" where
  "SetBool szSection szKey bValue this =
     (case (szSection, szKey) of
        (Some sec, Some k) \<Rightarrow>
          (case getSection sec True this of
             (None, this) \<Rightarrow> this
           | (Some p, this) \<Rightarrow> section_put p k (if bValue then ''yes'' else ''no'') this)
      | _ \<Rightarrow> this)"

definition get_a_section :: "string \<Rightarrow> IniFile \<Rightarrow> TSection option" where
  "get_a_section szSection this =
     (case getSection szSection False this of (None, _) \<Rightarrow> None | (Some p, _) \<Rightarrow> Some (section_at p this))"

definition add_a_key_value :: "string \<Rightarrow> string \<Rightarrow> string \<Rightarrow> IniFile \<Rightarrow> bool \<times> IniFile" where
  "add_a_key_value strSection strP strV this =
     (case map_of (m_Inifile this) strSection of
        None \<Rightarrow> (False, this)
      | Some _ \<Rightarrow> (True, section_put strSection strP strV this))"

definition delete_a_key_value :: "string \<Rightarrow> string \<Rightarrow> IniFile \<Rightarrow> bool \<times> IniFile" where
  "delete_a_key_value strSection strP this =
     (case map_of (m_Inifile this) strSection of
        None \<Rightarrow> (False, this)
      | Some pSec \<Rightarrow> (True, this\<lparr>m_Inifile := std_put strSection (std_erase strP pSec) (m_Inifile this)\<rparr>))"

definition is_section_key_exist :: "string option \<Rightarrow> string option \<Rightarrow> IniFile \<Rightarrow> bool" where
  "is_section_key_exist szSection szKey this =
     (case (szSection, szKey) of
        (Some sec, Some k) \<Rightarrow>
          (case getSection sec False this of
             (None, _) \<Rightarrow> False
           | (Some p, _) \<Rightarrow> map_of (section_at p this) k \<noteq> None)
      | _ \<Rightarrow> False)"

subsection \<open>Reading\<close>

text \<open>\<^verbatim>\<open>addASection\<close> and \<^verbatim>\<open>addAValue\<close> keep what was read first.\<close>

definition addASection :: "string \<Rightarrow> IniFile \<Rightarrow> IniFile" where
  "addASection strSection this =
     (if map_of (m_Inifile this) strSection \<noteq> None then this
      else this\<lparr>m_Inifile := std_put strSection [] (m_Inifile this)\<rparr>)"

definition addAValue :: "string \<Rightarrow> string \<Rightarrow> string \<Rightarrow> IniFile \<Rightarrow> IniFile" where
  "addAValue strSection strP strV this =
     (case map_of (m_Inifile this) strSection of
        None \<Rightarrow> this
      | Some pSec \<Rightarrow> if map_of pSec strP \<noteq> None then this else section_put strSection strP strV this)"

text \<open>
  The three loops of \<^verbatim>\<open>analyzeLine\<close>: over a line without \<open>=\<close> (the name of a section, if the line gives one), over the characters
  before the first \<open>=\<close> (the key), and over those behind it (the value). The end of the list is the final zero.
\<close>

fun section_loop :: "string \<Rightarrow> string \<Rightarrow> bool \<Rightarrow> string option" where
  "section_loop [] strSec bSection = None"
| "section_loop (c # cs) strSec bSection =
     (if c = CHR '' '' \<or> c = CHR 0x09 then section_loop cs strSec bSection
      else if c = CHR ''['' then (if bSection then None else section_loop cs strSec True)
      else if c = CHR '']'' then (if strSec \<noteq> [] then Some strSec else None)
      else if c = CHR ''#'' \<or> c = CHR '';'' \<or> c = CHR 0x0D then None
      else if bSection then section_loop cs (strSec @ [getLowercase c]) bSection
      else None)"

fun param_loop :: "string \<Rightarrow> string \<Rightarrow> string \<Rightarrow> string option" where
  "param_loop strCurrSec [] strPara = Some strPara"
| "param_loop strCurrSec (c # cs) strPara =
     (if c = CHR '' '' \<or> c = CHR 0x09 then param_loop strCurrSec cs strPara
      else if c = CHR ''#'' \<or> c = CHR '';'' \<or> c = CHR 0x0D then None
      else if c = CHR ''['' \<or> c = CHR '']'' \<or> c = CHR 0x22 \<or> c = CHR 0x27 then None
      else param_loop strCurrSec cs (strPara @ [if strCurrSec = ''domain_isp_map'' then c else getLowercase c]))"

fun value_loop :: "string \<Rightarrow> string \<Rightarrow> bool \<Rightarrow> string" where
  "value_loop [] strValue bInBarcket = strValue"
| "value_loop (c # cs) strValue bInBarcket =
     (if c = CHR '' '' then value_loop cs (if bInBarcket then strValue @ [c] else strValue) bInBarcket
      else if c = CHR 0x27 \<or> c = CHR 0x22 then (if bInBarcket then strValue else value_loop cs strValue True)
      else if c = CHR ''#'' \<or> c = CHR '';'' \<or> c = CHR 0x0D then strValue
      else value_loop cs (strValue @ [c]) bInBarcket)"

text \<open>The result is the returned Boolean, the current section and the object.\<close>

definition analyzeLine :: "string \<Rightarrow> string \<Rightarrow> IniFile \<Rightarrow> bool \<times> string \<times> IniFile" where
  "analyzeLine strCurrSec szLine this =
     (if CHR ''='' \<notin> set szLine
      then (case section_loop szLine [] False of
              None \<Rightarrow> (True, strCurrSec, this)
            | Some strSec \<Rightarrow> (True, strSec, addASection strSec this))
      else if strCurrSec = [] then (True, strCurrSec, this)
      else (case param_loop strCurrSec (takeWhile (\<lambda>c. c \<noteq> CHR ''='') szLine) [] of
              None \<Rightarrow> (True, strCurrSec, this)
            | Some strPara \<Rightarrow>
                if strPara = [] then (True, strCurrSec, this)
                else (True, strCurrSec,
                  addAValue strCurrSec strPara (value_loop (tl (dropWhile (\<lambda>c. c \<noteq> CHR ''='') szLine)) [] False) this)))"

text \<open>
  An input stream with the rest of the file and two of its flags, and \<^verbatim>\<open>getline\<close> into an array of \<open>n\<close> characters:
  a line that does not fit sets \<open>failbit\<close>, as does a call that extracts nothing; a stream that is not good gives the
  empty line.
\<close>

record ifstream =
  rest :: string
  eofbit :: bool
  failbit :: bool

fun get_chars :: "nat \<Rightarrow> string \<Rightarrow> string \<times> ifstream" where
  "get_chars k [] = ([], \<lparr>rest = [], eofbit = True, failbit = False\<rparr>)"
| "get_chars k (c # cs) =
     (if c = CHR 0x0A then ([], \<lparr>rest = cs, eofbit = False, failbit = False\<rparr>)
      else case k of
             0 \<Rightarrow> ([], \<lparr>rest = c # cs, eofbit = False, failbit = True\<rparr>)
           | Suc k \<Rightarrow> let (l, s) = get_chars k cs in (c # l, s))"

definition stream_getline :: "nat \<Rightarrow> ifstream \<Rightarrow> string \<times> ifstream" where
  "stream_getline n s =
     (if eofbit s \<or> failbit s then ([], s\<lparr>failbit := True\<rparr>)
      else let (l, s') = get_chars (n - 1) (rest s)
           in (l, if rest s = [] then s'\<lparr>failbit := True\<rparr> else s'))"

definition CFG_LINE_LEN :: nat where "CFG_LINE_LEN = 1024"

partial_function (option) load_loop :: "ifstream \<Rightarrow> string \<Rightarrow> IniFile \<Rightarrow> IniFile option" where
  "load_loop inif strCurrSection this =
     (if eofbit inif then Some this
      else let (line, inif) = stream_getline CFG_LINE_LEN inif;
               line = c_str line
           in if length line = 0 then load_loop inif strCurrSection this
              else let (ok, strCurrSection, this) = analyzeLine strCurrSection line this
                   in if \<not> ok then Some this else load_loop inif strCurrSection this)"

text \<open>The argument \<open>content\<close> is the file under the name, if it can be opened.\<close>

definition LoadIniFile :: "string \<Rightarrow> string option \<Rightarrow> IniFile \<Rightarrow> (bool \<times> IniFile) option" where
  "LoadIniFile szFileName content this =
     (let this = ini_clear this
      in case content of
           None \<Rightarrow> Some (False, this)
         | Some text \<Rightarrow>
             map_option (Pair True)
               (load_loop \<lparr>rest = text, eofbit = False, failbit = False\<rparr> [] (this\<lparr>m_strFilePath := szFileName\<rparr>)))"

subsection \<open>Writing\<close>

definition ini_line :: "string \<times> string \<Rightarrow> string" where
  "ini_line kv =
     (let strLine = c_str (fst kv)
      in strLine @ replicate (21 - length strLine) (CHR '' '') @ ''= '' @ c_str (snd kv))"

definition ini_section :: "string \<times> TSection \<Rightarrow> string" where
  "ini_section sec =
     ''['' @ c_str (fst sec) @ '']'' @ [CHR 0x0A] @ concat (map (\<lambda>kv. ini_line kv @ [CHR 0x0A]) (snd sec)) @ [CHR 0x0A]"

definition flush_to_string :: "string \<Rightarrow> IniFile \<Rightarrow> string" where
  "flush_to_string strConfigure this =
     strConfigure @ ''#Host version 1.0.0.1'' @ [CHR 0x0A] @ ''#2014.04.18'' @ [CHR 0x0A] @ [CHR 0x0A]
       @ concat (map ini_section (m_Inifile this))"

text \<open>
  \<^verbatim>\<open>flush_to_file\<close>: the name of the file and what is written to it; \<open>None\<close> is the use of the null pointer that a failed
  \<^verbatim>\<open>fopen\<close> returns.
\<close>

definition flush_to_file :: "(string \<Rightarrow> bool) \<Rightarrow> string \<Rightarrow> IniFile \<Rightarrow> (string \<times> string) option" where
  "flush_to_file can_open strFileName this =
     (let strFlushFileName = (if strFileName = [] then ''Host.ini'' else strFileName)
      in if \<not> can_open (c_str strFlushFileName) then None
         else Some (c_str strFlushFileName,
           ''#Host configure file'' @ [CHR 0x0A] @ [CHR 0x0A] @ concat (map ini_section (m_Inifile this))))"

subsection \<open>The contract of a map\<close>

text \<open>What the class relies on, for the map of a section and for the map of sections alike.\<close>

locale key_map =
  fixes inv :: "'m \<Rightarrow> bool" and get :: "'m \<Rightarrow> 'k \<Rightarrow> 'v option"
    and put :: "'k \<Rightarrow> 'v \<Rightarrow> 'm \<Rightarrow> 'm" and del :: "'k \<Rightarrow> 'm \<Rightarrow> 'm"
  assumes inv_put: "inv m \<Longrightarrow> inv (put k v m)" and inv_del: "inv m \<Longrightarrow> inv (del k m)"
    and get_put: "inv m \<Longrightarrow> get (put k v m) = (get m)(k \<mapsto> v)"
    and get_del: "inv m \<Longrightarrow> get (del k m) = (get m)(k := None)"
    and get_ext: "inv m \<Longrightarrow> inv n \<Longrightarrow> get m = get n \<Longrightarrow> m = n"
begin

lemma put_put: "inv m \<Longrightarrow> put k v (put k w m) = put k v m"
  by (rule get_ext) (simp_all add: inv_put get_put)

lemma put_commute: "inv m \<Longrightarrow> k \<noteq> l \<Longrightarrow> put k v (put l w m) = put l w (put k v m)"
  by (rule get_ext) (simp_all add: inv_put get_put fun_upd_twist)

lemma del_put: "inv m \<Longrightarrow> get m k = None \<Longrightarrow> del k (put k v m) = m"
  by (rule get_ext) (auto simp: inv_put inv_del get_put get_del)

lemma put_same: "inv m \<Longrightarrow> get m k = Some v \<Longrightarrow> put k v m = m"
  by (rule get_ext) (auto simp: inv_put get_put)

end

lemma std_put_keys: "fst ` set (std_put k v m) = insert k (fst ` set m)"
  by (induction m) auto

lemma std_sorted_Cons [simp]: "std_sorted (p # m) \<longleftrightarrow> (\<forall>q \<in> set m. fst p < fst q) \<and> std_sorted m"
  by (simp add: std_sorted_def)

lemma std_sorted_Nil [simp]: "std_sorted []"
  by (simp add: std_sorted_def)

lemma std_put_sorted: "std_sorted m \<Longrightarrow> std_sorted (std_put k v m)"
proof (induction m)
  case (Cons p m)
  have "fst p < fst q" if "fst p < k" "q \<in> set (std_put k v m)" for q
  proof -
    have "fst q \<in> insert k (fst ` set m)" using that(2) std_put_keys [of k v m] by blast
    then show ?thesis using that(1) Cons.prems by auto
  qed
  then show ?case using Cons by (cases k "fst p" rule: linorder_cases) auto
qed simp

lemma std_put_map_of: "std_sorted m \<Longrightarrow> map_of (std_put k v m) = (map_of m)(k \<mapsto> v)"
proof (induction m)
  case (Cons p m)
  then show ?case by (cases p) (auto simp: fun_eq_iff)
qed simp

lemma std_erase_map_of: "map_of (std_erase k m) = (map_of m)(k := None)"
  by (induction m) (auto simp: std_erase_def)

lemma std_erase_sorted: "std_sorted m \<Longrightarrow> std_sorted (std_erase k m)"
  by (induction m) (auto simp: std_erase_def)

lemma std_map_ext:
  assumes "std_sorted m" "std_sorted n" "map_of m = map_of n"
  shows "m = n"
proof -
  have d: "sorted (map fst l) \<and> distinct (map fst l)" if "std_sorted l" for l :: "('a \<times> 'b) list"
    using that by (simp add: std_sorted_def strict_sorted_iff)
  have eta: "l = map (\<lambda>k. (k, the (map_of l k))) (map fst l)" if "distinct (map fst l)" for l :: "('a \<times> 'b) list"
    using that by (auto simp: comp_def intro!: map_idI [symmetric])
  have "set (map fst m) = set (map fst n)"
    using dom_map_of_conv_image_fst [of m] dom_map_of_conv_image_fst [of n] assms(3) by simp
  then have "map fst m = map fst n" using d [OF assms(1)] d [OF assms(2)] by (intro sorted_distinct_set_unique) auto
  then show ?thesis using eta [of m] eta [of n] d [OF assms(1)] d [OF assms(2)] assms(3) by metis
qed

interpretation std: key_map std_sorted map_of std_put std_erase
  by unfold_locales (fact std_put_sorted std_erase_sorted std_put_map_of std_map_ext | simp add: std_erase_map_of)+

subsection \<open>Settings\<close>

definition ini_wf :: "IniFile \<Rightarrow> bool" where
  "ini_wf this \<longleftrightarrow> std_sorted (m_Inifile this) \<and> (\<forall>p sec. map_of (m_Inifile this) p = Some sec \<longrightarrow> std_sorted sec)"

text \<open>The value stored under a section and a key, as written.\<close>

definition ini_get :: "IniFile \<Rightarrow> string \<Rightarrow> string \<Rightarrow> string option" where
  "ini_get this p k = (case map_of (m_Inifile this) p of None \<Rightarrow> None | Some sec \<Rightarrow> map_of sec k)"

lemma ini_lookup_get: "ini_lookup sec k this = map_option c_str (ini_get this (lowercase sec) (lowercase k))"
  by (auto simp: ini_lookup_def getSection_def getValue_def section_at_def ini_get_def Let_def split: option.splits)

lemma lowercase_idem [simp]: "lowercase (lowercase s) = lowercase s"
proof -
  have "getLowercase (getLowercase c) = getLowercase c" for c
    by (auto simp: getLowercase_def Let_def of_char_of take_bit_eq_mod)
  then show ?thesis by (simp add: lowercase_def)
qed

lemma section_put_wf:
  assumes "ini_wf this" "map_of (m_Inifile this) p \<noteq> None"
  shows "ini_wf (section_put p k v this)"
    and "ini_get (section_put p k v this) q l = (if q = p \<and> l = k then Some v else ini_get this q l)"
    and "map_of (m_Inifile (section_put p k v this)) q = None \<longleftrightarrow> map_of (m_Inifile this) q = None"
proof -
  obtain sec where "map_of (m_Inifile this) p = Some sec" using assms(2) by blast
  with assms show "ini_wf (section_put p k v this)"
    "ini_get (section_put p k v this) q l = (if q = p \<and> l = k then Some v else ini_get this q l)"
    "map_of (m_Inifile (section_put p k v this)) q = None \<longleftrightarrow> map_of (m_Inifile this) q = None"
    by (auto simp: ini_wf_def ini_get_def section_put_def section_at_def std.inv_put std.get_put)
qed

lemma getSection_create:
  assumes "ini_wf this" "getSection sec True this = (r, this')"
  shows "r = Some (lowercase sec)" "ini_wf this'" "map_of (m_Inifile this') (lowercase sec) \<noteq> None"
    "ini_get this' q l = ini_get this q l"
  using assms
  by (auto simp: getSection_def ini_wf_def ini_get_def Let_def std.inv_put std.get_put split: option.splits if_splits)

text \<open>The three setters store a text under the key as given.\<close>

definition ini_store :: "string \<Rightarrow> string \<Rightarrow> string \<Rightarrow> IniFile \<Rightarrow> IniFile" where
  "ini_store sec k v this = (case getSection sec True this of (None, this) \<Rightarrow> this | (Some p, this) \<Rightarrow> section_put p k v this)"

lemma setters_store:
  "SetString (Some sec) (Some k) (Some v) this = (if v = [] then this else ini_store sec k v this)"
  "SetInteger (Some sec) (Some k) i this = ini_store sec k (dec_int i) this"
  "SetBool (Some sec) (Some k) b this = ini_store sec k (if b then ''yes'' else ''no'') this"
  by (simp_all add: SetString_def SetInteger_def SetBool_def ini_store_def)

lemma ini_store_effect:
  assumes "ini_wf this"
  shows "ini_wf (ini_store sec k v this)"
    and "ini_get (ini_store sec k v this) q l = (if q = lowercase sec \<and> l = k then Some v else ini_get this q l)"
proof -
  obtain r this' where g: "getSection sec True this = (r, this')" by fastforce
  note g' = getSection_create [OF assms g]
  show "ini_wf (ini_store sec k v this)"
    "ini_get (ini_store sec k v this) q l = (if q = lowercase sec \<and> l = k then Some v else ini_get this q l)"
    using section_put_wf [OF g'(2,3)] g' by (simp_all add: ini_store_def g)
qed

lemma dec_int_not_hex: "\<not> (2 \<le> length (dec_int i) \<and> (dec_int i ! 1 = CHR ''x'' \<or> dec_int i ! 1 = CHR ''X''))"
proof (rule dec_int_cases [of i])
  fix c ds assume d: "list_all json_isdigit (c # ds)" and e: "dec_int i = (if i < 0 then CHR ''-'' # c # ds else c # ds)"
  have "set (dec_int i) \<subseteq> insert (CHR ''-'') {c. json_isdigit c}" using d e by (auto simp: list.pred_set)
  then have "CHR ''x'' \<notin> set (dec_int i)" "CHR ''X'' \<notin> set (dec_int i)" by (auto simp: json_isdigit_def)
  moreover have "2 \<le> length (dec_int i) \<Longrightarrow> dec_int i ! 1 \<in> set (dec_int i)" by (rule nth_mem) simp
  ultimately show ?thesis by metis
qed

lemma atoi_dec_int: "- (2 ^ 31) \<le> i \<Longrightarrow> i < 2 ^ 31 \<Longrightarrow> atoi (dec_int i) = i"
  by (simp add: atoi_def strtol10_dec_int signed_of_int signed_take_bit_int_eq_self)

text \<open>
  C23. What the setters store and the getters find. The name of a section is compared without regard to case, but a key only when it is looked up:
  a setting under a key with a capital letter is never found again, neither under that key nor under another. Other settings are not changed.
\<close>

theorem ini_set_get:
  assumes "ini_wf this" "CHR 0x00 \<notin> set v" "v \<noteq> []" "- (2 ^ 31) \<le> i" "i < 2 ^ 31"
  shows "GetString sec' k' d (SetString (Some sec) (Some k) (Some v) this)
      = (if lowercase sec' = lowercase sec \<and> lowercase k' = k then v else GetString sec' k' d this)
    \<and> GetInteger sec' k' n (SetInteger (Some sec) (Some k) i this)
      = (if lowercase sec' = lowercase sec \<and> lowercase k' = k then i else GetInteger sec' k' n this)
    \<and> GetBool sec' k' c (SetBool (Some sec) (Some k) b this)
      = (if lowercase sec' = lowercase sec \<and> lowercase k' = k then b else GetBool sec' k' c this)"
proof -
  let ?hit = "lowercase sec' = lowercase sec \<and> lowercase k' = k"
  have look: "ini_lookup sec' k' (ini_store sec k w this) = (if ?hit then Some (c_str w) else ini_lookup sec' k' this)" for w
    using ini_store_effect(2) [OF assms(1)] by (auto simp: ini_lookup_get)
  have "GetInteger sec' k' n (ini_store sec k (dec_int i) this) = (if ?hit then i else GetInteger sec' k' n this)"
    using dec_int_not_hex [of i] atoi_dec_int [OF assms(4,5)] by (auto simp: GetInteger_def look)
  moreover have "lowercase ''yes'' = ''yes''" "lowercase ''no'' = ''no''" "c_str ''yes'' = ''yes''" "c_str ''no'' = ''no''"
    by code_simp+
  then have "GetBool sec' k' c (ini_store sec k (if b then ''yes'' else ''no'') this) = (if ?hit then b else GetBool sec' k' c this)"
    by (auto simp: GetBool_def GetStringLowercase_def look Let_def)
  ultimately show ?thesis using c_str_id [OF assms(2)] assms(3) by (auto simp: setters_store GetString_def look)
qed

theorem ini_set_get_witness:
  "GetString ''Net'' ''Port'' ''none'' (SetString (Some ''net'') (Some ''Port'') (Some ''80'') IniFile_new) = ''none''
   \<and> GetString ''Net'' ''Port'' ''none'' (SetString (Some ''net'') (Some ''port'') (Some ''80'') IniFile_new) = ''80''"
proof -
  have "ini_wf IniFile_new" by (simp add: ini_wf_def IniFile_new_def)
  moreover have "lowercase ''Net'' = lowercase ''net''" "lowercase ''Port'' = ''port''" by code_simp+
  moreover have "GetString ''Net'' ''Port'' ''none'' IniFile_new = ''none''" by code_simp
  ultimately show ?thesis
    using ini_set_get [of IniFile_new "''80''" 0 "''Net''" "''Port''" "''none''" "''net''" "''Port''"]
      ini_set_get [of IniFile_new "''80''" 0 "''Net''" "''Port''" "''none''" "''net''" "''port''"] by simp
qed

subsection \<open>Loading\<close>

text \<open>\<open>lines_fit k text\<close>: every line of the text fits the array, the first one in \<open>k\<close> characters.\<close>

fun lines_fit :: "nat \<Rightarrow> string \<Rightarrow> bool" where
  "lines_fit k [] = True"
| "lines_fit k (c # cs) =
     (if c = CHR 0x0A then lines_fit 1023 cs else case k of 0 \<Rightarrow> False | Suc k \<Rightarrow> lines_fit k cs)"

lemma get_chars_props:
  assumes "get_chars k r = (l, s)"
  shows "lines_fit k r \<longleftrightarrow> \<not> failbit s \<and> lines_fit 1023 (rest s)"
    and "\<not> failbit s \<Longrightarrow> r \<noteq> [] \<Longrightarrow> length (rest s) < length r"
    and "failbit s \<Longrightarrow> \<not> eofbit s"
proof -
  have "(lines_fit k r \<longleftrightarrow> \<not> failbit s \<and> lines_fit 1023 (rest s)) \<and> (\<not> failbit s \<longrightarrow> r \<noteq> [] \<longrightarrow> length (rest s) < length r)
      \<and> (failbit s \<longrightarrow> \<not> eofbit s)"
    using assms
  proof (induction k r arbitrary: l s rule: get_chars.induct)
    case (2 k c cs)
    show ?case
    proof (cases "c = CHR 0x0A \<or> k = 0")
      case False
      then obtain j where "k = Suc j" by (cases k) auto
      moreover obtain l' s' where "get_chars j cs = (l', s')" by fastforce
      ultimately show ?thesis using 2 False by (cases "cs = []") (auto simp: less_Suc_eq)
    qed (use 2 in auto)
  qed auto
  then show "lines_fit k r \<longleftrightarrow> \<not> failbit s \<and> lines_fit 1023 (rest s)"
    "\<not> failbit s \<Longrightarrow> r \<noteq> [] \<Longrightarrow> length (rest s) < length r" "failbit s \<Longrightarrow> \<not> eofbit s" by blast+
qed

lemma analyzeLine_True [simp]: "fst (analyzeLine cur l this) = True"
  by (auto simp: analyzeLine_def split: option.splits)

lemma load_loop_stuck: "failbit s \<Longrightarrow> \<not> eofbit s \<Longrightarrow> load_loop s cur this = None"
proof -
  have "\<not> (failbit s \<and> \<not> eofbit s)" if "load_loop s cur this = Some r" for r
    using that
  proof (rule load_loop.raw_induct [where P = "\<lambda>s _ _ _. \<not> (failbit s \<and> \<not> eofbit s)", rotated], goal_cases)
    case (1 f i c t y)
    show ?case
    proof
      assume a: "failbit i \<and> \<not> eofbit i"
      then have "f (i\<lparr>failbit := True\<rparr>) c t = Some y" using 1(2) by (simp add: stream_getline_def c_str_def)
      from 1(1) [OF this] a show False by simp
    qed
  qed
  then show "failbit s \<Longrightarrow> \<not> eofbit s \<Longrightarrow> load_loop s cur this = None" by (cases "load_loop s cur this") auto
qed

lemma load_loop_step:
  assumes "\<not> eofbit s" "\<not> failbit s" "get_chars 1023 (rest s) = (l, s')" "rest s \<noteq> []"
  shows "load_loop s cur this =
    (if c_str l = [] then load_loop s' cur this
     else load_loop s' (fst (snd (analyzeLine cur (c_str l) this))) (snd (snd (analyzeLine cur (c_str l) this))))"
proof -
  obtain ok c t where a: "analyzeLine cur (c_str l) this = (ok, c, t)" by (cases "analyzeLine cur (c_str l) this")
  then have "ok = True" using analyzeLine_True [of cur "c_str l" this] by simp
  then show ?thesis using assms a by (subst load_loop.simps) (simp add: stream_getline_def CFG_LINE_LEN_def)
qed

lemma load_loop_end:
  assumes "\<not> failbit s" "eofbit s \<or> rest s = []"
  shows "load_loop s cur this = Some this"
proof (cases "eofbit s")
  case True
  then show ?thesis by (subst load_loop.simps) simp
next
  case False
  then have "load_loop s cur this = load_loop (\<lparr>rest = [], eofbit = True, failbit = True\<rparr>) cur this"
    using assms by (subst load_loop.simps) (simp add: stream_getline_def c_str_def)
  also have "\<dots> = Some this" by (subst load_loop.simps) simp
  finally show ?thesis .
qed

lemma load_loop_returns:
  assumes "\<not> eofbit s" "\<not> failbit s"
  shows "(\<exists>r. load_loop s cur this = Some r) \<longleftrightarrow> lines_fit 1023 (rest s)"
  using assms
proof (induction "length (rest s)" arbitrary: s cur this rule: less_induct)
  case less
  show ?case
  proof (cases "rest s = []")
    case False
    obtain l s' where g: "get_chars 1023 (rest s) = (l, s')" by fastforce
    note p = get_chars_props [OF g]
    have "(\<exists>r. load_loop s' c t = Some r) \<longleftrightarrow> lines_fit 1023 (rest s)" for c t
    proof (cases "failbit s'")
      case True
      then show ?thesis using p(1,3) load_loop_stuck [of s'] by simp
    next
      case f: False
      show ?thesis
      proof (cases "eofbit s'")
        case True
        have "get_chars k r = (l, s') \<Longrightarrow> eofbit s' \<Longrightarrow> rest s' = []" for k r l
          by (induction k r arbitrary: l rule: get_chars.induct) (auto split: if_splits nat.splits prod.splits)
        then show ?thesis using True f g p(1) load_loop_end [of s'] by simp
      qed (use less.hyps [OF p(2)] f False p(1) in auto)
    qed
    then show ?thesis using load_loop_step [OF less.prems g False, of cur this] by simp
  qed (use load_loop_end [of s] less.prems in simp)
qed

text \<open>
  C22. \<^verbatim>\<open>LoadIniFile\<close> returns exactly when no line of the file has more than 1023 characters. A longer line sets the fail bit of the
  stream, the loop that waits for the end of the file then reads empty lines for ever.
\<close>

theorem LoadIniFile_returns:
  "(\<exists>r. LoadIniFile name (Some content) this = Some r) \<longleftrightarrow> lines_fit 1023 content"
  using load_loop_returns [of "\<lparr>rest = content, eofbit = False, failbit = False\<rparr>" "[]" "ini_clear this\<lparr>m_strFilePath := name\<rparr>"]
  by (auto simp: LoadIniFile_def Let_def)

subsection \<open>Writing and reading\<close>

text \<open>
  Settings that the format can express: names without the marks of the format and in lower case (keys of the section
  \<^verbatim>\<open>domain_isp_map\<close> keep their case), values without spaces, quotes and comment marks, lines that fit.
\<close>

definition name_char :: "char \<Rightarrow> bool" where
  "name_char c \<longleftrightarrow> c \<notin> {CHR '' '', CHR 0x09, CHR ''['', CHR '']'', CHR ''#'', CHR '';'', CHR ''='', CHR 0x22, CHR 0x27, CHR 0x0D, CHR 0x0A, CHR 0x00}"

definition value_char :: "char \<Rightarrow> bool" where
  "value_char c \<longleftrightarrow> c \<notin> {CHR '' '', CHR ''#'', CHR '';'', CHR 0x22, CHR 0x27, CHR 0x0D, CHR 0x0A, CHR 0x00}"

definition clean_entry :: "string \<Rightarrow> string \<times> string \<Rightarrow> bool" where
  "clean_entry p kv \<longleftrightarrow> fst kv \<noteq> [] \<and> list_all name_char (fst kv) \<and> (p \<noteq> ''domain_isp_map'' \<longrightarrow> lowercase (fst kv) = fst kv)
     \<and> list_all value_char (snd kv) \<and> max 21 (length (fst kv)) + 2 + length (snd kv) \<le> 1023"

definition clean_section :: "string \<times> TSection \<Rightarrow> bool" where
  "clean_section sec \<longleftrightarrow> fst sec \<noteq> [] \<and> list_all name_char (fst sec) \<and> lowercase (fst sec) = fst sec \<and> length (fst sec) + 2 \<le> 1023
     \<and> list_all (clean_entry (fst sec)) (snd sec)"

definition ini_clean :: "IniFile \<Rightarrow> bool" where
  "ini_clean this \<longleftrightarrow> list_all clean_section (m_Inifile this)"

definition ini_step :: "string \<times> IniFile \<Rightarrow> string \<Rightarrow> string \<times> IniFile" where
  "ini_step st l = (if l = [] then st else snd (analyzeLine (fst st) l (snd st)))"

definition line_ok :: "string \<Rightarrow> bool" where
  "line_ok l \<longleftrightarrow> CHR 0x0A \<notin> set l \<and> CHR 0x00 \<notin> set l \<and> length l \<le> 1023"

lemma get_chars_line:
  "CHR 0x0A \<notin> set l \<Longrightarrow> length l \<le> k \<Longrightarrow> get_chars k (l @ CHR 0x0A # r) = (l, \<lparr>rest = r, eofbit = False, failbit = False\<rparr>)"
proof (induction l arbitrary: k)
  case (Cons c l)
  then show ?case by (cases k) auto
qed simp

lemma load_lines:
  assumes "list_all line_ok ls"
  shows "load_loop \<lparr>rest = concat (map (\<lambda>l. l @ [CHR 0x0A]) ls), eofbit = False, failbit = False\<rparr> cur this =
    Some (snd (foldl ini_step (cur, this) ls))"
  using assms
proof (induction ls arbitrary: cur this)
  case Nil
  show ?case by (simp add: load_loop_end)
next
  case (Cons l ls)
  let ?r = "concat (map (\<lambda>l. l @ [CHR 0x0A]) ls)"
  have g: "get_chars 1023 (l @ CHR 0x0A # ?r) = (l, \<lparr>rest = ?r, eofbit = False, failbit = False\<rparr>)" and l: "c_str l = l"
    using Cons.prems by (simp_all add: line_ok_def get_chars_line c_str_id)
  show ?case
    using load_loop_step [of "\<lparr>rest = l @ CHR 0x0A # ?r, eofbit = False, failbit = False\<rparr>" l _ cur this] g l Cons
    by (auto simp: ini_step_def split: prod.splits)
qed

lemma std_put_last: "\<forall>q \<in> set m. fst q < k \<Longrightarrow> std_put k v m = m @ [(k, v)]"
  by (induction m) auto

lemma std_put_replace: "\<forall>q \<in> set m. fst q < k \<Longrightarrow> std_put k v (m @ [(k, w)]) = m @ [(k, v)]"
  by (induction m) auto

lemma map_of_less: "\<forall>q \<in> set m. fst q < (k :: 'a::linorder) \<Longrightarrow> map_of m k = None"
  by (auto simp: map_of_eq_None_iff)

lemma section_loop_name:
  "list_all name_char p \<Longrightarrow> acc @ p \<noteq> [] \<Longrightarrow> section_loop (p @ '']'') acc True = Some (acc @ lowercase p)"
proof (induction p arbitrary: acc)
  case (Cons c p)
  then show ?case using Cons.IH [of "acc @ [getLowercase c]"] by (simp add: name_char_def lowercase_def)
qed (simp add: lowercase_def)

lemma param_loop_key:
  "list_all name_char k \<Longrightarrow> param_loop p (k @ replicate n (CHR '' '')) acc
     = Some (acc @ (if p = ''domain_isp_map'' then k else lowercase k))"
proof (induction k arbitrary: acc)
  case Nil
  have "param_loop p (replicate n (CHR '' '')) acc = Some acc" by (induction n) auto
  then show ?case by (simp add: lowercase_def)
next
  case (Cons c k)
  then show ?case by (simp add: name_char_def lowercase_def)
qed

lemma value_loop_value: "list_all value_char v \<Longrightarrow> value_loop v acc False = acc @ v"
  by (induction v arbitrary: acc) (auto simp: value_char_def)

lemma name_clean:
  assumes "list_all name_char p"
  shows "CHR 0x00 \<notin> set p" "CHR 0x0A \<notin> set p" "CHR ''='' \<notin> set p" "c_str p = p"
proof -
  show nul: "CHR 0x00 \<notin> set p" and "CHR 0x0A \<notin> set p" "CHR ''='' \<notin> set p"
    using assms by (auto simp: list_all_iff name_char_def)
  show "c_str p = p" using nul by (rule c_str_id)
qed

lemma value_clean:
  assumes "list_all value_char v"
  shows "CHR 0x00 \<notin> set v" "CHR 0x0A \<notin> set v" "c_str v = v"
proof -
  show nul: "CHR 0x00 \<notin> set v" and "CHR 0x0A \<notin> set v" using assms by (auto simp: list_all_iff value_char_def)
  show "c_str v = v" using nul by (rule c_str_id)
qed

lemma span_mark:
  assumes "x \<notin> set xs"
  shows "takeWhile (\<lambda>c. c \<noteq> x) (xs @ x # ys) = xs" "dropWhile (\<lambda>c. c \<noteq> x) (xs @ x # ys) = x # ys"
  using assms by (induction xs) auto

lemma section_line:
  assumes "clean_section (p, sec)" "\<forall>q \<in> set (m_Inifile this). fst q < p"
  shows "ini_step (cur, this) (''['' @ p @ '']'') = (p, this\<lparr>m_Inifile := m_Inifile this @ [(p, [])]\<rparr>)"
    and "line_ok (''['' @ p @ '']'')"
proof -
  have p: "p \<noteq> []" "list_all name_char p" "lowercase p = p" "length p + 2 \<le> 1023" using assms(1) by (simp_all add: clean_section_def)
  note name_clean [OF p(2)]
  then show "line_ok (''['' @ p @ '']'')" using p(4) by (simp add: line_ok_def)
  show "ini_step (cur, this) (''['' @ p @ '']'') = (p, this\<lparr>m_Inifile := m_Inifile this @ [(p, [])]\<rparr>)"
    using section_loop_name [OF p(2), of "[]"] p(1,3) name_clean(3) [OF p(2)] map_of_less [OF assms(2)] std_put_last [OF assms(2)]
    by (simp add: ini_step_def analyzeLine_def addASection_def)
qed

lemma entry_line:
  assumes "clean_entry p kv" "p \<noteq> []" "m_Inifile this = m @ [(p, pre)]" "\<forall>q \<in> set m. fst q < p" "\<forall>q \<in> set pre. fst q < fst kv"
  shows "ini_step (p, this) (ini_line kv) = (p, this\<lparr>m_Inifile := m @ [(p, pre @ [kv])]\<rparr>)"
    and "line_ok (ini_line kv)"
proof -
  obtain k v where kv: "kv = (k, v)" by fastforce
  then have k: "k \<noteq> []" "list_all name_char k" "p \<noteq> ''domain_isp_map'' \<longrightarrow> lowercase k = k" "list_all value_char v"
    "max 21 (length k) + 2 + length v \<le> 1023"
    using assms(1) by (auto simp: clean_entry_def)
  note nk = name_clean [OF k(2)] and nv = value_clean [OF k(4)]
  let ?s = "replicate (21 - length k) (CHR '' '')"
  have l: "ini_line kv = (k @ ?s) @ CHR ''='' # CHR '' '' # v" by (simp add: ini_line_def kv nk nv Let_def)
  have eq: "CHR ''='' \<notin> set (k @ ?s)" using nk(3) by auto
  then have split: "takeWhile (\<lambda>c. c \<noteq> CHR ''='') (ini_line kv) = k @ ?s" "tl (dropWhile (\<lambda>c. c \<noteq> CHR ''='') (ini_line kv)) = CHR '' '' # v"
    "CHR ''='' \<in> set (ini_line kv)"
    unfolding l using span_mark [OF eq] by simp_all
  have para: "param_loop p (k @ ?s) [] = Some k" using param_loop_key [OF k(2), of p _ "[]"] k(3) by auto
  have find: "map_of (m_Inifile this) p = Some pre" "map_of pre k = None"
    using assms(3) map_of_less [OF assms(4)] map_of_less [of pre k] assms(5) by (simp_all add: map_add_def kv)
  have "section_put p k v this = this\<lparr>m_Inifile := m @ [(p, pre @ [kv])]\<rparr>"
    using find(1) assms(3,5) std_put_replace [OF assms(4)] std_put_last [of pre k] by (simp add: section_put_def section_at_def kv)
  then show "ini_step (p, this) (ini_line kv) = (p, this\<lparr>m_Inifile := m @ [(p, pre @ [kv])]\<rparr>)"
    using split para find k(1) assms(2) value_loop_value [OF k(4)]
    by (auto simp: ini_step_def analyzeLine_def addAValue_def l)
  show "line_ok (ini_line kv)" using nk nv k(5) unfolding l by (auto simp: line_ok_def)
qed

lemma entry_lines:
  assumes "list_all (clean_entry p) sec" "p \<noteq> []" "m_Inifile this = m @ [(p, pre)]" "\<forall>q \<in> set m. fst q < p" "std_sorted (pre @ sec)"
  shows "foldl ini_step (p, this) (map ini_line sec) = (p, this\<lparr>m_Inifile := m @ [(p, pre @ sec)]\<rparr>) \<and> list_all line_ok (map ini_line sec)"
  using assms
proof (induction sec arbitrary: this pre)
  case (Cons kv sec)
  have c: "clean_entry p kv" "\<forall>q \<in> set pre. fst q < fst kv" using Cons.prems(1,5) by (auto simp: std_sorted_def sorted_wrt_append)
  note e = entry_line [OF c(1) Cons.prems(2,3,4) c(2)]
  show ?case using Cons.IH [of "this\<lparr>m_Inifile := m @ [(p, pre @ [kv])]\<rparr>" "pre @ [kv]"] Cons.prems e by simp
qed simp

definition section_lines :: "string \<times> TSection \<Rightarrow> string list" where
  "section_lines sec = (''['' @ fst sec @ '']'') # map ini_line (snd sec) @ [[]]"

lemma all_lines:
  assumes "list_all clean_section ss" "std_sorted (m_Inifile this @ ss)" "list_all (\<lambda>s. std_sorted (snd s)) ss"
  shows "snd (foldl ini_step (cur, this) (concat (map section_lines ss))) = this\<lparr>m_Inifile := m_Inifile this @ ss\<rparr>
    \<and> list_all line_ok (concat (map section_lines ss))"
  using assms
proof (induction ss arbitrary: this cur)
  case (Cons s ss)
  obtain p sec where s: "s = (p, sec)" by fastforce
  let ?obj = "this\<lparr>m_Inifile := m_Inifile this @ [(p, [])]\<rparr>"
  have less: "\<forall>q \<in> set (m_Inifile this). fst q < p" using Cons.prems(2) by (auto simp: std_sorted_def sorted_wrt_append s)
  have c: "clean_section (p, sec)" using Cons.prems(1) by (simp add: s)
  note sl = section_line(1) [OF c less, of cur] section_line(2) [OF c less]
  have el: "foldl ini_step (p, ?obj) (map ini_line sec) = (p, ?obj\<lparr>m_Inifile := m_Inifile this @ [(p, [] @ sec)]\<rparr>)
      \<and> list_all line_ok (map ini_line sec)"
    using c less Cons.prems(3) by (intro entry_lines) (auto simp: clean_section_def s)
  show ?case
    using Cons.IH [of "this\<lparr>m_Inifile := m_Inifile this @ [(p, sec)]\<rparr>" p] Cons.prems sl el
    by (simp add: section_lines_def s ini_step_def [of _ "[]"] line_ok_def [of "[]"])
qed simp

lemma concat_nested: "concat (map (\<lambda>s. concat (map f (g s))) xs) = concat (map f (concat (map g xs)))"
  by (induction xs) simp_all

lemma flush_lines:
  assumes "ini_clean this"
  shows "flush_to_string [] this = concat (map (\<lambda>l. l @ [CHR 0x0A])
    ([''#Host version 1.0.0.1'', ''#2014.04.18'', []] @ concat (map section_lines (m_Inifile this))))"
proof -
  have "ini_section s = concat (map (\<lambda>l. l @ [CHR 0x0A]) (section_lines s))" if "s \<in> set (m_Inifile this)" for s
  proof -
    have "c_str (fst s) = fst s"
      using that assms name_clean(4) [of "fst s"] by (auto simp: ini_clean_def clean_section_def list_all_iff)
    then show ?thesis by (simp add: ini_section_def section_lines_def comp_def)
  qed
  then have "concat (map ini_section (m_Inifile this)) = concat (map (\<lambda>s. concat (map (\<lambda>l. l @ [CHR 0x0A]) (section_lines s))) (m_Inifile this))"
    by (simp cong: map_cong)
  also have "\<dots> = concat (map (\<lambda>l. l @ [CHR 0x0A]) (concat (map section_lines (m_Inifile this))))"
    by (rule concat_nested)
  finally show ?thesis by (simp add: flush_to_string_def)
qed

text \<open>
  C21. Settings that the format can express, written with \<^verbatim>\<open>flush_to_string\<close> and loaded again into any object, give the same sections, keys and
  values, in finitely many steps.
\<close>

theorem ini_roundtrip:
  assumes "ini_wf this" "ini_clean this"
  shows "LoadIniFile name (Some (flush_to_string [] this)) that = Some (True, \<lparr>m_Inifile = m_Inifile this, m_strFilePath = name\<rparr>)"
proof -
  let ?h = "[''#Host version 1.0.0.1'', ''#2014.04.18'', []]" and ?ls = "concat (map section_lines (m_Inifile this))"
  let ?that = "ini_clear that\<lparr>m_strFilePath := name\<rparr>"
  have "list_all (\<lambda>s. std_sorted (snd s)) (m_Inifile this)"
    using assms(1) weak_map_of_SomeI by (auto simp: ini_wf_def list_all_iff std_sorted_def strict_sorted_iff)
  then have all: "snd (foldl ini_step ([], ?that) ?ls) = ?that\<lparr>m_Inifile := m_Inifile ?that @ m_Inifile this\<rparr> \<and> list_all line_ok ?ls"
    using assms by (intro all_lines) (auto simp: ini_clean_def ini_wf_def ini_clear_def)
  have hdr: "foldl ini_step ([], ?that) ?h = ([], ?that)" "list_all line_ok ?h"
    by (simp_all add: ini_step_def analyzeLine_def line_ok_def)
  have "load_loop \<lparr>rest = flush_to_string [] this, eofbit = False, failbit = False\<rparr> [] ?that
      = Some (snd (foldl ini_step ([], ?that) (?h @ ?ls)))"
    unfolding flush_lines [OF assms(2)] by (rule load_lines) (use hdr all in simp)
  then show ?thesis using hdr(1) all by (cases that) (simp add: LoadIniFile_def Let_def ini_clear_def)
qed

theorem ini_roundtrip_witness:
  "LoadIniFile ''a'' (Some (flush_to_string [] \<lparr>m_Inifile = [(''net'', [(''host'', ''h''), (''port'', ''80'')])], m_strFilePath = []\<rparr>)) IniFile_new
   = Some (True, \<lparr>m_Inifile = [(''net'', [(''host'', ''h''), (''port'', ''80'')])], m_strFilePath = ''a''\<rparr>)"
proof -
  let ?obj = "\<lparr>m_Inifile = [(''net'', [(''host'', ''h''), (''port'', ''80'')])], m_strFilePath = []\<rparr>"
  have "(''host'' :: string) < ''port''" by code_simp
  then have "ini_wf ?obj" by (simp add: ini_wf_def)
  moreover have "ini_clean ?obj" by code_simp
  ultimately show ?thesis using ini_roundtrip [of ?obj "''a''" IniFile_new] by simp
qed

subsection \<open>The maps stay ordered\<close>

lemma ini_wf_sections:
  "ini_wf this \<Longrightarrow> std_sorted sec \<Longrightarrow> ini_wf (this\<lparr>m_Inifile := std_put p sec (m_Inifile this)\<rparr>)"
  by (auto simp: ini_wf_def std.inv_put std.get_put split: if_splits)

lemma ini_wf_setters:
  assumes "ini_wf this"
  shows "ini_wf (SetInteger sec k i this)" "ini_wf (SetString sec k v this)" "ini_wf (SetBool sec k b this)"
    "ini_wf (snd (add_a_key_value p l w this))" "ini_wf (snd (delete_a_key_value p l this))"
proof -
  have n: "SetInteger None k i this = this" "SetInteger sec None i this = this" "SetBool None k b this = this"
    "SetBool sec None b this = this" "SetString None k v this = this" "SetString sec None v this = this" "SetString sec k None this = this"
    by (auto simp: SetInteger_def SetString_def SetBool_def split: option.splits)
  note store = ini_store_effect(1) [OF assms]
  show "ini_wf (SetInteger sec k i this)" using assms store n by (cases sec; cases k; simp add: setters_store n)
  show "ini_wf (SetBool sec k b this)" using assms store n by (cases sec; cases k; simp add: setters_store n)
  show "ini_wf (SetString sec k v this)" using assms store n by (cases sec; cases k; cases v; simp add: setters_store n)
  show "ini_wf (snd (add_a_key_value p l w this))"
    using assms section_put_wf(1) [OF assms] by (auto simp: add_a_key_value_def split: option.splits)
  show "ini_wf (snd (delete_a_key_value p l this))"
  proof (cases "map_of (m_Inifile this) p")
    case (Some sec)
    then have "std_sorted sec" using assms by (auto simp: ini_wf_def)
    then show ?thesis using Some ini_wf_sections [OF assms std_erase_sorted] by (simp add: delete_a_key_value_def)
  qed (use assms in \<open>simp add: delete_a_key_value_def\<close>)
qed

lemma ini_wf_analyzeLine: "ini_wf this \<Longrightarrow> ini_wf (snd (snd (analyzeLine cur l this)))"
  using section_put_wf(1) [of this]
  by (auto simp: analyzeLine_def addASection_def addAValue_def intro!: ini_wf_sections split: option.splits)

lemma ini_wf_load:
  assumes "load_loop s cur this = Some r"
  shows "ini_wf this \<longrightarrow> ini_wf r"
proof (rule load_loop.raw_induct [OF _ assms, where P = "\<lambda>s cur this r. ini_wf this \<longrightarrow> ini_wf r"])
  fix f s cur this r
  assume IH: "\<And>s cur this r. f s cur this = Some r \<Longrightarrow> ini_wf this \<longrightarrow> ini_wf r"
    and e: "(if eofbit s then Some this
      else let (line, inif) = stream_getline CFG_LINE_LEN s; line = c_str line
           in if length line = 0 then f inif cur this
              else let (ok, strCurrSection, this) = analyzeLine cur line this
                   in if \<not> ok then Some this else f inif strCurrSection this) = Some r"
  obtain line inif where g: "stream_getline CFG_LINE_LEN s = (line, inif)" by fastforce
  obtain ok cur' that where l: "analyzeLine cur (c_str line) this = (ok, cur', that)" by (metis prod_cases3)
  have "ini_wf this \<Longrightarrow> ini_wf that" using ini_wf_analyzeLine [of this cur "c_str line"] l by simp
  then show "ini_wf this \<longrightarrow> ini_wf r" using e IH [of inif cur this r] IH [of inif cur' that r] by (auto simp: g l Let_def split: if_splits)
qed

lemma ini_wf_LoadIniFile: "LoadIniFile name content this = Some (ok, that) \<Longrightarrow> ini_wf that"
  using ini_wf_load by (fastforce simp: LoadIniFile_def ini_clear_def ini_wf_def Let_def split: option.splits)

end
