(* ===== verification/Rw_Lock.thy ===== *)
theory Rw_Lock
  imports Prelude
begin

section \<open>The read-write lock (comLib/GMRWLockImp.cpp)\<close>

text \<open>
  \<^verbatim>\<open>GMJRRWLock\<close> on POSIX threads: two counters under a mutex, and one condition variable for readers and writers. The
  operations hold the mutex except inside \<^verbatim>\<open>pthread_cond_wait\<close>, so each stretch between two points where the mutex is
  free is one step of one thread; steps of different threads interleave in any order. A wait may end without reason.
\<close>

subsection \<open>Operations\<close>

record rwlock =
  rd_cnt :: int
  wr_cnt :: int

datatype wake = No_wake | Signal | Broadcast

definition rw_new :: rwlock where
  "rw_new = \<lparr>rd_cnt = 0, wr_cnt = 0\<rparr>"

text \<open>One turn of the loops of \<^verbatim>\<open>readLock\<close> and \<^verbatim>\<open>writeLock\<close>: \<open>None\<close> is \<^verbatim>\<open>pthread_cond_wait\<close>.\<close>

definition rw_readLock :: "rwlock \<Rightarrow> rwlock option" where
  "rw_readLock l = (if wr_cnt l > 0 then None else Some (l\<lparr>rd_cnt := rd_cnt l + 1\<rparr>))"

definition rw_writeLock :: "rwlock \<Rightarrow> rwlock option" where
  "rw_writeLock l = (if rd_cnt l + wr_cnt l > 0 then None else Some (l\<lparr>wr_cnt := wr_cnt l + 1\<rparr>))"

definition rw_UnReadlock :: "rwlock \<Rightarrow> rwlock \<times> wake" where
  "rw_UnReadlock l =
     (let l = l\<lparr>rd_cnt := rd_cnt l - 1\<rparr> in (l, if 0 = rd_cnt l then Signal else No_wake))"

definition rw_UnWritelock :: "rwlock \<Rightarrow> rwlock \<times> wake" where
  "rw_UnWritelock l = (l\<lparr>wr_cnt := wr_cnt l - 1\<rparr>, Broadcast)"

definition rw_unlock :: "rwlock \<Rightarrow> rwlock \<times> wake" where
  "rw_unlock l =
     (if wr_cnt l > 0 then (l\<lparr>wr_cnt := wr_cnt l - 1\<rparr>, Broadcast)
      else if rd_cnt l > 0
      then let l = l\<lparr>rd_cnt := rd_cnt l - 1\<rparr> in (l, if 0 = rd_cnt l then Signal else No_wake)
      else (l, No_wake))"

subsection \<open>Threads\<close>

text \<open>
  Where a thread is: outside the lock, before a turn of one of the loops, inside \<^verbatim>\<open>pthread_cond_wait\<close>, or holding the
  lock. \<open>woken w pcs pcs'\<close> is the effect of a signal or broadcast: a signal ends the wait of one waiting thread, if there is
  one, a broadcast all waits.
\<close>

datatype place = Outside | Try_read | Wait_read | Reading | Try_write | Wait_write | Writing

fun awake :: "place \<Rightarrow> place" where
  "awake Wait_read = Try_read"
| "awake Wait_write = Try_write"
| "awake p = p"

definition waiting :: "place \<Rightarrow> bool" where
  "waiting p \<longleftrightarrow> p = Wait_read \<or> p = Wait_write"

inductive woken :: "wake \<Rightarrow> ('t \<Rightarrow> place) \<Rightarrow> ('t \<Rightarrow> place) \<Rightarrow> bool" where
  none: "woken No_wake pcs pcs"
| nobody: "\<forall>t. \<not> waiting (pcs t) \<Longrightarrow> woken Signal pcs pcs"
| one: "waiting (pcs t) \<Longrightarrow> woken Signal pcs (pcs(t := awake (pcs t)))"
| all: "woken Broadcast pcs (awake \<circ> pcs)"

inductive rw_step :: "rwlock \<times> ('t \<Rightarrow> place) \<Rightarrow> rwlock \<times> ('t \<Rightarrow> place) \<Rightarrow> bool" where
  call_read: "pcs t = Outside \<Longrightarrow> rw_step (l, pcs) (l, pcs(t := Try_read))"
| call_write: "pcs t = Outside \<Longrightarrow> rw_step (l, pcs) (l, pcs(t := Try_write))"
| read_in: "pcs t = Try_read \<Longrightarrow> rw_readLock l = Some l' \<Longrightarrow> rw_step (l, pcs) (l', pcs(t := Reading))"
| read_wait: "pcs t = Try_read \<Longrightarrow> rw_readLock l = None \<Longrightarrow> rw_step (l, pcs) (l, pcs(t := Wait_read))"
| write_in: "pcs t = Try_write \<Longrightarrow> rw_writeLock l = Some l' \<Longrightarrow> rw_step (l, pcs) (l', pcs(t := Writing))"
| write_wait: "pcs t = Try_write \<Longrightarrow> rw_writeLock l = None \<Longrightarrow> rw_step (l, pcs) (l, pcs(t := Wait_write))"
| spurious: "waiting (pcs t) \<Longrightarrow> rw_step (l, pcs) (l, pcs(t := awake (pcs t)))"
| read_out: "pcs t = Reading \<Longrightarrow> rw_UnReadlock l = (l', w) \<or> rw_unlock l = (l', w) \<Longrightarrow> woken w (pcs(t := Outside)) pcs'
    \<Longrightarrow> rw_step (l, pcs) (l', pcs')"
| write_out: "pcs t = Writing \<Longrightarrow> rw_UnWritelock l = (l', w) \<or> rw_unlock l = (l', w) \<Longrightarrow> woken w (pcs(t := Outside)) pcs'
    \<Longrightarrow> rw_step (l, pcs) (l', pcs')"

definition rw_reachable :: "rwlock \<times> ('t \<Rightarrow> place) \<Rightarrow> bool" where
  "rw_reachable s \<longleftrightarrow> rw_step\<^sup>*\<^sup>* (rw_new, \<lambda>_. Outside) s"

inductive_cases wokenE: "woken w pcs pcs'"

subsection \<open>The invariant\<close>

text \<open>
  The counters count the threads that hold the lock, a writer is alone, a reader waits only while there is a writer, and a writer
  waits only while the lock is held or another writer has been woken and has not run yet.
\<close>

definition at_place :: "('t \<Rightarrow> place) \<Rightarrow> place \<Rightarrow> 't set" where
  "at_place pcs p = {t. pcs t = p}"

definition rw_inv :: "rwlock \<times> ('t \<Rightarrow> place) \<Rightarrow> bool" where
  "rw_inv s \<longleftrightarrow> (case s of (l, pcs) \<Rightarrow>
     finite {t. pcs t \<noteq> Outside}
     \<and> rd_cnt l = int (card (at_place pcs Reading)) \<and> wr_cnt l = int (card (at_place pcs Writing))
     \<and> (wr_cnt l > 0 \<longrightarrow> wr_cnt l = 1 \<and> rd_cnt l = 0)
     \<and> (\<forall>t. pcs t = Wait_read \<longrightarrow> wr_cnt l > 0)
     \<and> (\<forall>t. pcs t = Wait_write \<longrightarrow> rd_cnt l + wr_cnt l > 0 \<or> (\<exists>u. pcs u = Try_write)))"

lemma at_place_upd:
  "at_place (pcs(t := q)) p = (if p = q then insert t (at_place pcs p) else at_place pcs p - {t})"
  by (auto simp: at_place_def)

lemma at_place_finite: "finite {t. pcs t \<noteq> Outside} \<Longrightarrow> p \<noteq> Outside \<Longrightarrow> finite (at_place pcs p)"
  by (rule finite_subset [of _ "{t. pcs t \<noteq> Outside}"]) (auto simp: at_place_def)

lemma woken_holders:
  assumes "woken w pcs pcs'"
  shows "pcs' t = Outside \<longleftrightarrow> pcs t = Outside" "at_place pcs' Reading = at_place pcs Reading"
    "at_place pcs' Writing = at_place pcs Writing"
proof -
  have aw: "awake p = Outside \<longleftrightarrow> p = Outside" "awake p = Reading \<longleftrightarrow> p = Reading" "awake p = Writing \<longleftrightarrow> p = Writing" for p
    by (cases p; simp)+
  show "pcs' t = Outside \<longleftrightarrow> pcs t = Outside" "at_place pcs' Reading = at_place pcs Reading"
    "at_place pcs' Writing = at_place pcs Writing"
    using assms by (cases; auto simp: at_place_def aw waiting_def)+
qed

lemma woken_no_reader:
  assumes "woken w pcs pcs'" "\<forall>t. pcs t \<noteq> Wait_read"
  shows "pcs' u \<noteq> Wait_read"
proof -
  have "awake p \<noteq> Wait_read" for p by (cases p) simp_all
  note aw = this
  from assms(1) show ?thesis by (cases rule: woken.cases) (use assms(2) aw in auto)
qed

lemma rw_invD:
  assumes "rw_inv (l, pcs)"
  shows "finite {t. pcs t \<noteq> Outside}" "rd_cnt l = int (card (at_place pcs Reading))" "wr_cnt l = int (card (at_place pcs Writing))"
    "wr_cnt l > 0 \<Longrightarrow> wr_cnt l = 1 \<and> rd_cnt l = 0" "pcs t = Wait_read \<Longrightarrow> wr_cnt l > 0"
    "pcs t = Wait_write \<Longrightarrow> rd_cnt l + wr_cnt l > 0 \<or> (\<exists>u. pcs u = Try_write)"
  using assms by (auto simp: rw_inv_def)

lemma rw_invI:
  assumes "finite {t. pcs t \<noteq> Outside}" "rd_cnt l = int (card (at_place pcs Reading))" "wr_cnt l = int (card (at_place pcs Writing))"
    "wr_cnt l > 0 \<Longrightarrow> wr_cnt l = 1 \<and> rd_cnt l = 0" "\<And>t. pcs t = Wait_read \<Longrightarrow> wr_cnt l > 0"
    "\<And>t. pcs t = Wait_write \<Longrightarrow> rd_cnt l + wr_cnt l > 0 \<or> (\<exists>u. pcs u = Try_write)"
  shows "rw_inv (l, pcs)"
  using assms unfolding rw_inv_def prod.case by blast

lemma finite_upd: "finite {t. pcs t \<noteq> Outside} \<Longrightarrow> finite {u. (pcs(t := q)) u \<noteq> Outside}"
  by (rule finite_subset [of _ "insert t {t. pcs t \<noteq> Outside}"]) auto

lemma holder_counts:
  assumes "rw_inv (l, pcs)"
  shows "pcs t = Reading \<Longrightarrow> rd_cnt l > 0 \<and> wr_cnt l = 0" "pcs t = Writing \<Longrightarrow> wr_cnt l = 1 \<and> rd_cnt l = 0"
proof -
  note i = rw_invD [OF assms]
  have f: "finite (at_place pcs Reading)" "finite (at_place pcs Writing)" using at_place_finite [OF i(1)] by simp_all
  show "pcs t = Writing \<Longrightarrow> wr_cnt l = 1 \<and> rd_cnt l = 0"
    using i(3,4) f(2) card_gt_0_iff [of "at_place pcs Writing"] by (auto simp: at_place_def)
  show "pcs t = Reading \<Longrightarrow> rd_cnt l > 0 \<and> wr_cnt l = 0"
    using i(2,3,4) f(1) card_gt_0_iff [of "at_place pcs Reading"] by (auto simp: at_place_def)
qed

lemma inv_move:
  assumes "rw_inv (l, pcs)" "pcs t \<notin> {Reading, Writing}" "q \<notin> {Reading, Writing}"
    and "q = Wait_read \<Longrightarrow> wr_cnt l > 0" "q = Wait_write \<Longrightarrow> rd_cnt l + wr_cnt l > 0"
    and "pcs t = Try_write \<Longrightarrow> rd_cnt l + wr_cnt l > 0"
  shows "rw_inv (l, pcs(t := q))"
proof -
  note i = rw_invD [OF assms(1)]
  show ?thesis
  proof (rule rw_invI)
    have "at_place (pcs(t := q)) Reading = at_place pcs Reading" "at_place (pcs(t := q)) Writing = at_place pcs Writing"
      using assms(2,3) by (auto simp: at_place_def)
    then show "rd_cnt l = int (card (at_place (pcs(t := q)) Reading))" "wr_cnt l = int (card (at_place (pcs(t := q)) Writing))"
      using i(2,3) by simp_all
    fix u
    show "(pcs(t := q)) u = Wait_read \<Longrightarrow> wr_cnt l > 0" using i(5) [of u] assms(4) by (auto split: if_splits)
    show "rd_cnt l + wr_cnt l > 0 \<or> (\<exists>v. (pcs(t := q)) v = Try_write)" if "(pcs(t := q)) u = Wait_write"
    proof (cases "u = t \<or> pcs t = Try_write")
      case True
      then show ?thesis using that assms(5,6) by auto
    next
      case False
      then show ?thesis using that i(6) [of u] by (metis fun_upd_apply)
    qed
  qed (use i(4) finite_upd [OF i(1)] in auto)
qed

lemma inv_take:
  assumes "rw_inv (l, pcs)"
  shows "pcs t = Try_read \<Longrightarrow> rw_readLock l = Some l' \<Longrightarrow> rw_inv (l', pcs(t := Reading))"
    and "pcs t = Try_write \<Longrightarrow> rw_writeLock l = Some l' \<Longrightarrow> rw_inv (l', pcs(t := Writing))"
proof -
  note i = rw_invD [OF assms]
  have f: "finite (at_place pcs Reading)" "finite (at_place pcs Writing)" using at_place_finite [OF i(1)] by simp_all
  show "pcs t = Try_read \<Longrightarrow> rw_readLock l = Some l' \<Longrightarrow> rw_inv (l', pcs(t := Reading))"
    using i f finite_upd [OF i(1), of t Reading]
    by (auto simp: rw_inv_def rw_readLock_def at_place_upd split: if_splits) (auto simp: at_place_def)
  show "rw_inv (l', pcs(t := Writing))" if "pcs t = Try_write" "rw_writeLock l = Some l'"
  proof -
    have z: "rd_cnt l = 0" "wr_cnt l = 0" "l' = l\<lparr>wr_cnt := 1\<rparr>"
      using that(2) i(2,3) by (auto simp: rw_writeLock_def split: if_splits)
    then have "at_place pcs Reading = {}" "at_place pcs Writing = {}" using i(2,3) f by simp_all
    then show ?thesis using i(1) z finite_upd [OF i(1), of t Writing] by (simp add: rw_inv_def at_place_upd)
  qed
qed

lemma inv_wake:
  assumes "woken w (pcs(t := Outside)) pcs'" "rw_inv (l, pcs)" "finite {t. pcs t \<noteq> Outside}"
    and "rd_cnt l' = int (card (at_place pcs Reading - {t}))" "wr_cnt l' = int (card (at_place pcs Writing - {t}))"
    and "wr_cnt l' = 0"
    and "\<forall>u. pcs' u = Wait_read \<longrightarrow> False" "\<forall>u. pcs' u = Wait_write \<longrightarrow> rd_cnt l' > 0 \<or> (\<exists>u. pcs' u = Try_write)"
  shows "rw_inv (l', pcs')"
proof -
  note h = woken_holders [OF assms(1)]
  have "finite {t. pcs' t \<noteq> Outside}" unfolding h(1) using finite_upd [OF assms(3), of t Outside] by simp
  then show ?thesis using assms(4-8) h(2,3) by (simp add: rw_inv_def at_place_upd)
qed

lemma inv_read_out:
  assumes "rw_inv (l, pcs)" "pcs t = Reading" "rw_UnReadlock l = (l', w) \<or> rw_unlock l = (l', w)" "woken w (pcs(t := Outside)) pcs'"
  shows "rw_inv (l', pcs')"
proof -
  note i = rw_invD [OF assms(1)] and c = holder_counts(1) [OF assms(1,2)]
  have f: "finite (at_place pcs Reading)" "finite (at_place pcs Writing)" using at_place_finite [OF i(1)] by simp_all
  have l: "l' = l\<lparr>rd_cnt := rd_cnt l - 1\<rparr>" "w = (if rd_cnt l = 1 then Signal else No_wake)"
    using assms(3) c by (auto simp: rw_UnReadlock_def rw_unlock_def Let_def)
  have in_t: "t \<in> at_place pcs Reading" "at_place pcs Writing - {t} = at_place pcs Writing" using assms(2) by (auto simp: at_place_def)
  have no_wait: "pcs u \<noteq> Wait_read" for u using i(5) [of u] c by auto
  have "pcs' u = Wait_write \<longrightarrow> rd_cnt l' > 0 \<or> (\<exists>u. pcs' u = Try_write)" for u
  proof (cases "rd_cnt l = 1")
    case True
    then have "woken Signal (pcs(t := Outside)) pcs'" using assms(4) l(2) by simp
    then show ?thesis
    proof (cases rule: woken.cases)
      case (one v)
      then have "pcs' v = Try_write" using no_wait by (auto simp: waiting_def)
      then show ?thesis by blast
    qed (auto simp: waiting_def)
  qed (use c l(1) in auto)
  moreover have "pcs' u = Wait_read \<longrightarrow> False" for u
    using woken_no_reader [OF assms(4), of u] no_wait by auto
  moreover have "rd_cnt l' = int (card (at_place pcs Reading - {t}))"
    using i(2) c l(1) in_t(1) f(1) by (simp add: card_Diff_singleton of_nat_diff)
  moreover have "wr_cnt l' = int (card (at_place pcs Writing - {t}))" "wr_cnt l' = 0" using l(1) c i(3) in_t(2) by simp_all
  ultimately show ?thesis using inv_wake [OF assms(4,1) i(1)] by blast
qed

lemma inv_write_out:
  assumes "rw_inv (l, pcs)" "pcs t = Writing" "rw_UnWritelock l = (l', w) \<or> rw_unlock l = (l', w)" "woken w (pcs(t := Outside)) pcs'"
  shows "rw_inv (l', pcs')"
proof -
  note i = rw_invD [OF assms(1)] and c = holder_counts(2) [OF assms(1,2)]
  have f: "finite (at_place pcs Reading)" "finite (at_place pcs Writing)" using at_place_finite [OF i(1)] by simp_all
  have l: "l' = l\<lparr>wr_cnt := 0\<rparr>" "w = Broadcast"
    using assms(3) c by (auto simp: rw_UnWritelock_def rw_unlock_def)
  have in_t: "t \<in> at_place pcs Writing" "at_place pcs Reading - {t} = at_place pcs Reading" using assms(2) by (auto simp: at_place_def)
  have "pcs' = awake \<circ> pcs(t := Outside)" using assms(4) l(2) by (auto elim: wokenE)
  then have "\<not> waiting (pcs' u)" for u by (cases "pcs u") (auto simp: waiting_def)
  then have "pcs' u \<noteq> Wait_read" "pcs' u \<noteq> Wait_write" for u by (auto simp: waiting_def)
  moreover have "wr_cnt l' = int (card (at_place pcs Writing - {t}))"
    using i(3) c l(1) in_t(1) f(2) by (simp add: card_Diff_singleton)
  ultimately show ?thesis using inv_wake [OF assms(4,1) i(1), of l'] l(1) i(2) in_t(2) by auto
qed

lemma rw_step_inv: "rw_step s s' \<Longrightarrow> rw_inv s \<Longrightarrow> rw_inv s'"
proof (induction rule: rw_step.induct)
  case (read_wait pcs t l)
  then show ?case by (intro inv_move) (auto simp: rw_readLock_def split: if_splits)
next
  case (write_wait pcs t l)
  then show ?case by (intro inv_move) (auto simp: rw_writeLock_def split: if_splits)
next
  case (spurious pcs t l)
  then show ?case by (intro inv_move) (auto simp: waiting_def)
qed (auto intro: inv_move inv_take inv_read_out inv_write_out)

lemma rw_reachable_inv:
  assumes "rw_reachable s"
  shows "rw_inv s"
proof -
  have "rw_step\<^sup>*\<^sup>* (rw_new, \<lambda>_. Outside) s" using assms by (simp add: rw_reachable_def)
  then show ?thesis
  proof (induction rule: rtranclp_induct)
    case base
    show ?case by (simp add: rw_inv_def rw_new_def at_place_def)
  qed (blast intro: rw_step_inv)
qed

subsection \<open>Exclusion and progress\<close>

text \<open>
  C13. However the threads that use the lock interleave, the counters are exact, a writer excludes every other writer and every reader.
\<close>

theorem rw_exclusion:
  assumes "rw_reachable (l, pcs)"
  shows "rd_cnt l = int (card {t. pcs t = Reading}) \<and> wr_cnt l = int (card {t. pcs t = Writing})
    \<and> (\<forall>t u. pcs t = Writing \<and> (pcs u = Reading \<or> pcs u = Writing) \<longrightarrow> u = t)"
proof -
  note inv = rw_reachable_inv [OF assms]
  note i = rw_invD [OF inv]
  have f: "finite (at_place pcs Writing)" using at_place_finite [OF i(1)] by simp
  have "u = t" if "pcs t = Writing" "pcs u = Reading \<or> pcs u = Writing" for t u
  proof -
    have "card (at_place pcs Writing) = 1" using holder_counts(2) [OF inv that(1)] i(3) by simp
    then obtain x where "at_place pcs Writing = {x}" by (auto simp: card_1_singleton_iff)
    moreover have "pcs u = Writing" using that holder_counts [OF inv, of u] holder_counts(2) [OF inv that(1)] by auto
    ultimately have "u \<in> {x}" "t \<in> {x}" using that(1) unfolding at_place_def by blast+
    then show ?thesis by simp
  qed
  then show ?thesis using i(2,3) by (auto simp: at_place_def)
qed

lemma rw_reachable_step: "rw_reachable s \<Longrightarrow> rw_step s s' \<Longrightarrow> rw_reachable s'"
  unfolding rw_reachable_def by (rule rtranclp.rtrancl_into_rtrancl)

text \<open>Thread 0 writes and thread 1 waits to read.\<close>

lemma rw_run_wait:
  "rw_reachable (\<lparr>rd_cnt = 0, wr_cnt = 1\<rparr>, (\<lambda>_ :: nat. Outside)(0 := Writing, 1 := Wait_read))"
proof -
  let ?o = "\<lambda>_ :: nat. Outside" and ?w = "\<lparr>rd_cnt = 0, wr_cnt = 1\<rparr>"
  have "rw_reachable (rw_new, ?o)" by (simp add: rw_reachable_def)
  then have "rw_reachable (rw_new, ?o(0 := Try_write))" by (rule rw_reachable_step) (simp add: call_write)
  then have "rw_reachable (?w, (?o(0 := Try_write))(0 := Writing))"
    by (rule rw_reachable_step) (rule write_in; simp add: rw_writeLock_def rw_new_def)
  then have "rw_reachable (?w, (?o(0 := Writing))(1 := Try_read))" unfolding fun_upd_upd
    by (rule rw_reachable_step) (rule call_read; simp)
  then have "rw_reachable (?w, (?o(0 := Writing, 1 := Try_read))(1 := Wait_read))"
    by (rule rw_reachable_step) (rule read_wait; simp add: rw_readLock_def)
  then show ?thesis by simp
qed

lemma rw_run_woken: "rw_reachable (rw_new, (\<lambda>_ :: nat. Outside)(1 := Try_read))"
proof -
  let ?p = "(\<lambda>_ :: nat. Outside)(0 := Writing, 1 := Wait_read)"
  have e: "awake \<circ> ?p(0 := Outside) = (\<lambda>_. Outside)(1 := Try_read)" by (rule ext) simp
  have w: "woken Broadcast (?p(0 := Outside)) ((\<lambda>_. Outside)(1 := Try_read))" 
    using woken.all [of "?p(0 := Outside)"] by (simp only: e)
  have u: "rw_UnWritelock \<lparr>rd_cnt = 0, wr_cnt = 1\<rparr> = (rw_new, Broadcast)" by (simp add: rw_UnWritelock_def rw_new_def)
  have "?p 0 = Writing" by simp
  then have "rw_step (\<lparr>rd_cnt = 0, wr_cnt = 1\<rparr>, ?p) (rw_new, (\<lambda>_. Outside)(1 := Try_read))"
    by (rule write_out [OF _ disjI1 [OF u] w])
  then show ?thesis by (rule rw_reachable_step [OF rw_run_wait])
qed

theorem rw_exclusion_witness:
  "{u. ((\<lambda>_ :: nat. Outside)(0 := Writing, 1 := Wait_read)) u = Reading
      \<or> ((\<lambda>_ :: nat. Outside)(0 := Writing, 1 := Wait_read)) u = Writing} = {0}"
proof -
  let ?p = "(\<lambda>_ :: nat. Outside)(0 := Writing, 1 := Wait_read)"
  have "\<forall>t u. ?p t = Writing \<and> (?p u = Reading \<or> ?p u = Writing) \<longrightarrow> u = t"
    by (rule conjunct2 [OF conjunct2 [OF rw_exclusion [OF rw_run_wait]]])
  moreover have "?p 0 = Writing" by simp
  ultimately show ?thesis by blast
qed

text \<open>
  C14. No wake-up is lost: whenever some thread wants the lock and nobody holds it, a thread that is not asleep can take it at its
  next turn.
\<close>

theorem rw_progress:
  assumes "rw_reachable (l, pcs)" "pcs t \<noteq> Outside" "\<forall>u. pcs u \<noteq> Reading \<and> pcs u \<noteq> Writing"
  shows "\<exists>u l'. pcs u = Try_read \<and> rw_readLock l = Some l' \<or> pcs u = Try_write \<and> rw_writeLock l = Some l'"
proof -
  note i = rw_invD [OF rw_reachable_inv [OF assms(1)]]
  have z: "rd_cnt l = 0" "wr_cnt l = 0" using i(2,3) assms(3) by (simp_all add: at_place_def)
  have "pcs t = Try_read \<or> (\<exists>u. pcs u = Try_write)"
    using assms(2,3) i(5) [of t] i(6) [of t] z by (cases "pcs t") auto
  then show ?thesis using z by (auto simp: rw_readLock_def rw_writeLock_def)
qed

theorem rw_progress_witness: "\<exists>l'. rw_readLock rw_new = Some l'"
proof -
  have "\<exists>(u :: nat) l'. ((\<lambda>_. Outside)(1 := Try_read)) u = Try_read \<and> rw_readLock rw_new = Some l'
      \<or> ((\<lambda>_. Outside)(1 := Try_read)) u = Try_write \<and> rw_writeLock rw_new = Some l'"
    by (rule rw_progress [OF rw_run_woken, of 1]) simp_all
  then show ?thesis by (auto split: if_splits)
qed

end
