(* ===== verification/Safe_Queue.thy ===== *)
theory Safe_Queue
  imports Prelude
begin

section \<open>The blocking queue (comLib/SafeQueue.h)\<close>

text \<open>
  \<^verbatim>\<open>SafeQueue\<close> is a bounded queue behind a mutex, with one semaphore that counts free places and one that counts
  elements. Threads interleave between any two operations on the queue, the mutex and the semaphores. A program
  counter says what a thread does next; \<open>sq_next\<close> is its next action, \<open>None\<close> while it is blocked.
\<close>

subsection \<open>State\<close>

record ('a, 't) SafeQueue =
  m_Queue :: "'a list"
  m_Lock :: "'t option"
  m_queue_size :: nat
  m_EmptySemaphore :: nat
  m_FullSemaphore :: nat

definition SEM_VALUE_MAX :: nat where "SEM_VALUE_MAX = 2147483647"

definition SafeQueue_new :: "nat \<Rightarrow> ('a, 't) SafeQueue" where
  "SafeQueue_new queue_size =
     (let n = (if queue_size > SEM_VALUE_MAX then SEM_VALUE_MAX else queue_size)
      in \<lparr>m_Queue = [], m_Lock = None, m_queue_size = n, m_EmptySemaphore = n, m_FullSemaphore = 0\<rparr>)"

text \<open>What an operation returns, with the value that \<^verbatim>\<open>ret_value\<close> gets.\<close>

datatype 'a sq_ret = Ret_void | Ret_bool bool | Ret_size nat | Ret_value 'a

text \<open>
  \<open>Out\<close> is a thread outside the queue with the result of its last call. \<open>Pop_wait\<close> with \<open>True\<close> is the wait of \<^verbatim>\<open>Pop\<close>, which may time
  out, with \<open>False\<close> that of \<^verbatim>\<open>BlockPop\<close>. \<open>Put\<close> is the part that \<^verbatim>\<open>Push\<close> (\<open>True\<close>) and \<^verbatim>\<open>BlockPush\<close> share. \<open>Pop_pop x\<close> has read \<open>x\<close> from the front and will remove the front. \<open>Crash\<close> is \<^verbatim>\<open>front\<close> or \<^verbatim>\<open>pop\<close> of an
  empty queue.
\<close>

datatype 'a sq_pc =
    Out "'a sq_ret" | Unlock "'a sq_ret" | Crash
  | Push_lock 'a | Push_test 'a | Push_wait 'a
  | BlockPush_wait 'a | BlockPush_lock 'a
  | Put 'a bool | Put_post bool
  | Pop_wait bool | Pop_lock | Pop_front | Pop_pop 'a | Pop_post 'a
  | Size_lock | Size_read | Empty_lock | Empty_read
  | Clear_lock | Clear_test | Clear_pop | Clear_wait | Clear_post

subsection \<open>Semaphore and mutex\<close>

definition sem_down :: "nat \<Rightarrow> nat option" where
  "sem_down n = (if n = 0 then None else Some (n - 1))"

definition sq_lock :: "'t \<Rightarrow> 'a sq_pc \<Rightarrow> ('a, 't) SafeQueue \<Rightarrow> (('a, 't) SafeQueue \<times> 'a sq_pc) option" where
  "sq_lock t p this = (if m_Lock this = None then Some (this\<lparr>m_Lock := Some t\<rparr>, p) else None)"

definition empty_Wait :: "'a sq_pc \<Rightarrow> ('a, 't) SafeQueue \<Rightarrow> (('a, 't) SafeQueue \<times> 'a sq_pc) option" where
  "empty_Wait p this = map_option (\<lambda>n. (this\<lparr>m_EmptySemaphore := n\<rparr>, p)) (sem_down (m_EmptySemaphore this))"

definition full_Wait :: "'a sq_pc \<Rightarrow> ('a, 't) SafeQueue \<Rightarrow> (('a, 't) SafeQueue \<times> 'a sq_pc) option" where
  "full_Wait p this = map_option (\<lambda>n. (this\<lparr>m_FullSemaphore := n\<rparr>, p)) (sem_down (m_FullSemaphore this))"

definition empty_Post :: "('a, 't) SafeQueue \<Rightarrow> ('a, 't) SafeQueue" where
  "empty_Post this = this\<lparr>m_EmptySemaphore := m_EmptySemaphore this + 1\<rparr>"

definition full_Post :: "('a, 't) SafeQueue \<Rightarrow> ('a, 't) SafeQueue" where
  "full_Post this = this\<lparr>m_FullSemaphore := m_FullSemaphore this + 1\<rparr>"

subsection \<open>Operations\<close>

text \<open>The calls a thread may make, and where each starts.\<close>

fun sq_entry :: "'a sq_pc \<Rightarrow> bool" where
  "sq_entry (Push_lock v) = True"
| "sq_entry (BlockPush_wait v) = True"
| "sq_entry (Pop_wait b) = True"
| "sq_entry Size_lock = True"
| "sq_entry Empty_lock = True"
| "sq_entry Clear_lock = True"
| "sq_entry p = False"

fun sq_next :: "'t \<Rightarrow> ('a, 't) SafeQueue \<Rightarrow> 'a sq_pc \<Rightarrow> (('a, 't) SafeQueue \<times> 'a sq_pc) option" where
  "sq_next t this (Push_lock v) = sq_lock t (Push_test v) this"
| "sq_next t this (Push_test v) =
     Some (this, if length (m_Queue this) \<ge> m_queue_size this then Unlock (Ret_bool False) else Push_wait v)"
| "sq_next t this (Push_wait v) = empty_Wait (Put v True) this"
| "sq_next t this (BlockPush_wait v) = empty_Wait (BlockPush_lock v) this"
| "sq_next t this (BlockPush_lock v) = sq_lock t (Put v False) this"
| "sq_next t this (Put v b) = Some (this\<lparr>m_Queue := m_Queue this @ [v]\<rparr>, Put_post b)"
| "sq_next t this (Put_post b) = Some (full_Post this, Unlock (if b then Ret_bool True else Ret_void))"
| "sq_next t this (Pop_wait b) = full_Wait Pop_lock this"
| "sq_next t this Pop_lock = sq_lock t Pop_front this"
| "sq_next t this Pop_front =
     Some (this, if m_Queue this = [] then Crash else Pop_pop (hd (m_Queue this)))"
| "sq_next t this (Pop_pop x) =
     Some (if m_Queue this = [] then (this, Crash) else (this\<lparr>m_Queue := tl (m_Queue this)\<rparr>, Pop_post x))"
| "sq_next t this (Pop_post x) = Some (empty_Post this, Unlock (Ret_value x))"
| "sq_next t this Size_lock = sq_lock t Size_read this"
| "sq_next t this Size_read = Some (this, Unlock (Ret_size (length (m_Queue this))))"
| "sq_next t this Empty_lock = sq_lock t Empty_read this"
| "sq_next t this Empty_read = Some (this, Unlock (Ret_bool (m_Queue this = [])))"
| "sq_next t this Clear_lock = sq_lock t Clear_test this"
| "sq_next t this Clear_test =
     Some (this, if m_Queue this = [] then Unlock Ret_void else Clear_pop)"
| "sq_next t this Clear_pop =
     Some (if m_Queue this = [] then (this, Crash) else (this\<lparr>m_Queue := tl (m_Queue this)\<rparr>, Clear_wait))"
| "sq_next t this Clear_wait = full_Wait Clear_post this"
| "sq_next t this Clear_post = Some (empty_Post this, Clear_test)"
| "sq_next t this (Unlock r) = Some (this\<lparr>m_Lock := None\<rparr>, Out r)"
| "sq_next t this (Out r) = None"
| "sq_next t this Crash = None"

subsection \<open>Interleavings\<close>

text \<open>
  What a user of the queue sees: an element is put in, a call returns an element, \<^verbatim>\<open>Clear\<close> drops one, or an operation of
  the queue is applied to an empty one.
\<close>

datatype 'a sq_event = Enq 'a | Deq 'a | Drop 'a | Fault

fun sq_events :: "('a, 't) SafeQueue \<Rightarrow> 'a sq_pc \<Rightarrow> 'a sq_event list" where
  "sq_events this (Put v b) = [Enq v]"
| "sq_events this (Unlock (Ret_value x)) = [Deq x]"
| "sq_events this Pop_front = (if m_Queue this = [] then [Fault] else [])"
| "sq_events this (Pop_pop x) = (if m_Queue this = [] then [Fault] else [])"
| "sq_events this Clear_pop = [if m_Queue this = [] then Fault else Drop (hd (m_Queue this))]"
| "sq_events this p = []"

text \<open>Threads that make only the calls \<open>A\<close>: a call, an action of a thread inside the queue, a time-out of \<^verbatim>\<open>Pop\<close>.\<close>

inductive sq_step :: "('a sq_pc \<Rightarrow> bool) \<Rightarrow> ('a, 't) SafeQueue \<times> ('t \<Rightarrow> 'a sq_pc) \<Rightarrow> 'a sq_event list
    \<Rightarrow> ('a, 't) SafeQueue \<times> ('t \<Rightarrow> 'a sq_pc) \<Rightarrow> bool" for A where
  call: "pcs t = Out r \<Longrightarrow> sq_entry p \<Longrightarrow> A p \<Longrightarrow> sq_step A (this, pcs) [] (this, pcs(t := p))"
| act: "sq_next t this (pcs t) = Some (this', p) \<Longrightarrow> sq_step A (this, pcs) (sq_events this (pcs t)) (this', pcs(t := p))"
| timeout: "pcs t = Pop_wait True \<Longrightarrow> sq_step A (this, pcs) [] (this, pcs(t := Out (Ret_bool False)))"

inductive sq_run :: "('a sq_pc \<Rightarrow> bool) \<Rightarrow> nat \<Rightarrow> 'a sq_event list \<Rightarrow> ('a, 't) SafeQueue \<times> ('t \<Rightarrow> 'a sq_pc) \<Rightarrow> bool" for A n where
  start: "sq_run A n [] (SafeQueue_new n, \<lambda>_. Out Ret_void)"
| more: "sq_run A n es s \<Longrightarrow> sq_step A s e s' \<Longrightarrow> sq_run A n (es @ e) s'"

subsection \<open>The invariant\<close>

text \<open>Threads that hold the mutex, that own a place without an element in it, and that own the count of an element.\<close>

fun sq_holds :: "'a sq_pc \<Rightarrow> bool" where
  "sq_holds (Unlock r) = True"
| "sq_holds (Push_test v) = True"
| "sq_holds (Push_wait v) = True"
| "sq_holds (Put v b) = True"
| "sq_holds (Put_post b) = True"
| "sq_holds Pop_front = True"
| "sq_holds (Pop_pop x) = True"
| "sq_holds (Pop_post x) = True"
| "sq_holds Size_read = True"
| "sq_holds Empty_read = True"
| "sq_holds Clear_test = True"
| "sq_holds Clear_pop = True"
| "sq_holds Clear_wait = True"
| "sq_holds Clear_post = True"
| "sq_holds p = False"

fun owns_place :: "'a sq_pc \<Rightarrow> bool" where
  "owns_place (BlockPush_lock v) = True"
| "owns_place (Put v b) = True"
| "owns_place (Pop_post x) = True"
| "owns_place Clear_wait = True"
| "owns_place Clear_post = True"
| "owns_place p = False"

fun owns_count :: "'a sq_pc \<Rightarrow> bool" where
  "owns_count (Put_post b) = True"
| "owns_count Pop_lock = True"
| "owns_count Pop_front = True"
| "owns_count (Pop_pop x) = True"
| "owns_count p = False"

fun outside :: "'a sq_pc \<Rightarrow> bool" where
  "outside (Out r) = True"
| "outside p = False"

text \<open>What a thread has seen of the queue and relies on.\<close>

fun sq_view :: "'a list \<Rightarrow> 'a sq_pc \<Rightarrow> bool" where
  "sq_view q (Pop_pop x) = (q \<noteq> [] \<and> hd q = x)"
| "sq_view q Clear_pop = (q \<noteq> [])"
| "sq_view q p = True"

definition threads :: "('a sq_pc \<Rightarrow> bool) \<Rightarrow> ('t \<Rightarrow> 'a sq_pc) \<Rightarrow> nat" where
  "threads P pcs = card {t. P (pcs t)}"

definition sq_inv :: "nat \<Rightarrow> ('a, 't) SafeQueue \<times> ('t \<Rightarrow> 'a sq_pc) \<Rightarrow> bool" where
  "sq_inv n s \<longleftrightarrow> (case s of (this, pcs) \<Rightarrow>
     finite {t. \<not> outside (pcs t)} \<and> (\<forall>t. pcs t \<noteq> Crash \<and> sq_view (m_Queue this) (pcs t))
     \<and> m_queue_size this = (if n > SEM_VALUE_MAX then SEM_VALUE_MAX else n)
     \<and> (\<forall>t. m_Lock this = Some t \<longleftrightarrow> sq_holds (pcs t))
     \<and> m_EmptySemaphore this + threads owns_place pcs + length (m_Queue this) = m_queue_size this
     \<and> m_FullSemaphore this + threads owns_count pcs = length (m_Queue this) + threads (\<lambda>p. p = Clear_wait) pcs)"

lemma threads_upd:
  assumes "finite {t. \<not> outside (pcs t)}" "\<And>r. \<not> P (Out r)"
  shows "threads P (pcs(t := p)) + of_bool (P (pcs t)) = threads P pcs + of_bool (P p)"
proof -
  have sub: "P q \<Longrightarrow> \<not> outside q" for q using assms(2) by (cases q) auto
  have fin: "finite {u. P (pcs u)}" by (rule finite_subset [OF _ assms(1)]) (use sub in auto)
  define R where "R = {u. P (pcs u)} - {t}"
  have R: "finite R" "t \<notin> R" using fin by (simp_all add: R_def)
  have "{u. P ((pcs(t := p)) u)} = (if P p then insert t R else R)" "{u. P (pcs u)} = (if P (pcs t) then insert t R else R)"
    by (auto simp: R_def)
  then show ?thesis using R by (simp add: threads_def)
qed

lemma threads_pos:
  assumes "finite {t. \<not> outside (pcs t)}" "\<And>r. \<not> P (Out r)" "P (pcs t)"
  shows "threads P pcs > 0"
proof -
  have sub: "P q \<Longrightarrow> \<not> outside q" for q using assms(2) by (cases q) auto
  have "finite {u. P (pcs u)}" by (rule finite_subset [OF _ assms(1)]) (use sub in auto)
  then show ?thesis using assms(3) unfolding threads_def card_gt_0_iff by blast
qed

lemmas sq_defs = sq_lock_def empty_Wait_def full_Wait_def sem_down_def empty_Post_def full_Post_def

text \<open>What one action changes, for the mutex, the places and the counts.\<close>

lemma sq_next_lock:
  assumes "sq_next t this q = Some (this', p)" "p \<noteq> Crash"
  shows "m_Lock this' = m_Lock this \<and> sq_holds p = sq_holds q \<or> m_Lock this = None \<and> m_Lock this' = Some t \<and> \<not> sq_holds q \<and> sq_holds p
    \<or> m_Lock this' = None \<and> sq_holds q \<and> \<not> sq_holds p"
  using assms by (cases q) (auto simp: sq_defs split: if_splits list.splits)

lemma sq_next_size: "sq_next t this q = Some (this', p) \<Longrightarrow> m_queue_size this' = m_queue_size this"
  by (cases q) (auto simp: sq_defs split: if_splits list.splits)

lemma sq_next_place:
  assumes "sq_next t this q = Some (this', p)"
  shows "m_EmptySemaphore this' + of_bool (owns_place p) + length (m_Queue this')
    = m_EmptySemaphore this + of_bool (owns_place q) + length (m_Queue this)"
  using assms by (cases q) (auto simp: sq_defs split: if_splits list.splits)

lemma sq_next_count:
  assumes "sq_next t this q = Some (this', p)" "p \<noteq> Crash"
  shows "m_FullSemaphore this' + of_bool (owns_count p) + length (m_Queue this) + of_bool (q = Clear_wait)
    = m_FullSemaphore this + of_bool (owns_count q) + length (m_Queue this') + of_bool (p = Clear_wait)"
  using assms by (cases q) (auto simp: sq_defs split: if_splits list.splits)

lemma sq_next_crash: "sq_next t this q = Some (this', Crash) \<Longrightarrow> m_Queue this = [] \<and> (q = Pop_front \<or> \<not> sq_view (m_Queue this) q)"
  by (cases q) (auto simp: sq_defs split: if_splits list.splits)

lemma sq_next_view: "sq_next t this q = Some (this', p) \<Longrightarrow> sq_view (m_Queue this') p"
  by (cases q) (auto simp: sq_defs split: if_splits list.splits)

lemma sq_next_outside_lock: "sq_next t this q = Some (this', p) \<Longrightarrow> \<not> sq_holds q \<Longrightarrow> m_Queue this' = m_Queue this"
  by (cases q) (auto simp: sq_defs split: if_splits list.splits)

lemma sq_view_free: "\<not> sq_holds p \<Longrightarrow> sq_view q p"
  by (cases p) auto

lemma sq_invD:
  assumes "sq_inv n (this, pcs)"
  shows "finite {t. \<not> outside (pcs t)}" "pcs t \<noteq> Crash" "m_queue_size this = (if n > SEM_VALUE_MAX then SEM_VALUE_MAX else n)"
    "m_Lock this = Some t \<longleftrightarrow> sq_holds (pcs t)"
    "m_EmptySemaphore this + threads owns_place pcs + length (m_Queue this) = m_queue_size this"
    "m_FullSemaphore this + threads owns_count pcs = length (m_Queue this) + threads (\<lambda>p. p = Clear_wait) pcs"
    "sq_view (m_Queue this) (pcs t)"
  using assms by (simp_all add: sq_inv_def)

lemma outside_finite: "finite {t. \<not> outside (pcs t)} \<Longrightarrow> finite {u. \<not> outside ((pcs(t := p)) u)}"
  by (rule finite_subset [of _ "insert t {t. \<not> outside (pcs t)}"]) auto

lemma no_front_of_empty:
  assumes "sq_inv n (this, pcs)" "pcs t = Pop_front"
  shows "m_Queue this \<noteq> []"
proof -
  note i = sq_invD [OF assms(1)]
  have "m_Lock this = Some t" using i(4) [of t] assms(2) by simp
  then have "pcs u \<noteq> Clear_wait" for u using i(4) [of u] assms(2) by (cases "u = t") auto
  then have "threads (\<lambda>p. p = Clear_wait) pcs = 0" by (simp add: threads_def)
  moreover have "threads owns_count pcs > 0" using threads_pos [OF i(1), of owns_count t] assms(2) by simp
  ultimately show ?thesis using i(6) by auto
qed

lemma sq_inv_act:
  assumes "sq_inv n (this, pcs)" "sq_next t this (pcs t) = Some (this', p)"
  shows "sq_inv n (this', pcs(t := p))"
proof -
  note i = sq_invD [OF assms(1)]
  have p: "p \<noteq> Crash" using sq_next_crash assms(2) no_front_of_empty [OF assms(1)] i(7) by metis
  have view: "sq_view (m_Queue this') ((pcs(t := p)) u)" for u
  proof (cases "u = t \<or> \<not> sq_holds (pcs u)")
    case True
    then show ?thesis using sq_next_view [OF assms(2)] sq_view_free by auto
  next
    case False
    then have "\<not> sq_holds (pcs t)" using i(4) [of t] i(4) [of u] by auto
    then show ?thesis using False i(7) [of u] sq_next_outside_lock [OF assms(2)] by simp
  qed
  have lock: "m_Lock this' = Some u \<longleftrightarrow> sq_holds ((pcs(t := p)) u)" for u
    using sq_next_lock [OF assms(2) p] i(4) [of u] i(4) [of t] by (cases "u = t") auto
  have "m_EmptySemaphore this' + threads owns_place (pcs(t := p)) + length (m_Queue this') = m_queue_size this'"
    using sq_next_place [OF assms(2)] threads_upd [OF i(1), of owns_place t p] i(5) sq_next_size [OF assms(2)] by simp
  moreover have "m_FullSemaphore this' + threads owns_count (pcs(t := p)) = length (m_Queue this') + threads (\<lambda>p. p = Clear_wait) (pcs(t := p))"
    using sq_next_count [OF assms(2) p] threads_upd [OF i(1), of owns_count t p] threads_upd [OF i(1), of "\<lambda>p. p = Clear_wait" t p] i(6)
    by simp
  ultimately show ?thesis
    unfolding sq_inv_def using lock p view i(2,3) sq_next_size [OF assms(2)] outside_finite [OF i(1), of t p] by simp
qed

text \<open>A call and a time-out move a thread between places where it owns nothing.\<close>

lemma sq_inv_idle:
  assumes "sq_inv n (this, pcs)" "\<And>P. P \<in> {sq_holds, owns_place, owns_count, \<lambda>q. q = Clear_wait, \<lambda>q. q = Crash} \<Longrightarrow> \<not> P (pcs t) \<and> \<not> P p"
  shows "sq_inv n (this, pcs(t := p))"
proof -
  note i = sq_invD [OF assms(1)]
  have "threads P (pcs(t := p)) = threads P pcs" if "P \<in> {owns_place, owns_count, \<lambda>q. q = Clear_wait}" for P
    using threads_upd [OF i(1), of P t p] that assms(2) [of P] by auto
  moreover have "m_Lock this = Some u \<longleftrightarrow> sq_holds ((pcs(t := p)) u)" for u using i(4) [of u] assms(2) [of sq_holds] by auto
  moreover have "sq_view (m_Queue this) ((pcs(t := p)) u)" for u using i(7) [of u] assms(2) [of sq_holds] sq_view_free by auto
  ultimately show ?thesis
    unfolding sq_inv_def using i(2,3,5,6) outside_finite [OF i(1), of t p] assms(2) [of "\<lambda>q. q = Crash"] by simp
qed

lemma sq_step_inv: "sq_step A s e s' \<Longrightarrow> sq_inv n s \<Longrightarrow> sq_inv n s'"
proof (induction rule: sq_step.induct)
  case (call pcs t r p this)
  then show ?case by (intro sq_inv_idle) (auto elim: sq_entry.elims)
next
  case (timeout pcs t this)
  then show ?case by (intro sq_inv_idle) auto
qed (rule sq_inv_act)

lemma sq_run_inv: "sq_run A n es s \<Longrightarrow> sq_inv n s"
proof (induction rule: sq_run.induct)
  case start
  show ?case by (simp add: sq_inv_def SafeQueue_new_def threads_def)
qed (rule sq_step_inv)

subsection \<open>Safety\<close>

text \<open>
  C15. However the calls of the threads interleave, the queue never holds more than its size, no thread takes the front of an empty queue, and at
  most one thread is inside the mutex.
\<close>

theorem SafeQueue_safe:
  assumes "sq_run sq_entry n es (this, pcs)"
  shows "length (m_Queue this) \<le> n \<and> (\<forall>t. pcs t \<noteq> Crash) \<and> (\<forall>t u. sq_holds (pcs t) \<and> sq_holds (pcs u) \<longrightarrow> t = u)"
proof -
  note i = sq_invD [OF sq_run_inv [OF assms]]
  have "t = u" if "sq_holds (pcs t)" "sq_holds (pcs u)" for t u using that i(4) [of t] i(4) [of u] by simp
  then show ?thesis using i(2,3,5) by (auto split: if_splits)
qed

subsection \<open>A bounded first-in, first-out queue\<close>

text \<open>
  The specification: a list of at most \<open>n\<close> elements that takes elements at the end and gives them from the front. \<open>None\<close>
  is a sequence of events that such a queue does not allow.
\<close>

fun bounded_fifo :: "nat \<Rightarrow> 'a list \<Rightarrow> 'a sq_event list \<Rightarrow> 'a list option" where
  "bounded_fifo n q [] = Some q"
| "bounded_fifo n q (Enq x # es) = (if length q < n then bounded_fifo n (q @ [x]) es else None)"
| "bounded_fifo n q (Deq x # es) = (if q \<noteq> [] \<and> hd q = x then bounded_fifo n (tl q) es else None)"
| "bounded_fifo n q (Drop x # es) = (if q \<noteq> [] \<and> hd q = x then bounded_fifo n (tl q) es else None)"
| "bounded_fifo n q (Fault # es) = None"

lemma bounded_fifo_append: "bounded_fifo n q (es @ fs) = Option.bind (bounded_fifo n q es) (\<lambda>q. bounded_fifo n q fs)"
  by (induction n q es rule: bounded_fifo.induct) auto

text \<open>The element that a thread has removed from the queue and not yet returned.\<close>

fun in_hand :: "'a sq_pc \<Rightarrow> 'a list" where
  "in_hand (Pop_post x) = [x]"
| "in_hand (Unlock (Ret_value x)) = [x]"
| "in_hand p = []"

definition sq_hand :: "('a, 't) SafeQueue \<Rightarrow> ('t \<Rightarrow> 'a sq_pc) \<Rightarrow> 'a list" where
  "sq_hand this pcs = (case m_Lock this of None \<Rightarrow> [] | Some t \<Rightarrow> in_hand (pcs t))"

lemma sq_next_holder:
  assumes "sq_next t this q = Some (this', p)" "sq_holds q" "m_Lock this = Some t" "sq_view (m_Queue this) q" "p \<noteq> Crash"
    "owns_place q \<Longrightarrow> length (m_Queue this) < n"
  shows "bounded_fifo n (in_hand q @ m_Queue this) (sq_events this q)
    = Some ((case m_Lock this' of None \<Rightarrow> [] | Some u \<Rightarrow> in_hand p) @ m_Queue this')"
proof (cases q)
  case (Unlock r)
  then show ?thesis using assms by (cases r) auto
qed (use assms in \<open>auto simp: sq_defs split: if_splits\<close>)

lemma sq_next_other:
  assumes "sq_next t this q = Some (this', p)" "\<not> sq_holds q"
  shows "sq_events this q = [] \<and> m_Queue this' = m_Queue this \<and>
    (m_Lock this' = m_Lock this \<or> m_Lock this = None \<and> m_Lock this' = Some t \<and> in_hand p = [])"
  using assms by (cases q) (auto simp: sq_defs split: if_splits)

lemma hand_act:
  assumes inv: "sq_inv n (this, pcs)" and step: "sq_next t this (pcs t) = Some (this', p)"
  shows "bounded_fifo (m_queue_size this) (sq_hand this pcs @ m_Queue this) (sq_events this (pcs t))
    = Some (sq_hand this' (pcs(t := p)) @ m_Queue this')"
proof (cases "sq_holds (pcs t)")
  case True
  note i = sq_invD [OF inv]
  have p: "p \<noteq> Crash" using sq_invD(2) [OF sq_inv_act [OF inv step], of t] by simp
  have lock: "m_Lock this = Some t" using True i(4) by simp
  have room: "owns_place (pcs t) \<Longrightarrow> length (m_Queue this) < m_queue_size this"
    using threads_pos [OF i(1), of owns_place t] i(5) by simp
  have "m_Lock this' = None \<or> m_Lock this' = Some t" using sq_next_lock [OF step p] lock by auto
  then have "(case m_Lock this' of None \<Rightarrow> [] | Some u \<Rightarrow> in_hand p) = sq_hand this' (pcs(t := p))" by (auto simp: sq_hand_def)
  moreover have "sq_hand this pcs = in_hand (pcs t)" using lock by (simp add: sq_hand_def)
  ultimately show ?thesis using sq_next_holder [OF step True lock i(7) p room] by simp
next
  case False
  note o = sq_next_other [OF step False]
  have "m_Lock this \<noteq> Some t" using False sq_invD(4) [OF inv] by simp
  then have "sq_hand this' (pcs(t := p)) = sq_hand this pcs" using o by (auto simp: sq_hand_def split: option.splits)
  then show ?thesis using o by simp
qed

lemma hand_idle: "\<not> sq_holds (pcs t) \<Longrightarrow> sq_inv n (this, pcs) \<Longrightarrow> sq_hand this (pcs(t := p)) = sq_hand this pcs"
  using sq_invD(4) [of n this pcs t] by (auto simp: sq_hand_def split: option.splits)

lemma sq_run_fifo: "sq_run A n es s \<Longrightarrow>
  bounded_fifo (m_queue_size (fst s)) [] es = Some (sq_hand (fst s) (snd s) @ m_Queue (fst s))"
proof (induction rule: sq_run.induct)
  case start
  show ?case by (simp add: SafeQueue_new_def sq_hand_def)
next
  case (more es s e s')
  note inv = sq_run_inv [OF more.hyps(1)]
  show ?case using more.hyps(2)
  proof (cases rule: sq_step.cases)
    case (act t this pcs this' p)
    have "m_queue_size this' = m_queue_size this" using sq_next_size [OF act(4)] .
    then show ?thesis using more.IH hand_act [OF inv [unfolded act(1)] act(4)] act by (simp add: bounded_fifo_append fun_upd_def)
  next
    case (call pcs t r p this)
    then show ?thesis using more.IH hand_idle [of pcs t n this p] inv by (simp del: fun_upd_apply)
  next
    case (timeout pcs t this)
    then show ?thesis using more.IH hand_idle [of pcs t n this "Out (Ret_bool False)"] inv by (simp del: fun_upd_apply)
  qed
qed

text \<open>
  C16. However the calls interleave, the queue is a bounded first-in, first-out queue for its users: the elements put in, those the pops return
  and those that \<^verbatim>\<open>Clear\<close> drops, in their order, are events of a list of at most the given size that takes elements at its end
  and gives them from its front, and no operation is applied to an empty queue. While the mutex is free, the
  list is the content of the queue.
\<close>

theorem SafeQueue_fifo:
  assumes "sq_run sq_entry n es (this, pcs)"
  shows "\<exists>q. bounded_fifo (min n SEM_VALUE_MAX) [] es = Some q \<and> (m_Lock this = None \<longrightarrow> q = m_Queue this)"
proof -
  have "m_queue_size this = min n SEM_VALUE_MAX" using sq_invD(3) [OF sq_run_inv [OF assms]] by (simp add: min_def)
  then show ?thesis using sq_run_fifo [OF assms] by (auto simp: sq_hand_def)
qed

subsection \<open>Progress\<close>

text \<open>The calls other than \<^verbatim>\<open>Push\<close> and \<^verbatim>\<open>Clear\<close>, and the places their threads can be in.\<close>

fun blocking_call :: "'a sq_pc \<Rightarrow> bool" where
  "blocking_call (Push_lock v) = False"
| "blocking_call Clear_lock = False"
| "blocking_call p = True"

fun blocking_place :: "'a sq_pc \<Rightarrow> bool" where
  "blocking_place (Push_lock v) = False"
| "blocking_place (Push_test v) = False"
| "blocking_place (Push_wait v) = False"
| "blocking_place Clear_lock = False"
| "blocking_place Clear_test = False"
| "blocking_place Clear_pop = False"
| "blocking_place Clear_wait = False"
| "blocking_place Clear_post = False"
| "blocking_place p = True"

lemma sq_next_blocking: "sq_next t this q = Some (this', p) \<Longrightarrow> blocking_place q \<Longrightarrow> blocking_place p"
  by (cases q) (auto simp: sq_defs split: if_splits list.splits)

lemma blocking_places: "sq_run blocking_call n es s \<Longrightarrow> blocking_place (snd s t)"
proof (induction arbitrary: t rule: sq_run.induct)
  case (more es s e s')
  show ?case using more.hyps(2)
  proof (cases rule: sq_step.cases)
    case (call pcs u r p this)
    have "blocking_place p" using call(5,6) by (cases p) auto
    then show ?thesis using call more.IH [of t] by simp
  next
    case (act u this pcs this' p)
    then show ?thesis using more.IH [of t] more.IH [of u] sq_next_blocking by auto
  qed (use more.IH [of t] in auto)
qed simp

lemma holder_moves: "sq_holds q \<Longrightarrow> blocking_place q \<Longrightarrow> sq_next t this q \<noteq> None"
  by (cases q) (auto split: list.splits)

lemma stuck_place:
  assumes "sq_next t this q = None" "blocking_place q" "m_Lock this = None" "q \<noteq> Crash"
  shows "outside q \<or> (\<exists>v. q = BlockPush_wait v) \<and> m_EmptySemaphore this = 0 \<or> (\<exists>b. q = Pop_wait b) \<and> m_FullSemaphore this = 0"
  using assms by (cases q) (auto simp: sq_defs split: if_splits list.splits)

text \<open>
  C17. Threads that use \<^verbatim>\<open>BlockPush\<close>, \<^verbatim>\<open>BlockPop\<close>, \<^verbatim>\<open>Pop\<close>, \<^verbatim>\<open>GetSize\<close> and \<^verbatim>\<open>IsEmpty\<close> never block each other for no reason: while a thread is inside the queue, some thread can go on, or
  every thread inside the queue waits for an element of an empty queue, or for a place in a full one.
\<close>

theorem SafeQueue_progress:
  assumes "sq_run blocking_call n es (this, pcs)" "n > 0" "\<not> outside (pcs u)"
  shows "(\<exists>t. sq_next t this (pcs t) \<noteq> None)
    \<or> m_Queue this = [] \<and> (\<forall>t. outside (pcs t) \<or> (\<exists>b. pcs t = Pop_wait b))
    \<or> length (m_Queue this) = m_queue_size this \<and> (\<forall>t. outside (pcs t) \<or> (\<exists>v. pcs t = BlockPush_wait v))"
proof (cases "\<exists>t. sq_next t this (pcs t) \<noteq> None")
  case False
  note i = sq_invD [OF sq_run_inv [OF assms(1)]] and b = blocking_places [OF assms(1), simplified]
  have none: "sq_next t this (pcs t) = None" for t using False by blast
  have "m_Lock this = None" using none holder_moves [OF _ b] i(4) by (metis not_None_eq)
  then have stuck: "outside (pcs t) \<or> (\<exists>v. pcs t = BlockPush_wait v) \<and> m_EmptySemaphore this = 0
      \<or> (\<exists>b. pcs t = Pop_wait b) \<and> m_FullSemaphore this = 0" for t
    by (intro stuck_place [OF none b _ i(2)])
  have "\<not> owns_place (pcs t) \<and> \<not> owns_count (pcs t) \<and> pcs t \<noteq> Clear_wait" for t
    using stuck [of t] by (auto elim: outside.elims)
  then have z: "threads owns_place pcs = 0" "threads owns_count pcs = 0" "threads (\<lambda>p. p = Clear_wait) pcs = 0"
    by (simp_all add: threads_def)
  have "m_queue_size this > 0" using i(3) assms(2) by (simp add: SEM_VALUE_MAX_def)
  then show ?thesis using stuck [of u] assms(3) stuck z i(5,6) by (cases "m_EmptySemaphore this = 0") auto
qed blast

subsection \<open>A deadlock\<close>

lemma run_act:
  assumes "sq_run A n es (this, pcs)" "sq_next t this (pcs t) = Some (this', p)" "fs = es @ sq_events this (pcs t)"
  shows "sq_run A n fs (this', pcs(t := p))"
  unfolding assms(3) by (rule sq_run.more [OF assms(1)]) (rule sq_step.act, rule assms(2))

lemma run_call:
  assumes "sq_run A n es (this, pcs)" "pcs t = Out r" "sq_entry p" "A p"
  shows "sq_run A n es (this, pcs(t := p))"
proof -
  have "sq_step A (this, pcs) [] (this, pcs(t := p))" using assms(2-4) by (rule sq_step.call)
  from sq_run.more [OF assms(1) this] show ?thesis by simp
qed

text \<open>
  \<^verbatim>\<open>Push\<close> waits for a place with the mutex held. When a \<^verbatim>\<open>BlockPush\<close> has taken the last place and not yet the mutex, both wait for ever, and with
  them every thread that calls the queue.
\<close>

fun at_gate :: "'a sq_pc \<Rightarrow> bool" where
  "at_gate (Out r) = True"
| "at_gate (BlockPush_lock v) = True"
| "at_gate p = sq_entry p"

definition dead :: "'t \<Rightarrow> 't \<Rightarrow> 'a \<Rightarrow> 'a \<Rightarrow> ('a, 't) SafeQueue \<times> ('t \<Rightarrow> 'a sq_pc) \<Rightarrow> bool" where
  "dead t u v w s \<longleftrightarrow> (case s of (this, pcs) \<Rightarrow> m_Lock this = Some u \<and> m_EmptySemaphore this = 0 \<and> m_FullSemaphore this = 0
     \<and> pcs t = BlockPush_lock v \<and> pcs u = Push_wait w \<and> (\<forall>x. x \<noteq> u \<longrightarrow> at_gate (pcs x)))"

lemma at_gate_blocked:
  assumes "m_Lock this \<noteq> None" "m_EmptySemaphore this = 0" "m_FullSemaphore this = 0" "at_gate q \<or> q = Push_wait w"
  shows "sq_next t this q = None"
  using assms by (cases q) (auto simp: sq_defs)

lemma dead_step:
  assumes "sq_step A s e s'" "dead t u v w s"
  shows "dead t u v w s'"
  using assms(1)
proof (cases rule: sq_step.cases)
  case (call pcs x r p this)
  have "at_gate p" using call(5) by (cases p) auto
  then show ?thesis using call assms(2) by (auto simp: dead_def)
next
  case (act x this pcs this' p)
  have "at_gate (pcs x) \<or> pcs x = Push_wait w" using act(1) assms(2) by (cases "x = u") (auto simp: dead_def)
  then show ?thesis using at_gate_blocked [of this "pcs x" w x] act assms(2) by (auto simp: dead_def)
next
  case (timeout pcs x this)
  then show ?thesis using assms(2) by (auto simp: dead_def)
qed

lemma dead_forever: "(\<lambda>s s'. \<exists>e. sq_step A s e s')\<^sup>*\<^sup>* s s' \<Longrightarrow> dead t u v w s \<Longrightarrow> dead t u v w s'"
  by (induction rule: rtranclp_induct) (auto intro: dead_step)

lemma SafeQueue_deadlock:
  "\<exists>s :: (nat, nat) SafeQueue \<times> (nat \<Rightarrow> nat sq_pc). sq_run sq_entry 1 [] s
    \<and> (\<forall>s'. (\<lambda>s s'. \<exists>e. sq_step sq_entry s e s')\<^sup>*\<^sup>* s s' \<longrightarrow> dead 0 1 5 6 s')"
proof -
  let ?new = "SafeQueue_new 1 :: (nat, nat) SafeQueue" and ?o = "\<lambda>_ :: nat. Out Ret_void :: nat sq_pc"
  let ?p = "?o(0 := BlockPush_lock 5, 1 := Push_wait 6)"
  let ?d = "?new\<lparr>m_EmptySemaphore := 0, m_Lock := Some 1\<rparr>"
  have "sq_run sq_entry 1 [] (?new, ?o(0 := BlockPush_wait 5))" by (rule run_call [OF sq_run.start]) simp_all
  then have "sq_run sq_entry 1 [] (?new\<lparr>m_EmptySemaphore := 0\<rparr>, ?o(0 := BlockPush_wait 5, 0 := BlockPush_lock 5))"
    by (rule run_act) (simp_all add: sq_defs SafeQueue_new_def SEM_VALUE_MAX_def)
  then have "sq_run sq_entry 1 [] (?new\<lparr>m_EmptySemaphore := 0\<rparr>, ?o(0 := BlockPush_wait 5, 0 := BlockPush_lock 5, 1 := Push_lock 6))"
    by (rule run_call) simp_all
  then have "sq_run sq_entry 1 [] (?d, ?o(0 := BlockPush_wait 5, 0 := BlockPush_lock 5, 1 := Push_lock 6, 1 := Push_test 6))"
    by (rule run_act) (simp_all add: sq_defs SafeQueue_new_def)
  then have "sq_run sq_entry 1 [] (?d, ?o(0 := BlockPush_wait 5, 0 := BlockPush_lock 5, 1 := Push_lock 6, 1 := Push_test 6, 1 := Push_wait 6))"
    by (rule run_act) (simp_all add: SafeQueue_new_def SEM_VALUE_MAX_def)
  then have run: "sq_run sq_entry 1 [] (?d, ?p)" by simp
  have d: "dead 0 1 5 6 (?d, ?p)" by (simp add: dead_def SafeQueue_new_def SEM_VALUE_MAX_def)
  show ?thesis
    by (intro exI [of _ "(?d, ?p)"] conjI allI impI run) (rule dead_forever [OF _ d])
qed

subsection \<open>One element\<close>

text \<open>Thread 0 has put an element into a queue for one and holds the mutex.\<close>

lemma one_element:
  assumes "A (BlockPush_wait 7)"
  shows "sq_run A 1 [Enq 7] (\<lparr>m_Queue = [7 :: nat], m_Lock = Some 0, m_queue_size = 1, m_EmptySemaphore = 0, m_FullSemaphore = 0\<rparr>,
    (\<lambda>_ :: nat. Out Ret_void)(0 := Put_post False))"
proof -
  let ?o = "\<lambda>_ :: nat. Out Ret_void :: nat sq_pc"
  let ?q = "\<lambda>q l e. \<lparr>m_Queue = q, m_Lock = l, m_queue_size = 1, m_EmptySemaphore = e, m_FullSemaphore = 0\<rparr> :: (nat, nat) SafeQueue"
  have new: "SafeQueue_new 1 = ?q [] None 1" by (simp add: SafeQueue_new_def SEM_VALUE_MAX_def)
  have "sq_run A 1 [] (?q [] None 1, ?o(0 := BlockPush_wait 7))"
    unfolding new [symmetric] by (rule run_call [OF sq_run.start]) (simp_all add: assms)
  then have "sq_run A 1 [] (?q [] None 0, ?o(0 := BlockPush_wait 7, 0 := BlockPush_lock 7))"
    by (rule run_act) (simp_all add: sq_defs)
  then have "sq_run A 1 [] (?q [] (Some 0) 0, ?o(0 := BlockPush_wait 7, 0 := BlockPush_lock 7, 0 := Put 7 False))"
    by (rule run_act) (simp_all add: sq_defs)
  then have "sq_run A 1 [Enq 7] (?q [7] (Some 0) 0, ?o(0 := BlockPush_wait 7, 0 := BlockPush_lock 7, 0 := Put 7 False, 0 := Put_post False))"
    by (rule run_act) simp_all
  then show ?thesis by simp
qed

theorem SafeQueue_safe_witness: "length [7 :: nat] \<le> 1"
  using SafeQueue_safe [OF one_element [of sq_entry]] by simp

theorem SafeQueue_progress_witness:
  "\<exists>t. sq_next t \<lparr>m_Queue = [7 :: nat], m_Lock = Some 0, m_queue_size = 1, m_EmptySemaphore = 0, m_FullSemaphore = 0\<rparr>
     (((\<lambda>_ :: nat. Out Ret_void)(0 := Put_post False)) t) \<noteq> None"
proof -
  let ?p = "(\<lambda>_ :: nat. Out Ret_void)(0 := Put_post False) :: nat \<Rightarrow> nat sq_pc"
  have "\<not> outside (?p 0)" "?p 0 \<noteq> Pop_wait b" "?p 0 \<noteq> BlockPush_wait v" for b v by simp_all
  then show ?thesis using SafeQueue_progress [OF one_element [of blocking_call], of 0] by force
qed

text \<open>Thread 0 puts the element in, thread 1 takes it.\<close>

lemma push_pop:
  "sq_run sq_entry 1 [Enq 7, Deq 7] (\<lparr>m_Queue = [], m_Lock = None, m_queue_size = 1, m_EmptySemaphore = 1, m_FullSemaphore = 0\<rparr>,
    (\<lambda>_ :: nat. Out Ret_void)(1 := Out (Ret_value (7 :: nat))))"
proof -
  let ?o = "\<lambda>_ :: nat. Out Ret_void :: nat sq_pc"
  let ?q = "\<lambda>q l e f. \<lparr>m_Queue = q, m_Lock = l, m_queue_size = 1, m_EmptySemaphore = e, m_FullSemaphore = f\<rparr> :: (nat, nat) SafeQueue"
  have "sq_run sq_entry 1 [Enq 7] (?q [7] (Some 0) 0 0, ?o(0 := Put_post False))" by (rule one_element) simp
  then have "sq_run sq_entry 1 [Enq 7] (?q [7] (Some 0) 0 1, ?o(0 := Put_post False, 0 := Unlock Ret_void))"
    by (rule run_act) (simp_all add: sq_defs)
  then have "sq_run sq_entry 1 [Enq 7] (?q [7] None 0 1, ?o(0 := Put_post False, 0 := Unlock Ret_void, 0 := Out Ret_void))"
    by (rule run_act) simp_all
  then have "sq_run sq_entry 1 [Enq 7] (?q [7] None 0 1, ?o)" by (simp add: fun_upd_idem)
  then have "sq_run sq_entry 1 [Enq 7] (?q [7] None 0 1, ?o(1 := Pop_wait False))" by (rule run_call) simp_all
  then have "sq_run sq_entry 1 [Enq 7] (?q [7] None 0 0, ?o(1 := Pop_wait False, 1 := Pop_lock))" by (rule run_act) (simp_all add: sq_defs)
  then have "sq_run sq_entry 1 [Enq 7] (?q [7] (Some 1) 0 0, ?o(1 := Pop_wait False, 1 := Pop_lock, 1 := Pop_front))"
    by (rule run_act) (simp_all add: sq_defs)
  then have "sq_run sq_entry 1 [Enq 7] (?q [7] (Some 1) 0 0, ?o(1 := Pop_wait False, 1 := Pop_lock, 1 := Pop_front, 1 := Pop_pop 7))"
    by (rule run_act) simp_all
  then have "sq_run sq_entry 1 [Enq 7] (?q [] (Some 1) 0 0, ?o(1 := Pop_wait False, 1 := Pop_lock, 1 := Pop_front, 1 := Pop_pop 7, 1 := Pop_post 7))"
    by (rule run_act) simp_all
  then have "sq_run sq_entry 1 [Enq 7] (?q [] (Some 1) 1 0, ?o(1 := Pop_wait False, 1 := Pop_lock, 1 := Pop_front, 1 := Pop_pop 7, 1 := Pop_post 7, 1 := Unlock (Ret_value 7)))"
    by (rule run_act) (simp_all add: sq_defs)
  then have "sq_run sq_entry 1 [Enq 7, Deq 7] (?q [] None 1 0, ?o(1 := Pop_wait False, 1 := Pop_lock, 1 := Pop_front, 1 := Pop_pop 7, 1 := Pop_post 7, 1 := Unlock (Ret_value 7), 1 := Out (Ret_value 7)))"
    by (rule run_act) simp_all
  then show ?thesis by simp
qed

theorem SafeQueue_fifo_witness: "bounded_fifo 1 [] [Enq (7 :: nat), Deq 7] = Some []"
  using SafeQueue_fifo [OF push_pop] by (simp add: SEM_VALUE_MAX_def)

end
