(* ===== verification/Spec2Isabelle.thy ===== *)
theory Spec2Isabelle
  imports Crc Hash Md5 Base58 Base64 Easy_Des Json_Roundtrip Timer_Service Net_Serialize Net_Socks Ini_File Rw_Lock Safe_Queue
begin

text \<open>
  \<^bold>\<open>A verification of the libraries of the repository: cryption, univalue, serialize, netbase and parts of comLib.\<close>

  The repository collects C++ libraries and small programs. Its own logic is in four libraries under
  \<^verbatim>\<open>src/util\<close>, \<^verbatim>\<open>cryption\<close> (checksums, hash functions, DES, base58 and base64), \<^verbatim>\<open>univalue\<close> (a JSON value class with a
  reader and a writer), \<^verbatim>\<open>serialize\<close> (a byte stream and the binary encoding of values) and \<^verbatim>\<open>netbase\<close> (network
  addresses, subnets, lookups and connections through proxies), and in parts of \<^verbatim>\<open>src/comLib\<close>: the timer library
  \<^verbatim>\<open>dhntimer\<close>, the configuration files, the read-write lock and the blocking queue. The rest are wrappers of system calls, exercises and third-party code.

  \<^bold>\<open>Conventions.\<close> An array or a C string is a list, and a pointer into it the list of the elements from there
  on; a C string ends where the list ends. \<^verbatim>\<open>unsigned char\<close>, \<^verbatim>\<open>uint32_t\<close>, \<^verbatim>\<open>uint64_t\<close> are words of their width
  (theory Prelude) and wrap around; the machine is LP64, little endian, with a signed \<^verbatim>\<open>char\<close>, as the makefiles'
  target. Lengths of containers are natural numbers unless the code stores them in a narrower integer. An
  operation that changes an object returns it. A failed \<^verbatim>\<open>assert\<close> is \<open>None\<close>, an exception the left side of a sum
  type, \<^verbatim>\<open>return false\<close> a Boolean or \<open>None\<close>; a read outside an array is an error value, never a made-up
  element.

  \<^bold>\<open>Library cryption.\<close>
  \<^item> Crc (\<^verbatim>\<open>CRC/CRC.cpp\<close>): both table-driven checksums. They equal the bit-serial division by their polynomial
    and detect every change of one byte.
  \<^item> Block_Hasher: the buffered \<^verbatim>\<open>Write\<close> that the four hash classes share, as one function of the block size and the
    compression function. The locale \<open>block_hasher\<close> proves once that cutting the data into calls does not matter; each
    hash class interprets it.
  \<^item> Sha2_Common, Sha256, Sha512, Sha1, Ripemd160 (\<^verbatim>\<open>sha256\<close>, \<^verbatim>\<open>sha512\<close>, \<^verbatim>\<open>sha1\<close>, \<^verbatim>\<open>ripemd160\<close>): the unrolled compression
    functions equal the definitions of the standards, and \<^verbatim>\<open>Finalize\<close> returns the standard's digest of all data
    written.
  \<^item> Hash (\<^verbatim>\<open>hash/hash.h\<close>): \<^verbatim>\<open>CHash256\<close> and \<^verbatim>\<open>CHash160\<close> as clients of the contract \<open>digester\<close>.
  \<^item> Md5 (\<^verbatim>\<open>MD5/MD5.cpp\<close>): the class and its wrappers. The loop of \<^verbatim>\<open>update\<close> may not end when its 32-bit counter wraps, so
    it is a partial function; for input below that limit it returns.
  \<^item> Base58 (\<^verbatim>\<open>base58/base58.cpp\<close>): the locale \<open>radix_conversion\<close> treats the carry loop of both directions; the assertions
    never fail, encoding and decoding are inverse.
  \<^item> Base64 (\<^verbatim>\<open>base64/base64.cpp\<close>): the encoder is correct, both decoders are shown not to be.
  \<^item> Des, Easy_Des (\<^verbatim>\<open>DES/DES.cpp\<close>): tables, key schedule, rounds, ECB and CBC loops; decryption inverts encryption (locale
    \<open>des_pair\<close>), also through the padding and hexadecimal text of \<^verbatim>\<open>EasyDES\<close>.

  \<^bold>\<open>Library univalue.\<close>
  \<^item> Json_Lex (\<^verbatim>\<open>getJsonToken\<close> of \<^verbatim>\<open>univalue_read.cpp\<close>): the tokenizer \<open>scan_token\<close>, whose tokens all consume input, and the function itself,
    which reports the bytes consumed as an unsigned 32-bit number.
  \<^item> Univalue (\<^verbatim>\<open>univalue.cpp\<close>, \<^verbatim>\<open>univalue.h\<close>): the class; \<open>uv_wf\<close> is its invariant, the locale \<open>first_come_map\<close> the contract of
    an object's members. Conversions between text and floating-point numbers are arguments.
  \<^item> Json_Write (\<^verbatim>\<open>univalue_write.cpp\<close>, \<^verbatim>\<open>univalue_escapes.h\<close>) and Json_Read (\<^verbatim>\<open>UniValue::read\<close>, a state machine whose stack of
    pointers is determined by its height; the loop advances by the 32-bit number, so it need not end on texts of 4 GiB and more).
  \<^item> Json_Grammar: on shorter texts the machine returns and accepts exactly the token sequences of the grammar, by a
    simulation between its states and the open containers.
  \<^item> Json_Roundtrip: a written value is read back, for 7-bit strings; what happens to other bytes. The locale \<open>bracket\<close>
    holds what the two loops of the writer share.

  \<^bold>\<open>Library serialize\<close> (\<^verbatim>\<open>serialize.h\<close>).
  \<^item> Data_Stream: \<^verbatim>\<open>CDataStream\<close> refines the list of its unread bytes; the locales \<open>byte_sink\<close> and \<open>byte_source\<close> are what the templates
    rely on, interpreted by \<^verbatim>\<open>CDataStream\<close> and, for writing, \<^verbatim>\<open>CSizeComputer\<close>.
  \<^item> Serialize: the templates take the operations of the stream and of the element types as arguments. Sizes and
    encodings agree, and values are read back.

  \<^bold>\<open>Library netbase\<close> (\<^verbatim>\<open>netbase.cpp\<close>, \<^verbatim>\<open>netbase.h\<close>).
  \<^item> Net_Addr: \<^verbatim>\<open>CNetAddr\<close>, 16 bytes in network order. The tests for reserved ranges are prefixes of bits, the group of an
    address stands for its site.
  \<^item> Net_Service: \<^verbatim>\<open>CService\<close>, text, \<^verbatim>\<open>SplitHostPort\<close> and the lookups. The record \<open>netlib\<close> holds what they use of other
    libraries; what is relied on is stated as \<open>resolver_ok\<close> and \<open>names_ok\<close>. What a lookup answers; a service is read back from its text and from
    its socket address, and ordered by its key.
  \<^item> Net_Subnet: \<^verbatim>\<open>CSubNet\<close>; which addresses a subnet written with a prefix length or a mask matches, and that the
    constructors from text give well-formed values.
  \<^item> Net_Socks: receiving with a timeout, SOCKS5, connecting and the table of proxies. The record \<open>sockets\<close> holds the system
    calls on an arbitrary state of the world; \<open>sockets_ok\<close> states their laws about open sockets and bytes sent, none about
    the clock; \<open>io_runs\<close> says how an operation ends. A failed connection leaves no socket open, and a connection waits for ever
    only if the turns of waiting can be repeated without end before a deadline (\<open>waits_end\<close>).
  \<^item> Net_Serialize: the classes in the byte streams of the library serialize, over its locales.

  \<^bold>\<open>Timer library\<close> (\<^verbatim>\<open>comLib/dhntimer\<close>).
  \<^item> Time_Value (\<^verbatim>\<open>Time_Value.cpp\<close>): times as seconds and microseconds, an instance of the library's linear orders.
  \<^item> Timer_Node (the node class of \<^verbatim>\<open>DHNTimerQueue.h\<close>) over an explicit memory of nodes, and Free_List (\<^verbatim>\<open>Free_List.h\<close>), whose
    contract is the locale \<open>node_pool\<close>.
  \<^item> Timer_Wheel (\<^verbatim>\<open>DHNTimerWheel.h\<close>), every operation on the rings of the spokes; Timer_Wheel_Inv, Timer_Wheel_Ops,
    Timer_Wheel_Ids and Timer_Wheel_Life: the invariant of the rings, how each operation changes the timers on the wheel,
    identifiers, construction and destruction.
  \<^item> Timer_Queue (\<^verbatim>\<open>DHNTimerQueue.h\<close>): expiring and dispatching over the virtual functions of a queue, with the locale
    \<open>timer_queue\<close>, which the wheel interprets. Timer_Run: the states reachable by calls of the library, their invariant,
    and that every due timer is dispatched.
  \<^item> Timer_Service (\<^verbatim>\<open>DHNTimer_T.h\<close>, \<^verbatim>\<open>DHNTimer.cpp\<close>): adding and cancelling timers and the loop of the timer thread. Clock, tasks,
    system calls and what other threads do to the queue meanwhile are arguments; the thread closes its socket on every way out.

  \<^bold>\<open>Other parts of comLib.\<close>
  \<^item> Ini_File (\<^verbatim>\<open>IniFile.cpp\<close>): settings in ordered maps (locale \<open>key_map\<close>), the reader and the writer of the file format, with
    the input stream of the standard library. Setters and getters, when loading returns, and that written settings are
    read back.
  \<^item> Rw_Lock (\<^verbatim>\<open>GMRWLockImp.cpp\<close>, the POSIX branch): the operations on the two counters, and the interleavings of the threads
    that call them as a step relation with the waits and wake-ups of the condition variable. A writer is alone, and no
    wake-up is lost. The counters are integers without overflow, as there are fewer than 2 to the 31 threads.
  \<^item> Safe_Queue (\<^verbatim>\<open>SafeQueue.h\<close>): every operation as the actions of a thread on the queue, the mutex and the two semaphores, and
    the runs of any number of threads. The queue refines a bounded first-in, first-out queue of the values that the calls
    take and return; the blocking calls do not deadlock, but \<^verbatim>\<open>Push\<close> does when it is mixed with \<^verbatim>\<open>BlockPush\<close>.

  \<^bold>\<open>Bounds.\<close> No definition uses fuel. Loops that may not end are partial functions, with \<open>None\<close> for a loop that never
  returns: the update loop of MD5, the reader of univalue, the searches and loops of the timer wheel, queue and thread, the receive loop of
  netbase and the loading of configuration files; that they return is proved under the conditions the theorems state. Round trips ask for what the code needs:
  at most \<^verbatim>\<open>MAX_SIZE\<close> elements per container, fewer than 2 to the 32 bytes in a stream or a JSON text, input below the 32-bit counter
  of MD5, a port from 1 to 65535. Times in milliseconds of netbase are integers without overflow.

  \<^bold>\<open>Not modelled.\<close> \<^verbatim>\<open>CAutoFile\<close>, allocators, threads, logging and system information are system calls.
  \<^verbatim>\<open>json_spirit\<close>, \<^verbatim>\<open>cJSON\<close> and \<^verbatim>\<open>getopt\<close> are third-party code. Locks are taken to be held (the
  read-write lock and the blocking queue apart). The exercises in C on linked lists and skip lists have logic of their own that is not
  modelled. The programs under the other
  directories are exercises.
\<close>

end
